(* ===== verification/Kolme_Prelude.thy ===== *)
theory Kolme_Prelude
  imports Complex_Main "HOL-Library.Word" "HOL-Library.List_Lexorder" "HOL-Library.Char_ord"
begin

text \<open>
  Shared vocabulary of the development: the fixed-width integer types of the Rust code, results
  as sums with a bind and a left fold over them, and the collections that the component theories
  add their rules to.

  \<^item> \<open>result_simps\<close> holds the rules that invert a successful or failed result;
  \<^item> \<open>preserve\<close> holds the "this operation keeps this invariant" rules of the components;
  \<^item> \<open>frame\<close> holds the "this operation leaves this part of the state alone" rules.

  Arithmetic is that of the release build: the workspace sets no \<open>overflow-checks\<close>, so
  \<open>+\<close> on \<open>u64\<close> wraps, exactly as \<open>+\<close> on \<open>64 word\<close>.
\<close>

named_theorems result_simps
named_theorems preserve
named_theorems frame

type_synonym u8 = "8 word"
type_synonym u16 = "16 word"
type_synonym u32 = "32 word"
type_synonym u64 = "64 word"
type_synonym u128 = "128 word"
type_synonym bytes = "u8 list"

section \<open>Results\<close>

definition rbind :: "'e + 'a \<Rightarrow> ('a \<Rightarrow> 'e + 'b) \<Rightarrow> 'e + 'b" where
  "rbind m f = (case m of Inl e \<Rightarrow> Inl e | Inr x \<Rightarrow> f x)"

definition ensure :: "bool \<Rightarrow> 'e \<Rightarrow> 'e + unit" where
  "ensure b e = (if b then Inr () else Inl e)"

definition ok_or :: "'a option \<Rightarrow> 'e \<Rightarrow> 'e + 'a" where
  "ok_or x e = (case x of None \<Rightarrow> Inl e | Some y \<Rightarrow> Inr y)"

definition is_ok :: "'e + 'a \<Rightarrow> bool" where
  "is_ok m = (case m of Inl _ \<Rightarrow> False | Inr _ \<Rightarrow> True)"

fun rfold :: "('a \<Rightarrow> 's \<Rightarrow> 'e + 's) \<Rightarrow> 'a list \<Rightarrow> 's \<Rightarrow> 'e + 's" where
  "rfold f [] s = Inr s"
| "rfold f (x # xs) s = rbind (f x s) (rfold f xs)"

fun rmap :: "('a \<Rightarrow> 'e + 'b) \<Rightarrow> 'a list \<Rightarrow> 'e + 'b list" where
  "rmap f [] = Inr []"
| "rmap f (x # xs) = rbind (f x) (\<lambda>y. rbind (rmap f xs) (\<lambda>ys. Inr (y # ys)))"

lemma rbind_simps [simp]:
  "rbind (Inl e) f = Inl e"
  "rbind (Inr x) f = f x"
  by (simp_all add: rbind_def)

lemma rbind_Inr_iff [result_simps]:
  "rbind m f = Inr y \<longleftrightarrow> (\<exists>x. m = Inr x \<and> f x = Inr y)"
  by (cases m) auto

lemma rbind_fundef_cong [fundef_cong]:
  "m = m' \<Longrightarrow> (\<And>x. m' = Inr x \<Longrightarrow> f x = f' x) \<Longrightarrow> rbind m f = rbind m' f'"
  by (cases m') auto

lemma rbind_Inl_iff:
  "rbind m f = Inl e \<longleftrightarrow> m = Inl e \<or> (\<exists>x. m = Inr x \<and> f x = Inl e)"
  by (cases m) auto

lemma ensure_Inr_iff [result_simps]: "ensure b e = Inr u \<longleftrightarrow> b"
  by (simp add: ensure_def)

lemma ensure_simps [simp]:
  "b \<Longrightarrow> ensure b e = Inr ()"
  "\<not> b \<Longrightarrow> ensure b e = Inl e"
  by (simp_all add: ensure_def)

lemma ok_or_simps [simp]:
  "ok_or None e = Inl e"
  "ok_or (Some x) e = Inr x"
  by (simp_all add: ok_or_def)

lemma ok_or_Inr_iff [result_simps]: "ok_or x e = Inr y \<longleftrightarrow> x = Some y"
  by (cases x) auto

lemma is_ok_simps [simp]: "is_ok (Inr x)" "\<not> is_ok (Inl e)"
  by (simp_all add: is_ok_def)

lemma is_ok_iff: "is_ok m \<longleftrightarrow> (\<exists>x. m = Inr x)"
  by (cases m) auto

text \<open>An invariant that every step of a fold keeps is kept by the fold.\<close>

lemma rfold_invariant:
  assumes "rfold f xs s = Inr s'"
    and "I s"
    and "\<And>x t t'. x \<in> set xs \<Longrightarrow> I t \<Longrightarrow> f x t = Inr t' \<Longrightarrow> I t'"
  shows "I s'"
  using assms
proof (induction xs arbitrary: s)
  case Nil
  then show ?case by simp
next
  case (Cons x xs)
  then obtain t where "f x s = Inr t" "rfold f xs t = Inr s'"
    by (auto simp: result_simps)
  with Cons show ?case by (metis list.set_intros(1) list.set_intros(2))
qed

text \<open>Every element of a successful fold was applied successfully at a state satisfying it.\<close>

lemma rfold_applied:
  assumes "rfold f xs s = Inr s'" "x \<in> set xs" "I s"
    and "\<And>x t t'. x \<in> set xs \<Longrightarrow> I t \<Longrightarrow> f x t = Inr t' \<Longrightarrow> I t'"
  shows "\<exists>t t'. I t \<and> f x t = Inr t'"
  using assms
proof (induction xs arbitrary: s)
  case (Cons y ys)
  from Cons.prems(1) obtain t where t: "f y s = Inr t" "rfold f ys t = Inr s'"
    by (auto simp: result_simps)
  show ?case
  proof (cases "x = y")
    case False
    then have "x \<in> set ys" using Cons.prems(2) by simp
    moreover have "I t" using Cons.prems(3) t(1) by (rule Cons.prems(4) [rotated]) simp
    ultimately show ?thesis using t(2) Cons.prems(4) by (intro Cons.IH) auto
  qed (use Cons.prems(3) t(1) in blast)
qed simp

lemma rfold_append:
  "rfold f (xs @ ys) s = rbind (rfold f xs s) (rfold f ys)"
proof (induction xs arbitrary: s)
  case (Cons x xs)
  then show ?case by (cases "f x s") simp_all
qed simp

lemma rmap_Inr_iff: "rmap f xs = Inr ys \<longleftrightarrow> list_all2 (\<lambda>x y. f x = Inr y) xs ys"
proof (induction xs arbitrary: ys)
  case (Cons x xs)
  then show ?case
    by (cases ys) (auto simp: result_simps list_all2_Cons1)
qed auto

lemma rmap_length: "rmap f xs = Inr ys \<Longrightarrow> length ys = length xs"
  by (auto simp: rmap_Inr_iff dest: list_all2_lengthD)

section \<open>Words\<close>

lemma word_add_one_neq [simp]: "(w :: 'a::len word) + 1 \<noteq> w"
  by simp

lemma unat_bound: "unat (w :: 'a::len word) < 2 ^ LENGTH('a)"
  by (rule unsigned_less)

lemma unat_of_nat_small: "n < 2 ^ LENGTH('a) \<Longrightarrow> unat (of_nat n :: 'a::len word) = n"
  by (simp add: unat_of_nat)

lemma unat_eq_iff: "(v :: 'a::len word) = w \<longleftrightarrow> unat v = unat w"
  by (simp add: word_unat_eq_iff)

lemma word_Suc_less:
  assumes "w \<noteq> - 1"
  shows "w < (w :: 'a::len word) + 1"
proof -
  have "w + 1 \<noteq> 0" using assms by (auto dest: max_word_wrap)
  then have "unat (w + 1) = Suc (unat w)" using unatSuc [of w] by (simp add: add.commute)
  then show ?thesis by (simp add: word_less_nat_alt)
qed

section \<open>Little-endian bytes\<close>

fun nat_to_le :: "nat \<Rightarrow> nat \<Rightarrow> bytes" where
  "nat_to_le 0 x = []"
| "nat_to_le (Suc n) x = of_nat x # nat_to_le n (x div 256)"

fun nat_of_le :: "bytes \<Rightarrow> nat" where
  "nat_of_le [] = 0"
| "nat_of_le (b # bs) = unat b + 256 * nat_of_le bs"

definition to_le_bytes :: "'a::len word \<Rightarrow> bytes" where
  "to_le_bytes w = nat_to_le (LENGTH('a) div 8) (unat w)"

definition of_le_bytes :: "bytes \<Rightarrow> 'a::len word" where
  "of_le_bytes bs = of_nat (nat_of_le bs)"

lemma length_nat_to_le [simp]: "length (nat_to_le n x) = n"
  by (induction n x rule: nat_to_le.induct) simp_all

lemma nat_of_to_le: "nat_of_le (nat_to_le n x) = x mod 256 ^ n"
proof (induction n x rule: nat_to_le.induct)
  case (2 n x)
  have "x mod (256 * 256 ^ n) = x mod 256 + 256 * (x div 256 mod 256 ^ n)"
    using mod_mult2_eq [of x 256 "256 ^ n"] by simp
  then show ?case using 2 by (simp add: unat_of_nat)
qed simp

lemma nat_to_of_le: "nat_to_le (length bs) (nat_of_le bs) = bs"
proof (induction bs)
  case (Cons b bs)
  have "(of_nat (unat b + 256 * nat_of_le bs) :: u8) = b"
    using unat_bound [of b] by (simp add: unat_eq_iff unat_of_nat del: of_nat_add of_nat_mult)
  moreover have "(unat b + 256 * nat_of_le bs) div 256 = nat_of_le bs"
    using unat_bound [of b] by simp
  ultimately show ?case using Cons by (simp del: of_nat_add of_nat_mult)
qed simp

lemma nat_of_le_bound: "nat_of_le bs < 256 ^ length bs"
proof (induction bs)
  case (Cons b bs)
  then show ?case using unat_bound [of b] by simp
qed simp

text \<open>Byte widths: a word of \<open>8 n\<close> bits is exactly its \<open>n\<close> little-endian bytes.\<close>

lemma of_to_le_bytes:
  assumes "LENGTH('a) = 8 * n"
  shows "of_le_bytes (to_le_bytes (w :: 'a::len word)) = w"
proof -
  have "(256 :: nat) ^ n = 2 ^ LENGTH('a)" using assms by (simp add: power_mult)
  then have "unat w mod 256 ^ n = unat w" using unat_bound [of w] by simp
  then show ?thesis using assms by (simp add: of_le_bytes_def to_le_bytes_def nat_of_to_le)
qed

lemma to_of_le_bytes:
  assumes "LENGTH('a) = 8 * n" "length bs = n"
  shows "to_le_bytes (of_le_bytes bs :: 'a::len word) = bs"
proof -
  have "(256 :: nat) ^ n = 2 ^ LENGTH('a)" using assms by (simp add: power_mult)
  then have "nat_of_le bs < 2 ^ LENGTH('a)" using nat_of_le_bound [of bs] assms by simp
  then show ?thesis
    using assms nat_to_of_le [of bs] by (simp add: of_le_bytes_def to_le_bytes_def unat_of_nat_small)
qed

lemma len_u64: "LENGTH(64) = 8 * 8"
  by simp

lemma length_to_le_bytes: "length (to_le_bytes (w :: 'a::len word)) = LENGTH('a) div 8"
  by (simp add: to_le_bytes_def)

section \<open>Strings\<close>

text \<open>A Rust \<open>String\<close> is the list of its UTF-8 bytes, written as characters.\<close>

definition str_bytes :: "string \<Rightarrow> bytes" where
  "str_bytes s = map (\<lambda>c. of_char c) s"

definition bytes_str :: "bytes \<Rightarrow> string" where
  "bytes_str bs = map (\<lambda>b. char_of (unat b)) bs"

lemma byte_of_char: "(of_char (char_of (unat b)) :: u8) = b"
proof -
  have "(of_char (char_of (unat b)) :: u8) = of_nat (of_char (char_of (unat b)))"
    by (simp only: of_nat_of_char)
  also have "\<dots> = of_nat (unat b mod 256)" by (simp only: of_char_of)
  also have "unat b mod 256 = unat b" using unat_bound [of b] by simp
  finally show ?thesis by simp
qed

lemma char_of_byte: "char_of (unat (of_char c :: u8)) = c"
proof -
  have "(of_char c :: nat) = of_char c mod 256" by (metis char_of_char of_char_of)
  then have "(of_char c :: nat) < 256" by (metis mod_less_divisor zero_less_numeral)
  then have "unat (of_nat (of_char c) :: u8) = of_char c" by (simp add: unat_of_nat)
  then have "unat (of_char c :: u8) = of_char c" by (simp only: of_nat_of_char)
  then show ?thesis by simp
qed

lemma str_bytes_str [simp]: "str_bytes (bytes_str x) = x"
  by (simp add: str_bytes_def bytes_str_def comp_def byte_of_char)

lemma bytes_str_bytes [simp]: "bytes_str (str_bytes s) = s"
  by (simp add: str_bytes_def bytes_str_def comp_def char_of_byte)

lemma bytes_str_inject: "bytes_str x = bytes_str y \<longleftrightarrow> x = y"
  by (metis str_bytes_str)

lemma length_str_bytes [simp]: "length (str_bytes s) = length s"
  by (simp add: str_bytes_def)

end
