(* ===== verification/Ordered_Map.thy ===== *)
theory Ordered_Map
  imports Kolme_Prelude
begin

text \<open>
  The ordered containers of the Rust code.  A \<open>BTreeMap\<close> is its list of entries in key order, a
  \<open>BTreeSet\<close> its list of members in order: iteration, \<open>iter().next()\<close>, \<open>next_back()\<close>,
  \<open>len\<close> and serialization all read that list.  \<open>MerkleMap\<close> promises the same behaviour: the
  promise is the locale \<open>ordered_map\<close>, which \<open>Merkle_Map\<close> interprets on the trie.  Lookup laws
  need no invariant; first and last entry need \<open>om_wf\<close>.
\<close>

type_synonym ('k, 'v) omap = "('k \<times> 'v) list"

section \<open>Maps\<close>

definition om_get :: "('k::linorder, 'v) omap \<Rightarrow> 'k \<Rightarrow> 'v option" where
  "om_get m k = map_of m k"

fun om_insert :: "'k::linorder \<Rightarrow> 'v \<Rightarrow> ('k, 'v) omap \<Rightarrow> ('k, 'v) omap" where
  "om_insert k v [] = [(k, v)]"
| "om_insert k v ((k', v') # m) =
     (if k < k' then (k, v) # (k', v') # m
      else if k = k' then (k, v) # m
      else (k', v') # om_insert k v m)"

definition om_remove :: "'k::linorder \<Rightarrow> ('k, 'v) omap \<Rightarrow> ('k, 'v) omap" where
  "om_remove k m = filter (\<lambda>e. fst e \<noteq> k) m"

definition om_contains :: "('k::linorder, 'v) omap \<Rightarrow> 'k \<Rightarrow> bool" where
  "om_contains m k = (om_get m k \<noteq> None)"

definition om_keys :: "('k::linorder, 'v) omap \<Rightarrow> 'k list" where
  "om_keys m = map fst m"

definition om_values :: "('k::linorder, 'v) omap \<Rightarrow> 'v list" where
  "om_values m = map snd m"

definition om_first :: "('k::linorder, 'v) omap \<Rightarrow> ('k \<times> 'v) option" where
  "om_first m = (case m of [] \<Rightarrow> None | e # _ \<Rightarrow> Some e)"

definition om_last :: "('k::linorder, 'v) omap \<Rightarrow> ('k \<times> 'v) option" where
  "om_last m = (if m = [] then None else Some (last m))"

definition om_of_list :: "('k::linorder \<times> 'v) list \<Rightarrow> ('k, 'v) omap" where
  "om_of_list es = foldl (\<lambda>m e. om_insert (fst e) (snd e) m) [] es"

definition om_wf :: "('k::linorder, 'v) omap \<Rightarrow> bool" where
  "om_wf m = sorted_wrt (<) (map fst m)"

lemma om_get_Nil [simp]: "om_get [] k = None"
  by (simp add: om_get_def)

lemma om_get_Cons [simp]: "om_get ((k', v) # m) k = (if k = k' then Some v else om_get m k)"
  by (simp add: om_get_def)

lemma om_get_insert [simp]: "om_get (om_insert k v m) k' = (if k' = k then Some v else om_get m k')"
  by (induction k v m rule: om_insert.induct) auto

lemma om_get_remove [simp]: "om_get (om_remove k m) k' = (if k' = k then None else om_get m k')"
  by (induction m) (auto simp: om_remove_def)

lemma om_get_None_iff: "om_get m k = None \<longleftrightarrow> k \<notin> fst ` set m"
  by (simp add: om_get_def map_of_eq_None_iff)

lemma om_get_in_set: "om_get m k = Some v \<Longrightarrow> (k, v) \<in> set m"
  by (simp add: om_get_def map_of_SomeD)

lemma set_om_insert: "fst ` set (om_insert k v m) = insert k (fst ` set m)"
  by (induction k v m rule: om_insert.induct) auto

lemma om_wf_Nil [simp]: "om_wf []"
  by (simp add: om_wf_def)

lemma om_wf_Cons: "om_wf ((k, v) # m) \<longleftrightarrow> (\<forall>k' \<in> fst ` set m. k < k') \<and> om_wf m"
  by (auto simp: om_wf_def)

lemma om_wf_distinct: "om_wf m \<Longrightarrow> distinct (map fst m)"
  unfolding om_wf_def by (simp add: strict_sorted_iff)

lemma om_wf_insert [preserve]: "om_wf m \<Longrightarrow> om_wf (om_insert k v m)"
proof (induction k v m rule: om_insert.induct)
  case (2 k v k' v' m)
  then show ?case
    by (auto simp: om_wf_Cons set_om_insert)
qed (simp add: om_wf_Cons)

lemma om_wf_remove [preserve]: "om_wf m \<Longrightarrow> om_wf (om_remove k m)"
  by (induction m) (auto simp: om_remove_def om_wf_Cons)

lemma om_get_iff_in_set: "om_wf m \<Longrightarrow> om_get m k = Some v \<longleftrightarrow> (k, v) \<in> set m"
  by (simp add: om_get_def om_wf_distinct)

text \<open>Two ordered maps with the same entries are the same list: the representation is canonical.\<close>

lemma om_ext:
  assumes "om_wf m" "om_wf n" "\<And>k. om_get m k = om_get n k"
  shows "m = n"
proof -
  have "map_of m = map_of n"
    using assms(3) by (auto simp: om_get_def)
  moreover have srt: "sorted (map fst m)" "distinct (map fst m)" "sorted (map fst n)" "distinct (map fst n)"
    using assms(1,2) by (simp_all add: om_wf_def strict_sorted_iff)
  ultimately have eq: "set m = set n"
    by (simp add: map_of_inject_set)
  then have "inj_on fst (set m \<union> set n)"
    using srt by (simp add: distinct_map)
  then show ?thesis
    using srt eq by (rule map_sorted_distinct_set_unique)
qed

lemma om_set_ext: "om_wf m \<Longrightarrow> om_wf n \<Longrightarrow> set m = set n \<Longrightarrow> m = n"
proof (rule om_ext)
  fix k
  assume wf: "om_wf m" "om_wf n" and eq: "set m = set n"
  have "om_get m k = Some v \<longleftrightarrow> om_get n k = Some v" for v
    using om_get_iff_in_set [OF wf(1)] om_get_iff_in_set [OF wf(2)] eq by blast
  then show "om_get m k = om_get n k" by (metis option.exhaust)
qed

lemma set_om_insert_fresh: "k \<notin> fst ` set m \<Longrightarrow> set (om_insert k v m) = insert (k, v) (set m)"
  by (induction k v m rule: om_insert.induct) auto

lemma om_get_foldl_insert:
  "om_get (foldl (\<lambda>m e. om_insert (fst e) (snd e) m) m es) k =
     (case map_of (rev es) k of None \<Rightarrow> om_get m k | Some v \<Rightarrow> Some v)"
  by (induction es arbitrary: m) (auto simp: map_of_append map_add_def split: option.splits)

lemma om_wf_foldl_insert: "om_wf m \<Longrightarrow> om_wf (foldl (\<lambda>m e. om_insert (fst e) (snd e) m) m es)"
  by (induction es arbitrary: m) (auto intro: om_wf_insert)

text \<open>Inserting the entries of an ordered map into a singleton adds that one entry to the map.\<close>

lemma om_foldl_insert_singleton:
  assumes "om_wf m" "om_get m k = None"
  shows "foldl (\<lambda>m e. om_insert (fst e) (snd e) m) [(k, v)] m = om_insert k v m"
proof (rule om_ext)
  show "om_wf (foldl (\<lambda>m e. om_insert (fst e) (snd e) m) [(k, v)] m)"
    by (rule om_wf_foldl_insert) (simp add: om_wf_Cons)
  show "om_wf (om_insert k v m)" using assms(1) by (rule om_wf_insert)
  fix l
  have "map_of (rev m) l = om_get m l"
    using map_of_inject_set [of "rev m" m] om_wf_distinct [OF assms(1)]
    by (simp add: om_get_def rev_map [symmetric])
  then show "om_get (foldl (\<lambda>m e. om_insert (fst e) (snd e) m) [(k, v)] m) l = om_get (om_insert k v m) l"
    using assms(2) by (auto simp: om_get_foldl_insert split: option.splits)
qed

lemma om_first_Some:
  assumes "om_wf m" "om_first m = Some (k, v)"
  shows "om_get m k = Some v \<and> (\<forall>k'. om_get m k' \<noteq> None \<longrightarrow> k \<le> k')"
  using assms by (cases m) (auto simp: om_first_def om_wf_Cons dest!: om_get_in_set intro: less_imp_le)

lemma om_first_None_iff: "om_first m = None \<longleftrightarrow> m = []"
  by (simp add: om_first_def split: list.splits)

lemma om_last_Some:
  assumes "om_wf m" "om_last m = Some (k, v)"
  shows "om_get m k = Some v \<and> (\<forall>k'. om_get m k' \<noteq> None \<longrightarrow> k' \<le> k)"
proof -
  from assms(2) have ne: "m \<noteq> []" and l: "last m = (k, v)"
    by (auto simp: om_last_def split: if_splits)
  then have m: "m = butlast m @ [(k, v)]" by (metis append_butlast_last_id)
  have "map fst m = map fst (butlast m) @ [k]"
    by (subst m) simp
  then have "sorted_wrt (<) (map fst (butlast m) @ [k])"
    using assms(1) by (simp add: om_wf_def)
  then have "\<forall>x \<in> set (butlast m). fst x < k"
    by (auto simp: sorted_wrt_append)
  moreover have "om_get m k = Some v"
    using assms(1) l ne om_get_iff_in_set by (metis last_in_set)
  moreover have "fst ` set m = insert k (fst ` set (butlast m))"
    by (subst m) auto
  ultimately show ?thesis
    by (auto simp: om_get_None_iff)
qed

lemma om_last_None_iff: "om_last m = None \<longleftrightarrow> m = []"
  by (simp add: om_last_def)

lemma om_contains_iff: "om_contains m k \<longleftrightarrow> k \<in> fst ` set m"
  by (simp add: om_contains_def om_get_None_iff)

lemma om_insert_same: "om_wf m \<Longrightarrow> om_get m k = Some v \<Longrightarrow> om_insert k v m = m"
  by (rule om_ext) (auto intro: om_wf_insert)

lemma om_remove_insert_fresh: "om_wf m \<Longrightarrow> om_get m k = None \<Longrightarrow> om_remove k (om_insert k v m) = m"
  by (rule om_ext) (auto intro: om_wf_remove om_wf_insert)

lemma om_insert_insert: "om_wf m \<Longrightarrow> om_insert k v (om_insert k w m) = om_insert k v m"
  by (rule om_ext) (auto intro: om_wf_insert)

lemma om_insert_commute:
  "om_wf m \<Longrightarrow> k \<noteq> l \<Longrightarrow> om_insert k v (om_insert l w m) = om_insert l w (om_insert k v m)"
  by (rule om_ext) (auto intro: om_wf_insert)

text \<open>Operations act on the segment of an ordered list of entries that can hold the key.\<close>

lemma om_get_append: "om_get (m @ n) k = (case om_get m k of None \<Rightarrow> om_get n k | Some v \<Rightarrow> Some v)"
  by (induction m) auto

lemma om_get_skip: "k \<notin> fst ` set m \<Longrightarrow> om_get (m @ n) k = om_get n k"
  by (simp add: om_get_append om_get_None_iff [THEN iffD2])

lemma om_remove_append [simp]: "om_remove k (m @ n) = om_remove k m @ om_remove k n"
  by (simp add: om_remove_def)

lemma om_remove_absent [simp]: "k \<notin> fst ` set m \<Longrightarrow> om_remove k m = m"
  by (auto simp: om_remove_def filter_id_conv)

lemma om_insert_append_right: "\<forall>k' \<in> fst ` set m. k' < k \<Longrightarrow> om_insert k v (m @ n) = m @ om_insert k v n"
  by (induction k v m rule: om_insert.induct) auto

lemma om_insert_append_left: "\<forall>k' \<in> fst ` set n. k < k' \<Longrightarrow> om_insert k v (m @ n) = om_insert k v m @ n"
proof (induction k v m rule: om_insert.induct)
  case (1 k v)
  then show ?case by (cases n) auto
qed auto

lemma om_wf_append:
  "om_wf (m @ n) \<longleftrightarrow> om_wf m \<and> om_wf n \<and> (\<forall>k \<in> fst ` set m. \<forall>l \<in> fst ` set n. k < l)"
  by (auto simp: om_wf_def sorted_wrt_append)

lemma om_wf_concat:
  "om_wf (concat ms) \<longleftrightarrow> (\<forall>m \<in> set ms. om_wf m) \<and>
     sorted_wrt (\<lambda>m n. \<forall>k \<in> fst ` set m. \<forall>l \<in> fst ` set n. k < l) ms"
  by (induction ms) (simp_all add: om_wf_append, blast)

lemma length_om_insert:
  "om_wf m \<Longrightarrow> length (om_insert k v m) = (if om_get m k = None then Suc (length m) else length m)"
proof (induction k v m rule: om_insert.induct)
  case (2 k v k' v' m)
  then show ?case by (auto simp: om_wf_Cons om_get_None_iff)
qed simp

lemma length_om_remove:
  "om_wf m \<Longrightarrow> length (om_remove k m) = (if om_get m k = None then length m else length m - 1)"
proof (induction m)
  case (Cons e m)
  obtain l v where e: "e = (l, v)" by (cases e)
  show ?case
  proof (cases "l = k")
    case True
    then have "om_remove k m = m" using Cons.prems e by (intro om_remove_absent) (auto simp: om_wf_Cons)
    then show ?thesis using True e by (simp add: om_remove_def)
  next
    case False
    moreover have "om_get m k \<noteq> None \<Longrightarrow> 0 < length m" by (cases m) auto
    ultimately show ?thesis using Cons e by (auto simp: om_wf_Cons om_remove_def)
  qed
qed (simp add: om_remove_def)

section \<open>Sets\<close>

definition os_insert :: "'a::linorder \<Rightarrow> 'a list \<Rightarrow> 'a list" where
  "os_insert x xs = insort_insert x xs"

definition os_remove :: "'a::linorder \<Rightarrow> 'a list \<Rightarrow> 'a list" where
  "os_remove x xs = filter (\<lambda>y. y \<noteq> x) xs"

definition os_of_list :: "'a::linorder list \<Rightarrow> 'a list" where
  "os_of_list xs = foldl (\<lambda>s x. os_insert x s) [] xs"

definition os_wf :: "'a::linorder list \<Rightarrow> bool" where
  "os_wf xs = sorted_wrt (<) xs"

lemma set_os_insert [simp]: "set (os_insert x xs) = insert x (set xs)"
  by (simp add: os_insert_def set_insort_insert)

lemma set_os_remove [simp]: "set (os_remove x xs) = set xs - {x}"
  by (auto simp: os_remove_def)

lemma os_wf_Nil [simp]: "os_wf []"
  by (simp add: os_wf_def)

lemma os_wf_iff: "os_wf xs \<longleftrightarrow> sorted xs \<and> distinct xs"
  by (simp add: os_wf_def strict_sorted_iff)

lemma os_wf_insert [preserve]: "os_wf xs \<Longrightarrow> os_wf (os_insert x xs)"
  by (simp add: os_wf_iff os_insert_def distinct_insort_insert sorted_insort_insert)

lemma os_wf_remove [preserve]: "os_wf xs \<Longrightarrow> os_wf (os_remove x xs)"
  by (simp add: os_wf_iff os_remove_def sorted_filter[of id, simplified])

lemma os_ext: "os_wf xs \<Longrightarrow> os_wf ys \<Longrightarrow> set xs = set ys \<Longrightarrow> xs = ys"
  by (simp add: os_wf_iff sorted_distinct_set_unique)

lemma set_os_of_list: "set (os_of_list xs) = set xs"
proof -
  have "set (foldl (\<lambda>s x. os_insert x s) acc xs) = set acc \<union> set xs" for acc
    by (induction xs arbitrary: acc) auto
  then show ?thesis by (simp add: os_of_list_def)
qed

lemma os_wf_of_list: "os_wf (os_of_list xs)"
proof -
  have "os_wf acc \<Longrightarrow> os_wf (foldl (\<lambda>s x. os_insert x s) acc xs)" for acc
    by (induction xs arbitrary: acc) (auto intro: os_wf_insert)
  then show ?thesis by (simp add: os_of_list_def)
qed

section \<open>The contract of an ordered map\<close>

text \<open>
  \<open>entries\<close> abstracts an implementation to its list of entries; every operation acts on the
  implementation as it acts on that list.  \<open>key_ok\<close> bounds the keys an implementation can hold.
\<close>

locale ordered_map =
  fixes inv :: "'m \<Rightarrow> bool"
    and entries :: "'m \<Rightarrow> ('k::linorder, 'v) omap"
    and empty :: 'm
    and get :: "'m \<Rightarrow> 'k \<Rightarrow> 'v option"
    and insert :: "'k \<Rightarrow> 'v \<Rightarrow> 'm \<Rightarrow> 'm"
    and remove :: "'k \<Rightarrow> 'm \<Rightarrow> 'm"
    and key_ok :: "'k \<Rightarrow> bool"
  assumes inv_empty: "inv empty"
    and inv_insert: "inv m \<Longrightarrow> key_ok k \<Longrightarrow> inv (insert k v m)"
    and inv_remove: "inv m \<Longrightarrow> key_ok k \<Longrightarrow> inv (remove k m)"
    and inv_wf: "inv m \<Longrightarrow> om_wf (entries m)"
    and entries_empty: "entries empty = []"
    and entries_insert: "inv m \<Longrightarrow> key_ok k \<Longrightarrow> entries (insert k v m) = om_insert k v (entries m)"
    and entries_remove: "inv m \<Longrightarrow> key_ok k \<Longrightarrow> entries (remove k m) = om_remove k (entries m)"
    and get_entries: "inv m \<Longrightarrow> key_ok k \<Longrightarrow> get m k = om_get (entries m) k"
begin

lemma get_empty: "key_ok k \<Longrightarrow> get empty k = None"
  by (simp add: get_entries inv_empty entries_empty)

lemma get_insert:
  "inv m \<Longrightarrow> key_ok k \<Longrightarrow> key_ok l \<Longrightarrow> get (insert k v m) l = (if l = k then Some v else get m l)"
  by (simp add: get_entries inv_insert entries_insert)

lemma get_remove:
  "inv m \<Longrightarrow> key_ok k \<Longrightarrow> key_ok l \<Longrightarrow> get (remove k m) l = (if l = k then None else get m l)"
  by (simp add: get_entries inv_remove entries_remove)

lemma insert_all:
  "inv m \<Longrightarrow> \<forall>e \<in> set es. key_ok (fst e) \<Longrightarrow>
     inv (foldl (\<lambda>m e. insert (fst e) (snd e) m) m es) \<and>
     entries (foldl (\<lambda>m e. insert (fst e) (snd e) m) m es) =
       foldl (\<lambda>m e. om_insert (fst e) (snd e) m) (entries m) es"
  by (induction es arbitrary: m) (simp_all add: inv_insert entries_insert)

lemma of_list: "\<forall>e \<in> set es. key_ok (fst e) \<Longrightarrow>
  entries (foldl (\<lambda>m e. insert (fst e) (snd e) m) empty es) = om_of_list es"
  using insert_all [OF inv_empty] by (simp add: om_of_list_def entries_empty)

end

interpretation btree: ordered_map om_wf "\<lambda>m. m" "[]" om_get om_insert om_remove "\<lambda>_. True"
  by unfold_locales (auto intro: om_wf_insert om_wf_remove)

end
