(* ===== verification/Kolme_Types.thy ===== *)
theory Kolme_Types
  imports Ordered_Map
begin

text \<open>
  The shared data types: keys and signatures (\<open>shared/src/cryptography\<close>), the external chains,
  identifiers, validator sets (\<open>shared/src/types.rs\<close>), asset configurations and block heights
  (\<open>kolme/src/core/types.rs\<close>), and the one error type all fallible operations return.

  Third-party code is a parameter.  \<open>decimal_ops\<close> lists the operations of
  \<open>rust_decimal::Decimal\<close> that the code calls; \<open>decimal_laws\<close> states what the code relies on.
  A public key is identified with its SEC1 bytes and a signature with its 64 bytes; whether bytes
  are a key, and which key made a signature, is decided by \<open>k256\<close>, a parameter of the
  functions that use it.  No result depends on which total order \<open>k256\<close> gives its keys.
\<close>

section \<open>Keys and signatures\<close>

datatype public_key = PublicKey (pk_bytes: bytes)

datatype signature = Signature (sig_bytes: bytes)

record sigrec =
  recid :: u8
  sig :: signature

instantiation public_key :: linorder
begin

definition less_eq_public_key :: "public_key \<Rightarrow> public_key \<Rightarrow> bool" where
  "less_eq_public_key p q = (pk_bytes p \<le> pk_bytes q)"

definition less_public_key :: "public_key \<Rightarrow> public_key \<Rightarrow> bool" where
  "less_public_key p q = (pk_bytes p < pk_bytes q)"

instance
  by standard (auto simp: less_eq_public_key_def less_public_key_def public_key.expand)

end

instantiation signature :: linorder
begin

definition less_eq_signature :: "signature \<Rightarrow> signature \<Rightarrow> bool" where
  "less_eq_signature p q = (sig_bytes p \<le> sig_bytes q)"

definition less_signature :: "signature \<Rightarrow> signature \<Rightarrow> bool" where
  "less_signature p q = (sig_bytes p < sig_bytes q)"

instance
  by standard (auto simp: less_eq_signature_def less_signature_def signature.expand)

end

type_synonym recover_fn = "bytes \<Rightarrow> signature \<Rightarrow> u8 \<Rightarrow> public_key option"

definition sig_validate :: "recover_fn \<Rightarrow> sigrec \<Rightarrow> bytes \<Rightarrow> public_key option" where
  "sig_validate rcv s msg = rcv msg (sig s) (recid s)"

section \<open>External chains\<close>

datatype external_chain =
    OsmosisTestnet | NeutronTestnet | OsmosisLocal
  | SolanaMainnet | SolanaTestnet | SolanaDevnet | SolanaLocal
  | EthereumMainnet | EthereumSepolia | EthereumLocal
  | PassThrough

datatype cosmos_chain = CosmosOsmosisTestnet | CosmosNeutronTestnet | CosmosOsmosisLocal

datatype solana_chain = SolMainnet | SolTestnet | SolDevnet | SolLocal

datatype ethereum_chain = EthMainnet | EthSepolia | EthLocal

datatype chain_name = NameCosmos | NameSolana | NameEthereum | NamePassThrough

datatype chain_kind =
    KindCosmos cosmos_chain
  | KindSolana solana_chain
  | KindEthereum ethereum_chain
  | KindPassThrough

fun chain_kind_of :: "external_chain \<Rightarrow> chain_kind" where
  "chain_kind_of OsmosisTestnet = KindCosmos CosmosOsmosisTestnet"
| "chain_kind_of NeutronTestnet = KindCosmos CosmosNeutronTestnet"
| "chain_kind_of OsmosisLocal = KindCosmos CosmosOsmosisLocal"
| "chain_kind_of SolanaMainnet = KindSolana SolMainnet"
| "chain_kind_of SolanaTestnet = KindSolana SolTestnet"
| "chain_kind_of SolanaDevnet = KindSolana SolDevnet"
| "chain_kind_of SolanaLocal = KindSolana SolLocal"
| "chain_kind_of EthereumMainnet = KindEthereum EthMainnet"
| "chain_kind_of EthereumSepolia = KindEthereum EthSepolia"
| "chain_kind_of EthereumLocal = KindEthereum EthLocal"
| "chain_kind_of PassThrough = KindPassThrough"

fun of_cosmos_chain :: "cosmos_chain \<Rightarrow> external_chain" where
  "of_cosmos_chain CosmosOsmosisTestnet = OsmosisTestnet"
| "of_cosmos_chain CosmosNeutronTestnet = NeutronTestnet"
| "of_cosmos_chain CosmosOsmosisLocal = OsmosisLocal"

fun of_solana_chain :: "solana_chain \<Rightarrow> external_chain" where
  "of_solana_chain SolMainnet = SolanaMainnet"
| "of_solana_chain SolTestnet = SolanaTestnet"
| "of_solana_chain SolDevnet = SolanaDevnet"
| "of_solana_chain SolLocal = SolanaLocal"

fun of_ethereum_chain :: "ethereum_chain \<Rightarrow> external_chain" where
  "of_ethereum_chain EthMainnet = EthereumMainnet"
| "of_ethereum_chain EthSepolia = EthereumSepolia"
| "of_ethereum_chain EthLocal = EthereumLocal"

definition chain_name_of :: "external_chain \<Rightarrow> chain_name" where
  "chain_name_of c = (case chain_kind_of c of
      KindCosmos _ \<Rightarrow> NameCosmos
    | KindSolana _ \<Rightarrow> NameSolana
    | KindEthereum _ \<Rightarrow> NameEthereum
    | KindPassThrough \<Rightarrow> NamePassThrough)"

definition to_cosmos_chain :: "external_chain \<Rightarrow> cosmos_chain option" where
  "to_cosmos_chain c = (case chain_kind_of c of KindCosmos k \<Rightarrow> Some k | _ \<Rightarrow> None)"

definition to_solana_chain :: "external_chain \<Rightarrow> solana_chain option" where
  "to_solana_chain c = (case chain_kind_of c of KindSolana k \<Rightarrow> Some k | _ \<Rightarrow> None)"

definition to_ethereum_chain :: "external_chain \<Rightarrow> ethereum_chain option" where
  "to_ethereum_chain c = (case chain_kind_of c of KindEthereum k \<Rightarrow> Some k | _ \<Rightarrow> None)"

text \<open>The kebab-case names that strum derives; they are the Merkle keys and the stored form.\<close>

fun chain_as_ref :: "external_chain \<Rightarrow> string" where
  "chain_as_ref OsmosisTestnet = ''osmosis-testnet''"
| "chain_as_ref NeutronTestnet = ''neutron-testnet''"
| "chain_as_ref OsmosisLocal = ''osmosis-local''"
| "chain_as_ref SolanaMainnet = ''solana-mainnet''"
| "chain_as_ref SolanaTestnet = ''solana-testnet''"
| "chain_as_ref SolanaDevnet = ''solana-devnet''"
| "chain_as_ref SolanaLocal = ''solana-local''"
| "chain_as_ref EthereumMainnet = ''ethereum-mainnet''"
| "chain_as_ref EthereumSepolia = ''ethereum-sepolia''"
| "chain_as_ref EthereumLocal = ''ethereum-local''"
| "chain_as_ref PassThrough = ''pass-through''"

definition chain_parse :: "string \<Rightarrow> external_chain option" where
  "chain_parse s = find (\<lambda>c. chain_as_ref c = s)
     [OsmosisTestnet, NeutronTestnet, OsmosisLocal, SolanaMainnet, SolanaTestnet, SolanaDevnet,
      SolanaLocal, EthereumMainnet, EthereumSepolia, EthereumLocal, PassThrough]"

lemma chain_parse_as_ref [simp]: "chain_parse (chain_as_ref c) = Some c"
  by (cases c) (simp_all add: chain_parse_def)

lemma chain_parse_Some: "chain_parse s = Some c \<Longrightarrow> chain_as_ref c = s"
  unfolding chain_parse_def by (simp split: if_splits)

lemma chain_as_ref_inject [simp]: "chain_as_ref c = chain_as_ref d \<longleftrightarrow> c = d"
  by (metis chain_parse_as_ref option.inject)

text \<open>A \<open>MerkleMap\<close> keyed by chains iterates in the order of these names.\<close>

instantiation external_chain :: linorder
begin

definition less_eq_external_chain :: "external_chain \<Rightarrow> external_chain \<Rightarrow> bool" where
  "less_eq_external_chain c d = (chain_as_ref c \<le> chain_as_ref d)"

definition less_external_chain :: "external_chain \<Rightarrow> external_chain \<Rightarrow> bool" where
  "less_external_chain c d = (chain_as_ref c < chain_as_ref d)"

instance
  by standard (auto simp: less_eq_external_chain_def less_external_chain_def order_less_le)

end

lemma to_cosmos_chain_iff: "to_cosmos_chain c = Some k \<longleftrightarrow> c = of_cosmos_chain k"
  by (cases c; cases k) (simp_all add: to_cosmos_chain_def)

lemma to_solana_chain_iff: "to_solana_chain c = Some k \<longleftrightarrow> c = of_solana_chain k"
  by (cases c; cases k) (simp_all add: to_solana_chain_def)

lemma to_ethereum_chain_iff: "to_ethereum_chain c = Some k \<longleftrightarrow> c = of_ethereum_chain k"
  by (cases c; cases k) (simp_all add: to_ethereum_chain_def)

text \<open>Chain names parse back to their chain and to nothing else, and every chain belongs to
  exactly one family: the family conversions are the inverses of the family embeddings.\<close>

theorem chain_names_and_families:
  "(chain_parse s = Some c \<longleftrightarrow> s = chain_as_ref c) \<and>
   (to_cosmos_chain c = Some k \<longleftrightarrow> c = of_cosmos_chain k) \<and>
   (to_solana_chain c = Some l \<longleftrightarrow> c = of_solana_chain l) \<and>
   (to_ethereum_chain c = Some m \<longleftrightarrow> c = of_ethereum_chain m) \<and>
   (chain_name_of c = NameCosmos \<longleftrightarrow> to_cosmos_chain c \<noteq> None) \<and>
   (chain_name_of c = NameSolana \<longleftrightarrow> to_solana_chain c \<noteq> None) \<and>
   (chain_name_of c = NameEthereum \<longleftrightarrow> to_ethereum_chain c \<noteq> None) \<and>
   (chain_name_of c = NamePassThrough \<longleftrightarrow> c = PassThrough)"
proof -
  have "chain_parse s = Some c \<longleftrightarrow> s = chain_as_ref c"
    by (auto dest: chain_parse_Some)
  then show ?thesis
    unfolding to_cosmos_chain_iff to_solana_chain_iff to_ethereum_chain_iff
    by (cases c)
       (simp_all add: chain_name_of_def to_cosmos_chain_def to_solana_chain_def to_ethereum_chain_def)
qed

section \<open>Errors\<close>

text \<open>
  One constructor per error of the source's enums; \<open>Anyhow\<close> is an \<open>anyhow::ensure!\<close> or
  \<open>bail!\<close> with a tag naming the check, \<open>Panic\<close> an \<open>unwrap\<close>, \<open>assert!\<close> or
  arithmetic panic.
\<close>

datatype 'd kerr =
    InsufficientBalance u64 u64 'd 'd
  | MustMintPositive u64 u64 'd
  | MustBurnPositive u64 u64 'd
  | ChainNotSupported external_chain
  | AssetNotSupported external_chain u64
  | InvalidNonce public_key u64 u64 u64
  | PastMaxHeight bytes u64 u64
  | InvalidBlockHeight u64 u64
  | NotAValidator public_key
  | TooManyKeys nat
  | NoListeners
  | InvalidNeededListeners u16 u16
  | NoApprovers
  | InvalidNeededApprovers u16 u16
  | CouldNotConvertToDecimal u128 u8
  | U128TooLarge u128
  | ToU128WithNegative 'd
  | PublicKeyError
  | Anyhow string
  | Panic string

section \<open>Decimals\<close>

datatype cmp_ordering = Less | Equal | Greater

record 'd decimal_ops =
  d_zero :: 'd
  d_is_zero :: "'d \<Rightarrow> bool"
  d_is_sign_negative :: "'d \<Rightarrow> bool"
  d_checked_add :: "'d \<Rightarrow> 'd \<Rightarrow> 'd option"
  d_checked_sub :: "'d \<Rightarrow> 'd \<Rightarrow> 'd option"
  d_cmp :: "'d \<Rightarrow> 'd \<Rightarrow> cmp_ordering"
  d_mantissa :: "'d \<Rightarrow> int"
  d_scale :: "'d \<Rightarrow> nat"
  d_try_from_i128_with_scale :: "int \<Rightarrow> nat \<Rightarrow> 'd option"

text \<open>
  \<open>v\<close> reads a decimal as a rational and \<open>R\<close> is the set of values a decimal can hold (a 96-bit
  mantissa over a power of ten up to \<open>10 ^ 28\<close>).  Sums and differences are exact whenever the
  exact result is in \<open>R\<close>; outside \<open>R\<close> the crate rounds or reports overflow, and all that is
  assumed is that rounding does not turn a positive result into zero or a negative one.
\<close>

definition decimal_laws :: "'d decimal_ops \<Rightarrow> ('d \<Rightarrow> rat) \<Rightarrow> rat set \<Rightarrow> bool" where
  "decimal_laws D v R \<longleftrightarrow>
     v (d_zero D) = 0 \<and>
     (\<forall>x. v x \<in> R) \<and>
     (\<forall>x. d_is_zero D x \<longleftrightarrow> v x = 0) \<and>
     (\<forall>x. v x < 0 \<longrightarrow> d_is_sign_negative D x) \<and>
     (\<forall>x. 0 < v x \<longrightarrow> \<not> d_is_sign_negative D x) \<and>
     (\<forall>x y. d_cmp D x y = (if v x < v y then Less else if v x = v y then Equal else Greater)) \<and>
     (\<forall>x y. v x + v y \<in> R \<longrightarrow> (\<exists>z. d_checked_add D x y = Some z \<and> v z = v x + v y)) \<and>
     (\<forall>x y. v x - v y \<in> R \<longrightarrow> (\<exists>z. d_checked_sub D x y = Some z \<and> v z = v x - v y)) \<and>
     (\<forall>x y z. d_checked_add D x y = Some z \<longrightarrow> 0 < v x + v y \<longrightarrow> 0 < v z) \<and>
     (\<forall>x y z. d_checked_sub D x y = Some z \<longrightarrow> 0 < v x - v y \<longrightarrow> 0 < v z) \<and>
     (\<forall>x. v x = of_int (d_mantissa D x) / 10 ^ d_scale D x) \<and>
     (\<forall>i s z. d_try_from_i128_with_scale D i s = Some z \<longrightarrow> v z = of_int i / 10 ^ s)"

lemma decimal_lawsD:
  assumes "decimal_laws D v R"
  shows "v (d_zero D) = 0"
    and "v x \<in> R"
    and "d_is_zero D x \<longleftrightarrow> v x = 0"
    and "d_is_zero D x \<or> d_is_sign_negative D x \<longleftrightarrow> v x \<le> 0"
    and "d_cmp D x y = (if v x < v y then Less else if v x = v y then Equal else Greater)"
    and "v x + v y \<in> R \<Longrightarrow> \<exists>z. d_checked_add D x y = Some z \<and> v z = v x + v y"
    and "v x - v y \<in> R \<Longrightarrow> \<exists>z. d_checked_sub D x y = Some z \<and> v z = v x - v y"
    and "d_checked_add D x y = Some z \<Longrightarrow> 0 < v x + v y \<Longrightarrow> 0 < v z"
    and "d_checked_sub D x y = Some z \<Longrightarrow> 0 < v x - v y \<Longrightarrow> 0 < v z"
    and "v x = of_int (d_mantissa D x) / 10 ^ d_scale D x"
    and "d_try_from_i128_with_scale D i s = Some z \<Longrightarrow> v z = of_int i / 10 ^ s"
proof -
  show "d_is_zero D x \<or> d_is_sign_negative D x \<longleftrightarrow> v x \<le> 0"
    using assms unfolding decimal_laws_def by (metis linorder_neqE_linordered_idom not_less order_refl)
qed ((use assms in \<open>unfold decimal_laws_def, blast\<close>)+)

text \<open>
  An instance to evaluate on: integers as decimals of scale zero, with no bound on the mantissa.
\<close>

definition int_decimal :: "int decimal_ops" where
  "int_decimal = \<lparr>
     d_zero = 0,
     d_is_zero = (\<lambda>x. x = 0),
     d_is_sign_negative = (\<lambda>x. x < 0),
     d_checked_add = (\<lambda>x y. Some (x + y)),
     d_checked_sub = (\<lambda>x y. Some (x - y)),
     d_cmp = (\<lambda>x y. if x < y then Less else if x = y then Equal else Greater),
     d_mantissa = (\<lambda>x. x),
     d_scale = (\<lambda>_. 0),
     d_try_from_i128_with_scale = (\<lambda>i s. if s = 0 then Some i else None)\<rparr>"

lemma int_decimal_laws: "decimal_laws int_decimal of_int \<int>"
  by (simp add: decimal_laws_def int_decimal_def)

lemma int_decimal_simps [simp]:
  "d_zero int_decimal = 0"
  "d_is_zero int_decimal x = (x = 0)"
  "d_is_sign_negative int_decimal x = (x < 0)"
  "d_checked_add int_decimal x y = Some (x + y)"
  "d_checked_sub int_decimal x y = Some (x - y)"
  "d_cmp int_decimal x y = (if x < y then Less else if x = y then Equal else Greater)"
  "d_mantissa int_decimal x = x"
  "d_scale int_decimal x = 0"
  "d_try_from_i128_with_scale int_decimal i s = (if s = 0 then Some i else None)"
  by (simp_all add: int_decimal_def)

end
