(* ===== verification/Accounts.thy ===== *)
theory Accounts
  imports Kolme_Types
begin

text \<open>
  The account table (\<open>kolme/src/core/types/accounts.rs\<close>): balances, wallets, public keys and
  nonces per account, with the reverse indexes from wallets and keys to accounts.  A mutating
  operation that can fail takes the table and returns an error or the new table.  When the code
  mutates the table and then fails, the transaction as a whole is dropped, so the error alone is
  what a caller observes.

  \<open>accounts_wf\<close> is the structural invariant: all containers are ordered and the two indexes are
  exactly the inverse of the per-account sets.  \<open>balances_pos\<close> says that no stored balance is
  zero or negative.
\<close>

record 'd account =
  assets :: "(u64, 'd) omap"
  wallets :: "string list"
  pubkeys :: "public_key list"
  next_nonce :: u64

record 'd accounts =
  accts :: "(u64, 'd account) omap"
  wallet_ix :: "(string, u64) omap"
  pubkey_ix :: "(public_key, u64) omap"

definition default_account :: "'d account" where
  "default_account = \<lparr>assets = [], wallets = [], pubkeys = [], next_nonce = 0\<rparr>"

definition default_accounts :: "'d accounts" where
  "default_accounts = \<lparr>accts = [], wallet_ix = [], pubkey_ix = []\<rparr>"

section \<open>Operations\<close>

definition get_account :: "'d accounts \<Rightarrow> u64 \<Rightarrow> 'd account option" where
  "get_account A i = om_get (accts A) i"

definition get_assets :: "'d accounts \<Rightarrow> u64 \<Rightarrow> (u64, 'd) omap option" where
  "get_assets A i = map_option assets (om_get (accts A) i)"

definition get_wallets_for :: "'d accounts \<Rightarrow> u64 \<Rightarrow> string list option" where
  "get_wallets_for A i = map_option wallets (om_get (accts A) i)"

definition get_or_default :: "'d accounts \<Rightarrow> u64 \<Rightarrow> 'd account" where
  "get_or_default A i = (case om_get (accts A) i of None \<Rightarrow> default_account | Some a \<Rightarrow> a)"

definition put_account :: "u64 \<Rightarrow> 'd account \<Rightarrow> 'd accounts \<Rightarrow> 'd accounts" where
  "put_account i a A = A\<lparr>accts := om_insert i a (accts A)\<rparr>"

definition add_account :: "u64 \<Rightarrow> 'd accounts \<Rightarrow> 'd accounts" where
  "add_account i A = put_account i (get_or_default A i) A"

definition mint :: "'d decimal_ops \<Rightarrow> u64 \<Rightarrow> u64 \<Rightarrow> 'd \<Rightarrow> 'd accounts \<Rightarrow> 'd kerr + 'd accounts" where
  "mint D account_id asset_id to_mint A =
     (if d_is_zero D to_mint \<or> d_is_sign_negative D to_mint
      then Inl (MustMintPositive account_id asset_id to_mint)
      else let a = get_or_default A account_id;
               old = (case om_get (assets a) asset_id of None \<Rightarrow> d_zero D | Some d \<Rightarrow> d)
           in case d_checked_add D old to_mint of
                None \<Rightarrow> Inl (Panic ''Addition overflowed'')
              | Some new \<Rightarrow>
                  Inr (put_account account_id (a\<lparr>assets := om_insert asset_id new (assets a)\<rparr>) A))"

definition burn :: "'d decimal_ops \<Rightarrow> u64 \<Rightarrow> u64 \<Rightarrow> 'd \<Rightarrow> 'd accounts \<Rightarrow> 'd kerr + 'd accounts" where
  "burn D account_id asset_id to_burn A =
     (if d_is_zero D to_burn \<or> d_is_sign_negative D to_burn
      then Inl (MustBurnPositive account_id asset_id to_burn)
      else let insufficient = (\<lambda>available.
                 Inl (InsufficientBalance account_id asset_id to_burn available))
           in case om_get (accts A) account_id of
                None \<Rightarrow> insufficient (d_zero D)
              | Some a \<Rightarrow>
                  (case om_get (assets a) asset_id of
                     None \<Rightarrow> insufficient (d_zero D)
                   | Some asset \<Rightarrow>
                       (case d_cmp D asset to_burn of
                          Less \<Rightarrow> insufficient asset
                        | Equal \<Rightarrow>
                            Inr (put_account account_id
                              (a\<lparr>assets := om_remove asset_id (assets a)\<rparr>) A)
                        | Greater \<Rightarrow>
                            (case d_checked_sub D asset to_burn of
                               None \<Rightarrow> Inl (Panic ''Subtraction overflowed'')
                             | Some new \<Rightarrow>
                                 Inr (put_account account_id
                                   (a\<lparr>assets := om_insert asset_id new (assets a)\<rparr>) A)))))"

definition get_next_account_id :: "'d accounts \<Rightarrow> u64" where
  "get_next_account_id A = (case om_last (accts A) of None \<Rightarrow> 0 | Some (highest, _) \<Rightarrow> highest + 1)"

definition link_pubkey :: "u64 \<Rightarrow> 'd account \<Rightarrow> public_key \<Rightarrow> 'd accounts \<Rightarrow> 'd accounts" where
  "link_pubkey i a key A =
     (put_account i (a\<lparr>pubkeys := os_insert key (pubkeys a)\<rparr>) A)
       \<lparr>pubkey_ix := om_insert key i (pubkey_ix A)\<rparr>"

definition link_wallet :: "u64 \<Rightarrow> 'd account \<Rightarrow> string \<Rightarrow> 'd accounts \<Rightarrow> 'd accounts" where
  "link_wallet i a w A =
     (put_account i (a\<lparr>wallets := os_insert w (wallets a)\<rparr>) A)
       \<lparr>wallet_ix := om_insert w i (wallet_ix A)\<rparr>"

definition add_pubkey_to_account_error_overlap ::
  "u64 \<Rightarrow> public_key \<Rightarrow> 'd accounts \<Rightarrow> 'd kerr + 'd accounts" where
  "add_pubkey_to_account_error_overlap i key A =
     (if om_contains (pubkey_ix A) key then Inl (Anyhow ''Pubkey already in use'')
      else case om_get (accts A) i of
        None \<Rightarrow> Inl (Anyhow ''Account ID not found'')
      | Some a \<Rightarrow> Inr (link_pubkey i a key A))"

definition add_pubkey_to_account_ignore_overlap ::
  "u64 \<Rightarrow> public_key \<Rightarrow> 'd accounts \<Rightarrow> 'd kerr + 'd accounts" where
  "add_pubkey_to_account_ignore_overlap i key A =
     (if om_contains (pubkey_ix A) key then Inr A
      else case om_get (accts A) i of
        None \<Rightarrow> Inl (Panic ''unwrap on a missing account'')
      | Some a \<Rightarrow> Inr (link_pubkey i a key A))"

definition get_or_add_account_for_key :: "public_key \<Rightarrow> 'd accounts \<Rightarrow> u64 \<times> 'd accounts" where
  "get_or_add_account_for_key key A =
     (case om_get (pubkey_ix A) key of
        Some i \<Rightarrow> (i, A)
      | None \<Rightarrow> let i = get_next_account_id A in (i, link_pubkey i (get_or_default A i) key A))"

definition get_or_add_account_for_wallet ::
  "string \<Rightarrow> 'd accounts \<Rightarrow> 'd kerr + (u64 \<times> 'd accounts)" where
  "get_or_add_account_for_wallet w A =
     (case om_get (wallet_ix A) w of
        Some i \<Rightarrow>
          (case om_get (accts A) i of
             None \<Rightarrow> Inl (Panic ''unwrap on a missing account'')
           | Some _ \<Rightarrow> Inr (i, A))
      | None \<Rightarrow>
          let i = get_next_account_id A in Inr (i, link_wallet i (get_or_default A i) w A))"

definition get_account_for_key ::
  "'d accounts \<Rightarrow> public_key \<Rightarrow> 'd kerr + (u64 \<times> 'd account) option" where
  "get_account_for_key A key =
     (case om_get (pubkey_ix A) key of
        None \<Rightarrow> Inr None
      | Some i \<Rightarrow>
          (case om_get (accts A) i of
             None \<Rightarrow> Inl (Panic ''unwrap on a missing account'')
           | Some a \<Rightarrow> Inr (Some (i, a))))"

definition get_account_for_wallet ::
  "'d accounts \<Rightarrow> string \<Rightarrow> 'd kerr + (u64 \<times> 'd account) option" where
  "get_account_for_wallet A w =
     (case om_get (wallet_ix A) w of
        None \<Rightarrow> Inr None
      | Some i \<Rightarrow>
          (case om_get (accts A) i of
             None \<Rightarrow> Inl (Panic ''unwrap on a missing account'')
           | Some a \<Rightarrow> Inr (Some (i, a))))"

definition remove_pubkey_from_account ::
  "u64 \<Rightarrow> public_key \<Rightarrow> 'd accounts \<Rightarrow> 'd kerr + 'd accounts" where
  "remove_pubkey_from_account i key A =
     (case om_get (pubkey_ix A) key of
        None \<Rightarrow> Inl (Anyhow ''Cannot remove unknown pubkey'')
      | Some actual \<Rightarrow>
          if i \<noteq> actual then Inl (Anyhow ''Cannot remove pubkey from another account'')
          else case om_get (accts A) i of
            None \<Rightarrow> Inl (Panic ''unwrap on a missing account'')
          | Some a \<Rightarrow>
              if key \<notin> set (pubkeys a) then Inl (Panic ''assertion failed: was_present'')
              else Inr ((put_account i (a\<lparr>pubkeys := os_remove key (pubkeys a)\<rparr>) A)
                          \<lparr>pubkey_ix := om_remove key (pubkey_ix A)\<rparr>))"

definition add_wallet_to_account ::
  "u64 \<Rightarrow> string \<Rightarrow> 'd accounts \<Rightarrow> 'd kerr + 'd accounts" where
  "add_wallet_to_account i w A =
     (if om_contains (wallet_ix A) w then Inl (Anyhow ''Wallet already in use'')
      else case om_get (accts A) i of
        None \<Rightarrow> Inl (Anyhow ''Account ID not found'')
      | Some a \<Rightarrow> Inr (link_wallet i a w A))"

definition remove_wallet_from_account ::
  "u64 \<Rightarrow> string \<Rightarrow> 'd accounts \<Rightarrow> 'd kerr + 'd accounts" where
  "remove_wallet_from_account i w A =
     (case om_get (wallet_ix A) w of
        None \<Rightarrow> Inl (Anyhow ''Cannot remove unknown wallet'')
      | Some actual \<Rightarrow>
          if i \<noteq> actual then Inl (Anyhow ''Cannot remove wallet from another account'')
          else case om_get (accts A) i of
            None \<Rightarrow> Inl (Panic ''unwrap on a missing account'')
          | Some a \<Rightarrow>
              if w \<notin> set (wallets a) then Inl (Panic ''assertion failed: was_present'')
              else Inr ((put_account i (a\<lparr>wallets := os_remove w (wallets a)\<rparr>) A)
                          \<lparr>wallet_ix := om_remove w (wallet_ix A)\<rparr>))"

definition use_nonce :: "public_key \<Rightarrow> u64 \<Rightarrow> 'd accounts \<Rightarrow> 'd kerr + (u64 \<times> 'd accounts)" where
  "use_nonce pubkey nonce A =
     (case om_get (pubkey_ix A) pubkey of
        Some i \<Rightarrow>
          (case om_get (accts A) i of
             None \<Rightarrow> Inl (Panic ''unwrap on a missing account'')
           | Some a \<Rightarrow>
               if next_nonce a \<noteq> nonce then Inl (InvalidNonce pubkey i (next_nonce a) nonce)
               else Inr (i, put_account i (a\<lparr>next_nonce := next_nonce a + 1\<rparr>) A))
      | None \<Rightarrow>
          let i = get_next_account_id A;
              a = get_or_default A i
          in if nonce \<noteq> next_nonce a then Inl (Anyhow ''New account expects another initial nonce'')
             else Inr (i, link_pubkey i (a\<lparr>next_nonce := next_nonce a + 1\<rparr>) pubkey A))"

section \<open>The structural invariant\<close>

definition account_wf :: "'d account \<Rightarrow> bool" where
  "account_wf a \<longleftrightarrow> om_wf (assets a) \<and> os_wf (wallets a) \<and> os_wf (pubkeys a)"

text \<open>\<open>ix\<close> maps each key to the one table entry whose key set, read by \<open>f\<close>, holds it.\<close>

definition inverse_ix :: "('k::linorder, u64) omap \<Rightarrow> (u64, 'a) omap \<Rightarrow> ('a \<Rightarrow> 'k list) \<Rightarrow> bool" where
  "inverse_ix ix m f \<longleftrightarrow>
     (\<forall>k i. om_get ix k = Some i \<longleftrightarrow> (\<exists>a. om_get m i = Some a \<and> k \<in> set (f a)))"

definition old_keys :: "(u64, 'a) omap \<Rightarrow> u64 \<Rightarrow> ('a \<Rightarrow> 'k list) \<Rightarrow> 'k set" where
  "old_keys m i f = (case om_get m i of None \<Rightarrow> {} | Some a \<Rightarrow> set (f a))"

lemma old_keys_iff: "k \<in> old_keys m i f \<longleftrightarrow> (\<exists>a. om_get m i = Some a \<and> k \<in> set (f a))"
  by (simp add: old_keys_def split: option.splits)

lemma inverse_ix_iff: "inverse_ix ix m f \<longleftrightarrow> (\<forall>k i. om_get ix k = Some i \<longleftrightarrow> k \<in> old_keys m i f)"
  by (simp add: inverse_ix_def old_keys_iff)

lemma old_keys_insert [simp]:
  "old_keys (om_insert i a m) j f = (if j = i then set (f a) else old_keys m j f)"
  by (simp add: old_keys_def)

lemma inverse_ix_put:
  "inverse_ix ix m f \<Longrightarrow> set (f a) = old_keys m i f \<Longrightarrow> inverse_ix ix (om_insert i a m) f"
  by (simp add: inverse_ix_iff)

lemma inverse_ix_add:
  assumes "inverse_ix ix m f" "om_get ix k = None" "set (f a) = insert k (old_keys m i f)"
  shows "inverse_ix (om_insert k i ix) (om_insert i a m) f"
proof -
  have "k \<notin> old_keys m j f" for j
    using assms(1,2) unfolding inverse_ix_iff by (metis option.distinct(1))
  then show ?thesis using assms unfolding inverse_ix_iff by auto
qed

lemma inverse_ix_del:
  assumes "inverse_ix ix m f" "k \<in> old_keys m i f" "set (f a) = old_keys m i f - {k}"
  shows "inverse_ix (om_remove k ix) (om_insert i a m) f"
proof -
  have "k \<notin> old_keys m j f" if "j \<noteq> i" for j
    using assms(1,2) that unfolding inverse_ix_iff by (metis option.inject)
  then show ?thesis using assms unfolding inverse_ix_iff by auto
qed

definition accounts_wf :: "'d accounts \<Rightarrow> bool" where
  "accounts_wf A \<longleftrightarrow>
     om_wf (accts A) \<and> om_wf (wallet_ix A) \<and> om_wf (pubkey_ix A) \<and>
     (\<forall>i a. om_get (accts A) i = Some a \<longrightarrow> account_wf a) \<and>
     inverse_ix (pubkey_ix A) (accts A) pubkeys \<and>
     inverse_ix (wallet_ix A) (accts A) wallets"

lemma default_account_simps [simp]:
  "assets default_account = []" "wallets default_account = []"
  "pubkeys default_account = []" "next_nonce default_account = 0"
  by (simp_all add: default_account_def)

lemma default_accounts_simps [simp]:
  "accts default_accounts = []" "wallet_ix default_accounts = []" "pubkey_ix default_accounts = []"
  by (simp_all add: default_accounts_def)

lemma put_account_simps [simp]:
  "accts (put_account i a A) = om_insert i a (accts A)"
  "wallet_ix (put_account i a A) = wallet_ix A"
  "pubkey_ix (put_account i a A) = pubkey_ix A"
  by (simp_all add: put_account_def)

lemma account_wf_default [simp]: "account_wf default_account"
  by (simp add: account_wf_def)

lemma accounts_wf_default: "accounts_wf default_accounts"
  by (simp add: accounts_wf_def inverse_ix_def)

lemma accounts_wf_get: "accounts_wf A \<Longrightarrow> om_get (accts A) i = Some a \<Longrightarrow> account_wf a"
  by (simp add: accounts_wf_def)

lemma accounts_wf_key: "accounts_wf A \<Longrightarrow> om_get (pubkey_ix A) k = Some i \<longleftrightarrow>
    (\<exists>a. om_get (accts A) i = Some a \<and> k \<in> set (pubkeys a))"
  by (simp add: accounts_wf_def inverse_ix_def)

lemma accounts_wf_wallet: "accounts_wf A \<Longrightarrow> om_get (wallet_ix A) w = Some i \<longleftrightarrow>
    (\<exists>a. om_get (accts A) i = Some a \<and> w \<in> set (wallets a))"
  by (simp add: accounts_wf_def inverse_ix_def)

lemma account_wf_get_or_default: "accounts_wf A \<Longrightarrow> account_wf (get_or_default A i)"
  by (simp add: get_or_default_def accounts_wf_def split: option.splits)

lemma get_or_default_Some: "om_get (accts A) i = Some a \<Longrightarrow> get_or_default A i = a"
  by (simp add: get_or_default_def)

lemma old_keys_default:
  "set (pubkeys (get_or_default A i)) = old_keys (accts A) i pubkeys"
  "set (wallets (get_or_default A i)) = old_keys (accts A) i wallets"
  by (simp_all add: old_keys_def get_or_default_def split: option.splits)

text \<open>\<open>updates A i a\<close>: the account \<open>a\<close> is account \<open>i\<close> of \<open>A\<close> up to balances and nonce.\<close>

definition updates :: "'d accounts \<Rightarrow> u64 \<Rightarrow> 'd account \<Rightarrow> bool" where
  "updates A i a \<longleftrightarrow> om_wf (assets a) \<and>
     pubkeys a = pubkeys (get_or_default A i) \<and> wallets a = wallets (get_or_default A i)"

lemma updates_wf: "accounts_wf A \<Longrightarrow> updates A i a \<Longrightarrow> account_wf a"
  using account_wf_get_or_default [of A i] by (simp add: updates_def account_wf_def)

lemma updates_refl: "accounts_wf A \<Longrightarrow> updates A i (get_or_default A i)"
  using account_wf_get_or_default [of A i] by (simp add: updates_def account_wf_def)

lemma updates_Some: "accounts_wf A \<Longrightarrow> om_get (accts A) i = Some a \<Longrightarrow> updates A i a"
  using updates_refl [of A i] by (simp add: get_or_default_Some)

lemma updates_assets: "updates A i a \<Longrightarrow> om_wf m \<Longrightarrow> updates A i (a\<lparr>assets := m\<rparr>)"
  by (simp add: updates_def)

lemma updates_nonce: "updates A i a \<Longrightarrow> updates A i (a\<lparr>next_nonce := n\<rparr>)"
  by (simp add: updates_def)

lemma accounts_wf_put [preserve]:
  assumes "accounts_wf A" "updates A i a"
  shows "accounts_wf (put_account i a A)"
  using assms updates_wf [OF assms] unfolding accounts_wf_def
  by (auto simp: om_wf_insert updates_def old_keys_default inverse_ix_put)

lemma accounts_wf_link_pubkey [preserve]:
  assumes "accounts_wf A" "om_get (pubkey_ix A) key = None" "updates A i a"
  shows "accounts_wf (link_pubkey i a key A)"
  using assms updates_wf [OF assms(1,3)] unfolding accounts_wf_def link_pubkey_def account_wf_def
  by (auto simp: om_wf_insert os_wf_insert updates_def old_keys_default
      inverse_ix_put inverse_ix_add)

lemma accounts_wf_link_wallet [preserve]:
  assumes "accounts_wf A" "om_get (wallet_ix A) w = None" "updates A i a"
  shows "accounts_wf (link_wallet i a w A)"
  using assms updates_wf [OF assms(1,3)] unfolding accounts_wf_def link_wallet_def account_wf_def
  by (auto simp: om_wf_insert os_wf_insert updates_def old_keys_default
      inverse_ix_put inverse_ix_add)

lemma accounts_wf_unlink_pubkey [preserve]:
  assumes "accounts_wf A" "om_get (accts A) i = Some a" "key \<in> set (pubkeys a)"
  shows "accounts_wf ((put_account i (a\<lparr>pubkeys := os_remove key (pubkeys a)\<rparr>) A)
    \<lparr>pubkey_ix := om_remove key (pubkey_ix A)\<rparr>)"
  using assms accounts_wf_get [OF assms(1,2)] unfolding accounts_wf_def account_wf_def
  by (auto simp: om_wf_insert om_wf_remove os_wf_remove old_keys_def
      inverse_ix_put inverse_ix_del)

lemma accounts_wf_unlink_wallet [preserve]:
  assumes "accounts_wf A" "om_get (accts A) i = Some a" "w \<in> set (wallets a)"
  shows "accounts_wf ((put_account i (a\<lparr>wallets := os_remove w (wallets a)\<rparr>) A)
    \<lparr>wallet_ix := om_remove w (wallet_ix A)\<rparr>)"
  using assms accounts_wf_get [OF assms(1,2)] unfolding accounts_wf_def account_wf_def
  by (auto simp: om_wf_insert om_wf_remove os_wf_remove old_keys_def
      inverse_ix_put inverse_ix_del)

section \<open>Steps and reachable tables\<close>

inductive accounts_step :: "'d decimal_ops \<Rightarrow> 'd accounts \<Rightarrow> 'd accounts \<Rightarrow> bool" for D where
  st_mint: "mint D i s x A = Inr A' \<Longrightarrow> accounts_step D A A'"
| st_burn: "burn D i s x A = Inr A' \<Longrightarrow> accounts_step D A A'"
| st_add_account: "accounts_step D A (add_account i A)"
| st_add_pubkey: "add_pubkey_to_account_error_overlap i k A = Inr A' \<Longrightarrow> accounts_step D A A'"
| st_add_pubkey_ignore: "add_pubkey_to_account_ignore_overlap i k A = Inr A' \<Longrightarrow> accounts_step D A A'"
| st_account_for_key: "get_or_add_account_for_key k A = (i, A') \<Longrightarrow> accounts_step D A A'"
| st_account_for_wallet: "get_or_add_account_for_wallet w A = Inr (i, A') \<Longrightarrow> accounts_step D A A'"
| st_remove_pubkey: "remove_pubkey_from_account i k A = Inr A' \<Longrightarrow> accounts_step D A A'"
| st_add_wallet: "add_wallet_to_account i w A = Inr A' \<Longrightarrow> accounts_step D A A'"
| st_remove_wallet: "remove_wallet_from_account i w A = Inr A' \<Longrightarrow> accounts_step D A A'"
| st_use_nonce: "use_nonce k n A = Inr (i, A') \<Longrightarrow> accounts_step D A A'"

inductive accounts_reachable :: "'d decimal_ops \<Rightarrow> 'd accounts \<Rightarrow> bool" for D where
  reach_default: "accounts_reachable D default_accounts"
| reach_step: "accounts_reachable D A \<Longrightarrow> accounts_step D A A' \<Longrightarrow> accounts_reachable D A'"

lemma mint_Inr:
  "mint D i s x A = Inr A' \<Longrightarrow> \<not> d_is_zero D x \<and> \<not> d_is_sign_negative D x \<and>
     (\<exists>new. d_checked_add D (case om_get (assets (get_or_default A i)) s of None \<Rightarrow> d_zero D | Some d \<Rightarrow> d) x = Some new \<and>
        A' = put_account i ((get_or_default A i)\<lparr>assets := om_insert s new (assets (get_or_default A i))\<rparr>) A)"
  by (auto simp: mint_def Let_def split: if_splits option.splits)

lemma burn_Inr:
  "burn D i s x A = Inr A' \<Longrightarrow> \<not> d_is_zero D x \<and> \<not> d_is_sign_negative D x \<and>
     (\<exists>a d. om_get (accts A) i = Some a \<and> om_get (assets a) s = Some d \<and>
        (d_cmp D d x = Equal \<and> A' = put_account i (a\<lparr>assets := om_remove s (assets a)\<rparr>) A \<or>
         d_cmp D d x = Greater \<and> (\<exists>new. d_checked_sub D d x = Some new \<and>
           A' = put_account i (a\<lparr>assets := om_insert s new (assets a)\<rparr>) A)))"
  by (auto simp: burn_def Let_def split: if_splits option.splits cmp_ordering.splits)

lemma updates_insert_asset:
  "accounts_wf A \<Longrightarrow> updates A i ((get_or_default A i)\<lparr>assets := om_insert s x (assets (get_or_default A i))\<rparr>)"
  using updates_refl [of A i] by (auto simp: updates_def om_wf_insert)

text \<open>Every operation keeps the structural invariant.\<close>

lemma mint_wf [preserve]: "accounts_wf A \<Longrightarrow> mint D i s x A = Inr A' \<Longrightarrow> accounts_wf A'"
  by (auto dest!: mint_Inr intro!: accounts_wf_put updates_insert_asset)

lemma assets_wf: "accounts_wf A \<Longrightarrow> om_get (accts A) i = Some a \<Longrightarrow> om_wf (assets a)"
  using accounts_wf_get [of A i a] by (simp add: account_wf_def)

lemma updates_assets_Some:
  "accounts_wf A \<Longrightarrow> om_get (accts A) i = Some a \<Longrightarrow> om_wf m \<Longrightarrow> updates A i (a\<lparr>assets := m\<rparr>)"
  by (rule updates_assets [OF updates_Some])

lemma burn_wf [preserve]: "accounts_wf A \<Longrightarrow> burn D i s x A = Inr A' \<Longrightarrow> accounts_wf A'"
  by (auto dest!: burn_Inr simp: om_wf_insert om_wf_remove assets_wf
      intro!: accounts_wf_put updates_assets_Some)

lemma add_account_wf [preserve]: "accounts_wf A \<Longrightarrow> accounts_wf (add_account i A)"
  by (auto simp: add_account_def intro!: accounts_wf_put updates_refl)

lemma add_pubkey_wf [preserve]:
  "accounts_wf A \<Longrightarrow> add_pubkey_to_account_error_overlap i k A = Inr A' \<Longrightarrow> accounts_wf A'"
  by (auto simp: add_pubkey_to_account_error_overlap_def om_contains_def
      intro!: accounts_wf_link_pubkey updates_Some split: if_splits option.splits)

lemma add_pubkey_ignore_wf [preserve]:
  "accounts_wf A \<Longrightarrow> add_pubkey_to_account_ignore_overlap i k A = Inr A' \<Longrightarrow> accounts_wf A'"
  by (auto simp: add_pubkey_to_account_ignore_overlap_def om_contains_def
      intro!: accounts_wf_link_pubkey updates_Some split: if_splits option.splits)

lemma account_for_key_wf [preserve]:
  "accounts_wf A \<Longrightarrow> get_or_add_account_for_key k A = (i, A') \<Longrightarrow> accounts_wf A'"
  by (auto simp: get_or_add_account_for_key_def Let_def
      intro!: accounts_wf_link_pubkey updates_refl split: option.splits)

lemma account_for_wallet_wf [preserve]:
  "accounts_wf A \<Longrightarrow> get_or_add_account_for_wallet w A = Inr (i, A') \<Longrightarrow> accounts_wf A'"
  by (auto simp: get_or_add_account_for_wallet_def Let_def
      intro!: accounts_wf_link_wallet updates_refl split: option.splits)

lemma remove_pubkey_wf [preserve]:
  "accounts_wf A \<Longrightarrow> remove_pubkey_from_account i k A = Inr A' \<Longrightarrow> accounts_wf A'"
  by (auto simp: remove_pubkey_from_account_def intro!: accounts_wf_unlink_pubkey
      split: if_splits option.splits)

lemma add_wallet_wf [preserve]:
  "accounts_wf A \<Longrightarrow> add_wallet_to_account i w A = Inr A' \<Longrightarrow> accounts_wf A'"
  by (auto simp: add_wallet_to_account_def om_contains_def
      intro!: accounts_wf_link_wallet updates_Some split: if_splits option.splits)

lemma remove_wallet_wf [preserve]:
  "accounts_wf A \<Longrightarrow> remove_wallet_from_account i w A = Inr A' \<Longrightarrow> accounts_wf A'"
  by (auto simp: remove_wallet_from_account_def intro!: accounts_wf_unlink_wallet
      split: if_splits option.splits)

lemma use_nonce_wf [preserve]:
  "accounts_wf A \<Longrightarrow> use_nonce k n A = Inr (i, A') \<Longrightarrow> accounts_wf A'"
  by (auto simp: use_nonce_def Let_def
      intro!: accounts_wf_put accounts_wf_link_pubkey updates_nonce updates_Some updates_refl
      split: if_splits option.splits)

lemma accounts_step_wf: "accounts_step D A A' \<Longrightarrow> accounts_wf A \<Longrightarrow> accounts_wf A'"
  by (induction rule: accounts_step.induct) (auto intro: preserve)

section \<open>Balances\<close>

definition asset_of :: "'d accounts \<Rightarrow> u64 \<Rightarrow> u64 \<Rightarrow> 'd option" where
  "asset_of A i s = (case om_get (accts A) i of None \<Rightarrow> None | Some a \<Rightarrow> om_get (assets a) s)"

definition val_of :: "('d \<Rightarrow> rat) \<Rightarrow> 'd option \<Rightarrow> rat" where
  "val_of v d = (case d of None \<Rightarrow> 0 | Some x \<Rightarrow> v x)"

definition bal :: "('d \<Rightarrow> rat) \<Rightarrow> 'd accounts \<Rightarrow> u64 \<Rightarrow> u64 \<Rightarrow> rat" where
  "bal v A i s = val_of v (asset_of A i s)"

definition ledger_add :: "(u64 \<Rightarrow> u64 \<Rightarrow> rat) \<Rightarrow> u64 \<Rightarrow> u64 \<Rightarrow> rat \<Rightarrow> u64 \<Rightarrow> u64 \<Rightarrow> rat" where
  "ledger_add L i s x = (\<lambda>j t. if j = i \<and> t = s then L i s + x else L j t)"

definition total_supply :: "('d \<Rightarrow> rat) \<Rightarrow> 'd accounts \<Rightarrow> u64 \<Rightarrow> rat" where
  "total_supply v A s = (\<Sum>e\<leftarrow>accts A. val_of v (om_get (assets (snd e)) s))"

definition balances_pos :: "('d \<Rightarrow> rat) \<Rightarrow> 'd accounts \<Rightarrow> bool" where
  "balances_pos v A \<longleftrightarrow> (\<forall>i s d. asset_of A i s = Some d \<longrightarrow> 0 < v d)"

lemma val_of_simps [simp]: "val_of v None = 0" "val_of v (Some d) = v d"
  by (simp_all add: val_of_def)

lemma asset_of_put [simp]:
  "asset_of (put_account i a A) j s = (if j = i then om_get (assets a) s else asset_of A j s)"
  by (simp add: asset_of_def)

lemma asset_of_get_or_default [simp]: "om_get (assets (get_or_default A i)) s = asset_of A i s"
  by (simp add: asset_of_def get_or_default_def split: option.splits)

lemma asset_of_Some: "om_get (accts A) i = Some a \<Longrightarrow> om_get (assets a) s = asset_of A i s"
  by (simp add: asset_of_def)

lemma asset_of_update [simp]:
  "asset_of (A\<lparr>pubkey_ix := p\<rparr>) = asset_of A"
  "asset_of (A\<lparr>wallet_ix := q\<rparr>) = asset_of A"
  by (simp_all add: asset_of_def fun_eq_iff)

lemma asset_of_link [simp]:
  "asset_of (link_pubkey i a k A) = asset_of (put_account i a A)"
  "asset_of (link_wallet i a w A) = asset_of (put_account i a A)"
  by (simp_all add: link_pubkey_def link_wallet_def asset_of_def fun_eq_iff)

text \<open>Only \<open>mint\<close> and \<open>burn\<close> touch balances.\<close>

lemma asset_frames [frame]:
  "asset_of (add_account i A) = asset_of A"
  "add_pubkey_to_account_error_overlap i k A = Inr A' \<Longrightarrow> asset_of A' = asset_of A"
  "add_pubkey_to_account_ignore_overlap i k A = Inr A' \<Longrightarrow> asset_of A' = asset_of A"
  "get_or_add_account_for_key k A = (i, A') \<Longrightarrow> asset_of A' = asset_of A"
  "get_or_add_account_for_wallet w A = Inr (i, A') \<Longrightarrow> asset_of A' = asset_of A"
  "remove_pubkey_from_account i k A = Inr A' \<Longrightarrow> asset_of A' = asset_of A"
  "add_wallet_to_account i w A = Inr A' \<Longrightarrow> asset_of A' = asset_of A"
  "remove_wallet_from_account i w A = Inr A' \<Longrightarrow> asset_of A' = asset_of A"
  "use_nonce k n A = Inr (i, A') \<Longrightarrow> asset_of A' = asset_of A"
  by (auto simp: fun_eq_iff add_account_def add_pubkey_to_account_error_overlap_def
      add_pubkey_to_account_ignore_overlap_def get_or_add_account_for_key_def
      get_or_add_account_for_wallet_def remove_pubkey_from_account_def add_wallet_to_account_def
      remove_wallet_from_account_def use_nonce_def Let_def asset_of_Some
      split: if_splits option.splits)

lemma mint_Inr_iff:
  assumes D: "decimal_laws D v R"
  shows "mint D i s x A = Inr A' \<longleftrightarrow> 0 < v x \<and>
     (\<exists>old new. old = (case asset_of A i s of None \<Rightarrow> d_zero D | Some d \<Rightarrow> d) \<and>
        d_checked_add D old x = Some new \<and>
        A' = put_account i ((get_or_default A i)\<lparr>assets := om_insert s new (assets (get_or_default A i))\<rparr>) A)"
  using decimal_lawsD(4) [OF D, of x] by (auto simp: mint_def Let_def not_le split: option.splits)

lemma burn_Inr_iff:
  assumes D: "decimal_laws D v R"
  shows "burn D i s x A = Inr A' \<longleftrightarrow> 0 < v x \<and>
     (\<exists>a d. om_get (accts A) i = Some a \<and> om_get (assets a) s = Some d \<and>
        (v d = v x \<and> A' = put_account i (a\<lparr>assets := om_remove s (assets a)\<rparr>) A \<or>
         v x < v d \<and> (\<exists>new. d_checked_sub D d x = Some new \<and>
           A' = put_account i (a\<lparr>assets := om_insert s new (assets a)\<rparr>) A)))"
  using decimal_lawsD(4) [OF D, of x]
  by (auto simp: burn_def Let_def not_le decimal_lawsD(5) [OF D]
      split: option.splits if_splits cmp_ordering.splits)

lemma mint_pos [preserve]:
  assumes D: "decimal_laws D v R" and "balances_pos v A" "mint D i s x A = Inr A'"
  shows "balances_pos v A'"
proof -
  from assms(3) obtain new old where x: "0 < v x" and new: "d_checked_add D old x = Some new"
    and old: "old = (case asset_of A i s of None \<Rightarrow> d_zero D | Some d \<Rightarrow> d)"
    and A': "A' = put_account i ((get_or_default A i)\<lparr>assets := om_insert s new (assets (get_or_default A i))\<rparr>) A"
    by (auto simp: mint_Inr_iff [OF D])
  have "0 \<le> v old"
    using decimal_lawsD(1) [OF D] assms(2) old
    by (auto simp: balances_pos_def less_imp_le split: option.splits)
  then have "0 < v new"
    using x decimal_lawsD(8) [OF D new] by simp
  then show ?thesis
    unfolding A' using assms(2) by (simp add: balances_pos_def)
qed

lemma burn_pos [preserve]:
  assumes D: "decimal_laws D v R" and "balances_pos v A" "burn D i s x A = Inr A'"
  shows "balances_pos v A'"
proof -
  from assms(3) obtain a m where a: "om_get (accts A) i = Some a"
    and A': "A' = put_account i (a\<lparr>assets := m\<rparr>) A"
    and m: "\<And>t e. om_get m t = Some e \<Longrightarrow> 0 < v e \<or> om_get (assets a) t = Some e"
    unfolding burn_Inr_iff [OF D]
  proof (elim conjE exE disjE)
    fix a d
    assume "om_get (accts A) i = Some a"
      and "A' = put_account i (a\<lparr>assets := om_remove s (assets a)\<rparr>) A"
    then show thesis by (rule that) (simp split: if_splits)
  next
    fix a d new
    assume "om_get (accts A) i = Some a"
      and "A' = put_account i (a\<lparr>assets := om_insert s new (assets a)\<rparr>) A"
      and "v x < v d" "d_checked_sub D d x = Some new"
    then show thesis
      using decimal_lawsD(9) [OF D, of d x new] by (intro that) (auto split: if_splits)
  qed
  have "asset_of A i t = om_get (assets a) t" for t
    using a by (simp add: asset_of_def)
  then have "0 < v e" if "om_get m t = Some e" for t e
    using m [OF that] assms(2) unfolding balances_pos_def by metis
  then show ?thesis
    unfolding A' using assms(2) by (simp add: balances_pos_def)
qed

lemma accounts_step_pos:
  assumes D: "decimal_laws D v R" and "accounts_step D A A'" "balances_pos v A"
  shows "balances_pos v A'"
  using assms(2,3)
proof (induction rule: accounts_step.induct)
  case (st_mint i s x A A')
  then show ?case using mint_pos [OF D] by blast
next
  case (st_burn i s x A A')
  then show ?case using burn_pos [OF D] by blast
qed (auto simp: balances_pos_def asset_frames)

section \<open>Ledger refinement\<close>

lemma mint_ledger:
  assumes D: "decimal_laws D v R" and "0 < v x" "bal v A i s + v x \<in> R"
  shows "\<exists>A'. mint D i s x A = Inr A' \<and> bal v A' = ledger_add (bal v A) i s (v x)"
proof -
  let ?old = "case asset_of A i s of None \<Rightarrow> d_zero D | Some d \<Rightarrow> d"
  have old: "v ?old = bal v A i s"
    using decimal_lawsD(1) [OF D] by (auto simp: bal_def split: option.splits)
  then obtain new where "d_checked_add D ?old x = Some new" "v new = bal v A i s + v x"
    using decimal_lawsD(6) [OF D, of ?old x] assms(3) by auto
  then show ?thesis
    using assms(2) by (auto simp: mint_Inr_iff [OF D] bal_def ledger_add_def fun_eq_iff)
qed

lemma burn_ledger:
  assumes D: "decimal_laws D v R" and "0 < v x" "v x \<le> bal v A i s" "bal v A i s - v x \<in> R"
  shows "\<exists>A'. burn D i s x A = Inr A' \<and> bal v A' = ledger_add (bal v A) i s (- v x)"
proof -
  from assms(2,3) obtain a d where a: "om_get (accts A) i = Some a" and d: "om_get (assets a) s = Some d"
    by (auto simp: bal_def asset_of_def val_of_def split: option.splits)
  then have b: "bal v A i s = v d" by (simp add: bal_def asset_of_def)
  obtain new where "d_checked_sub D d x = Some new" "v new = v d - v x"
    using decimal_lawsD(7) [OF D, of d x] assms(4) b by auto
  then have "\<exists>A'. burn D i s x A = Inr A' \<and> (\<forall>j t. bal v A' j t = ledger_add (bal v A) i s (- v x) j t)"
    using assms(2,3) a d b
    by (cases "v d = v x") (auto simp: burn_Inr_iff [OF D] bal_def ledger_add_def asset_of_Some)
  then show ?thesis by (auto simp: fun_eq_iff)
qed

lemma burn_insufficient:
  assumes D: "decimal_laws D v R" and "0 < v x" "bal v A i s < v x"
  shows "\<exists>available. burn D i s x A = Inl (InsufficientBalance i s x available) \<and>
    v available = bal v A i s"
proof -
  have "\<not> (d_is_zero D x \<or> d_is_sign_negative D x)"
    using decimal_lawsD(4) [OF D, of x] assms(2) by simp
  then show ?thesis
    using assms(3) decimal_lawsD(1) [OF D]
    by (auto simp: burn_def Let_def bal_def asset_of_def decimal_lawsD(5) [OF D]
        split: option.splits)
qed

section \<open>Total supply\<close>

lemma sum_om_insert:
  assumes "om_wf m"
  shows "(\<Sum>e\<leftarrow>om_insert k x m. g (snd e)) =
    (\<Sum>e\<leftarrow>m. g (snd e)) - (case om_get m k of None \<Rightarrow> 0 | Some y \<Rightarrow> g y) + (g x :: rat)"
  using assms
proof (induction k x m rule: om_insert.induct)
  case (2 k v k' v' m)
  have "k < k' \<Longrightarrow> om_get m k = None"
    using 2(2) by (auto simp: om_wf_Cons om_get_None_iff)
  then show ?case
    using 2 by (auto simp: om_wf_Cons)
qed simp

lemma total_supply_put:
  assumes "om_wf (accts A)"
  shows "total_supply v (put_account i a A) s =
    total_supply v A s - bal v A i s + val_of v (om_get (assets a) s)"
  unfolding total_supply_def bal_def asset_of_def
  by (simp add: sum_om_insert [OF assms, where g = "\<lambda>a. val_of v (om_get (assets a) s)"]
      split: option.splits)

section \<open>Nonces\<close>

definition nonce_of :: "'d accounts \<Rightarrow> public_key \<Rightarrow> u64 option" where
  "nonce_of A pk = (case om_get (pubkey_ix A) pk of
     None \<Rightarrow> None | Some i \<Rightarrow> map_option next_nonce (om_get (accts A) i))"

definition use_nonces :: "public_key \<Rightarrow> u64 list \<Rightarrow> 'd accounts \<Rightarrow> 'd kerr + 'd accounts" where
  "use_nonces pk = rfold (\<lambda>n A. rbind (use_nonce pk n A) (\<lambda>(i, A'). Inr A'))"

lemma use_nonce_nonce_of:
  assumes "use_nonce pk n A = Inr (i, A')"
  shows "nonce_of A' pk = Some (n + 1)" and "nonce_of A pk = Some m \<Longrightarrow> n = m"
  using assms by (auto simp: use_nonce_def nonce_of_def Let_def link_pubkey_def
      split: option.splits if_splits)

lemma use_nonces_from:
  "use_nonces pk ns A = Inr A' \<Longrightarrow> nonce_of A pk = Some m \<Longrightarrow> k < length ns \<Longrightarrow>
     ns ! k = m + of_nat k"
proof (induction ns arbitrary: A m k)
  case (Cons n ns)
  then obtain i B where B: "use_nonce pk n A = Inr (i, B)" "use_nonces pk ns B = Inr A'"
    by (auto simp: use_nonces_def result_simps)
  then have n: "n = m" "nonce_of B pk = Some (m + 1)"
    using use_nonce_nonce_of [OF B(1)] Cons.prems(2) by auto
  show ?case
  proof (cases k)
    case (Suc j)
    then have "ns ! j = m + 1 + of_nat j"
      using Cons.IH [OF B(2) n(2), of j] Cons.prems(3) by simp
    with Suc show ?thesis by (simp add: add.assoc)
  qed (simp add: n)
qed simp

section \<open>Fresh account identifiers\<close>

lemma get_next_account_id_fresh:
  assumes "om_wf (accts A)" "om_get (accts A) (- 1) = None"
  shows "om_get (accts A) (get_next_account_id A) = None"
proof (cases "om_last (accts A)")
  case None
  then show ?thesis by (simp add: get_next_account_id_def om_last_None_iff)
next
  case (Some e)
  then obtain hi a where e: "om_last (accts A) = Some (hi, a)" by (cases e) auto
  from om_last_Some [OF assms(1) e] have top: "om_get (accts A) hi \<noteq> None"
    and max: "\<And>j. om_get (accts A) j \<noteq> None \<Longrightarrow> j \<le> hi" by auto
  from top assms(2) have "hi \<noteq> - 1" by auto
  then have "hi < hi + 1" by (rule word_Suc_less)
  then have "om_get (accts A) (hi + 1) = None"
    using max [of "hi + 1"] by (meson leD)
  then show ?thesis using e by (simp add: get_next_account_id_def)
qed

lemma get_next_account_id_wraps:
  assumes "om_wf (accts A)" "om_get (accts A) (- 1) \<noteq> None"
  shows "get_next_account_id A = 0"
proof -
  from assms(2) have "om_last (accts A) \<noteq> None"
    by (auto simp: om_last_None_iff)
  then obtain hi a where e: "om_last (accts A) = Some (hi, a)" by auto
  from om_last_Some [OF assms(1) e] assms(2) have "(- 1 :: u64) \<le> hi" by auto
  then have "hi = - 1" by (simp add: word_order.extremum_unique)
  then show ?thesis using e by (simp add: get_next_account_id_def)
qed

section \<open>Rebuilding the indexes after a load\<close>

text \<open>
  Only the account map is stored; loading it rebuilds both indexes and refuses a wallet or key
  that two accounts claim.
\<close>

definition index_one :: "u64 \<Rightarrow> 'k::linorder \<Rightarrow> ('k, u64) omap \<Rightarrow> string + ('k, u64) omap" where
  "index_one i k ix =
     (if om_contains ix k then Inl ''used in two accounts'' else Inr (om_insert k i ix))"

definition index_account ::
  "u64 \<times> 'd account \<Rightarrow> (string, u64) omap \<times> (public_key, u64) omap \<Rightarrow>
    string + (string, u64) omap \<times> (public_key, u64) omap" where
  "index_account e ixs = (case ixs of (ws, ps) \<Rightarrow>
     rbind (rfold (index_one (fst e)) (wallets (snd e)) ws) (\<lambda>ws'.
     rbind (rfold (index_one (fst e)) (pubkeys (snd e)) ps) (\<lambda>ps'. Inr (ws', ps'))))"

definition accounts_from_map :: "(u64, 'd account) omap \<Rightarrow> string + 'd accounts" where
  "accounts_from_map m =
     rbind (rfold index_account m ([], [])) (\<lambda>(ws, ps).
       Inr \<lparr>accts = m, wallet_ix = ws, pubkey_ix = ps\<rparr>)"

lemma index_keys:
  assumes "distinct ks" "\<And>k. k \<in> set ks \<Longrightarrow> om_get ix k = None" "om_wf ix"
  shows "\<exists>ix'. rfold (index_one i) ks ix = Inr ix' \<and> om_wf ix' \<and>
    (\<forall>k. om_get ix' k = (if k \<in> set ks then Some i else om_get ix k))"
  using assms
proof (induction ks arbitrary: ix)
  case (Cons k ks)
  then have "\<exists>ix'. rfold (index_one i) ks (om_insert k i ix) = Inr ix' \<and> om_wf ix' \<and>
    (\<forall>l. om_get ix' l = (if l \<in> set ks then Some i else om_get (om_insert k i ix) l))"
    by (intro Cons.IH) (auto simp: om_wf_insert)
  moreover have "index_one i k ix = Inr (om_insert k i ix)"
    using Cons.prems(2) [of k] by (simp add: index_one_def om_contains_def)
  ultimately show ?case
    by auto
qed simp

text \<open>\<open>owns m f\<close>: no key belongs to two entries of \<open>m\<close>.\<close>

definition owns :: "(u64, 'a) omap \<Rightarrow> ('a \<Rightarrow> 'k list) \<Rightarrow> bool" where
  "owns m f \<longleftrightarrow> (\<forall>i j k. k \<in> old_keys m i f \<longrightarrow> k \<in> old_keys m j f \<longrightarrow> i = j)"

lemma inverse_ix_owns: "inverse_ix ix m f \<Longrightarrow> owns m f"
  by (auto simp: inverse_ix_iff owns_def) (metis option.inject)

lemma old_keys_Cons:
  "om_wf ((i, a) # m) \<Longrightarrow> old_keys ((i, a) # m) j f = (if j = i then set (f a) else old_keys m j f)"
  by (simp add: old_keys_def)

lemma old_keys_absent: "om_wf ((i, a) # m) \<Longrightarrow> old_keys m i f = {}"
proof -
  assume "om_wf ((i, a) # m)"
  then have "om_get m i = None" by (auto simp: om_wf_Cons om_get_None_iff)
  then show ?thesis by (simp add: old_keys_def)
qed

lemma index_accounts:
  assumes "om_wf m" "\<forall>e \<in> set m. account_wf (snd e)" "owns m wallets" "owns m pubkeys"
    and "om_wf ws" "om_wf ps"
    and "\<And>i k. k \<in> old_keys m i wallets \<Longrightarrow> om_get ws k = None"
    and "\<And>i k. k \<in> old_keys m i pubkeys \<Longrightarrow> om_get ps k = None"
  shows "\<exists>ws' ps'. rfold index_account m (ws, ps) = Inr (ws', ps') \<and> om_wf ws' \<and> om_wf ps' \<and>
    (\<forall>k i. om_get ws' k = Some i \<longleftrightarrow> k \<in> old_keys m i wallets \<or> om_get ws k = Some i) \<and>
    (\<forall>k i. om_get ps' k = Some i \<longleftrightarrow> k \<in> old_keys m i pubkeys \<or> om_get ps k = Some i)"
  using assms
proof (induction m arbitrary: ws ps)
  case Nil
  then show ?case by (simp add: old_keys_def)
next
  case (Cons e m)
  obtain i a where e: "e = (i, a)" by (cases e)
  note keys = old_keys_Cons [OF Cons.prems(1) [unfolded e]]
  note absent = old_keys_absent [OF Cons.prems(1) [unfolded e]]
  have d: "distinct (wallets a)" "distinct (pubkeys a)"
    using Cons.prems(2) by (auto simp: e account_wf_def os_wf_iff)
  have "\<And>k. k \<in> set (wallets a) \<Longrightarrow> om_get ws k = None" "\<And>k. k \<in> set (pubkeys a) \<Longrightarrow> om_get ps k = None"
    using Cons.prems(7) [of _ i] Cons.prems(8) [of _ i] by (simp_all add: e keys)
  from index_keys [OF d(1) this(1) Cons.prems(5), of i] index_keys [OF d(2) this(2) Cons.prems(6), of i]
  obtain ws1 ps1 where one: "index_account e (ws, ps) = Inr (ws1, ps1)"
    and wf1: "om_wf ws1" "om_wf ps1"
    and get1: "\<And>k. om_get ws1 k = (if k \<in> set (wallets a) then Some i else om_get ws k)"
      "\<And>k. om_get ps1 k = (if k \<in> set (pubkeys a) then Some i else om_get ps k)"
    by (auto simp: index_account_def e)
  have out: "k \<notin> set (wallets a)" if "k \<in> old_keys m j wallets" for j k
    using Cons.prems(3) that absent unfolding owns_def e keys by (metis empty_iff)
  have out': "k \<notin> set (pubkeys a)" if "k \<in> old_keys m j pubkeys" for j k
    using Cons.prems(4) that absent unfolding owns_def e keys by (metis empty_iff)
  have "\<exists>ws' ps'. rfold index_account m (ws1, ps1) = Inr (ws', ps') \<and> om_wf ws' \<and> om_wf ps' \<and>
    (\<forall>k i. om_get ws' k = Some i \<longleftrightarrow> k \<in> old_keys m i wallets \<or> om_get ws1 k = Some i) \<and>
    (\<forall>k i. om_get ps' k = Some i \<longleftrightarrow> k \<in> old_keys m i pubkeys \<or> om_get ps1 k = Some i)"
  proof (rule Cons.IH)
    show "om_wf m" using Cons.prems(1) by (simp add: e om_wf_Cons)
    show "\<forall>e \<in> set m. account_wf (snd e)" using Cons.prems(2) by simp
    show "owns m wallets" "owns m pubkeys"
      using Cons.prems(3,4) absent unfolding owns_def e keys by (metis empty_iff)+
    show "om_get ws1 k = None" if "k \<in> old_keys m j wallets" for j k
      using out [OF that] Cons.prems(7) [of k j] that
      by (cases "j = i") (auto simp: get1 e keys absent)
    show "om_get ps1 k = None" if "k \<in> old_keys m j pubkeys" for j k
      using out' [OF that] Cons.prems(8) [of k j] that
      by (cases "j = i") (auto simp: get1 e keys absent)
  qed (use wf1 in auto)
  then obtain ws' ps' where r: "rfold index_account m (ws1, ps1) = Inr (ws', ps')" "om_wf ws'" "om_wf ps'"
    and g: "\<And>k j. om_get ws' k = Some j \<longleftrightarrow> k \<in> old_keys m j wallets \<or> om_get ws1 k = Some j"
      "\<And>k j. om_get ps' k = Some j \<longleftrightarrow> k \<in> old_keys m j pubkeys \<or> om_get ps1 k = Some j"
    by blast
  have "om_get ws' k = Some j \<longleftrightarrow> k \<in> old_keys (e # m) j wallets \<or> om_get ws k = Some j" for k j
    using Cons.prems(7) [of k i] out [of k j]
    by (cases "k \<in> set (wallets a)"; cases "j = i") (auto simp: g get1 e keys absent)
  moreover have "om_get ps' k = Some j \<longleftrightarrow> k \<in> old_keys (e # m) j pubkeys \<or> om_get ps k = Some j" for k j
    using Cons.prems(8) [of k i] out' [of k j]
    by (cases "k \<in> set (pubkeys a)"; cases "j = i") (auto simp: g get1 e keys absent)
  ultimately show ?case
    using r one by simp
qed

lemma accounts_from_map_inverse:
  assumes "accounts_wf A"
  shows "accounts_from_map (accts A) = Inr A"
proof -
  have wf: "om_wf (accts A)" "inverse_ix (wallet_ix A) (accts A) wallets"
    "inverse_ix (pubkey_ix A) (accts A) pubkeys"
    using assms by (simp_all add: accounts_wf_def)
  have "\<forall>e \<in> set (accts A). account_wf (snd e)"
    using assms om_get_iff_in_set [OF wf(1)] by (auto simp: accounts_wf_def)
  from index_accounts [OF wf(1) this inverse_ix_owns [OF wf(2)] inverse_ix_owns [OF wf(3)], of "[]" "[]"]
  obtain ws ps where r: "rfold index_account (accts A) ([], []) = Inr (ws, ps)"
    and o: "om_wf ws" "om_wf ps"
    and get: "\<And>k i. om_get ws k = Some i \<longleftrightarrow> k \<in> old_keys (accts A) i wallets"
      "\<And>k i. om_get ps k = Some i \<longleftrightarrow> k \<in> old_keys (accts A) i pubkeys"
    by auto
  have "ws = wallet_ix A"
    using o(1) assms get(1) wf(2) unfolding inverse_ix_iff
    by (intro om_ext) (auto simp: accounts_wf_def, metis not_Some_eq)
  moreover have "ps = pubkey_ix A"
    using o(2) assms get(2) wf(3) unfolding inverse_ix_iff
    by (intro om_ext) (auto simp: accounts_wf_def, metis not_Some_eq)
  ultimately show ?thesis
    by (simp add: accounts_from_map_def r)
qed

section \<open>Properties\<close>

text \<open>C27: whatever sequence of operations built the account table, its containers are ordered,
  the wallet and key indexes are exactly the inverse of the per-account sets, and every stored
  balance is positive.\<close>

theorem accounts_reachable_invariant:
  assumes "decimal_laws D v R" "accounts_reachable D A"
  shows "accounts_wf A \<and> balances_pos v A"
  using assms(2)
proof (induction rule: accounts_reachable.induct)
  case reach_default
  show ?case by (simp add: accounts_wf_default balances_pos_def asset_of_def)
next
  case (reach_step A A')
  then show ?case by (blast intro: accounts_step_wf accounts_step_pos [OF assms(1)])
qed

lemma accounts_reachable_invariant_witness:
  "accounts_wf (link_pubkey 0 default_account (PublicKey [2]) (default_accounts :: int accounts)) \<and>
   balances_pos of_int (link_pubkey 0 default_account (PublicKey [2]) (default_accounts :: int accounts))"
proof -
  have "get_or_add_account_for_key (PublicKey [2]) default_accounts =
    (0, link_pubkey 0 default_account (PublicKey [2]) (default_accounts :: int accounts))"
    by (simp add: get_or_add_account_for_key_def get_next_account_id_def om_last_def
        get_or_default_def)
  then have "accounts_reachable int_decimal
    (link_pubkey 0 default_account (PublicKey [2]) (default_accounts :: int accounts))"
    by (intro reach_step [OF reach_default] st_account_for_key)
  from accounts_reachable_invariant [OF int_decimal_laws this] show ?thesis
    by simp
qed

text \<open>Burning refines subtraction on the abstract ledger and cannot overdraw: a
  non-positive amount and an amount above the balance are refused with their own errors, the
  latter reporting the balance that is there, and every other amount is taken from exactly the
  one balance.\<close>

theorem burn_refines_ledger:
  assumes "decimal_laws D v R" "bal v A i s - v x \<in> R"
  shows "if v x \<le> 0 then burn D i s x A = Inl (MustBurnPositive i s x)
    else if bal v A i s < v x then
      \<exists>available. v available = bal v A i s \<and>
        burn D i s x A = Inl (InsufficientBalance i s x available)
    else \<exists>A'. burn D i s x A = Inr A' \<and> bal v A' = ledger_add (bal v A) i s (- v x)"
proof (cases "v x \<le> 0")
  case True
  then show ?thesis using decimal_lawsD(4) [OF assms(1), of x] by (auto simp: burn_def)
next
  case False
  then show ?thesis
    using burn_insufficient [OF assms(1), of x A i s] burn_ledger [OF assms(1) _ _ assms(2)]
    by (auto simp: not_le not_less)
qed

lemma burn_refines_ledger_witness:
  "\<exists>A'. burn int_decimal 1 7 3 (put_account 1 (default_account\<lparr>assets := [(7, 5)]\<rparr>) default_accounts)
     = Inr A' \<and> bal of_int A' 1 7 = 2"
proof -
  let ?A = "put_account 1 (default_account\<lparr>assets := [(7, 5)]\<rparr>) default_accounts :: int accounts"
  have b: "bal of_int ?A 1 7 = 5" by (simp add: bal_def)
  have "bal of_int ?A 1 7 - of_int 3 \<in> \<int>" by (simp add: b)
  from burn_refines_ledger [OF int_decimal_laws this] show ?thesis
    by (auto simp: b ledger_add_def)
qed

text \<open>Minting refines addition on the abstract ledger: exactly one balance grows by the
  minted amount, and a zero or negative amount is refused.\<close>

theorem mint_refines_ledger:
  assumes "decimal_laws D v R" "bal v A i s + v x \<in> R"
  shows "if v x \<le> 0 then mint D i s x A = Inl (MustMintPositive i s x)
    else \<exists>A'. mint D i s x A = Inr A' \<and> bal v A' = ledger_add (bal v A) i s (v x)"
proof (cases "v x \<le> 0")
  case True
  then show ?thesis using decimal_lawsD(4) [OF assms(1), of x] by (auto simp: mint_def)
next
  case False
  then show ?thesis using mint_ledger [OF assms(1) _ assms(2)] by simp
qed

lemma mint_refines_ledger_witness:
  "\<exists>A'. mint int_decimal 1 7 3 default_accounts = Inr A' \<and> bal of_int A' 1 7 = 3"
proof -
  have b: "bal of_int (default_accounts :: int accounts) 1 7 = 0" by (simp add: bal_def asset_of_def)
  have "bal of_int (default_accounts :: int accounts) 1 7 + of_int 3 \<in> \<int>" by (simp add: b)
  from mint_refines_ledger [OF int_decimal_laws this] show ?thesis
    by (auto simp: b ledger_add_def)
qed

text \<open>The nonces that one key uses successfully, one transaction after another, are
  consecutive; in particular no signed transaction can be applied twice in a row.\<close>

theorem accepted_nonces_consecutive:
  assumes "use_nonces pk ns A = Inr A'" "k < length ns"
  shows "ns ! k = ns ! 0 + of_nat k"
proof (cases ns)
  case (Cons n ms)
  with assms(1) obtain i B where B: "use_nonce pk n A = Inr (i, B)" "use_nonces pk ms B = Inr A'"
    by (auto simp: use_nonces_def result_simps)
  show ?thesis
  proof (cases k)
    case (Suc j)
    then have "ms ! j = n + 1 + of_nat j"
      using use_nonces_from [OF B(2) use_nonce_nonce_of(1) [OF B(1)], of j] assms(2) Cons by simp
    then show ?thesis using Suc Cons by (simp add: add.assoc)
  qed simp
qed (use assms(2) in simp)

lemma accepted_nonces_consecutive_witness:
  "is_ok (use_nonces (PublicKey [2]) [0, 1] (default_accounts :: int accounts)) \<and>
   [0, 1 :: u64] ! 1 = [0, 1] ! 0 + of_nat 1"
proof -
  obtain A' where A': "use_nonces (PublicKey [2]) [0, 1] (default_accounts :: int accounts) = Inr A'"
    by (simp add: use_nonces_def use_nonce_def get_next_account_id_def om_last_def Let_def
        get_or_default_def link_pubkey_def)
  show ?thesis using accepted_nonces_consecutive [OF A', of 1] A' by simp
qed

text \<open>A key that is not known yet is given an account that did not exist before, provided the
  account identifier \<open>u64::MAX\<close> is not in use.\<close>

theorem new_key_gets_fresh_account:
  assumes "accounts_wf A" "om_get (pubkey_ix A) k = None" "om_get (accts A) (- 1) = None"
    and "get_or_add_account_for_key k A = (i, A')"
  shows "om_get (accts A) i = None \<and> om_get (pubkey_ix A') k = Some i \<and>
    (\<forall>j. j \<noteq> i \<longrightarrow> om_get (accts A') j = om_get (accts A) j)"
  using assms get_next_account_id_fresh [of A]
  by (auto simp: get_or_add_account_for_key_def link_pubkey_def Let_def accounts_wf_def)

lemma new_key_gets_fresh_account_witness:
  "om_get (accts default_accounts) 0 = (None :: int account option) \<and>
   (\<exists>A'. get_or_add_account_for_key (PublicKey [2]) default_accounts = (0, A' :: int accounts) \<and>
     om_get (pubkey_ix A') (PublicKey [2]) = Some 0)"
proof -
  obtain A' where A': "get_or_add_account_for_key (PublicKey [2]) default_accounts = (0, A' :: int accounts)"
    by (simp add: get_or_add_account_for_key_def get_next_account_id_def om_last_def Let_def)
  show ?thesis
    using new_key_gets_fresh_account [OF accounts_wf_default _ _ A'] A' by simp
qed

text \<open>C40: once any account has the identifier \<open>u64::MAX\<close> (a transfer to that identifier creates
  it), the next unknown key is attached to the existing account 0 and controls its balances:
  the identifier counter wraps.\<close>

theorem new_key_takes_over_account_zero:
  assumes "accounts_wf A" "om_get (pubkey_ix A) k = None" "om_get (accts A) (- 1) \<noteq> None"
    and "get_or_add_account_for_key k A = (i, A')"
  shows "i = 0 \<and> om_get (pubkey_ix A') k = Some 0 \<and> asset_of A' = asset_of A"
  using assms get_next_account_id_wraps [of A]
  by (auto simp: get_or_add_account_for_key_def link_pubkey_def Let_def accounts_wf_def fun_eq_iff)

lemma new_key_takes_over_account_zero_witness:
  "\<exists>A' :: int accounts. get_or_add_account_for_key (PublicKey [3])
      (add_account (- 1) (put_account 0 (default_account\<lparr>assets := [(7, 100)]\<rparr>) default_accounts)) = (0, A')
    \<and> om_get (pubkey_ix A') (PublicKey [3]) = Some 0 \<and> asset_of A' 0 7 = Some 100"
proof -
  let ?A = "add_account (- 1) (put_account 0 (default_account\<lparr>assets := [(7, 100)]\<rparr>) default_accounts) :: int accounts"
  have "accounts_wf ?A"
    by (rule add_account_wf, rule accounts_wf_put [OF accounts_wf_default])
      (simp add: updates_def get_or_default_def om_wf_def)
  moreover have "om_get (pubkey_ix ?A) (PublicKey [3]) = None" "om_get (accts ?A) (- 1) \<noteq> None"
    by (simp_all add: add_account_def)
  moreover obtain i A' where "get_or_add_account_for_key (PublicKey [3]) ?A = (i, A')"
    by (cases "get_or_add_account_for_key (PublicKey [3]) ?A")
  ultimately show ?thesis
    using new_key_takes_over_account_zero [of ?A "PublicKey [3]" i A']
    by (auto simp: add_account_def)
qed

text \<open>Storing the account map and loading it again rebuilds both indexes: the loaded table
  is the stored one.\<close>

theorem accounts_load_roundtrip:
  assumes "accounts_wf A"
  shows "accounts_from_map (accts A) = Inr A"
  using assms by (rule accounts_from_map_inverse)

lemma accounts_load_roundtrip_witness:
  "accounts_from_map (accts (link_wallet 0 default_account ''w'' default_accounts)) =
     Inr (link_wallet 0 default_account ''w'' (default_accounts :: int accounts))"
  by (rule accounts_load_roundtrip)
     (rule accounts_wf_link_wallet [OF accounts_wf_default], simp_all add: updates_def get_or_default_def)

end
