(* ===== verification/Validators.thy ===== *)
theory Validators
  imports Kolme_Types
begin

text \<open>
  Validator sets (\<open>shared/src/types.rs\<close>): one processor, a listener set and an approver set with
  their quorum sizes, the check a set passes before it is installed, and the membership test.
  \<open>quorum_reachable\<close> is what validation is for: each group has enough members to meet its
  own quorum, and no quorum is zero.
\<close>

datatype validator_type = ListenerType | ProcessorType | ApproverType

record validator_set =
  processor :: public_key
  listeners :: "public_key list"
  needed_listeners :: u16
  approvers :: "public_key list"
  needed_approvers :: u16

record self_replace =
  validator_type :: validator_type
  replacement :: public_key

definition u16_try_from :: "nat \<Rightarrow> u16 option" where
  "u16_try_from n = (if n < 2 ^ 16 then Some (of_nat n) else None)"

definition validate_set :: "validator_set \<Rightarrow> 'd kerr + unit" where
  "validate_set vs =
     rbind (ok_or (u16_try_from (length (listeners vs))) (TooManyKeys (length (listeners vs)))) (\<lambda>ls.
     rbind (ok_or (u16_try_from (length (approvers vs))) (TooManyKeys (length (approvers vs)))) (\<lambda>aps.
     if ls = 0 then Inl NoListeners
     else if ls < needed_listeners vs \<or> needed_listeners vs = 0
       then Inl (InvalidNeededListeners ls (needed_listeners vs))
     else if aps = 0 then Inl NoApprovers
     else if aps < needed_approvers vs \<or> needed_approvers vs = 0
       then Inl (InvalidNeededApprovers aps (needed_approvers vs))
     else Inr ()))"

definition is_validator :: "validator_set \<Rightarrow> public_key \<Rightarrow> bool" where
  "is_validator vs key \<longleftrightarrow>
     key = processor vs \<or> key \<in> set (listeners vs) \<or> key \<in> set (approvers vs)"

definition ensure_is_validator :: "validator_set \<Rightarrow> public_key \<Rightarrow> 'd kerr + unit" where
  "ensure_is_validator vs key = (if is_validator vs key then Inr () else Inl (NotAValidator key))"

lemma u16_try_from_iff: "u16_try_from n = Some w \<longleftrightarrow> unat w = n"
  using unat_bound [of w] by (auto simp: u16_try_from_def unat_of_nat_small)

lemma u16_try_from_None: "u16_try_from n = None \<longleftrightarrow> 2 ^ 16 \<le> n"
  by (auto simp: u16_try_from_def)

definition vs_wf :: "validator_set \<Rightarrow> bool" where
  "vs_wf vs \<longleftrightarrow> os_wf (listeners vs) \<and> os_wf (approvers vs)"

definition quorum_reachable :: "validator_set \<Rightarrow> bool" where
  "quorum_reachable vs \<longleftrightarrow>
     0 < unat (needed_listeners vs) \<and> unat (needed_listeners vs) \<le> length (listeners vs) \<and>
     0 < unat (needed_approvers vs) \<and> unat (needed_approvers vs) \<le> length (approvers vs)"

lemma u16_quorum_check:
  assumes "unat (ls :: u16) = n"
  shows "ls \<noteq> 0 \<and> \<not> (ls < k \<or> k = 0) \<longleftrightarrow> 0 < unat k \<and> unat k \<le> n"
  using assms by (auto simp: word_less_nat_alt not_less unat_eq_zero unat_gt_0)

lemma validate_set_counts:
  assumes "u16_try_from (length (listeners vs)) = Some ls"
    and "u16_try_from (length (approvers vs)) = Some aps"
  shows "validate_set vs = Inr () \<longleftrightarrow>
    (ls \<noteq> 0 \<and> \<not> (ls < needed_listeners vs \<or> needed_listeners vs = 0)) \<and>
    (aps \<noteq> 0 \<and> \<not> (aps < needed_approvers vs \<or> needed_approvers vs = 0))"
  using assms by (auto simp: validate_set_def)

lemma validate_set_ok_iff:
  "validate_set vs = Inr () \<longleftrightarrow>
     quorum_reachable vs \<and> length (listeners vs) < 2 ^ 16 \<and> length (approvers vs) < 2 ^ 16"
proof (cases "u16_try_from (length (listeners vs))"; cases "u16_try_from (length (approvers vs))")
  fix ls aps
  assume l: "u16_try_from (length (listeners vs)) = Some ls"
    and a: "u16_try_from (length (approvers vs)) = Some aps"
  then have "unat ls = length (listeners vs)" "unat aps = length (approvers vs)"
    by (simp_all add: u16_try_from_iff)
  then show ?thesis
    using l a unfolding validate_set_counts [OF l a] quorum_reachable_def
    by (subst (1 2) u16_quorum_check) (auto simp: u16_try_from_def split: if_splits)
qed (auto simp: validate_set_def u16_try_from_def result_simps split: if_splits)

text \<open>Validation accepts exactly the sets in which both groups can meet their own non-zero
  quorum and have at most \<open>u16::MAX\<close> members.\<close>

theorem validate_set_iff_quorums_reachable:
  "(validate_set vs :: 'd kerr + unit) = Inr () \<longleftrightarrow>
     quorum_reachable vs \<and> length (listeners vs) < 2 ^ 16 \<and> length (approvers vs) < 2 ^ 16"
  by (rule validate_set_ok_iff)

end
