(* ===== verification/Bridge_State.thy ===== *)
theory Bridge_State
  imports Validators
begin

text \<open>
  The per-chain bridge state (\<open>kolme/src/core/types.rs\<close>): asset configurations with the
  conversions between on-chain integers and decimals, bridge contracts, pending actions and
  events, and the deposit and withdrawal bookkeeping; plus the tagged and signed JSON wrappers of
  \<open>kolme/src/common.rs\<close> and block heights.

  A Rust \<open>String\<close> is the list of its UTF-8 bytes, written as characters; \<open>str_bytes\<close> reads them
  as bytes.  Hashing and JSON are parameters.
\<close>

section \<open>Tagged JSON\<close>

record 'a tagged_json =
  tj_serialized :: string
  tj_hash :: bytes
  tj_value :: 'a

record 'a signed_tagged_json =
  stj_message :: "'a tagged_json"
  stj_signature :: signature
  stj_recovery_id :: u8

definition tj_new :: "(bytes \<Rightarrow> bytes) \<Rightarrow> ('a \<Rightarrow> string option) \<Rightarrow> 'a \<Rightarrow> 'a tagged_json option" where
  "tj_new sha to_json v = (case to_json v of
     None \<Rightarrow> None
   | Some s \<Rightarrow> Some \<lparr>tj_serialized = s, tj_hash = sha (str_bytes s), tj_value = v\<rparr>)"

definition tj_try_from_string ::
  "(bytes \<Rightarrow> bytes) \<Rightarrow> (string \<Rightarrow> 'a option) \<Rightarrow> string \<Rightarrow> 'a tagged_json option" where
  "tj_try_from_string sha of_json s = (case of_json s of
     None \<Rightarrow> None
   | Some v \<Rightarrow> Some \<lparr>tj_serialized = s, tj_hash = sha (str_bytes s), tj_value = v\<rparr>)"

definition tj_as_bytes :: "'a tagged_json \<Rightarrow> bytes" where
  "tj_as_bytes t = str_bytes (tj_serialized t)"

definition tj_eq :: "'a tagged_json \<Rightarrow> 'a tagged_json \<Rightarrow> bool" where
  "tj_eq s t = (tj_serialized s = tj_serialized t)"

definition stj_signature_with_recovery :: "'a signed_tagged_json \<Rightarrow> sigrec" where
  "stj_signature_with_recovery s = \<lparr>recid = stj_recovery_id s, sig = stj_signature s\<rparr>"

definition stj_verify_signature :: "recover_fn \<Rightarrow> 'a signed_tagged_json \<Rightarrow> 'd kerr + public_key" where
  "stj_verify_signature rcv s =
     ok_or (rcv (tj_as_bytes (stj_message s)) (stj_signature s) (stj_recovery_id s)) PublicKeyError"

section \<open>Block heights\<close>

definition height_next :: "u64 \<Rightarrow> u64" where
  "height_next h = h + 1"

definition height_prev :: "u64 \<Rightarrow> u64 option" where
  "height_prev h = (if h = 0 then None else Some (h - 1))"

definition height_is_start :: "u64 \<Rightarrow> bool" where
  "height_is_start h = (h = 0)"

definition u64_div_ceil :: "u64 \<Rightarrow> u64 \<Rightarrow> u64" where
  "u64_div_ceil a b = (if a mod b = 0 then a div b else a div b + 1)"

definition increasing_middle :: "u64 \<Rightarrow> u64 \<Rightarrow> 'd kerr + u64" where
  "increasing_middle start end' =
     (if end' \<le> start then Inl (InvalidBlockHeight start end')
      else let diff = end' - start;
               middle_offset = u64_div_ceil diff 2
           in Inr (start + middle_offset))"

section \<open>Assets\<close>

record asset_config =
  ac_decimals :: u8
  ac_asset_id :: u64

definition i128_try_from :: "u128 \<Rightarrow> int option" where
  "i128_try_from w = (if uint w < 2 ^ 127 then Some (uint w) else None)"

definition u128_try_from :: "int \<Rightarrow> u128 option" where
  "u128_try_from i = (if 0 \<le> i then Some (of_int i) else None)"

definition to_decimal :: "'d decimal_ops \<Rightarrow> asset_config \<Rightarrow> u128 \<Rightarrow> 'd kerr + 'd" where
  "to_decimal D ac amount =
     rbind (ok_or (i128_try_from amount) (U128TooLarge amount)) (\<lambda>i.
       ok_or (d_try_from_i128_with_scale D i (unat (ac_decimals ac)))
         (CouldNotConvertToDecimal amount (ac_decimals ac)))"

fun div10_times :: "nat \<Rightarrow> u128 \<Rightarrow> u128" where
  "div10_times 0 i = i"
| "div10_times (Suc n) i = div10_times n (i div 10)"

fun mul10_times :: "nat \<Rightarrow> u128 \<Rightarrow> u128" where
  "mul10_times 0 i = i"
| "mul10_times (Suc n) i = mul10_times n (i * 10)"

definition to_u128 :: "'d decimal_ops \<Rightarrow> asset_config \<Rightarrow> 'd \<Rightarrow> 'd kerr + ('d \<times> u128)" where
  "to_u128 D ac amount =
     rbind (ok_or (u128_try_from (d_mantissa D amount)) (ToU128WithNegative amount)) (\<lambda>int0.
       let decimals = unat (ac_decimals ac);
           scale = d_scale D amount;
           int1 = (if decimals < scale then div10_times (scale - decimals) int0
                   else if decimals = scale then int0
                   else mul10_times (decimals - scale) int0)
       in rbind (to_decimal D ac int1) (\<lambda>d. Inr (d, int1)))"

section \<open>Bridge contracts, actions and events\<close>

datatype bridge_contract =
    NeededCosmosBridge u64
  | NeededSolanaBridge string
  | NeededEthereumBridge
  | Deployed string

record chain_config =
  cc_assets :: "(string, asset_config) omap"
  cc_bridge :: bridge_contract

record pending_bridge_action =
  pa_payload :: string
  pa_approvals :: "(public_key, sigrec) omap"
  pa_processor :: "sigrec option"

datatype bridge_event =
    Instantiated string
  | Regular string "(string \<times> u128) list" "public_key list"
  | Signed string u64

record pending_bridge_event =
  pe_event :: bridge_event
  pe_attestations :: "public_key list"

record 'd chain_state =
  cs_config :: chain_config
  cs_next_action_id :: u64
  cs_pending_actions :: "(u64, pending_bridge_action) omap"
  cs_next_event_id :: u64
  cs_pending_events :: "(u64, pending_bridge_event) omap"
  cs_assets :: "(u64, 'd) omap"

definition into_state :: "chain_config \<Rightarrow> 'd chain_state" where
  "into_state c = \<lparr>cs_config = c, cs_next_action_id = 0, cs_pending_actions = [],
     cs_next_event_id = 0, cs_pending_events = [], cs_assets = []\<rparr>"

definition cs_deposit :: "'d decimal_ops \<Rightarrow> u64 \<Rightarrow> 'd \<Rightarrow> 'd chain_state \<Rightarrow> 'd kerr + 'd chain_state" where
  "cs_deposit D s x cs =
     (let old = (case om_get (cs_assets cs) s of None \<Rightarrow> d_zero D | Some d \<Rightarrow> d)
      in case d_checked_add D old x of
           None \<Rightarrow> Inl (Anyhow ''Overflow while depositing asset'')
         | Some new \<Rightarrow> Inr (cs\<lparr>cs_assets := om_insert s new (cs_assets cs)\<rparr>))"

definition cs_withdraw :: "'d decimal_ops \<Rightarrow> u64 \<Rightarrow> 'd \<Rightarrow> 'd chain_state \<Rightarrow> 'd kerr + 'd chain_state" where
  "cs_withdraw D s x cs =
     (let old = (case om_get (cs_assets cs) s of None \<Rightarrow> d_zero D | Some d \<Rightarrow> d)
      in case d_checked_sub D old x of
           None \<Rightarrow> Inl (Anyhow ''Insufficient funds while withdrawing asset'')
         | Some new \<Rightarrow> Inr (cs\<lparr>cs_assets := om_insert s new (cs_assets cs)\<rparr>))"

definition payload_bytes_to_sign ::
  "(string \<Rightarrow> bytes option) \<Rightarrow> pending_bridge_action \<Rightarrow> external_chain \<Rightarrow> 'd kerr + bytes" where
  "payload_bytes_to_sign b64 a chain =
     (case chain_name_of chain of
        NameEthereum \<Rightarrow> ok_or (b64 (pa_payload a)) (Anyhow ''Failed to decode Ethereum bridge payload'')
      | _ \<Rightarrow> Inr (str_bytes (pa_payload a)))"

section \<open>The conversions, exactly\<close>

lemma unat_div10_times: "unat (div10_times n i) = unat i div 10 ^ n"
  by (induction n arbitrary: i) (simp_all add: unat_div div_mult2_eq)

lemma unat_mul10_times: "unat (mul10_times n i) = (unat i * 10 ^ n) mod 2 ^ 128"
proof (induction n arbitrary: i)
  case 0
  then show ?case using unat_bound [of i] by simp
next
  case (Suc n)
  have "unat (mul10_times (Suc n) i) = ((unat i * 10) mod 2 ^ 128 * 10 ^ n) mod 2 ^ 128"
    by (simp add: Suc unat_word_ariths)
  also have "\<dots> = (unat i * 10 * 10 ^ n) mod 2 ^ 128"
    by (rule mod_mult_left_eq)
  finally show ?case by (simp add: mult.assoc)
qed

lemma increasing_middle_bounds:
  assumes "increasing_middle s e = Inr m"
  shows "s < m \<and> m \<le> e"
proof -
  from assms have lt: "s < e" and m: "m = s + u64_div_ceil (e - s) 2"
    by (auto simp: increasing_middle_def Let_def split: if_splits)
  define k where "k = unat e - unat s"
  have us: "unat s < unat e" "unat e < 2 ^ 64"
    using lt unat_bound [of e] by (simp_all add: word_less_nat_alt)
  have d: "unat (e - s) = k" using lt by (simp add: k_def unat_sub less_imp_le)
  have "unat (u64_div_ceil (e - s) 2) = (k + 1) div 2"
  proof (cases "k mod 2 = 0")
    case True
    then have "(e - s) mod 2 = 0" using d by (simp add: unat_eq_iff unat_mod)
    then show ?thesis using True d by (simp add: u64_div_ceil_def unat_div) presburger
  next
    case False
    then have "(e - s) mod 2 \<noteq> 0" using d by (simp add: unat_eq_iff unat_mod)
    moreover have "unat ((e - s) div 2 + 1) = k div 2 + 1"
      using d us by (simp add: unat_word_ariths unat_div k_def)
    ultimately show ?thesis using False by (simp add: u64_div_ceil_def) presburger
  qed
  then have "unat m = unat s + (k + 1) div 2"
    using us by (simp add: m unat_word_ariths k_def)
  then show ?thesis
    using us by (simp add: word_less_nat_alt word_le_nat_alt k_def)
qed

lemma to_decimal_value:
  assumes "decimal_laws D v R" "to_decimal D ac n = Inr d"
  shows "v d = of_nat (unat n) / 10 ^ unat (ac_decimals ac)"
proof -
  from assms(2) have "d_try_from_i128_with_scale D (uint n) (unat (ac_decimals ac)) = Some d"
    by (auto simp: to_decimal_def result_simps i128_try_from_def split: if_splits)
  from decimal_lawsD(11) [OF assms(1) this] show ?thesis
    by simp
qed

lemma to_u128_Inr:
  assumes "to_u128 D ac x = Inr (d, n)"
  shows "0 \<le> d_mantissa D x" and "to_decimal D ac n = Inr d"
    and "n = (if unat (ac_decimals ac) < d_scale D x
        then div10_times (d_scale D x - unat (ac_decimals ac)) (of_int (d_mantissa D x))
        else mul10_times (unat (ac_decimals ac) - d_scale D x) (of_int (d_mantissa D x)))"
  using assms by (auto simp: to_u128_def Let_def result_simps u128_try_from_def split: if_splits)

lemma unat_of_mantissa: "0 \<le> i \<Longrightarrow> i < 2 ^ 128 \<Longrightarrow> unat (of_int i :: u128) = nat i"
  by (simp add: unsigned_of_int take_bit_int_eq_self)

section \<open>Properties\<close>

text \<open>The middle of an increasing pair of heights lies strictly above the lower and at most at
  the upper one, and only non-increasing pairs are refused, so the search that uses it always
  makes progress; none of the unsigned arithmetic overflows.\<close>

theorem increasing_middle_progress:
  "if s < e then \<exists>m. increasing_middle s e = (Inr m :: 'd kerr + u64) \<and> s < m \<and> m \<le> e
   else increasing_middle s e = (Inl (InvalidBlockHeight s e) :: 'd kerr + u64)"
proof (cases "s < e")
  case True
  then obtain m where "increasing_middle s e = (Inr m :: 'd kerr + u64)"
    by (simp add: increasing_middle_def Let_def not_le)
  with increasing_middle_bounds [OF this] True show ?thesis by simp
qed (simp add: increasing_middle_def)

text \<open>What \<open>to_u128\<close> returns on every input: the mantissa scaled to the asset's decimals, by
  truncating division when digits are dropped and by multiplication modulo \<open>2 ^ 128\<close> when they are
  added (so a large amount of an asset with many decimals wraps), together with that integer
  converted back.\<close>

theorem to_u128_value:
  assumes "decimal_laws D v R" "to_u128 D ac x = Inr (d, n)" "d_mantissa D x < 2 ^ 128"
  shows "int (unat n) =
      (if unat (ac_decimals ac) < d_scale D x
       then d_mantissa D x div 10 ^ (d_scale D x - unat (ac_decimals ac))
       else d_mantissa D x * 10 ^ (unat (ac_decimals ac) - d_scale D x) mod 2 ^ 128)
    \<and> v d = of_nat (unat n) / 10 ^ unat (ac_decimals ac)"
proof -
  note r = to_u128_Inr [OF assms(2)]
  have m: "unat (of_int (d_mantissa D x) :: u128) = nat (d_mantissa D x)"
    using r(1) assms(3) by (rule unat_of_mantissa)
  obtain a where a: "d_mantissa D x = int a" using r(1) nonneg_int_cases by blast
  have "unat n =
      (if unat (ac_decimals ac) < d_scale D x
       then a div 10 ^ (d_scale D x - unat (ac_decimals ac))
       else a * 10 ^ (unat (ac_decimals ac) - d_scale D x) mod 2 ^ 128)"
    using m by (simp add: r(3) a unat_div10_times unat_mul10_times)
  then have "int (unat n) =
      (if unat (ac_decimals ac) < d_scale D x
       then d_mantissa D x div 10 ^ (d_scale D x - unat (ac_decimals ac))
       else d_mantissa D x * 10 ^ (unat (ac_decimals ac) - d_scale D x) mod 2 ^ 128)"
    unfolding a by (simp only: zdiv_int zmod_int of_nat_mult of_nat_power of_nat_numeral if_distrib [of int])
  then show ?thesis
    using to_decimal_value [OF assms(1) r(2)] by simp
qed

lemma to_u128_value_witness:
  "to_u128 int_decimal \<lparr>ac_decimals = 0, ac_asset_id = 1\<rparr> 5 = Inr (5, 5) \<and>
   (of_int 5 :: rat) = of_nat (unat (5 :: u128)) / 10 ^ unat (0 :: u8)"
proof -
  have e: "to_u128 int_decimal \<lparr>ac_decimals = 0, ac_asset_id = 1\<rparr> 5 = Inr (5, 5)"
    by (simp add: to_u128_def to_decimal_def u128_try_from_def i128_try_from_def)
  show ?thesis
    using to_u128_value [OF int_decimal_laws e] e by simp
qed

text \<open>As long as scaling does not overflow, the integer sent on chain is the amount rounded
  down to the asset's precision, and what is burned is exactly that: never more than the amount
  asked for, and short of it by less than one unit of the asset (the dust that stays with the
  user).\<close>

theorem to_u128_rounds_down:
  assumes "decimal_laws D v R" "to_u128 D ac x = Inr (d, n)"
    and "d_mantissa D x * 10 ^ (unat (ac_decimals ac) - d_scale D x) < 2 ^ 128"
  shows "int (unat n) = \<lfloor>v x * 10 ^ unat (ac_decimals ac)\<rfloor> \<and> v d \<le> v x \<and>
    v x - v d < 1 / 10 ^ unat (ac_decimals ac)"
proof -
  let ?m = "d_mantissa D x" and ?s = "d_scale D x" and ?k = "unat (ac_decimals ac)"
  have m0: "0 \<le> ?m" by (rule to_u128_Inr(1) [OF assms(2)])
  have "?m * 1 \<le> ?m * 10 ^ (?k - ?s)" using m0 by (intro mult_left_mono) simp_all
  then have "?m < 2 ^ 128" using assms(3) by simp
  note val = to_u128_value [OF assms(1,2) this]
  have vx: "v x = of_int ?m / 10 ^ ?s" by (rule decimal_lawsD(10) [OF assms(1)])
  have fl: "int (unat n) = \<lfloor>v x * 10 ^ ?k\<rfloor>"
  proof (cases "?k < ?s")
    case True
    then obtain j where j: "?s = ?k + j" by (metis less_imp_add_positive)
    have "v x * 10 ^ ?k = of_int ?m / of_int (10 ^ j)"
      by (simp add: vx j power_add)
    then have "\<lfloor>v x * 10 ^ ?k\<rfloor> = ?m div 10 ^ j"
      using floor_divide_of_int_eq [of ?m "10 ^ j"] by simp
    then show ?thesis using val True j by simp
  next
    case False
    then obtain j where j: "?k = ?s + j" by (metis le_iff_add not_less)
    have "v x * 10 ^ ?k = of_int (?m * 10 ^ j)"
      by (simp add: vx j power_add)
    then have "\<lfloor>v x * 10 ^ ?k\<rfloor> = ?m * 10 ^ j" by (metis floor_of_int)
    moreover have "?m * 10 ^ j mod 2 ^ 128 = ?m * 10 ^ j"
      using assms(3) m0 j by (intro mod_pos_pos_trivial) simp_all
    ultimately show ?thesis using val False j by simp
  qed
  have p: "(0 :: rat) < 10 ^ ?k" by simp
  have vd: "v d = of_int \<lfloor>v x * 10 ^ ?k\<rfloor> / 10 ^ ?k"
    using val fl by (metis of_int_of_nat_eq)
  have "v d \<le> v x"
    unfolding vd using p of_int_floor_le [of "v x * 10 ^ ?k"] by (simp add: divide_le_eq)
  moreover have "v x * 10 ^ ?k < of_int \<lfloor>v x * 10 ^ ?k\<rfloor> + 1"
    by linarith
  then have "v x < (of_int \<lfloor>v x * 10 ^ ?k\<rfloor> + 1) / 10 ^ ?k"
    using p by (simp add: pos_less_divide_eq)
  then have "v x - v d < 1 / 10 ^ ?k"
    unfolding vd by (simp add: add_divide_distrib)
  ultimately show ?thesis using fl by simp
qed

lemma to_u128_rounds_down_witness:
  "to_u128 int_decimal \<lparr>ac_decimals = 0, ac_asset_id = 1\<rparr> 5 = Inr (5, 5) \<and>
   int (unat (5 :: u128)) = \<lfloor>(of_int 5 :: rat) * 10 ^ unat (0 :: u8)\<rfloor>"
proof -
  have e: "to_u128 int_decimal \<lparr>ac_decimals = 0, ac_asset_id = 1\<rparr> 5 = Inr (5, 5)"
    by (simp add: to_u128_def to_decimal_def u128_try_from_def i128_try_from_def)
  show ?thesis
    using to_u128_rounds_down [OF int_decimal_laws e] e by simp
qed

text \<open>Withdrawing from a chain's recorded balance never reports insufficient funds: any
  representable difference is stored, below zero included, so the record is no guard against
  paying out more than the bridge holds.\<close>

theorem withdraw_goes_negative:
  assumes "decimal_laws D v R"
    and "val_old = (case om_get (cs_assets cs) s of None \<Rightarrow> 0 | Some d \<Rightarrow> v d)"
    and "val_old - v x \<in> R"
  shows "\<exists>cs' d. cs_withdraw D s x cs = Inr cs' \<and> om_get (cs_assets cs') s = Some d \<and> v d = val_old - v x"
proof -
  let ?old = "case om_get (cs_assets cs) s of None \<Rightarrow> d_zero D | Some d \<Rightarrow> d"
  have "v ?old = val_old"
    using assms(2) decimal_lawsD(1) [OF assms(1)] by (simp split: option.splits)
  then obtain new where "d_checked_sub D ?old x = Some new" "v new = val_old - v x"
    using decimal_lawsD(7) [OF assms(1), of ?old x] assms(3) by auto
  then show ?thesis by (simp add: cs_withdraw_def)
qed

lemma withdraw_goes_negative_witness:
  "\<exists>cs' d. cs_withdraw int_decimal 7 100 (into_state \<lparr>cc_assets = [], cc_bridge = NeededEthereumBridge\<rparr>)
     = Inr cs' \<and> om_get (cs_assets cs') 7 = Some d \<and> d = -100"
proof -
  let ?cs = "into_state \<lparr>cc_assets = [], cc_bridge = NeededEthereumBridge\<rparr> :: int chain_state"
  have "0 = (case om_get (cs_assets ?cs) 7 of None \<Rightarrow> 0 | Some d \<Rightarrow> (of_int d :: rat))"
    by (simp add: into_state_def)
  from withdraw_goes_negative [OF int_decimal_laws this, of 100] show ?thesis
    by auto
qed

end
