(* ===== verification/Framework.thy ===== *)
theory Framework
  imports Accounts Bridge_State
begin

text \<open>
  The framework state (\<open>kolme/src/core/state.rs\<close>) and the messages a transaction carries
  (\<open>kolme/src/core/types.rs\<close>): validator set, chains, accounts, pending admin proposals with their
  approval rule, and the chain version.
\<close>

section \<open>Messages\<close>

datatype migrate_contract =
    MigrateCosmos cosmos_chain u64 string
  | MigrateSolana solana_chain bytes bytes

fun migrate_chain :: "migrate_contract \<Rightarrow> external_chain" where
  "migrate_chain (MigrateCosmos c _ _) = of_cosmos_chain c"
| "migrate_chain (MigrateSolana c _ _) = of_solana_chain c"

record upgrade =
  desired_version :: string

record genesis_info =
  gi_kolme_ident :: string
  gi_validator_set :: validator_set
  gi_chains :: "(external_chain, chain_config) omap"
  gi_version :: string

datatype auth_message =
    AddPublicKey public_key
  | RemovePublicKey public_key
  | AddWallet string
  | RemoveWallet string

datatype 'd bank_message =
    BankTransfer u64 u64 'd
  | BankWithdraw u64 external_chain string 'd

datatype admin_message =
    AdminSelfReplace "self_replace signed_tagged_json"
  | AdminNewSet "validator_set signed_tagged_json"
  | AdminMigrateContract "migrate_contract signed_tagged_json"
  | AdminUpgrade "upgrade signed_tagged_json"
  | AdminApprove u64 sigrec

datatype ('d, 'm) message =
    MsgGenesis genesis_info
  | MsgApp 'm
  | MsgListener external_chain u64 bridge_event
  | MsgApprove external_chain u64 sigrec
  | MsgProcessorApprove external_chain u64 sigrec "sigrec list"
  | MsgAuth auth_message
  | MsgBank "'d bank_message"
  | MsgAdmin admin_message

record ('d, 'm) transaction =
  tx_pubkey :: public_key
  tx_nonce :: u64
  tx_created :: int
  tx_messages :: "('d, 'm) message list"
  tx_max_height :: "u64 option"

type_synonym ('d, 'm) signed_transaction = "('d, 'm) transaction signed_tagged_json"

definition is_genesis_msg :: "('d, 'm) message \<Rightarrow> bool" where
  "is_genesis_msg m = (case m of MsgGenesis _ \<Rightarrow> True | _ \<Rightarrow> False)"

definition ensure_is_genesis :: "('d, 'm) transaction \<Rightarrow> 'd kerr + unit" where
  "ensure_is_genesis tx =
     rbind (ensure (length (tx_messages tx) = 1) (Anyhow ''messages.len() == 1'')) (\<lambda>_.
       ensure (is_genesis_msg (tx_messages tx ! 0)) (Anyhow ''not a genesis message''))"

definition ensure_no_genesis :: "('d, 'm) transaction \<Rightarrow> 'd kerr + unit" where
  "ensure_no_genesis tx =
     rfold (\<lambda>m _. ensure (\<not> is_genesis_msg m) (Anyhow ''unexpected genesis message'')) (tx_messages tx) ()"

definition tx_validate_signature :: "recover_fn \<Rightarrow> ('d, 'm) signed_transaction \<Rightarrow> 'd kerr + unit" where
  "tx_validate_signature rcv stx =
     rbind (stj_verify_signature rcv stx) (\<lambda>pubkey.
       ensure (pubkey = tx_pubkey (tj_value (stj_message stx))) (Anyhow ''transaction signature''))"

section \<open>Admin proposals\<close>

datatype proposal_payload =
    ProposeNewSet "validator_set tagged_json"
  | ProposeMigrateContract "migrate_contract tagged_json"
  | ProposeUpgrade "upgrade tagged_json"

fun payload_as_bytes :: "proposal_payload \<Rightarrow> bytes" where
  "payload_as_bytes (ProposeNewSet t) = tj_as_bytes t"
| "payload_as_bytes (ProposeMigrateContract t) = tj_as_bytes t"
| "payload_as_bytes (ProposeUpgrade t) = tj_as_bytes t"

fun payload_eq :: "proposal_payload \<Rightarrow> proposal_payload \<Rightarrow> bool" where
  "payload_eq (ProposeNewSet s) (ProposeNewSet t) = tj_eq s t"
| "payload_eq (ProposeMigrateContract s) (ProposeMigrateContract t) = tj_eq s t"
| "payload_eq (ProposeUpgrade s) (ProposeUpgrade t) = tj_eq s t"
| "payload_eq _ _ = False"

fun is_upgrade :: "proposal_payload \<Rightarrow> bool" where
  "is_upgrade (ProposeUpgrade _) = True"
| "is_upgrade _ = False"

record pending_proposal =
  pp_payload :: proposal_payload
  pp_approvals :: "(public_key, sigrec) omap"

record admin_proposal_state =
  ap_next_id :: u64
  ap_proposals :: "(u64, pending_proposal) omap"

definition fulfills_groups :: "pending_proposal \<Rightarrow> public_key list \<Rightarrow> u16 \<Rightarrow> bool" where
  "fulfills_groups p members needed =
     (needed \<le> of_nat (length (filter (om_contains (pp_approvals p)) members)))"

definition has_sufficient_approvals :: "pending_proposal \<Rightarrow> validator_set \<Rightarrow> bool" where
  "has_sufficient_approvals p vs =
     (if is_upgrade (pp_payload p) \<and> \<not> om_contains (pp_approvals p) (processor vs) then False
      else let group_approvals =
                 (if om_contains (pp_approvals p) (processor vs) then 1 else 0)
               + (if fulfills_groups p (listeners vs) (needed_listeners vs) then 1 else 0)
               + (if fulfills_groups p (approvers vs) (needed_approvers vs) then 1 else (0 :: nat))
           in 2 \<le> group_approvals)"

section \<open>Framework state\<close>

record 'd framework_state =
  fs_validator_set :: validator_set
  fs_chains :: "(external_chain, 'd chain_state) omap"
  fs_accounts :: "'d accounts"
  fs_admin :: admin_proposal_state
  fs_version :: string

definition fs_new :: "genesis_info \<Rightarrow> 'd framework_state" where
  "fs_new gi = \<lparr>
     fs_validator_set = gi_validator_set gi,
     fs_chains = om_of_list (map (\<lambda>(k, c). (k, into_state c)) (gi_chains gi)),
     fs_accounts = default_accounts,
     fs_admin = \<lparr>ap_next_id = 0, ap_proposals = []\<rparr>,
     fs_version = gi_version gi\<rparr>"

definition fs_validate :: "'d framework_state \<Rightarrow> 'd kerr + unit" where
  "fs_validate fs = validate_set (fs_validator_set fs)"

definition chains_get :: "'d framework_state \<Rightarrow> external_chain \<Rightarrow> 'd kerr + 'd chain_state" where
  "chains_get fs chain = ok_or (om_get (fs_chains fs) chain) (ChainNotSupported chain)"

definition put_chain ::
  "external_chain \<Rightarrow> 'd chain_state \<Rightarrow> 'd framework_state \<Rightarrow> 'd framework_state" where
  "put_chain chain cs fs = fs\<lparr>fs_chains := om_insert chain cs (fs_chains fs)\<rparr>"

definition get_asset_config :: "'d framework_state \<Rightarrow> external_chain \<Rightarrow> u64 \<Rightarrow> 'd kerr + asset_config" where
  "get_asset_config fs chain asset_id =
     rbind (chains_get fs chain) (\<lambda>cs.
       ok_or (find (\<lambda>c. ac_asset_id c = asset_id) (om_values (cc_assets (cs_config cs))))
         (AssetNotSupported chain asset_id))"

end
