(* ===== verification/Payload.thy ===== *)
theory Payload
  imports Framework
begin

text \<open>
  What validators sign for each bridge action: \<open>ExecAction::to_payload\<close>
  (\<open>kolme/src/core/types.rs\<close>), the Solana instruction builders it calls
  (\<open>solana/crates/kolme-solana-bridge-client\<close>) and the Ethereum action encoders
  (\<open>kolme/src/utils/ethereum.rs\<close>).  The encodings themselves (serde_json, borsh, base64, the
  ABI encoder, Solana address derivation) are third-party code, gathered in \<open>encoders\<close>; what is
  encoded, and every failure before it is, is modelled.
\<close>

section \<open>Actions and their chain-specific forms\<close>

record asset_amount =
  aa_id :: u64
  aa_amount :: u128

datatype exec_action =
    ExecTransfer external_chain string "asset_amount list"
  | ExecSelfReplace "self_replace signed_tagged_json"
  | ExecNewSet "validator_set tagged_json" "sigrec list"
  | ExecMigrateContract "migrate_contract tagged_json"

datatype cosmos_msg =
    CosmosBankSend string "(string \<times> u128) list"
  | CosmosWasmMigrate string u64 bytes

datatype cosmos_action =
    CosmosMsgs "cosmos_msg list"
  | CosmosSelfReplace string sigrec
  | CosmosNewSet string "sigrec list"

record signer_account =
  sa_index :: u8
  sa_seeds :: "bytes list"

record solana_execute =
  se_program_id :: bytes
  se_accounts :: "(bytes \<times> bool) list"
  se_instruction_data :: bytes
  se_signer :: "signer_account option"

datatype solana_action =
    SolExecute solana_execute
  | SolSelfReplace string sigrec
  | SolNewSet string "sigrec list"

record solana_payload =
  sol_id :: u64
  sol_action :: solana_action

datatype ethereum_action =
    EthTransferEth string u128
  | EthTransferErc20 string string u128
  | EthSelfReplace validator_type public_key public_key
  | EthNewSet validator_set string "sigrec list"

record encoders =
  en_recover :: recover_fn
  en_cosmos_json :: "u64 \<Rightarrow> cosmos_action \<Rightarrow> string option"
  en_pass_through_json :: "u64 \<Rightarrow> string \<Rightarrow> asset_amount list \<Rightarrow> string option"
  en_base64 :: "bytes \<Rightarrow> string"
  en_borsh :: "solana_payload \<Rightarrow> bytes option"
  en_sol_from_str :: "string \<Rightarrow> bytes option"
  en_sol_const :: "string \<Rightarrow> bytes"
  en_sol_find_pda :: "bytes list \<Rightarrow> bytes \<Rightarrow> bytes \<times> u8"
  en_sol_token_account :: "bytes \<Rightarrow> bytes \<Rightarrow> bytes \<Rightarrow> bytes"
  en_sol_upgrade_ix :: "bytes \<Rightarrow> bytes \<Rightarrow> bytes \<Rightarrow> bytes \<Rightarrow> (bytes \<times> bool) list \<times> bytes"
  en_eth_from_str :: "string \<Rightarrow> bytes option"
  en_eth_to_str :: "bytes \<Rightarrow> string"
  en_abi_uint_bytes :: "nat \<Rightarrow> bytes \<Rightarrow> bytes"
  en_abi_execute :: "bytes \<Rightarrow> nat \<Rightarrow> bytes \<Rightarrow> bytes"
  en_abi_transfer_call :: "bytes \<Rightarrow> nat \<Rightarrow> bytes"
  en_abi_self_replace :: "u8 \<Rightarrow> bytes \<Rightarrow> bytes \<Rightarrow> bytes"
  en_abi_new_set :: "bytes \<Rightarrow> bytes list \<Rightarrow> u16 \<Rightarrow> bytes list \<Rightarrow> u16 \<Rightarrow> bytes \<Rightarrow> bytes list \<Rightarrow> bytes"

section \<open>Solana\<close>

definition token_holder_seeds :: "bytes \<Rightarrow> bytes list" where
  "token_holder_seeds mint_key = [str_bytes ''token_holder'', mint_key]"

definition transfer_payload :: "encoders \<Rightarrow> u64 \<Rightarrow> bytes \<Rightarrow> bytes \<Rightarrow> bytes \<Rightarrow> bytes \<Rightarrow> u64 \<Rightarrow> solana_payload" where
  "transfer_payload E i program_id token_program mint_key dest amount =
     (let holder_seeds = token_holder_seeds mint_key;
          (authority, bump) = en_sol_find_pda E holder_seeds program_id;
          seeds = holder_seeds @ [[bump]];
          from_ata = en_sol_token_account E authority mint_key token_program;
          to_ata = en_sol_token_account E dest mint_key token_program
      in \<lparr>sol_id = i, sol_action = SolExecute \<lparr>
            se_program_id = token_program,
            se_accounts = [(from_ata, True), (to_ata, True), (authority, False)],
            se_instruction_data = 3 # to_le_bytes amount,
            se_signer = Some \<lparr>sa_index = 2, sa_seeds = seeds\<rparr>\<rparr>\<rparr>)"

definition upgrade_payload :: "encoders \<Rightarrow> u64 \<Rightarrow> bytes \<Rightarrow> bytes \<Rightarrow> bytes \<Rightarrow> solana_payload" where
  "upgrade_payload E i program_id buffer spill =
     (let (upgrade_authority, bump) = en_sol_find_pda E [str_bytes ''upgrade_auth''] program_id;
          (accounts, ix_data) = en_sol_upgrade_ix E program_id buffer upgrade_authority spill
      in \<lparr>sol_id = i, sol_action = SolExecute \<lparr>
            se_program_id = en_sol_const E ''BPFLoaderUpgradeab1e11111111111111111111111'',
            se_accounts = accounts,
            se_instruction_data = ix_data,
            se_signer = Some \<lparr>sa_index = of_nat (length accounts - 1),
              sa_seeds = [str_bytes ''upgrade_auth'', [bump]]\<rparr>\<rparr>\<rparr>)"

definition serialize_solana_payload :: "encoders \<Rightarrow> solana_payload \<Rightarrow> 'd kerr + string" where
  "serialize_solana_payload E p =
     rbind (ok_or (en_borsh E p) (Anyhow ''Error serializing Solana bridge payload'')) (\<lambda>bs.
       Inr (en_base64 E bs))"

section \<open>Ethereum\<close>

definition encode_execute_action :: "encoders \<Rightarrow> bytes \<Rightarrow> nat \<Rightarrow> bytes \<Rightarrow> bytes" where
  "encode_execute_action E target val call_data =
     en_abi_uint_bytes E 0 (en_abi_execute E target val call_data)"

definition normalize_evm_address :: "encoders \<Rightarrow> string \<Rightarrow> 'd kerr + string" where
  "normalize_evm_address E a =
     rbind (ok_or (en_eth_from_str E a) (Anyhow ''address'')) (\<lambda>addr. Inr (en_eth_to_str E addr))"

definition to_lowercase_char :: "char \<Rightarrow> char" where
  "to_lowercase_char c =
     (if 65 \<le> (of_char c :: nat) \<and> (of_char c :: nat) \<le> 90 then char_of ((of_char c :: nat) + 32) else c)"

definition normalize_ethereum_denom :: "encoders \<Rightarrow> string \<Rightarrow> 'd kerr + string" where
  "normalize_ethereum_denom E denom =
     (if map to_lowercase_char denom = ''eth'' then Inr ''eth'' else normalize_evm_address E denom)"

definition encode_action_transfer_eth :: "encoders \<Rightarrow> string \<Rightarrow> u128 \<Rightarrow> 'd kerr + bytes" where
  "encode_action_transfer_eth E recipient amount =
     rbind (ok_or (en_eth_from_str E recipient) (Anyhow ''address'')) (\<lambda>r.
       Inr (encode_execute_action E r (unat amount) []))"

definition encode_action_transfer_erc20 :: "encoders \<Rightarrow> string \<Rightarrow> string \<Rightarrow> u128 \<Rightarrow> 'd kerr + bytes" where
  "encode_action_transfer_erc20 E token recipient amount =
     rbind (ok_or (en_eth_from_str E token) (Anyhow ''address'')) (\<lambda>t.
     rbind (ok_or (en_eth_from_str E recipient) (Anyhow ''address'')) (\<lambda>r.
       Inr (encode_execute_action E t 0 (en_abi_transfer_call E r (unat amount)))))"

fun validator_type_byte :: "validator_type \<Rightarrow> u8" where
  "validator_type_byte ListenerType = 0"
| "validator_type_byte ProcessorType = 1"
| "validator_type_byte ApproverType = 2"

definition encode_self_replace_action :: "encoders \<Rightarrow> validator_type \<Rightarrow> public_key \<Rightarrow> public_key \<Rightarrow> bytes" where
  "encode_self_replace_action E vt current repl =
     en_abi_uint_bytes E 1 (en_abi_self_replace E (validator_type_byte vt) (pk_bytes current) (pk_bytes repl))"

definition signature_with_recovery_to_ethereum_bytes :: "sigrec \<Rightarrow> 'd kerr + bytes" where
  "signature_with_recovery_to_ethereum_bytes s =
     (if recid s \<le> 1 then Inr (sig_bytes (sig s) @ [recid s + 27])
      else Inl (Anyhow ''Invalid Ethereum recovery id''))"

definition encode_new_set_action ::
  "encoders \<Rightarrow> validator_set \<Rightarrow> string \<Rightarrow> sigrec list \<Rightarrow> 'd kerr + bytes" where
  "encode_new_set_action E vs rendered approvals =
     rbind (rmap signature_with_recovery_to_ethereum_bytes approvals) (\<lambda>aps.
       Inr (en_abi_uint_bytes E 2 (en_abi_new_set E (pk_bytes (processor vs))
         (map pk_bytes (listeners vs)) (needed_listeners vs)
         (map pk_bytes (approvers vs)) (needed_approvers vs)
         (str_bytes rendered) aps)))"

fun encode_ethereum_action :: "encoders \<Rightarrow> ethereum_action \<Rightarrow> 'd kerr + bytes" where
  "encode_ethereum_action E (EthTransferEth recipient amount) =
     encode_action_transfer_eth E recipient amount"
| "encode_ethereum_action E (EthTransferErc20 token recipient amount) =
     encode_action_transfer_erc20 E token recipient amount"
| "encode_ethereum_action E (EthSelfReplace vt current repl) =
     Inr (encode_self_replace_action E vt current repl)"
| "encode_ethereum_action E (EthNewSet vs rendered approvals) =
     encode_new_set_action E vs rendered approvals"

definition serialize_ethereum_payload :: "encoders \<Rightarrow> u64 \<Rightarrow> ethereum_action \<Rightarrow> 'd kerr + string" where
  "serialize_ethereum_payload E i a =
     rbind (encode_ethereum_action E a) (\<lambda>bs.
       Inr (en_base64 E (en_abi_uint_bytes E (unat i) bs)))"

section \<open>Payloads\<close>

definition find_asset :: "chain_config \<Rightarrow> u64 \<Rightarrow> 'd kerr + (string \<times> asset_config)" where
  "find_asset config i =
     ok_or (find (\<lambda>e. ac_asset_id (snd e) = i) (cc_assets config)) (Anyhow ''Unsupported asset ID'')"

definition transfer_cosmos ::
  "encoders \<Rightarrow> chain_config \<Rightarrow> u64 \<Rightarrow> string \<Rightarrow> asset_amount list \<Rightarrow> 'd kerr + string" where
  "transfer_cosmos E config i recipient funds =
     rbind (rmap (\<lambda>f. rbind (find_asset config (aa_id f)) (\<lambda>a. Inr (fst a, aa_amount f))) funds) (\<lambda>coins.
       ok_or (en_cosmos_json E i (CosmosMsgs [CosmosBankSend recipient coins])) (Anyhow ''json''))"

definition bridge_program_id :: "bridge_contract \<Rightarrow> 'd kerr + string" where
  "bridge_program_id b = (case b of
     NeededCosmosBridge _ \<Rightarrow> Inl (Panic ''unreachable'')
   | NeededSolanaBridge p \<Rightarrow> Inr p
   | NeededEthereumBridge \<Rightarrow> Inl (Panic ''unreachable'')
   | Deployed p \<Rightarrow> Inr p)"

definition u64_try_from_u128 :: "u128 \<Rightarrow> u64 option" where
  "u64_try_from_u128 w = (if unat w < 2 ^ 64 then Some (of_nat (unat w)) else None)"

definition transfer_solana ::
  "encoders \<Rightarrow> chain_config \<Rightarrow> u64 \<Rightarrow> string \<Rightarrow> asset_amount list \<Rightarrow> 'd kerr + string" where
  "transfer_solana E config i recipient funds =
     rbind (rmap (\<lambda>f. rbind (find_asset config (aa_id f)) (\<lambda>a. Inr (fst a, aa_amount f))) funds) (\<lambda>coins.
     rbind (bridge_program_id (cc_bridge config)) (\<lambda>program.
     case coins of [] \<Rightarrow> Inl (Panic ''index out of bounds'')
     | (coin, coin_amount) # _ \<Rightarrow>
       rbind (ok_or (en_sol_from_str E coin) (Anyhow ''mint'')) (\<lambda>mint_key.
       rbind (ok_or (en_sol_from_str E program) (Anyhow ''program_id'')) (\<lambda>program_id.
       rbind (ok_or (en_sol_from_str E recipient) (Anyhow ''recipient'')) (\<lambda>dest.
       rbind (ok_or (u64_try_from_u128 coin_amount) (Anyhow ''amount'')) (\<lambda>amount.
         serialize_solana_payload E (transfer_payload E i program_id
           (en_sol_const E ''TokenkegQfeZyiNwAJbNbGKPFXCWuBvf9Ss623VQ5DA'') mint_key dest amount)))))))"

definition transfer_ethereum ::
  "encoders \<Rightarrow> chain_config \<Rightarrow> u64 \<Rightarrow> string \<Rightarrow> asset_amount list \<Rightarrow> 'd kerr + string" where
  "transfer_ethereum E config i recipient funds =
     rbind (ensure (length funds = 1) (Anyhow ''Ethereum transfer action supports exactly one fund'')) (\<lambda>_.
     let fund = funds ! 0 in
     rbind (find_asset config (aa_id fund)) (\<lambda>(asset_name, _).
     rbind (normalize_ethereum_denom E asset_name) (\<lambda>normalized.
       serialize_ethereum_payload E i
         (if normalized = ''eth'' then EthTransferEth recipient (aa_amount fund)
          else EthTransferErc20 normalized recipient (aa_amount fund)))))"

definition transfer_to_payload ::
  "encoders \<Rightarrow> external_chain \<Rightarrow> chain_config \<Rightarrow> u64 \<Rightarrow> external_chain \<Rightarrow> string \<Rightarrow>
    asset_amount list \<Rightarrow> 'd kerr + string" where
  "transfer_to_payload E chain config i chain2 recipient funds =
     (if chain \<noteq> chain2 then Inl (Panic ''assertion failed'')
      else case chain_name_of chain of
        NameCosmos \<Rightarrow> transfer_cosmos E config i recipient funds
      | NameSolana \<Rightarrow> transfer_solana E config i recipient funds
      | NamePassThrough \<Rightarrow> ok_or (en_pass_through_json E i recipient funds) (Anyhow ''json'')
      | NameEthereum \<Rightarrow> transfer_ethereum E config i recipient funds)"

definition self_replace_to_payload ::
  "encoders \<Rightarrow> external_chain \<Rightarrow> u64 \<Rightarrow> self_replace signed_tagged_json \<Rightarrow> 'd kerr + string" where
  "self_replace_to_payload E chain i sr =
     (let rendered = tj_serialized (stj_message sr);
          sg = stj_signature_with_recovery sr
      in case chain_name_of chain of
        NameCosmos \<Rightarrow> ok_or (en_cosmos_json E i (CosmosSelfReplace rendered sg)) (Anyhow ''json'')
      | NameSolana \<Rightarrow> serialize_solana_payload E \<lparr>sol_id = i, sol_action = SolSelfReplace rendered sg\<rparr>
      | NamePassThrough \<Rightarrow> Inl (Panic ''not yet implemented'')
      | NameEthereum \<Rightarrow>
          rbind (stj_verify_signature (en_recover E) sr) (\<lambda>current.
            serialize_ethereum_payload E i (EthSelfReplace (validator_type (tj_value (stj_message sr)))
              current (replacement (tj_value (stj_message sr))))))"

definition new_set_to_payload ::
  "encoders \<Rightarrow> external_chain \<Rightarrow> u64 \<Rightarrow> validator_set tagged_json \<Rightarrow> sigrec list \<Rightarrow> 'd kerr + string" where
  "new_set_to_payload E chain i vs approvals =
     (case chain_name_of chain of
        NameCosmos \<Rightarrow> ok_or (en_cosmos_json E i (CosmosNewSet (tj_serialized vs) approvals)) (Anyhow ''json'')
      | NameSolana \<Rightarrow>
          serialize_solana_payload E \<lparr>sol_id = i, sol_action = SolNewSet (tj_serialized vs) approvals\<rparr>
      | NamePassThrough \<Rightarrow> Inl (Panic ''not yet implemented'')
      | NameEthereum \<Rightarrow>
          serialize_ethereum_payload E i (EthNewSet (tj_value vs) (tj_serialized vs) approvals))"

definition migrate_to_payload ::
  "encoders \<Rightarrow> chain_config \<Rightarrow> u64 \<Rightarrow> migrate_contract tagged_json \<Rightarrow> 'd kerr + string" where
  "migrate_to_payload E config i m =
     rbind (case cc_bridge config of
         Deployed a \<Rightarrow> Inr a
       | _ \<Rightarrow> Inl (Anyhow ''Unable to migrate contract: contract isn't deployed'')) (\<lambda>contract_addr.
       case tj_value m of
         MigrateCosmos _ new_code_id msg \<Rightarrow>
           ok_or (en_cosmos_json E i
             (CosmosMsgs [CosmosWasmMigrate contract_addr new_code_id (str_bytes msg)])) (Anyhow ''json'')
       | MigrateSolana _ buffer spill \<Rightarrow>
           rbind (ok_or (en_sol_from_str E contract_addr) (Anyhow ''program_id'')) (\<lambda>program_id.
             serialize_solana_payload E (upgrade_payload E i program_id buffer spill)))"

fun to_payload ::
  "encoders \<Rightarrow> exec_action \<Rightarrow> external_chain \<Rightarrow> chain_config \<Rightarrow> u64 \<Rightarrow> 'd kerr + string" where
  "to_payload E (ExecTransfer chain2 recipient funds) chain config i =
     transfer_to_payload E chain config i chain2 recipient funds"
| "to_payload E (ExecSelfReplace sr) chain config i = self_replace_to_payload E chain i sr"
| "to_payload E (ExecNewSet vs approvals) chain config i = new_set_to_payload E chain i vs approvals"
| "to_payload E (ExecMigrateContract m) chain config i = migrate_to_payload E config i m"

section \<open>A payload determines its action id\<close>

text \<open>
  The documented behaviour of the encoders the replay argument needs: decoding a rendering gives
  back the id that was put in.
\<close>

definition encoders_keep_id :: "encoders \<Rightarrow> bool" where
  "encoders_keep_id E \<longleftrightarrow>
     (\<forall>i j a b s. en_cosmos_json E i a = Some s \<longrightarrow> en_cosmos_json E j b = Some s \<longrightarrow> i = j) \<and>
     (\<forall>i j r q f g s. en_pass_through_json E i r f = Some s \<longrightarrow>
        en_pass_through_json E j q g = Some s \<longrightarrow> i = j) \<and>
     (\<forall>x y. en_base64 E x = en_base64 E y \<longrightarrow> x = y) \<and>
     (\<forall>p q s. en_borsh E p = Some s \<longrightarrow> en_borsh E q = Some s \<longrightarrow> sol_id p = sol_id q) \<and>
     (\<forall>m n x y. m < 2 ^ 64 \<longrightarrow> n < 2 ^ 64 \<longrightarrow> en_abi_uint_bytes E m x = en_abi_uint_bytes E n y \<longrightarrow> m = n)"

lemma encoders_keep_idD:
  assumes "encoders_keep_id E"
  shows "en_cosmos_json E i a = Some s \<Longrightarrow> en_cosmos_json E j b = Some s \<Longrightarrow> i = j"
    and "en_pass_through_json E i r f = Some s \<Longrightarrow> en_pass_through_json E j q g = Some s \<Longrightarrow> i = j"
    and "en_base64 E x = en_base64 E y \<Longrightarrow> x = y"
    and "en_borsh E p = Some z \<Longrightarrow> en_borsh E p' = Some z \<Longrightarrow> sol_id p = sol_id p'"
    and "m < 2 ^ 64 \<Longrightarrow> n < 2 ^ 64 \<Longrightarrow> en_abi_uint_bytes E m x = en_abi_uint_bytes E n y \<Longrightarrow> m = n"
  using assms[unfolded encoders_keep_id_def] by (elim conjE, metis)+

text \<open>\<open>carries_id E f\<close>: whatever string the rendering for \<open>c\<close> produces tells the id apart.\<close>

definition rendering :: "encoders \<Rightarrow> chain_name \<Rightarrow> u64 \<Rightarrow> string \<Rightarrow> bool" where
  "rendering E n i s \<longleftrightarrow> (case n of
     NameCosmos \<Rightarrow> (\<exists>a. en_cosmos_json E i a = Some s)
   | NameSolana \<Rightarrow> (\<exists>p z. en_borsh E p = Some z \<and> sol_id p = i \<and> s = en_base64 E z)
   | NamePassThrough \<Rightarrow> (\<exists>r f. en_pass_through_json E i r f = Some s)
   | NameEthereum \<Rightarrow> (\<exists>b. s = en_base64 E (en_abi_uint_bytes E (unat i) b)))"

lemma rendering_id:
  assumes E: "encoders_keep_id E" and "rendering E n i s" "rendering E n j s"
  shows "i = j"
proof -
  have u: "unat i < 2 ^ 64" "unat j < 2 ^ 64"
    using unat_bound [of i] unat_bound [of j] by simp_all
  show ?thesis
  proof (cases n)
    case NameEthereum
    from assms(2) NameEthereum obtain b where "s = en_base64 E (en_abi_uint_bytes E (unat i) b)"
      by (auto simp: rendering_def)
    moreover from assms(3) NameEthereum obtain c where "s = en_base64 E (en_abi_uint_bytes E (unat j) c)"
      by (auto simp: rendering_def)
    ultimately have "en_base64 E (en_abi_uint_bytes E (unat i) b) = en_base64 E (en_abi_uint_bytes E (unat j) c)"
      by simp
    then have "unat i = unat j" using encoders_keep_idD(3,5) [OF E] u by metis
    then show ?thesis by (simp add: unat_eq_iff)
  next
    case NameSolana
    with assms(2,3) show ?thesis
      by (auto simp: rendering_def dest: encoders_keep_idD(3) [OF E] encoders_keep_idD(4) [OF E])
  qed (use assms in \<open>auto simp: rendering_def dest: encoders_keep_idD(1,2) [OF E]\<close>)
qed

lemma serialize_solana_rendering:
  "serialize_solana_payload E p = Inr s \<Longrightarrow> sol_id p = i \<Longrightarrow> rendering E NameSolana i s"
  by (auto simp: serialize_solana_payload_def rendering_def result_simps)

lemma serialize_ethereum_rendering:
  "serialize_ethereum_payload E i a = Inr s \<Longrightarrow> rendering E NameEthereum i s"
  by (auto simp: serialize_ethereum_payload_def rendering_def result_simps)

lemma payload_ids [simp]:
  "sol_id (transfer_payload E i p t m d x) = i"
  "sol_id (upgrade_payload E i p b sp) = i"
  by (simp_all add: transfer_payload_def upgrade_payload_def Let_def split: prod.splits)

text \<open>A migration goes out on the chain it names; every other action on any chain.\<close>

fun action_fits :: "exec_action \<Rightarrow> external_chain \<Rightarrow> bool" where
  "action_fits (ExecMigrateContract m) chain = (chain = migrate_chain (tj_value m))"
| "action_fits _ _ = True"

lemma migrate_chain_names:
  "chain_name_of (of_cosmos_chain c) = NameCosmos"
  "chain_name_of (of_solana_chain d) = NameSolana"
  by (cases c; simp add: chain_name_of_def) (cases d; simp add: chain_name_of_def)

lemma transfer_rendering:
  assumes "transfer_to_payload E chain config i chain2 r f = (Inr s :: 'd kerr + string)"
  shows "rendering E (chain_name_of chain) i s"
proof (cases "chain_name_of chain")
  case NameSolana
  with assms have "transfer_solana E config i r f = (Inr s :: 'd kerr + string)"
    by (auto simp: transfer_to_payload_def split: if_splits)
  then show ?thesis
    unfolding transfer_solana_def rbind_Inr_iff NameSolana
  proof (elim exE conjE, goal_cases)
    case (1 coins program)
    then show ?case
      by (cases coins) (auto simp: result_simps elim!: serialize_solana_rendering)
  qed
next
  case NameEthereum
  with assms show ?thesis
    by (auto simp: transfer_to_payload_def transfer_ethereum_def result_simps Let_def
        split: if_splits prod.splits dest: serialize_ethereum_rendering)
qed (use assms in \<open>auto simp: transfer_to_payload_def transfer_cosmos_def rendering_def result_simps
        split: if_splits\<close>)

lemma self_replace_rendering:
  "self_replace_to_payload E chain i sr = Inr s \<Longrightarrow> rendering E (chain_name_of chain) i s"
  by (auto simp: self_replace_to_payload_def Let_def result_simps rendering_def split: chain_name.splits
      dest!: serialize_solana_rendering serialize_ethereum_rendering)

lemma new_set_rendering:
  "new_set_to_payload E chain i vs aps = Inr s \<Longrightarrow> rendering E (chain_name_of chain) i s"
  by (auto simp: new_set_to_payload_def Let_def result_simps rendering_def split: chain_name.splits
      dest!: serialize_solana_rendering serialize_ethereum_rendering)

lemma migrate_rendering:
  assumes "migrate_to_payload E config i m = Inr s"
  shows "rendering E (chain_name_of (migrate_chain (tj_value m))) i s"
proof (cases "tj_value m")
  case (MigrateCosmos c n msg)
  with assms show ?thesis
    by (auto simp: migrate_to_payload_def result_simps rendering_def migrate_chain_names)
next
  case (MigrateSolana c buf sp)
  with assms show ?thesis
    by (auto simp: migrate_to_payload_def result_simps migrate_chain_names
        elim!: serialize_solana_rendering)
qed

lemma to_payload_rendering:
  "to_payload E a chain config i = Inr s \<Longrightarrow> action_fits a chain \<Longrightarrow> rendering E (chain_name_of chain) i s"
  by (cases a) (auto intro: transfer_rendering self_replace_rendering new_set_rendering migrate_rendering)

text \<open>
  Encoders to evaluate on: the id (or the bytes) written out and nothing else.
\<close>

definition sample_encoders :: encoders where
  "sample_encoders = \<lparr>
     en_recover = (\<lambda>_ s _. Some (PublicKey (sig_bytes s))),
     en_cosmos_json = (\<lambda>i _. Some (bytes_str (to_le_bytes i))),
     en_pass_through_json = (\<lambda>i _ _. Some (bytes_str (to_le_bytes i))),
     en_base64 = bytes_str,
     en_borsh = (\<lambda>p. Some (to_le_bytes (sol_id p))),
     en_sol_from_str = (\<lambda>s. Some (str_bytes s)),
     en_sol_const = str_bytes,
     en_sol_find_pda = (\<lambda>_ _. ([], 255)),
     en_sol_token_account = (\<lambda>_ _ _. []),
     en_sol_upgrade_ix = (\<lambda>_ _ _ _. ([], [])),
     en_eth_from_str = (\<lambda>s. Some (str_bytes s)),
     en_eth_to_str = bytes_str,
     en_abi_uint_bytes = (\<lambda>n bs. nat_to_le 32 n @ bs),
     en_abi_execute = (\<lambda>_ _ bs. bs),
     en_abi_transfer_call = (\<lambda>_ _. []),
     en_abi_self_replace = (\<lambda>_ _ _. []),
     en_abi_new_set = (\<lambda>_ _ _ _ _ _ _. [])\<rparr>"

lemma sample_encoders_keep_id: "encoders_keep_id sample_encoders"
proof -
  have r: "of_le_bytes (to_le_bytes i) = i" for i :: u64
    by (rule of_to_le_bytes [OF len_u64])
  have inj: "to_le_bytes i = to_le_bytes j \<longleftrightarrow> i = j" for i j :: u64
    by (metis r)
  have nat: "m = n" if "nat_to_le 32 m @ x = nat_to_le 32 n @ y" "m < 2 ^ 64" "n < 2 ^ 64" for m n x y
  proof -
    have "nat_to_le 32 m = nat_to_le 32 n" using that(1) by simp
    then have "m mod 256 ^ 32 = n mod 256 ^ 32" by (metis nat_of_to_le)
    then show ?thesis using that(2,3) by simp
  qed
  show ?thesis
    unfolding encoders_keep_id_def
  proof (intro conjI allI impI, goal_cases)
    case (5 m n x y)
    then have "nat_to_le 32 m @ x = nat_to_le 32 n @ y"
      by (simp only: sample_encoders_def encoders.simps)
    then show ?case using 5 nat by blast
  qed (simp_all add: sample_encoders_def bytes_str_inject inj)
qed

section \<open>Properties\<close>

text \<open>Two bridge actions issued on one chain under different action ids never render to the
  same payload, whatever the actions and the chain's configuration: a quorum's signatures on one
  action cannot be replayed for another.\<close>

theorem payload_determines_action_id:
  assumes "encoders_keep_id E"
    and "to_payload E a chain c i = (Inr s :: 'd kerr + string)" "action_fits a chain"
    and "i \<noteq> j" "action_fits b chain"
  shows "to_payload E b chain c' j \<noteq> (Inr s :: 'd kerr + string)"
  using rendering_id [OF assms(1) to_payload_rendering [OF assms(2,3)] to_payload_rendering]
    assms(4,5) by blast

lemma payload_determines_action_id_witness:
  "\<exists>s. to_payload sample_encoders (ExecTransfer OsmosisLocal ''w'' []) OsmosisLocal
        \<lparr>cc_assets = [], cc_bridge = Deployed ''c''\<rparr> 5 = (Inr s :: int kerr + string) \<and>
      to_payload sample_encoders (ExecTransfer OsmosisLocal ''v'' []) OsmosisLocal
        \<lparr>cc_assets = [], cc_bridge = Deployed ''c''\<rparr> 6 \<noteq> (Inr s :: int kerr + string)"
proof -
  let ?c = "\<lparr>cc_assets = [], cc_bridge = Deployed ''c''\<rparr>"
  have e: "to_payload sample_encoders (ExecTransfer OsmosisLocal ''w'' []) OsmosisLocal ?c 5 =
      (Inr (bytes_str (to_le_bytes (5 :: u64))) :: int kerr + string)"
    by (simp add: transfer_to_payload_def transfer_cosmos_def chain_name_of_def sample_encoders_def)
  show ?thesis
    using payload_determines_action_id [OF sample_encoders_keep_id e, of 6 "ExecTransfer OsmosisLocal ''v'' []" ?c] e
    by simp
qed

end
