(* ===== verification/Cosmos_Contract.thy ===== *)
theory Cosmos_Contract
  imports Payload
begin

text \<open>
  The Cosmos bridge contract (\<open>contracts/cosmos/src/lib.rs\<close>, \<open>signing.rs\<close>) with the types it shares
  with Kolme (\<open>shared/src/cosmos.rs\<close>, \<open>shared/src/cryptography.rs\<close>).  It holds the funds on a Cosmos
  chain: anyone may deposit (\<open>regular\<close>) or relay an action that the processor and the approvers
  signed (\<open>signed\<close>).

  Key recovery, SHA-256 and JSON are parameters.  A handler that fails leaves the storage as it was:
  the chain reverts it.  A panic is the error \<open>CcPanic\<close>.
\<close>

unbundle bit_operations_syntax

section \<open>State, messages, errors\<close>

record contract_state =
  ct_set :: validator_set
  ct_next_event_id :: u64
  ct_next_action_id :: u64

record key_registration =
  kg_signature :: sigrec
  kg_key :: public_key

datatype cosmos_execute_msg =
    CosmosRegular "key_registration list"
  | CosmosSigned sigrec "sigrec list" string

datatype cosmos_query_msg = CosmosConfig | CosmosGetEvent u64

datatype cosmos_event =
    CosmosRegularEvent string "(string \<times> u128) list" "public_key list"
  | CosmosSignedEvent string u64

datatype compress_error = WrongUncompressedLen nat nat | WrongStartingByte u8 u8

datatype signature_error = CompressFailed compress_error | InvalidSignature signature u8

datatype contract_error =
    CcStd string
  | CcSigning signature_error
  | CcNoApproversProvided
  | CcInsufficientApprovers u16 u16
  | CcIncorrectActionId u64 u64
  | CcInsufficientSignatures u16 u16
  | CcDuplicateKey public_key
  | CcPublicKeyRecoveryMismatch public_key public_key
  | CcInvalidSelfReplace public_key public_key validator_type
  | CcValidatorSet "unit kerr"
  | CcSemverParse
  | CcMismatchedContractMigrationName string string
  | CcMigrateToOlder string string
  | CcPanic string

record 'v cosmos_api =
  ca_recover :: "bytes \<Rightarrow> bytes \<Rightarrow> u8 \<Rightarrow> bytes option"
  ca_sha :: "bytes \<Rightarrow> bytes"
  ca_payload :: "string \<Rightarrow> (u64 \<times> cosmos_action) option"
  ca_self_replace :: "string \<Rightarrow> self_replace option"
  ca_set :: "string \<Rightarrow> validator_set option"
  ca_event_json :: "cosmos_event \<Rightarrow> bytes option"
  ca_state_json :: "contract_state \<Rightarrow> bytes option"
  ca_found_json :: "bytes option \<Rightarrow> bytes option"
  ca_base64 :: "bytes \<Rightarrow> string"
  ca_show :: "u64 \<Rightarrow> string"
  ca_version :: "string \<Rightarrow> 'v option"

record contract_storage =
  cs_version_info :: "(string \<times> string) option"
  cs_state :: "contract_state option"
  cs_events :: "(u64, bytes) omap"

record response =
  rs_messages :: "cosmos_msg list"
  rs_events :: "(string \<times> (string \<times> string) list) list"
  rs_attributes :: "(string \<times> string) list"

definition no_response :: response where
  "no_response = \<lparr>rs_messages = [], rs_events = [], rs_attributes = []\<rparr>"

type_synonym contract_result = "contract_error + (response \<times> contract_storage)"

definition contract_name :: string where
  "contract_name = ''kolme.fpblock.com:bridge''"

definition contract_version :: string where
  "contract_version = ''0.1.0''"

section \<open>Signatures\<close>

definition compress_public_key :: "bytes \<Rightarrow> compress_error + bytes" where
  "compress_public_key uncompressed =
     (if length uncompressed \<noteq> 65 then Inl (WrongUncompressedLen 65 (length uncompressed))
      else if uncompressed ! 0 \<noteq> 4 then Inl (WrongStartingByte 4 (uncompressed ! 0))
      else Inr ((if uncompressed ! 64 AND 1 = 0 then 2 else 3) # take 32 (drop 1 uncompressed)))"

definition cosmos_validate_signature ::
  "'v cosmos_api \<Rightarrow> bytes \<Rightarrow> sigrec \<Rightarrow> signature_error + public_key" where
  "cosmos_validate_signature A hash s =
     rbind (ok_or (ca_recover A hash (sig_bytes (sig s)) (recid s)) (InvalidSignature (sig s) (recid s))) (\<lambda>uncompressed.
     case compress_public_key uncompressed of
       Inl e \<Rightarrow> Inl (CompressFailed e)
     | Inr bs \<Rightarrow> Inr (PublicKey bs))"

definition cosmos_signer :: "'v cosmos_api \<Rightarrow> bytes \<Rightarrow> sigrec \<Rightarrow> contract_error + public_key" where
  "cosmos_signer A hash s =
     (case cosmos_validate_signature A hash s of Inl e \<Rightarrow> Inl (CcSigning e) | Inr k \<Rightarrow> Inr k)"

section \<open>Instantiation\<close>

definition cosmos_instantiate :: "validator_set \<Rightarrow> contract_storage \<Rightarrow> contract_result" where
  "cosmos_instantiate vs st =
     rbind (case validate_set vs of Inl e \<Rightarrow> Inl (CcValidatorSet e) | Inr _ \<Rightarrow> Inr ()) (\<lambda>_.
     rbind (ensure (approvers vs \<noteq> []) CcNoApproversProvided) (\<lambda>_.
       Inr (no_response, st\<lparr>cs_version_info := Some (contract_name, contract_version),
         cs_state := Some \<lparr>ct_set = vs, ct_next_event_id = 0 + 1, ct_next_action_id = 0\<rparr>\<rparr>)))"

section \<open>Execution\<close>

definition load_contract_state :: "contract_storage \<Rightarrow> contract_error + contract_state" where
  "load_contract_state st = ok_or (cs_state st) (CcStd ''not found'')"

definition bridge_event_response ::
  "'v cosmos_api \<Rightarrow> cosmos_event \<Rightarrow> u64 \<Rightarrow> contract_storage \<Rightarrow> contract_result" where
  "bridge_event_response A ev i st =
     rbind (ok_or (ca_event_json A ev) (CcStd ''to_json_binary'')) (\<lambda>message.
       Inr (no_response\<lparr>rs_events := [(''bridge-event'', [(''id'', ca_show A i), (''message'', ca_base64 A message)])]\<rparr>,
         st\<lparr>cs_events := om_insert i message (cs_events st)\<rparr>))"

definition check_registration :: "'v cosmos_api \<Rightarrow> bytes \<Rightarrow> key_registration \<Rightarrow> contract_error + unit" where
  "check_registration A hash r =
     rbind (cosmos_signer A hash (kg_signature r)) (\<lambda>recovered.
       ensure (recovered = kg_key r) (CcPublicKeyRecoveryMismatch (kg_key r) recovered))"

definition cosmos_regular ::
  "'v cosmos_api \<Rightarrow> string \<Rightarrow> (string \<times> u128) list \<Rightarrow> key_registration list \<Rightarrow> contract_storage \<Rightarrow> contract_result" where
  "cosmos_regular A sender funds keys st =
     rbind (rfold (\<lambda>r _. check_registration A (ca_sha A (str_bytes sender)) r) keys ()) (\<lambda>_.
     rbind (load_contract_state st) (\<lambda>s.
       bridge_event_response A (CosmosRegularEvent sender funds (map kg_key keys)) (ct_next_event_id s)
         (st\<lparr>cs_state := Some (s\<lparr>ct_next_event_id := ct_next_event_id s + 1\<rparr>)\<rparr>)))"

text \<open>Who has to sign, and what the action does to the validator set.\<close>

datatype parsed_action =
    ParsedCosmos "cosmos_msg list"
  | ParsedSelfReplace validator_type public_key public_key
  | ParsedNewSet validator_set

record signers =
  sg_processor :: public_key
  sg_approvers :: "public_key list"
  sg_needed :: u16

definition signers_of :: "validator_set \<Rightarrow> signers" where
  "signers_of vs = \<lparr>sg_processor = processor vs, sg_approvers = approvers vs, sg_needed = needed_approvers vs\<rparr>"

fun cosmos_self_replace_signers ::
  "validator_set \<Rightarrow> public_key \<Rightarrow> validator_type \<Rightarrow> public_key \<Rightarrow> contract_error + signers" where
  "cosmos_self_replace_signers vs validator ListenerType repl =
     (if validator \<notin> set (listeners vs) \<or> repl \<in> set (listeners vs)
      then Inl (CcInvalidSelfReplace validator repl ListenerType) else Inr (signers_of vs))"
| "cosmos_self_replace_signers vs validator ProcessorType repl =
     (if validator \<noteq> processor vs then Inl (CcInvalidSelfReplace validator repl ProcessorType)
      else Inr (signers_of vs\<lparr>sg_processor := repl\<rparr>))"
| "cosmos_self_replace_signers vs validator ApproverType repl =
     (if validator \<notin> set (approvers vs) \<or> repl \<in> set (approvers vs)
      then Inl (CcInvalidSelfReplace validator repl ApproverType)
      else Inr (signers_of vs\<lparr>sg_approvers := os_insert repl (os_remove validator (approvers vs))\<rparr>))"

record tally =
  tl_processor :: bool
  tl_listeners :: u16
  tl_approvers :: u16
  tl_used :: "public_key list"

definition count_approval :: "'v cosmos_api \<Rightarrow> bytes \<Rightarrow> validator_set \<Rightarrow> sigrec \<Rightarrow> tally \<Rightarrow> contract_error + tally" where
  "count_approval A hash vs s t =
     rbind (cosmos_signer A hash s) (\<lambda>validator.
     rbind (ensure (validator \<notin> set (tl_used t)) (CcDuplicateKey validator)) (\<lambda>_.
     rbind (ensure (\<not> (processor vs = validator \<and> tl_processor t)) (CcPanic ''assert!(!processor)'')) (\<lambda>_.
       Inr (t\<lparr>tl_used := os_insert validator (tl_used t),
         tl_processor := (tl_processor t \<or> processor vs = validator),
         tl_listeners := (if validator \<in> set (listeners vs) then tl_listeners t + 1 else tl_listeners t),
         tl_approvers := (if validator \<in> set (approvers vs) then tl_approvers t + 1 else tl_approvers t)\<rparr>))))"

definition groups_approving :: "validator_set \<Rightarrow> tally \<Rightarrow> u16" where
  "groups_approving vs t = (if tl_processor t then 1 else 0) + (if needed_listeners vs \<le> tl_listeners t then 1 else 0) +
     (if needed_approvers vs \<le> tl_approvers t then 1 else 0)"

definition no_tally :: tally where
  "no_tally = \<lparr>tl_processor = False, tl_listeners = 0, tl_approvers = 0, tl_used = []\<rparr>"

fun cosmos_signers ::
  "'v cosmos_api \<Rightarrow> validator_set \<Rightarrow> cosmos_action \<Rightarrow> contract_error + (signers \<times> parsed_action)" where
  "cosmos_signers A vs (CosmosMsgs messages) = Inr (signers_of vs, ParsedCosmos messages)"
| "cosmos_signers A vs (CosmosSelfReplace rendered signature) =
     rbind (cosmos_signer A (ca_sha A (str_bytes rendered)) signature) (\<lambda>validator.
     rbind (ok_or (ca_self_replace A rendered) (CcStd ''from_json'')) (\<lambda>sr.
     rbind (cosmos_self_replace_signers vs validator (validator_type sr) (replacement sr)) (\<lambda>signers.
       Inr (signers, ParsedSelfReplace (validator_type sr) validator (replacement sr)))))"
| "cosmos_signers A vs (CosmosNewSet rendered approvals) =
     rbind (ok_or (ca_set A rendered) (CcStd ''from_json'')) (\<lambda>new_set.
     rbind (rfold (count_approval A (ca_sha A (str_bytes rendered)) vs) approvals no_tally) (\<lambda>t.
     rbind (ensure (2 \<le> groups_approving vs t) (CcInsufficientSignatures 2 (groups_approving vs t))) (\<lambda>_.
       Inr (signers_of new_set, ParsedNewSet new_set))))"

definition take_approver ::
  "'v cosmos_api \<Rightarrow> bytes \<Rightarrow> public_key list \<Rightarrow> sigrec \<Rightarrow> public_key list \<Rightarrow> contract_error + public_key list" where
  "take_approver A hash expected s used =
     rbind (cosmos_signer A hash s) (\<lambda>key.
       if key \<notin> set expected then Inr used
       else rbind (ensure (key \<notin> set used) (CcDuplicateKey key)) (\<lambda>_. Inr (used @ [key])))"

fun apply_parsed :: "parsed_action \<Rightarrow> validator_set \<Rightarrow> contract_error + validator_set" where
  "apply_parsed (ParsedCosmos messages) vs = Inr vs"
| "apply_parsed (ParsedSelfReplace ListenerType old new) vs =
     Inr (vs\<lparr>listeners := os_insert new (os_remove old (listeners vs))\<rparr>)"
| "apply_parsed (ParsedSelfReplace ProcessorType old new) vs =
     (if processor vs \<noteq> old then Inl (CcPanic ''assert_eq!'') else Inr (vs\<lparr>processor := new\<rparr>))"
| "apply_parsed (ParsedSelfReplace ApproverType old new) vs =
     Inr (vs\<lparr>approvers := os_insert new (os_remove old (approvers vs))\<rparr>)"
| "apply_parsed (ParsedNewSet new_set) vs = Inr new_set"

fun parsed_messages :: "parsed_action \<Rightarrow> cosmos_msg list" where
  "parsed_messages (ParsedCosmos messages) = messages"
| "parsed_messages _ = []"

definition cosmos_signed ::
  "'v cosmos_api \<Rightarrow> string \<Rightarrow> sigrec \<Rightarrow> sigrec list \<Rightarrow> string \<Rightarrow> contract_storage \<Rightarrow> contract_result" where
  "cosmos_signed A sender proc_sig approver_sigs payload st =
     rbind (ok_or (ca_payload A payload) (CcStd ''from_json'')) (\<lambda>(i, action).
     rbind (load_contract_state st) (\<lambda>s.
     rbind (ensure (i = ct_next_action_id s) (CcIncorrectActionId (ct_next_action_id s) i)) (\<lambda>_.
     let incoming_id = ct_next_event_id s;
         s1 = s\<lparr>ct_next_action_id := ct_next_action_id s + 1, ct_next_event_id := incoming_id + 1\<rparr>;
         hash = ca_sha A (str_bytes payload)
     in rbind (cosmos_signers A (ct_set s1) action) (\<lambda>(expected, parsed).
     rbind (cosmos_signer A hash proc_sig) (\<lambda>key.
     rbind (ensure (key = sg_processor expected) (CcPublicKeyRecoveryMismatch (sg_processor expected) key)) (\<lambda>_.
     rbind (rfold (take_approver A hash (sg_approvers expected)) approver_sigs []) (\<lambda>used.
     rbind (ensure (\<not> length used < unat (sg_needed expected))
       (CcInsufficientApprovers (sg_needed expected) (of_nat (length used)))) (\<lambda>_.
     rbind (bridge_event_response A (CosmosSignedEvent sender i) incoming_id st) (\<lambda>(resp, st1).
     rbind (apply_parsed parsed (ct_set s1)) (\<lambda>vs.
       Inr (resp\<lparr>rs_messages := rs_messages resp @ parsed_messages parsed\<rparr>,
         st1\<lparr>cs_state := Some (s1\<lparr>ct_set := vs\<rparr>)\<rparr>)))))))))))"

fun cosmos_execute ::
  "'v cosmos_api \<Rightarrow> string \<Rightarrow> (string \<times> u128) list \<Rightarrow> cosmos_execute_msg \<Rightarrow> contract_storage \<Rightarrow> contract_result" where
  "cosmos_execute A sender funds (CosmosRegular keys) st = cosmos_regular A sender funds keys st"
| "cosmos_execute A sender funds (CosmosSigned proc_sig approver_sigs payload) st =
     cosmos_signed A sender proc_sig approver_sigs payload st"

section \<open>Queries and migration\<close>

fun cosmos_query :: "'v cosmos_api \<Rightarrow> cosmos_query_msg \<Rightarrow> contract_storage \<Rightarrow> contract_error + bytes" where
  "cosmos_query A CosmosConfig st =
     rbind (load_contract_state st) (\<lambda>s. ok_or (ca_state_json A s) (CcStd ''to_json_binary''))"
| "cosmos_query A (CosmosGetEvent i) st =
     ok_or (ca_found_json A (om_get (cs_events st) i)) (CcStd ''to_json_binary'')"

definition cosmos_migrate :: "'v::linorder cosmos_api \<Rightarrow> contract_storage \<Rightarrow> contract_result" where
  "cosmos_migrate A st =
     rbind (ok_or (cs_version_info st) (CcStd ''not found'')) (\<lambda>(name, version).
     rbind (ok_or (ca_version A version) CcSemverParse) (\<lambda>old_version.
     rbind (ok_or (ca_version A contract_version) CcSemverParse) (\<lambda>new_version.
       if name \<noteq> contract_name then Inl (CcMismatchedContractMigrationName name contract_name)
       else if old_version > new_version then Inl (CcMigrateToOlder version contract_version)
       else Inr (no_response\<lparr>rs_attributes := [(''old_contract_name'', name), (''old_contract_version'', version),
           (''new_contract_name'', contract_name), (''new_contract_version'', contract_version)]\<rparr>,
         st\<lparr>cs_version_info := Some (contract_name, contract_version)\<rparr>))))"

end
