(* ===== verification/Solana_Program.thy ===== *)
theory Solana_Program
  imports Cosmos_Contract
begin

text \<open>
  The Solana bridge program (\<open>solana/crates/kolme-solana-bridge/src/lib.rs\<close>), the account helpers it
  is written with (\<open>solana/crates/solbox\<close>) and the signature check it brings along
  (\<open>shared/src/cryptography/chain.rs\<close>).

  An instruction sees a list of account references into the ledger; two references may be to the
  same account.  The runtime (syscalls, calls of other programs, address derivation, rent), borsh,
  base64, JSON and the token account layout are parameters.  A failed instruction leaves the ledger
  as it was.  The logs are the second result.
\<close>

unbundle bit_operations_syntax

section \<open>Accounts and the runtime\<close>

type_synonym pubkey = bytes

record acct =
  at_owner :: pubkey
  at_lamports :: u64
  at_executable :: bool
  at_data :: bytes

type_synonym ledger = "pubkey \<Rightarrow> acct"

record account_ref =
  ar_key :: pubkey
  ar_signer :: bool
  ar_writable :: bool

datatype program_error =
    InvalidInstructionData | NotEnoughAccountKeys | InvalidArgument | InvalidAccountData | IllegalOwner
  | InvalidAccountOwner | UninitializedAccount | AccountAlreadyInitialized | AccountDataTooSmall
  | BorshIoError | ProgramCustom nat | RuntimeError nat | ProgramPanic string

record account_meta =
  am_pubkey :: pubkey
  am_writable :: bool
  am_signer :: bool

record instruction =
  in_program_id :: pubkey
  in_accounts :: "account_meta list"
  in_data :: bytes

datatype loader_state =
    LoaderUninitialized
  | LoaderBuffer "pubkey option"
  | LoaderProgram pubkey
  | LoaderProgramData u64 "pubkey option"

record token =
  tk_mint :: pubkey
  tk_amount :: u64

datatype bridge_log =
    BridgeRegular u64 pubkey "token list" "public_key list"
  | BridgeSigned u64 pubkey u64

record regular_data =
  rd_keys :: "key_registration list"
  rd_transfer_amounts :: "u64 list"

record signed_data =
  sd_processor :: sigrec
  sd_approvers :: "sigrec list"
  sd_payload :: string

record token_account =
  ta_mint :: pubkey
  ta_owner :: pubkey
  ta_close_authority :: bool
  ta_delegate :: bool

text \<open>Everything the program calls outside the repository.\<close>

record svm =
  sv_recover :: "bytes \<Rightarrow> u64 \<Rightarrow> bytes \<Rightarrow> nat + bytes"
  sv_sha :: "bytes \<Rightarrow> bytes"
  sv_invoke :: "instruction \<Rightarrow> account_ref list \<Rightarrow> bytes list option \<Rightarrow> ledger \<Rightarrow> program_error + ledger"
  sv_find_pda :: "bytes list \<Rightarrow> pubkey \<Rightarrow> pubkey \<times> u8"
  sv_create_pda :: "bytes list \<Rightarrow> pubkey \<Rightarrow> program_error + pubkey"
  sv_minimum_balance :: "program_error + (nat \<Rightarrow> u64)"
  sv_create_account :: "pubkey \<Rightarrow> pubkey \<Rightarrow> u64 \<Rightarrow> nat \<Rightarrow> pubkey \<Rightarrow> bytes list \<Rightarrow> ledger \<Rightarrow> program_error + ledger"
  sv_transfer :: "pubkey \<Rightarrow> pubkey \<Rightarrow> u64 \<Rightarrow> ledger \<Rightarrow> program_error + ledger"
  sv_allocate :: "pubkey \<Rightarrow> nat \<Rightarrow> bytes list \<Rightarrow> ledger \<Rightarrow> program_error + ledger"
  sv_assign :: "pubkey \<Rightarrow> pubkey \<Rightarrow> bytes list \<Rightarrow> ledger \<Rightarrow> program_error + ledger"
  sv_resize :: "nat \<Rightarrow> acct \<Rightarrow> program_error + acct"
  sv_token_account :: "bytes \<Rightarrow> token_account"
  sv_mint_decimals :: "bytes \<Rightarrow> u8"
  sv_loader_state :: "bytes \<Rightarrow> loader_state option"
  sv_system_program :: pubkey
  sv_loader :: pubkey
  sv_token :: pubkey
  sv_token2022 :: pubkey
  sv_ata_program :: pubkey
  sv_borsh_state :: "contract_state \<Rightarrow> bytes"
  sv_unborsh_state :: "bytes \<Rightarrow> contract_state option"
  sv_borsh_git_rev :: "string \<Rightarrow> bytes"
  sv_borsh_unit :: bytes
  sv_unborsh_unit :: "bytes \<Rightarrow> unit option"
  sv_unborsh_init :: "bytes \<Rightarrow> validator_set option"
  sv_unborsh_regular :: "bytes \<Rightarrow> regular_data option"
  sv_unborsh_signed :: "bytes \<Rightarrow> signed_data option"
  sv_unborsh_payload :: "bytes \<Rightarrow> solana_payload option"
  sv_borsh_log :: "bridge_log \<Rightarrow> bytes option"
  sv_unbase64 :: "string \<Rightarrow> bytes option"
  sv_self_replace :: "string \<Rightarrow> self_replace option"
  sv_set :: "string \<Rightarrow> validator_set option"
  sv_git_rev :: string

record ix_context =
  cx_program_id :: pubkey
  cx_accounts :: "account_ref list"

section \<open>Account checks (solbox)\<close>

record account_req =
  rq_signer :: bool
  rq_writable :: bool
  rq_executable :: bool

definition any_req :: account_req where
  "any_req = \<lparr>rq_signer = False, rq_writable = False, rq_executable = False\<rparr>"

definition signer_req :: account_req where
  "signer_req = any_req\<lparr>rq_signer := True\<rparr>"

definition writable_req :: account_req where
  "writable_req = any_req\<lparr>rq_writable := True\<rparr>"

definition at_index :: "ix_context \<Rightarrow> nat \<Rightarrow> program_error + account_ref" where
  "at_index cx i = (if i < length (cx_accounts cx) then Inr (cx_accounts cx ! i) else Inl (ProgramPanic ''index out of bounds''))"

definition ctx_account :: "ledger \<Rightarrow> ix_context \<Rightarrow> nat \<Rightarrow> account_req \<Rightarrow> program_error + account_ref" where
  "ctx_account l cx i req =
     rbind (at_index cx i) (\<lambda>acc.
       if (rq_signer req \<and> \<not> ar_signer acc) \<or> (rq_writable req \<and> \<not> ar_writable acc) \<or>
          (rq_executable req \<and> \<not> at_executable (l (ar_key acc)))
       then Inl InvalidArgument else Inr acc)"

definition assert_accounts_len :: "ix_context \<Rightarrow> nat \<Rightarrow> program_error + unit" where
  "assert_accounts_len cx n = ensure (length (cx_accounts cx) = n) NotEnoughAccountKeys"

definition assert_is_system_program :: "svm \<Rightarrow> ix_context \<Rightarrow> nat \<Rightarrow> program_error + account_ref" where
  "assert_is_system_program V cx i =
     rbind (at_index cx i) (\<lambda>acc. if ar_key acc \<noteq> sv_system_program V then Inl InvalidArgument else Inr acc)"

definition assert_is_token_program :: "svm \<Rightarrow> ix_context \<Rightarrow> nat \<Rightarrow> program_error + account_ref" where
  "assert_is_token_program V cx i =
     rbind (at_index cx i) (\<lambda>acc.
       if ar_key acc \<noteq> sv_token V \<and> ar_key acc \<noteq> sv_token2022 V then Inl InvalidArgument else Inr acc)"

definition max_one :: "u64 \<Rightarrow> u64" where
  "max_one w = (if w = 0 then 1 else w)"

definition saturating_sub :: "u64 \<Rightarrow> u64 \<Rightarrow> u64" where
  "saturating_sub a b = (if a \<le> b then 0 else a - b)"

text \<open>\<open>init_pda\<close>, \<open>load_pda\<close> and how PDA data is laid out: a discriminator, the bump, the borsh bytes.  The
  derivations of this program carry no bump.\<close>

definition init_pda ::
  "svm \<Rightarrow> ix_context \<Rightarrow> account_ref \<Rightarrow> account_ref \<Rightarrow> bytes list \<Rightarrow> nat \<Rightarrow> ledger \<Rightarrow> program_error + (u8 \<times> ledger)" where
  "init_pda V cx payer pda seeds data_size l =
     (if at_owner (l (ar_key pda)) = cx_program_id cx then Inl AccountAlreadyInitialized
      else let (address, bump) = sv_find_pda V seeds (cx_program_id cx) in
      rbind (ensure (ar_key pda = address) InvalidArgument) (\<lambda>_.
      rbind (sv_minimum_balance V) (\<lambda>minimum_balance.
      let space = data_size + 2; signer = seeds @ [[bump]]; existing = at_lamports (l (ar_key pda)) in
      if existing = 0
      then rbind (sv_create_account V (ar_key payer) (ar_key pda) (max_one (minimum_balance space)) space
             (cx_program_id cx) signer l) (\<lambda>l'. Inr (bump, l'))
      else let required = saturating_sub (max_one (minimum_balance space)) existing in
        rbind (if 0 < required then sv_transfer V (ar_key payer) (ar_key pda) required l else Inr l) (\<lambda>l1.
        rbind (sv_allocate V (ar_key pda) space signer l1) (\<lambda>l2.
        rbind (sv_assign V (ar_key pda) (cx_program_id cx) signer l2) (\<lambda>l3. Inr (bump, l3)))))))"

definition serialize_into :: "u8 \<Rightarrow> u8 \<Rightarrow> bytes \<Rightarrow> account_ref \<Rightarrow> ledger \<Rightarrow> program_error + ledger" where
  "serialize_into discriminator bump bs acc l =
     (let a = l (ar_key acc); n = length (at_data a) in
      if n < 2 then Inl AccountDataTooSmall
      else if n < length bs + 2 then Inl BorshIoError
      else Inr (l(ar_key acc := a\<lparr>at_data := discriminator # bump # bs @ drop (length bs + 2) (at_data a)\<rparr>)))"

definition deserialize_from :: "u8 \<Rightarrow> (bytes \<Rightarrow> 'a option) \<Rightarrow> account_ref \<Rightarrow> ledger \<Rightarrow> program_error + (u8 \<times> 'a)" where
  "deserialize_from discriminator unborsh acc l =
     (case at_data (l (ar_key acc)) of
        d # bump # bs \<Rightarrow>
          rbind (ensure (d = discriminator) InvalidAccountData) (\<lambda>_.
          rbind (ok_or (unborsh bs) BorshIoError) (\<lambda>x. Inr (bump, x)))
      | _ \<Rightarrow> Inl AccountDataTooSmall)"

definition load_pda ::
  "svm \<Rightarrow> ix_context \<Rightarrow> u8 \<Rightarrow> (bytes \<Rightarrow> 'a option) \<Rightarrow> account_ref \<Rightarrow> bytes list \<Rightarrow> ledger \<Rightarrow> program_error + (u8 \<times> 'a)" where
  "load_pda V cx discriminator unborsh pda seeds l =
     (let a = l (ar_key pda) in
      if at_owner a \<noteq> cx_program_id cx \<or> at_data a = [] then Inl UninitializedAccount
      else rbind (ensure (at_lamports a \<noteq> 0) (ProgramPanic ''assert!'')) (\<lambda>_.
        rbind (deserialize_from discriminator unborsh pda l) (\<lambda>(bump, x).
        rbind (sv_create_pda V (seeds @ [[bump]]) (cx_program_id cx)) (\<lambda>address.
        rbind (ensure (ar_key pda = address) InvalidArgument) (\<lambda>_. Inr (bump, x))))))"

definition serialize_into_growable ::
  "svm \<Rightarrow> u8 \<Rightarrow> u8 \<Rightarrow> bytes \<Rightarrow> account_ref \<Rightarrow> account_ref \<Rightarrow> (nat \<Rightarrow> u64) \<Rightarrow> ledger \<Rightarrow> program_error + ledger" where
  "serialize_into_growable V discriminator bump bs acc payer minimum_balance l =
     (let data_size = length bs + 2; a = l (ar_key acc); n = length (at_data a) in
      if n = 0 then Inl UninitializedAccount
      else if data_size \<le> n
      then Inr (l(ar_key acc := a\<lparr>at_data := discriminator # bump # bs @ drop data_size (at_data a)\<rparr>))
      else let needed_space = data_size - n;
               required = saturating_sub (max_one (minimum_balance needed_space)) (at_lamports a) in
        rbind (if 0 < required then sv_transfer V (ar_key payer) (ar_key acc) required l else Inr l) (\<lambda>l1.
        rbind (sv_resize V data_size (l1 (ar_key acc))) (\<lambda>a1.
          Inr (l1(ar_key acc := a1\<lparr>at_data := discriminator # bump # bs @ drop data_size (at_data a1)\<rparr>)))))"

definition load_or_init_pda ::
  "svm \<Rightarrow> ix_context \<Rightarrow> account_ref \<Rightarrow> account_ref \<Rightarrow> u8 \<Rightarrow> (bytes \<Rightarrow> 'a option) \<Rightarrow> bytes list \<Rightarrow> bytes \<Rightarrow> ledger \<Rightarrow>
    program_error + (u8 \<times> bool \<times> ledger)" where
  "load_or_init_pda V cx payer pda discriminator unborsh seeds new l =
     (if at_owner (l (ar_key pda)) = cx_program_id cx
      then rbind (load_pda V cx discriminator unborsh pda seeds l) (\<lambda>(bump, _). Inr (bump, False, l))
      else rbind (init_pda V cx payer pda seeds (length new) l) (\<lambda>(bump, l'). Inr (bump, True, l')))"

section \<open>Signatures\<close>

definition be_word :: "bytes \<Rightarrow> nat \<Rightarrow> u64" where
  "be_word bs offset = of_le_bytes (rev (take 8 (drop offset bs)))"

definition sig_is_normalized :: "signature \<Rightarrow> bool" where
  "sig_is_normalized s =
     (let a3 = be_word (sig_bytes s) 32; a2 = be_word (sig_bytes s) 40;
          a1 = be_word (sig_bytes s) 48; a0 = be_word (sig_bytes s) 56
      in if a0 = 0 \<and> a1 = 0 \<and> a2 = 0 \<and> a3 = 0 then False
         else
           (if a3 < 0xffffffffffffffff then True
            else if a2 < 0xfffffffffffffffe then True
            else if a2 > 0xfffffffffffffffe then False
            else if a1 < 0xbaaedce6af48a03b then True
            else if a1 > 0xbaaedce6af48a03b then False
            else a0 < 0xbfd25e8cd0364141) \<and>
           (if a3 < 0x7fffffffffffffff then True
            else if a3 > 0x7fffffffffffffff then False
            else if a2 < 0xffffffffffffffff then True
            else if a1 < 0x5d576e7357a4501d then True
            else if a1 > 0x5d576e7357a4501d then False
            else a0 \<le> 0xdfe92f46681b20a0))"

definition y_parity :: "bytes \<Rightarrow> u8" where
  "y_parity uncompressed = (if uncompressed ! 63 AND 1 = 1 then 3 else 2)"

definition to_sec1_bytes :: "bytes \<Rightarrow> public_key" where
  "to_sec1_bytes uncompressed = PublicKey (y_parity uncompressed # take 32 uncompressed)"

definition secp256k1_recover :: "svm \<Rightarrow> bytes \<Rightarrow> sigrec \<Rightarrow> program_error + bytes" where
  "secp256k1_recover V hash s =
     (if \<not> sig_is_normalized (sig s) then Inl (ProgramCustom 1003)
      else case sv_recover V hash (ucast (recid s)) (sig_bytes (sig s)) of
        Inr key \<Rightarrow> Inr key
      | Inl errno \<Rightarrow>
          if errno = 1 then Inl (ProgramCustom 1000) else if errno = 2 then Inl (ProgramCustom 1001)
          else if errno = 3 then Inl (ProgramCustom 1002) else Inl (ProgramPanic ''Unsupported Secp256k1RecoverError''))"

definition solana_signer :: "svm \<Rightarrow> bytes \<Rightarrow> sigrec \<Rightarrow> program_error + public_key" where
  "solana_signer V hash s = rbind (secp256k1_recover V hash s) (\<lambda>key. Inr (to_sec1_bytes key))"

fun is_distinct :: "public_key list \<Rightarrow> bool" where
  "is_distinct [] = True"
| "is_distinct (key # keys) = (if key \<in> set keys then False else is_distinct keys)"

definition verify_signatures ::
  "svm \<Rightarrow> bytes \<Rightarrow> sigrec \<Rightarrow> sigrec list \<Rightarrow> signers \<Rightarrow> program_error + unit" where
  "verify_signatures V hash proc_sig approver_sigs expected =
     rbind (solana_signer V hash proc_sig) (\<lambda>key.
     rbind (ensure (key = sg_processor expected) (ProgramCustom 2)) (\<lambda>_.
     rbind (rmap (solana_signer V hash) approver_sigs) (\<lambda>recovered.
     let keys = filter (\<lambda>k. k \<in> set (sg_approvers expected)) recovered in
     rbind (ensure (is_distinct keys) (ProgramCustom 1)) (\<lambda>_.
       ensure (\<not> length keys < unat (sg_needed expected)) (ProgramCustom 0)))))"

section \<open>Tokens\<close>

definition ata_data :: "svm \<Rightarrow> account_ref \<Rightarrow> ledger \<Rightarrow> program_error + token_account" where
  "ata_data V acc l =
     (let a = l (ar_key acc) in
      if length (at_data a) < 165 then Inl InvalidAccountData
      else if at_owner a \<noteq> sv_token V \<and> at_owner a \<noteq> sv_token2022 V then Inl InvalidAccountData
      else Inr (sv_token_account V (take 165 (at_data a))))"

definition mint_decimals :: "svm \<Rightarrow> account_ref \<Rightarrow> ledger \<Rightarrow> program_error + u8" where
  "mint_decimals V acc l =
     (let a = l (ar_key acc) in
      if length (at_data a) \<noteq> 82 then Inl InvalidAccountData
      else if at_owner a \<noteq> sv_token V \<and> at_owner a \<noteq> sv_token2022 V then Inl InvalidAccountData
      else Inr (sv_mint_decimals V (at_data a)))"

definition execute_transfer ::
  "svm \<Rightarrow> account_ref \<Rightarrow> account_ref \<Rightarrow> account_ref \<Rightarrow> account_ref \<Rightarrow> u64 \<Rightarrow> u8 \<Rightarrow> pubkey \<Rightarrow> ledger \<Rightarrow>
    program_error + ledger" where
  "execute_transfer V src mint_acc dest authority amount decimals token_program =
     sv_invoke V \<lparr>in_program_id = token_program,
       in_accounts = [\<lparr>am_pubkey = ar_key src, am_writable = True, am_signer = False\<rparr>,
         \<lparr>am_pubkey = ar_key mint_acc, am_writable = False, am_signer = False\<rparr>,
         \<lparr>am_pubkey = ar_key dest, am_writable = True, am_signer = False\<rparr>,
         \<lparr>am_pubkey = ar_key authority, am_writable = False, am_signer = True\<rparr>],
       in_data = 12 # to_le_bytes amount @ [decimals]\<rparr> [src, mint_acc, dest, authority] None"

definition state_seeds :: "bytes list" where
  "state_seeds = [str_bytes ''state'']"

text \<open>One deposit of \<open>regular\<close>: four accounts from \<open>index\<close> on.\<close>

definition regular_transfer ::
  "svm \<Rightarrow> ix_context \<Rightarrow> account_ref \<Rightarrow> nat \<Rightarrow> u64 \<Rightarrow> ledger \<Rightarrow> program_error + (token \<times> ledger)" where
  "regular_transfer V cx sender index amount l =
     rbind (ctx_account l cx index any_req) (\<lambda>mint_acc.
     rbind (ctx_account l cx (index + 1) writable_req) (\<lambda>sender_ata_acc.
     rbind (ctx_account l cx (index + 2) writable_req) (\<lambda>holder_acc.
     rbind (ctx_account l cx (index + 3) writable_req) (\<lambda>holder_ata_acc.
     let owner = \<lambda>acc. at_owner (l (ar_key acc)); token_program = owner mint_acc in
     rbind (ensure (\<not> (token_program \<noteq> sv_token V \<and> token_program \<noteq> sv_token2022 V)) IllegalOwner) (\<lambda>_.
     rbind (ensure (ar_key holder_ata_acc = fst (sv_find_pda V [ar_key holder_acc, token_program, ar_key mint_acc] (sv_ata_program V)))
       InvalidArgument) (\<lambda>_.
     rbind (ensure (owner holder_ata_acc = owner mint_acc) IllegalOwner) (\<lambda>_.
     rbind (ensure (owner sender_ata_acc = owner mint_acc) IllegalOwner) (\<lambda>_.
     rbind (ata_data V sender_ata_acc l) (\<lambda>sender_ata.
     rbind (ensure (\<not> (ta_mint sender_ata \<noteq> ar_key mint_acc \<or> ta_owner sender_ata \<noteq> ar_key sender)) (ProgramCustom 0)) (\<lambda>_.
     rbind (load_or_init_pda V cx sender holder_acc 1 (sv_unborsh_unit V) (token_holder_seeds (ar_key mint_acc)) (sv_borsh_unit V) l)
       (\<lambda>(bump, was_init, l1).
     rbind (if was_init then serialize_into 1 bump (sv_borsh_unit V) holder_acc l1 else Inr l1) (\<lambda>l2.
     rbind (ata_data V holder_ata_acc l2) (\<lambda>holder_ata.
     rbind (ensure (\<not> (ta_close_authority holder_ata \<or> ta_delegate holder_ata)) (ProgramCustom 2)) (\<lambda>_.
     rbind (ensure (\<not> (ta_mint holder_ata \<noteq> ar_key mint_acc \<or> ta_owner holder_ata \<noteq> ar_key holder_acc)) (ProgramCustom 3)) (\<lambda>_.
     rbind (mint_decimals V mint_acc l2) (\<lambda>decimals.
     rbind (execute_transfer V sender_ata_acc mint_acc holder_ata_acc sender amount decimals token_program l2) (\<lambda>l3.
       Inr (\<lparr>tk_mint = ar_key mint_acc, tk_amount = amount\<rparr>, l3))))))))))))))))))"

fun regular_transfers ::
  "svm \<Rightarrow> ix_context \<Rightarrow> account_ref \<Rightarrow> nat \<Rightarrow> u64 list \<Rightarrow> ledger \<Rightarrow> program_error + (token list \<times> ledger)" where
  "regular_transfers V cx sender index [] l = Inr ([], l)"
| "regular_transfers V cx sender index (amount # amounts) l =
     rbind (regular_transfer V cx sender index amount l) (\<lambda>(tok, l1).
     rbind (regular_transfers V cx sender (index + 4) amounts l1) (\<lambda>(toks, l2). Inr (tok # toks, l2)))"

section \<open>Instructions\<close>

type_synonym program_result = "program_error + (ledger \<times> bridge_log list)"

definition emit_log :: "svm \<Rightarrow> bridge_log \<Rightarrow> ledger \<Rightarrow> program_result" where
  "emit_log V ev l = rbind (ok_or (sv_borsh_log V ev) BorshIoError) (\<lambda>_. Inr (l, [ev]))"

definition solana_initialize :: "svm \<Rightarrow> ix_context \<Rightarrow> bytes \<Rightarrow> ledger \<Rightarrow> program_result" where
  "solana_initialize V cx data l =
     rbind (assert_accounts_len cx 6) (\<lambda>_.
     rbind (ctx_account l cx 0 signer_req) (\<lambda>payer.
     rbind (assert_is_system_program V cx 1) (\<lambda>_.
     rbind (ctx_account l cx 2 writable_req) (\<lambda>state_acc.
     rbind (ctx_account l cx 3 writable_req) (\<lambda>git_rev_acc.
     rbind (ctx_account l cx 4 writable_req) (\<lambda>authority_acc.
     rbind (ctx_account l cx 5 any_req) (\<lambda>program_data_acc.
     rbind (ok_or (sv_unborsh_init V data) BorshIoError) (\<lambda>vs.
     rbind (case (validate_set vs :: unit kerr + unit) of Inl _ \<Rightarrow> Inl (ProgramCustom 0) | Inr _ \<Rightarrow> Inr ()) (\<lambda>_.
     let state = sv_borsh_state V \<lparr>ct_set = vs, ct_next_event_id = 1, ct_next_action_id = 0\<rparr> in
     rbind (init_pda V cx payer state_acc state_seeds (length state) l) (\<lambda>(bump, l1).
     rbind (serialize_into 0 bump state state_acc l1) (\<lambda>l2.
     let rev = sv_borsh_git_rev V (sv_git_rev V) in
     rbind (init_pda V cx payer git_rev_acc [str_bytes ''git_rev''] (length rev) l2) (\<lambda>(bump, l3).
     rbind (serialize_into 2 bump rev git_rev_acc l3) (\<lambda>l4.
     rbind (ensure (ar_key program_data_acc = fst (sv_find_pda V [cx_program_id cx] (sv_loader V))) InvalidAccountData) (\<lambda>_.
     rbind (ensure (at_owner (l4 (ar_key program_data_acc)) = sv_loader V) InvalidAccountOwner) (\<lambda>_.
     rbind (ok_or (sv_loader_state V (at_data (l4 (ar_key program_data_acc)))) InvalidAccountData) (\<lambda>loader.
     rbind (case loader of LoaderProgramData _ authority \<Rightarrow> Inr authority | _ \<Rightarrow> Inl (ProgramCustom 1)) (\<lambda>authority.
     rbind (init_pda V cx payer authority_acc [str_bytes ''upgrade_auth''] (length (sv_borsh_unit V)) l4) (\<lambda>(bump, l5).
     rbind (serialize_into 3 bump (sv_borsh_unit V) authority_acc l5) (\<lambda>l6.
     rbind (ensure (authority = Some (ar_key authority_acc)) (ProgramCustom 2)) (\<lambda>_.
       Inr (l6, [])))))))))))))))))))))"

definition regular_accounts ::
  "svm \<Rightarrow> ix_context \<Rightarrow> u64 list \<Rightarrow> ledger \<Rightarrow> program_error + (account_ref \<times> account_ref \<times> token list \<times> ledger)" where
  "regular_accounts V cx amounts l =
     (let n = length (cx_accounts cx) in
      if n = 2
      then rbind (ctx_account l cx 0 signer_req) (\<lambda>sender.
           rbind (ctx_account l cx 1 writable_req) (\<lambda>state_acc. Inr (sender, state_acc, [], l)))
      else if n < 8 then Inl NotEnoughAccountKeys
      else rbind (ctx_account l cx 0 signer_req) (\<lambda>sender.
           rbind (ctx_account l cx 1 writable_req) (\<lambda>state_acc.
           rbind (assert_is_system_program V cx 2) (\<lambda>_.
           rbind (assert_is_token_program V cx 3) (\<lambda>_.
           rbind (ensure ((n - 4) mod 4 = 0) NotEnoughAccountKeys) (\<lambda>_.
           rbind (ensure (length amounts = (n - 4) div 4) (ProgramCustom 1)) (\<lambda>_.
           rbind (regular_transfers V cx sender 4 amounts l) (\<lambda>(funds, l').
             Inr (sender, state_acc, funds, l')))))))))"

definition check_solana_registration :: "svm \<Rightarrow> bytes \<Rightarrow> key_registration \<Rightarrow> program_error + unit" where
  "check_solana_registration V hash r =
     rbind (solana_signer V hash (kg_signature r)) (\<lambda>recovered.
       ensure (recovered = kg_key r) (ProgramCustom 4))"

definition checked_inc :: "'a::len word \<Rightarrow> program_error + 'a word" where
  "checked_inc w = (if w + 1 = 0 then Inl (ProgramPanic ''attempt to add with overflow'') else Inr (w + 1))"

definition solana_regular :: "svm \<Rightarrow> ix_context \<Rightarrow> bytes \<Rightarrow> ledger \<Rightarrow> program_result" where
  "solana_regular V cx bs l =
     rbind (ok_or (sv_unborsh_regular V bs) BorshIoError) (\<lambda>data.
     rbind (regular_accounts V cx (rd_transfer_amounts data) l) (\<lambda>(sender, state_acc, funds, l1).
     rbind (rfold (\<lambda>r _. check_solana_registration V (ar_key sender) r) (rd_keys data) ()) (\<lambda>_.
     rbind (load_pda V cx 0 (sv_unborsh_state V) state_acc state_seeds l1) (\<lambda>(bump, s).
     rbind (checked_inc (ct_next_event_id s)) (\<lambda>next_event.
     rbind (serialize_into 0 bump (sv_borsh_state V (s\<lparr>ct_next_event_id := next_event\<rparr>)) state_acc l1) (\<lambda>l2.
       emit_log V (BridgeRegular (ct_next_event_id s) (ar_key sender) funds (map kg_key (rd_keys data))) l2))))))"

definition execute_action :: "svm \<Rightarrow> solana_execute \<Rightarrow> account_ref list \<Rightarrow> ledger \<Rightarrow> program_error + ledger" where
  "execute_action V action ix_accounts l =
     (if length (se_accounts action) \<noteq> length ix_accounts then Inl (ProgramCustom 4)
      else sv_invoke V
        \<lparr>in_program_id = se_program_id action,
         in_accounts = map (\<lambda>(i, a). \<lparr>am_pubkey = fst a, am_writable = snd a,
            am_signer = (case se_signer action of None \<Rightarrow> False | Some x \<Rightarrow> unat (sa_index x) = i)\<rparr>)
            (enumerate 0 (se_accounts action)),
         in_data = se_instruction_data action\<rparr>
        ix_accounts (map_option sa_seeds (se_signer action)) l)"

definition solana_count_approval ::
  "svm \<Rightarrow> bytes \<Rightarrow> validator_set \<Rightarrow> sigrec \<Rightarrow> tally \<Rightarrow> program_error + tally" where
  "solana_count_approval V hash vs s t =
     rbind (solana_signer V hash s) (\<lambda>validator.
     rbind (ensure (\<not> (processor vs = validator \<and> tl_processor t)) (ProgramPanic ''assert!(!processor)'')) (\<lambda>_.
     rbind (if validator \<in> set (listeners vs) then checked_inc (tl_listeners t) else Inr (tl_listeners t)) (\<lambda>ls.
     rbind (if validator \<in> set (approvers vs) then checked_inc (tl_approvers t) else Inr (tl_approvers t)) (\<lambda>aps.
       Inr \<lparr>tl_processor = (tl_processor t \<or> processor vs = validator), tl_listeners = ls, tl_approvers = aps,
         tl_used = tl_used t @ [validator]\<rparr>))))"

definition solana_self_replace ::
  "svm \<Rightarrow> bytes \<Rightarrow> signed_data \<Rightarrow> public_key \<Rightarrow> self_replace \<Rightarrow> validator_set \<Rightarrow> program_error + validator_set" where
  "solana_self_replace V hash data validator sr vs =
     (let repl = replacement sr in
      case validator_type sr of
        ProcessorType \<Rightarrow>
          if validator \<noteq> processor vs then Inl (ProgramCustom 6)
          else rbind (verify_signatures V hash (sd_processor data) (sd_approvers data) (signers_of vs\<lparr>sg_processor := repl\<rparr>))
            (\<lambda>_. Inr (vs\<lparr>processor := repl\<rparr>))
      | ListenerType \<Rightarrow>
          if validator \<notin> set (listeners vs) \<or> repl \<in> set (listeners vs) then Inl (ProgramCustom 6)
          else rbind (verify_signatures V hash (sd_processor data) (sd_approvers data) (signers_of vs))
            (\<lambda>_. Inr (vs\<lparr>listeners := os_insert repl (os_remove validator (listeners vs))\<rparr>))
      | ApproverType \<Rightarrow>
          if validator \<notin> set (approvers vs) \<or> repl \<in> set (approvers vs) then Inl (ProgramCustom 6)
          else let vs' = vs\<lparr>approvers := os_insert repl (os_remove validator (approvers vs))\<rparr> in
            rbind (verify_signatures V hash (sd_processor data) (sd_approvers data) (signers_of vs')) (\<lambda>_. Inr vs'))"

definition solana_new_set ::
  "svm \<Rightarrow> bytes \<Rightarrow> signed_data \<Rightarrow> string \<Rightarrow> sigrec list \<Rightarrow> validator_set \<Rightarrow> program_error + validator_set" where
  "solana_new_set V hash data rendered approvals vs =
     rbind (ok_or (sv_set V rendered) (ProgramCustom 7)) (\<lambda>new_set.
     rbind (rfold (solana_count_approval V (sv_sha V (str_bytes rendered)) vs) approvals no_tally) (\<lambda>t.
     rbind (ensure (is_distinct (tl_used t)) (ProgramCustom 1)) (\<lambda>_.
     rbind (ensure (2 \<le> groups_approving vs t) (ProgramCustom 0)) (\<lambda>_.
     rbind (verify_signatures V hash (sd_processor data) (sd_approvers data) (signers_of new_set)) (\<lambda>_.
       Inr new_set)))))"

fun solana_apply ::
  "svm \<Rightarrow> ix_context \<Rightarrow> bytes \<Rightarrow> signed_data \<Rightarrow> solana_action \<Rightarrow> validator_set \<Rightarrow> ledger \<Rightarrow> program_error + (validator_set \<times> ledger)" where
  "solana_apply V cx hash data (SolExecute action) vs l =
     rbind (verify_signatures V hash (sd_processor data) (sd_approvers data) (signers_of vs)) (\<lambda>_.
     rbind (ensure (\<not> length (cx_accounts cx) < 3 + 1) NotEnoughAccountKeys) (\<lambda>_.
     rbind (execute_action V action (drop (3 + 1) (cx_accounts cx)) l) (\<lambda>l'. Inr (vs, l'))))"
| "solana_apply V cx hash data (SolSelfReplace rendered signature) vs l =
     rbind (ok_or (sv_self_replace V rendered) (ProgramCustom 7)) (\<lambda>sr.
     rbind (solana_signer V (sv_sha V (str_bytes rendered)) signature) (\<lambda>validator.
     rbind (solana_self_replace V hash data validator sr vs) (\<lambda>vs'. Inr (vs', l))))"
| "solana_apply V cx hash data (SolNewSet rendered approvals) vs l =
     rbind (solana_new_set V hash data rendered approvals vs) (\<lambda>vs'. Inr (vs', l))"

definition solana_signed :: "svm \<Rightarrow> ix_context \<Rightarrow> bytes \<Rightarrow> ledger \<Rightarrow> program_result" where
  "solana_signed V cx bs l =
     rbind (ensure (\<not> length (cx_accounts cx) < 3) NotEnoughAccountKeys) (\<lambda>_.
     rbind (ctx_account l cx 0 signer_req) (\<lambda>sender.
     rbind (ctx_account l cx 1 writable_req) (\<lambda>state_acc.
     rbind (assert_is_system_program V cx 2) (\<lambda>_.
     rbind (ok_or (sv_unborsh_signed V bs) BorshIoError) (\<lambda>data.
     rbind (load_pda V cx 0 (sv_unborsh_state V) state_acc state_seeds l) (\<lambda>(bump, s).
     rbind (ok_or (sv_unbase64 V (sd_payload data)) (ProgramCustom 5)) (\<lambda>payload_bytes.
     rbind (ok_or (sv_unborsh_payload V payload_bytes) BorshIoError) (\<lambda>payload.
     rbind (ensure (sol_id payload = ct_next_action_id s) (ProgramCustom 3)) (\<lambda>_.
     rbind (checked_inc (ct_next_action_id s)) (\<lambda>next_action.
     rbind (checked_inc (ct_next_event_id s)) (\<lambda>next_event.
     let hash = sv_sha V (str_bytes (sd_payload data)) in
     rbind (solana_apply V cx hash data (sol_action payload) (ct_set s) l) (\<lambda>(vs, l1).
     rbind (sv_minimum_balance V) (\<lambda>minimum_balance.
     rbind (serialize_into_growable V 0 bump
         (sv_borsh_state V \<lparr>ct_set = vs, ct_next_event_id = next_event, ct_next_action_id = next_action\<rparr>)
         state_acc sender minimum_balance l1) (\<lambda>l2.
       emit_log V (BridgeSigned (ct_next_event_id s) (ar_key sender) (sol_id payload)) l2))))))))))))))"

definition process_instruction :: "svm \<Rightarrow> ix_context \<Rightarrow> bytes \<Rightarrow> ledger \<Rightarrow> program_result" where
  "process_instruction V cx bs l =
     (case bs of
        [] \<Rightarrow> Inl InvalidInstructionData
      | ix # data \<Rightarrow>
          if ix = 0 then solana_initialize V cx data l
          else if ix = 1 then solana_regular V cx data l
          else if ix = 2 then solana_signed V cx data l
          else Inr (l, []))"

end
