(* ===== verification/Bridge_Contracts.thy ===== *)
theory Bridge_Contracts
  imports Solana_Program
begin

text \<open>
  What a bridge contract promises, and that both contracts keep it.

  \<open>bridge_accepts\<close> is the contract of \<open>signed\<close>: the next action id, a change of the validator set that is
  allowed, and signatures of the processor and a quorum of approvers of the set \<^emph>\<open>after\<close> the change.  The
  Cosmos contract and the Solana program are two implementations of it.
\<close>

section \<open>The specification\<close>

datatype bridge_change =
    KeepSet
  | ReplaceKey validator_type public_key public_key
  | InstallSet validator_set "public_key list"

definition key_replace :: "public_key \<Rightarrow> public_key \<Rightarrow> public_key list \<Rightarrow> public_key list option" where
  "key_replace old new ks = (if old \<in> set ks \<and> new \<notin> set ks then Some (os_insert new (os_remove old ks)) else None)"

definition group_votes :: "validator_set \<Rightarrow> public_key list \<Rightarrow> nat" where
  "group_votes vs ks =
     of_bool (processor vs \<in> set ks) +
     of_bool (unat (needed_listeners vs) \<le> length (filter (\<lambda>k. k \<in> set (listeners vs)) ks)) +
     of_bool (unat (needed_approvers vs) \<le> length (filter (\<lambda>k. k \<in> set (approvers vs)) ks))"

fun set_after :: "validator_set \<Rightarrow> bridge_change \<Rightarrow> validator_set option" where
  "set_after vs KeepSet = Some vs"
| "set_after vs (ReplaceKey ListenerType old new) =
     map_option (\<lambda>ks. vs\<lparr>listeners := ks\<rparr>) (key_replace old new (listeners vs))"
| "set_after vs (ReplaceKey ProcessorType old new) = (if old = processor vs then Some (vs\<lparr>processor := new\<rparr>) else None)"
| "set_after vs (ReplaceKey ApproverType old new) =
     map_option (\<lambda>ks. vs\<lparr>approvers := ks\<rparr>) (key_replace old new (approvers vs))"
| "set_after vs (InstallSet new ks) = (if distinct ks \<and> 2 \<le> group_votes vs ks then Some new else None)"

definition quorum_signed :: "signers \<Rightarrow> public_key \<Rightarrow> public_key list \<Rightarrow> bool" where
  "quorum_signed sg p ks \<longleftrightarrow>
     (let members = filter (\<lambda>k. k \<in> set (sg_approvers sg)) ks in
      p = sg_processor sg \<and> distinct members \<and> unat (sg_needed sg) \<le> length members)"

definition bridge_accepts ::
  "contract_state \<Rightarrow> u64 \<Rightarrow> bridge_change \<Rightarrow> public_key \<Rightarrow> public_key list \<Rightarrow> contract_state option" where
  "bridge_accepts s i change p ks =
     (if i \<noteq> ct_next_action_id s then None
      else case set_after (ct_set s) change of
        None \<Rightarrow> None
      | Some vs \<Rightarrow>
          if quorum_signed (signers_of vs) p ks
          then Some \<lparr>ct_set = vs, ct_next_event_id = ct_next_event_id s + 1, ct_next_action_id = i + 1\<rparr>
          else None)"

text \<open>What a call to the Cosmos contract says: the payload's id, the change it asks for, who signed.\<close>

fun cosmos_change :: "'v cosmos_api \<Rightarrow> cosmos_action \<Rightarrow> contract_error + bridge_change" where
  "cosmos_change A (CosmosMsgs messages) = Inr KeepSet"
| "cosmos_change A (CosmosSelfReplace rendered signature) =
     rbind (cosmos_signer A (ca_sha A (str_bytes rendered)) signature) (\<lambda>old.
     rbind (ok_or (ca_self_replace A rendered) (CcStd ''from_json'')) (\<lambda>sr.
       Inr (ReplaceKey (validator_type sr) old (replacement sr))))"
| "cosmos_change A (CosmosNewSet rendered approvals) =
     rbind (ok_or (ca_set A rendered) (CcStd ''from_json'')) (\<lambda>new.
     rbind (rmap (cosmos_signer A (ca_sha A (str_bytes rendered))) approvals) (\<lambda>ks. Inr (InstallSet new ks)))"

definition cosmos_call ::
  "'v cosmos_api \<Rightarrow> sigrec \<Rightarrow> sigrec list \<Rightarrow> string \<Rightarrow> contract_error + (u64 \<times> bridge_change \<times> public_key \<times> public_key list)" where
  "cosmos_call A proc_sig approver_sigs payload =
     rbind (ok_or (ca_payload A payload) (CcStd ''from_json'')) (\<lambda>(i, action).
     rbind (cosmos_change A action) (\<lambda>change.
     rbind (cosmos_signer A (ca_sha A (str_bytes payload)) proc_sig) (\<lambda>p.
     rbind (rmap (cosmos_signer A (ca_sha A (str_bytes payload))) approver_sigs) (\<lambda>ks. Inr (i, change, p, ks)))))"

text \<open>The same for the Solana program.\<close>

fun solana_change :: "svm \<Rightarrow> solana_action \<Rightarrow> program_error + bridge_change" where
  "solana_change V (SolExecute action) = Inr KeepSet"
| "solana_change V (SolSelfReplace rendered signature) =
     rbind (ok_or (sv_self_replace V rendered) (ProgramCustom 7)) (\<lambda>sr.
     rbind (solana_signer V (sv_sha V (str_bytes rendered)) signature) (\<lambda>old.
       Inr (ReplaceKey (validator_type sr) old (replacement sr))))"
| "solana_change V (SolNewSet rendered approvals) =
     rbind (ok_or (sv_set V rendered) (ProgramCustom 7)) (\<lambda>new.
     rbind (rmap (solana_signer V (sv_sha V (str_bytes rendered))) approvals) (\<lambda>ks. Inr (InstallSet new ks)))"

definition solana_call :: "svm \<Rightarrow> signed_data \<Rightarrow> program_error + (u64 \<times> bridge_change \<times> public_key \<times> public_key list)" where
  "solana_call V data =
     rbind (ok_or (sv_unbase64 V (sd_payload data)) (ProgramCustom 5)) (\<lambda>payload_bytes.
     rbind (ok_or (sv_unborsh_payload V payload_bytes) BorshIoError) (\<lambda>payload.
     rbind (solana_change V (sol_action payload)) (\<lambda>change.
     rbind (solana_signer V (sv_sha V (str_bytes (sd_payload data))) (sd_processor data)) (\<lambda>p.
     rbind (rmap (solana_signer V (sv_sha V (str_bytes (sd_payload data)))) (sd_approvers data)) (\<lambda>ks.
       Inr (sol_id payload, change, p, ks))))))"

lemma bridge_accepts_iff:
  "bridge_accepts s i change p ks = Some s' \<longleftrightarrow> i = ct_next_action_id s \<and>
    (\<exists>vs. set_after (ct_set s) change = Some vs \<and> quorum_signed (signers_of vs) p ks \<and>
      s' = \<lparr>ct_set = vs, ct_next_event_id = ct_next_event_id s + 1, ct_next_action_id = i + 1\<rparr>)"
  by (auto simp: bridge_accepts_def split: option.splits)

lemma cosmos_call_iff:
  "cosmos_call A ps sgs payload = Inr (i, change, p, ks) \<longleftrightarrow>
    (\<exists>action. ca_payload A payload = Some (i, action) \<and> cosmos_change A action = Inr change \<and>
      cosmos_signer A (ca_sha A (str_bytes payload)) ps = Inr p \<and>
      rmap (cosmos_signer A (ca_sha A (str_bytes payload))) sgs = Inr ks)"
  by (auto simp: cosmos_call_def result_simps)

lemma solana_call_iff:
  "solana_call V data = Inr (i, change, p, ks) \<longleftrightarrow>
    (\<exists>payload_bytes payload. sv_unbase64 V (sd_payload data) = Some payload_bytes \<and>
      sv_unborsh_payload V payload_bytes = Some payload \<and> i = sol_id payload \<and>
      solana_change V (sol_action payload) = Inr change \<and>
      solana_signer V (sv_sha V (str_bytes (sd_payload data))) (sd_processor data) = Inr p \<and>
      rmap (solana_signer V (sv_sha V (str_bytes (sd_payload data)))) (sd_approvers data) = Inr ks)"
  by (auto simp: solana_call_def result_simps)

section \<open>Collecting signatures\<close>

text \<open>Both contracts collect approver keys one signature at a time; an error stops the loop.\<close>

lemma rfold_rmap:
  "rfold (\<lambda>x t. rbind (g x) (\<lambda>k. h k t)) xs t = Inr t' \<longleftrightarrow> (\<exists>ks. rmap g xs = Inr ks \<and> rfold h ks t = Inr t')"
  by (induction xs arbitrary: t) (auto simp: result_simps)

definition take_key :: "public_key list \<Rightarrow> public_key \<Rightarrow> public_key list \<Rightarrow> contract_error + public_key list" where
  "take_key expected key used =
     (if key \<notin> set expected then Inr used else rbind (ensure (key \<notin> set used) (CcDuplicateKey key)) (\<lambda>_. Inr (used @ [key])))"

lemma take_keys:
  "distinct used \<Longrightarrow> rfold (take_key expected) ks used = Inr used' \<longleftrightarrow>
   distinct (used @ filter (\<lambda>k. k \<in> set expected) ks) \<and> used' = used @ filter (\<lambda>k. k \<in> set expected) ks"
proof (induction ks arbitrary: used)
  case (Cons k ks)
  consider "k \<notin> set expected" | "k \<in> set expected" "k \<in> set used" | "k \<in> set expected" "k \<notin> set used" by blast
  then show ?case
  proof cases
    case 1
    then have "take_key expected k used = Inr used" by (simp add: take_key_def)
    with 1 Cons.IH [OF Cons.prems] show ?thesis by simp
  next
    case 2
    then show ?thesis by (simp add: take_key_def)
  next
    case 3
    then have step: "take_key expected k used = Inr (used @ [k])" by (simp add: take_key_def)
    from 3 Cons.prems have "distinct (used @ [k])" by simp
    from step 3 Cons.IH [OF this] show ?thesis by auto
  qed
qed auto

lemma take_approvers:
  "rfold (take_approver A hash expected) sgs [] = Inr used \<longleftrightarrow>
   (\<exists>ks. rmap (cosmos_signer A hash) sgs = Inr ks \<and> distinct (filter (\<lambda>k. k \<in> set expected) ks) \<and>
      used = filter (\<lambda>k. k \<in> set expected) ks)"
proof -
  have "take_approver A hash expected = (\<lambda>s used. rbind (cosmos_signer A hash s) (\<lambda>k. take_key expected k used))"
    by (intro ext) (simp add: take_approver_def take_key_def)
  then show ?thesis by (auto simp: rfold_rmap take_keys)
qed

lemma is_distinct_iff [simp]: "is_distinct ks \<longleftrightarrow> distinct ks"
  by (induction ks) auto

lemma verified_signatures:
  "verify_signatures V hash ps sgs sg = Inr u \<longleftrightarrow>
   (\<exists>p ks. solana_signer V hash ps = Inr p \<and> rmap (solana_signer V hash) sgs = Inr ks \<and> quorum_signed sg p ks)"
  by (auto simp: verify_signatures_def quorum_signed_def result_simps Let_def not_less)

subsection \<open>Counting approvals of a new set\<close>

definition counts :: "validator_set \<Rightarrow> public_key list \<Rightarrow> tally \<Rightarrow> bool" where
  "counts vs ks t \<longleftrightarrow> tl_processor t = (processor vs \<in> set ks) \<and>
     unat (tl_listeners t) = length (filter (\<lambda>k. k \<in> set (listeners vs)) ks) \<and>
     unat (tl_approvers t) = length (filter (\<lambda>k. k \<in> set (approvers vs)) ks)"

lemma groups_approving_votes: "counts vs ks t \<Longrightarrow> 2 \<le> groups_approving vs t \<longleftrightarrow> 2 \<le> group_votes vs ks"
  by (auto simp: counts_def groups_approving_def group_votes_def word_le_nat_alt)

definition count_key :: "validator_set \<Rightarrow> public_key \<Rightarrow> tally \<Rightarrow> contract_error + tally" where
  "count_key vs k t =
     rbind (ensure (k \<notin> set (tl_used t)) (CcDuplicateKey k)) (\<lambda>_.
     rbind (ensure (\<not> (processor vs = k \<and> tl_processor t)) (CcPanic ''assert!(!processor)'')) (\<lambda>_.
       Inr (t\<lparr>tl_used := os_insert k (tl_used t), tl_processor := (tl_processor t \<or> processor vs = k),
         tl_listeners := (if k \<in> set (listeners vs) then tl_listeners t + 1 else tl_listeners t),
         tl_approvers := (if k \<in> set (approvers vs) then tl_approvers t + 1 else tl_approvers t)\<rparr>)))"

lemma unat_inc: "unat w + 1 < 2 ^ 16 \<Longrightarrow> unat (w + 1 :: u16) = unat w + 1"
  by (simp add: unat_word_ariths)

lemma counts_snoc:
  assumes "counts vs seen t" "length seen + 1 < 2 ^ 16"
    "tl_processor t' \<longleftrightarrow> tl_processor t \<or> processor vs = k"
    "tl_listeners t' = (if k \<in> set (listeners vs) then tl_listeners t + 1 else tl_listeners t)"
    "tl_approvers t' = (if k \<in> set (approvers vs) then tl_approvers t + 1 else tl_approvers t)"
  shows "counts vs (seen @ [k]) t'"
proof -
  have "length (filter P seen) + 1 < 2 ^ 16" for P
    using assms(2) length_filter_le [of P seen] by linarith
  with assms show ?thesis by (auto simp: counts_def unat_inc)
qed

lemma count_keys:
  assumes "counts vs seen t" "set (tl_used t) = set seen" "distinct (seen @ ks)" "length seen + length ks < 2 ^ 16"
  shows "\<exists>t'. rfold (count_key vs) ks t = Inr t' \<and> counts vs (seen @ ks) t'"
  using assms
proof (induction ks arbitrary: seen t)
  case (Cons k ks)
  define t1 where "t1 = t\<lparr>tl_used := os_insert k (tl_used t), tl_processor := (tl_processor t \<or> processor vs = k),
     tl_listeners := (if k \<in> set (listeners vs) then tl_listeners t + 1 else tl_listeners t),
     tl_approvers := (if k \<in> set (approvers vs) then tl_approvers t + 1 else tl_approvers t)\<rparr>"
  have "k \<notin> set (tl_used t)" "\<not> (processor vs = k \<and> tl_processor t)"
    using Cons.prems by (auto simp: counts_def)
  then have step: "count_key vs k t = Inr t1" by (simp add: count_key_def t1_def)
  have "counts vs (seen @ [k]) t1" by (rule counts_snoc) (use Cons.prems in \<open>auto simp: t1_def\<close>)
  then show ?case using Cons.IH [of "seen @ [k]" t1] Cons.prems step by (simp add: t1_def)
qed auto

lemma counted_keys_distinct:
  "rfold (count_key vs) ks t = Inr t' \<Longrightarrow> distinct ks \<and> set ks \<inter> set (tl_used t) = {}"
proof (induction ks arbitrary: t)
  case (Cons k ks)
  then obtain t1 where t1: "count_key vs k t = Inr t1" "rfold (count_key vs) ks t1 = Inr t'"
    by (auto simp: result_simps)
  from t1(1) have "k \<notin> set (tl_used t)" "set (tl_used t1) = insert k (set (tl_used t))"
    by (auto simp: count_key_def result_simps)
  with Cons.IH [OF t1(2)] show ?case by auto
qed simp

lemma counts_none: "counts vs [] no_tally"
  by (simp add: counts_def no_tally_def)

lemma count_approvals:
  assumes "length sgs < 2 ^ 16"
  shows "(\<exists>t. rfold (count_approval A hash vs) sgs no_tally = Inr t \<and> 2 \<le> groups_approving vs t) \<longleftrightarrow>
    (\<exists>ks. rmap (cosmos_signer A hash) sgs = Inr ks \<and> distinct ks \<and> 2 \<le> group_votes vs ks)" (is "?L \<longleftrightarrow> ?R")
proof -
  have loop: "count_approval A hash vs = (\<lambda>s t. rbind (cosmos_signer A hash s) (\<lambda>k. count_key vs k t))"
    by (intro ext) (simp add: count_approval_def count_key_def)
  have tally: "\<exists>t. rfold (count_key vs) ks no_tally = Inr t \<and> counts vs ks t"
    if "distinct ks" "length ks < 2 ^ 16" for ks
    using count_keys [OF counts_none, of ks vs] that by (simp add: no_tally_def)
  show ?thesis
  proof
    assume ?L
    then obtain t ks where t: "rmap (cosmos_signer A hash) sgs = Inr ks" "rfold (count_key vs) ks no_tally = Inr t"
      "2 \<le> groups_approving vs t" by (auto simp: loop rfold_rmap)
    with assms have "distinct ks" "length ks < 2 ^ 16" by (auto dest: counted_keys_distinct rmap_length)
    with tally [of ks] t show ?R by (auto simp: groups_approving_votes)
  next
    assume ?R
    then obtain ks where ks: "rmap (cosmos_signer A hash) sgs = Inr ks" "distinct ks" "2 \<le> group_votes vs ks" by blast
    then have "length ks < 2 ^ 16" using assms by (simp add: rmap_length)
    from tally [OF ks(2) this] obtain t where "rfold (count_key vs) ks no_tally = Inr t" "counts vs ks t" by blast
    with ks show ?L by (auto simp: loop rfold_rmap groups_approving_votes)
  qed
qed

text \<open>The Solana program looks for duplicates after the loop.\<close>

definition solana_count_key :: "validator_set \<Rightarrow> public_key \<Rightarrow> tally \<Rightarrow> program_error + tally" where
  "solana_count_key vs k t =
     rbind (ensure (\<not> (processor vs = k \<and> tl_processor t)) (ProgramPanic ''assert!(!processor)'')) (\<lambda>_.
     rbind (if k \<in> set (listeners vs) then checked_inc (tl_listeners t) else Inr (tl_listeners t)) (\<lambda>ls.
     rbind (if k \<in> set (approvers vs) then checked_inc (tl_approvers t) else Inr (tl_approvers t)) (\<lambda>aps.
       Inr \<lparr>tl_processor = (tl_processor t \<or> processor vs = k), tl_listeners = ls, tl_approvers = aps,
         tl_used = tl_used t @ [k]\<rparr>)))"

lemma checked_inc_iff: "checked_inc w = Inr w' \<longleftrightarrow> w + 1 \<noteq> 0 \<and> w' = w + 1"
  by (auto simp: checked_inc_def)

lemma unat_inc_nonzero: "unat w + 1 < 2 ^ 16 \<Longrightarrow> (w :: u16) + 1 \<noteq> 0"
  using unat_inc [of w] by (metis add_is_0 unat_0 zero_neq_one)

lemma solana_count_keys:
  assumes "counts vs seen t" "tl_used t = seen" "distinct (seen @ ks)" "length seen + length ks < 2 ^ 16"
  shows "\<exists>t'. rfold (solana_count_key vs) ks t = Inr t' \<and> counts vs (seen @ ks) t'"
  using assms
proof (induction ks arbitrary: seen t)
  case (Cons k ks)
  define t1 where "t1 = \<lparr>tl_processor = (tl_processor t \<or> processor vs = k),
     tl_listeners = (if k \<in> set (listeners vs) then tl_listeners t + 1 else tl_listeners t),
     tl_approvers = (if k \<in> set (approvers vs) then tl_approvers t + 1 else tl_approvers t), tl_used = seen @ [k]\<rparr>"
  have "length seen + 1 < 2 ^ 16" using Cons.prems(4) by simp
  then have "length (filter P seen) + 1 < 2 ^ 16" for P
    using length_filter_le [of P seen] by linarith
  then have "tl_listeners t + 1 \<noteq> 0" "tl_approvers t + 1 \<noteq> 0"
    using Cons.prems(1) by (auto simp: counts_def intro!: unat_inc_nonzero)
  moreover have "\<not> (processor vs = k \<and> tl_processor t)" using Cons.prems by (auto simp: counts_def)
  ultimately have step: "solana_count_key vs k t = Inr t1"
    using Cons.prems(2) by (simp add: solana_count_key_def t1_def checked_inc_def)
  have "counts vs (seen @ [k]) t1" by (rule counts_snoc) (use Cons.prems in \<open>auto simp: t1_def\<close>)
  then show ?case using Cons.IH [of "seen @ [k]" t1] Cons.prems step by (simp add: t1_def)
qed auto

lemma solana_counted: "rfold (solana_count_key vs) ks t = Inr t' \<Longrightarrow> tl_used t' = tl_used t @ ks"
proof (induction ks arbitrary: t)
  case (Cons k ks)
  then obtain t1 where "solana_count_key vs k t = Inr t1" "rfold (solana_count_key vs) ks t1 = Inr t'"
    by (auto simp: result_simps)
  moreover from this(1) have "tl_used t1 = tl_used t @ [k]" by (auto simp: solana_count_key_def result_simps)
  ultimately show ?case using Cons.IH [of t1] by simp
qed simp

lemma solana_count_approvals:
  assumes "length sgs < 2 ^ 16"
  shows "(\<exists>t. rfold (solana_count_approval V hash vs) sgs no_tally = Inr t \<and> distinct (tl_used t) \<and>
      2 \<le> groups_approving vs t) \<longleftrightarrow>
    (\<exists>ks. rmap (solana_signer V hash) sgs = Inr ks \<and> distinct ks \<and> 2 \<le> group_votes vs ks)" (is "?L \<longleftrightarrow> ?R")
proof -
  have loop: "solana_count_approval V hash vs = (\<lambda>s t. rbind (solana_signer V hash s) (\<lambda>k. solana_count_key vs k t))"
    by (intro ext) (simp add: solana_count_approval_def solana_count_key_def)
  have used: "tl_used t = ks" if "rfold (solana_count_key vs) ks no_tally = Inr t" for ks t
    using solana_counted [OF that] by (simp add: no_tally_def)
  have tally: "\<exists>t. rfold (solana_count_key vs) ks no_tally = Inr t \<and> counts vs ks t"
    if "distinct ks" "length ks < 2 ^ 16" for ks
    using solana_count_keys [OF counts_none, of ks vs] that by (simp add: no_tally_def)
  show ?thesis
  proof
    assume ?L
    then obtain t ks where t: "rmap (solana_signer V hash) sgs = Inr ks" "rfold (solana_count_key vs) ks no_tally = Inr t"
      "2 \<le> groups_approving vs t" "distinct ks" by (auto simp: loop rfold_rmap dest: used)
    with assms have "length ks < 2 ^ 16" by (auto dest: rmap_length)
    with tally [of ks] t show ?R by (auto simp: groups_approving_votes)
  next
    assume ?R
    then obtain ks where ks: "rmap (solana_signer V hash) sgs = Inr ks" "distinct ks" "2 \<le> group_votes vs ks" by blast
    then have "length ks < 2 ^ 16" using assms by (simp add: rmap_length)
    from tally [OF ks(2) this] obtain t where "rfold (solana_count_key vs) ks no_tally = Inr t" "counts vs ks t" by blast
    with ks show ?L by (auto simp: loop rfold_rmap groups_approving_votes used)
  qed
qed


section \<open>The Cosmos contract\<close>

lemma cosmos_decision:
  assumes "\<And>rendered approvals. action = CosmosNewSet rendered approvals \<Longrightarrow> length approvals < 2 ^ 16"
  shows "(\<exists>sg parsed. cosmos_signers A vs action = Inr (sg, parsed) \<and> apply_parsed parsed vs = Inr vs' \<and> sg = sg') \<longleftrightarrow>
    (\<exists>change. cosmos_change A action = Inr change \<and> set_after vs change = Some vs' \<and> sg' = signers_of vs')"
proof (cases action)
  case (CosmosMsgs messages)
  then show ?thesis by auto
next
  case (CosmosSelfReplace rendered signature)
  show ?thesis
  proof (cases "\<exists>old sr. cosmos_signer A (ca_sha A (str_bytes rendered)) signature = Inr old \<and>
      ca_self_replace A rendered = Some sr")
    case True
    then obtain old sr where "cosmos_signer A (ca_sha A (str_bytes rendered)) signature = Inr old"
      "ca_self_replace A rendered = Some sr" by blast
    with CosmosSelfReplace show ?thesis
      by (cases "validator_type sr") (auto simp: key_replace_def signers_of_def)
  next
    case False
    with CosmosSelfReplace show ?thesis by (auto simp: result_simps)
  qed
next
  case (CosmosNewSet rendered approvals)
  show ?thesis
  proof (cases "ca_set A rendered")
    case None
    with CosmosNewSet show ?thesis by simp
  next
    case (Some new)
    with CosmosNewSet count_approvals [OF assms [OF CosmosNewSet], of A "ca_sha A (str_bytes rendered)" vs]
    show ?thesis by (auto simp: result_simps)
  qed
qed

fun action_messages :: "cosmos_action \<Rightarrow> cosmos_msg list" where
  "action_messages (CosmosMsgs messages) = messages"
| "action_messages _ = []"

lemma parsed_messages_of: "cosmos_signers A vs action = Inr (sg, parsed) \<Longrightarrow> parsed_messages parsed = action_messages action"
  by (cases action) (auto simp: result_simps)

lemma cosmos_quorum:
  "(\<exists>p used. cosmos_signer A hash ps = Inr p \<and> p = sg_processor sg \<and>
      rfold (take_approver A hash (sg_approvers sg)) sgs [] = Inr used \<and> \<not> length used < unat (sg_needed sg)) \<longleftrightarrow>
   (\<exists>p ks. cosmos_signer A hash ps = Inr p \<and> rmap (cosmos_signer A hash) sgs = Inr ks \<and> quorum_signed sg p ks)"
  by (auto simp: take_approvers quorum_signed_def Let_def not_less)

definition signed_response :: "'v cosmos_api \<Rightarrow> u64 \<Rightarrow> bytes \<Rightarrow> cosmos_action \<Rightarrow> response" where
  "signed_response A event_id message action =
     \<lparr>rs_messages = action_messages action,
      rs_events = [(''bridge-event'', [(''id'', ca_show A event_id), (''message'', ca_base64 A message)])],
      rs_attributes = []\<rparr>"

text \<open>The approvals are counted in 16 bits.\<close>

definition few_cosmos_approvals :: "'v cosmos_api \<Rightarrow> string \<Rightarrow> bool" where
  "few_cosmos_approvals A payload \<longleftrightarrow>
     (\<forall>i rendered approvals. ca_payload A payload = Some (i, CosmosNewSet rendered approvals) \<longrightarrow> length approvals < 2 ^ 16)"

lemma cosmos_signed_iff:
  assumes "few_cosmos_approvals A payload"
  shows "cosmos_signed A sender ps sgs payload st = Inr (r, st') \<longleftrightarrow>
    (\<exists>i action change p ks s s' message. ca_payload A payload = Some (i, action) \<and>
       cosmos_call A ps sgs payload = Inr (i, change, p, ks) \<and> cs_state st = Some s \<and>
       bridge_accepts s i change p ks = Some s' \<and> ca_event_json A (CosmosSignedEvent sender i) = Some message \<and>
       r = signed_response A (ct_next_event_id s) message action \<and>
       st' = st\<lparr>cs_events := om_insert (ct_next_event_id s) message (cs_events st), cs_state := Some s'\<rparr>)"
    (is "_ \<longleftrightarrow> ?spec")
proof (cases "\<exists>i action s message. ca_payload A payload = Some (i, action) \<and> cs_state st = Some s \<and>
    i = ct_next_action_id s \<and> ca_event_json A (CosmosSignedEvent sender i) = Some message")
  case False
  then show ?thesis
    by (auto simp: cosmos_signed_def load_contract_state_def bridge_event_response_def bridge_accepts_def result_simps Let_def
      split: if_splits)
next
  case True
  then obtain action s message where c: "ca_payload A payload = Some (ct_next_action_id s, action)" "cs_state st = Some s"
    "ca_event_json A (CosmosSignedEvent sender (ct_next_action_id s)) = Some message" by blast
  define hash where "hash = ca_sha A (str_bytes payload)"
  define goal where "goal = (\<lambda>vs'. r = signed_response A (ct_next_event_id s) message action \<and>
     st' = st\<lparr>cs_events := om_insert (ct_next_event_id s) message (cs_events st), cs_state := Some
       \<lparr>ct_set = vs', ct_next_event_id = ct_next_event_id s + 1, ct_next_action_id = ct_next_action_id s + 1\<rparr>\<rparr>)"
  have decision: "(\<exists>sg parsed. cosmos_signers A (ct_set s) action = Inr (sg, parsed) \<and>
      apply_parsed parsed (ct_set s) = Inr vs' \<and> sg = sg') \<longleftrightarrow>
    (\<exists>change. cosmos_change A action = Inr change \<and> set_after (ct_set s) change = Some vs' \<and> sg' = signers_of vs')" for vs' sg'
    by (rule cosmos_decision) (use assms c(1) in \<open>auto simp: few_cosmos_approvals_def\<close>)
  have "cosmos_signed A sender ps sgs payload st = Inr (r, st') \<longleftrightarrow>
    (\<exists>sg parsed vs'. cosmos_signers A (ct_set s) action = Inr (sg, parsed) \<and> apply_parsed parsed (ct_set s) = Inr vs' \<and>
      (\<exists>p used. cosmos_signer A hash ps = Inr p \<and> p = sg_processor sg \<and>
        rfold (take_approver A hash (sg_approvers sg)) sgs [] = Inr used \<and> \<not> length used < unat (sg_needed sg)) \<and> goal vs')"
    by (auto simp: cosmos_signed_def load_contract_state_def bridge_event_response_def c result_simps Let_def hash_def
      goal_def signed_response_def no_response_def parsed_messages_of)
  also have "\<dots> \<longleftrightarrow> (\<exists>vs' sg'. (\<exists>sg parsed. cosmos_signers A (ct_set s) action = Inr (sg, parsed) \<and>
      apply_parsed parsed (ct_set s) = Inr vs' \<and> sg = sg') \<and>
      (\<exists>p ks. cosmos_signer A hash ps = Inr p \<and> rmap (cosmos_signer A hash) sgs = Inr ks \<and> quorum_signed sg' p ks) \<and>
      goal vs')"
    unfolding cosmos_quorum by fast
  also have "\<dots> \<longleftrightarrow> (\<exists>vs' change. cosmos_change A action = Inr change \<and> set_after (ct_set s) change = Some vs' \<and>
      (\<exists>p ks. cosmos_signer A hash ps = Inr p \<and> rmap (cosmos_signer A hash) sgs = Inr ks \<and>
        quorum_signed (signers_of vs') p ks) \<and> goal vs')"
    unfolding decision by fast
  also have "\<dots> \<longleftrightarrow> ?spec"
    by (auto simp: cosmos_call_iff bridge_accepts_iff hash_def goal_def c)
  finally show ?thesis .
qed

section \<open>The Solana program\<close>

text \<open>What an accepted action does to the other accounts: \<open>Execute\<close> calls another program.\<close>

fun solana_effect :: "svm \<Rightarrow> ix_context \<Rightarrow> solana_action \<Rightarrow> ledger \<Rightarrow> ledger \<Rightarrow> bool" where
  "solana_effect V cx (SolExecute action) l l' \<longleftrightarrow>
     4 \<le> length (cx_accounts cx) \<and> execute_action V action (drop 4 (cx_accounts cx)) l = Inr l'"
| "solana_effect V cx _ l l' \<longleftrightarrow> l' = l"

lemma solana_apply_iff:
  assumes "\<And>rendered approvals. action = SolNewSet rendered approvals \<Longrightarrow> length approvals < 2 ^ 16"
  shows "solana_apply V cx hash data action vs l = Inr (vs', l') \<longleftrightarrow>
    (\<exists>change p ks. solana_change V action = Inr change \<and> set_after vs change = Some vs' \<and>
      solana_signer V hash (sd_processor data) = Inr p \<and> rmap (solana_signer V hash) (sd_approvers data) = Inr ks \<and>
      quorum_signed (signers_of vs') p ks \<and> solana_effect V cx action l l')"
proof (cases action)
  case (SolExecute e)
  then show ?thesis by (auto simp: result_simps verified_signatures not_less)
next
  case (SolSelfReplace rendered signature)
  show ?thesis
  proof (cases "\<exists>old sr. solana_signer V (sv_sha V (str_bytes rendered)) signature = Inr old \<and> sv_self_replace V rendered = Some sr")
    case True
    then obtain old sr where "solana_signer V (sv_sha V (str_bytes rendered)) signature = Inr old"
      "sv_self_replace V rendered = Some sr" by blast
    with SolSelfReplace show ?thesis
      by (cases "validator_type sr")
        (auto simp: solana_self_replace_def key_replace_def signers_of_def result_simps verified_signatures Let_def)
  next
    case False
    with SolSelfReplace show ?thesis by (auto simp: result_simps)
  qed
next
  case (SolNewSet rendered approvals)
  show ?thesis
  proof (cases "sv_set V rendered")
    case None
    with SolNewSet show ?thesis by (simp add: solana_new_set_def)
  next
    case (Some new)
    with SolNewSet solana_count_approvals [OF assms [OF SolNewSet], of V "sv_sha V (str_bytes rendered)" vs]
    show ?thesis by (auto simp: solana_new_set_def result_simps verified_signatures)
  qed
qed

lemma solana_change_install:
  assumes "solana_change V action = Inr (InstallSet new signed_by)"
  obtains rendered approvals where "action = SolNewSet rendered approvals" "length approvals = length signed_by"
  using assms by (cases action) (auto simp: result_simps dest: rmap_length)

text \<open>The approvals are counted in 16 bits.\<close>

definition few_solana_approvals :: "svm \<Rightarrow> bytes \<Rightarrow> bool" where
  "few_solana_approvals V bs \<longleftrightarrow> (\<forall>data payload_bytes payload rendered approvals. sv_unborsh_signed V bs = Some data \<longrightarrow>
      sv_unbase64 V (sd_payload data) = Some payload_bytes \<longrightarrow> sv_unborsh_payload V payload_bytes = Some payload \<longrightarrow>
      sol_action payload = SolNewSet rendered approvals \<longrightarrow> length approvals < 2 ^ 16)"

text \<open>The accounts of a \<open>signed\<close> instruction, its data and the bridge state it loads.\<close>

definition signed_context ::
  "svm \<Rightarrow> ix_context \<Rightarrow> bytes \<Rightarrow> ledger \<Rightarrow> account_ref \<Rightarrow> account_ref \<Rightarrow> signed_data \<Rightarrow> u8 \<Rightarrow> contract_state \<Rightarrow> bool" where
  "signed_context V cx bs l sender state_acc data bump s \<longleftrightarrow>
     3 \<le> length (cx_accounts cx) \<and> ctx_account l cx 0 signer_req = Inr sender \<and>
     ctx_account l cx 1 writable_req = Inr state_acc \<and> is_ok (assert_is_system_program V cx 2) \<and>
     sv_unborsh_signed V bs = Some data \<and> load_pda V cx 0 (sv_unborsh_state V) state_acc state_seeds l = Inr (bump, s)"

lemma solana_signed_iff:
  assumes "few_solana_approvals V bs"
  shows "solana_signed V cx bs l = Inr (l', logs) \<longleftrightarrow>
    (\<exists>sender state_acc data bump s i change p ks s' payload l1 minimum_balance.
       signed_context V cx bs l sender state_acc data bump s \<and>
       solana_call V data = Inr (i, change, p, ks) \<and> bridge_accepts s i change p ks = Some s' \<and>
       ct_next_action_id s + 1 \<noteq> 0 \<and> ct_next_event_id s + 1 \<noteq> 0 \<and>
       sv_unborsh_payload V (the (sv_unbase64 V (sd_payload data))) = Some payload \<and>
       solana_effect V cx (sol_action payload) l l1 \<and> sv_minimum_balance V = Inr minimum_balance \<and>
       serialize_into_growable V 0 bump (sv_borsh_state V s') state_acc sender minimum_balance l1 = Inr l' \<and>
       sv_borsh_log V (BridgeSigned (ct_next_event_id s) (ar_key sender) i) \<noteq> None \<and>
       logs = [BridgeSigned (ct_next_event_id s) (ar_key sender) i])" (is "_ \<longleftrightarrow> ?spec")
proof -
  have apply_iff: "solana_apply V cx hash data (sol_action payload) vs l = Inr (vs', l1) \<longleftrightarrow>
    (\<exists>change p ks. solana_change V (sol_action payload) = Inr change \<and> set_after vs change = Some vs' \<and>
      solana_signer V hash (sd_processor data) = Inr p \<and> rmap (solana_signer V hash) (sd_approvers data) = Inr ks \<and>
      quorum_signed (signers_of vs') p ks \<and> solana_effect V cx (sol_action payload) l l1)"
    if "sv_unborsh_signed V bs = Some data" "sv_unbase64 V (sd_payload data) = Some payload_bytes"
      "sv_unborsh_payload V payload_bytes = Some payload" for data payload_bytes payload hash vs vs' l1
    by (rule solana_apply_iff) (use assms that in \<open>auto simp: few_solana_approvals_def\<close>)
  show ?thesis
  proof
    assume ok: "solana_signed V cx bs l = Inr (l', logs)"
    then obtain sender state_acc data bump s payload_bytes payload vs l1 mb a where c:
      "3 \<le> length (cx_accounts cx)" "ctx_account l cx 0 signer_req = Inr sender"
      "ctx_account l cx 1 writable_req = Inr state_acc" "assert_is_system_program V cx 2 = Inr a"
      "sv_unborsh_signed V bs = Some data" "load_pda V cx 0 (sv_unborsh_state V) state_acc state_seeds l = Inr (bump, s)"
      "sv_unbase64 V (sd_payload data) = Some payload_bytes" "sv_unborsh_payload V payload_bytes = Some payload"
      "sol_id payload = ct_next_action_id s" "ct_next_action_id s + 1 \<noteq> 0" "ct_next_event_id s + 1 \<noteq> 0"
      and app: "solana_apply V cx (sv_sha V (str_bytes (sd_payload data))) data (sol_action payload) (ct_set s) l = Inr (vs, l1)"
      and fin: "sv_minimum_balance V = Inr mb"
      "serialize_into_growable V 0 bump (sv_borsh_state V \<lparr>ct_set = vs, ct_next_event_id = ct_next_event_id s + 1,
         ct_next_action_id = ct_next_action_id s + 1\<rparr>) state_acc sender mb l1 = Inr l'"
      "sv_borsh_log V (BridgeSigned (ct_next_event_id s) (ar_key sender) (sol_id payload)) \<noteq> None"
      "logs = [BridgeSigned (ct_next_event_id s) (ar_key sender) (sol_id payload)]"
      by (auto simp: solana_signed_def result_simps Let_def checked_inc_iff emit_log_def not_less)
    show ?spec
      using c fin app [unfolded apply_iff [OF c(5,7,8)]]
      by (auto simp: signed_context_def solana_call_iff bridge_accepts_iff is_ok_def)
  next
    assume ?spec
    then show "solana_signed V cx bs l = Inr (l', logs)"
      by (auto simp: solana_signed_def result_simps Let_def checked_inc_iff emit_log_def not_less solana_call_iff
        bridge_accepts_iff signed_context_def is_ok_def apply_iff split: sum.splits)
  qed
qed

section \<open>Sequences of calls to the Cosmos contract\<close>

type_synonym cosmos_tx = "string \<times> (string \<times> u128) list \<times> cosmos_execute_msg"

text \<open>The storage after a sequence of calls, and the calls that were accepted.\<close>

fun cosmos_run :: "'v cosmos_api \<Rightarrow> cosmos_tx list \<Rightarrow> contract_storage \<Rightarrow> contract_storage" where
  "cosmos_run A [] st = st"
| "cosmos_run A ((sender, funds, msg) # txs) st =
     (case cosmos_execute A sender funds msg st of Inl _ \<Rightarrow> cosmos_run A txs st | Inr (_, st') \<Rightarrow> cosmos_run A txs st')"

fun cosmos_accepted :: "'v cosmos_api \<Rightarrow> cosmos_tx list \<Rightarrow> contract_storage \<Rightarrow> cosmos_tx list" where
  "cosmos_accepted A [] st = []"
| "cosmos_accepted A ((sender, funds, msg) # txs) st =
     (case cosmos_execute A sender funds msg st of
        Inl _ \<Rightarrow> cosmos_accepted A txs st
      | Inr (_, st') \<Rightarrow> (sender, funds, msg) # cosmos_accepted A txs st')"

fun tx_event :: "'v cosmos_api \<Rightarrow> cosmos_tx \<Rightarrow> cosmos_event" where
  "tx_event A (sender, funds, CosmosRegular keys) = CosmosRegularEvent sender funds (map kg_key keys)"
| "tx_event A (sender, funds, CosmosSigned ps sgs payload) = CosmosSignedEvent sender (fst (the (ca_payload A payload)))"

fun tx_action_id :: "'v cosmos_api \<Rightarrow> cosmos_tx \<Rightarrow> u64 option" where
  "tx_action_id A (sender, funds, CosmosRegular keys) = None"
| "tx_action_id A (sender, funds, CosmosSigned ps sgs payload) = Some (fst (the (ca_payload A payload)))"

definition action_ids :: "'v cosmos_api \<Rightarrow> cosmos_tx list \<Rightarrow> u64 list" where
  "action_ids A txs = List.map_filter (tx_action_id A) txs"

lemma action_ids_simps [simp]:
  "action_ids A [] = []"
  "action_ids A (tx # txs) = (case tx_action_id A tx of None \<Rightarrow> action_ids A txs | Some i \<Rightarrow> i # action_ids A txs)"
  by (simp_all add: action_ids_def List.map_filter_def split: option.split)

text \<open>One accepted call: its event is stored under the next event id, its action has the next action id.\<close>

lemma cosmos_execute_step:
  assumes "cosmos_execute A sender funds msg st = Inr (r, st')" "cs_state st = Some s"
  shows "\<exists>s' message. cs_state st' = Some s' \<and> ct_next_event_id s' = ct_next_event_id s + 1 \<and>
     cs_events st' = om_insert (ct_next_event_id s) message (cs_events st) \<and>
     ca_event_json A (tx_event A (sender, funds, msg)) = Some message \<and>
     (case tx_action_id A (sender, funds, msg) of
        None \<Rightarrow> ct_next_action_id s' = ct_next_action_id s
      | Some i \<Rightarrow> i = ct_next_action_id s \<and> ct_next_action_id s' = ct_next_action_id s + 1)"
proof (cases msg)
  case (CosmosRegular keys)
  with assms show ?thesis
    by (auto simp: cosmos_regular_def load_contract_state_def bridge_event_response_def result_simps)
next
  case (CosmosSigned ps sgs payload)
  with assms show ?thesis
    by (auto simp: cosmos_signed_def load_contract_state_def bridge_event_response_def result_simps Let_def)
qed

lemma word_add_less_distinct:
  "i < j \<Longrightarrow> j < 2 ^ 64 \<Longrightarrow> (n :: u64) + of_nat i \<noteq> n + of_nat j"
proof -
  assume "i < j" "j < 2 ^ 64"
  then have "unat (of_nat i :: u64) = i" "unat (of_nat j :: u64) = j" by (simp_all add: unat_of_nat_small)
  with \<open>i < j\<close> show ?thesis by (metis add_left_cancel less_irrefl)
qed

lemma cosmos_run_snoc:
  "cosmos_run A (txs @ [(sender, funds, msg)]) st =
     (case cosmos_execute A sender funds msg (cosmos_run A txs st) of Inl _ \<Rightarrow> cosmos_run A txs st | Inr (_, st') \<Rightarrow> st')"
  "cosmos_accepted A (txs @ [(sender, funds, msg)]) st = cosmos_accepted A txs st @
     (if is_ok (cosmos_execute A sender funds msg (cosmos_run A txs st)) then [(sender, funds, msg)] else [])"
  by (induction txs arbitrary: st) (auto split: sum.split)

lemma action_ids_snoc:
  "action_ids A (txs @ [tx]) = action_ids A txs @ (case tx_action_id A tx of None \<Rightarrow> [] | Some i \<Rightarrow> [i])"
  by (simp add: action_ids_def List.map_filter_def split: option.split)

definition cosmos_log ::
  "'v cosmos_api \<Rightarrow> contract_state \<Rightarrow> contract_storage \<Rightarrow> cosmos_tx list \<Rightarrow> contract_storage \<Rightarrow> bool" where
  "cosmos_log A s st txs st' \<longleftrightarrow> (\<exists>s'. cs_state st' = Some s' \<and>
     ct_next_event_id s' = ct_next_event_id s + of_nat (length txs) \<and>
     ct_next_action_id s' = ct_next_action_id s + of_nat (length (action_ids A txs)) \<and>
     (\<forall>j < length txs. om_get (cs_events st') (ct_next_event_id s + of_nat j) = ca_event_json A (tx_event A (txs ! j))) \<and>
     action_ids A txs = map (\<lambda>j. ct_next_action_id s + of_nat j) [0..<length (action_ids A txs)])"

lemma cosmos_log_snoc:
  assumes log: "cosmos_log A s st txs st1" and few: "length txs < 2 ^ 64"
    and step: "cosmos_execute A sender funds msg st1 = Inr (r, st2)"
  shows "cosmos_log A s st (txs @ [(sender, funds, msg)]) st2"
proof -
  from log obtain s1 where s1: "cs_state st1 = Some s1" "ct_next_event_id s1 = ct_next_event_id s + of_nat (length txs)"
    "ct_next_action_id s1 = ct_next_action_id s + of_nat (length (action_ids A txs))"
    "\<forall>j < length txs. om_get (cs_events st1) (ct_next_event_id s + of_nat j) = ca_event_json A (tx_event A (txs ! j))"
    "action_ids A txs = map (\<lambda>j. ct_next_action_id s + of_nat j) [0..<length (action_ids A txs)]"
    by (auto simp: cosmos_log_def)
  from cosmos_execute_step [OF step s1(1)] obtain s2 message where s2: "cs_state st2 = Some s2"
    "ct_next_event_id s2 = ct_next_event_id s1 + 1" "cs_events st2 = om_insert (ct_next_event_id s1) message (cs_events st1)"
    "ca_event_json A (tx_event A (sender, funds, msg)) = Some message"
    and act: "case tx_action_id A (sender, funds, msg) of
        None \<Rightarrow> ct_next_action_id s2 = ct_next_action_id s1
      | Some i \<Rightarrow> i = ct_next_action_id s1 \<and> ct_next_action_id s2 = ct_next_action_id s1 + 1"
    by blast
  have "om_get (cs_events st2) (ct_next_event_id s + of_nat j) =
      ca_event_json A (tx_event A ((txs @ [(sender, funds, msg)]) ! j))" if "j < length txs + 1" for j
  proof (cases "j = length txs")
    case True
    with s1 s2 show ?thesis by simp
  next
    case False
    with that few have "ct_next_event_id s + of_nat j \<noteq> ct_next_event_id s1"
      unfolding s1(2) by (intro word_add_less_distinct) auto
    with s1 s2 that False show ?thesis by (simp add: nth_append)
  qed
  moreover have "action_ids A (txs @ [(sender, funds, msg)]) =
      map (\<lambda>j. ct_next_action_id s + of_nat j) [0..<length (action_ids A (txs @ [(sender, funds, msg)]))]"
    using act s1(3,5) by (auto simp: action_ids_snoc split: option.split)
  moreover have "ct_next_action_id s2 =
      ct_next_action_id s + of_nat (length (action_ids A (txs @ [(sender, funds, msg)])))"
    using act s1(3) by (auto simp: action_ids_snoc split: option.split)
  ultimately show ?thesis using s1(2) s2(1,2) by (auto simp: cosmos_log_def)
qed

lemma cosmos_run_log:
  assumes "cs_state st = Some s" "length (cosmos_accepted A txs st) < 2 ^ 64"
  shows "cosmos_log A s st (cosmos_accepted A txs st) (cosmos_run A txs st)"
  using assms(2)
proof (induction txs rule: rev_induct)
  case Nil
  show ?case using assms(1) by (simp add: cosmos_log_def)
next
  case (snoc tx txs)
  obtain sender funds msg where tx: "tx = (sender, funds, msg)" by (cases tx)
  show ?case
  proof (cases "cosmos_execute A sender funds msg (cosmos_run A txs st)")
    case (Inl e)
    with snoc show ?thesis by (simp add: tx cosmos_run_snoc)
  next
    case (Inr x)
    then obtain r st2 where x: "cosmos_execute A sender funds msg (cosmos_run A txs st) = Inr (r, st2)" by (cases x) auto
    from snoc.prems x have few: "length (cosmos_accepted A txs st) < 2 ^ 64" by (simp add: tx cosmos_run_snoc)
    from cosmos_log_snoc [OF snoc.IH [OF few] few x] show ?thesis by (simp add: tx cosmos_run_snoc x)
  qed
qed

end
