(* ===== verification/Bridge_Props.thy ===== *)
theory Bridge_Props
  imports Bridge_Contracts
begin

text \<open>
  Properties of the bridge contracts, with concrete contracts as witnesses: \<open>sample_api\<close> and
  \<open>sample_svm\<close> are a Cosmos chain and a Solana runtime in which a signature names its signer.
\<close>

section \<open>Sample contracts\<close>

definition key_of :: "u8 \<Rightarrow> public_key" where
  "key_of n = PublicKey (2 # replicate 31 0 @ [n])"

definition sig_by :: "u8 \<Rightarrow> sigrec" where
  "sig_by n = \<lparr>recid = 0, sig = Signature (replicate 31 0 @ [n] @ replicate 31 0 @ [1])\<rparr>"

definition bridge_set :: validator_set where
  "bridge_set = \<lparr>processor = key_of 1, listeners = [key_of 2], needed_listeners = 1,
     approvers = [key_of 3, key_of 4], needed_approvers = 1\<rparr>"

definition bridge_state :: contract_state where
  "bridge_state = \<lparr>ct_set = bridge_set, ct_next_event_id = 1, ct_next_action_id = 0\<rparr>"

definition smaller_set :: validator_set where
  "smaller_set = bridge_set\<lparr>approvers := [key_of 3]\<rparr>"

definition sample_cosmos_payload :: "string \<Rightarrow> (u64 \<times> cosmos_action) option" where
  "sample_cosmos_payload s =
     (if s = ''pay'' then Some (0, CosmosMsgs [CosmosBankSend ''addr'' []])
      else if s = ''member'' then Some (0, CosmosSelfReplace ''self'' (sig_by 3)) else None)"

definition sample_api :: "nat cosmos_api" where
  "sample_api = \<lparr>ca_recover = (\<lambda>_ bs _. Some (4 # take 32 bs @ replicate 32 0)), ca_sha = (\<lambda>_. []),
     ca_payload = sample_cosmos_payload,
     ca_self_replace = (\<lambda>_. Some \<lparr>validator_type = ApproverType, replacement = key_of 4\<rparr>),
     ca_set = (\<lambda>_. Some smaller_set), ca_event_json = (\<lambda>_. Some []), ca_state_json = (\<lambda>_. Some []),
     ca_found_json = (\<lambda>_. Some []), ca_base64 = (\<lambda>_. []), ca_show = (\<lambda>_. []), ca_version = (\<lambda>_. Some 1)\<rparr>"

definition bridge_storage :: contract_storage where
  "bridge_storage = \<lparr>cs_version_info = Some (contract_name, contract_version), cs_state = Some bridge_state, cs_events = []\<rparr>"

text \<open>The Solana state is written as the number of approvers and the two counters.\<close>

definition sample_borsh :: "contract_state \<Rightarrow> bytes" where
  "sample_borsh s = map (\<lambda>k. last (pk_bytes k)) (approvers (ct_set s)) @
     [0, ucast (ct_next_event_id s), ucast (ct_next_action_id s)]"

definition sample_unborsh :: "bytes \<Rightarrow> contract_state option" where
  "sample_unborsh bs =
     (case dropWhile (\<lambda>b. b \<noteq> 0) bs of
        [_, e, a] \<Rightarrow> Some \<lparr>ct_set = bridge_set\<lparr>approvers := map key_of (takeWhile (\<lambda>b. b \<noteq> 0) bs)\<rparr>,
           ct_next_event_id = ucast e, ct_next_action_id = ucast a\<rparr>
      | _ \<Rightarrow> None)"

definition sample_svm :: svm where
  "sample_svm = \<lparr>sv_recover = (\<lambda>_ _ bs. Inr (take 32 bs @ replicate 32 0)), sv_sha = (\<lambda>_. []),
     sv_invoke = (\<lambda>_ _ _ l. Inr l), sv_find_pda = (\<lambda>_ _. ([9], 255)), sv_create_pda = (\<lambda>_ _. Inr [9]),
     sv_minimum_balance = Inr (\<lambda>_. 1), sv_create_account = (\<lambda>_ _ _ _ _ _ l. Inr l), sv_transfer = (\<lambda>_ _ _ l. Inr l),
     sv_allocate = (\<lambda>_ _ _ l. Inr l), sv_assign = (\<lambda>_ _ _ l. Inr l),
     sv_resize = (\<lambda>n a. Inr (a\<lparr>at_data := at_data a @ replicate (n - length (at_data a)) 0\<rparr>)),
     sv_token_account = (\<lambda>_. \<lparr>ta_mint = [], ta_owner = [], ta_close_authority = False, ta_delegate = False\<rparr>),
     sv_mint_decimals = (\<lambda>_. 0), sv_loader_state = (\<lambda>_. None), sv_system_program = [0], sv_loader = [1],
     sv_token = [2], sv_token2022 = [3], sv_ata_program = [4],
     sv_borsh_state = sample_borsh, sv_unborsh_state = sample_unborsh, sv_borsh_git_rev = (\<lambda>_. []),
     sv_borsh_unit = [], sv_unborsh_unit = (\<lambda>_. Some ()), sv_unborsh_init = (\<lambda>_. None), sv_unborsh_regular = (\<lambda>_. None),
     sv_unborsh_signed = (\<lambda>_. Some \<lparr>sd_processor = sig_by 1, sd_approvers = [sig_by 3], sd_payload = ''set''\<rparr>),
     sv_unborsh_payload = (\<lambda>_. Some \<lparr>sol_id = 0, sol_action = SolNewSet ''new'' [sig_by 1, sig_by 2]\<rparr>),
     sv_borsh_log = (\<lambda>_. Some []), sv_unbase64 = (\<lambda>_. Some []), sv_self_replace = (\<lambda>_. None),
     sv_set = (\<lambda>_. Some smaller_set), sv_git_rev = []\<rparr>"

definition sample_cx :: ix_context where
  "sample_cx = \<lparr>cx_program_id = [5], cx_accounts =
     [\<lparr>ar_key = [8], ar_signer = True, ar_writable = True\<rparr>, \<lparr>ar_key = [9], ar_signer = False, ar_writable = True\<rparr>,
      \<lparr>ar_key = [0], ar_signer = False, ar_writable = False\<rparr>]\<rparr>"

definition sample_ledger :: ledger where
  "sample_ledger = (\<lambda>_. \<lparr>at_owner = [5], at_lamports = 1, at_executable = False,
     at_data = 0 # 255 # sample_borsh bridge_state\<rparr>)"

section \<open>Signature malleability\<close>

definition secp256k1_order :: nat where
  "secp256k1_order = 0xFFFFFFFFFFFFFFFFFFFFFFFFFFFFFFFEBAAEDCE6AF48A03BBFD25E8CD0364141"

definition sig_s :: "signature \<Rightarrow> nat" where
  "sig_s s = nat_of_le (rev (drop 32 (sig_bytes s)))"

lemma nat_of_le_append: "nat_of_le (xs @ ys) = nat_of_le xs + 256 ^ length xs * nat_of_le ys"
  by (induction xs) (simp_all add: algebra_simps)

lemma unat_be_word:
  assumes "offset + 8 \<le> length bs"
  shows "unat (be_word bs offset) = nat_of_le (rev (take 8 (drop offset bs)))"
proof -
  have "nat_of_le (rev (take 8 (drop offset bs))) < 256 ^ 8"
    using nat_of_le_bound [of "rev (take 8 (drop offset bs))"] assms by simp
  then show ?thesis by (simp add: be_word_def of_le_bytes_def unat_of_nat_small)
qed

lemma sig_s_words:
  assumes "length (sig_bytes s) = 64"
  shows "sig_s s = unat (be_word (sig_bytes s) 56) + 2 ^ 64 * unat (be_word (sig_bytes s) 48) +
    2 ^ 128 * unat (be_word (sig_bytes s) 40) + 2 ^ 192 * unat (be_word (sig_bytes s) 32)"
proof -
  have step: "nat_of_le (rev (drop k bs)) =
      nat_of_le (rev (drop (k + 8) bs)) + 256 ^ (length bs - (k + 8)) * nat_of_le (rev (take 8 (drop k bs)))" for k bs
  proof -
    have "drop k bs = take 8 (drop k bs) @ drop (k + 8) bs" 
      using append_take_drop_id [of 8 "drop k bs"] by (simp add: add.commute)
    then have "rev (drop k bs) = rev (drop (k + 8) bs) @ rev (take 8 (drop k bs))" by (metis rev_append)
    then show ?thesis by (simp add: nat_of_le_append)
  qed
  define bs w where "bs = sig_bytes s" and "w = (\<lambda>k. nat_of_le (rev (take 8 (drop k bs))))"
  have len: "length bs = 64" using assms by (simp add: bs_def)
  have "nat_of_le (rev (drop 32 bs)) = nat_of_le (rev (drop 40 bs)) + 256 ^ 24 * w 32"
    "nat_of_le (rev (drop 40 bs)) = nat_of_le (rev (drop 48 bs)) + 256 ^ 16 * w 40"
    "nat_of_le (rev (drop 48 bs)) = nat_of_le (rev (drop 56 bs)) + 256 ^ 8 * w 48"
    using step [of 32 bs] step [of 40 bs] step [of 48 bs] unfolding len w_def by simp_all
  moreover have "drop 56 bs = take 8 (drop 56 bs)" using len by simp
  then have "nat_of_le (rev (drop 56 bs)) = w 56" by (simp add: w_def)
  ultimately have "sig_s s = w 56 + 256 ^ 8 * w 48 + 256 ^ 16 * w 40 + 256 ^ 24 * w 32"
    unfolding sig_s_def bs_def [symmetric] by linarith
  moreover have "unat (be_word bs k) = w k" if "k + 8 \<le> 64" for k
    unfolding w_def by (rule unat_be_word) (use that len in simp)
  ultimately show ?thesis by (simp add: bs_def [symmetric])
qed

lemma low_s_words:
  fixes a0 a1 a2 a3 :: nat
  assumes "a0 < 2 ^ 64" "a1 < 2 ^ 64" "a2 < 2 ^ 64" "a3 < 2 ^ 64"
  shows "\<not> (a0 = 0 \<and> a1 = 0 \<and> a2 = 0 \<and> a3 = 0) \<and>
      (if a3 < 0xffffffffffffffff then True
       else if a2 < 0xfffffffffffffffe then True
       else if a2 > 0xfffffffffffffffe then False
       else if a1 < 0xbaaedce6af48a03b then True
       else if a1 > 0xbaaedce6af48a03b then False
       else a0 < 0xbfd25e8cd0364141) \<and>
      (if a3 < 0x7fffffffffffffff then True
       else if a3 > 0x7fffffffffffffff then False
       else if a2 < 0xffffffffffffffff then True
       else if a1 < 0x5d576e7357a4501d then True
       else if a1 > 0x5d576e7357a4501d then False
       else a0 \<le> 0xdfe92f46681b20a0) \<longleftrightarrow>
    0 < a0 + 2 ^ 64 * a1 + 2 ^ 128 * a2 + 2 ^ 192 * a3 \<and>
    2 * (a0 + 2 ^ 64 * a1 + 2 ^ 128 * a2 + 2 ^ 192 * a3) < secp256k1_order"
  using assms unfolding secp256k1_order_def by (auto split: if_splits)

lemma unat_be_word_small: "unat (be_word bs i) < 2 ^ 64"
  using unat_bound [of "be_word bs i"] by simp

text \<open>The Solana program accepts a 64-byte signature as normalized exactly when its S component is
  positive and below half of the group order: of the two signatures with the same R, one.\<close>

theorem normalized_iff_low_s:
  assumes "length (sig_bytes s) = 64"
  shows "sig_is_normalized s \<longleftrightarrow> 0 < sig_s s \<and> 2 * sig_s s < secp256k1_order"
proof -
  note words = low_s_words [OF unat_be_word_small [of "sig_bytes s" 56] unat_be_word_small [of "sig_bytes s" 48]
    unat_be_word_small [of "sig_bytes s" 40] unat_be_word_small [of "sig_bytes s" 32]]
  show ?thesis
    unfolding sig_s_words [OF assms] words [symmetric]
    by (simp add: sig_is_normalized_def Let_def word_less_nat_alt word_le_nat_alt unat_eq_zero flip: unat_eq_zero)
qed

lemma normalized_iff_low_s_witness:
  "sig_is_normalized (sig (sig_by 1)) \<longleftrightarrow> 0 < sig_s (sig (sig_by 1)) \<and> 2 * sig_s (sig (sig_by 1)) < secp256k1_order"
  by (rule normalized_iff_low_s) (simp add: sig_by_def)

section \<open>Both contracts implement the specification\<close>

text \<open>C15: The Cosmos contract implements the bridge specification: \<open>signed\<close> succeeds exactly when the payload
  parses, carries the next action id and the validator set after its change is allowed and signed for by that
  set's processor and quorum; the new state is the specified one, the action's messages are sent and the event is
  stored under the next event id.  Every other call is refused.\<close>

theorem cosmos_contract_implements_spec:
  assumes "few_cosmos_approvals A payload"
  shows "cosmos_signed A sender ps sgs payload st = Inr (r, st') \<longleftrightarrow>
    (\<exists>i action change p ks s s' message. ca_payload A payload = Some (i, action) \<and>
       cosmos_call A ps sgs payload = Inr (i, change, p, ks) \<and> cs_state st = Some s \<and>
       bridge_accepts s i change p ks = Some s' \<and> ca_event_json A (CosmosSignedEvent sender i) = Some message \<and>
       r = signed_response A (ct_next_event_id s) message action \<and>
       st' = st\<lparr>cs_events := om_insert (ct_next_event_id s) message (cs_events st), cs_state := Some s'\<rparr>)"
  using assms by (rule cosmos_signed_iff)

lemma sample_reads:
  "ca_payload sample_api ''pay'' = Some (0, CosmosMsgs [CosmosBankSend ''addr'' []])"
  "ca_event_json sample_api ev = Some []"
  "cs_state bridge_storage = Some bridge_state"
  by (simp_all add: sample_api_def sample_cosmos_payload_def bridge_storage_def)

lemma cosmos_contract_implements_spec_witness:
  "\<exists>r st'. cosmos_signed sample_api ''bob'' (sig_by 1) [sig_by 3] ''pay'' bridge_storage = Inr (r, st') \<and>
     rs_messages r = [CosmosBankSend ''addr'' []] \<and> map_option ct_next_action_id (cs_state st') = Some 1"
proof -
  have few: "few_cosmos_approvals sample_api ''pay''"
    by (simp add: few_cosmos_approvals_def sample_api_def sample_cosmos_payload_def)
  have call: "cosmos_call sample_api (sig_by 1) [sig_by 3] ''pay'' = Inr (0, KeepSet, key_of 1, [key_of 3])"
    by code_simp
  have ok: "bridge_accepts bridge_state 0 KeepSet (key_of 1) [key_of 3] =
      Some \<lparr>ct_set = bridge_set, ct_next_event_id = 2, ct_next_action_id = 1\<rparr>"
    by code_simp
  from cosmos_contract_implements_spec [where A = sample_api and sender = "''bob''" and ps = "sig_by 1" and sgs = "[sig_by 3]"
    and payload = "''pay''" and st = bridge_storage, OF few]
  show ?thesis by (simp add: call ok sample_reads signed_response_def)
qed


lemma sample_signed_ok: "is_ok (solana_signed sample_svm sample_cx [] sample_ledger)"
  by code_simp

lemma sample_signed: obtains l' logs where "solana_signed sample_svm sample_cx [] sample_ledger = Inr (l', logs)"
  using sample_signed_ok by (auto simp: is_ok_iff)

lemma sample_approvals: "few_solana_approvals sample_svm bs"
  by (auto simp: few_solana_approvals_def sample_svm_def)


text \<open>Documented behaviour of borsh: \<open>try_from_slice\<close> refuses bytes behind the value.\<close>

definition borsh_strict :: "svm \<Rightarrow> bool" where
  "borsh_strict V \<longleftrightarrow> (\<forall>s extra. extra \<noteq> [] \<longrightarrow> sv_unborsh_state V (sv_borsh_state V s @ extra) = None)"

text \<open>After the Solana program accepts a new validator set whose state takes fewer bytes than the account has,
  the old bytes stay behind the new state.  Borsh refuses trailing bytes, so no later \<open>signed\<close> instruction can load
  that state, and no deposit without tokens either: the bridge is stuck.\<close>

theorem shrunk_state_cannot_be_read:
  assumes ok: "solana_signed V cx bs l = Inr (l', logs)"
    and ctx: "signed_context V cx bs l sender state_acc data bump s"
    and call: "solana_call V data = Inr (i, InstallSet new signed_by, p, ks)" "length signed_by < 2 ^ 16"
    and shorter: "length (sv_borsh_state V \<lparr>ct_set = new, ct_next_event_id = ct_next_event_id s + 1,
      ct_next_action_id = ct_next_action_id s + 1\<rparr>) + 2 < length (at_data (l (ar_key state_acc)))"
    and strict: "borsh_strict V"
    and later: "l2 (ar_key state_acc) = l' (ar_key state_acc)" "ar_key (cx_accounts cx2 ! 1) = ar_key state_acc"
  shows "\<not> is_ok (solana_signed V cx2 bs2 l2) \<and>
    (length (cx_accounts cx2) = 2 \<longrightarrow> \<not> is_ok (solana_regular V cx2 bs2 l2))"
proof -
  from call obtain payload_bytes payload rendered approvals where pay: "sv_unbase64 V (sd_payload data) = Some payload_bytes"
    "sv_unborsh_payload V payload_bytes = Some payload" "sol_action payload = SolNewSet rendered approvals"
    "length approvals = length signed_by"
    by (auto simp: solana_call_iff elim!: solana_change_install)
  from ctx have data: "sv_unborsh_signed V bs = Some data" by (simp add: signed_context_def)
  have spec: "\<exists>s' mb. bridge_accepts s i (InstallSet new signed_by) p ks = Some s' \<and>
      serialize_into_growable V 0 bump (sv_borsh_state V s') state_acc sender mb l = Inr l'"
  proof -
    have few: "few_solana_approvals V bs" using data pay call(2) by (simp add: few_solana_approvals_def)
    from iffD1 [OF solana_signed_iff [OF few] ok] ctx call(1) pay(1-3) show ?thesis
      by (auto simp: signed_context_def)
  qed
  then have l': "at_data (l' (ar_key state_acc)) = 0 # bump # sv_borsh_state V \<lparr>ct_set = new,
      ct_next_event_id = ct_next_event_id s + 1, ct_next_action_id = ct_next_action_id s + 1\<rparr> @ extra \<and> extra \<noteq> []"
    if "extra = drop (length (sv_borsh_state V \<lparr>ct_set = new, ct_next_event_id = ct_next_event_id s + 1,
      ct_next_action_id = ct_next_action_id s + 1\<rparr>) + 2) (at_data (l (ar_key state_acc)))" for extra
    using shorter that
    by (auto simp: bridge_accepts_iff serialize_into_growable_def Let_def not_le split: if_splits)
  have unreadable: "\<not> is_ok (load_pda V cx2 0 (sv_unborsh_state V) acc state_seeds l2)" if "ar_key acc = ar_key state_acc" for acc
    using l' [OF refl] strict later(1) that by (auto simp: borsh_strict_def load_pda_def deserialize_from_def is_ok_iff result_simps Let_def split: if_splits)
  show ?thesis
    using later(2) unreadable
    by (auto simp: is_ok_iff solana_signed_def solana_regular_def regular_accounts_def result_simps ctx_account_def at_index_def
      Let_def split: if_splits)
qed

lemma sample_context:
  "signed_context sample_svm sample_cx [] sample_ledger \<lparr>ar_key = [8], ar_signer = True, ar_writable = True\<rparr>
     \<lparr>ar_key = [9], ar_signer = False, ar_writable = True\<rparr>
     \<lparr>sd_processor = sig_by 1, sd_approvers = [sig_by 3], sd_payload = ''set''\<rparr> 255 bridge_state"
  by code_simp

lemma sample_call:
  "solana_call sample_svm \<lparr>sd_processor = sig_by 1, sd_approvers = [sig_by 3], sd_payload = ''set''\<rparr> =
     Inr (0, InstallSet smaller_set [key_of 1, key_of 2], key_of 1, [key_of 3])"
  by code_simp

lemma dropWhile_keeps: "\<not> P y \<Longrightarrow> length ys < length (dropWhile P (xs @ y # ys))"
  by (induction xs) auto

lemma sample_borsh_strict: "borsh_strict sample_svm"
  unfolding borsh_strict_def
proof (intro allI impI)
  fix s extra
  assume "(extra :: bytes) \<noteq> []"
  then have "3 < length (dropWhile (\<lambda>b. b \<noteq> 0) (sample_borsh s @ extra))"
    using dropWhile_keeps [of "\<lambda>b. b \<noteq> (0 :: u8)" 0 "[ucast (ct_next_event_id s), ucast (ct_next_action_id s)] @ extra"
      "map (\<lambda>k. last (pk_bytes k)) (approvers (ct_set s))"]
    by (cases extra) (simp_all add: sample_borsh_def)
  then show "sv_unborsh_state sample_svm (sv_borsh_state sample_svm s @ extra) = None"
    by (auto simp: sample_svm_def sample_unborsh_def split: list.split)
qed

lemma shrunk_state_cannot_be_read_witness:
  "\<exists>l' logs. solana_signed sample_svm sample_cx [] sample_ledger = Inr (l', logs) \<and>
     \<not> is_ok (solana_signed sample_svm sample_cx [] l')"
proof -
  obtain l' logs where ok: "solana_signed sample_svm sample_cx [] sample_ledger = Inr (l', logs)" by (rule sample_signed)
  have few: "length [key_of 1, key_of 2] < 2 ^ 16" by simp
  have shorter: "length (sv_borsh_state sample_svm \<lparr>ct_set = smaller_set, ct_next_event_id = ct_next_event_id bridge_state + 1,
      ct_next_action_id = ct_next_action_id bridge_state + 1\<rparr>) + 2 <
      length (at_data (sample_ledger (ar_key \<lparr>ar_key = [9], ar_signer = False, ar_writable = True\<rparr>)))"
    by code_simp
  have acc: "ar_key (cx_accounts sample_cx ! 1) = ar_key \<lparr>ar_key = [9], ar_signer = False, ar_writable = True\<rparr>" by code_simp
  have "\<not> is_ok (solana_signed sample_svm sample_cx [] l')"
    using shrunk_state_cannot_be_read [where ?l2.0 = l', OF ok sample_context sample_call few shorter sample_borsh_strict refl acc] by blast
  with ok show ?thesis by blast
qed

section \<open>Order of actions and events\<close>

text \<open>C24: Whatever calls anyone makes to the Cosmos contract, the accepted actions have consecutive ids from the
  stored next action id on, each id once; every accepted call stores its event under the next event id, and no
  event is ever overwritten: the listeners can read the whole log by counting up.\<close>

theorem cosmos_bridge_log_in_order:
  assumes "cs_state st = Some s" "length (cosmos_accepted A txs st) < 2 ^ 64"
  shows "\<exists>s'. cs_state (cosmos_run A txs st) = Some s' \<and>
     ct_next_event_id s' = ct_next_event_id s + of_nat (length (cosmos_accepted A txs st)) \<and>
     ct_next_action_id s' = ct_next_action_id s + of_nat (length (action_ids A (cosmos_accepted A txs st))) \<and>
     (\<forall>j < length (cosmos_accepted A txs st).
        om_get (cs_events (cosmos_run A txs st)) (ct_next_event_id s + of_nat j) =
          ca_event_json A (tx_event A (cosmos_accepted A txs st ! j))) \<and>
     action_ids A (cosmos_accepted A txs st) =
       map (\<lambda>j. ct_next_action_id s + of_nat j) [0..<length (action_ids A (cosmos_accepted A txs st))]"
  using cosmos_run_log [OF assms] by (simp add: cosmos_log_def)

definition sample_txs :: "cosmos_tx list" where
  "sample_txs = [(''ann'', [], CosmosRegular []), (''bob'', [], CosmosSigned (sig_by 1) [sig_by 3] ''pay''),
     (''bob'', [], CosmosSigned (sig_by 1) [sig_by 3] ''pay'')]"

lemma cosmos_bridge_log_in_order_witness:
  "length (cosmos_accepted sample_api sample_txs bridge_storage) = 2 \<and>
   action_ids sample_api (cosmos_accepted sample_api sample_txs bridge_storage) = [0] \<and>
   (\<exists>s'. cs_state (cosmos_run sample_api sample_txs bridge_storage) = Some s' \<and> ct_next_event_id s' = 3)"
proof -
  have n: "length (cosmos_accepted sample_api sample_txs bridge_storage) = 2" by code_simp
  have ids: "action_ids sample_api (cosmos_accepted sample_api sample_txs bridge_storage) = [0]" by code_simp
  have start: "cs_state bridge_storage = Some bridge_state" by (simp add: bridge_storage_def)
  from cosmos_bridge_log_in_order [OF start, of sample_api sample_txs] show ?thesis
    by (auto simp: n ids bridge_state_def)
qed

end
