(* ===== verification/Execution.thy ===== *)
theory Execution
  imports Payload
begin

text \<open>
  Transaction execution (\<open>kolme/src/core/execute.rs\<close>): the execution context threaded through
  the messages of a transaction, one definition per handler, and \<open>execute_transaction\<close> itself.
  The loop over ready bridge events is a \<open>function\<close> whose termination proof rests on the fact that
  processing an event never adds one.

  The application is the parameter \<open>e_app_execute\<close>; it acts on the context through the operations
  defined here, which \<open>api_step\<close> lists.
\<close>

section \<open>Context\<close>

datatype log_event =
    LogRegular u64 u64
  | LogNewAdminProposal u64
  | LogAdminProposalApproved u64
  | LogNewBridgeAction external_chain u64

record block_data_load =
  bl_request :: string
  bl_response :: string

datatype data_load_validation = ValidateDataLoads | TrustDataLoads

datatype block_data_handling =
    NoPriorData
  | PriorData "block_data_load list" data_load_validation

record ('d, 's) exec_ctx =
  ec_fs :: "'d framework_state"
  ec_app_state :: 's
  ec_logs :: "string list list"
  ec_loads :: "block_data_load list"
  ec_handling :: block_data_handling
  ec_pubkey :: public_key
  ec_sender :: u64
  ec_signing_key :: public_key
  ec_timestamp :: int
  ec_height :: u64

record ('d, 'm, 's) env =
  e_dec :: "'d decimal_ops"
  e_enc :: encoders
  e_recover :: recover_fn
  e_b64_decode :: "string \<Rightarrow> bytes option"
  e_log_json :: "log_event \<Rightarrow> string option"
  e_genesis :: genesis_info
  e_app_execute :: "'m \<Rightarrow> ('d, 's) exec_ctx \<Rightarrow> 'd kerr + ('d, 's) exec_ctx"

definition ctx_log :: "string \<Rightarrow> ('d, 's) exec_ctx \<Rightarrow> 'd kerr + ('d, 's) exec_ctx" where
  "ctx_log msg c =
     (if ec_logs c = [] then Inl (Panic ''unwrap on empty logs'')
      else Inr (c\<lparr>ec_logs := butlast (ec_logs c) @ [last (ec_logs c) @ [msg]]\<rparr>))"

definition log_event ::
  "('d, 'm, 's) env \<Rightarrow> log_event \<Rightarrow> ('d, 's) exec_ctx \<Rightarrow> 'd kerr + ('d, 's) exec_ctx" where
  "log_event E ev c = rbind (ok_or (e_log_json E ev) (Anyhow ''json'')) (\<lambda>s. ctx_log s c)"

definition on_fs ::
  "('d framework_state \<Rightarrow> 'd kerr + 'd framework_state) \<Rightarrow> ('d, 's) exec_ctx \<Rightarrow> 'd kerr + ('d, 's) exec_ctx" where
  "on_fs f c = rbind (f (ec_fs c)) (\<lambda>fs. Inr (c\<lparr>ec_fs := fs\<rparr>))"

definition on_accounts ::
  "('d accounts \<Rightarrow> 'd kerr + 'd accounts) \<Rightarrow> 'd framework_state \<Rightarrow> 'd kerr + 'd framework_state" where
  "on_accounts f fs = rbind (f (fs_accounts fs)) (\<lambda>A. Inr (fs\<lparr>fs_accounts := A\<rparr>))"

definition on_chain ::
  "external_chain \<Rightarrow> ('d chain_state \<Rightarrow> 'd kerr + 'd chain_state) \<Rightarrow> 'd framework_state \<Rightarrow>
    'd kerr + 'd framework_state" where
  "on_chain chain f fs =
     rbind (chains_get fs chain) (\<lambda>cs. rbind (f cs) (\<lambda>cs'. Inr (put_chain chain cs' fs)))"

section \<open>Bridge events\<close>

definition attest ::
  "u64 \<Rightarrow> bridge_event \<Rightarrow> public_key \<Rightarrow> 'd chain_state \<Rightarrow> 'd kerr + 'd chain_state" where
  "attest event_id event key cs =
     (case om_get (cs_pending_events cs) event_id of
        Some p \<Rightarrow>
          if pe_event p \<noteq> event then Inl (Anyhow ''pending.event == *event'')
          else if key \<in> set (pe_attestations p) then Inl (Anyhow ''was_inserted'')
          else Inr (cs\<lparr>cs_pending_events := om_insert event_id
                 (p\<lparr>pe_attestations := os_insert key (pe_attestations p)\<rparr>) (cs_pending_events cs)\<rparr>)
      | None \<Rightarrow>
          if event_id \<noteq> cs_next_event_id cs then Inl (Anyhow ''event_id == state.next_event_id'')
          else Inr (cs\<lparr>cs_next_event_id := event_id + 1,
                 cs_pending_events := om_insert event_id
                   \<lparr>pe_event = event, pe_attestations = os_insert key []\<rparr> (cs_pending_events cs)\<rparr>))"

definition existing_signatures :: "validator_set \<Rightarrow> pending_bridge_event \<Rightarrow> nat" where
  "existing_signatures vs p = length (filter (\<lambda>key. key \<in> set (listeners vs)) (pe_attestations p))"

definition get_next_ready_event ::
  "'d framework_state \<Rightarrow> external_chain \<Rightarrow> 'd kerr + u64 option" where
  "get_next_ready_event fs chain =
     (case om_get (fs_chains fs) chain of
        None \<Rightarrow> Inl (Panic ''unwrap on a missing chain'')
      | Some cs \<Rightarrow>
          (case om_first (cs_pending_events cs) of
             None \<Rightarrow> Inr None
           | Some (event_id, pending) \<Rightarrow>
               rbind (ok_or (u16_try_from (existing_signatures (fs_validator_set fs) pending))
                  (Panic ''Too many attestations found'')) (\<lambda>existing.
                 Inr (if needed_listeners (fs_validator_set fs) \<le> existing then Some event_id else None))))"

definition instantiate_bridge :: "string \<Rightarrow> 'd chain_state \<Rightarrow> 'd kerr + 'd chain_state" where
  "instantiate_bridge contract cs =
     (case cc_bridge (cs_config cs) of
        Deployed _ \<Rightarrow> Inl (Anyhow ''Already have a bridge contract'')
      | _ \<Rightarrow> Inr (cs\<lparr>cs_config := (cs_config cs)\<lparr>cc_bridge := Deployed contract\<rparr>\<rparr>))"

definition deposit_fund ::
  "'d decimal_ops \<Rightarrow> external_chain \<Rightarrow> u64 \<Rightarrow> string \<times> u128 \<Rightarrow> 'd framework_state \<Rightarrow>
    'd kerr + 'd framework_state" where
  "deposit_fund D chain account_id fund fs =
     rbind (chains_get fs chain) (\<lambda>cs.
       case om_get (cc_assets (cs_config cs)) (fst fund) of
         None \<Rightarrow> Inr fs
       | Some ac \<Rightarrow>
           rbind (to_decimal D ac (snd fund)) (\<lambda>amount.
           rbind (on_accounts (mint D account_id (ac_asset_id ac) amount) fs)
             (on_chain chain (cs_deposit D (ac_asset_id ac) amount))))"

definition regular_event ::
  "'d decimal_ops \<Rightarrow> external_chain \<Rightarrow> string \<Rightarrow> (string \<times> u128) list \<Rightarrow> public_key list \<Rightarrow>
    'd framework_state \<Rightarrow> 'd kerr + (u64 \<times> 'd framework_state)" where
  "regular_event D chain wallet funds keys fs =
     rbind (get_or_add_account_for_wallet wallet (fs_accounts fs)) (\<lambda>(account_id, A).
     rbind (rfold (add_pubkey_to_account_ignore_overlap account_id) keys A) (\<lambda>A'.
     rbind (rfold (deposit_fund D chain account_id) funds (fs\<lparr>fs_accounts := A'\<rparr>)) (\<lambda>fs'.
       Inr (account_id, fs'))))"

definition signed_event :: "u64 \<Rightarrow> 'd chain_state \<Rightarrow> 'd kerr + 'd chain_state" where
  "signed_event action_id cs =
     (case om_keys (cs_pending_actions cs) of
        [] \<Rightarrow> Inl (Anyhow ''Cannot report on an action when no pending actions present'')
      | next_action_id # _ \<Rightarrow>
          if next_action_id \<noteq> action_id then Inl (Anyhow ''*next_action_id == action_id'')
          else Inr (cs\<lparr>cs_pending_actions := om_remove action_id (cs_pending_actions cs)\<rparr>))"

definition process_event ::
  "('d, 'm, 's) env \<Rightarrow> external_chain \<Rightarrow> u64 \<Rightarrow> bridge_event \<Rightarrow> ('d, 's) exec_ctx \<Rightarrow>
    'd kerr + ('d, 's) exec_ctx" where
  "process_event E chain event_id event c =
     (case event of
        Instantiated contract \<Rightarrow> on_fs (on_chain chain (instantiate_bridge contract)) c
      | Regular wallet funds keys \<Rightarrow>
          rbind (regular_event (e_dec E) chain wallet funds keys (ec_fs c)) (\<lambda>(account_id, fs).
            log_event E (LogRegular event_id account_id) (c\<lparr>ec_fs := fs\<rparr>))
      | Signed _ action_id \<Rightarrow> on_fs (on_chain chain (signed_event action_id)) c)"

definition remove_event :: "external_chain \<Rightarrow> u64 \<Rightarrow> ('d, 's) exec_ctx \<Rightarrow>
    'd kerr + (bridge_event \<times> ('d, 's) exec_ctx)" where
  "remove_event chain event_id c =
     (case om_get (fs_chains (ec_fs c)) chain of
        None \<Rightarrow> Inl (Panic ''unwrap on a missing chain'')
      | Some cs \<Rightarrow>
          (case om_get (cs_pending_events cs) event_id of
             None \<Rightarrow> Inl (Panic ''unwrap on a missing event'')
           | Some p \<Rightarrow> Inr (pe_event p, c\<lparr>ec_fs := put_chain chain
                (cs\<lparr>cs_pending_events := om_remove event_id (cs_pending_events cs)\<rparr>) (ec_fs c)\<rparr>)))"

text \<open>Processing an event leaves every chain's event queue alone.\<close>

definition events_of :: "'d framework_state \<Rightarrow> external_chain \<Rightarrow> (u64, pending_bridge_event) omap" where
  "events_of fs chain =
     (case om_get (fs_chains fs) chain of None \<Rightarrow> [] | Some cs \<Rightarrow> cs_pending_events cs)"

lemma events_of_simps [simp]:
  "events_of (fs\<lparr>fs_accounts := A\<rparr>) = events_of fs"
  "events_of (fs\<lparr>fs_admin := ap\<rparr>) = events_of fs"
  "events_of (fs\<lparr>fs_validator_set := vs\<rparr>) = events_of fs"
  "events_of (fs\<lparr>fs_version := w\<rparr>) = events_of fs"
  by (simp_all add: events_of_def fun_eq_iff)

lemma events_of_put [simp]:
  "events_of (put_chain chain cs fs) k = (if k = chain then cs_pending_events cs else events_of fs k)"
  by (simp add: events_of_def put_chain_def)

lemma chains_get_Inr [result_simps]: "chains_get fs chain = Inr cs \<longleftrightarrow> om_get (fs_chains fs) chain = Some cs"
  by (simp add: chains_get_def result_simps)

lemma on_chain_events:
  assumes "on_chain chain f fs = Inr fs'"
    and "\<And>cs cs'. f cs = Inr cs' \<Longrightarrow> cs_pending_events cs' = cs_pending_events cs"
  shows "events_of fs' = events_of fs"
  using assms by (auto simp: on_chain_def result_simps fun_eq_iff events_of_def put_chain_def)

lemma on_accounts_events: "on_accounts f fs = Inr fs' \<Longrightarrow> events_of fs' = events_of fs"
  by (auto simp: on_accounts_def result_simps)

lemma cs_ops_events [frame]:
  "instantiate_bridge x cs = Inr cs' \<Longrightarrow> cs_pending_events cs' = cs_pending_events cs"
  "signed_event i cs = Inr cs' \<Longrightarrow> cs_pending_events cs' = cs_pending_events cs"
  "cs_deposit D s d cs = Inr cs' \<Longrightarrow> cs_pending_events cs' = cs_pending_events cs"
  "cs_withdraw D s d cs = Inr cs' \<Longrightarrow> cs_pending_events cs' = cs_pending_events cs"
  by (auto simp: instantiate_bridge_def signed_event_def cs_deposit_def cs_withdraw_def Let_def
      split: bridge_contract.splits list.splits if_splits option.splits)

lemma deposit_fund_events: "deposit_fund D chain i f fs = Inr fs' \<Longrightarrow> events_of fs' = events_of fs"
  unfolding deposit_fund_def rbind_Inr_iff
  by (auto simp: rbind_Inr_iff split: option.splits
      dest!: on_accounts_events on_chain_events dest: cs_ops_events)

lemma regular_event_events: 
  assumes "regular_event D chain w funds keys fs = Inr (i, fs')"
  shows "events_of fs' = events_of fs"
proof -
  from assms obtain A where "rfold (deposit_fund D chain i) funds (fs\<lparr>fs_accounts := A\<rparr>) = Inr fs'"
    by (auto simp: regular_event_def result_simps)
  then have "events_of fs' = events_of (fs\<lparr>fs_accounts := A\<rparr>)"
    by (rule rfold_invariant [where I = "\<lambda>t. events_of t = events_of (fs\<lparr>fs_accounts := A\<rparr>)"])
      (auto dest: deposit_fund_events)
  then show ?thesis by simp
qed

lemma ctx_log_fs [frame]: "ctx_log s c = Inr c' \<Longrightarrow> ec_fs c' = ec_fs c"
  by (auto simp: ctx_log_def split: if_splits)

lemma log_event_fs [frame]: "log_event E ev c = Inr c' \<Longrightarrow> ec_fs c' = ec_fs c"
  by (auto simp: log_event_def result_simps dest: ctx_log_fs)

lemma process_event_events:
  assumes "process_event E chain i ev c = Inr c'"
  shows "events_of (ec_fs c') = events_of (ec_fs c)"
proof (cases ev)
  case (Instantiated x)
  with assms show ?thesis
    by (auto simp: process_event_def on_fs_def rbind_Inr_iff intro!: on_chain_events intro: cs_ops_events)
next
  case (Regular w funds keys)
  with assms show ?thesis
    by (auto simp: process_event_def rbind_Inr_iff dest!: log_event_fs regular_event_events)
next
  case (Signed w x)
  with assms show ?thesis
    by (auto simp: process_event_def on_fs_def rbind_Inr_iff intro!: on_chain_events intro: cs_ops_events)
qed

lemma remove_event_shrinks:
  assumes "remove_event chain i c = Inr (ev, c')"
  shows "length (events_of (ec_fs c') chain) < length (events_of (ec_fs c) chain)"
proof -
  from assms obtain cs p where *: "om_get (fs_chains (ec_fs c)) chain = Some cs"
    "om_get (cs_pending_events cs) i = Some p"
    "c' = c\<lparr>ec_fs := put_chain chain
                (cs\<lparr>cs_pending_events := om_remove i (cs_pending_events cs)\<rparr>) (ec_fs c)\<rparr>"
    by (auto simp: remove_event_def split: option.splits)
  from *(2) have "\<exists>e \<in> set (cs_pending_events cs). \<not> fst e \<noteq> i"
    using om_get_in_set by force
  then have "length (om_remove i (cs_pending_events cs)) < length (cs_pending_events cs)"
    unfolding om_remove_def by (auto intro: length_filter_less)
  moreover have "events_of (ec_fs c) chain = cs_pending_events cs"
    using *(1) by (simp add: events_of_def)
  ultimately show ?thesis using *(3) by simp
qed

function (sequential) process_ready_events ::
  "('d, 'm, 's) env \<Rightarrow> external_chain \<Rightarrow> ('d, 's) exec_ctx \<Rightarrow> 'd kerr + ('d, 's) exec_ctx" where
  "process_ready_events E chain c =
     rbind (get_next_ready_event (ec_fs c) chain) (\<lambda>ready.
       case ready of
         None \<Rightarrow> Inr c
       | Some event_id \<Rightarrow>
           rbind (remove_event chain event_id c) (\<lambda>r.
           rbind (process_event E chain event_id (fst r) (snd r)) (\<lambda>c'.
             process_ready_events E chain c')))"
  by pat_completeness auto

termination
  by (relation "measure (\<lambda>(E, chain, c). length (events_of (ec_fs c) chain))")
    (auto dest!: remove_event_shrinks process_event_events)

declare process_ready_events.simps [simp del]

definition listener ::
  "('d, 'm, 's) env \<Rightarrow> external_chain \<Rightarrow> bridge_event \<Rightarrow> u64 \<Rightarrow> ('d, 's) exec_ctx \<Rightarrow>
    'd kerr + ('d, 's) exec_ctx" where
  "listener E chain event event_id c =
     rbind (ensure (ec_pubkey c \<in> set (listeners (fs_validator_set (ec_fs c))))
       (Anyhow ''not part of the listener set'')) (\<lambda>_.
     rbind (on_fs (on_chain chain (attest event_id event (ec_pubkey c))) c) (\<lambda>c'.
       process_ready_events E chain c'))"


section \<open>Bridge actions\<close>

definition approve ::
  "('d, 'm, 's) env \<Rightarrow> external_chain \<Rightarrow> u64 \<Rightarrow> sigrec \<Rightarrow> 'd framework_state \<Rightarrow>
    'd kerr + 'd framework_state" where
  "approve E chain action_id sg fs =
     on_chain chain (\<lambda>cs.
       rbind (ok_or (om_get (cs_pending_actions cs) action_id)
         (Anyhow ''Cannot approve missing bridge action ID'')) (\<lambda>action.
       rbind (payload_bytes_to_sign (e_b64_decode E) action chain) (\<lambda>payload.
       rbind (ok_or (sig_validate (e_recover E) sg payload) PublicKeyError) (\<lambda>key.
       rbind (ensure (key \<in> set (approvers (fs_validator_set fs))) (Anyhow ''not an approver'')) (\<lambda>_.
       rbind (ensure (om_get (pa_approvals action) key = None)
         (Anyhow ''Cannot approve with already-used public key'')) (\<lambda>_.
         Inr (cs\<lparr>cs_pending_actions := om_insert action_id
           (action\<lparr>pa_approvals := om_insert key sg (pa_approvals action)\<rparr>)
           (cs_pending_actions cs)\<rparr>))))))) fs"

definition check_approver :: "recover_fn \<Rightarrow> public_key list \<Rightarrow> bytes \<Rightarrow> sigrec \<Rightarrow> 'd kerr + public_key" where
  "check_approver rcv aps payload sg =
     rbind (ok_or (sig_validate rcv sg payload) PublicKeyError) (\<lambda>pubkey.
     rbind (ensure (pubkey \<in> set aps) (Anyhow ''not an approver'')) (\<lambda>_. Inr pubkey))"

definition processor_approve ::
  "('d, 'm, 's) env \<Rightarrow> external_chain \<Rightarrow> u64 \<Rightarrow> sigrec \<Rightarrow> sigrec list \<Rightarrow> 'd framework_state \<Rightarrow>
    'd kerr + 'd framework_state" where
  "processor_approve E chain action_id proc sgs fs =
     rbind (ensure (unat (needed_approvers (fs_validator_set fs)) \<le> length sgs)
       (Anyhow ''approvers.len() >= needed_approvers'')) (\<lambda>_.
     on_chain chain (\<lambda>cs.
       rbind (ok_or (om_get (cs_pending_actions cs) action_id)
         (Anyhow ''No pending action found'')) (\<lambda>action.
       rbind (ensure (pa_processor action = None) (Anyhow ''action.processor.is_none()'')) (\<lambda>_.
       rbind (payload_bytes_to_sign (e_b64_decode E) action chain) (\<lambda>payload.
       rbind (ok_or (sig_validate (e_recover E) proc payload) PublicKeyError) (\<lambda>processor_key.
       rbind (ensure (processor_key = processor (fs_validator_set fs)) (Anyhow ''processor key'')) (\<lambda>_.
       rbind (rmap (check_approver (e_recover E) (approvers (fs_validator_set fs)) payload) sgs) (\<lambda>keys.
       rbind (ensure (length sgs = length (os_of_list keys)) (Anyhow ''duplicate approvers'')) (\<lambda>_.
         Inr (cs\<lparr>cs_pending_actions := om_insert action_id
           (action\<lparr>pa_processor := Some proc\<rparr>) (cs_pending_actions cs)\<rparr>))))))))) fs)"

definition add_action ::
  "('d, 'm, 's) env \<Rightarrow> external_chain \<Rightarrow> exec_action \<Rightarrow> ('d, 's) exec_ctx \<Rightarrow>
    'd kerr + (u64 \<times> ('d, 's) exec_ctx)" where
  "add_action E chain action c =
     rbind (chains_get (ec_fs c) chain) (\<lambda>cs.
     let i = cs_next_action_id cs in
     rbind (to_payload (e_enc E) action chain (cs_config cs) i) (\<lambda>payload.
     let cs' = cs\<lparr>cs_pending_actions := om_insert i
                 \<lparr>pa_payload = payload, pa_approvals = [], pa_processor = None\<rparr> (cs_pending_actions cs),
               cs_next_action_id := cs_next_action_id cs + 1\<rparr> in
     rbind (log_event E (LogNewBridgeAction chain i) (c\<lparr>ec_fs := put_chain chain cs' (ec_fs c)\<rparr>)) (\<lambda>c'.
       Inr (i, c'))))"

definition add_action_all_chains ::
  "('d, 'm, 's) env \<Rightarrow> exec_action \<Rightarrow> ('d, 's) exec_ctx \<Rightarrow> 'd kerr + ('d, 's) exec_ctx" where
  "add_action_all_chains E action c =
     rfold (\<lambda>chain c. rbind (add_action E chain action c) (\<lambda>(_, c'). Inr c'))
       (om_keys (fs_chains (ec_fs c))) c"

section \<open>Assets\<close>

definition mint_asset ::
  "'d decimal_ops \<Rightarrow> u64 \<Rightarrow> u64 \<Rightarrow> 'd \<Rightarrow> ('d, 's) exec_ctx \<Rightarrow> 'd kerr + ('d, 's) exec_ctx" where
  "mint_asset D asset_id recipient amount =
     on_fs (on_accounts (mint D recipient asset_id amount))"

definition burn_asset ::
  "'d decimal_ops \<Rightarrow> u64 \<Rightarrow> u64 \<Rightarrow> 'd \<Rightarrow> ('d, 's) exec_ctx \<Rightarrow> 'd kerr + ('d, 's) exec_ctx" where
  "burn_asset D asset_id owner amount =
     on_fs (on_accounts (burn D owner asset_id amount))"

definition transfer_asset ::
  "'d decimal_ops \<Rightarrow> u64 \<Rightarrow> u64 \<Rightarrow> u64 \<Rightarrow> 'd \<Rightarrow> ('d, 's) exec_ctx \<Rightarrow> 'd kerr + ('d, 's) exec_ctx" where
  "transfer_asset D asset_id source dest amount c =
     rbind (burn_asset D asset_id source amount c) (mint_asset D asset_id dest amount)"

definition withdraw_asset ::
  "('d, 'm, 's) env \<Rightarrow> u64 \<Rightarrow> external_chain \<Rightarrow> u64 \<Rightarrow> string \<Rightarrow> 'd \<Rightarrow> ('d, 's) exec_ctx \<Rightarrow>
    'd kerr + (u64 \<times> ('d, 's) exec_ctx)" where
  "withdraw_asset E asset_id chain source wallet amount c =
     rbind (get_asset_config (ec_fs c) chain asset_id) (\<lambda>config.
     rbind (to_u128 (e_dec E) config amount) (\<lambda>(amount_dec, amount_u128).
     rbind (on_fs (on_accounts (burn (e_dec E) source asset_id amount_dec)) c) (\<lambda>c1.
     rbind (on_fs (on_chain chain (cs_withdraw (e_dec E) asset_id amount)) c1) (\<lambda>c2.
       add_action E chain (ExecTransfer chain wallet [\<lparr>aa_id = asset_id, aa_amount = amount_u128\<rparr>]) c2))))"

fun bank :: "('d, 'm, 's) env \<Rightarrow> 'd bank_message \<Rightarrow> ('d, 's) exec_ctx \<Rightarrow> 'd kerr + ('d, 's) exec_ctx" where
  "bank E (BankWithdraw asset chain dest amount) c =
     rbind (withdraw_asset E asset chain (ec_sender c) dest amount c) (\<lambda>(_, c'). Inr c')"
| "bank E (BankTransfer asset dest amount) c =
     transfer_asset (e_dec E) asset (ec_sender c) dest amount c"

section \<open>Data loads\<close>

record ('d, 'q, 'r) data_request =
  rq_to_json :: "'q \<Rightarrow> string option"
  rq_of_json :: "string \<Rightarrow> 'q option"
  rs_to_json :: "'r \<Rightarrow> string option"
  rs_of_json :: "string \<Rightarrow> 'r option"
  rq_load :: "'q \<Rightarrow> 'd kerr + 'r"
  rq_validate :: "'q \<Rightarrow> 'r \<Rightarrow> 'd kerr + unit"

definition load_data ::
  "('d, 'q, 'r) data_request \<Rightarrow> 'q \<Rightarrow> ('d, 's) exec_ctx \<Rightarrow> 'd kerr + ('r \<times> ('d, 's) exec_ctx)" where
  "load_data Q req c =
     rbind (ok_or (rq_to_json Q req) (Anyhow ''json'')) (\<lambda>request_str.
     rbind (case ec_handling c of
         PriorData loads validation \<Rightarrow>
           (case loads of
              [] \<Rightarrow> Inl (Anyhow ''Incorrect number of data loads'')
            | l # rest \<Rightarrow>
                rbind (ok_or (rq_of_json Q (bl_request l)) (Anyhow ''json'')) (\<lambda>prev_req.
                rbind (ok_or (rs_of_json Q (bl_response l)) (Anyhow ''json'')) (\<lambda>prev_res.
                rbind (ensure (prev_req = req) (Anyhow ''prev_req == req'')) (\<lambda>_.
                rbind (case validation of
                         ValidateDataLoads \<Rightarrow> rq_validate Q req prev_res
                       | TrustDataLoads \<Rightarrow> Inr ()) (\<lambda>_.
                  Inr (prev_res, PriorData rest validation))))))
       | NoPriorData \<Rightarrow> rbind (rq_load Q req) (\<lambda>res. Inr (res, NoPriorData))) (\<lambda>(res, handling).
     rbind (ok_or (rs_to_json Q res) (Anyhow ''json'')) (\<lambda>response_str.
       Inr (res, c\<lparr>ec_handling := handling,
         ec_loads := ec_loads c @ [\<lparr>bl_request = request_str, bl_response = response_str\<rparr>]\<rparr>))))"

section \<open>Authentication\<close>

definition auth :: "auth_message \<Rightarrow> ('d, 's) exec_ctx \<Rightarrow> 'd kerr + ('d, 's) exec_ctx" where
  "auth a c = (case a of
     AddPublicKey key \<Rightarrow>
       on_fs (on_accounts (add_pubkey_to_account_error_overlap (ec_sender c) key)) c
   | RemovePublicKey key \<Rightarrow>
       rbind (ensure (key \<noteq> ec_signing_key c) (Anyhow ''Cannot remove the signing key'')) (\<lambda>_.
         on_fs (on_accounts (remove_pubkey_from_account (ec_sender c) key)) c)
   | AddWallet w \<Rightarrow> on_fs (on_accounts (add_wallet_to_account (ec_sender c) w)) c
   | RemoveWallet w \<Rightarrow> on_fs (on_accounts (remove_wallet_from_account (ec_sender c) w)) c)"

section \<open>Admin messages\<close>

definition replace_member :: "public_key \<Rightarrow> public_key \<Rightarrow> public_key list \<Rightarrow> 'd kerr + public_key list" where
  "replace_member sender repl members =
     (if sender \<notin> set members then Inl (Anyhow ''not a member of the set and cannot self-replace'')
      else Inr (os_insert repl (os_remove sender members)))"

definition apply_self_replace ::
  "public_key \<Rightarrow> self_replace \<Rightarrow> validator_set \<Rightarrow> 'd kerr + validator_set" where
  "apply_self_replace signer sr vs =
     (case validator_type sr of
        ProcessorType \<Rightarrow>
          if processor vs = signer then Inr (vs\<lparr>processor := replacement sr\<rparr>)
          else Inl (Anyhow ''not the current processor and cannot self-replace'')
      | ListenerType \<Rightarrow>
          rbind (replace_member signer (replacement sr) (listeners vs)) (\<lambda>l. Inr (vs\<lparr>listeners := l\<rparr>))
      | ApproverType \<Rightarrow>
          rbind (replace_member signer (replacement sr) (approvers vs)) (\<lambda>a. Inr (vs\<lparr>approvers := a\<rparr>)))"

definition add_admin_proposal ::
  "('d, 'm, 's) env \<Rightarrow> proposal_payload \<Rightarrow> public_key \<Rightarrow> sigrec \<Rightarrow> ('d, 's) exec_ctx \<Rightarrow>
    'd kerr + ('d, 's) exec_ctx" where
  "add_admin_proposal E payload pubkey sg c =
     (let ap = fs_admin (ec_fs c) in
      rbind (ensure (\<forall>e \<in> set (ap_proposals ap). \<not> payload_eq (pp_payload (snd e)) payload)
        (Anyhow ''Identical proposal already exists'')) (\<lambda>_.
      let i = ap_next_id ap;
          ap' = \<lparr>ap_next_id = i + 1,
                 ap_proposals = om_insert i \<lparr>pp_payload = payload, pp_approvals = [(pubkey, sg)]\<rparr>
                   (ap_proposals ap)\<rparr>
      in log_event E (LogNewAdminProposal i) (c\<lparr>ec_fs := (ec_fs c)\<lparr>fs_admin := ap'\<rparr>\<rparr>)))"

definition find_approved_proposal :: "'d framework_state \<Rightarrow> (u64 \<times> pending_proposal) option" where
  "find_approved_proposal fs =
     find (\<lambda>e. has_sufficient_approvals (snd e) (fs_validator_set fs)) (ap_proposals (fs_admin fs))"

definition apply_proposal ::
  "('d, 'm, 's) env \<Rightarrow> pending_proposal \<Rightarrow> ('d, 's) exec_ctx \<Rightarrow> 'd kerr + ('d, 's) exec_ctx" where
  "apply_proposal E p c =
     (case pp_payload p of
        ProposeNewSet vs \<Rightarrow>
          add_action_all_chains E (ExecNewSet vs (om_values (pp_approvals p)))
            (c\<lparr>ec_fs := (ec_fs c)\<lparr>fs_validator_set := tj_value vs\<rparr>\<rparr>)
      | ProposeMigrateContract m \<Rightarrow>
          rbind (add_action E (migrate_chain (tj_value m)) (ExecMigrateContract m) c) (\<lambda>(_, c'). Inr c')
      | ProposeUpgrade u \<Rightarrow>
          Inr (c\<lparr>ec_fs := (ec_fs c)\<lparr>fs_version := desired_version (tj_value u)\<rparr>\<rparr>))"

definition clear_proposals :: "'d framework_state \<Rightarrow> 'd framework_state" where
  "clear_proposals fs = fs\<lparr>fs_admin := (fs_admin fs)\<lparr>ap_proposals := []\<rparr>\<rparr>"

definition check_pending_proposals ::
  "('d, 'm, 's) env \<Rightarrow> ('d, 's) exec_ctx \<Rightarrow> 'd kerr + ('d, 's) exec_ctx" where
  "check_pending_proposals E c =
     (case find_approved_proposal (ec_fs c) of
        None \<Rightarrow> Inr c
      | Some (i, p) \<Rightarrow>
          rbind (log_event E (LogAdminProposalApproved i) c) (\<lambda>c1.
          rbind (apply_proposal E p c1) (\<lambda>c2.
            Inr (c2\<lparr>ec_fs := clear_proposals (ec_fs c2)\<rparr>))))"

definition verify_signer ::
  "('d, 'm, 's) env \<Rightarrow> 'a signed_tagged_json \<Rightarrow> ('d, 's) exec_ctx \<Rightarrow> 'd kerr + public_key" where
  "verify_signer E stj c =
     rbind (stj_verify_signature (e_recover E) stj) (\<lambda>signer.
     rbind (ensure (signer = ec_pubkey c) (Anyhow ''signer == self.pubkey'')) (\<lambda>_. Inr signer))"

definition propose ::
  "('d, 'm, 's) env \<Rightarrow> 'a signed_tagged_json \<Rightarrow> ('a \<Rightarrow> 'd kerr + unit) \<Rightarrow>
    ('a tagged_json \<Rightarrow> proposal_payload) \<Rightarrow> ('d, 's) exec_ctx \<Rightarrow> 'd kerr + ('d, 's) exec_ctx" where
  "propose E stj check mk c =
     rbind (verify_signer E stj c) (\<lambda>_.
     rbind (ensure_is_validator (fs_validator_set (ec_fs c)) (ec_pubkey c)) (\<lambda>_.
     rbind (check (tj_value (stj_message stj))) (\<lambda>_.
     rbind (add_admin_proposal E (mk (stj_message stj)) (ec_pubkey c) (stj_signature_with_recovery stj) c)
       (check_pending_proposals E))))"

definition admin_approve ::
  "('d, 'm, 's) env \<Rightarrow> u64 \<Rightarrow> sigrec \<Rightarrow> ('d, 's) exec_ctx \<Rightarrow> 'd kerr + ('d, 's) exec_ctx" where
  "admin_approve E proposal_id sg c =
     rbind (ensure_is_validator (fs_validator_set (ec_fs c)) (ec_pubkey c)) (\<lambda>_.
     rbind (ok_or (om_get (ap_proposals (fs_admin (ec_fs c))) proposal_id)
       (Anyhow ''Specified an unknown proposal ID'')) (\<lambda>pending.
     rbind (ok_or (sig_validate (e_recover E) sg (payload_as_bytes (pp_payload pending))) PublicKeyError) (\<lambda>pubkey.
     rbind (ensure (pubkey = ec_pubkey c) (Anyhow ''pubkey == self.pubkey'')) (\<lambda>_.
     rbind (ensure (om_get (pp_approvals pending) pubkey = None) (Anyhow ''already approved proposal'')) (\<lambda>_.
       check_pending_proposals E (c\<lparr>ec_fs := (ec_fs c)\<lparr>fs_admin := (fs_admin (ec_fs c))\<lparr>ap_proposals :=
         om_insert proposal_id (pending\<lparr>pp_approvals := om_insert pubkey sg (pp_approvals pending)\<rparr>)
           (ap_proposals (fs_admin (ec_fs c)))\<rparr>\<rparr>\<rparr>))))))"

definition self_replace_msg ::
  "('d, 'm, 's) env \<Rightarrow> self_replace signed_tagged_json \<Rightarrow> ('d, 's) exec_ctx \<Rightarrow>
    'd kerr + ('d, 's) exec_ctx" where
  "self_replace_msg E sr c =
     rbind (verify_signer E sr c) (\<lambda>signer.
     rbind (apply_self_replace signer (tj_value (stj_message sr)) (fs_validator_set (ec_fs c))) (\<lambda>vs.
       add_action_all_chains E (ExecSelfReplace sr)
         (c\<lparr>ec_fs := (ec_fs c)\<lparr>fs_validator_set := vs\<rparr>\<rparr>)))"

fun admin :: "('d, 'm, 's) env \<Rightarrow> admin_message \<Rightarrow> ('d, 's) exec_ctx \<Rightarrow> 'd kerr + ('d, 's) exec_ctx" where
  "admin E (AdminSelfReplace sr) c = self_replace_msg E sr c"
| "admin E (AdminNewSet vs) c = propose E vs validate_set ProposeNewSet c"
| "admin E (AdminMigrateContract m) c = propose E m (\<lambda>_. Inr ()) ProposeMigrateContract c"
| "admin E (AdminUpgrade u) c = propose E u (\<lambda>_. Inr ()) ProposeUpgrade c"
| "admin E (AdminApprove i sg) c = admin_approve E i sg c"

section \<open>Transactions\<close>

fun execute_message ::
  "('d, 'm, 's) env \<Rightarrow> ('d, 'm) message \<Rightarrow> ('d, 's) exec_ctx \<Rightarrow> 'd kerr + ('d, 's) exec_ctx" where
  "execute_message E (MsgGenesis actual) c =
     rbind (ensure (e_genesis E = actual) (Anyhow ''expected == actual'')) (\<lambda>_. Inr c)"
| "execute_message E (MsgApp m) c = e_app_execute E m c"
| "execute_message E (MsgListener chain event_id event) c = listener E chain event event_id c"
| "execute_message E (MsgApprove chain action_id sg) c = on_fs (approve E chain action_id sg) c"
| "execute_message E (MsgProcessorApprove chain action_id proc sgs) c =
     on_fs (processor_approve E chain action_id proc sgs) c"
| "execute_message E (MsgBank b) c = bank E b c"
| "execute_message E (MsgAuth a) c = auth a c"
| "execute_message E (MsgAdmin a) c = admin E a c"

record ('d, 's) kolme_read =
  kr_code_version :: string
  kr_next_height :: u64
  kr_fs :: "'d framework_state"
  kr_app_state :: 's

record ('d, 's) execution_results =
  er_fs :: "'d framework_state"
  er_app_state :: 's
  er_logs :: "string list list"
  er_loads :: "block_data_load list"
  er_height :: u64

definition validate_tx ::
  "('d, 'm, 's) env \<Rightarrow> ('d, 's) kolme_read \<Rightarrow> ('d, 'm) signed_transaction \<Rightarrow> 'd kerr + unit" where
  "validate_tx E k stx =
     rbind (tx_validate_signature (e_recover E) stx) (\<lambda>_.
     let tx = tj_value (stj_message stx) in
     if height_is_start (kr_next_height k)
     then rbind (ensure_is_genesis tx) (\<lambda>_.
            ensure (tx_pubkey tx = processor (fs_validator_set (kr_fs k))) (Anyhow ''processor pubkey''))
     else ensure_no_genesis tx)"

definition message_step ::
  "('d, 'm, 's) env \<Rightarrow> ('d, 'm) message \<Rightarrow> ('d, 's) exec_ctx \<Rightarrow> 'd kerr + ('d, 's) exec_ctx" where
  "message_step E m c = execute_message E m (c\<lparr>ec_logs := ec_logs c @ [[]]\<rparr>)"

definition loads_used :: "block_data_handling \<Rightarrow> 'd kerr + unit" where
  "loads_used h = (case h of
     NoPriorData \<Rightarrow> Inr ()
   | PriorData loads _ \<Rightarrow> ensure (loads = []) (Anyhow ''loads.is_empty()''))"

definition start_ctx ::
  "('d, 's) kolme_read \<Rightarrow> ('d, 'm) transaction \<Rightarrow> int \<Rightarrow> block_data_handling \<Rightarrow> u64 \<Rightarrow> 'd accounts \<Rightarrow>
    ('d, 's) exec_ctx" where
  "start_ctx k tx timestamp handling sender A =
     \<lparr>ec_fs = (kr_fs k)\<lparr>fs_accounts := A\<rparr>, ec_app_state = kr_app_state k, ec_logs = [], ec_loads = [],
      ec_handling = handling, ec_pubkey = tx_pubkey tx, ec_sender = sender,
      ec_signing_key = tx_pubkey tx, ec_timestamp = timestamp, ec_height = kr_next_height k\<rparr>"

definition execute_transaction ::
  "('d, 'm, 's) env \<Rightarrow> ('d, 's) kolme_read \<Rightarrow> ('d, 'm) signed_transaction \<Rightarrow> int \<Rightarrow>
    block_data_handling \<Rightarrow> 'd kerr + ('d, 's) execution_results" where
  "execute_transaction E k stx timestamp handling =
     rbind (ensure (fs_version (kr_fs k) = kr_code_version k) (Anyhow ''Cannot execute transaction'')) (\<lambda>_.
     rbind (validate_tx E k stx) (\<lambda>_.
     let tx = tj_value (stj_message stx) in
     rbind (use_nonce (tx_pubkey tx) (tx_nonce tx) (fs_accounts (kr_fs k))) (\<lambda>(sender, A).
     rbind (rfold (message_step E) (tx_messages tx) (start_ctx k tx timestamp handling sender A)) (\<lambda>c.
     rbind (loads_used (ec_handling c)) (\<lambda>_.
       Inr \<lparr>er_fs = ec_fs c, er_app_state = ec_app_state c, er_logs = ec_logs c,
            er_loads = ec_loads c, er_height = ec_height c\<rparr>)))))"

end
