(* ===== verification/Protocol.thy ===== *)
theory Protocol
  imports Execution
begin

text \<open>
  The abstract specification of transaction execution: a step relation on the framework state
  whose guards are the authority each change needs (a listener to attest, a listener quorum to
  process an event, an approver to approve, two groups of validators for a new set or an
  upgrade).  \<open>execute_transaction_refines\<close> shows that every successful transaction is a sequence
  of such steps by its signer, so an invariant proved by rule induction over the steps holds of
  the code's states.
\<close>

section \<open>Steps\<close>

definition keeps_key :: "public_key \<Rightarrow> 'd accounts \<Rightarrow> 'd accounts \<Rightarrow> bool" where
  "keeps_key pk A A' \<longleftrightarrow>
     (\<forall>i. om_get (pubkey_ix A) pk = Some i \<longrightarrow> om_get (pubkey_ix A') pk = Some i) \<and>
     (\<forall>n. nonce_of A pk = Some n \<longrightarrow> nonce_of A' pk = Some n)"

definition listener_quorum :: "validator_set \<Rightarrow> pending_bridge_event \<Rightarrow> bool" where
  "listener_quorum vs p \<longleftrightarrow> unat (needed_listeners vs) \<le> existing_signatures vs p"

inductive proto_step ::
  "('d, 'm, 's) env \<Rightarrow> public_key \<Rightarrow> 'd framework_state \<Rightarrow> 'd framework_state \<Rightarrow> bool" for E pk where
  ps_account: "accounts_step (e_dec E) (fs_accounts fs) A \<Longrightarrow> keeps_key pk (fs_accounts fs) A \<Longrightarrow>
    proto_step E pk fs (fs\<lparr>fs_accounts := A\<rparr>)"
| ps_attest: "pk \<in> set (listeners (fs_validator_set fs)) \<Longrightarrow>
    on_chain chain (attest i ev pk) fs = Inr fs' \<Longrightarrow> proto_step E pk fs fs'"
| ps_event: "om_get (fs_chains fs) chain = Some cs \<Longrightarrow> om_first (cs_pending_events cs) = Some (i, p) \<Longrightarrow>
    listener_quorum (fs_validator_set fs) p \<Longrightarrow>
    proto_step E pk fs
      (put_chain chain (cs\<lparr>cs_pending_events := om_remove i (cs_pending_events cs)\<rparr>) fs)"
| ps_instantiate: "on_chain chain (instantiate_bridge contract) fs = Inr fs' \<Longrightarrow> proto_step E pk fs fs'"
| ps_deposit: "on_chain chain (cs_deposit (e_dec E) s x) fs = Inr fs' \<Longrightarrow> proto_step E pk fs fs'"
| ps_withdraw: "on_chain chain (cs_withdraw (e_dec E) s x) fs = Inr fs' \<Longrightarrow> proto_step E pk fs fs'"
| ps_signed: "on_chain chain (signed_event i) fs = Inr fs' \<Longrightarrow> proto_step E pk fs fs'"
| ps_approve: "approve E chain i sg fs = Inr fs' \<Longrightarrow> proto_step E pk fs fs'"
| ps_processor_approve: "processor_approve E chain i sg sgs fs = Inr fs' \<Longrightarrow> proto_step E pk fs fs'"
| ps_add_action: "om_get (fs_chains fs) chain = Some cs \<Longrightarrow>
    to_payload (e_enc E) a chain (cs_config cs) (cs_next_action_id cs) = (Inr s :: 'd kerr + string) \<Longrightarrow>
    proto_step E pk fs (put_chain chain (cs\<lparr>
      cs_pending_actions := om_insert (cs_next_action_id cs)
        \<lparr>pa_payload = s, pa_approvals = [], pa_processor = None\<rparr> (cs_pending_actions cs),
      cs_next_action_id := cs_next_action_id cs + 1\<rparr>) fs)"
| ps_self_replace: "apply_self_replace pk sr (fs_validator_set fs) = (Inr vs :: 'd kerr + validator_set) \<Longrightarrow>
    proto_step E pk fs (fs\<lparr>fs_validator_set := vs\<rparr>)"
| ps_propose: "is_validator (fs_validator_set fs) pk \<Longrightarrow>
    sig_validate (e_recover E) sg (payload_as_bytes p) = Some pk \<Longrightarrow>
    (\<And>t. p = ProposeNewSet t \<Longrightarrow> quorum_reachable (tj_value t)) \<Longrightarrow>
    proto_step E pk fs (fs\<lparr>fs_admin := \<lparr>ap_next_id = ap_next_id (fs_admin fs) + 1,
      ap_proposals = om_insert (ap_next_id (fs_admin fs)) \<lparr>pp_payload = p, pp_approvals = [(pk, sg)]\<rparr>
        (ap_proposals (fs_admin fs))\<rparr>\<rparr>)"
| ps_admin_approve: "is_validator (fs_validator_set fs) pk \<Longrightarrow>
    om_get (ap_proposals (fs_admin fs)) i = Some p \<Longrightarrow>
    sig_validate (e_recover E) sg (payload_as_bytes (pp_payload p)) = Some pk \<Longrightarrow>
    proto_step E pk fs (fs\<lparr>fs_admin := (fs_admin fs)\<lparr>ap_proposals :=
      om_insert i (p\<lparr>pp_approvals := om_insert pk sg (pp_approvals p)\<rparr>)
        (ap_proposals (fs_admin fs))\<rparr>\<rparr>)"
| ps_new_set: "(i, p) \<in> set (ap_proposals (fs_admin fs)) \<Longrightarrow>
    has_sufficient_approvals p (fs_validator_set fs) \<Longrightarrow> pp_payload p = ProposeNewSet t \<Longrightarrow>
    proto_step E pk fs (fs\<lparr>fs_validator_set := tj_value t\<rparr>)"
| ps_upgrade: "(i, p) \<in> set (ap_proposals (fs_admin fs)) \<Longrightarrow>
    has_sufficient_approvals p (fs_validator_set fs) \<Longrightarrow> pp_payload p = ProposeUpgrade u \<Longrightarrow>
    proto_step E pk fs (fs\<lparr>fs_version := desired_version (tj_value u)\<rparr>)"
| ps_clear: "proto_step E pk fs (clear_proposals fs)"

definition ctx_run ::
  "('d, 'm, 's) env \<Rightarrow> ('d, 's) exec_ctx \<Rightarrow> ('d, 's) exec_ctx \<Rightarrow> bool" where
  "ctx_run E c c' \<longleftrightarrow> (proto_step E (ec_pubkey c))\<^sup>*\<^sup>* (ec_fs c) (ec_fs c') \<and>
     ec_pubkey c' = ec_pubkey c \<and> ec_sender c' = ec_sender c \<and> ec_signing_key c' = ec_signing_key c"

lemma ctx_run_refl [intro, simp]: "ctx_run E c c"
  by (simp add: ctx_run_def)

lemma ctx_run_trans: "ctx_run E c c' \<Longrightarrow> ctx_run E c' c'' \<Longrightarrow> ctx_run E c c''"
  by (auto simp: ctx_run_def intro: rtranclp_trans)

lemma ctx_run_step:
  "proto_step E (ec_pubkey c) (ec_fs c) fs \<Longrightarrow> ctx_run E c (c\<lparr>ec_fs := fs\<rparr>)"
  by (auto simp: ctx_run_def)

lemma ctx_run_steps:
  "(proto_step E (ec_pubkey c))\<^sup>*\<^sup>* (ec_fs c) fs \<Longrightarrow> ctx_run E c (c\<lparr>ec_fs := fs\<rparr>)"
  by (simp add: ctx_run_def)

lemma on_fs_run:
  assumes "on_fs f c = Inr c'" "\<And>fs'. f (ec_fs c) = Inr fs' \<Longrightarrow> proto_step E (ec_pubkey c) (ec_fs c) fs'"
  shows "ctx_run E c c'"
  using assms by (auto simp: on_fs_def result_simps intro!: ctx_run_step)

lemma rfold_run:
  assumes "rfold f xs c = Inr c'" "\<And>x c c'. x \<in> set xs \<Longrightarrow> f x c = Inr c' \<Longrightarrow> ctx_run E c c'"
  shows "ctx_run E c c'"
  using assms(1) by (rule rfold_invariant [where I = "ctx_run E c"]) (auto intro: ctx_run_trans assms(2))

lemma ctx_log_run: "ctx_log s c = Inr c' \<Longrightarrow> ctx_run E c c'"
  by (auto simp: ctx_log_def ctx_run_def split: if_splits)

lemma log_event_run: "log_event E ev c = Inr c' \<Longrightarrow> ctx_run E c c'"
  by (auto simp: log_event_def result_simps dest: ctx_log_run)

section \<open>Accounts\<close>

lemma keeps_key_refl [simp]: "keeps_key pk A A"
  by (simp add: keeps_key_def)

lemma keeps_key_put:
  assumes "\<And>b. om_get (accts A) i = Some b \<Longrightarrow> next_nonce a = next_nonce b"
  shows "keeps_key pk A (put_account i a A)"
  using assms by (auto simp: keeps_key_def nonce_of_def split: option.splits)

lemma keeps_key_link_pubkey:
  assumes "om_get (pubkey_ix A) k = None" "\<And>b. om_get (accts A) i = Some b \<Longrightarrow> next_nonce a = next_nonce b"
  shows "keeps_key pk A (link_pubkey i a k A)"
  using assms by (auto simp: keeps_key_def nonce_of_def link_pubkey_def split: option.splits)

lemma keeps_key_link_wallet:
  assumes "\<And>b. om_get (accts A) i = Some b \<Longrightarrow> next_nonce a = next_nonce b"
  shows "keeps_key pk A (link_wallet i a w A)"
  using assms by (auto simp: keeps_key_def nonce_of_def link_wallet_def split: option.splits)

lemmas keeps_key_intros = keeps_key_put keeps_key_link_pubkey keeps_key_link_wallet

lemma keeps_key_ops:
  "mint D i s x A = Inr A' \<Longrightarrow> keeps_key pk A A'"
  "burn D i s x A = Inr A' \<Longrightarrow> keeps_key pk A A'"
  "add_pubkey_to_account_error_overlap i k A = Inr A' \<Longrightarrow> keeps_key pk A A'"
  "add_pubkey_to_account_ignore_overlap i k A = Inr A' \<Longrightarrow> keeps_key pk A A'"
  "get_or_add_account_for_key k A = (i, A') \<Longrightarrow> keeps_key pk A A'"
  "get_or_add_account_for_wallet w A = Inr (i, A') \<Longrightarrow> keeps_key pk A A'"
  "add_wallet_to_account i w A = Inr A' \<Longrightarrow> keeps_key pk A A'"
  by (auto simp: add_pubkey_to_account_error_overlap_def add_pubkey_to_account_ignore_overlap_def
      get_or_add_account_for_key_def get_or_add_account_for_wallet_def add_wallet_to_account_def
      om_contains_def Let_def get_or_default_def
      dest!: mint_Inr burn_Inr split: if_splits option.splits intro!: keeps_key_intros)

lemma keeps_key_removals:
  "remove_pubkey_from_account i k A = Inr A' \<Longrightarrow> k \<noteq> pk \<Longrightarrow> keeps_key pk A A'"
  "remove_wallet_from_account i w A = Inr A' \<Longrightarrow> keeps_key pk A A'"
  by (auto simp: keeps_key_def nonce_of_def remove_pubkey_from_account_def
      remove_wallet_from_account_def split: if_splits option.splits)

lemma on_accounts_step:
  assumes "on_accounts f fs = Inr fs'"
    and "\<And>A'. f (fs_accounts fs) = Inr A' \<Longrightarrow>
      accounts_step (e_dec E) (fs_accounts fs) A' \<and> keeps_key pk (fs_accounts fs) A'"
  shows "proto_step E pk fs fs'"
  using assms by (auto simp: on_accounts_def result_simps intro: ps_account)

lemma mint_asset_run: "mint_asset (e_dec E) s i x c = Inr c' \<Longrightarrow> ctx_run E c c'"
  unfolding mint_asset_def
  by (elim on_fs_run on_accounts_step) (blast intro: st_mint keeps_key_ops)

lemma burn_asset_run: "burn_asset (e_dec E) s i x c = Inr c' \<Longrightarrow> ctx_run E c c'"
  unfolding burn_asset_def
  by (elim on_fs_run on_accounts_step) (blast intro: st_burn keeps_key_ops)

lemma transfer_asset_run: "transfer_asset (e_dec E) s i j x c = Inr c' \<Longrightarrow> ctx_run E c c'"
  unfolding transfer_asset_def rbind_Inr_iff
  by (blast intro: ctx_run_trans burn_asset_run mint_asset_run)

lemma auth_run:
  assumes "auth a c = Inr c'" "ec_signing_key c = ec_pubkey c"
  shows "ctx_run E c c'"
proof (cases a)
  case (AddPublicKey k)
  show ?thesis
    using assms(1) unfolding auth_def AddPublicKey
    by (simp, elim on_fs_run on_accounts_step) (blast intro: st_add_pubkey keeps_key_ops)
next
  case (RemovePublicKey k)
  show ?thesis
    using assms unfolding auth_def RemovePublicKey
    by (auto simp: rbind_Inr_iff ensure_Inr_iff elim!: on_fs_run on_accounts_step
        intro: st_remove_pubkey keeps_key_removals)
next
  case (AddWallet w)
  show ?thesis
    using assms(1) unfolding auth_def AddWallet
    by (simp, elim on_fs_run on_accounts_step) (blast intro: st_add_wallet keeps_key_ops)
next
  case (RemoveWallet w)
  show ?thesis
    using assms(1) unfolding auth_def RemoveWallet
    by (simp, elim on_fs_run on_accounts_step) (blast intro: st_remove_wallet keeps_key_removals)
qed

section \<open>Bridge events\<close>

lemma deposit_fund_run:
  assumes "deposit_fund (e_dec E) chain i f fs = Inr fs'"
  shows "(proto_step E pk)\<^sup>*\<^sup>* fs fs'"
proof -
  from assms consider "fs' = fs"
    | s x fs1 where "on_accounts (mint (e_dec E) i s x) fs = Inr fs1"
        "on_chain chain (cs_deposit (e_dec E) s x) fs1 = Inr fs'"
    unfolding deposit_fund_def rbind_Inr_iff by (auto simp: rbind_Inr_iff split: option.splits)
  then show ?thesis
  proof cases
    case 2
    from 2(1) have "proto_step E pk fs fs1"
      by (rule on_accounts_step) (blast intro: st_mint keeps_key_ops)
    moreover from 2(2) have "proto_step E pk fs1 fs'" by (rule ps_deposit)
    ultimately show ?thesis by simp
  qed simp
qed

lemma regular_event_run:
  assumes "regular_event (e_dec E) chain w funds keys fs = Inr (i, fs')"
  shows "(proto_step E pk)\<^sup>*\<^sup>* fs fs'"
proof -
  from assms obtain A A' where a: "get_or_add_account_for_wallet w (fs_accounts fs) = Inr (i, A)"
    and k: "rfold (add_pubkey_to_account_ignore_overlap i) keys A = Inr A'"
    and f: "rfold (deposit_fund (e_dec E) chain i) funds (fs\<lparr>fs_accounts := A'\<rparr>) = Inr fs'"
    by (auto simp: regular_event_def result_simps)
  have "proto_step E pk fs (fs\<lparr>fs_accounts := A\<rparr>)"
    using a by (blast intro: ps_account st_account_for_wallet keeps_key_ops)
  then have "(proto_step E pk)\<^sup>*\<^sup>* fs (fs\<lparr>fs_accounts := A'\<rparr>)"
  proof (intro rfold_invariant [OF k, where I = "\<lambda>B. (proto_step E pk)\<^sup>*\<^sup>* fs (fs\<lparr>fs_accounts := B\<rparr>)"])
    fix key B B'
    assume "(proto_step E pk)\<^sup>*\<^sup>* fs (fs\<lparr>fs_accounts := B\<rparr>)"
      and "add_pubkey_to_account_ignore_overlap i key B = Inr B'"
    then show "(proto_step E pk)\<^sup>*\<^sup>* fs (fs\<lparr>fs_accounts := B'\<rparr>)"
      using ps_account [of E "fs\<lparr>fs_accounts := B\<rparr>" B' pk]
      by (auto intro: st_add_pubkey_ignore keeps_key_ops rtranclp.rtrancl_into_rtrancl)
  qed simp
  then show ?thesis
    by (rule rfold_invariant [OF f]) (blast intro: deposit_fund_run rtranclp_trans)
qed

lemma process_event_run:
  assumes "process_event E chain i ev c = Inr c'"
  shows "ctx_run E c c'"
proof (cases ev)
  case (Instantiated x)
  with assms show ?thesis
    by (auto simp: process_event_def elim!: on_fs_run intro: ps_instantiate)
next
  case (Regular w funds keys)
  with assms obtain j fs where "regular_event (e_dec E) chain w funds keys (ec_fs c) = Inr (j, fs)"
    and "log_event E (LogRegular i j) (c\<lparr>ec_fs := fs\<rparr>) = Inr c'"
    by (auto simp: process_event_def rbind_Inr_iff)
  then show ?thesis
    by (blast intro: ctx_run_trans ctx_run_steps regular_event_run log_event_run)
next
  case (Signed w x)
  with assms show ?thesis
    by (auto simp: process_event_def elim!: on_fs_run intro: ps_signed)
qed

lemma next_ready_Some:
  assumes "get_next_ready_event fs chain = Inr (Some i)"
  shows "\<exists>cs p. om_get (fs_chains fs) chain = Some cs \<and> om_first (cs_pending_events cs) = Some (i, p) \<and>
    listener_quorum (fs_validator_set fs) p"
  using assms by (auto simp: get_next_ready_event_def result_simps listener_quorum_def
      u16_try_from_iff word_le_nat_alt split: option.splits if_splits)

lemma next_ready_None:
  assumes "get_next_ready_event fs chain = Inr None" "om_get (fs_chains fs) chain = Some cs"
  shows "case cs_pending_events cs of [] \<Rightarrow> True | e # _ \<Rightarrow> \<not> listener_quorum (fs_validator_set fs) (snd e)"
  using assms by (auto simp: get_next_ready_event_def result_simps listener_quorum_def om_first_def
      u16_try_from_iff word_le_nat_alt split: option.splits if_splits list.splits)

lemma remove_event_Inr:
  assumes "remove_event chain i c = Inr (ev, c')"
  shows "\<exists>cs p. om_get (fs_chains (ec_fs c)) chain = Some cs \<and> om_get (cs_pending_events cs) i = Some p \<and>
    ev = pe_event p \<and> c' = c\<lparr>ec_fs := put_chain chain
      (cs\<lparr>cs_pending_events := om_remove i (cs_pending_events cs)\<rparr>) (ec_fs c)\<rparr>"
  using assms by (auto simp: remove_event_def split: option.splits)

lemma process_ready_events_run:
  "process_ready_events E chain c = Inr c' \<Longrightarrow> ctx_run E c c'"
proof (induction E chain c arbitrary: c' rule: process_ready_events.induct)
  case (1 E chain c)
  from 1(2) obtain ready where ready: "get_next_ready_event (ec_fs c) chain = Inr ready"
    by (subst (asm) process_ready_events.simps) (auto simp: rbind_Inr_iff)
  show ?case
  proof (cases ready)
    case None
    with 1(2) ready show ?thesis by (subst (asm) process_ready_events.simps) simp
  next
    case (Some i)
    with 1(2) ready obtain ev c1 c2 where r: "remove_event chain i c = Inr (ev, c1)"
      and p: "process_event E chain i ev c1 = Inr c2"
      and rest: "process_ready_events E chain c2 = Inr c'"
      by (subst (asm) process_ready_events.simps) (auto simp: rbind_Inr_iff)
    have "ctx_run E c c1"
      using next_ready_Some [OF ready [unfolded Some]] remove_event_Inr [OF r]
      by (auto intro!: ctx_run_step ps_event)
    moreover have "ctx_run E c1 c2" using p by (rule process_event_run)
    moreover have "ctx_run E c2 c'" using 1(1) [OF ready Some r _ rest] p by simp
    ultimately show ?thesis by (blast intro: ctx_run_trans)
  qed
qed

lemma listener_run: "listener E chain ev i c = Inr c' \<Longrightarrow> ctx_run E c c'"
  unfolding listener_def rbind_Inr_iff ensure_Inr_iff
  by (blast intro: ctx_run_trans on_fs_run ps_attest process_ready_events_run)

section \<open>Actions and proposals\<close>

lemma add_action_run:
  assumes "add_action E chain a c = Inr (i, c')"
  shows "ctx_run E c c'"
proof -
  from assms obtain cs s where cs: "om_get (fs_chains (ec_fs c)) chain = Some cs"
    and s: "to_payload (e_enc E) a chain (cs_config cs) (cs_next_action_id cs) = (Inr s :: 'a kerr + string)"
    and l: "log_event E (LogNewBridgeAction chain (cs_next_action_id cs))
       (c\<lparr>ec_fs := put_chain chain (cs\<lparr>
          cs_pending_actions := om_insert (cs_next_action_id cs)
            \<lparr>pa_payload = s, pa_approvals = [], pa_processor = None\<rparr> (cs_pending_actions cs),
          cs_next_action_id := cs_next_action_id cs + 1\<rparr>) (ec_fs c)\<rparr>) = Inr c'"
    by (auto simp: add_action_def result_simps Let_def)
  show ?thesis
    using log_event_run [OF l] ctx_run_step [OF ps_add_action [OF cs s]] by (blast intro: ctx_run_trans)
qed

lemma add_action_all_run:
  assumes "add_action_all_chains E a c = Inr c'"
  shows "ctx_run E c c'"
  using assms unfolding add_action_all_chains_def
  by (rule rfold_run) (auto simp: rbind_Inr_iff dest: add_action_run)

lemma withdraw_asset_run:
  assumes "withdraw_asset E s chain src w x c = Inr (i, c')"
  shows "ctx_run E c c'"
proof -
  from assms obtain d n c1 c2 where b: "on_fs (on_accounts (burn (e_dec E) src s d)) c = Inr c1"
    and cw: "on_fs (on_chain chain (cs_withdraw (e_dec E) s x)) c1 = Inr c2"
    and a: "add_action E chain (ExecTransfer chain w [\<lparr>aa_id = s, aa_amount = n\<rparr>]) c2 = Inr (i, c')"
    by (auto simp: withdraw_asset_def rbind_Inr_iff)
  have "ctx_run E c c1" using burn_asset_run [of E s src d c c1] b by (simp add: burn_asset_def)
  moreover have "ctx_run E c1 c2" using cw by (rule on_fs_run) (rule ps_withdraw)
  ultimately show ?thesis using add_action_run [OF a] by (blast intro: ctx_run_trans)
qed

lemma bank_run: "bank E b c = Inr c' \<Longrightarrow> ctx_run E c c'"
  by (cases b) (auto simp: rbind_Inr_iff dest: transfer_asset_run withdraw_asset_run)

lemma verify_signer_Inr:
  "verify_signer E stj c = Inr k \<longleftrightarrow>
     k = ec_pubkey c \<and> e_recover E (tj_as_bytes (stj_message stj)) (stj_signature stj) (stj_recovery_id stj) = Some k"
  by (auto simp: verify_signer_def stj_verify_signature_def result_simps)

lemma ensure_is_validator_Inr [result_simps]: "ensure_is_validator vs k = Inr u \<longleftrightarrow> is_validator vs k"
  by (simp add: ensure_is_validator_def)

lemma find_SomeE: "find P xs = Some x \<Longrightarrow> x \<in> set xs \<and> P x"
  by (induction xs) (auto split: if_splits)

lemma check_pending_run:
  assumes "check_pending_proposals E c = Inr c'"
  shows "ctx_run E c c'"
proof (cases "find_approved_proposal (ec_fs c)")
  case None
  with assms show ?thesis by (simp add: check_pending_proposals_def)
next
  case (Some e)
  obtain i p where e: "e = (i, p)" by fastforce
  from Some have mem: "(i, p) \<in> set (ap_proposals (fs_admin (ec_fs c)))"
    and enough: "has_sufficient_approvals p (fs_validator_set (ec_fs c))"
    using find_SomeE [of _ _ "(i, p)"] by (force simp: e find_approved_proposal_def)+
  from assms Some obtain c1 c2 where l: "log_event E (LogAdminProposalApproved i) c = Inr c1"
    and a: "apply_proposal E p c1 = Inr c2" and c': "c' = c2\<lparr>ec_fs := clear_proposals (ec_fs c2)\<rparr>"
    by (auto simp: check_pending_proposals_def e rbind_Inr_iff)
  have fs1: "ec_fs c1 = ec_fs c" using l by (rule log_event_fs)
  have "ctx_run E c1 c2"
  proof (cases "pp_payload p")
    case (ProposeNewSet t)
    have "ctx_run E c1 (c1\<lparr>ec_fs := (ec_fs c1)\<lparr>fs_validator_set := tj_value t\<rparr>\<rparr>)"
      using mem enough ProposeNewSet by (intro ctx_run_step ps_new_set) (simp_all add: fs1)
    with a ProposeNewSet show ?thesis
      by (auto simp: apply_proposal_def intro: ctx_run_trans add_action_all_run)
  next
    case (ProposeMigrateContract m)
    with a show ?thesis by (auto simp: apply_proposal_def rbind_Inr_iff dest: add_action_run)
  next
    case (ProposeUpgrade u)
    with a mem enough show ?thesis
      by (auto simp: apply_proposal_def fs1 intro!: ctx_run_step ps_upgrade)
  qed
  moreover have "ctx_run E c2 c'" unfolding c' by (intro ctx_run_step ps_clear)
  ultimately show ?thesis using log_event_run [OF l] by (blast intro: ctx_run_trans)
qed

lemma add_admin_proposal_run:
  assumes "add_admin_proposal E p (ec_pubkey c) sg c = Inr c'"
    and "is_validator (fs_validator_set (ec_fs c)) (ec_pubkey c)"
    and "sig_validate (e_recover E) sg (payload_as_bytes p) = Some (ec_pubkey c)"
    and "\<And>t. p = ProposeNewSet t \<Longrightarrow> quorum_reachable (tj_value t)"
  shows "ctx_run E c c'"
proof -
  let ?ap = "fs_admin (ec_fs c)"
  let ?fs = "(ec_fs c)\<lparr>fs_admin := \<lparr>ap_next_id = ap_next_id ?ap + 1,
      ap_proposals = om_insert (ap_next_id ?ap) \<lparr>pp_payload = p, pp_approvals = [(ec_pubkey c, sg)]\<rparr>
        (ap_proposals ?ap)\<rparr>\<rparr>"
  have "log_event E (LogNewAdminProposal (ap_next_id ?ap)) (c\<lparr>ec_fs := ?fs\<rparr>) = Inr c'"
    using assms(1) by (simp add: add_admin_proposal_def Let_def rbind_Inr_iff)
  moreover have "ctx_run E c (c\<lparr>ec_fs := ?fs\<rparr>)"
    using assms(2-4) by (intro ctx_run_step ps_propose)
  ultimately show ?thesis by (blast intro: ctx_run_trans log_event_run)
qed

lemma propose_run:
  assumes "propose E stj check mk c = Inr c'"
    and "\<And>t. payload_as_bytes (mk t) = tj_as_bytes t"
    and "\<And>t u. mk t = ProposeNewSet u \<Longrightarrow> check (tj_value t) = Inr () \<Longrightarrow> quorum_reachable (tj_value u)"
  shows "ctx_run E c c'"
proof -
  from assms(1) obtain c1 where k: "verify_signer E stj c = Inr (ec_pubkey c)"
    and v: "is_validator (fs_validator_set (ec_fs c)) (ec_pubkey c)"
    and ch: "check (tj_value (stj_message stj)) = Inr ()"
    and p: "add_admin_proposal E (mk (stj_message stj)) (ec_pubkey c) (stj_signature_with_recovery stj) c = Inr c1"
    and n: "check_pending_proposals E c1 = Inr c'"
    by (auto simp: propose_def result_simps verify_signer_Inr)
  have "sig_validate (e_recover E) (stj_signature_with_recovery stj)
      (payload_as_bytes (mk (stj_message stj))) = Some (ec_pubkey c)"
    using k by (simp add: verify_signer_Inr sig_validate_def stj_signature_with_recovery_def assms(2))
  with p v have "ctx_run E c c1"
    using assms(3) ch by (intro add_admin_proposal_run [OF p]) auto
  then show ?thesis using check_pending_run [OF n] by (rule ctx_run_trans)
qed

lemma admin_approve_run:
  assumes "admin_approve E i sg c = Inr c'"
  shows "ctx_run E c c'"
proof -
  from assms obtain p where v: "is_validator (fs_validator_set (ec_fs c)) (ec_pubkey c)"
    and p: "om_get (ap_proposals (fs_admin (ec_fs c))) i = Some p"
    and sg: "sig_validate (e_recover E) sg (payload_as_bytes (pp_payload p)) = Some (ec_pubkey c)"
    and n: "check_pending_proposals E (c\<lparr>ec_fs := (ec_fs c)\<lparr>fs_admin := (fs_admin (ec_fs c))\<lparr>ap_proposals :=
         om_insert i (p\<lparr>pp_approvals := om_insert (ec_pubkey c) sg (pp_approvals p)\<rparr>)
           (ap_proposals (fs_admin (ec_fs c)))\<rparr>\<rparr>\<rparr>) = Inr c'"
    unfolding admin_approve_def rbind_Inr_iff ok_or_Inr_iff ensure_Inr_iff ensure_is_validator_Inr by blast
  from ctx_run_step [OF ps_admin_approve [OF v p sg]] check_pending_run [OF n] show ?thesis
    by (rule ctx_run_trans)
qed

lemma self_replace_run:
  assumes "self_replace_msg E sr c = Inr c'"
  shows "ctx_run E c c'"
  using assms unfolding self_replace_msg_def rbind_Inr_iff verify_signer_Inr
  by (auto dest!: add_action_all_run intro: ctx_run_trans ctx_run_step ps_self_replace)

lemma admin_run: "admin E a c = Inr c' \<Longrightarrow> ctx_run E c c'"
proof (cases a)
  case (AdminNewSet vs)
  moreover assume "admin E a c = Inr c'"
  ultimately show ?thesis
    by (auto elim!: propose_run simp: validate_set_ok_iff)
qed (auto elim!: propose_run intro: self_replace_run admin_approve_run)

section \<open>Transactions\<close>

text \<open>The operations of the context an application can call.\<close>

inductive api_step :: "('d, 'm, 's) env \<Rightarrow> ('d, 's) exec_ctx \<Rightarrow> ('d, 's) exec_ctx \<Rightarrow> bool" for E where
  api_mint: "mint_asset (e_dec E) s i x c = Inr c' \<Longrightarrow> api_step E c c'"
| api_burn: "burn_asset (e_dec E) s i x c = Inr c' \<Longrightarrow> api_step E c c'"
| api_transfer: "transfer_asset (e_dec E) s i j x c = Inr c' \<Longrightarrow> api_step E c c'"
| api_withdraw: "withdraw_asset E s chain i w x c = Inr (n, c') \<Longrightarrow> api_step E c c'"
| api_key: "get_or_add_account_for_key k (fs_accounts (ec_fs c)) = (i, A) \<Longrightarrow>
    api_step E c (c\<lparr>ec_fs := (ec_fs c)\<lparr>fs_accounts := A\<rparr>\<rparr>)"
| api_wallet: "get_or_add_account_for_wallet w (fs_accounts (ec_fs c)) = (Inr (i, A) :: 'd kerr + _) \<Longrightarrow>
    api_step E c (c\<lparr>ec_fs := (ec_fs c)\<lparr>fs_accounts := A\<rparr>\<rparr>)"
| api_log: "ctx_log msg c = Inr c' \<Longrightarrow> api_step E c c'"
| api_state: "api_step E c (c\<lparr>ec_app_state := s\<rparr>)"
| api_load: "api_step E c (c\<lparr>ec_handling := h, ec_loads := ls\<rparr>)"

definition app_uses_api :: "('d, 'm, 's) env \<Rightarrow> bool" where
  "app_uses_api E \<longleftrightarrow> (\<forall>m c c'. e_app_execute E m c = Inr c' \<longrightarrow> (api_step E)\<^sup>*\<^sup>* c c')"

lemma load_data_api:
  "load_data Q req c = Inr (r, c') \<Longrightarrow> \<exists>h ls. c' = c\<lparr>ec_handling := h, ec_loads := ls\<rparr>"
  by (auto simp: load_data_def rbind_Inr_iff split: prod.splits)

lemma api_step_run: "api_step E c c' \<Longrightarrow> ctx_run E c c'"
proof (induction rule: api_step.induct)
  case (api_key k c i A)
  then show ?case by (blast intro: ctx_run_step ps_account st_account_for_key keeps_key_ops)
next
  case (api_wallet w c i A)
  then show ?case by (blast intro: ctx_run_step ps_account st_account_for_wallet keeps_key_ops)
qed (auto simp: ctx_run_def dest: mint_asset_run burn_asset_run transfer_asset_run
    withdraw_asset_run ctx_log_run)

lemma app_run:
  assumes "app_uses_api E" "e_app_execute E m c = Inr c'"
  shows "ctx_run E c c'"
proof -
  from assms have "(api_step E)\<^sup>*\<^sup>* c c'" by (auto simp: app_uses_api_def)
  then show ?thesis
    by (induction rule: rtranclp_induct) (auto intro: ctx_run_trans api_step_run)
qed

lemma execute_message_run:
  assumes "app_uses_api E" "execute_message E m c = Inr c'" "ec_signing_key c = ec_pubkey c"
  shows "ctx_run E c c'"
  using assms
  by (cases m) (auto simp: result_simps intro: app_run listener_run bank_run auth_run admin_run
      elim!: on_fs_run dest: ps_approve ps_processor_approve)

lemma message_step_run:
  assumes "app_uses_api E" "message_step E m c = Inr c'" "ec_signing_key c = ec_pubkey c"
  shows "ctx_run E c c'"
proof -
  let ?c = "c\<lparr>ec_logs := ec_logs c @ [[]]\<rparr>"
  have "ctx_run E ?c c'"
    using assms by (intro execute_message_run [of E m]) (simp_all add: message_step_def)
  then show ?thesis by (simp add: ctx_run_def)
qed

lemma messages_run:
  assumes "app_uses_api E" "rfold (message_step E) ms c = Inr c'" "ec_signing_key c = ec_pubkey c"
  shows "ctx_run E c c'"
proof -
  have "ctx_run E c c' \<and> ec_signing_key c' = ec_pubkey c'"
    using assms(2)
  proof (rule rfold_invariant [where I = "\<lambda>t. ctx_run E c t \<and> ec_signing_key t = ec_pubkey t"])
    fix m t t'
    assume "ctx_run E c t \<and> ec_signing_key t = ec_pubkey t" "message_step E m t = Inr t'"
    moreover from this have "ctx_run E t t'" using assms(1) by (blast intro: message_step_run)
    ultimately show "ctx_run E c t' \<and> ec_signing_key t' = ec_pubkey t'"
      using ctx_run_trans by (auto simp: ctx_run_def)
  qed (use assms(3) in simp)
  then show ?thesis by simp
qed

end
