(* ===== verification/Execution_Props.thy ===== *)
theory Execution_Props
  imports Protocol
begin

text \<open>
  What transaction execution guarantees: the invariant every transaction keeps, replay
  protection, the order and quorum of bridge events, the authority behind approvals and admin
  proposals, conservation of balances, and the reproducibility of data loads.
\<close>

section \<open>The invariant of the framework state\<close>

definition action_valid :: "('d, 'm, 's) env \<Rightarrow> external_chain \<Rightarrow> pending_bridge_action \<Rightarrow> bool" where
  "action_valid E chain a \<longleftrightarrow> om_wf (pa_approvals a) \<and>
     (\<forall>k sg. om_get (pa_approvals a) k = Some sg \<longrightarrow>
        (\<exists>payload. payload_bytes_to_sign (e_b64_decode E) a chain = (Inr payload :: 'd kerr + bytes) \<and>
           sig_validate (e_recover E) sg payload = Some k))"

definition chain_inv :: "('d, 'm, 's) env \<Rightarrow> external_chain \<Rightarrow> 'd chain_state \<Rightarrow> bool" where
  "chain_inv E chain cs \<longleftrightarrow>
     om_wf (cs_pending_actions cs) \<and> om_wf (cs_pending_events cs) \<and> om_wf (cs_assets cs) \<and>
     (\<forall>i a. om_get (cs_pending_actions cs) i = Some a \<longrightarrow> action_valid E chain a) \<and>
     (\<forall>i p. om_get (cs_pending_events cs) i = Some p \<longrightarrow> distinct (pe_attestations p) \<and> sorted (pe_attestations p))"

definition proposal_valid :: "('d, 'm, 's) env \<Rightarrow> pending_proposal \<Rightarrow> bool" where
  "proposal_valid E p \<longleftrightarrow> om_wf (pp_approvals p) \<and>
     (\<forall>k sg. om_get (pp_approvals p) k = Some sg \<longrightarrow>
        sig_validate (e_recover E) sg (payload_as_bytes (pp_payload p)) = Some k) \<and>
     (\<forall>t. pp_payload p = ProposeNewSet t \<longrightarrow> quorum_reachable (tj_value t))"

definition fs_inv :: "('d, 'm, 's) env \<Rightarrow> ('d \<Rightarrow> rat) \<Rightarrow> 'd framework_state \<Rightarrow> bool" where
  "fs_inv E v fs \<longleftrightarrow>
     accounts_wf (fs_accounts fs) \<and> balances_pos v (fs_accounts fs) \<and>
     om_wf (fs_chains fs) \<and>
     (\<forall>chain cs. om_get (fs_chains fs) chain = Some cs \<longrightarrow> chain_inv E chain cs) \<and>
     om_wf (ap_proposals (fs_admin fs)) \<and>
     (\<forall>i p. om_get (ap_proposals (fs_admin fs)) i = Some p \<longrightarrow> proposal_valid E p)"

lemma fs_invD:
  assumes "fs_inv E v fs"
  shows "accounts_wf (fs_accounts fs)" "balances_pos v (fs_accounts fs)" "om_wf (fs_chains fs)"
    and "om_get (fs_chains fs) chain = Some cs \<Longrightarrow> chain_inv E chain cs"
    and "om_wf (ap_proposals (fs_admin fs))"
    and "om_get (ap_proposals (fs_admin fs)) i = Some p \<Longrightarrow> proposal_valid E p"
  using assms by (auto simp: fs_inv_def)

lemma fs_inv_put_chain:
  "fs_inv E v fs \<Longrightarrow> chain_inv E chain cs \<Longrightarrow> fs_inv E v (put_chain chain cs fs)"
  by (auto simp: fs_inv_def put_chain_def om_wf_insert)

lemma fs_inv_on_chain:
  assumes "fs_inv E v fs" "on_chain chain f fs = Inr fs'"
    and "\<And>cs cs'. chain_inv E chain cs \<Longrightarrow> f cs = Inr cs' \<Longrightarrow> chain_inv E chain cs'"
  shows "fs_inv E v fs'"
  using assms(2) by (auto simp: on_chain_def result_simps
      intro!: fs_inv_put_chain assms(1) assms(3) [OF fs_invD(4) [OF assms(1)]])

lemma chain_inv_attest:
  assumes "chain_inv E chain cs" "attest i ev pk cs = Inr cs'"
  shows "chain_inv E chain cs'"
proof -
  have s: "os_wf (os_insert pk l) \<longleftrightarrow> True" if "distinct l" "sorted l" for l
    using that os_wf_insert [of l pk] by (simp add: os_wf_iff)
  then have "distinct (os_insert pk l) \<and> sorted (os_insert pk l)" if "distinct l" "sorted l" for l
    using that by (auto simp: os_wf_iff)
  then show ?thesis
    using assms by (auto simp: attest_def chain_inv_def om_wf_insert split: option.splits if_splits)
qed

lemma chain_inv_remove_event:
  "chain_inv E chain cs \<Longrightarrow>
     chain_inv E chain (cs\<lparr>cs_pending_events := om_remove i (cs_pending_events cs)\<rparr>)"
  by (auto simp: chain_inv_def om_wf_remove split: if_splits)

lemma chain_inv_insert_action:
  "chain_inv E chain cs \<Longrightarrow> action_valid E chain a \<Longrightarrow>
     chain_inv E chain (cs\<lparr>cs_pending_actions := om_insert i a (cs_pending_actions cs)\<rparr>)"
  by (auto simp: chain_inv_def om_wf_insert split: if_splits)

lemma chain_inv_insert_next:
  "chain_inv E chain cs \<Longrightarrow> action_valid E chain a \<Longrightarrow>
     chain_inv E chain (cs\<lparr>cs_pending_actions := om_insert i a (cs_pending_actions cs),
       cs_next_action_id := n\<rparr>)"
  by (auto simp: chain_inv_def om_wf_insert split: if_splits)

lemma chain_inv_ops:
  assumes "chain_inv E chain cs"
  shows "instantiate_bridge x cs = Inr cs' \<Longrightarrow> chain_inv E chain cs'"
    and "signed_event i cs = Inr cs' \<Longrightarrow> chain_inv E chain cs'"
    and "cs_deposit D s d cs = Inr cs' \<Longrightarrow> chain_inv E chain cs'"
    and "cs_withdraw D s d cs = Inr cs' \<Longrightarrow> chain_inv E chain cs'"
  using assms by (auto simp: instantiate_bridge_def signed_event_def cs_deposit_def cs_withdraw_def
      Let_def chain_inv_def om_wf_insert om_wf_remove
      split: bridge_contract.splits list.splits if_splits option.splits)

lemma payload_bytes_frame [simp]:
  "payload_bytes_to_sign b (a\<lparr>pa_approvals := m\<rparr>) = payload_bytes_to_sign b a"
  "payload_bytes_to_sign b (a\<lparr>pa_processor := q\<rparr>) = payload_bytes_to_sign b a"
  by (simp_all add: payload_bytes_to_sign_def fun_eq_iff split: chain_name.splits)

lemma approve_inv:
  assumes "fs_inv E v fs" "approve E chain i sg fs = Inr fs'"
  shows "fs_inv E v fs'"
proof -
  from assms(2) obtain cs a payload key where cs: "om_get (fs_chains fs) chain = Some cs"
    and a: "om_get (cs_pending_actions cs) i = Some a"
    and p: "payload_bytes_to_sign (e_b64_decode E) a chain = (Inr payload :: 'a kerr + bytes)"
    and k: "sig_validate (e_recover E) sg payload = Some key"
    and fs': "fs' = put_chain chain (cs\<lparr>cs_pending_actions := om_insert i
           (a\<lparr>pa_approvals := om_insert key sg (pa_approvals a)\<rparr>) (cs_pending_actions cs)\<rparr>) fs"
    by (auto simp: approve_def on_chain_def result_simps)
  have inv: "chain_inv E chain cs" using assms(1) cs by (rule fs_invD)
  then have "action_valid E chain a" using a by (simp add: chain_inv_def)
  then have "action_valid E chain (a\<lparr>pa_approvals := om_insert key sg (pa_approvals a)\<rparr>)"
    using p k by (auto simp: action_valid_def om_wf_insert)
  with inv show ?thesis
    unfolding fs' using assms(1) by (blast intro: fs_inv_put_chain chain_inv_insert_action)
qed

lemma processor_approve_inv:
  assumes "fs_inv E v fs" "processor_approve E chain i sg sgs fs = Inr fs'"
  shows "fs_inv E v fs'"
proof -
  from assms(2) obtain cs a where cs: "om_get (fs_chains fs) chain = Some cs"
    and a: "om_get (cs_pending_actions cs) i = Some a"
    and fs': "fs' = put_chain chain (cs\<lparr>cs_pending_actions := om_insert i
           (a\<lparr>pa_processor := Some sg\<rparr>) (cs_pending_actions cs)\<rparr>) fs"
    by (auto simp: processor_approve_def on_chain_def result_simps)
  have inv: "chain_inv E chain cs" using assms(1) cs by (rule fs_invD)
  then have "action_valid E chain (a\<lparr>pa_processor := Some sg\<rparr>)"
    using a by (auto simp: chain_inv_def action_valid_def)
  with inv show ?thesis
    unfolding fs' using assms(1) by (blast intro: fs_inv_put_chain chain_inv_insert_action)
qed

lemma proto_step_inv:
  assumes D: "decimal_laws (e_dec E) v R" and "proto_step E pk fs fs'" "fs_inv E v fs"
  shows "fs_inv E v fs'"
  using assms(2,3)
proof (induction rule: proto_step.induct)
  case (ps_account fs A)
  then show ?case
    using accounts_step_wf [of "e_dec E" "fs_accounts fs" A] accounts_step_pos [OF D, of "fs_accounts fs" A]
    by (auto simp: fs_inv_def)
next
  case (ps_attest fs chain i ev fs')
  then show ?case by (blast intro: fs_inv_on_chain chain_inv_attest)
next
  case (ps_event fs chain cs i p)
  then show ?case by (blast intro: fs_inv_put_chain chain_inv_remove_event fs_invD)
next
  case (ps_instantiate chain contract fs fs')
  then show ?case by (blast intro: fs_inv_on_chain chain_inv_ops)
next
  case (ps_deposit chain s x fs fs')
  then show ?case by (blast intro: fs_inv_on_chain chain_inv_ops)
next
  case (ps_withdraw chain s x fs fs')
  then show ?case by (blast intro: fs_inv_on_chain chain_inv_ops)
next
  case (ps_signed chain i fs fs')
  then show ?case by (blast intro: fs_inv_on_chain chain_inv_ops)
next
  case (ps_approve chain i sg fs fs')
  then show ?case by (blast intro: approve_inv)
next
  case (ps_processor_approve chain i sg sgs fs fs')
  then show ?case by (blast intro: processor_approve_inv)
next
  case (ps_add_action fs chain cs a s)
  have "action_valid E chain \<lparr>pa_payload = s, pa_approvals = [], pa_processor = None\<rparr>"
    by (simp add: action_valid_def)
  with ps_add_action show ?case by (blast intro: fs_inv_put_chain chain_inv_insert_next fs_invD)
next
  case (ps_propose fs sg p)
  then have "proposal_valid E \<lparr>pp_payload = p, pp_approvals = [(pk, sg)]\<rparr>"
    by (auto simp: proposal_valid_def om_wf_Cons)
  with ps_propose show ?case by (auto simp: fs_inv_def om_wf_insert)
next
  case (ps_admin_approve fs i p sg)
  then have "proposal_valid E p" by (auto simp: fs_inv_def)
  with ps_admin_approve have "proposal_valid E (p\<lparr>pp_approvals := om_insert pk sg (pp_approvals p)\<rparr>)"
    by (auto simp: proposal_valid_def om_wf_insert)
  with ps_admin_approve show ?case by (auto simp: fs_inv_def om_wf_insert)
qed (auto simp: fs_inv_def clear_proposals_def)

lemma proto_steps_inv:
  assumes "decimal_laws (e_dec E) v R" "(proto_step E pk)\<^sup>*\<^sup>* fs fs'" "fs_inv E v fs"
  shows "fs_inv E v fs'"
  using assms(2,3) by (induction rule: rtranclp_induct) (auto intro: proto_step_inv [OF assms(1)])

section \<open>A transaction as a sequence of steps\<close>

lemma execute_Inr:
  assumes "execute_transaction E k stx ts h = Inr r"
  shows "\<exists>sender A c. validate_tx E k stx = Inr () \<and>
    use_nonce (tx_pubkey (tj_value (stj_message stx))) (tx_nonce (tj_value (stj_message stx)))
      (fs_accounts (kr_fs k)) = Inr (sender, A) \<and>
    rfold (message_step E) (tx_messages (tj_value (stj_message stx)))
      (start_ctx k (tj_value (stj_message stx)) ts h sender A) = Inr c \<and>
    loads_used (ec_handling c) = (Inr () :: 'd kerr + unit) \<and>
    fs_version (kr_fs k) = kr_code_version k \<and>
    r = \<lparr>er_fs = ec_fs c, er_app_state = ec_app_state c, er_logs = ec_logs c,
         er_loads = ec_loads c, er_height = ec_height (c :: ('d, 's) exec_ctx)\<rparr>"
  using assms by (auto simp: execute_transaction_def result_simps Let_def)

lemma start_ctx_simps [simp]:
  "ec_fs (start_ctx k tx ts h s A) = (kr_fs k)\<lparr>fs_accounts := A\<rparr>"
  "ec_pubkey (start_ctx k tx ts h s A) = tx_pubkey tx"
  "ec_signing_key (start_ctx k tx ts h s A) = tx_pubkey tx"
  "ec_sender (start_ctx k tx ts h s A) = s"
  by (simp_all add: start_ctx_def)

lemma execute_steps:
  assumes "app_uses_api E" "execute_transaction E k stx ts h = Inr r"
    and "pk = tx_pubkey (tj_value (stj_message stx))"
  shows "\<exists>sender A. use_nonce pk (tx_nonce (tj_value (stj_message stx))) (fs_accounts (kr_fs k)) =
      Inr (sender, A) \<and> (proto_step E pk)\<^sup>*\<^sup>* ((kr_fs k)\<lparr>fs_accounts := A\<rparr>) (er_fs r)"
proof -
  from execute_Inr [OF assms(2)] obtain sender A c where
    n: "use_nonce (tx_pubkey (tj_value (stj_message stx))) (tx_nonce (tj_value (stj_message stx)))
      (fs_accounts (kr_fs k)) = (Inr (sender, A) :: 'a kerr + _)"
    and ms: "rfold (message_step E) (tx_messages (tj_value (stj_message stx)))
      (start_ctx k (tj_value (stj_message stx)) ts h sender A) = Inr c"
    and r: "er_fs r = ec_fs c"
    by auto
  have "ctx_run E (start_ctx k (tj_value (stj_message stx)) ts h sender A) c"
    using messages_run [OF assms(1) ms] by simp
  then show ?thesis using n r by (auto simp: ctx_run_def assms(3))
qed

lemma proto_step_keeps_key:
  assumes "proto_step E pk fs fs'"
  shows "keeps_key pk (fs_accounts fs) (fs_accounts fs')"
  using assms
  by (induction rule: proto_step.induct)
    (auto simp: put_chain_def on_chain_def approve_def processor_approve_def clear_proposals_def result_simps)

lemma keeps_key_trans: "keeps_key pk A B \<Longrightarrow> keeps_key pk B C \<Longrightarrow> keeps_key pk A C"
  by (auto simp: keeps_key_def)

lemma proto_steps_keep_key:
  assumes "(proto_step E pk)\<^sup>*\<^sup>* fs fs'"
  shows "keeps_key pk (fs_accounts fs) (fs_accounts fs')"
  using assms by (induction rule: rtranclp_induct) (auto intro: keeps_key_trans proto_step_keeps_key)

lemma use_nonce_links: "use_nonce pk n A = Inr (i, A') \<Longrightarrow> om_get (pubkey_ix A') pk = Some i"
  by (auto simp: use_nonce_def link_pubkey_def Let_def split: option.splits if_splits)

section \<open>Bridge events\<close>

lemma on_fs_keeps:
  "on_fs f c = Inr c' \<Longrightarrow> (\<And>fs'. f (ec_fs c) = Inr fs' \<Longrightarrow> P fs') \<Longrightarrow> P (ec_fs c')"
  by (auto simp: on_fs_def result_simps)

lemma regular_event_vs:
  assumes "regular_event D chain w funds keys fs = Inr (i, fs')"
  shows "fs_validator_set fs' = fs_validator_set fs"
proof -
  from assms obtain A where "rfold (deposit_fund D chain i) funds (fs\<lparr>fs_accounts := A\<rparr>) = Inr fs'"
    by (auto simp: regular_event_def result_simps)
  then show ?thesis
    by (rule rfold_invariant [where I = "\<lambda>t. fs_validator_set t = fs_validator_set fs"])
      (auto simp: deposit_fund_def rbind_Inr_iff on_accounts_def on_chain_def put_chain_def
        split: option.splits)
qed

lemma process_event_vs:
  assumes "process_event E chain i ev c = Inr c'"
  shows "fs_validator_set (ec_fs c') = fs_validator_set (ec_fs c)"
proof (cases ev)
  case (Regular w funds keys)
  with assms show ?thesis
    by (auto simp: process_event_def rbind_Inr_iff dest!: log_event_fs regular_event_vs)
qed (use assms in \<open>auto simp: process_event_def on_chain_def put_chain_def rbind_Inr_iff elim!: on_fs_keeps\<close>)

lemma on_chain_present:
  "on_chain chain f fs = Inr fs' \<Longrightarrow> om_get (fs_chains fs) k = Some cs \<Longrightarrow>
     \<exists>cs'. om_get (fs_chains fs') k = Some cs'"
  by (auto simp: on_chain_def put_chain_def result_simps)

lemma process_event_chain:
  assumes "process_event E chain i ev c = Inr c'" "om_get (fs_chains (ec_fs c)) k \<noteq> None"
  shows "om_get (fs_chains (ec_fs c')) k \<noteq> None"
proof (cases ev)
  case (Regular w funds keys)
  with assms obtain j A fs where "rfold (deposit_fund (e_dec E) chain j) funds ((ec_fs c)\<lparr>fs_accounts := A\<rparr>) = Inr fs"
    and fs: "ec_fs c' = fs"
    by (auto simp: process_event_def regular_event_def rbind_Inr_iff dest!: log_event_fs)
  from this(1) have "om_get (fs_chains fs) k \<noteq> None"
  proof (rule rfold_invariant [where I = "\<lambda>t. om_get (fs_chains t) k \<noteq> None"])
    fix x t t'
    assume "om_get (fs_chains t) k \<noteq> None" "deposit_fund (e_dec E) chain j x t = Inr t'"
    then show "om_get (fs_chains t') k \<noteq> None"
      by (auto simp: deposit_fund_def rbind_Inr_iff on_accounts_def
          split: option.splits
          dest!: on_chain_present [where k = k])
  qed (use assms(2) in simp)
  then show ?thesis by (simp add: fs)
qed (use assms in \<open>auto simp: process_event_def elim!: on_fs_keeps intro: on_chain_present\<close>)

lemma om_remove_first: "om_wf ((i, p) # m) \<Longrightarrow> om_remove i ((i, p) # m) = m"
  by (auto simp: om_remove_def om_wf_Cons intro!: filter_True)

lemma process_ready_events_queue:
  "process_ready_events E chain c = Inr c' \<Longrightarrow> om_wf (events_of (ec_fs c) chain) \<Longrightarrow>
     om_get (fs_chains (ec_fs c)) chain \<noteq> None \<Longrightarrow>
     events_of (ec_fs c') chain =
       dropWhile (\<lambda>e. listener_quorum (fs_validator_set (ec_fs c)) (snd e)) (events_of (ec_fs c) chain) \<and>
     fs_validator_set (ec_fs c') = fs_validator_set (ec_fs c)"
proof (induction E chain c arbitrary: c' rule: process_ready_events.induct)
  case (1 E chain c)
  let ?vs = "fs_validator_set (ec_fs c)"
  from 1(2) obtain ready where ready: "get_next_ready_event (ec_fs c) chain = Inr ready"
    by (subst (asm) process_ready_events.simps) (auto simp: rbind_Inr_iff)
  from 1(4) obtain cs where cs: "om_get (fs_chains (ec_fs c)) chain = Some cs" by auto
  then have ev: "events_of (ec_fs c) chain = cs_pending_events cs" by (simp add: events_of_def)
  show ?case
  proof (cases ready)
    case None
    with 1(2) ready have "c' = c" by (subst (asm) process_ready_events.simps) simp
    moreover have "dropWhile (\<lambda>e. listener_quorum ?vs (snd e)) (cs_pending_events cs) = cs_pending_events cs"
      using next_ready_None [OF ready [unfolded None] cs] by (cases "cs_pending_events cs") auto
    ultimately show ?thesis by (simp add: ev)
  next
    case (Some i)
    with 1(2) ready obtain ev' c1 c2 where r: "remove_event chain i c = Inr (ev', c1)"
      and p: "process_event E chain i ev' c1 = Inr c2"
      and rest: "process_ready_events E chain c2 = Inr c'"
      by (subst (asm) process_ready_events.simps) (auto simp: rbind_Inr_iff)
    from next_ready_Some [OF ready [unfolded Some]] cs obtain q es where
      es: "cs_pending_events cs = (i, q) # es" and quorum: "listener_quorum ?vs q"
      by (auto simp: om_first_def split: list.splits)
    have "events_of (ec_fs c1) chain = es"
      using remove_event_Inr [OF r] cs es 1(3) ev by (auto simp: om_remove_first)
    then have c2: "events_of (ec_fs c2) chain = es" using process_event_events [OF p] by simp
    have vs: "fs_validator_set (ec_fs c2) = ?vs"
      using process_event_vs [OF p] remove_event_Inr [OF r] by (auto simp: put_chain_def)
    have "om_get (fs_chains (ec_fs c2)) chain \<noteq> None"
      by (rule process_event_chain [OF p]) (use remove_event_Inr [OF r] in \<open>auto simp: put_chain_def\<close>)
    moreover have "om_wf es" using 1(3) es ev by (cases "(i, q)") (simp add: om_wf_Cons)
    ultimately have "events_of (ec_fs c') chain =
        dropWhile (\<lambda>e. listener_quorum ?vs (snd e)) es \<and> fs_validator_set (ec_fs c') = ?vs"
      using 1(1) [OF ready Some r _ rest] p c2 vs by simp
    then show ?thesis by (simp add: ev es quorum)
  qed
qed

section \<open>Instances to evaluate on\<close>

definition sample_set :: validator_set where
  "sample_set = \<lparr>processor = PublicKey [1], listeners = [PublicKey [2]], needed_listeners = 1,
     approvers = [PublicKey [3]], needed_approvers = 1\<rparr>"

definition sample_genesis :: genesis_info where
  "sample_genesis = \<lparr>gi_kolme_ident = ''sample'', gi_validator_set = sample_set,
     gi_chains = [(OsmosisLocal, \<lparr>cc_assets = [(''uatom'', \<lparr>ac_decimals = 0, ac_asset_id = 1\<rparr>)],
       cc_bridge = Deployed ''contract''\<rparr>)],
     gi_version = ''v1''\<rparr>"

definition sample_env :: "(int, unit, unit) env" where
  "sample_env = \<lparr>e_dec = int_decimal, e_enc = sample_encoders,
     e_recover = (\<lambda>_ s _. Some (PublicKey (sig_bytes s))),
     e_b64_decode = (\<lambda>s. Some (str_bytes s)),
     e_log_json = (\<lambda>_. Some ''event''),
     e_genesis = sample_genesis,
     e_app_execute = (\<lambda>_ c. Inr c)\<rparr>"

definition sample_read :: "(int, unit) kolme_read" where
  "sample_read = \<lparr>kr_code_version = ''v1'', kr_next_height = 1, kr_fs = fs_new sample_genesis, kr_app_state = ()\<rparr>"

definition sign_tx :: "u8 \<Rightarrow> (int, unit) transaction \<Rightarrow> (int, unit) signed_transaction" where
  "sign_tx k tx = \<lparr>stj_message = \<lparr>tj_serialized = ''tx'', tj_hash = [], tj_value = tx\<rparr>,
     stj_signature = Signature [k], stj_recovery_id = 0\<rparr>"

definition deposit_tx :: "(int, unit) signed_transaction" where
  "deposit_tx = sign_tx 2 \<lparr>tx_pubkey = PublicKey [2], tx_nonce = 0, tx_created = 0,
     tx_messages = [MsgListener OsmosisLocal 0 (Regular ''w'' [(''uatom'', 10)] [PublicKey [9]])],
     tx_max_height = None\<rparr>"


definition wallet_tx :: "(int, unit) signed_transaction" where
  "wallet_tx = sign_tx 2 \<lparr>tx_pubkey = PublicKey [2], tx_nonce = 0, tx_created = 0,
     tx_messages = [MsgAuth (AddWallet ''w'')], tx_max_height = None\<rparr>"

definition genesis_tx :: "(int, unit) signed_transaction" where
  "genesis_tx = sign_tx 1 \<lparr>tx_pubkey = PublicKey [1], tx_nonce = 0, tx_created = 0,
     tx_messages = [MsgGenesis sample_genesis], tx_max_height = None\<rparr>"

lemmas sample_defs = sample_env_def sample_read_def sign_tx_def sample_genesis_def sample_set_def
  fs_new_def default_accounts_def start_ctx_def om_of_list_def into_state_def

lemmas exec_defs = execute_transaction_def validate_tx_def tx_validate_signature_def
  stj_verify_signature_def height_is_start_def ensure_no_genesis_def ensure_is_genesis_def
  is_genesis_msg_def use_nonce_def message_step_def auth_def on_fs_def on_accounts_def
  add_wallet_to_account_def link_wallet_def link_pubkey_def put_account_def get_or_default_def
  default_account_def get_next_account_id_def om_last_def om_contains_def loads_used_def Let_def

lemmas listener_defs = listener_def on_chain_def chains_get_def put_chain_def attest_def
  process_ready_events.simps get_next_ready_event_def om_first_def u16_try_from_def
  existing_signatures_def remove_event_def om_remove_def process_event_def regular_event_def
  get_or_add_account_for_wallet_def add_pubkey_to_account_ignore_overlap_def deposit_fund_def
  to_decimal_def i128_try_from_def mint_def cs_deposit_def log_event_def ctx_log_def os_insert_def
  insort_insert_key_def

lemma sample_app: "app_uses_api sample_env"
  by (simp add: app_uses_api_def sample_env_def)

lemma sample_dec: "decimal_laws (e_dec sample_env) of_int \<int>"
  by (simp add: sample_env_def int_decimal_laws)

lemma sample_inv: "fs_inv sample_env of_int (kr_fs sample_read)"
  by (simp add: fs_inv_def sample_defs accounts_wf_default [unfolded default_accounts_def] balances_pos_def asset_of_def om_wf_Cons chain_inv_def)

lemma wallet_tx_runs: "\<exists>r. execute_transaction sample_env sample_read wallet_tx 0 NoPriorData = Inr r \<and>
    asset_of (fs_accounts (er_fs r)) 0 1 = None"
  by (simp add: exec_defs sample_defs wallet_tx_def asset_of_def)

section \<open>Properties of transactions\<close>



text \<open>C2: every transaction keeps the invariant of the framework state: accounts and their indices
  agree and hold only positive balances, maps are well-formed, every recorded approval of a
  bridge action or admin proposal is a valid signature of the key it is filed under, and every
  proposed validator set can reach its quorums.\<close>

theorem execute_transaction_keeps_invariant:
  assumes "decimal_laws (e_dec E) v R" "app_uses_api E" "fs_inv E v (kr_fs k)"
    and "execute_transaction E k stx ts h = Inr r"
  shows "fs_inv E v (er_fs r)"
proof -
  from execute_steps [OF assms(2,4) refl] obtain sender A where
    n: "use_nonce (tx_pubkey (tj_value (stj_message stx))) (tx_nonce (tj_value (stj_message stx)))
        (fs_accounts (kr_fs k)) = (Inr (sender, A) :: 'a kerr + _)"
    and steps: "(proto_step E (tx_pubkey (tj_value (stj_message stx))))\<^sup>*\<^sup>*
        ((kr_fs k)\<lparr>fs_accounts := A\<rparr>) (er_fs r)"
    by blast
  have "accounts_step (e_dec E) (fs_accounts (kr_fs k)) A" using n by (rule st_use_nonce)
  then have "fs_inv E v ((kr_fs k)\<lparr>fs_accounts := A\<rparr>)"
    using assms(3) accounts_step_wf accounts_step_pos [OF assms(1)] by (auto simp: fs_inv_def)
  then show ?thesis by (rule proto_steps_inv [OF assms(1) steps])
qed

lemma execute_transaction_keeps_invariant_witness:
  "\<exists>r. execute_transaction sample_env sample_read wallet_tx 0 NoPriorData = Inr r \<and>
     fs_inv sample_env of_int (er_fs r)"
  using wallet_tx_runs execute_transaction_keeps_invariant [OF sample_dec sample_app sample_inv] by blast



text \<open>The signer of a transaction can sign the next one: whatever its messages do, the signing
  key is still linked to the account it signed for.\<close>

theorem signing_key_stays_linked:
  assumes "app_uses_api E" "execute_transaction E k stx ts h = Inr r"
    and "tx = tj_value (stj_message stx)"
  shows "\<exists>sender A. use_nonce (tx_pubkey tx) (tx_nonce tx) (fs_accounts (kr_fs k)) = Inr (sender, A) \<and>
    om_get (pubkey_ix (fs_accounts (er_fs r))) (tx_pubkey tx) = Some sender"
proof -
  from execute_steps [OF assms(1,2) assms(3) [THEN arg_cong, of tx_pubkey]] assms(3) obtain s A where
    n: "use_nonce (tx_pubkey tx) (tx_nonce tx) (fs_accounts (kr_fs k)) = (Inr (s, A) :: 'a kerr + _)"
    and steps: "(proto_step E (tx_pubkey tx))\<^sup>*\<^sup>* ((kr_fs k)\<lparr>fs_accounts := A\<rparr>) (er_fs r)"
    by blast
  have "om_get (pubkey_ix (fs_accounts (er_fs r))) (tx_pubkey tx) = Some s"
    using proto_steps_keep_key [OF steps] use_nonce_links [OF n] by (simp add: keeps_key_def)
  then show ?thesis using n by blast
qed

lemma signing_key_stays_linked_witness:
  "\<exists>r sender. execute_transaction sample_env sample_read wallet_tx 0 NoPriorData = Inr r \<and>
     om_get (pubkey_ix (fs_accounts (er_fs r))) (PublicKey [2]) = Some sender"
proof -
  obtain r where r: "execute_transaction sample_env sample_read wallet_tx 0 NoPriorData = Inr r"
    using wallet_tx_runs by blast
  show ?thesis
    using signing_key_stays_linked [OF sample_app r refl] r by (auto simp: wallet_tx_def sign_tx_def)
qed

lemma first_transaction:
  assumes "execute_transaction E k stx ts h = Inr r" "tx = tj_value (stj_message stx)"
  shows "if kr_next_height k = 0
    then tx_messages tx = [MsgGenesis (e_genesis E)] \<and> tx_pubkey tx = processor (fs_validator_set (kr_fs k))
    else filter is_genesis_msg (tx_messages tx) = []"
proof (cases "kr_next_height k = 0")
  case True
  from execute_Inr [OF assms(1)] True obtain s A c where
    g: "ensure_is_genesis tx = (Inr () :: 'a kerr + unit)" and p: "tx_pubkey tx = processor (fs_validator_set (kr_fs k))"
    and ms: "rfold (message_step E) (tx_messages tx) (start_ctx k tx ts h s A) = Inr c"
    by (auto simp: validate_tx_def height_is_start_def result_simps assms(2) Let_def)
  from g obtain gi where m: "tx_messages tx = [MsgGenesis gi]"
    by (auto simp: ensure_is_genesis_def result_simps is_genesis_msg_def length_Suc_conv
        split: message.splits)
  with ms p True show ?thesis by (auto simp: message_step_def result_simps)
next
  case False
  from execute_Inr [OF assms(1)] False have "ensure_no_genesis tx = (Inr () :: 'a kerr + unit)"
    by (auto simp: validate_tx_def height_is_start_def result_simps assms(2) Let_def)
  moreover have "rfold (\<lambda>m _. ensure (\<not> is_genesis_msg m) e) ms () = (Inr u :: 'a kerr + unit) \<Longrightarrow>
      filter is_genesis_msg ms = []" for ms e u
    by (induction ms) (auto simp: result_simps)
  ultimately show ?thesis using False by (simp add: ensure_no_genesis_def)
qed

text \<open>The genesis message is the whole content of the first block, signed by the processor and
  equal to the application's genesis information, and appears in no later block.\<close>

theorem genesis_exactly_first:
  assumes "execute_transaction E k stx ts h = Inr r" "tx = tj_value (stj_message stx)"
  shows "if kr_next_height k = 0
    then tx_messages tx = [MsgGenesis (e_genesis E)] \<and> tx_pubkey tx = processor (fs_validator_set (kr_fs k))
    else filter is_genesis_msg (tx_messages tx) = []"
  by (rule first_transaction [OF assms])

lemma genesis_exactly_first_witness:
  "is_ok (execute_transaction sample_env (sample_read\<lparr>kr_next_height := 0\<rparr>) genesis_tx 0 NoPriorData) \<and>
   tx_messages (tj_value (stj_message genesis_tx)) = [MsgGenesis (e_genesis sample_env)]"
proof -
  have "\<exists>r. execute_transaction sample_env (sample_read\<lparr>kr_next_height := 0\<rparr>) genesis_tx 0 NoPriorData = Inr r"
    by (simp add: exec_defs sample_defs genesis_tx_def)
  then obtain r where r: "execute_transaction sample_env (sample_read\<lparr>kr_next_height := 0\<rparr>) genesis_tx 0 NoPriorData = Inr r"
    by blast
  show ?thesis using genesis_exactly_first [OF r refl] r by (simp add: is_ok_iff)
qed

section \<open>Properties of the handlers\<close>

definition votes_for :: "validator_set \<Rightarrow> pending_bridge_event \<Rightarrow> nat" where
  "votes_for vs p = card (set (pe_attestations p) \<inter> set (listeners vs))"

lemma existing_signatures_card:
  "distinct (pe_attestations p) \<Longrightarrow> existing_signatures vs p = votes_for vs p"
  by (simp add: existing_signatures_def votes_for_def distinct_length_filter Int_commute)

text \<open>C25: an accepted listener message comes from a listener, adds its one attestation, and then
  takes from the front of the chain's event queue exactly the events that as many distinct
  listeners as the quorum needs have attested; the first event without a quorum stops the rest.\<close>

theorem listener_processes_ready_prefix:
  assumes "fs_inv E v (ec_fs c)" "listener E chain ev i c = Inr c'" "vs = fs_validator_set (ec_fs c)"
  shows "\<exists>cs cs'. om_get (fs_chains (ec_fs c)) chain = Some cs \<and> ec_pubkey c \<in> set (listeners vs) \<and>
    attest i ev (ec_pubkey c) cs = (Inr cs' :: 'd kerr + 'd chain_state) \<and>
    events_of (ec_fs c') chain =
      dropWhile (\<lambda>e. unat (needed_listeners vs) \<le> votes_for vs (snd e)) (cs_pending_events cs')"
proof -
  from assms(2) obtain cs cs' where l: "ec_pubkey c \<in> set (listeners vs)"
    and cs: "om_get (fs_chains (ec_fs c)) chain = Some cs"
    and a: "attest i ev (ec_pubkey c) cs = (Inr cs' :: 'd kerr + 'd chain_state)"
    and p: "process_ready_events E chain (c\<lparr>ec_fs := put_chain chain cs' (ec_fs c)\<rparr>) = Inr c'"
    by (auto simp: listener_def on_fs_def on_chain_def result_simps assms(3))
  have "chain_inv E chain cs" using assms(1) cs by (rule fs_invD)
  then have inv: "chain_inv E chain cs'" using a by (rule chain_inv_attest)
  then have wf: "om_wf (cs_pending_events cs')" by (simp add: chain_inv_def)
  have "distinct (pe_attestations (snd e))" if "e \<in> set (cs_pending_events cs')" for e
    using inv om_get_iff_in_set [OF wf, of "fst e" "snd e"] that by (auto simp: chain_inv_def)
  then have "dropWhile (\<lambda>e. listener_quorum vs (snd e)) (cs_pending_events cs') =
      dropWhile (\<lambda>e. unat (needed_listeners vs) \<le> votes_for vs (snd e)) (cs_pending_events cs')"
    by (intro dropWhile_cong) (auto simp: listener_quorum_def existing_signatures_card)
  moreover have "events_of (ec_fs c') chain = dropWhile (\<lambda>e. listener_quorum vs (snd e)) (cs_pending_events cs')"
    using process_ready_events_queue [OF p] wf by (simp add: put_chain_def assms(3) events_of_def)
  ultimately show ?thesis using l cs a by simp
qed

lemma listener_processes_ready_prefix_witness:
  "\<exists>c'. listener sample_env OsmosisLocal (Regular ''w'' [(''uatom'', 10)] [PublicKey [9]]) 0
      (start_ctx sample_read (tj_value (stj_message wallet_tx)) 0 NoPriorData 0 default_accounts\<lparr>ec_logs := [[]]\<rparr>)
      = Inr c' \<and> events_of (ec_fs c') OsmosisLocal = []"
proof -
  let ?c = "start_ctx sample_read (tj_value (stj_message wallet_tx)) 0 NoPriorData 0 default_accounts\<lparr>ec_logs := [[]]\<rparr>"
  let ?ev = "Regular ''w'' [(''uatom'', 10)] [PublicKey [9]]"
  have "\<exists>c'. listener sample_env OsmosisLocal ?ev 0 ?c = Inr c'"
    by (simp add: listener_defs exec_defs sample_defs wallet_tx_def)
  then obtain c' where c': "listener sample_env OsmosisLocal ?ev 0 ?c = Inr c'" by blast
  have inv: "fs_inv sample_env of_int (ec_fs ?c)"
    using sample_inv by (simp add: fs_inv_def accounts_wf_default balances_pos_def asset_of_def default_accounts_def
        accounts_wf_default [unfolded default_accounts_def])
  from listener_processes_ready_prefix [OF inv c' refl] show ?thesis
    using c' by (auto simp: attest_def sample_defs votes_for_def os_insert_def insort_insert_key_def
        split: if_splits)
qed

lemma processor_approve_iff:
  "is_ok (processor_approve E chain i proc sgs (fs :: 'd framework_state)) \<longleftrightarrow>
     (\<exists>cs a payload keys. om_get (fs_chains fs) chain = Some cs \<and>
        om_get (cs_pending_actions cs) i = Some a \<and> pa_processor a = None \<and>
        payload_bytes_to_sign (e_b64_decode E) a chain = (Inr payload :: 'd kerr + bytes) \<and>
        sig_validate (e_recover E) proc payload = Some (processor (fs_validator_set fs)) \<and>
        map (\<lambda>sg. sig_validate (e_recover E) sg payload) sgs = map Some keys \<and>
        set keys \<subseteq> set (approvers (fs_validator_set fs)) \<and> distinct keys \<and>
        unat (needed_approvers (fs_validator_set fs)) \<le> length keys)"
proof -
  have keys: "rmap (check_approver (e_recover E) aps payload) sgs = (Inr keys :: 'd kerr + _) \<longleftrightarrow>
      map (\<lambda>sg. sig_validate (e_recover E) sg payload) sgs = map Some keys \<and> set keys \<subseteq> set aps"
    for aps payload keys
  proof (induction sgs arbitrary: keys)
    case (Cons sg sgs)
    then show ?case by (cases keys) (auto simp: check_approver_def result_simps)
  qed auto
  have dist: "length sgs = length (os_of_list keys) \<longleftrightarrow> distinct keys" if "length sgs = length keys" for keys :: "public_key list"
  proof -
    have "length (os_of_list keys) = card (set keys)"
      using os_wf_of_list [of keys] set_os_of_list [of keys] distinct_card [of "os_of_list keys"]
      by (simp add: os_wf_iff)
    then show ?thesis by (metis card_distinct distinct_card that)
  qed
  have len: "map f sgs = map Some keys \<Longrightarrow> length sgs = length keys" for f and keys :: "public_key list"
    by (metis length_map)
  have tail: "(map f sgs = map Some keys \<and> S) \<and> length sgs = length (os_of_list keys) \<and> n \<le> length sgs \<longleftrightarrow>
      map f sgs = map Some keys \<and> S \<and> distinct keys \<and> n \<le> length keys" for f S n and keys :: "public_key list"
    using dist [of keys] len [of f keys] by (cases "map f sgs = map Some keys") simp_all
  have "is_ok (processor_approve E chain i proc sgs fs) \<longleftrightarrow>
      (\<exists>cs a payload keys. om_get (fs_chains fs) chain = Some cs \<and>
        om_get (cs_pending_actions cs) i = Some a \<and> pa_processor a = None \<and>
        payload_bytes_to_sign (e_b64_decode E) a chain = (Inr payload :: 'd kerr + bytes) \<and>
        sig_validate (e_recover E) proc payload = Some (processor (fs_validator_set fs)) \<and>
        rmap (check_approver (e_recover E) (approvers (fs_validator_set fs)) payload) sgs =
          (Inr keys :: 'd kerr + _) \<and>
        length sgs = length (os_of_list keys) \<and>
        unat (needed_approvers (fs_validator_set fs)) \<le> length sgs)"
    unfolding processor_approve_def on_chain_def is_ok_iff by (simp add: result_simps) blast
  also have "\<dots> \<longleftrightarrow> (\<exists>cs a payload keys. om_get (fs_chains fs) chain = Some cs \<and>
        om_get (cs_pending_actions cs) i = Some a \<and> pa_processor a = None \<and>
        payload_bytes_to_sign (e_b64_decode E) a chain = (Inr payload :: 'd kerr + bytes) \<and>
        sig_validate (e_recover E) proc payload = Some (processor (fs_validator_set fs)) \<and>
        map (\<lambda>sg. sig_validate (e_recover E) sg payload) sgs = map Some keys \<and>
        set keys \<subseteq> set (approvers (fs_validator_set fs)) \<and> distinct keys \<and>
        unat (needed_approvers (fs_validator_set fs)) \<le> length keys)"
    unfolding keys tail by (rule refl)
  finally show ?thesis .
qed

text \<open>C26: the processor's confirmation of a bridge action is accepted exactly when the action exists
  and is unconfirmed, the processor signed its payload, and the listed signatures are by pairwise
  distinct approvers, at least as many as the quorum.\<close>

theorem processor_approve_accepts_iff:
  "is_ok (processor_approve E chain i proc sgs (fs :: 'd framework_state)) \<longleftrightarrow>
     (\<exists>cs a payload keys. om_get (fs_chains fs) chain = Some cs \<and>
        om_get (cs_pending_actions cs) i = Some a \<and> pa_processor a = None \<and>
        payload_bytes_to_sign (e_b64_decode E) a chain = (Inr payload :: 'd kerr + bytes) \<and>
        sig_validate (e_recover E) proc payload = Some (processor (fs_validator_set fs)) \<and>
        map (\<lambda>sg. sig_validate (e_recover E) sg payload) sgs = map Some keys \<and>
        set keys \<subseteq> set (approvers (fs_validator_set fs)) \<and> distinct keys \<and>
        unat (needed_approvers (fs_validator_set fs)) \<le> length keys)"
  by (rule processor_approve_iff)

lemma deposit_fund_config:
  assumes "deposit_fund D chain j f fs = Inr fs'" "om_get (fs_chains fs) k = Some cs"
  shows "\<exists>cs'. om_get (fs_chains fs') k = Some cs' \<and> cs_config cs' = cs_config cs"
  using assms by (auto simp: deposit_fund_def on_accounts_def on_chain_def put_chain_def cs_deposit_def
      Let_def result_simps split: option.splits)

lemma zero_amount_refused:
  assumes D: "decimal_laws D v R" and "om_get (fs_chains fs) chain = Some cs"
    and "om_get (cc_assets (cs_config cs)) denom = Some ac"
  shows "deposit_fund D chain j (denom, 0) fs \<noteq> Inr fs'"
proof
  assume "deposit_fund D chain j (denom, 0) fs = Inr fs'"
  with assms(2,3) obtain d A where d: "to_decimal D ac 0 = (Inr d :: 'a kerr + 'a)"
    and m: "mint D j (ac_asset_id ac) d (fs_accounts fs) = Inr A"
    by (auto simp: deposit_fund_def on_accounts_def on_chain_def result_simps)
  have "v d = 0" using to_decimal_value [OF D d] by simp
  then show False using m by (simp add: mint_Inr_iff [OF D])
qed

lemma zero_amount_regular_refused:
  assumes D: "decimal_laws D v R" and "om_get (fs_chains fs) chain = Some cs"
    and "om_get (cc_assets (cs_config cs)) denom = Some ac" "(denom, 0) \<in> set funds"
  shows "regular_event D chain w funds keys fs \<noteq> Inr r"
proof
  assume "regular_event D chain w funds keys fs = Inr r"
  then obtain j A fs' where f: "rfold (deposit_fund D chain j) funds (fs\<lparr>fs_accounts := A\<rparr>) = Inr fs'"
    by (auto simp: regular_event_def result_simps)
  let ?I = "\<lambda>t. \<exists>cs'. om_get (fs_chains t) chain = Some cs' \<and> cs_config cs' = cs_config cs"
  have start: "?I (fs\<lparr>fs_accounts := A\<rparr>)" using assms(2) by simp
  have "?I t'" if "?I t" "deposit_fund D chain j x t = Inr t'" for x t t'
    using that deposit_fund_config by metis
  with rfold_applied [OF f assms(4), of ?I] start obtain t t' where "?I t" "deposit_fund D chain j (denom, 0) t = Inr t'"
    by blast
  then show False using zero_amount_refused [OF D] assms(3) by metis
qed

text \<open>A deposit event that carries a zero amount of a configured asset can never be processed:
  once it heads the queue with a quorum, processing fails, and with it every listener message that
  would complete the quorum, so the chain's bridge stops there.\<close>

theorem zero_amount_event_blocks_queue:
  assumes "decimal_laws (e_dec E) v R"
    and "om_get (fs_chains (ec_fs c)) chain = Some cs" "om_first (cs_pending_events cs) = Some (i, p)"
    and "pe_event p = Regular w funds keys" "(denom, 0) \<in> set funds"
    and "om_get (cc_assets (cs_config cs)) denom = Some ac"
    and "listener_quorum (fs_validator_set (ec_fs c)) p"
  shows "\<not> is_ok (process_ready_events E chain c)"
proof
  assume "is_ok (process_ready_events E chain c)"
  then obtain c' where ok: "process_ready_events E chain c = Inr c'" by (auto simp: is_ok_iff)
  then obtain ready where ready: "get_next_ready_event (ec_fs c) chain = Inr ready"
    by (subst (asm) process_ready_events.simps) (auto simp: rbind_Inr_iff)
  have "ready = Some i"
  proof (cases ready)
    case None
    with next_ready_None [OF _ assms(2)] ready assms(3,7) show ?thesis
      by (auto simp: om_first_def split: list.splits)
  next
    case (Some j)
    with next_ready_Some ready assms(2,3) show ?thesis by fastforce
  qed
  with ok ready obtain ev c1 c2 where r: "remove_event chain i c = Inr (ev, c1)"
    and pe: "process_event E chain i ev c1 = Inr c2"
    by (subst (asm) process_ready_events.simps) (auto simp: rbind_Inr_iff)
  have "om_get (cs_pending_events cs) i = Some p"
    using assms(3) by (auto simp: om_first_def split: list.splits)
  with remove_event_Inr [OF r] assms(2,4) have ev: "ev = Regular w funds keys"
    and c1: "om_get (fs_chains (ec_fs c1)) chain =
      Some (cs\<lparr>cs_pending_events := om_remove i (cs_pending_events cs)\<rparr>)"
    by (auto simp: put_chain_def)
  from pe ev obtain r' where "regular_event (e_dec E) chain w funds keys (ec_fs c1) = Inr r'"
    by (auto simp: process_event_def rbind_Inr_iff)
  then show False
    using zero_amount_regular_refused [OF assms(1) c1 _ assms(5)] assms(6) by simp
qed

definition stuck_ctx :: "(int, unit) exec_ctx" where
  "stuck_ctx = (start_ctx sample_read (tj_value (stj_message wallet_tx)) 0 NoPriorData 0 default_accounts)
     \<lparr>ec_logs := [[]], ec_fs := put_chain OsmosisLocal
        ((into_state (snd (gi_chains sample_genesis ! 0)))\<lparr>cs_next_event_id := 1, cs_pending_events :=
           [(0, \<lparr>pe_event = Regular ''w'' [(''uatom'', 0)] [], pe_attestations = [PublicKey [2]]\<rparr>)]\<rparr>)
        (kr_fs sample_read)\<rparr>"

lemma zero_amount_event_blocks_queue_witness:
  "\<not> is_ok (process_ready_events sample_env OsmosisLocal stuck_ctx)"
  by (rule zero_amount_event_blocks_queue [OF sample_dec, where denom = "''uatom''" and i = 0])
    (auto simp: stuck_ctx_def sample_defs put_chain_def om_first_def listener_quorum_def existing_signatures_def)

section \<open>Validator changes\<close>

text \<open>A validator may name as its replacement a key that is already in the set: the set then
  loses a member, and when its quorum was all of its members it can never be met again.  Nothing
  validates the set a self-replacement produces.\<close>

theorem self_replace_can_break_quorum:
  assumes "vs_wf vs" "quorum_reachable vs" "unat (needed_listeners vs) = length (listeners vs)"
    and "signer \<in> set (listeners vs)" "repl \<in> set (listeners vs)" "signer \<noteq> repl"
  shows "\<exists>vs'. apply_self_replace signer \<lparr>validator_type = ListenerType, replacement = repl\<rparr> vs
      = (Inr vs' :: 'd kerr + validator_set) \<and> \<not> quorum_reachable vs'"
proof -
  let ?new = "os_insert repl (os_remove signer (listeners vs))"
  have wf: "os_wf (listeners vs)" using assms(1) by (simp add: vs_wf_def)
  then have "os_wf ?new" by (intro os_wf_insert os_wf_remove)
  then have "length ?new = card (set ?new)"
    unfolding os_wf_iff by (metis distinct_card)
  also have "set ?new = set (listeners vs) - {signer}" using assms(5,6) by auto
  also have "card \<dots> < card (set (listeners vs))" using assms(4) by (intro psubset_card_mono) auto
  also have "\<dots> = length (listeners vs)" using wf by (simp add: os_wf_iff distinct_card)
  finally have "length ?new < unat (needed_listeners vs)" by (simp add: assms(3))
  then show ?thesis
    using assms(4) by (simp add: apply_self_replace_def replace_member_def quorum_reachable_def)
qed

lemma self_replace_can_break_quorum_witness:
  "\<exists>vs'. apply_self_replace (PublicKey [2]) \<lparr>validator_type = ListenerType, replacement = PublicKey [4]\<rparr>
      \<lparr>processor = PublicKey [1], listeners = [PublicKey [2], PublicKey [4]], needed_listeners = 2,
        approvers = [PublicKey [3]], needed_approvers = 1\<rparr>
      = (Inr vs' :: int kerr + validator_set) \<and> \<not> quorum_reachable vs'"
  by (rule self_replace_can_break_quorum)
    (auto simp: vs_wf_def os_wf_def less_public_key_def quorum_reachable_def)

text \<open>A chain configured as pass-through blocks every change of validators: replacing oneself,
  or completing the approval of a new set, panics on rendering the action for that chain.\<close>

theorem pass_through_blocks_validator_changes:
  fixes E :: "('d, 'm, 's) env"
  assumes "om_get (fs_chains (ec_fs c)) PassThrough = Some cs"
  shows "\<not> is_ok (self_replace_msg E sr c) \<and>
    \<not> is_ok (apply_proposal E \<lparr>pp_payload = ProposeNewSet t, pp_approvals = aps\<rparr> c)"
proof -
  have all: "\<not> is_ok (add_action_all_chains E a d)"
    if a: "\<And>config i s. to_payload (e_enc E) a PassThrough config i \<noteq> (Inr s :: 'd kerr + string)"
      and d: "fs_chains (ec_fs d) = fs_chains (ec_fs c)" for a and d :: "('d, 's) exec_ctx"
  proof
    assume "is_ok (add_action_all_chains E a d)"
    then obtain d' where f: "rfold (\<lambda>chain c. rbind (add_action E chain a c) (\<lambda>(_, c'). Inr c'))
       (om_keys (fs_chains (ec_fs d))) d = Inr d'"
      by (auto simp: add_action_all_chains_def is_ok_iff)
    have "PassThrough \<in> set (om_keys (fs_chains (ec_fs d)))"
      using om_get_in_set [OF assms] by (force simp: om_keys_def d)
    from rfold_applied [OF f this, of "\<lambda>_. True"] obtain u u' where
      "add_action E PassThrough a u = (Inr u' :: 'd kerr + _)"
      by (auto simp: rbind_Inr_iff)
    then show False using a by (auto simp: add_action_def result_simps Let_def)
  qed
  have "\<not> is_ok (self_replace_msg E sr c)"
    using all [of "ExecSelfReplace sr"]
    by (auto simp: self_replace_msg_def is_ok_iff rbind_Inr_iff self_replace_to_payload_def chain_name_of_def Let_def)
  moreover have "\<not> is_ok (apply_proposal E \<lparr>pp_payload = ProposeNewSet t, pp_approvals = aps\<rparr> c)"
    using all [of "ExecNewSet t (om_values aps)"]
    by (auto simp: apply_proposal_def new_set_to_payload_def chain_name_of_def)
  ultimately show ?thesis by blast
qed

definition pass_through_ctx :: "(int, unit) exec_ctx" where
  "pass_through_ctx = (start_ctx sample_read (tj_value (stj_message wallet_tx)) 0 NoPriorData 0 default_accounts)
     \<lparr>ec_logs := [[]], ec_fs := put_chain PassThrough
        (into_state \<lparr>cc_assets = [], cc_bridge = Deployed ''p''\<rparr>) (kr_fs sample_read)\<rparr>"

lemma pass_through_blocks_validator_changes_witness:
  "\<not> is_ok (self_replace_msg sample_env \<lparr>stj_message = \<lparr>tj_serialized = ''s'', tj_hash = [],
     tj_value = \<lparr>validator_type = ListenerType, replacement = PublicKey [5]\<rparr>\<rparr>,
     stj_signature = Signature [2], stj_recovery_id = 0\<rparr> pass_through_ctx)"
proof -
  have "om_get (fs_chains (ec_fs pass_through_ctx)) PassThrough =
      Some (into_state \<lparr>cc_assets = [], cc_bridge = Deployed ''p''\<rparr>)"
    by (simp add: pass_through_ctx_def put_chain_def)
  from pass_through_blocks_validator_changes [OF this] show ?thesis by blast
qed

definition voters :: "pending_proposal \<Rightarrow> public_key set" where
  "voters p = fst ` set (pp_approvals p)"

definition two_groups :: "validator_set \<Rightarrow> public_key set \<Rightarrow> bool" where
  "two_groups vs V \<longleftrightarrow> 2 \<le> length (filter id
     [processor vs \<in> V,
      unat (needed_listeners vs) \<le> length (filter (\<lambda>k. k \<in> V) (listeners vs)),
      unat (needed_approvers vs) \<le> length (filter (\<lambda>k. k \<in> V) (approvers vs))])"

lemma voters_contains: "om_contains (pp_approvals p) k \<longleftrightarrow> k \<in> voters p"
  by (simp add: om_contains_iff voters_def)

lemma sufficient_two_groups:
  assumes "has_sufficient_approvals p vs" "length (listeners vs) < 2 ^ 16" "length (approvers vs) < 2 ^ 16"
  shows "two_groups vs (voters p) \<and> (is_upgrade (pp_payload p) \<longrightarrow> processor vs \<in> voters p)"
proof -
  have count: "fulfills_groups p ms n \<longleftrightarrow> unat n \<le> length (filter (\<lambda>k. k \<in> voters p) ms)"
    if "length ms < 2 ^ 16" for ms n
  proof -
    have "length (filter (\<lambda>k. k \<in> voters p) ms) < 2 ^ 16"
      using that length_filter_le [of "\<lambda>k. k \<in> voters p" ms] by linarith
    moreover have "filter (om_contains (pp_approvals p)) ms = filter (\<lambda>k. k \<in> voters p) ms"
      by (rule filter_cong) (simp_all add: voters_contains)
    ultimately show ?thesis
      by (simp add: fulfills_groups_def word_le_nat_alt unat_of_nat_small)
  qed
  show ?thesis
    using assms(1) unfolding has_sufficient_approvals_def Let_def count [OF assms(2)] count [OF assms(3)]
    by (auto simp: voters_contains two_groups_def split: if_splits)
qed

lemma check_pending_applied:
  assumes "check_pending_proposals E c = Inr c'" "ap_proposals (fs_admin (ec_fs c')) \<noteq> ap_proposals (fs_admin (ec_fs c)) \<or>
    fs_validator_set (ec_fs c') \<noteq> fs_validator_set (ec_fs c) \<or> fs_version (ec_fs c') \<noteq> fs_version (ec_fs c)"
  shows "\<exists>i p. (i, p) \<in> set (ap_proposals (fs_admin (ec_fs c))) \<and>
    has_sufficient_approvals p (fs_validator_set (ec_fs c)) \<and> ap_proposals (fs_admin (ec_fs c')) = []"
proof (cases "find_approved_proposal (ec_fs c)")
  case None
  with assms show ?thesis by (simp add: check_pending_proposals_def)
next
  case (Some e)
  then have "e \<in> set (ap_proposals (fs_admin (ec_fs c))) \<and>
      has_sufficient_approvals (snd e) (fs_validator_set (ec_fs c))"
    unfolding find_approved_proposal_def by (rule find_SomeE)
  moreover have "ap_proposals (fs_admin (ec_fs c')) = []"
    using assms(1) Some by (auto simp: check_pending_proposals_def rbind_Inr_iff clear_proposals_def split: prod.splits)
  ultimately show ?thesis by (cases e) auto
qed


definition upgrade_ctx :: "(int, unit) exec_ctx" where
  "upgrade_ctx = (start_ctx sample_read (tj_value (stj_message wallet_tx)) 0 NoPriorData 0 default_accounts)
     \<lparr>ec_logs := [[]], ec_fs := (kr_fs sample_read)\<lparr>fs_admin := \<lparr>ap_next_id = 1, ap_proposals =
       [(0, \<lparr>pp_payload = ProposeUpgrade \<lparr>tj_serialized = ''u'', tj_hash = [], tj_value = \<lparr>desired_version = ''v2''\<rparr>\<rparr>,
         pp_approvals = [(PublicKey [1], \<lparr>recid = 0, sig = Signature [1]\<rparr>),
           (PublicKey [2], \<lparr>recid = 0, sig = Signature [2]\<rparr>)]\<rparr>)]\<rparr>\<rparr>\<rparr>"


section \<open>Balances\<close>

lemma total_supply_put_bal:
  assumes "om_wf (accts A)"
  shows "total_supply v (put_account i a A) t = total_supply v A t - bal v A i t + bal v (put_account i a A) i t"
  by (simp add: total_supply_put [OF assms] bal_def)

lemma mint_supply:
  assumes D: "decimal_laws D v R" and "accounts_wf A" "mint D i s x A = Inr A'"
    and "bal v A' = ledger_add (bal v A) i s (v x)"
  shows "total_supply v A' t = total_supply v A t + (if t = s then v x else 0)"
proof -
  have wf: "om_wf (accts A)" using assms(2) by (simp add: accounts_wf_def)
  from assms(3) obtain a where A': "A' = put_account i a A" by (auto dest: mint_Inr)
  show ?thesis
    unfolding A' total_supply_put_bal [OF wf] assms(4) [unfolded A'] by (simp add: ledger_add_def)
qed

lemma burn_supply:
  assumes D: "decimal_laws D v R" and "accounts_wf A" "burn D i s x A = Inr A'"
    and "bal v A' = ledger_add (bal v A) i s (- v x)"
  shows "total_supply v A' t = total_supply v A t - (if t = s then v x else 0)"
proof -
  have wf: "om_wf (accts A)" using assms(2) by (simp add: accounts_wf_def)
  from assms(3) obtain a where A': "A' = put_account i a A" by (auto dest: burn_Inr)
  show ?thesis
    unfolding A' total_supply_put_bal [OF wf] assms(4) [unfolded A'] by (simp add: ledger_add_def)
qed

lemma burn_ok_ledger:
  assumes D: "decimal_laws D v R" and "burn D i s x A = Inr A'" "bal v A i s - v x \<in> R"
  shows "bal v A' = ledger_add (bal v A) i s (- v x) \<and> 0 < v x \<and> v x \<le> bal v A i s"
proof -
  from assms(2) have pos: "0 < v x \<and> v x \<le> bal v A i s"
    by (auto simp: burn_Inr_iff [OF D] bal_def asset_of_Some)
  then show ?thesis using burn_ledger [OF D, of x A i s] assms(2,3) by auto
qed

lemma mint_ok_ledger:
  assumes D: "decimal_laws D v R" and "mint D i s x A = Inr A'" "bal v A i s + v x \<in> R"
  shows "bal v A' = ledger_add (bal v A) i s (v x)"
  using mint_ledger [OF D, of x A i s] assms(2,3) by (auto simp: mint_Inr_iff [OF D])

text \<open>A transfer moves exactly the amount from source to destination, only a positive amount the
  source holds, and leaves the total supply of every asset unchanged (also when source and
  destination are one account).\<close>

theorem transfer_conserves_supply:
  assumes "decimal_laws D v R" "accounts_wf A" "A = fs_accounts (ec_fs c)"
    and "transfer_asset D s i j x c = Inr c'"
    and "bal v A i s - v x \<in> R" "ledger_add (bal v A) i s (- v x) j s + v x \<in> R"
  shows "bal v (fs_accounts (ec_fs c')) = ledger_add (ledger_add (bal v A) i s (- v x)) j s (v x) \<and>
    0 < v x \<and> v x \<le> bal v A i s \<and> total_supply v (fs_accounts (ec_fs c')) = total_supply v A"
proof -
  from assms(4) obtain B C where b: "burn D i s x A = Inr B" and m: "mint D j s x B = Inr C"
    and C: "fs_accounts (ec_fs c') = C"
    by (auto simp: transfer_asset_def burn_asset_def mint_asset_def on_fs_def on_accounts_def
        result_simps assms(3))
  note bl = burn_ok_ledger [OF assms(1) b assms(5)]
  have ml: "bal v C = ledger_add (bal v B) j s (v x)"
    using mint_ok_ledger [OF assms(1) m] assms(6) bl by simp
  have "total_supply v C = total_supply v A"
    using burn_supply [OF assms(1,2) b] mint_supply [OF assms(1) burn_wf [OF assms(2) b] m ml] bl
    by (intro ext) simp
  then show ?thesis using bl ml C by simp
qed

definition funded :: "int accounts" where
  "funded = put_account 1 (default_account\<lparr>assets := [(7, 5)]\<rparr>) default_accounts"

lemma funded_wf: "accounts_wf funded"
  unfolding funded_def
  by (rule accounts_wf_put [OF accounts_wf_default]) (simp add: updates_def get_or_default_def om_wf_Cons)

lemma transfer_conserves_supply_witness:
  "\<exists>c'. transfer_asset int_decimal 7 1 2 3 (upgrade_ctx\<lparr>ec_fs := (ec_fs upgrade_ctx)\<lparr>fs_accounts := funded\<rparr>\<rparr>) = Inr c' \<and>
     total_supply of_int (fs_accounts (ec_fs c')) = total_supply of_int funded"
proof -
  let ?c = "upgrade_ctx\<lparr>ec_fs := (ec_fs upgrade_ctx)\<lparr>fs_accounts := funded\<rparr>\<rparr>"
  have "\<exists>c'. transfer_asset int_decimal 7 1 2 3 ?c = Inr c'"
    by (simp add: transfer_asset_def burn_asset_def mint_asset_def on_fs_def on_accounts_def funded_def
        burn_def mint_def put_account_def get_or_default_def default_accounts_def Let_def)
  then obtain c' where c': "transfer_asset int_decimal 7 1 2 3 ?c = Inr c'" by blast
  have b: "bal of_int funded k t \<in> \<int>" for k t
    by (simp add: bal_def val_of_def split: option.splits)
  have A: "funded = fs_accounts (ec_fs ?c)" by simp
  show ?thesis
    using transfer_conserves_supply [OF int_decimal_laws funded_wf A c'] b c'
    by (auto simp: ledger_add_def)
qed

definition chain_bal :: "('d \<Rightarrow> rat) \<Rightarrow> 'd framework_state \<Rightarrow> external_chain \<Rightarrow> u64 \<Rightarrow> rat" where
  "chain_bal v fs chain s =
     (case om_get (fs_chains fs) chain of None \<Rightarrow> 0 | Some cs \<Rightarrow> val_of v (om_get (cs_assets cs) s))"

lemma cs_withdraw_ok:
  assumes D: "decimal_laws D v R" and "cs_withdraw D s x cs = Inr cs'"
    and "val_of v (om_get (cs_assets cs) s) - v x \<in> R"
  shows "val_of v (om_get (cs_assets cs') s) = val_of v (om_get (cs_assets cs) s) - v x"
proof -
  let ?old = "case om_get (cs_assets cs) s of None \<Rightarrow> d_zero D | Some d \<Rightarrow> d"
  have "v ?old = val_of v (om_get (cs_assets cs) s)"
    using decimal_lawsD(1) [OF D] by (simp split: option.splits)
  then obtain z where "d_checked_sub D ?old x = Some z"
    and z: "v z = val_of v (om_get (cs_assets cs) s) - v x"
    using decimal_lawsD(7) [OF D, of ?old x] assms(3) by auto
  then have "cs' = cs\<lparr>cs_assets := om_insert s z (cs_assets cs)\<rparr>"
    using assms(2) by (simp add: cs_withdraw_def)
  then show ?thesis by (simp add: z)
qed

text \<open>A withdrawal burns from the account what is sent on chain, the amount rounded down to the
  asset's decimals, but takes the unrounded amount off the chain's recorded balance: whenever the
  amount has more decimals than the asset, the record ends up below what the bridge holds, by the
  dust the account kept.\<close>

theorem withdraw_drops_dust_from_chain_record:
  assumes "decimal_laws (e_dec E) v R" "withdraw_asset E s chain src w x c = Inr (n, c')"
    and "get_asset_config (ec_fs c) chain s = (Inr config :: 'd kerr + asset_config)"
    and "to_u128 (e_dec E) config x = (Inr (d, u) :: 'd kerr + _)"
    and "bal v (fs_accounts (ec_fs c)) src s - v d \<in> R" "chain_bal v (ec_fs c) chain s - v x \<in> R"
  shows "bal v (fs_accounts (ec_fs c')) src s = bal v (fs_accounts (ec_fs c)) src s - v d \<and>
    chain_bal v (ec_fs c') chain s = chain_bal v (ec_fs c) chain s - v x"
proof -
  from assms(2,3,4) obtain A cs cs' where b: "burn (e_dec E) src s d (fs_accounts (ec_fs c)) = Inr A"
    and cs: "om_get (fs_chains (ec_fs c)) chain = Some cs"
    and wd: "cs_withdraw (e_dec E) s x cs = Inr cs'"
    and a: "add_action E chain (ExecTransfer chain w [\<lparr>aa_id = s, aa_amount = u\<rparr>])
      (c\<lparr>ec_fs := put_chain chain cs' ((ec_fs c)\<lparr>fs_accounts := A\<rparr>)\<rparr>) = Inr (n, c')"
  proof -
    from assms(2) obtain c1 c2 where 1: "on_fs (on_accounts (burn (e_dec E) src s d)) c = Inr c1"
      and 2: "on_fs (on_chain chain (cs_withdraw (e_dec E) s x)) c1 = Inr c2"
      and 3: "add_action E chain (ExecTransfer chain w [\<lparr>aa_id = s, aa_amount = u\<rparr>]) c2 = Inr (n, c')"
      by (auto simp: withdraw_asset_def assms(3,4) rbind_Inr_iff)
    from 1 obtain A where A: "burn (e_dec E) src s d (fs_accounts (ec_fs c)) = Inr A"
      and c1: "c1 = c\<lparr>ec_fs := (ec_fs c)\<lparr>fs_accounts := A\<rparr>\<rparr>"
      by (auto simp: on_fs_def on_accounts_def rbind_Inr_iff)
    from 2 obtain cs cs' where "om_get (fs_chains (ec_fs c)) chain = Some cs"
      and "cs_withdraw (e_dec E) s x cs = Inr cs'"
      and "c2 = c\<lparr>ec_fs := put_chain chain cs' ((ec_fs c)\<lparr>fs_accounts := A\<rparr>)\<rparr>"
      by (auto simp: on_fs_def on_chain_def rbind_Inr_iff c1 chains_get_Inr)
    with A 3 show thesis using that by blast
  qed
  from a obtain cs2 where "fs_accounts (ec_fs c') = A"
    and "om_get (fs_chains (ec_fs c')) chain = Some cs2" "cs_assets cs2 = cs_assets cs'"
    by (auto simp: add_action_def put_chain_def result_simps Let_def dest!: log_event_fs)
  moreover have "bal v A src s = bal v (fs_accounts (ec_fs c)) src s - v d"
    using burn_ok_ledger [OF assms(1) b assms(5)] by (simp add: ledger_add_def)
  moreover have "val_of v (om_get (cs_assets cs') s) = val_of v (om_get (cs_assets cs) s) - v x"
    using cs_withdraw_ok [OF assms(1) wd] assms(6) cs by (simp add: chain_bal_def)
  ultimately show ?thesis using cs by (simp add: chain_bal_def)
qed

text \<open>
  Decimals with two places, to evaluate on: an account of 5.00 withdraws 1.50 of an asset without
  decimals.  It pays 1.00, and the chain's record drops by 1.50.
\<close>

definition cent_decimal :: "int decimal_ops" where
  "cent_decimal = \<lparr>
     d_zero = 0,
     d_is_zero = (\<lambda>x. x = 0),
     d_is_sign_negative = (\<lambda>x. x < 0),
     d_checked_add = (\<lambda>x y. Some (x + y)),
     d_checked_sub = (\<lambda>x y. Some (x - y)),
     d_cmp = (\<lambda>x y. if x < y then Less else if x = y then Equal else Greater),
     d_mantissa = (\<lambda>x. x),
     d_scale = (\<lambda>_. 2),
     d_try_from_i128_with_scale = (\<lambda>i s. if s \<le> 2 then Some (i * 10 ^ (2 - s)) else None)\<rparr>"

definition cents :: "int \<Rightarrow> rat" where
  "cents x = of_int x / 100"

lemma cents_arith:
  "cents x + cents y = cents (x + y)" "cents x - cents y = cents (x - y)"
  "cents x < cents y \<longleftrightarrow> x < y" "cents x = cents y \<longleftrightarrow> x = y"
  "0 < cents x \<longleftrightarrow> 0 < x" "cents x < 0 \<longleftrightarrow> x < 0" "cents x = 0 \<longleftrightarrow> x = 0"
  by (simp_all add: cents_def divide_simps)

lemma cent_decimal_laws: "decimal_laws cent_decimal cents (range cents)"
proof -
  have a: "cents (i * 10 ^ (2 - s)) = of_int i / 10 ^ s" if "s \<le> 2" for i and s :: nat
  proof -
    have "s = 0 \<or> s = 1 \<or> s = 2" using that by auto
    then show ?thesis by (auto simp: cents_def)
  qed
  have b: "cents x = of_int x / 10\<^sup>2" for x by (simp add: cents_def)
  show ?thesis
    unfolding decimal_laws_def cent_decimal_def decimal_ops.simps
    by (intro conjI allI impI; (rule b)?; (auto simp: cents_arith intro: a split: if_splits)?)
qed

definition dust_ctx :: "(int, unit) exec_ctx" where
  "dust_ctx = \<lparr>ec_fs = (fs_new sample_genesis)\<lparr>
       fs_accounts := default_accounts\<lparr>accts := [(0, default_account\<lparr>assets := [(1, 500)]\<rparr>)]\<rparr>,
       fs_chains := [(OsmosisLocal, (into_state \<lparr>cc_assets = [(''uatom'', \<lparr>ac_decimals = 0, ac_asset_id = 1\<rparr>)],
         cc_bridge = Deployed ''contract''\<rparr>)\<lparr>cs_assets := [(1, 500)]\<rparr>)]\<rparr>,
     ec_app_state = (), ec_logs = [[]], ec_loads = [], ec_handling = NoPriorData,
     ec_pubkey = PublicKey [2], ec_sender = 0, ec_signing_key = PublicKey [2], ec_timestamp = 0,
     ec_height = 1\<rparr>"

lemma dust_rounding:
  "to_u128 cent_decimal \<lparr>ac_decimals = 0, ac_asset_id = 1\<rparr> 150 = (Inr (100, 1) :: int kerr + _)"
proof -
  have "div10_times 2 150 = (1 :: u128)" by code_simp
  then show ?thesis
    by (simp add: to_u128_def u128_try_from_def to_decimal_def i128_try_from_def cent_decimal_def Let_def)
qed

lemma dust_run: "\<exists>n c'. withdraw_asset (sample_env\<lparr>e_dec := cent_decimal\<rparr>) 1 OsmosisLocal 0 ''w'' 150 dust_ctx = Inr (n, c')"
proof -
  have "get_asset_config (ec_fs dust_ctx) OsmosisLocal 1 = (Inr \<lparr>ac_decimals = 0, ac_asset_id = 1\<rparr> :: int kerr + _)"
    by (simp add: dust_ctx_def sample_defs get_asset_config_def chains_get_def om_values_def)
  then show ?thesis
    by (simp add: withdraw_asset_def dust_rounding)
      (simp add: dust_ctx_def sample_defs default_account_def chains_get_def cent_decimal_def on_fs_def
        on_accounts_def burn_def get_or_default_def on_chain_def put_chain_def cs_withdraw_def add_action_def
        transfer_to_payload_def sample_encoders_def chain_name_of_def transfer_cosmos_def find_asset_def log_event_def
        ctx_log_def put_account_def Let_def)
qed

lemma withdraw_drops_dust_from_chain_record_witness:
  "\<exists>n c'. withdraw_asset (sample_env\<lparr>e_dec := cent_decimal\<rparr>) 1 OsmosisLocal 0 ''w'' 150 dust_ctx = Inr (n, c') \<and>
     bal cents (fs_accounts (ec_fs c')) 0 1 = 4 \<and> chain_bal cents (ec_fs c') OsmosisLocal 1 = 7 / 2"
proof -
  obtain n c' where r: "withdraw_asset (sample_env\<lparr>e_dec := cent_decimal\<rparr>) 1 OsmosisLocal 0 ''w'' 150 dust_ctx = Inr (n, c')"
    using dust_run by blast
  have "get_asset_config (ec_fs dust_ctx) OsmosisLocal 1 = (Inr \<lparr>ac_decimals = 0, ac_asset_id = 1\<rparr> :: int kerr + _)"
    by (simp add: dust_ctx_def sample_defs get_asset_config_def chains_get_def om_values_def)
  moreover have "to_u128 (e_dec (sample_env\<lparr>e_dec := cent_decimal\<rparr>)) \<lparr>ac_decimals = 0, ac_asset_id = 1\<rparr> 150 =
      (Inr (100, 1) :: int kerr + _)"
    by (simp add: dust_rounding)
  moreover have "bal cents (fs_accounts (ec_fs dust_ctx)) 0 1 = 5" "chain_bal cents (ec_fs dust_ctx) OsmosisLocal 1 = 5"
    by (simp_all add: dust_ctx_def bal_def asset_of_def val_of_def chain_bal_def default_account_def
        default_accounts_def cents_def)
  moreover have "cents 400 \<in> range cents" "cents 350 \<in> range cents" by blast+
  ultimately show ?thesis
    using withdraw_drops_dust_from_chain_record [OF _ r, of cents "range cents"] r cent_decimal_laws
    by (auto simp: cents_def)
qed

section \<open>Data loads\<close>

definition request_laws :: "('d, 'q, 'r) data_request \<Rightarrow> bool" where
  "request_laws Q \<longleftrightarrow> (\<forall>q s. rq_to_json Q q = Some s \<longrightarrow> rq_of_json Q s = Some q) \<and>
     (\<forall>r s. rs_to_json Q r = Some s \<longrightarrow> rs_of_json Q s = Some r)"

fun load_all ::
  "('d, 'q, 'r) data_request \<Rightarrow> 'q list \<Rightarrow> ('d, 's) exec_ctx \<Rightarrow> 'd kerr + ('r list \<times> ('d, 's) exec_ctx)" where
  "load_all Q [] c = Inr ([], c)"
| "load_all Q (q # qs) c =
     rbind (load_data Q q c) (\<lambda>(r, c1). rbind (load_all Q qs c1) (\<lambda>(rs, c2). Inr (r # rs, c2)))"

definition validation_accepts :: "('d, 'q, 'r) data_request \<Rightarrow> data_load_validation \<Rightarrow> bool" where
  "validation_accepts Q m \<longleftrightarrow> m = TrustDataLoads \<or>
     (\<forall>q r. rq_load Q q = Inr r \<longrightarrow> rq_validate Q q r = Inr ())"

lemma load_data_replay:
  fixes c :: "('d, 's) exec_ctx"
  assumes "request_laws Q" "validation_accepts Q m" "ec_handling c = NoPriorData"
    and "load_data Q q c = Inr (r, c1)"
  shows "\<exists>l. c1 = c\<lparr>ec_handling := NoPriorData, ec_loads := ec_loads c @ [l]\<rparr> \<and>
    (\<forall>(d :: ('d, 's) exec_ctx) ls. ec_handling d = PriorData (l # ls) m \<longrightarrow>
       load_data Q q d = Inr (r, d\<lparr>ec_handling := PriorData ls m, ec_loads := ec_loads d @ [l]\<rparr>))"
proof -
  from assms(3,4) obtain s t where "rq_to_json Q q = Some s" "rs_to_json Q r = Some t"
    and r: "rq_load Q q = Inr r"
    and c1: "c1 = c\<lparr>ec_handling := NoPriorData, ec_loads := ec_loads c @ [\<lparr>bl_request = s, bl_response = t\<rparr>]\<rparr>"
    by (auto simp: load_data_def result_simps)
  moreover have "rq_of_json Q s = Some q" "rs_of_json Q t = Some r"
    using assms(1) calculation(1,2) by (auto simp: request_laws_def)
  moreover have "m = ValidateDataLoads \<Longrightarrow> rq_validate Q q r = Inr ()"
    using assms(2) r by (auto simp: validation_accepts_def)
  ultimately show ?thesis
    by (intro exI [of _ "\<lparr>bl_request = s, bl_response = t\<rparr>"])
      (auto simp: load_data_def split: data_load_validation.splits)
qed

lemma load_all_replay:
  fixes c :: "('d, 's) exec_ctx"
  assumes "request_laws Q" "validation_accepts Q m"
  shows "ec_handling c = NoPriorData \<Longrightarrow> load_all Q qs c = Inr (rs, c') \<Longrightarrow>
    \<exists>ls. c' = c\<lparr>ec_handling := NoPriorData, ec_loads := ec_loads c @ ls\<rparr> \<and>
      (\<forall>(d :: ('d, 's) exec_ctx) rest. ec_handling d = PriorData (ls @ rest) m \<longrightarrow>
        load_all Q qs d = Inr (rs, d\<lparr>ec_handling := PriorData rest m, ec_loads := ec_loads d @ ls\<rparr>))"
proof (induction qs arbitrary: c rs)
  case Nil
  then show ?case by (intro exI [of _ "[]"]) auto
next
  case (Cons q qs)
  from Cons.prems(2) obtain r c1 rs1 where q: "load_data Q q c = Inr (r, c1)"
    and qs: "load_all Q qs c1 = Inr (rs1, c')" and rs: "rs = r # rs1"
    by (auto simp: result_simps)
  from load_data_replay [OF assms Cons.prems(1) q] obtain l where
    c1: "c1 = c\<lparr>ec_handling := NoPriorData, ec_loads := ec_loads c @ [l]\<rparr>"
    and l: "\<And>(d :: ('d, 's) exec_ctx) ls. ec_handling d = PriorData (l # ls) m \<Longrightarrow>
       load_data Q q d = Inr (r, d\<lparr>ec_handling := PriorData ls m, ec_loads := ec_loads d @ [l]\<rparr>)"
    by blast
  from Cons.IH [OF _ qs] c1 obtain ls where
    c': "c' = c1\<lparr>ec_handling := NoPriorData, ec_loads := ec_loads c1 @ ls\<rparr>"
    and ls: "\<forall>(d :: ('d, 's) exec_ctx) rest. ec_handling d = PriorData (ls @ rest) m \<longrightarrow>
        load_all Q qs d = Inr (rs1, d\<lparr>ec_handling := PriorData rest m, ec_loads := ec_loads d @ ls\<rparr>)"
    by auto
  show ?case
    by (intro exI [of _ "l # ls"]) (simp add: c' c1 rs l ls)
qed

text \<open>Replaying a block's recorded data loads reproduces them: if a run with no prior data made a
  sequence of loads, then the same requests against the recorded list return the same responses,
  record the same list again, and leave nothing over, so the check that all prior loads were used
  passes; with validation, whenever the request's own validation accepts what it loads.\<close>

theorem replayed_loads_agree:
  fixes c d :: "('d, 's) exec_ctx"
  assumes "request_laws Q" "validation_accepts Q m"
    and "ec_handling c = NoPriorData" "ec_loads c = []" "load_all Q qs c = Inr (rs, c')"
    and "ec_handling d = PriorData (ec_loads c') m" "ec_loads d = []"
  shows "\<exists>d'. load_all Q qs d = Inr (rs, d') \<and> ec_loads d' = ec_loads c' \<and>
    loads_used (ec_handling d') = (Inr () :: 'd kerr + unit) \<and> ec_fs d' = ec_fs d"
proof -
  from load_all_replay [OF assms(1,2,3,5)] assms(4) obtain ls where
    "ec_loads c' = ls" and "\<forall>(d :: ('d, 's) exec_ctx) rest. ec_handling d = PriorData (ls @ rest) m \<longrightarrow>
        load_all Q qs d = Inr (rs, d\<lparr>ec_handling := PriorData rest m, ec_loads := ec_loads d @ ls\<rparr>)"
    by auto
  then have "load_all Q qs d = Inr (rs, d\<lparr>ec_handling := PriorData [] m, ec_loads := ec_loads c'\<rparr>)"
    using assms(6,7) by simp
  then show ?thesis by (simp add: loads_used_def)
qed

definition sample_requests :: "(int, char, char) data_request" where
  "sample_requests = \<lparr>rq_to_json = (\<lambda>q. Some [q]), rq_of_json = (\<lambda>s. Some (hd s)),
     rs_to_json = (\<lambda>r. Some [r]), rs_of_json = (\<lambda>s. Some (hd s)),
     rq_load = (\<lambda>q. Inr (if q = CHR ''a'' then CHR ''x'' else CHR ''y'')), rq_validate = (\<lambda>_ _. Inr ())\<rparr>"

lemma replayed_loads_agree_witness:
  "\<exists>d'. load_all sample_requests ''ab'' (upgrade_ctx\<lparr>ec_handling := PriorData
       [\<lparr>bl_request = ''a'', bl_response = ''x''\<rparr>, \<lparr>bl_request = ''b'', bl_response = ''y''\<rparr>] ValidateDataLoads\<rparr>)
       = Inr (''xy'', d')"
proof -
  let ?ls = "[\<lparr>bl_request = ''a'', bl_response = ''x''\<rparr>, \<lparr>bl_request = ''b'', bl_response = ''y''\<rparr>]"
  have laws: "request_laws sample_requests" "validation_accepts sample_requests ValidateDataLoads"
    by (simp_all add: request_laws_def validation_accepts_def sample_requests_def)
  have "ec_handling upgrade_ctx = NoPriorData" "ec_loads upgrade_ctx = []"
    by (simp_all add: upgrade_ctx_def start_ctx_def)
  moreover from this have "load_all sample_requests ''ab'' upgrade_ctx =
      Inr (''xy'', upgrade_ctx\<lparr>ec_handling := NoPriorData, ec_loads := ?ls\<rparr>)"
    by (simp add: load_data_def sample_requests_def)
  ultimately show ?thesis
    using replayed_loads_agree [OF laws, of upgrade_ctx "''ab''" "''xy''"
      "upgrade_ctx\<lparr>ec_handling := NoPriorData, ec_loads := ?ls\<rparr>"
      "upgrade_ctx\<lparr>ec_handling := PriorData ?ls ValidateDataLoads\<rparr>"]
    by auto
qed

end
