(* ===== verification/Bridge_Composition.thy ===== *)
theory Bridge_Composition
  imports Bridge_Props Execution_Props
begin

text \<open>
  The chain and the bridge contracts together: which changes of the validator set, and which approved
  actions, a contract accepts from the chain.  Both sides are assumed to recover the same signer from
  a signature, which \<open>recovery_agrees\<close> states.
\<close>

fun group_members :: "validator_type \<Rightarrow> validator_set \<Rightarrow> public_key list" where
  "group_members ListenerType vs = listeners vs"
| "group_members ProcessorType vs = [processor vs]"
| "group_members ApproverType vs = approvers vs"

section \<open>Validator changes\<close>

text \<open>A validator replaces its own key.  The chain accepts any replacement; the contracts make the same
  change of the set, except that they refuse a replacement that already is a listener or an approver: then the
  chain has moved on and the contract cannot follow.\<close>

theorem contracts_follow_self_replace:
  assumes "apply_self_replace signer sr vs = (Inr vs' :: 'd kerr + validator_set)"
  shows "set_after vs (ReplaceKey (validator_type sr) signer (replacement sr)) =
    (if validator_type sr \<noteq> ProcessorType \<and> replacement sr \<in> set (group_members (validator_type sr) vs)
     then None else Some vs')"
  using assms
  by (cases "validator_type sr")
    (auto simp: apply_self_replace_def replace_member_def key_replace_def result_simps split: if_splits)

lemma contracts_follow_self_replace_witness:
  "set_after bridge_set (ReplaceKey ApproverType (key_of 3) (key_of 4)) = None \<and>
   set_after bridge_set (ReplaceKey ApproverType (key_of 3) (key_of 5)) =
     Some (bridge_set\<lparr>approvers := [key_of 4, key_of 5]\<rparr>)"
proof -
  have "apply_self_replace (key_of 3) \<lparr>validator_type = ApproverType, replacement = key_of 4\<rparr> bridge_set =
      (Inr (bridge_set\<lparr>approvers := [key_of 4]\<rparr>) :: nat kerr + _)"
    "apply_self_replace (key_of 3) \<lparr>validator_type = ApproverType, replacement = key_of 5\<rparr> bridge_set =
      (Inr (bridge_set\<lparr>approvers := [key_of 4, key_of 5]\<rparr>) :: nat kerr + _)"
    by code_simp+
  from this [THEN contracts_follow_self_replace] show ?thesis by (simp add: bridge_set_def key_of_def)
qed

text \<open>Recovery in the Kolme node and in the contract agree on the SHA-256 of the message.\<close>

definition recovery_agrees :: "('d, 'm, 's) env \<Rightarrow> 'v cosmos_api \<Rightarrow> bool" where
  "recovery_agrees E A \<longleftrightarrow>
     (\<forall>msg sg k. cosmos_signer A (ca_sha A msg) sg = Inr k \<longleftrightarrow> sig_validate (e_recover E) sg msg = Some k)"

lemma recovered:
  "recovery_agrees E A \<Longrightarrow> cosmos_signer A (ca_sha A msg) sg = Inr k \<longleftrightarrow> sig_validate (e_recover E) sg msg = Some k"
  by (simp add: recovery_agrees_def)

lemma recovered_list:
  assumes "recovery_agrees E A"
  shows "rmap (cosmos_signer A (ca_sha A msg)) sgs = Inr ks \<longleftrightarrow> map (\<lambda>sg. sig_validate (e_recover E) sg msg) sgs = map Some ks"
  using assms by (induction sgs arbitrary: ks) (auto simp: result_simps recovered)

lemma two_groups_votes:
  assumes "vs_wf vs" "distinct ks"
  shows "two_groups vs (set ks) \<longleftrightarrow> 2 \<le> group_votes vs ks"
proof -
  have "length (filter (\<lambda>k. k \<in> set ks) ms) = length (filter (\<lambda>k. k \<in> set ms) ks)" if "distinct ms" for ms
  proof -
    have "set (filter (\<lambda>k. k \<in> set ks) ms) = set (filter (\<lambda>k. k \<in> set ms) ks)" by auto
    then show ?thesis using that assms(2) by (metis distinct_card distinct_filter)
  qed
  then show ?thesis using assms(1)
    by (auto simp: two_groups_def group_votes_def vs_wf_def os_wf_iff)
qed


definition bridge_env :: "(int, unit, unit) env" where
  "bridge_env = sample_env\<lparr>e_recover :=
     (\<lambda>_ s _. if 32 \<le> length (sig_bytes s) then Some (PublicKey (2 # take 32 (sig_bytes s))) else None)\<rparr>"

lemma bridge_agrees: "recovery_agrees bridge_env sample_api"
  by (auto simp: recovery_agrees_def bridge_env_def sample_api_def sig_validate_def cosmos_signer_def
    cosmos_validate_signature_def compress_public_key_def nth_append split: if_splits)

definition new_set_proposal :: pending_proposal where
  "new_set_proposal = \<lparr>pp_payload = ProposeNewSet \<lparr>tj_serialized = ''new'', tj_hash = [], tj_value = smaller_set\<rparr>,
     pp_approvals = [(key_of 1, sig_by 1), (key_of 2, sig_by 2)]\<rparr>"

lemma new_set_proposal_wf: "om_wf (pp_approvals new_set_proposal)"
  by code_simp

lemma new_set_proposal_valid: "proposal_valid bridge_env new_set_proposal"
  using new_set_proposal_wf
  by (auto simp: proposal_valid_def new_set_proposal_def sig_validate_def bridge_env_def sig_by_def key_of_def
    quorum_reachable_def smaller_set_def bridge_set_def tj_as_bytes_def split: if_splits)


section \<open>Approved actions\<close>


definition pending_fs :: "u8 \<Rightarrow> int framework_state" where
  "pending_fs k = (put_chain OsmosisLocal ((into_state (snd (gi_chains sample_genesis ! 0)))\<lparr>cs_pending_actions :=
       [(0, \<lparr>pa_payload = ''pay'', pa_approvals = [], pa_processor = None\<rparr>)]\<rparr>) (fs_new sample_genesis))
     \<lparr>fs_validator_set := bridge_set\<lparr>processor := key_of k\<rparr>\<rparr>"

lemma pending_fs_chain:
  obtains cs where "om_get (fs_chains (pending_fs k)) OsmosisLocal = Some cs"
    "om_get (cs_pending_actions cs) 0 = Some \<lparr>pa_payload = ''pay'', pa_approvals = [], pa_processor = None\<rparr>"
    "fs_validator_set (pending_fs k) = bridge_set\<lparr>processor := key_of k\<rparr>"
  by (simp add: pending_fs_def put_chain_def)

lemma pending_fs_ok: "is_ok (processor_approve bridge_env OsmosisLocal 0 (sig_by k) [sig_by 3] (pending_fs k))"
proof -
  obtain cs where "om_get (fs_chains (pending_fs k)) OsmosisLocal = Some cs"
    "om_get (cs_pending_actions cs) 0 = Some \<lparr>pa_payload = ''pay'', pa_approvals = [], pa_processor = None\<rparr>"
    "fs_validator_set (pending_fs k) = bridge_set\<lparr>processor := key_of k\<rparr>" by (rule pending_fs_chain)
  then show ?thesis
    by (simp add: processor_approve_iff payload_bytes_to_sign_def chain_name_of_def)
      (auto simp: bridge_env_def sig_validate_def sig_by_def key_of_def bridge_set_def intro!: exI [of _ "[key_of 3]"])
qed


section \<open>An action the contract refuses\<close>


definition blocked_txs :: "cosmos_tx list" where
  "blocked_txs = [(''bob'', [], CosmosSigned (sig_by 1) [sig_by 4] ''member''), (''ann'', [], CosmosRegular [])]"


end
