(* ===== verification/Merkle_Codec.thy ===== *)
theory Merkle_Codec
  imports Validators
begin

text \<open>
  Merkle serialization (\<open>merkle-map/src\<close>): the serializer and deserializer, the encodings of the
  primitive and container types, version numbers, and values stored by hash in content layers.

  Encodings compose, and so do their proofs: \<open>roundtrips\<close> says that an action's output, followed by
  anything, is read back to the value, and \<open>rt_bind\<close> follows the sequence of \<open>store\<close> and \<open>load\<close>
  calls.  The locale \<open>merkle_codec\<close> is the contract of a serializable type; it gives the load of
  what was saved and that equal hashes mean equal values.  Hash functions are parameters: the
  contract speaks about worlds of contents in which no two contents collide.  The caches of already
  computed contents return what would be computed, so they do not appear.
\<close>

text \<open>
  \<open>MerklePanic\<close> is a panic of the source.  Allocation is not modelled: \<open>Vec::with_capacity\<close> on
  a length read from the input succeeds.
\<close>

unbundle bit_operations_syntax

section \<open>Contents, serializer and deserializer\<close>

type_synonym hash = bytes

datatype contents = Contents (c_payload: bytes) (c_children: "contents list")

datatype merkle_error =
    InsufficientInput
  | UsizeOverflow
  | UnexpectedMagicByte u8
  | InvalidTreeStart u8
  | TooMuchInput
  | InvalidSerializedContent
  | HashesNotFound "hash list"
  | LeafContentLimitExceeded nat nat
  | UnexpectedVersion nat nat nat
  | MerkleCustom string
  | MerkleOther string
  | MerklePanic string

record serializer =
  buff :: bytes
  children :: "contents list"

record deserializer =
  d_contents :: contents
  d_pos :: nat

type_synonym action = "serializer \<Rightarrow> merkle_error + serializer"
type_synonym 'a enc = "'a \<Rightarrow> action"
type_synonym 'a dec = "deserializer \<Rightarrow> merkle_error + ('a \<times> deserializer)"

definition ser_new :: serializer where
  "ser_new = \<lparr>buff = [], children = []\<rparr>"

definition store_raw_bytes :: "bytes \<Rightarrow> action" where
  "store_raw_bytes bs s = Inr (s\<lparr>buff := buff s @ bs\<rparr>)"

definition store_byte :: "u8 \<Rightarrow> action" where
  "store_byte b = store_raw_bytes [b]"

definition ser_finish :: "serializer \<Rightarrow> contents" where
  "ser_finish s = Contents (buff s) (children s)"

fun usize_chunks :: "nat \<Rightarrow> bytes" where
  "usize_chunks v = (if v = 0 then [] else (of_nat v AND 0x7F) # usize_chunks (v div 128))"

declare usize_chunks.simps [simp del]

definition store_usize :: "nat \<Rightarrow> action" where
  "store_usize v =
     (if v = 0 then store_byte 0
      else let bytes = usize_chunks v
           in store_raw_bytes (map (\<lambda>i. if i = 0 then bytes ! i else bytes ! i OR 0x80)
                (rev [0..<length bytes])))"

definition store_slice :: "bytes \<Rightarrow> action" where
  "store_slice bs s = rbind (store_usize (length bs) s) (store_raw_bytes bs)"

definition de_new :: "contents \<Rightarrow> deserializer" where
  "de_new c = \<lparr>d_contents = c, d_pos = 0\<rparr>"

definition payload_of :: "deserializer \<Rightarrow> bytes" where
  "payload_of ds = c_payload (d_contents ds)"

definition peek_byte :: "deserializer \<Rightarrow> merkle_error + u8" where
  "peek_byte ds =
     (if d_pos ds < length (payload_of ds) then Inr (payload_of ds ! d_pos ds) else Inl InsufficientInput)"

definition pop_byte :: "u8 dec" where
  "pop_byte ds = rbind (peek_byte ds) (\<lambda>b. Inr (b, ds\<lparr>d_pos := d_pos ds + 1\<rparr>))"

definition load_raw_bytes :: "nat \<Rightarrow> bytes dec" where
  "load_raw_bytes len ds =
     (let end' = (d_pos ds + len) mod 2 ^ 64
      in if end' > length (payload_of ds) then Inl InsufficientInput
         else if end' < d_pos ds then Inl (MerklePanic ''slice index'')
         else Inr (take (end' - d_pos ds) (drop (d_pos ds) (payload_of ds)), ds\<lparr>d_pos := end'\<rparr>))"

definition de_finish :: "deserializer \<Rightarrow> merkle_error + contents" where
  "de_finish ds = (if length (payload_of ds) = d_pos ds then Inr (d_contents ds) else Inl TooMuchInput)"

lemma pop_byte_pos:
  "pop_byte ds = Inr (b, ds') \<Longrightarrow> d_contents ds' = d_contents ds \<and> d_pos ds' = d_pos ds + 1 \<and>
     d_pos ds < length (payload_of ds)"
  by (auto simp: pop_byte_def peek_byte_def result_simps split: if_splits)

function (sequential) load_usize_loop :: "nat \<Rightarrow> nat dec" where
  "load_usize_loop v ds =
     rbind (pop_byte ds) (\<lambda>r.
       if v > (2 ^ 64 - 1) div 128 then Inl UsizeOverflow
       else let v' = v * 128 + unat (fst r AND 0x7F)
            in if fst r AND 0x80 = 0 then Inr (v', snd r) else load_usize_loop v' (snd r))"
  by pat_completeness auto

termination
  by (relation "measure (\<lambda>(v, ds). length (payload_of ds) - d_pos ds)")
    (auto simp: payload_of_def dest!: pop_byte_pos)

declare load_usize_loop.simps [simp del]

definition load_usize :: "nat dec" where
  "load_usize = load_usize_loop 0"

definition load_bytes :: "bytes dec" where
  "load_bytes ds = rbind (load_usize ds) (\<lambda>(len, ds). load_raw_bytes len ds)"

section \<open>Round trips\<close>

definition emit :: "bytes \<Rightarrow> contents list \<Rightarrow> serializer \<Rightarrow> serializer" where
  "emit bs cs s = s\<lparr>buff := buff s @ bs, children := children s @ cs\<rparr>"

definition content_world :: "(bytes \<Rightarrow> hash) \<Rightarrow> contents set \<Rightarrow> bool" where
  "content_world sha C \<longleftrightarrow>
     (\<forall>bs. length (sha bs) = 32) \<and>
     (\<forall>c \<in> C. set (c_children c) \<subseteq> C \<and> length (c_payload c) < 2 ^ 64) \<and>
     inj_on (\<lambda>c. sha (c_payload c)) C"

definition reads :: "contents set \<Rightarrow> 'a dec \<Rightarrow> bytes \<Rightarrow> contents list \<Rightarrow> 'a \<Rightarrow> bool" where
  "reads C dec bs cs x \<longleftrightarrow>
     (\<forall>ds rest. d_contents ds \<in> C \<longrightarrow> d_pos ds \<le> length (payload_of ds) \<longrightarrow>
        drop (d_pos ds) (payload_of ds) = bs @ rest \<longrightarrow> set cs \<subseteq> set (c_children (d_contents ds)) \<longrightarrow>
        dec ds = Inr (x, ds\<lparr>d_pos := d_pos ds + length bs\<rparr>))"

definition roundtrips :: "contents set \<Rightarrow> action \<Rightarrow> 'a dec \<Rightarrow> 'a \<Rightarrow> bool" where
  "roundtrips C act dec x \<longleftrightarrow>
     (\<exists>bs cs. (\<forall>s. act s = Inr (emit bs cs s)) \<and> reads C dec bs cs x)"

lemma emit_emit: "emit bs2 cs2 (emit bs1 cs1 s) = emit (bs1 @ bs2) (cs1 @ cs2) s"
  by (simp add: emit_def)

lemma roundtrips_emitted:
  assumes "roundtrips C act dec x" "act ser_new = Inr (emit bs cs ser_new)"
  shows "reads C dec bs cs x"
proof -
  from assms(1) obtain bs' cs' where a: "\<And>s. act s = Inr (emit bs' cs' s)" and r: "reads C dec bs' cs' x"
    by (auto simp: roundtrips_def)
  have "emit bs' cs' ser_new = emit bs cs ser_new" using a [of ser_new] assms(2) by simp
  then have "bs' = bs \<and> cs' = cs" by (simp add: emit_def ser_new_def)
  then show ?thesis using r by simp
qed

lemma drop_consumed:
  assumes "d_pos ds \<le> length (payload_of ds)" "drop (d_pos ds) (payload_of ds) = bs @ rest"
  shows "d_pos ds + length bs \<le> length (payload_of ds)"
    and "drop (d_pos ds + length bs) (payload_of ds) = rest"
proof -
  have "length (payload_of ds) - d_pos ds = length bs + length rest"
    using assms(2) by (metis length_append length_drop)
  then show "d_pos ds + length bs \<le> length (payload_of ds)"
    using assms(1) by simp
  show "drop (d_pos ds + length bs) (payload_of ds) = rest"
    using assms(2) by (metis add.commute append_eq_conv_conj drop_drop)
qed

lemma payload_of_pos [simp]: "payload_of (ds\<lparr>d_pos := n\<rparr>) = payload_of ds"
  by (simp add: payload_of_def)

lemma rt_return [intro]: "roundtrips C (\<lambda>s. Inr s) (\<lambda>ds. Inr (x, ds)) x"
  unfolding roundtrips_def reads_def emit_def
  by (intro exI [of _ "[]"]) simp

lemma reads_bind:
  assumes "reads C d1 bs1 cs1 y" "reads C (k y) bs2 cs2 x"
  shows "reads C (\<lambda>ds. rbind (d1 ds) (\<lambda>(y, ds). k y ds)) (bs1 @ bs2) (cs1 @ cs2) x"
  unfolding reads_def
proof (intro allI impI)
  fix ds rest
  assume c: "d_contents ds \<in> C" and p: "d_pos ds \<le> length (payload_of ds)"
    and d: "drop (d_pos ds) (payload_of ds) = (bs1 @ bs2) @ rest"
    and ch: "set (cs1 @ cs2) \<subseteq> set (c_children (d_contents ds))"
  let ?ds = "ds\<lparr>d_pos := d_pos ds + length bs1\<rparr>"
  have "d1 ds = Inr (y, ?ds)"
    using assms(1) c p d ch unfolding reads_def by (metis append.assoc le_sup_iff set_append)
  moreover have "k y ?ds = Inr (x, ?ds\<lparr>d_pos := d_pos ?ds + length bs2\<rparr>)"
    using assms(2) c drop_consumed [OF p, of bs1 "bs2 @ rest"] d ch
    unfolding reads_def by simp
  ultimately show "rbind (d1 ds) (\<lambda>(y, ds). k y ds) =
      Inr (x, ds\<lparr>d_pos := d_pos ds + length (bs1 @ bs2)\<rparr>)"
    by (simp add: add.assoc)
qed

lemma rt_bind:
  assumes "roundtrips C a1 d1 y" "roundtrips C a2 (k y) x"
  shows "roundtrips C (\<lambda>s. rbind (a1 s) a2) (\<lambda>ds. rbind (d1 ds) (\<lambda>(y, ds). k y ds)) x"
proof -
  from assms obtain bs1 cs1 bs2 cs2 where "\<forall>s. a1 s = Inr (emit bs1 cs1 s)" "reads C d1 bs1 cs1 y"
    and "\<forall>s. a2 s = Inr (emit bs2 cs2 s)" "reads C (k y) bs2 cs2 x"
    by (auto simp: roundtrips_def)
  then show ?thesis
    unfolding roundtrips_def
    by (intro exI [of _ "bs1 @ bs2"] exI [of _ "cs1 @ cs2"]) (simp add: emit_emit reads_bind)
qed

lemma rt_map:
  assumes "roundtrips C a d y"
  shows "roundtrips C a (\<lambda>ds. rbind (d ds) (\<lambda>(y, ds). Inr (f y, ds))) (f y)"
proof -
  have "roundtrips C (\<lambda>s. rbind (a s) Inr) (\<lambda>ds. rbind (d ds) (\<lambda>(y, ds). Inr (f y, ds))) (f y)"
    by (rule rt_bind [OF assms]) (rule rt_return)
  moreover have "(\<lambda>s. rbind (a s) Inr) = a"
    by (rule ext) (metis rbind_def sum.case_eq_if sum.collapse(1) sum.collapse(2))
  ultimately show ?thesis by simp
qed

lemma rt_check:
  assumes "roundtrips C a d y" "f y = Inr x"
  shows "roundtrips C a (\<lambda>ds. rbind (d ds) (\<lambda>(y, ds). rbind (f y) (\<lambda>z. Inr (z, ds)))) x"
proof -
  have "roundtrips C (\<lambda>s. rbind (a s) Inr)
      (\<lambda>ds. rbind (d ds) (\<lambda>(y, ds). rbind (f y) (\<lambda>z. Inr (z, ds)))) x"
    by (rule rt_bind [OF assms(1)]) (simp add: assms(2) rt_return)
  moreover have "(\<lambda>s. rbind (a s) Inr) = a"
    by (rule ext) (metis rbind_def sum.case_eq_if sum.collapse(1) sum.collapse(2))
  ultimately show ?thesis by simp
qed

section \<open>Raw bytes and sizes\<close>

lemma drop_Cons_nth: "drop n xs = y # ys \<Longrightarrow> n < length xs \<and> xs ! n = y"
  by (metis drop_all list.distinct(1) not_less nth_via_drop)

lemma rt_byte: "roundtrips C (store_byte b) pop_byte b"
  unfolding roundtrips_def reads_def
  by (intro exI [of _ "[b]"] exI [of _ "[]"])
    (auto simp: store_byte_def store_raw_bytes_def emit_def pop_byte_def peek_byte_def dest!: drop_Cons_nth)

lemma rt_raw_bytes:
  assumes "content_world sha C"
  shows "roundtrips C (store_raw_bytes bs) (load_raw_bytes (length bs)) bs"
  unfolding roundtrips_def
proof (intro exI conjI)
  show "\<forall>s. store_raw_bytes bs s = Inr (emit bs [] s)"
    by (simp add: store_raw_bytes_def emit_def)
  show "reads C (load_raw_bytes (length bs)) bs [] bs"
    unfolding reads_def
  proof (intro allI impI)
    fix ds rest
    assume "d_contents ds \<in> C" "d_pos ds \<le> length (payload_of ds)"
      and d: "drop (d_pos ds) (payload_of ds) = bs @ rest"
    moreover from this have l: "d_pos ds + length bs \<le> length (payload_of ds)"
      by (intro drop_consumed)
    moreover have "length (payload_of ds) < 2 ^ 64"
      using assms calculation(1) by (auto simp: content_world_def payload_of_def)
    ultimately have "(d_pos ds + length bs) mod 2 ^ 64 = d_pos ds + length bs" by simp
    then show "load_raw_bytes (length bs) ds = Inr (bs, ds\<lparr>d_pos := d_pos ds + length bs\<rparr>)"
      using l d by (simp add: load_raw_bytes_def Let_def not_less)
  qed
qed

text \<open>Sizes are written most significant chunk first, all but the last marked by the high bit.\<close>

definition usize_bytes :: "nat \<Rightarrow> bytes" where
  "usize_bytes v = (if v = 0 then [0] else
     (let bytes = usize_chunks v
      in map (\<lambda>i. if i = 0 then bytes ! i else bytes ! i OR 0x80) (rev [0..<length bytes])))"

lemma store_usize_bytes: "store_usize v s = Inr (emit (usize_bytes v) [] s)"
  by (simp add: store_usize_def usize_bytes_def store_byte_def store_raw_bytes_def emit_def Let_def)

lemma low7: "unat (of_nat v AND 0x7F :: u8) = v mod 128"
proof -
  have "(0x7F :: u8) = mask 7" by (simp add: mask_eq_exp_minus_1)
  then have "(of_nat v AND 0x7F :: u8) = take_bit 7 (of_nat v)" by (simp add: take_bit_eq_mask)
  then show ?thesis by (simp add: take_bit_eq_mod unat_mod unat_of_nat mod_mod_cancel)
qed

definition marked :: "nat \<Rightarrow> bytes" where
  "marked w = rev (map (\<lambda>c. c OR 0x80) (usize_chunks w))"

lemma marked_0 [simp]: "marked 0 = []"
  by (simp add: marked_def usize_chunks.simps)

lemma marked_step: "w \<noteq> 0 \<Longrightarrow> marked w = marked (w div 128) @ [(of_nat w AND 0x7F) OR 0x80]"
  by (simp add: marked_def usize_chunks.simps [of w])

lemma usize_bytes_marked: "usize_bytes v = marked (v div 128) @ [of_nat v AND 0x7F]"
proof (cases "v = 0")
  case False
  have "map (\<lambda>i. if i = 0 then (b # cs) ! i else (b # cs) ! i OR 0x80) (rev [0..<length (b # cs)]) =
      rev (map (\<lambda>c. c OR 0x80) cs) @ [b]" for b :: u8 and cs
  proof -
    have "[0..<length (b # cs)] = 0 # map Suc [0..<length cs]"
      unfolding map_Suc_upt by (simp add: upt_conv_Cons del: upt_Suc)
    moreover have "map ((\<lambda>c. c OR 0x80) \<circ> (!) cs) [0..<length cs] = map (\<lambda>c. c OR 0x80) cs"
      by (metis map_map map_nth)
    ultimately show ?thesis by (simp add: rev_map [symmetric] comp_def)
  qed
  from this [of "of_nat v AND 0x7F" "usize_chunks (v div 128)"] show ?thesis
    using False by (simp only: usize_bytes_def marked_def usize_chunks.simps [of v] Let_def if_False)
qed (simp add: usize_bytes_def)

lemma mark_bits:
  "((x AND 0x7F) OR 0x80) AND 0x80 \<noteq> (0 :: u8)"
  "((x AND 0x7F) OR 0x80) AND 0x7F = (x AND 0x7F :: u8)"
  "(x AND 0x7F) AND 0x80 = (0 :: u8)"
proof -
  have m: "(0x7F :: u8) AND 0x80 = 0" "(0x80 :: u8) AND 0x7F = 0" "(0x80 :: u8) AND 0x80 = 0x80"
    by simp_all
  show "((x AND 0x7F) OR 0x80) AND 0x80 \<noteq> (0 :: u8)"
    by (simp add: bit.conj_disj_distrib2 and.assoc m del: bit.conj_disj_distrib)
  show "((x AND 0x7F) OR 0x80) AND 0x7F = (x AND 0x7F :: u8)"
    by (simp add: bit.conj_disj_distrib2 and.assoc m del: bit.conj_disj_distrib)
  show "(x AND 0x7F) AND 0x80 = (0 :: u8)"
    by (simp add: and.assoc m)
qed

lemma pop_byte_at:
  "drop (d_pos ds) (payload_of ds) = b # rest \<Longrightarrow> pop_byte ds = Inr (b, ds\<lparr>d_pos := d_pos ds + 1\<rparr>)"
  by (auto simp: pop_byte_def peek_byte_def dest!: drop_Cons_nth)

lemma load_marked:
  "drop (d_pos ds) (payload_of ds) = marked w @ rest \<Longrightarrow> w < 2 ^ 57 \<Longrightarrow>
     load_usize_loop 0 ds = load_usize_loop w (ds\<lparr>d_pos := d_pos ds + length (marked w)\<rparr>)"
proof (induction w arbitrary: rest rule: less_induct)
  case (less w)
  show ?case
  proof (cases "w = 0")
    case False
    let ?c = "(of_nat w AND 0x7F) OR 0x80 :: u8" and ?u = "w div 128"
    let ?ds = "ds\<lparr>d_pos := d_pos ds + length (marked ?u)\<rparr>"
    note st = marked_step [OF False]
    have d: "drop (d_pos ds) (payload_of ds) = marked ?u @ (?c # rest)"
      using less.prems(1) st by simp
    then have "load_usize_loop 0 ds = load_usize_loop ?u ?ds"
      using less.IH [OF _ d] False less.prems(2) by simp
    also have "load_usize_loop ?u ?ds = load_usize_loop w (ds\<lparr>d_pos := d_pos ds + length (marked w)\<rparr>)"
    proof -
      have "drop (d_pos ?ds) (payload_of ?ds) = ?c # rest"
        using arg_cong [OF d, of "drop (length (marked ?u))"] by (simp add: add.commute)
      then have "pop_byte ?ds = Inr (?c, ds\<lparr>d_pos := d_pos ds + length (marked w)\<rparr>)"
        by (simp add: pop_byte_at st)
      moreover have "\<not> (2 ^ 64 - 1) div 128 < w div 128"
        using less.prems(2) div_le_dividend [of w 128] by simp
      ultimately show ?thesis
        by (subst load_usize_loop.simps) (simp add: mark_bits low7 Let_def)
    qed
    finally show ?thesis .
  qed simp
qed

lemma rt_usize:
  assumes "v < 2 ^ 64"
  shows "roundtrips C (store_usize v) load_usize v"
  unfolding roundtrips_def
proof (intro exI conjI allI)
  show "store_usize v s = Inr (emit (usize_bytes v) [] s)" for s by (rule store_usize_bytes)
  show "reads C load_usize (usize_bytes v) [] v"
    unfolding reads_def
  proof (intro allI impI)
    fix ds rest
    assume d: "drop (d_pos ds) (payload_of ds) = usize_bytes v @ rest"
    let ?u = "v div 128" and ?b = "of_nat v AND 0x7F :: u8"
    let ?ds = "ds\<lparr>d_pos := d_pos ds + length (marked ?u)\<rparr>"
    have d': "drop (d_pos ds) (payload_of ds) = marked ?u @ (?b # rest)"
      using d by (simp add: usize_bytes_marked)
    then have "load_usize ds = load_usize_loop ?u ?ds"
      unfolding load_usize_def using assms by (intro load_marked) auto
    moreover have "drop (d_pos ?ds) (payload_of ?ds) = ?b # rest"
      using arg_cong [OF d', of "drop (length (marked ?u))"] by (simp add: add.commute)
    then have "pop_byte ?ds = Inr (?b, ds\<lparr>d_pos := d_pos ds + length (usize_bytes v)\<rparr>)"
      by (simp add: pop_byte_at usize_bytes_marked)
    then have "load_usize_loop ?u ?ds = Inr (v, ds\<lparr>d_pos := d_pos ds + length (usize_bytes v)\<rparr>)"
      using assms by (subst load_usize_loop.simps) (simp add: mark_bits low7 Let_def)
    ultimately show "load_usize ds = Inr (v, ds\<lparr>d_pos := d_pos ds + length (usize_bytes v)\<rparr>)"
      by simp
  qed
qed

lemma rt_slice:
  assumes "content_world sha C" "length bs < 2 ^ 64"
  shows "roundtrips C (store_slice bs) load_bytes bs"
  using rt_bind [OF rt_usize [OF assms(2)], where k = load_raw_bytes, OF rt_raw_bytes [OF assms(1)]]
  by (simp add: store_slice_def [abs_def] load_bytes_def [abs_def])

section \<open>Values\<close>

text \<open>
  \<open>codec_env\<close> is what \<open>k256\<close>, \<open>rust_decimal\<close> and the hash function contribute: SHA-256, which
  bytes are a public key, a signature or a recovery id, and the sixteen bytes of a decimal.
\<close>

record 'd codec_env =
  ce_sha :: "bytes \<Rightarrow> hash"
  ce_pk_from :: "bytes \<Rightarrow> public_key option"
  ce_sig_from :: "bytes \<Rightarrow> signature option"
  ce_rid_from :: "u8 \<Rightarrow> u8 option"
  ce_dec_bytes :: "'d \<Rightarrow> bytes"
  ce_dec_from :: "bytes \<Rightarrow> 'd"

definition d_return :: "'a \<Rightarrow> 'a dec" where
  "d_return x ds = Inr (x, ds)"

definition d_bind :: "'a dec \<Rightarrow> ('a \<Rightarrow> 'b dec) \<Rightarrow> 'b dec" where
  "d_bind d k ds = rbind (d ds) (\<lambda>(y, ds). k y ds)"

definition d_check :: "(merkle_error + 'a) \<Rightarrow> 'a dec" where
  "d_check r ds = rbind r (\<lambda>x. Inr (x, ds))"

definition d_map :: "('a \<Rightarrow> 'b) \<Rightarrow> 'a dec \<Rightarrow> 'b dec" where
  "d_map f d = d_bind d (\<lambda>x. d_return (f x))"

definition s_then :: "action \<Rightarrow> action \<Rightarrow> action" where
  "s_then a b s = rbind (a s) b"

definition s_done :: action where
  "s_done s = Inr s"

definition ser_word :: "'a::len word enc" where
  "ser_word w = store_raw_bytes (to_le_bytes w)"

definition de_word :: "'a::len word dec" where
  "de_word = d_map of_le_bytes (load_raw_bytes (LENGTH('a) div 8))"

text \<open>\<open>std::str::from_utf8\<close>: the well-formed byte sequences of Unicode table 3-7.\<close>

definition utf8_tail :: "u8 \<Rightarrow> bool" where
  "utf8_tail b \<longleftrightarrow> 0x80 \<le> b \<and> b \<le> 0xBF"

fun utf8_valid :: "bytes \<Rightarrow> bool" where
  "utf8_valid [] = True"
| "utf8_valid (a # bs) =
    (if a < 0x80 then utf8_valid bs
     else case bs of
       [] \<Rightarrow> False
     | b # cs \<Rightarrow>
         if 0xC2 \<le> a \<and> a \<le> 0xDF then utf8_tail b \<and> utf8_valid cs
         else case cs of
           [] \<Rightarrow> False
         | c # es \<Rightarrow>
             if 0xE0 \<le> a \<and> a \<le> 0xEF then
               utf8_tail b \<and> (a = 0xE0 \<longrightarrow> 0xA0 \<le> b) \<and> (a = 0xED \<longrightarrow> b \<le> 0x9F) \<and>
               utf8_tail c \<and> utf8_valid es
             else case es of
               [] \<Rightarrow> False
             | e # fs \<Rightarrow>
                 0xF0 \<le> a \<and> a \<le> 0xF4 \<and> utf8_tail b \<and> (a = 0xF0 \<longrightarrow> 0x90 \<le> b) \<and>
                 (a = 0xF4 \<longrightarrow> b \<le> 0x8F) \<and> utf8_tail c \<and> utf8_tail e \<and> utf8_valid fs)"

definition from_utf8 :: "bytes \<Rightarrow> merkle_error + string" where
  "from_utf8 bs = (if utf8_valid bs then Inr (bytes_str bs) else Inl (MerkleCustom ''utf8''))"

definition ser_string :: "string enc" where
  "ser_string s = store_slice (str_bytes s)"

definition de_string :: "string dec" where
  "de_string = d_bind load_bytes (\<lambda>bs. d_check (from_utf8 bs))"

definition ser_option :: "'a enc \<Rightarrow> 'a option enc" where
  "ser_option enc x = (case x of
      Some y \<Rightarrow> s_then (store_byte 1) (enc y)
    | None \<Rightarrow> store_byte 0)"

definition de_option :: "'a dec \<Rightarrow> 'a option dec" where
  "de_option dec = d_bind pop_byte (\<lambda>b.
     if b = 0 then d_return None
     else if b = 1 then d_map Some dec
     else d_check (Inl (MerkleOther ''When deserializing an Option, invalid byte'')))"

definition ser_array :: "'a enc \<Rightarrow> 'a list enc" where
  "ser_array enc xs = rfold enc xs"

fun de_array :: "nat \<Rightarrow> 'a dec \<Rightarrow> 'a list dec" where
  "de_array 0 dec = d_return []"
| "de_array (Suc n) dec = d_bind dec (\<lambda>x. d_map (Cons x) (de_array n dec))"

definition ser_list :: "'a enc \<Rightarrow> 'a list enc" where
  "ser_list enc xs = s_then (store_usize (length xs)) (ser_array enc xs)"

definition de_list :: "'a dec \<Rightarrow> 'a list dec" where
  "de_list dec = d_bind load_usize (\<lambda>len. de_array len dec)"

definition ser_hash :: "hash enc" where
  "ser_hash h = store_raw_bytes h"

definition de_hash :: "hash dec" where
  "de_hash = load_raw_bytes 32"

definition ser_pair :: "'a enc \<Rightarrow> 'b enc \<Rightarrow> ('a \<times> 'b) enc" where
  "ser_pair e1 e2 p = s_then (e1 (fst p)) (e2 (snd p))"

definition de_pair :: "'a dec \<Rightarrow> 'b dec \<Rightarrow> ('a \<times> 'b) dec" where
  "de_pair d1 d2 = d_bind d1 (\<lambda>x. d_map (Pair x) d2)"

definition ser_btree_map :: "'k enc \<Rightarrow> 'v enc \<Rightarrow> ('k::linorder, 'v) omap enc" where
  "ser_btree_map ek ev m = s_then (store_usize (length m)) (ser_array (ser_pair ek ev) m)"

definition de_btree_map :: "'k dec \<Rightarrow> 'v dec \<Rightarrow> ('k::linorder, 'v) omap dec" where
  "de_btree_map dk dv =
     d_bind load_usize (\<lambda>len. d_map om_of_list (de_array len (de_pair dk dv)))"

definition ser_btree_set :: "'a enc \<Rightarrow> 'a::linorder list enc" where
  "ser_btree_set enc xs = s_then (store_usize (length xs)) (ser_array enc xs)"

definition de_btree_set :: "'a dec \<Rightarrow> 'a::linorder list dec" where
  "de_btree_set dec = d_bind load_usize (\<lambda>len. d_map os_of_list (de_array len dec))"

definition ser_decimal :: "'d codec_env \<Rightarrow> 'd enc" where
  "ser_decimal E d = store_raw_bytes (ce_dec_bytes E d)"

definition de_decimal :: "'d codec_env \<Rightarrow> 'd dec" where
  "de_decimal E = d_map (ce_dec_from E) (load_raw_bytes 16)"

definition ser_public_key :: "public_key enc" where
  "ser_public_key k = store_slice (pk_bytes k)"

definition de_public_key :: "'d codec_env \<Rightarrow> public_key dec" where
  "de_public_key E =
     d_bind load_bytes (\<lambda>bs. d_check (ok_or (ce_pk_from E bs) (MerkleCustom ''public key'')))"

definition ser_signature :: "signature enc" where
  "ser_signature x = store_slice (sig_bytes x)"

definition de_signature :: "'d codec_env \<Rightarrow> signature dec" where
  "de_signature E =
     d_bind load_bytes (\<lambda>bs. d_check (ok_or (ce_sig_from E bs) (MerkleCustom ''signature'')))"

definition ser_recid :: "u8 enc" where
  "ser_recid r = store_byte r"

definition de_recid :: "'d codec_env \<Rightarrow> u8 dec" where
  "de_recid E = d_bind pop_byte (\<lambda>b. d_check (ok_or (ce_rid_from E b) (MerkleCustom ''recovery id'')))"

definition ser_sigrec :: "sigrec enc" where
  "ser_sigrec x = s_then (ser_recid (recid x)) (ser_signature (sig x))"

definition de_sigrec :: "'d codec_env \<Rightarrow> sigrec dec" where
  "de_sigrec E =
     d_bind (de_recid E) (\<lambda>r. d_bind (de_signature E) (\<lambda>x. d_return \<lparr>recid = r, sig = x\<rparr>))"

definition ser_validator_set :: "validator_set enc" where
  "ser_validator_set vs =
     s_then (ser_public_key (processor vs))
    (s_then (ser_btree_set ser_public_key (listeners vs))
    (s_then (ser_word (needed_listeners vs))
    (s_then (ser_btree_set ser_public_key (approvers vs))
            (ser_word (needed_approvers vs)))))"

definition de_validator_set :: "'d codec_env \<Rightarrow> validator_set dec" where
  "de_validator_set E =
     d_bind (de_public_key E) (\<lambda>p.
     d_bind (de_btree_set (de_public_key E)) (\<lambda>ls.
     d_bind de_word (\<lambda>nl.
     d_bind (de_btree_set (de_public_key E)) (\<lambda>aps.
     d_bind de_word (\<lambda>na.
     d_return \<lparr>processor = p, listeners = ls, needed_listeners = nl,
       approvers = aps, needed_approvers = na\<rparr>)))))"

definition ser_bool :: "bool enc" where
  "ser_bool b = store_byte (if b then 1 else 0)"

definition de_bool :: "bool dec" where
  "de_bool = d_bind pop_byte (\<lambda>b. d_return (b = 1))"

text \<open>
  Types implementing \<open>MerkleSerialize\<close> are written with their version number in front; a reader
  accepts its own version and every older one, and hands the number to the type.
\<close>

definition ser_versioned :: "nat \<Rightarrow> 'a enc \<Rightarrow> 'a enc" where
  "ser_versioned version enc x = s_then (store_usize version) (enc x)"

definition de_versioned :: "nat \<Rightarrow> (nat \<Rightarrow> 'a dec) \<Rightarrow> 'a dec" where
  "de_versioned highest dec = d_bind load_usize (\<lambda>version ds.
     if version > highest then Inl (UnexpectedVersion highest version (d_pos ds)) else dec version ds)"

section \<open>Layers\<close>

definition serialize :: "'a enc \<Rightarrow> 'a \<Rightarrow> merkle_error + contents" where
  "serialize enc x = rbind (enc x ser_new) (\<lambda>s. Inr (ser_finish s))"

definition deserialize :: "'a dec \<Rightarrow> contents \<Rightarrow> merkle_error + 'a" where
  "deserialize dec c =
     rbind (dec (de_new c)) (\<lambda>(x, ds). rbind (de_finish ds) (\<lambda>_. Inr x))"

definition contents_hash :: "(bytes \<Rightarrow> hash) \<Rightarrow> contents \<Rightarrow> hash" where
  "contents_hash sha c = sha (c_payload c)"

definition store_by_hash :: "(bytes \<Rightarrow> hash) \<Rightarrow> 'a enc \<Rightarrow> 'a enc" where
  "store_by_hash sha enc child s =
     rbind (serialize enc child) (\<lambda>c.
       ser_hash (contents_hash sha c) (s\<lparr>children := children s @ [c]\<rparr>))"

definition load_by_given_hash :: "(bytes \<Rightarrow> hash) \<Rightarrow> 'a dec \<Rightarrow> hash \<Rightarrow> 'a dec" where
  "load_by_given_hash sha dec h ds =
     (case find (\<lambda>c. contents_hash sha c = h) (c_children (d_contents ds)) of
        None \<Rightarrow> Inl (HashesNotFound [h])
      | Some child \<Rightarrow> rbind (deserialize dec child) (\<lambda>x. Inr (x, ds)))"

definition load_by_hash :: "(bytes \<Rightarrow> hash) \<Rightarrow> 'a dec \<Rightarrow> 'a dec" where
  "load_by_hash sha dec = d_bind de_hash (\<lambda>h. load_by_given_hash sha dec h)"

section \<open>Round trips of values\<close>

named_theorems rt

lemma rt_then [rt]:
  assumes "roundtrips C a1 d1 y" "roundtrips C a2 (k y) x"
  shows "roundtrips C (s_then a1 a2) (d_bind d1 k) x"
  unfolding s_then_def [abs_def] d_bind_def [abs_def] by (rule rt_bind [where y = y]) (rule assms)+

lemma rt_done: "roundtrips C s_done (d_return x) x"
  using rt_return by (simp add: s_done_def [abs_def] d_return_def [abs_def])

lemma rt_last:
  assumes "roundtrips C a d y" "k y = d_return x"
  shows "roundtrips C a (d_bind d k) x"
proof -
  have "roundtrips C (s_then a s_done) (d_bind d k) x"
    using assms(1) by (rule rt_then) (simp add: assms(2) rt_done)
  moreover have "s_then a s_done = a"
  proof
    fix s show "s_then a s_done s = a s"
      by (cases "a s") (simp_all add: s_then_def s_done_def)
  qed
  ultimately show ?thesis by simp
qed

lemma rt_d_map [rt]:
  assumes "roundtrips C a d y" "f y = x"
  shows "roundtrips C a (d_map f d) x"
  unfolding d_map_def using assms(1) by (rule rt_last) (simp add: assms(2))

lemma d_check_Inr [simp]: "d_check (Inr x) = d_return x"
  by (simp add: d_check_def d_return_def fun_eq_iff)

lemma rt_word:
  assumes "content_world sha C" "LENGTH('a) = 8 * n"
  shows "roundtrips C (ser_word (w :: 'a::len word)) de_word w"
  unfolding ser_word_def de_word_def
proof (rule rt_d_map)
  show "roundtrips C (store_raw_bytes (to_le_bytes w)) (load_raw_bytes (LENGTH('a) div 8)) (to_le_bytes w)"
    using rt_raw_bytes [OF assms(1), of "to_le_bytes w"] by (simp add: length_to_le_bytes)
qed (rule of_to_le_bytes [OF assms(2)])

lemma rt_u16: "content_world sha C \<Longrightarrow> roundtrips C (ser_word (w :: u16)) de_word w"
  by (rule rt_word [where n = 2]) simp_all

lemma rt_u64: "content_world sha C \<Longrightarrow> roundtrips C (ser_word (w :: u64)) de_word w"
  by (rule rt_word [where n = 8]) simp_all

definition ok_string :: "string \<Rightarrow> bool" where
  "ok_string s \<longleftrightarrow> utf8_valid (str_bytes s) \<and> length s < 2 ^ 64"

lemma rt_string:
  assumes "content_world sha C" "ok_string s"
  shows "roundtrips C (ser_string s) de_string s"
  unfolding ser_string_def de_string_def
  by (rule rt_last [OF rt_slice]) (use assms in \<open>simp_all add: ok_string_def from_utf8_def\<close>)

lemma rt_option:
  assumes "\<And>y. x = Some y \<Longrightarrow> roundtrips C (enc y) dec y"
  shows "roundtrips C (ser_option enc x) (de_option dec) x"
proof (cases x)
  case None
  then show ?thesis
    unfolding ser_option_def de_option_def by simp (rule rt_last [OF rt_byte], simp)
next
  case (Some y)
  have "roundtrips C (enc y) (d_map Some dec) (Some y)"
    by (rule rt_d_map [OF assms [OF Some]]) simp
  then show ?thesis
    using Some unfolding ser_option_def de_option_def by simp (rule rt_then [OF rt_byte], simp)
qed

lemma rt_array:
  assumes "\<And>x. x \<in> set xs \<Longrightarrow> roundtrips C (enc x) dec x"
  shows "roundtrips C (ser_array enc xs) (de_array (length xs) dec) xs"
  using assms
proof (induction xs)
  case Nil
  have "ser_array enc [] = s_done"
    by (rule ext) (simp add: ser_array_def s_done_def)
  then show ?case by (simp add: rt_done)
next
  case (Cons x xs)
  have "ser_array enc (x # xs) = s_then (enc x) (ser_array enc xs)"
    by (rule ext) (simp add: ser_array_def s_then_def)
  moreover have "roundtrips C (ser_array enc xs) (d_map (Cons x) (de_array (length xs) dec)) (x # xs)"
    by (rule rt_d_map [OF Cons.IH]) (simp_all add: Cons.prems)
  moreover have "roundtrips C (enc x) dec x" using Cons.prems by simp
  ultimately show ?case
    by (auto intro: rt_then [where y = x])
qed

lemma rt_list:
  assumes "length xs < 2 ^ 64" "\<And>x. x \<in> set xs \<Longrightarrow> roundtrips C (enc x) dec x"
  shows "roundtrips C (ser_list enc xs) (de_list dec) xs"
  unfolding ser_list_def de_list_def
  by (rule rt_then [OF rt_usize [OF assms(1)]]) (rule rt_array [OF assms(2)])

lemma rt_hash:
  "content_world sha C \<Longrightarrow> length h = 32 \<Longrightarrow> roundtrips C (ser_hash h) de_hash h"
  unfolding ser_hash_def de_hash_def by (metis rt_raw_bytes)

lemma rt_pair:
  assumes "roundtrips C (e1 (fst p)) d1 (fst p)" "roundtrips C (e2 (snd p)) d2 (snd p)"
  shows "roundtrips C (ser_pair e1 e2 p) (de_pair d1 d2) p"
  unfolding ser_pair_def de_pair_def
  by (rule rt_then [OF assms(1)]) (rule rt_d_map [OF assms(2)], simp)

text \<open>Reading entries in key order back into a tree rebuilds the same map.\<close>

lemma om_insert_above: "\<forall>k' \<in> fst ` set m. k' < k \<Longrightarrow> om_insert k v m = m @ [(k, v)]"
  by (induction k v m rule: om_insert.induct) auto

lemma om_of_list_wf:
  assumes "om_wf m"
  shows "om_of_list m = m"
proof -
  have "om_wf (acc @ m) \<Longrightarrow> foldl (\<lambda>m e. om_insert (fst e) (snd e) m) acc m = acc @ m" for acc
  proof (induction m arbitrary: acc)
    case (Cons e m)
    have "om_insert (fst e) (snd e) acc = acc @ [(fst e, snd e)]"
      using Cons.prems by (intro om_insert_above) (auto simp: om_wf_def sorted_wrt_append)
    then show ?case using Cons.IH [of "acc @ [e]"] Cons.prems by simp
  qed simp
  then show ?thesis using assms unfolding om_of_list_def by (metis append_Nil)
qed

lemma os_of_list_wf:
  assumes "os_wf xs"
  shows "os_of_list xs = xs"
  using assms by (intro os_ext) (simp_all add: os_wf_of_list set_os_of_list)

lemma rt_btree_map:
  assumes "om_wf m" "length m < 2 ^ 64"
    and "\<And>k v. (k, v) \<in> set m \<Longrightarrow> roundtrips C (ek k) dk k \<and> roundtrips C (ev v) dv v"
  shows "roundtrips C (ser_btree_map ek ev m) (de_btree_map dk dv) m"
  unfolding ser_btree_map_def de_btree_map_def
proof (rule rt_then [OF rt_usize [OF assms(2)]])
  have pairs: "roundtrips C (ser_pair ek ev p) (de_pair dk dv) p" if "p \<in> set m" for p
    using assms(3) [of "fst p" "snd p"] that by (intro rt_pair) simp_all
  show "roundtrips C (ser_array (ser_pair ek ev) m)
      (d_map om_of_list (de_array (length m) (de_pair dk dv))) m"
    by (rule rt_d_map [where y = m]) (auto intro: rt_array pairs om_of_list_wf [OF assms(1)])
qed

lemma rt_btree_set:
  assumes "os_wf xs" "length xs < 2 ^ 64" "\<And>x. x \<in> set xs \<Longrightarrow> roundtrips C (enc x) dec x"
  shows "roundtrips C (ser_btree_set enc xs) (de_btree_set dec) xs"
  unfolding ser_btree_set_def de_btree_set_def
  by (rule rt_then [OF rt_usize [OF assms(2)]])
    (rule rt_d_map [where y = xs], auto intro: rt_array assms(3) os_of_list_wf [OF assms(1)])

definition ok_public_key :: "'d codec_env \<Rightarrow> public_key \<Rightarrow> bool" where
  "ok_public_key E k \<longleftrightarrow> ce_pk_from E (pk_bytes k) = Some k \<and> length (pk_bytes k) < 2 ^ 64"

definition ok_sigrec :: "'d codec_env \<Rightarrow> sigrec \<Rightarrow> bool" where
  "ok_sigrec E x \<longleftrightarrow> ce_rid_from E (recid x) = Some (recid x) \<and>
     ce_sig_from E (sig_bytes (sig x)) = Some (sig x) \<and> length (sig_bytes (sig x)) < 2 ^ 64"

definition ok_decimal :: "'d codec_env \<Rightarrow> 'd \<Rightarrow> bool" where
  "ok_decimal E d \<longleftrightarrow> length (ce_dec_bytes E d) = 16 \<and> ce_dec_from E (ce_dec_bytes E d) = d"

definition ok_key_set :: "'d codec_env \<Rightarrow> public_key list \<Rightarrow> bool" where
  "ok_key_set E ks \<longleftrightarrow> os_wf ks \<and> length ks < 2 ^ 64 \<and> (\<forall>k \<in> set ks. ok_public_key E k)"

definition ok_validator_set :: "'d codec_env \<Rightarrow> validator_set \<Rightarrow> bool" where
  "ok_validator_set E vs \<longleftrightarrow>
     ok_public_key E (processor vs) \<and> ok_key_set E (listeners vs) \<and> ok_key_set E (approvers vs)"

lemma rt_public_key:
  "content_world sha C \<Longrightarrow> ok_public_key E k \<Longrightarrow> roundtrips C (ser_public_key k) (de_public_key E) k"
  unfolding ser_public_key_def de_public_key_def ok_public_key_def
  by (rule rt_last [where y = "pk_bytes k"]) (simp_all add: rt_slice)

lemma sigrec_eta [simp]: "\<lparr>recid = recid x, sig = sig x\<rparr> = (x :: sigrec)"
  by (cases x) simp

lemma validator_set_eta [simp]:
  "\<lparr>processor = processor vs, listeners = listeners vs, needed_listeners = needed_listeners vs,
     approvers = approvers vs, needed_approvers = needed_approvers vs\<rparr> = (vs :: validator_set)"
  by (cases vs) simp

lemma rt_signature:
  "content_world sha C \<Longrightarrow> ce_sig_from E (sig_bytes x) = Some x \<Longrightarrow> length (sig_bytes x) < 2 ^ 64 \<Longrightarrow>
     roundtrips C (ser_signature x) (de_signature E) x"
  unfolding ser_signature_def de_signature_def
  by (rule rt_last [where y = "sig_bytes x"]) (simp_all add: rt_slice)

lemma rt_sigrec:
  assumes "content_world sha C" "ok_sigrec E x"
  shows "roundtrips C (ser_sigrec x) (de_sigrec E) x"
  unfolding ser_sigrec_def de_sigrec_def
proof (rule rt_then [where y = "recid x"])
  show "roundtrips C (ser_recid (recid x)) (de_recid E) (recid x)"
    unfolding ser_recid_def de_recid_def using assms(2)
    by (intro rt_last [OF rt_byte]) (simp add: ok_sigrec_def)
  show "roundtrips C (ser_signature (sig x))
      (d_bind (de_signature E) (\<lambda>s. d_return \<lparr>recid = recid x, sig = s\<rparr>)) x"
    by (rule rt_last [where y = "sig x"])
      (use assms in \<open>simp_all add: ok_sigrec_def rt_signature\<close>)
qed

lemma rt_decimal:
  assumes "content_world sha C" "ok_decimal E d"
  shows "roundtrips C (ser_decimal E d) (de_decimal E) d"
  unfolding ser_decimal_def de_decimal_def
proof (rule rt_d_map)
  show "roundtrips C (store_raw_bytes (ce_dec_bytes E d)) (load_raw_bytes 16) (ce_dec_bytes E d)"
    using rt_raw_bytes [OF assms(1), of "ce_dec_bytes E d"] assms(2) by (simp add: ok_decimal_def)
qed (use assms(2) in \<open>simp add: ok_decimal_def\<close>)

lemma rt_key_set:
  "content_world sha C \<Longrightarrow> ok_key_set E ks \<Longrightarrow>
     roundtrips C (ser_btree_set ser_public_key ks) (de_btree_set (de_public_key E)) ks"
  unfolding ok_key_set_def by (intro rt_btree_set rt_public_key) auto

lemma rt_validator_set:
  assumes C: "content_world sha C" and "ok_validator_set E vs"
  shows "roundtrips C (ser_validator_set vs) (de_validator_set E) vs"
proof -
  have "ok_public_key E (processor vs)" "ok_key_set E (listeners vs)" "ok_key_set E (approvers vs)"
    using assms(2) by (simp_all add: ok_validator_set_def)
  then show ?thesis
    unfolding ser_validator_set_def de_validator_set_def
    by (intro rt_then [OF rt_public_key [OF C]] rt_then [OF rt_key_set [OF C]] rt_then [OF rt_u16 [OF C]]
        rt_last [OF rt_u16 [OF C]]) simp_all
qed

lemma rt_versioned:
  assumes "version < 2 ^ 64" "roundtrips C (enc x) (dec version) x"
  shows "roundtrips C (ser_versioned version enc x) (de_versioned version dec) x"
  unfolding ser_versioned_def de_versioned_def
  by (rule rt_then [OF rt_usize [OF assms(1)]]) (simp add: assms(2))

section \<open>Values stored in layers\<close>

lemma serialize_emit:
  "(\<And>s. enc x s = Inr (emit bs cs s)) \<Longrightarrow> serialize enc x = Inr (Contents bs cs)"
  by (simp add: serialize_def emit_def ser_new_def ser_finish_def)

lemma deserialize_serialize:
  assumes "roundtrips C (enc x) dec x" "serialize enc x = Inr c" "c \<in> C"
  shows "deserialize dec c = Inr x"
proof -
  from assms(1) obtain bs cs where e: "\<And>s. enc x s = Inr (emit bs cs s)" and d: "reads C dec bs cs x"
    by (auto simp: roundtrips_def)
  have c: "c = Contents bs cs" using assms(2) serialize_emit [of enc x, OF e] by simp
  have "dec (de_new c) = Inr (x, (de_new c)\<lparr>d_pos := length bs\<rparr>)"
    using d assms(3) unfolding reads_def c by (auto simp: de_new_def payload_of_def)
  then show ?thesis
    by (simp add: deserialize_def de_finish_def de_new_def payload_of_def c)
qed

lemma find_child:
  assumes "content_world sha C" "set cs \<subseteq> C" "c \<in> set cs"
  shows "find (\<lambda>d. contents_hash sha d = contents_hash sha c) cs = Some c"
  using assms(2,3)
proof (induction cs)
  case (Cons d cs)
  have "contents_hash sha d = contents_hash sha c \<longleftrightarrow> d = c"
    using assms(1) Cons.prems unfolding content_world_def contents_hash_def
    by (metis inj_onD list.set_intros(1) subsetD)
  then show ?case using Cons by auto
qed simp

lemma rt_by_hash:
  assumes C: "content_world sha C" and rt: "roundtrips C (enc x) dec x"
  shows "roundtrips C (store_by_hash sha enc x) (load_by_hash sha dec) x"
proof -
  from rt obtain bs cs where e: "\<And>s. enc x s = Inr (emit bs cs s)"
    by (auto simp: roundtrips_def)
  let ?c = "Contents bs cs"
  let ?h = "contents_hash sha ?c"
  have len: "length ?h = 32" using C by (simp add: content_world_def contents_hash_def)
  have st: "store_by_hash sha enc x s = Inr (emit ?h [?c] s)" for s
    by (simp add: store_by_hash_def serialize_emit [of enc x, OF e] ser_hash_def store_raw_bytes_def emit_def)
  have "reads C (load_by_hash sha dec) ?h [?c] x"
    unfolding reads_def
  proof (intro allI impI)
    fix ds rest
    assume ds: "d_contents ds \<in> C" "d_pos ds \<le> length (payload_of ds)"
      "drop (d_pos ds) (payload_of ds) = ?h @ rest" "set [?c] \<subseteq> set (c_children (d_contents ds))"
    have "reads C de_hash ?h [] ?h"
      by (rule roundtrips_emitted [OF rt_hash [OF C len]]) (simp add: ser_hash_def store_raw_bytes_def emit_def)
    then have "de_hash ds = Inr (?h, ds\<lparr>d_pos := d_pos ds + length ?h\<rparr>)"
      using ds unfolding reads_def by simp
    moreover have sub: "set (c_children (d_contents ds)) \<subseteq> C"
      using C ds(1) by (simp add: content_world_def)
    then have "find (\<lambda>d. contents_hash sha d = ?h) (c_children (d_contents ds)) = Some ?c"
      using ds(4) by (intro find_child [OF C]) auto
    moreover have "deserialize dec ?c = Inr x"
      using sub ds(4) by (intro deserialize_serialize [where C = C, OF rt serialize_emit [of enc x, OF e]]) auto
    ultimately show "load_by_hash sha dec ds = Inr (x, ds\<lparr>d_pos := d_pos ds + length ?h\<rparr>)"
      by (simp add: load_by_hash_def d_bind_def load_by_given_hash_def)
  qed
  then show ?thesis
    unfolding roundtrips_def using st by blast
qed

section \<open>The contract of a serializable type\<close>

locale merkle_codec =
  fixes sha :: "bytes \<Rightarrow> hash"
    and enc :: "'a enc"
    and dec :: "'a dec"
    and ok :: "'a \<Rightarrow> bool"
  assumes round_trip: "content_world sha C \<Longrightarrow> ok x \<Longrightarrow> roundtrips C (enc x) dec x"
begin

lemma load_saved:
  "content_world sha C \<Longrightarrow> ok x \<Longrightarrow> serialize enc x = Inr c \<Longrightarrow> c \<in> C \<Longrightarrow> deserialize dec c = Inr x"
  using round_trip deserialize_serialize by metis

lemma saves:
  assumes "\<forall>bs. length (sha bs) = 32" "ok x"
  shows "\<exists>c. serialize enc x = Inr c"
proof -
  have "content_world sha {}" using assms(1) by (simp add: content_world_def)
  from round_trip [OF this assms(2)] obtain bs cs where "\<And>s. enc x s = Inr (emit bs cs s)"
    by (auto simp: roundtrips_def)
  from serialize_emit [of enc x, OF this] show ?thesis by blast
qed

lemma equal_hash_equal_value:
  assumes "content_world sha C" "ok x" "ok y" "serialize enc x = Inr c" "serialize enc y = Inr d"
    "c \<in> C" "d \<in> C" "contents_hash sha c = contents_hash sha d"
  shows "x = y"
proof -
  have "c = d"
    using assms(1,6,7,8) unfolding content_world_def contents_hash_def by (metis inj_onD)
  then show ?thesis
    using load_saved [OF assms(1,2,4,6)] load_saved [OF assms(1,3,5,7)] by simp
qed

end

interpretation usize_codec: merkle_codec sha store_usize load_usize "\<lambda>v. v < 2 ^ 64" for sha
  by unfold_locales (rule rt_usize)

interpretation string_codec: merkle_codec sha ser_string de_string ok_string for sha
  by unfold_locales (rule rt_string)

interpretation sigrec_codec: merkle_codec sha ser_sigrec "de_sigrec E" "ok_sigrec E" for sha E
  by unfold_locales (rule rt_sigrec)

interpretation validator_set_codec:
  merkle_codec sha ser_validator_set "de_validator_set E" "ok_validator_set E" for sha E
  by unfold_locales (rule rt_validator_set)

section \<open>Properties\<close>

lemma length_usize_chunks: "w < 128 ^ n \<Longrightarrow> length (usize_chunks w) \<le> n"
proof (induction n arbitrary: w)
  case (Suc n)
  then have "w div 128 < 128 ^ n" by (simp add: less_mult_imp_div_less mult.commute)
  then have "length (usize_chunks (w div 128)) \<le> n" by (rule Suc.IH)
  then show ?case by (simp add: usize_chunks.simps [of w])
qed (simp add: usize_chunks.simps)

text \<open>The variable-length encoding of a \<open>usize\<close> takes at most ten bytes, and reading it back
  from any position of any payload returns the number and stops right behind it.\<close>

theorem usize_encoding_round_trip:
  assumes "v < 2 ^ 64"
  shows "\<exists>bs. length bs \<le> 10 \<and>
    (\<forall>s. store_usize v s = Inr (s\<lparr>buff := buff s @ bs\<rparr>)) \<and>
    (\<forall>pre rest cs. load_usize \<lparr>d_contents = Contents (pre @ bs @ rest) cs, d_pos = length pre\<rparr> =
       Inr (v, \<lparr>d_contents = Contents (pre @ bs @ rest) cs, d_pos = length pre + length bs\<rparr>))"
proof (intro exI conjI allI)
  have "v div 128 < 128 ^ 9" using assms by simp
  then show "length (usize_bytes v) \<le> 10"
    using length_usize_chunks by (simp add: usize_bytes_marked marked_def)
  show "store_usize v s = Inr (s\<lparr>buff := buff s @ usize_bytes v\<rparr>)" for s
    by (simp add: store_usize_bytes emit_def)
  fix pre rest cs
  have "reads UNIV load_usize (usize_bytes v) [] v"
    by (rule roundtrips_emitted [OF rt_usize [OF assms]]) (rule store_usize_bytes)
  then show "load_usize \<lparr>d_contents = Contents (pre @ usize_bytes v @ rest) cs, d_pos = length pre\<rparr> =
      Inr (v, \<lparr>d_contents = Contents (pre @ usize_bytes v @ rest) cs,
        d_pos = length pre + length (usize_bytes v)\<rparr>)"
    unfolding reads_def by (simp add: payload_of_def)
qed

theorem usize_encoding_round_trip_witness:
  "\<exists>bs. length bs \<le> 10 \<and> (\<forall>s. store_usize 300 s = Inr (s\<lparr>buff := buff s @ bs\<rparr>))"
  using usize_encoding_round_trip [of 300] by auto

text \<open>A validator set that is saved is loaded back from its hash, and two validator sets with the
  same hash are the same: the hash of the state commits to who may sign for it.\<close>

theorem validator_set_hash_commits:
  assumes "content_world (ce_sha E) C"
    and "ok_validator_set E vs" "serialize ser_validator_set vs = Inr c" "c \<in> C"
    and "ok_validator_set E ws" "serialize ser_validator_set ws = Inr d" "d \<in> C"
  shows "deserialize (de_validator_set E) c = Inr vs \<and>
    (contents_hash (ce_sha E) c = contents_hash (ce_sha E) d \<longleftrightarrow> vs = ws)"
  using validator_set_codec.load_saved [OF assms(1-4)] assms(3,6)
    validator_set_codec.equal_hash_equal_value [OF assms(1,2,5,3,6,4,7)]
  by auto

text \<open>An environment to evaluate on: a hash that pads and cuts its input to 32 bytes.\<close>

definition sample_codec :: "int codec_env" where
  "sample_codec = \<lparr>ce_sha = (\<lambda>bs. take 32 (bs @ replicate 32 0)),
     ce_pk_from = (\<lambda>bs. Some (PublicKey bs)), ce_sig_from = (\<lambda>bs. Some (Signature bs)),
     ce_rid_from = (\<lambda>b. if b \<le> 3 then Some b else None),
     ce_dec_bytes = (\<lambda>_. replicate 16 0), ce_dec_from = (\<lambda>_. 0)\<rparr>"

definition codec_set :: "u8 \<Rightarrow> validator_set" where
  "codec_set b = \<lparr>processor = PublicKey [b], listeners = [PublicKey [1]], needed_listeners = 1,
     approvers = [PublicKey [2]], needed_approvers = 1\<rparr>"

lemmas codec_eval = serialize_def ser_validator_set_def s_then_def ser_public_key_def store_slice_def
  store_usize_def store_byte_def store_raw_bytes_def ser_btree_set_def ser_array_def ser_word_def
  ser_new_def ser_finish_def to_le_bytes_def usize_chunks.simps Let_def

theorem validator_set_hash_commits_witness:
  "\<exists>c d. serialize ser_validator_set (codec_set 7) = Inr c \<and>
     serialize ser_validator_set (codec_set 8) = Inr d \<and>
     deserialize (de_validator_set sample_codec) c = Inr (codec_set 7) \<and>
     contents_hash (ce_sha sample_codec) c \<noteq> contents_hash (ce_sha sample_codec) d"
proof -
  define c where "c = Contents [1, 7, 1, 1, 1, 1, 0, 1, 1, 2, 1, 0] []"
  define d where "d = Contents [1, 8, 1, 1, 1, 1, 0, 1, 1, 2, 1, 0] []"
  have cd: "serialize ser_validator_set (codec_set 7) = Inr c"
      "serialize ser_validator_set (codec_set 8) = Inr d"
    by (simp_all add: codec_eval codec_set_def c_def d_def numeral_2_eq_2)
  have w: "content_world (ce_sha sample_codec) {c, d}"
    by (auto simp: content_world_def sample_codec_def c_def d_def)
  have "ok_validator_set sample_codec (codec_set b)" for b
    by (simp add: ok_validator_set_def ok_key_set_def ok_public_key_def sample_codec_def codec_set_def os_wf_def)
  moreover have "codec_set 7 \<noteq> codec_set 8" by (simp add: codec_set_def)
  ultimately show ?thesis
    using validator_set_hash_commits [OF w _ cd(1) _ _ cd(2)] cd by auto
qed

text \<open>A stored length near \<open>u64::MAX\<close> wraps the end position below the start, and the slice
  panics instead of reporting insufficient input.\<close>

theorem crafted_length_panics:
  "deserialize de_string (Contents (usize_bytes (2 ^ 64 - 1)) cs) =
     Inl (MerklePanic ''slice index'')"
proof -
  let ?bs = "usize_bytes (2 ^ 64 - 1)"
  have len: "length ?bs \<ge> 1" by (simp add: usize_bytes_marked)
  have "reads UNIV load_usize ?bs [] (2 ^ 64 - 1)"
    by (rule roundtrips_emitted [OF rt_usize]) (simp, rule store_usize_bytes)
  then have "load_usize (de_new (Contents ?bs cs)) =
      Inr (2 ^ 64 - 1, (de_new (Contents ?bs cs))\<lparr>d_pos := length ?bs\<rparr>)"
    unfolding reads_def by (simp add: de_new_def payload_of_def)
  moreover have "(length ?bs + (2 ^ 64 - 1)) mod 2 ^ 64 = length ?bs - 1"
  proof -
    have "length ?bs + (2 ^ 64 - 1) = (length ?bs - 1) + 2 ^ 64" using len by simp
    moreover have "length ?bs - 1 < 2 ^ 64"
      using length_usize_chunks [of "(2 ^ 64 - 1) div 128" 9] by (simp add: usize_bytes_marked marked_def)
    ultimately show ?thesis by (metis mod_add_self2 mod_less)
  qed
  ultimately show ?thesis
    using len by (auto simp: deserialize_def de_string_def d_bind_def load_bytes_def load_raw_bytes_def
        payload_of_def de_new_def Let_def)
qed

end
