(* ===== verification/Merkle_Store.thy ===== *)
theory Merkle_Store
  imports Merkle_Codec
begin

text \<open>
  Storing layers (\<open>merkle-map/src/api.rs\<close>): \<open>save_merkle_contents\<close> writes the layers of a value
  children first, \<open>load_merkle_contents\<close> collects them again in rounds.  Both work on any
  \<open>MerkleStore\<close>; the locale \<open>merkle_backend\<close> is what they need of one, and it is interpreted on the
  in-memory store (\<open>memory_store.rs\<close>) and on the key-value layout of the Fjall store
  (\<open>kolme-store/src/fjall/merkle.rs\<close>).

  Saving keeps the store closed: a stored layer has its children stored, after every single write, so
  that a crash in between leaves no dangling hash.  Loading a saved hash returns the contents, and
  the search for layers ends on every finite store.
\<close>

section \<open>Layers and stores\<close>

record layer =
  l_payload :: bytes
  l_children :: "hash list"

definition layer_of :: "(bytes \<Rightarrow> hash) \<Rightarrow> contents \<Rightarrow> layer" where
  "layer_of sha c = \<lparr>l_payload = c_payload c, l_children = map (contents_hash sha) (c_children c)\<rparr>"

definition layer_hash :: "(bytes \<Rightarrow> hash) \<Rightarrow> layer \<Rightarrow> hash" where
  "layer_hash sha l = sha (l_payload l)"

record 's merkle_ops =
  load_layer :: "'s \<Rightarrow> hash \<Rightarrow> merkle_error + layer option"
  save_layer :: "layer \<Rightarrow> 's \<Rightarrow> merkle_error + 's"
  has_layer :: "'s \<Rightarrow> hash \<Rightarrow> merkle_error + bool"

text \<open>\<open>load_by_hashes\<close>: what is found goes into the map, what is missing is left out.\<close>

definition load_by_hashes ::
  "'s merkle_ops \<Rightarrow> 's \<Rightarrow> hash list \<Rightarrow> (hash, layer) omap \<Rightarrow> merkle_error + (hash, layer) omap" where
  "load_by_hashes M s hs dest =
     rfold (\<lambda>h d. rbind (load_layer M s h) (\<lambda>x. case x of None \<Rightarrow> Inr d | Some l \<Rightarrow> Inr (om_insert h l d))) hs dest"

section \<open>Saving\<close>

fun missing_children ::
  "(bytes \<Rightarrow> hash) \<Rightarrow> 's merkle_ops \<Rightarrow> 's \<Rightarrow> contents list \<Rightarrow> merkle_error + contents list" where
  "missing_children sha M s [] = Inr []"
| "missing_children sha M s (c # cs) =
     rbind (has_layer M s (contents_hash sha c)) (\<lambda>b.
     rbind (missing_children sha M s cs) (\<lambda>ms. Inr (if b then ms else c # ms)))"

fun tree_weight :: "contents \<Rightarrow> nat" where
  "tree_weight (Contents p cs) = 2 + sum_list (map tree_weight cs)"

definition work_weight :: "(contents \<times> bool) list \<Rightarrow> nat" where
  "work_weight ws = sum_list (map (\<lambda>(c, check). if check then tree_weight c else 1) ws)"

lemma work_weight_simps [simp]:
  "work_weight [] = 0"
  "work_weight ((c, check) # ws) = (if check then tree_weight c else 1) + work_weight ws"
  "work_weight (ws @ vs) = work_weight ws + work_weight vs"
  "work_weight (map (\<lambda>c. (c, True)) cs) = sum_list (map tree_weight cs)"
  by (simp_all add: work_weight_def comp_def)

lemma work_weight_rev [simp]: "work_weight (rev ws) = work_weight ws"
  by (simp add: work_weight_def rev_map [symmetric])

lemma missing_weight:
  "missing_children sha M s cs = Inr ms \<Longrightarrow> sum_list (map tree_weight ms) \<le> sum_list (map tree_weight cs)"
  by (induction cs arbitrary: ms) (force simp: result_simps split: if_splits)+

lemma missing_lighter:
  "missing_children sha M s (c_children c) = Inr ms \<Longrightarrow> Suc (sum_list (map tree_weight ms)) < tree_weight c"
  using missing_weight by (cases c) force

text \<open>The stack of work items, the top first.\<close>

function (sequential) save_loop ::
  "(bytes \<Rightarrow> hash) \<Rightarrow> 's merkle_ops \<Rightarrow> (contents \<times> bool) list \<Rightarrow> hash list \<Rightarrow> 's \<Rightarrow> merkle_error + 's" where
  "save_loop sha M [] saved s = Inr s"
| "save_loop sha M ((c, True) # work) saved s =
     rbind (missing_children sha M s (c_children c)) (\<lambda>ms.
       save_loop sha M (rev (map (\<lambda>m. (m, True)) ms) @ (c, False) # work) saved s)"
| "save_loop sha M ((c, False) # work) saved s =
     (if contents_hash sha c \<in> set saved then save_loop sha M work saved s
      else rbind (save_layer M (layer_of sha c) s)
        (\<lambda>s'. save_loop sha M work (contents_hash sha c # saved) s'))"
  by pat_completeness auto

termination
  by (relation "measure (\<lambda>(sha, M, work, saved, s). work_weight work)") (auto dest: missing_lighter)

definition save_merkle_contents ::
  "(bytes \<Rightarrow> hash) \<Rightarrow> 's merkle_ops \<Rightarrow> contents \<Rightarrow> 's \<Rightarrow> merkle_error + 's" where
  "save_merkle_contents sha M c s =
     rbind (has_layer M s (contents_hash sha c)) (\<lambda>b.
       if b then Inr s else save_loop sha M [(c, True)] [] s)"

section \<open>Loading\<close>

record load_state =
  ld_layers :: "(hash, layer) omap"
  ld_all :: "(hash, contents) omap"
  ld_reverses :: "(hash, hash list) omap"
  ld_needed :: "hash list"
  ld_process :: "hash list"

datatype load_step = Done "merkle_error + contents" | Next load_state

definition load_init :: "hash \<Rightarrow> load_state" where
  "load_init h = \<lparr>ld_layers = [], ld_all = [], ld_reverses = [], ld_needed = [h], ld_process = []\<rparr>"

text \<open>One pass over the children of a layer: those that are complete, and the state with the
  others needed and waited for.\<close>

fun gather_children ::
  "(hash \<Rightarrow> contents option) \<Rightarrow> hash \<Rightarrow> hash list \<Rightarrow> load_state \<Rightarrow> contents list \<times> load_state" where
  "gather_children cached parent [] st = ([], st)"
| "gather_children cached parent (ch # chs) st =
     (case cached ch of
        Some c \<Rightarrow> (case gather_children cached parent chs st of (cs, st') \<Rightarrow> (c # cs, st'))
      | None \<Rightarrow>
          (case om_get (ld_all st) ch of
             Some c \<Rightarrow> (case gather_children cached parent chs st of (cs, st') \<Rightarrow> (c # cs, st'))
           | None \<Rightarrow>
               let waiting = (case om_get (ld_reverses st) ch of None \<Rightarrow> [] | Some ws \<Rightarrow> ws)
               in gather_children cached parent chs
                    (st\<lparr>ld_needed := (if om_contains (ld_layers st) ch then ld_needed st else ld_needed st @ [ch]),
                        ld_reverses := om_insert ch (os_insert parent waiting) (ld_reverses st)\<rparr>)))"

definition wake :: "hash list \<Rightarrow> load_state \<Rightarrow> load_state" where
  "wake ws st =
     foldl (\<lambda>st w. if om_contains (ld_all st) w then st else st\<lparr>ld_process := os_insert w (ld_process st)\<rparr>) st ws"

definition process_layer :: "(hash \<Rightarrow> contents option) \<Rightarrow> hash \<Rightarrow> hash \<Rightarrow> load_state \<Rightarrow> load_step" where
  "process_layer cached orig h st =
     (case om_get (ld_layers st) h of
        None \<Rightarrow> Done (Inl (MerklePanic ''missing layer in to_process loop''))
      | Some l \<Rightarrow>
          (case gather_children cached h (l_children l) st of (cs, st1) \<Rightarrow>
             if length cs \<noteq> length (l_children l) then Next st1
             else let c = Contents (l_payload l) cs
                  in if h = orig then Done (Inr c)
                     else (case om_get (ld_reverses st1) h of
                             None \<Rightarrow> Done (Inl (MerklePanic ''impossible missing reverses''))
                           | Some ws \<Rightarrow>
                               Next (wake ws (st1\<lparr>ld_all := om_insert h c (ld_all st1),
                                                  ld_reverses := om_remove h (ld_reverses st1)\<rparr>)))))"

text \<open>One round of the outer loop: load what is needed and queue it.\<close>

definition load_round :: "'s merkle_ops \<Rightarrow> 's \<Rightarrow> load_state \<Rightarrow> load_step" where
  "load_round M s st =
     (case load_by_hashes M s (ld_needed st) (ld_layers st) of
        Inl e \<Rightarrow> Done (Inl e)
      | Inr layers \<Rightarrow>
          let missing = filter (\<lambda>h. \<not> om_contains layers h) (ld_needed st)
          in if missing \<noteq> [] then Done (Inl (HashesNotFound (os_of_list missing)))
             else Next (st\<lparr>ld_layers := layers, ld_needed := [], ld_process := os_of_list (ld_needed st)\<rparr>))"

definition load_step :: "(hash \<Rightarrow> contents option) \<Rightarrow> 's merkle_ops \<Rightarrow> 's \<Rightarrow> hash \<Rightarrow> load_state \<Rightarrow> load_step" where
  "load_step cached M s orig st =
     (case ld_process st of
        h # hs \<Rightarrow> process_layer cached orig h (st\<lparr>ld_process := hs\<rparr>)
      | [] \<Rightarrow>
          if ld_needed st = [] then Done (Inl (MerklePanic ''impossible missing contents''))
          else load_round M s st)"

partial_function (option) load_loop ::
  "(hash \<Rightarrow> contents option) \<Rightarrow> 's merkle_ops \<Rightarrow> 's \<Rightarrow> hash \<Rightarrow> load_state \<Rightarrow> (merkle_error + contents) option" where
  "load_loop cached M s orig st =
     (case load_step cached M s orig st of
        Done r \<Rightarrow> Some r
      | Next st' \<Rightarrow> load_loop cached M s orig st')"

definition load_merkle_contents ::
  "(hash \<Rightarrow> contents option) \<Rightarrow> 's merkle_ops \<Rightarrow> 's \<Rightarrow> hash \<Rightarrow> (merkle_error + contents) option" where
  "load_merkle_contents cached M s orig =
     (case cached orig of
        Some c \<Rightarrow> Some (Inr c)
      | None \<Rightarrow> load_loop cached M s orig (load_init orig))"

section \<open>What a store holds\<close>

definition closed_view :: "(hash \<Rightarrow> layer option) \<Rightarrow> bool" where
  "closed_view v \<longleftrightarrow> (\<forall>h l. v h = Some l \<longrightarrow> (\<forall>ch \<in> set (l_children l). v ch \<noteq> None))"

definition view_of_world :: "(bytes \<Rightarrow> hash) \<Rightarrow> contents set \<Rightarrow> (hash \<Rightarrow> layer option) \<Rightarrow> bool" where
  "view_of_world sha C v \<longleftrightarrow> (\<forall>h l. v h = Some l \<longrightarrow> (\<exists>c \<in> C. contents_hash sha c = h \<and> l = layer_of sha c))"

inductive present :: "(bytes \<Rightarrow> hash) \<Rightarrow> (hash \<Rightarrow> layer option) \<Rightarrow> contents \<Rightarrow> bool" where
  present_layers: "v (contents_hash sha c) = Some (layer_of sha c) \<Longrightarrow>
     (\<And>ch. ch \<in> set (c_children c) \<Longrightarrow> present sha v ch) \<Longrightarrow> present sha v c"

definition good_view :: "(bytes \<Rightarrow> hash) \<Rightarrow> contents set \<Rightarrow> (hash \<Rightarrow> layer option) \<Rightarrow> bool" where
  "good_view sha C v \<longleftrightarrow> closed_view v \<and> view_of_world sha C v"

lemma child_in_world: "content_world sha C \<Longrightarrow> c \<in> C \<Longrightarrow> ch \<in> set (c_children c) \<Longrightarrow> ch \<in> C"
  unfolding content_world_def by blast

lemma world_inject: "content_world sha C \<Longrightarrow> c \<in> C \<Longrightarrow> d \<in> C \<Longrightarrow> contents_hash sha c = contents_hash sha d \<Longrightarrow> c = d"
  unfolding content_world_def contents_hash_def by (meson inj_onD)

lemma stored_layer:
  assumes "content_world sha C" "good_view sha C v" "c \<in> C" "v (contents_hash sha c) \<noteq> None"
  shows "v (contents_hash sha c) = Some (layer_of sha c)"
proof -
  from assms(4) obtain l where l: "v (contents_hash sha c) = Some l" by blast
  then obtain d where "d \<in> C" "contents_hash sha d = contents_hash sha c" "l = layer_of sha d"
    using assms(2) unfolding good_view_def view_of_world_def by blast
  moreover from this have "d = c" by (intro world_inject [OF assms(1) _ assms(3)])
  ultimately show ?thesis using l by simp
qed

text \<open>In a closed store a stored hash stands for all of the contents.\<close>

lemma stored_present:
  assumes C: "content_world sha C" "good_view sha C v"
  shows "c \<in> C \<Longrightarrow> v (contents_hash sha c) \<noteq> None \<Longrightarrow> present sha v c"
proof (induction c rule: measure_induct_rule [of size])
  case (less c)
  have l: "v (contents_hash sha c) = Some (layer_of sha c)" using stored_layer [OF C less.prems] .
  then have ch: "v (contents_hash sha d) \<noteq> None" if "d \<in> set (c_children c)" for d
    using C(2) that unfolding good_view_def closed_view_def by (fastforce simp: layer_of_def)
  show ?case
  proof (rule present_layers)
    show "v (contents_hash sha c) = Some (layer_of sha c)" by (rule l)
    fix d assume d: "d \<in> set (c_children c)"
    have "size d < size c"
      using d size_list_estimation' [OF d, of "size d" size] by (cases c) (auto simp: less_Suc_eq_le)
    then show "present sha v d" using less.IH ch d child_in_world [OF C(1) less.prems(1)] by blast
  qed
qed

lemma present_stored: "present sha v c \<Longrightarrow> v (contents_hash sha c) \<noteq> None"
  by (erule present.cases) simp

lemma good_view_add:
  assumes "content_world sha C" "good_view sha C v" "c \<in> C"
    and "\<forall>ch \<in> set (c_children c). v (contents_hash sha ch) \<noteq> None"
  shows "good_view sha C (v(contents_hash sha c \<mapsto> layer_of sha c))"
  using assms unfolding good_view_def closed_view_def view_of_world_def
  by (auto simp: layer_of_def)

section \<open>The contract of a store\<close>

locale merkle_backend =
  fixes sha :: "bytes \<Rightarrow> hash"
    and M :: "'s merkle_ops"
    and view :: "'s \<Rightarrow> hash \<Rightarrow> layer option"
    and ok :: "'s \<Rightarrow> bool"
  assumes load: "ok s \<Longrightarrow> length h = 32 \<Longrightarrow> load_layer M s h = Inr (view s h)"
    and has: "ok s \<Longrightarrow> length h = 32 \<Longrightarrow> has_layer M s h = Inr (view s h \<noteq> None)"
    and save: "ok s \<Longrightarrow> length (layer_hash sha l) = 32 \<Longrightarrow>
      \<forall>ch \<in> set (l_children l). length ch = 32 \<and> view s ch \<noteq> None \<Longrightarrow>
      view s (layer_hash sha l) \<in> {None, Some l} \<Longrightarrow>
      \<exists>s'. save_layer M l s = Inr s' \<and> ok s' \<and> view s' = (view s)(layer_hash sha l \<mapsto> l)"
    and bounded: "ok s \<Longrightarrow> finite (dom (view s))"
    and children_hashes: "ok s \<Longrightarrow> view s h = Some l \<Longrightarrow> ch \<in> set (l_children l) \<Longrightarrow> length ch = 32"
begin

lemma missing_children_view:
  assumes "content_world sha C" "ok s"
  shows "missing_children sha M s cs = Inr (filter (\<lambda>c. view s (contents_hash sha c) = None) cs)"
proof -
  have len: "length (contents_hash sha c) = 32" for c
    using assms(1) by (simp add: content_world_def contents_hash_def)
  show ?thesis using assms(2) by (induction cs) (simp_all add: has len)
qed

end

text \<open>The stack of work items: a layer that waits for its children finds each of them stored or above
  it on the stack.\<close>

fun stack_ok :: "(bytes \<Rightarrow> hash) \<Rightarrow> (hash \<Rightarrow> layer option) \<Rightarrow> contents set \<Rightarrow> (contents \<times> bool) list \<Rightarrow> bool" where
  "stack_ok sha v A [] = True"
| "stack_ok sha v A ((c, check) # ws) \<longleftrightarrow>
     (check \<or> (\<forall>ch \<in> set (c_children c). v (contents_hash sha ch) \<noteq> None \<or> ch \<in> A)) \<and>
     stack_ok sha v (insert c A) ws"

lemma stack_ok_mono:
  "stack_ok sha v A ws \<Longrightarrow> \<forall>h. v h \<noteq> None \<longrightarrow> v' h \<noteq> None \<Longrightarrow>
     \<forall>c \<in> A. c \<in> B \<or> v' (contents_hash sha c) \<noteq> None \<Longrightarrow> stack_ok sha v' B ws"
proof (induction ws arbitrary: A B)
  case (Cons w ws)
  obtain c check where "w = (c, check)" by fastforce
  moreover have "stack_ok sha v' (insert c B) ws" if "stack_ok sha v (insert c A) ws"
    by (rule Cons.IH [OF that Cons.prems(2)]) (use Cons.prems(3) in auto)
  ultimately show ?case using Cons.prems by auto
qed simp

lemma stack_ok_push:
  "stack_ok sha v (A \<union> set cs) ws \<Longrightarrow> stack_ok sha v A (map (\<lambda>c. (c, True)) cs @ ws)"
proof (induction cs arbitrary: A)
  case (Cons c cs)
  have "insert c A \<union> set cs = A \<union> set (c # cs)" by auto
  then show ?case using Cons.IH [of "insert c A"] Cons.prems by simp
qed simp

context merkle_backend
begin

lemma save_loop_stores:
  assumes C: "content_world sha C"
  shows "ok s \<Longrightarrow> good_view sha C (view s) \<Longrightarrow> fst ` set work \<subseteq> C \<Longrightarrow> \<forall>h \<in> set saved. view s h \<noteq> None \<Longrightarrow>
    stack_ok sha (view s) {} work \<Longrightarrow>
    \<exists>s'. save_loop sha M work saved s = Inr s' \<and> ok s' \<and> good_view sha C (view s') \<and>
      view s \<subseteq>\<^sub>m view s' \<and> (\<forall>(c, b) \<in> set work. view s' (contents_hash sha c) \<noteq> None)"
proof (induction "work_weight work" arbitrary: work saved s rule: less_induct)
  case less
  show ?case
  proof (cases work)
    case (Cons w rest)
    obtain c check where w: "w = (c, check)" by fastforce
    have c: "c \<in> C" and rest: "fst ` set rest \<subseteq> C" using less.prems(3) Cons w by auto
    show ?thesis
    proof (cases check)
      case True
      define ms where "ms = filter (\<lambda>d. view s (contents_hash sha d) = None) (c_children c)"
      have m: "missing_children sha M s (c_children c) = Inr ms"
        unfolding ms_def by (rule missing_children_view [OF C less.prems(1)])
      let ?work = "rev (map (\<lambda>m. (m, True)) ms) @ (c, False) # rest"
      have "\<exists>s'. save_loop sha M ?work saved s = Inr s' \<and> ok s' \<and> good_view sha C (view s') \<and>
          view s \<subseteq>\<^sub>m view s' \<and> (\<forall>(c, b) \<in> set ?work. view s' (contents_hash sha c) \<noteq> None)"
      proof (rule less.hyps)
        show "work_weight ?work < work_weight work"
          using missing_lighter [OF m] Cons w True by simp
        show "fst ` set ?work \<subseteq> C"
          using c rest child_in_world [OF C c] by (auto simp: ms_def)
        have "stack_ok sha (view s) {c} rest" using less.prems(5) Cons w by simp
        then have "stack_ok sha (view s) (insert c (set ms)) rest" by (rule stack_ok_mono) auto
        then have "stack_ok sha (view s) (set (rev ms)) ((c, False) # rest)" by (auto simp: ms_def)
        then show "stack_ok sha (view s) {} ?work"
          using stack_ok_push [of sha "view s" "{}" "rev ms"] by (simp add: rev_map)
      qed (use less.prems in auto)
      moreover have "save_loop sha M work saved s = save_loop sha M ?work saved s"
        using Cons w True m by simp
      ultimately show ?thesis using Cons w by auto
    next
      case False
      have ok_rest: "stack_ok sha (view s) {c} rest"
        and children: "\<forall>ch \<in> set (c_children c). view s (contents_hash sha ch) \<noteq> None"
        using less.prems(5) Cons w False by simp_all
      have lighter: "work_weight rest < work_weight work" using Cons w False by simp
      show ?thesis
      proof (cases "contents_hash sha c \<in> set saved")
        case True
        then have st: "view s (contents_hash sha c) \<noteq> None" using less.prems(4) by blast
        have "stack_ok sha (view s) {} rest" using ok_rest by (rule stack_ok_mono) (use st in auto)
        from less.hyps [OF lighter less.prems(1,2) rest less.prems(4) this] obtain s' where
          s': "save_loop sha M rest saved s = Inr s'" "ok s'" "good_view sha C (view s')" "view s \<subseteq>\<^sub>m view s'"
            "\<forall>(c, b) \<in> set rest. view s' (contents_hash sha c) \<noteq> None" by blast
        then have "view s' (contents_hash sha c) \<noteq> None" using st by (metis domIff map_le_implies_dom_le subsetD)
        then show ?thesis using s' Cons w False True by auto
      next
        case False
        note unsaved = this
        have len: "length (contents_hash sha d) = 32" for d
          using C by (simp add: content_world_def contents_hash_def)
        have lh: "layer_hash sha (layer_of sha c) = contents_hash sha c"
          by (simp add: layer_hash_def layer_of_def contents_hash_def)
        have old: "view s (contents_hash sha c) \<in> {None, Some (layer_of sha c)}"
          using stored_layer [OF C less.prems(2) c] by (cases "view s (contents_hash sha c)") simp_all
        obtain s1 where s1: "save_layer M (layer_of sha c) s = Inr s1" "ok s1"
            "view s1 = (view s)(contents_hash sha c \<mapsto> layer_of sha c)"
          using save [OF less.prems(1), of "layer_of sha c"] children old len lh by (auto simp: layer_of_def)
        have le: "view s \<subseteq>\<^sub>m view s1" using old s1(3) by (auto simp: map_le_def)
        have good: "good_view sha C (view s1)"
          unfolding s1(3) by (rule good_view_add [OF C less.prems(2) c children])
        have grown: "\<forall>h. view s h \<noteq> None \<longrightarrow> view s1 h \<noteq> None" using s1(3) by simp
        have "stack_ok sha (view s1) {} rest"
          using ok_rest grown by (rule stack_ok_mono) (use s1(3) in auto)
        moreover have "\<forall>h \<in> set (contents_hash sha c # saved). view s1 h \<noteq> None"
          using less.prems(4) grown s1(3) by auto
        ultimately obtain s' where
          s': "save_loop sha M rest (contents_hash sha c # saved) s1 = Inr s'" "ok s'" "good_view sha C (view s')"
            "view s1 \<subseteq>\<^sub>m view s'" "\<forall>(c, b) \<in> set rest. view s' (contents_hash sha c) \<noteq> None"
          using less.hyps [OF lighter s1(2) good rest] by blast
        have "view s' (contents_hash sha c) \<noteq> None"
          using s'(4) s1(3) by (metis domIff fun_upd_same map_le_implies_dom_le option.distinct(1) subsetD)
        moreover have "view s \<subseteq>\<^sub>m view s'" using le s'(4) by (rule map_le_trans)
        ultimately show ?thesis using s' s1(1) Cons w \<open>\<not> check\<close> unsaved by auto
      qed
    qed
  qed (use less.prems in auto)
qed

lemma save_stores:
  assumes C: "content_world sha C" and "ok s" "good_view sha C (view s)" "c \<in> C"
  shows "\<exists>s'. save_merkle_contents sha M c s = Inr s' \<and> ok s' \<and> good_view sha C (view s') \<and>
    view s \<subseteq>\<^sub>m view s' \<and> present sha (view s') c"
proof -
  have len: "length (contents_hash sha c) = 32"
    using C by (simp add: content_world_def contents_hash_def)
  show ?thesis
  proof (cases "view s (contents_hash sha c) = None")
    case True
    have "\<exists>s'. save_loop sha M [(c, True)] [] s = Inr s' \<and> ok s' \<and> good_view sha C (view s') \<and>
      view s \<subseteq>\<^sub>m view s' \<and> (\<forall>(c, b) \<in> set [(c, True)]. view s' (contents_hash sha c) \<noteq> None)"
      by (rule save_loop_stores [OF C]) (use assms in auto)
    then show ?thesis
      using True has [OF assms(2) len] stored_present [OF C _ assms(4)] by (fastforce simp: save_merkle_contents_def)
  next
    case False
    then show ?thesis
      using has [OF assms(2) len] stored_present [OF C assms(3,4)] assms by (auto simp: save_merkle_contents_def)
  qed
qed

end

section \<open>The search for layers\<close>

definition done_child :: "(hash \<Rightarrow> contents option) \<Rightarrow> load_state \<Rightarrow> hash \<Rightarrow> contents option" where
  "done_child cached st ch = (case cached ch of Some c \<Rightarrow> Some c | None \<Rightarrow> om_get (ld_all st) ch)"

definition waits_in :: "load_state \<Rightarrow> hash \<Rightarrow> hash \<Rightarrow> bool" where
  "waits_in st h ch \<longleftrightarrow> (\<exists>ws. om_get (ld_reverses st) ch = Some ws \<and> h \<in> set ws)"

lemma gather_complete:
  "\<forall>ch \<in> set chs. done_child cached st ch \<noteq> None \<Longrightarrow>
     gather_children cached h chs st = (map (\<lambda>ch. the (done_child cached st ch)) chs, st)"
  by (induction chs) (auto simp: done_child_def split: option.splits)

lemma gather_frame:
  "gather_children cached h chs st = (cs, st1) \<Longrightarrow>
     ld_layers st1 = ld_layers st \<and> ld_all st1 = ld_all st \<and> ld_process st1 = ld_process st \<and>
     set (ld_needed st) \<subseteq> set (ld_needed st1) \<and>
     (\<forall>x \<in> set (ld_needed st1). x \<in> set (ld_needed st) \<or>
        x \<in> set chs \<and> done_child cached st x = None \<and> om_get (ld_layers st) x = None \<and> waits_in st1 h x) \<and>
     (\<forall>w ch. waits_in st w ch \<longrightarrow> waits_in st1 w ch) \<and>
     (\<forall>w ch. waits_in st1 w ch \<longrightarrow> waits_in st w ch \<or> w = h) \<and>
     (\<forall>ch. om_get (ld_reverses st) ch \<noteq> None \<longrightarrow> om_get (ld_reverses st1) ch \<noteq> None) \<and>
     (\<forall>ch \<in> set chs. done_child cached st ch = None \<longrightarrow>
        waits_in st1 h ch \<and> (om_get (ld_layers st) ch \<noteq> None \<or> ch \<in> set (ld_needed st1))) \<and>
     length cs \<le> length chs \<and>
     (length cs = length chs \<longrightarrow> (\<forall>ch \<in> set chs. done_child cached st ch \<noteq> None))"
proof (induction chs arbitrary: st cs st1)
  case (Cons ch chs)
  show ?case
  proof (cases "done_child cached st ch")
    case None
    then have n: "cached ch = None" "om_get (ld_all st) ch = None"
      by (auto simp: done_child_def split: option.splits)
    let ?ws = "case om_get (ld_reverses st) ch of None \<Rightarrow> [] | Some ws \<Rightarrow> ws"
    define st0 where "st0 = st\<lparr>ld_needed := (if om_contains (ld_layers st) ch then ld_needed st else ld_needed st @ [ch]),
      ld_reverses := om_insert ch (os_insert h ?ws) (ld_reverses st)\<rparr>"
    have g: "gather_children cached h chs st0 = (cs, st1)"
      using Cons.prems n by (simp add: st0_def Let_def)
    note IH = Cons.IH [OF g]
    have same: "ld_layers st0 = ld_layers st" "ld_all st0 = ld_all st" "ld_process st0 = ld_process st"
      "\<And>x. done_child cached st0 x = done_child cached st x"
      by (simp_all add: st0_def done_child_def split: option.split)
    have needed0: "set (ld_needed st0) = (if om_contains (ld_layers st) ch then set (ld_needed st) else insert ch (set (ld_needed st)))"
      by (simp add: st0_def)
    have waits0: "waits_in st0 w x \<longleftrightarrow> waits_in st w x \<or> w = h \<and> x = ch" for w x
      by (cases "om_get (ld_reverses st) ch") (auto simp: waits_in_def st0_def)
    have rev0: "om_get (ld_reverses st) x \<noteq> None \<longrightarrow> om_get (ld_reverses st0) x \<noteq> None" for x
      by (simp add: st0_def)
    have wch: "waits_in st1 h ch" using IH waits0 by blast
    have IHs: "ld_layers st1 = ld_layers st" "ld_all st1 = ld_all st" "ld_process st1 = ld_process st"
        "set (ld_needed st0) \<subseteq> set (ld_needed st1)"
        "\<And>x. x \<in> set (ld_needed st1) \<Longrightarrow> x \<in> set (ld_needed st0) \<or>
          x \<in> set chs \<and> done_child cached st x = None \<and> om_get (ld_layers st) x = None \<and> waits_in st1 h x"
        "\<And>w x. waits_in st0 w x \<Longrightarrow> waits_in st1 w x"
        "\<And>w x. waits_in st1 w x \<Longrightarrow> waits_in st0 w x \<or> w = h"
        "\<And>x. om_get (ld_reverses st0) x \<noteq> None \<Longrightarrow> om_get (ld_reverses st1) x \<noteq> None"
        "\<And>x. x \<in> set chs \<Longrightarrow> done_child cached st x = None \<Longrightarrow>
          waits_in st1 h x \<and> (om_get (ld_layers st) x \<noteq> None \<or> x \<in> set (ld_needed st1))"
        "length cs \<le> length chs"
      using IH unfolding same by blast+
    show ?thesis
    proof (intro conjI)
      show "set (ld_needed st) \<subseteq> set (ld_needed st1)" using IHs(4) needed0 by (auto split: if_splits)
      show "\<forall>x \<in> set (ld_needed st1). x \<in> set (ld_needed st) \<or>
          x \<in> set (ch # chs) \<and> done_child cached st x = None \<and> om_get (ld_layers st) x = None \<and> waits_in st1 h x"
      proof
        fix x assume "x \<in> set (ld_needed st1)"
        then consider "x \<in> set (ld_needed st)" | "x = ch" "om_get (ld_layers st) x = None"
          | "x \<in> set chs \<and> done_child cached st x = None \<and> om_get (ld_layers st) x = None \<and> waits_in st1 h x"
          using IHs(5) needed0 by (auto simp: om_contains_def split: if_splits)
        then show "x \<in> set (ld_needed st) \<or>
          x \<in> set (ch # chs) \<and> done_child cached st x = None \<and> om_get (ld_layers st) x = None \<and> waits_in st1 h x"
          using None wch by cases auto
      qed
      show "\<forall>w x. waits_in st w x \<longrightarrow> waits_in st1 w x" using IHs(6) waits0 by blast
      show "\<forall>w x. waits_in st1 w x \<longrightarrow> waits_in st w x \<or> w = h" using IHs(7) waits0 by blast
      show "\<forall>x. om_get (ld_reverses st) x \<noteq> None \<longrightarrow> om_get (ld_reverses st1) x \<noteq> None"
        using IHs(8) rev0 by blast
      have "om_get (ld_layers st) ch \<noteq> None \<or> ch \<in> set (ld_needed st1)"
        using IHs(4) needed0 by (auto simp: om_contains_def split: if_splits)
      then show "\<forall>x \<in> set (ch # chs). done_child cached st x = None \<longrightarrow>
          waits_in st1 h x \<and> (om_get (ld_layers st) x \<noteq> None \<or> x \<in> set (ld_needed st1))"
        using IHs(9) wch by auto
    qed (use IHs(1,2,3,10) in auto)
  next
    case (Some c)
    then obtain cs' where g: "gather_children cached h chs st = (cs', st1)" "cs = c # cs'"
      using Cons.prems by (auto simp: done_child_def split: option.splits prod.splits)
    show ?thesis using Cons.IH [OF g(1)] g(2) Some by auto
  qed
qed auto

lemma wake_frame:
  "ld_layers (wake ws st) = ld_layers st" "ld_all (wake ws st) = ld_all st"
  "ld_reverses (wake ws st) = ld_reverses st" "ld_needed (wake ws st) = ld_needed st"
  "set (ld_process (wake ws st)) = set (ld_process st) \<union> {w \<in> set ws. om_get (ld_all st) w = None}"
  "os_wf (ld_process st) \<Longrightarrow> os_wf (ld_process (wake ws st))"
proof (induction ws arbitrary: st)
  case (Cons w ws)
  {
    case 5
    then show ?case using Cons(5) by (auto simp: wake_def om_contains_def)
  next
    case 6
    then show ?case using Cons(6) by (simp add: wake_def os_wf_insert)
  }
qed (simp_all add: wake_def)

lemma load_by_hashes_view:
  assumes "\<And>h. h \<in> set hs \<Longrightarrow> load_layer M s h = Inr (v h)"
  shows "\<exists>d. load_by_hashes M s hs dest = Inr d \<and>
    (\<forall>h. om_get d h = (if h \<in> set hs \<and> v h \<noteq> None then v h else om_get dest h))"
  using assms unfolding load_by_hashes_def
proof (induction hs arbitrary: dest)
  case (Cons h hs)
  have h: "load_layer M s h = Inr (v h)" using Cons.prems by simp
  let ?dest = "case v h of None \<Rightarrow> dest | Some l \<Rightarrow> om_insert h l dest"
  obtain d where d: "rfold (\<lambda>h d. rbind (load_layer M s h) (\<lambda>x. case x of None \<Rightarrow> Inr d | Some l \<Rightarrow> Inr (om_insert h l d))) hs ?dest = Inr d"
    "\<forall>x. om_get d x = (if x \<in> set hs \<and> v x \<noteq> None then v x else om_get ?dest x)"
    using Cons.IH [of ?dest] Cons.prems by auto
  have "rfold (\<lambda>h d. rbind (load_layer M s h) (\<lambda>x. case x of None \<Rightarrow> Inr d | Some l \<Rightarrow> Inr (om_insert h l d))) (h # hs) dest = Inr d"
    using d(1) h by (cases "v h") simp_all
  moreover have "om_get d x = (if x \<in> set (h # hs) \<and> v x \<noteq> None then v x else om_get dest x)" for x
    using d(2) by (cases "v h") auto
  ultimately show ?case by blast
qed simp

text \<open>What holds of the state between steps, whatever the store contains.\<close>

definition load_inv :: "(hash \<Rightarrow> layer option) \<Rightarrow> load_state \<Rightarrow> bool" where
  "load_inv v st \<longleftrightarrow>
     (\<forall>h l. om_get (ld_layers st) h = Some l \<longrightarrow> v h = Some l) \<and>
     (\<forall>h \<in> set (ld_needed st). length h = 32 \<and> om_get (ld_layers st) h = None) \<and>
     (\<forall>h. om_get (ld_all st) h \<noteq> None \<longrightarrow> om_get (ld_layers st) h \<noteq> None) \<and>
     os_wf (ld_process st) \<and>
     (\<forall>h \<in> set (ld_process st). om_get (ld_layers st) h \<noteq> None \<and> om_get (ld_all st) h = None) \<and>
     (\<forall>w ch. waits_in st w ch \<longrightarrow> om_get (ld_layers st) w \<noteq> None)"

lemma load_invI:
  assumes "\<And>h l. om_get (ld_layers st) h = Some l \<Longrightarrow> v h = Some l"
    and "\<And>h. h \<in> set (ld_needed st) \<Longrightarrow> length h = 32 \<and> om_get (ld_layers st) h = None"
    and "\<And>h. om_get (ld_all st) h \<noteq> None \<Longrightarrow> om_get (ld_layers st) h \<noteq> None"
    and "os_wf (ld_process st)"
    and "\<And>h. h \<in> set (ld_process st) \<Longrightarrow> om_get (ld_layers st) h \<noteq> None \<and> om_get (ld_all st) h = None"
    and "\<And>w ch. waits_in st w ch \<Longrightarrow> om_get (ld_layers st) w \<noteq> None"
  shows "load_inv v st"
  using assms unfolding load_inv_def by blast

lemma load_invD:
  assumes "load_inv v st"
  shows "om_get (ld_layers st) h = Some l \<Longrightarrow> v h = Some l"
    and "h \<in> set (ld_needed st) \<Longrightarrow> length h = 32 \<and> om_get (ld_layers st) h = None"
    and "om_get (ld_all st) h \<noteq> None \<Longrightarrow> om_get (ld_layers st) h \<noteq> None"
    and "os_wf (ld_process st)"
    and "h \<in> set (ld_process st) \<Longrightarrow> om_get (ld_layers st) h \<noteq> None \<and> om_get (ld_all st) h = None"
    and "waits_in st w ch \<Longrightarrow> om_get (ld_layers st) w \<noteq> None"
  using assms unfolding load_inv_def by blast+

definition load_rank :: "(hash \<Rightarrow> layer option) \<Rightarrow> load_state \<Rightarrow> nat \<times> nat \<times> nat" where
  "load_rank v st = (card {h \<in> dom v. om_get (ld_layers st) h = None},
     card {h \<in> dom v. om_get (ld_all st) h = None}, length (ld_process st))"

definition rank_less :: "((nat \<times> nat \<times> nat) \<times> (nat \<times> nat \<times> nat)) set" where
  "rank_less = less_than <*lex*> (less_than <*lex*> less_than)"

lemma wf_rank_less: "wf rank_less"
  by (simp add: rank_less_def wf_lex_prod)

text \<open>The two kinds of step, spelled out.\<close>

lemma os_wf_tail: "os_wf (h # hs) \<Longrightarrow> os_wf hs \<and> h \<notin> set hs"
  by (auto simp: os_wf_iff)

lemma process_step:
  assumes inv: "load_inv v st" and p: "ld_process st = h # hs"
    and len: "\<And>h l ch. v h = Some l \<Longrightarrow> ch \<in> set (l_children l) \<Longrightarrow> length ch = 32"
    and fin: "finite (dom v)"
    and n: "process_layer cached orig h (st\<lparr>ld_process := hs\<rparr>) = Next st'"
  shows "load_inv v st' \<and> (load_rank v st', load_rank v st) \<in> rank_less"
proof -
  let ?st = "st\<lparr>ld_process := hs\<rparr>"
  have hs: "os_wf hs" "h \<notin> set hs" using inv p os_wf_tail by (metis load_inv_def)+
  have h: "om_get (ld_layers st) h \<noteq> None" "om_get (ld_all st) h = None"
    using inv p unfolding load_inv_def by auto
  from h(1) obtain l where l: "om_get (ld_layers st) h = Some l" by blast
  then have vh: "v h = Some l" using inv unfolding load_inv_def by blast
  obtain cs st1 where g: "gather_children cached h (l_children l) ?st = (cs, st1)" by fastforce
  note G = gather_frame [OF g]
  have same: "ld_layers st1 = ld_layers st" "ld_all st1 = ld_all st" "ld_process st1 = hs" using G by simp_all
  have needed1: "x \<in> set (ld_needed st) \<or> x \<in> set (l_children l) \<and> om_get (ld_layers st) x = None"
    if "x \<in> set (ld_needed st1)" for x using G that by auto
  have waits1: "waits_in st w ch \<or> w = h" if "waits_in st1 w ch" for w ch
    using G that by (auto simp: waits_in_def)
  have inv1: "load_inv v st1"
  proof (rule load_invI)
    fix x assume "x \<in> set (ld_needed st1)"
    then show "length x = 32 \<and> om_get (ld_layers st1) x = None"
      using needed1 len [OF vh] load_invD(2) [OF inv] same by metis
  next
    fix w ch assume "waits_in st1 w ch"
    then show "om_get (ld_layers st1) w \<noteq> None"
      using waits1 load_invD(6) [OF inv] same h(1) by metis
  qed (use load_invD [OF inv] p same hs in auto)
  show ?thesis
  proof (cases "length cs = length (l_children l)")
    case False
    then have st': "st' = st1" using n l g by (simp add: process_layer_def)
    have "load_rank v st' = (fst (load_rank v st), fst (snd (load_rank v st)), length hs)"
      using G by (simp add: st' load_rank_def)
    then show ?thesis using inv1 st' p by (simp add: rank_less_def load_rank_def)
  next
    case True
    then obtain ws where ws: "om_get (ld_reverses st1) h = Some ws"
      and st': "st' = wake ws (st1\<lparr>ld_all := om_insert h (Contents (l_payload l) cs) (ld_all st1), ld_reverses := om_remove h (ld_reverses st1)\<rparr>)"
      using n l g by (auto simp: process_layer_def Let_def split: if_splits option.splits)
    have ws_in: "om_get (ld_layers st1) w \<noteq> None" if "w \<in> set ws" for w
      using inv1 ws that unfolding load_inv_def waits_in_def by blast
    have "load_inv v st'"
    proof (rule load_invI)
      show "os_wf (ld_process st')" using same hs by (simp add: st' wake_frame)
      fix w ch assume "waits_in st' w ch"
      then have "waits_in st1 w ch" by (auto simp: st' wake_frame waits_in_def split: if_splits)
      then show "om_get (ld_layers st') w \<noteq> None" using load_invD(6) [OF inv1] by (simp add: st' wake_frame)
    next
      fix x assume "x \<in> set (ld_process st')"
      then have "x \<in> set hs \<or> x \<in> set ws \<and> x \<noteq> h \<and> om_get (ld_all st1) x = None"
        using same by (auto simp: st' wake_frame split: if_splits)
      then show "om_get (ld_layers st') x \<noteq> None \<and> om_get (ld_all st') x = None"
        using load_invD(5) [OF inv1, of x] ws_in [of x] hs(2) same by (auto simp: st' wake_frame)
    next
      show "om_get (ld_layers st') x = Some l' \<Longrightarrow> v x = Some l'" for x l'
        using load_invD(1) [OF inv1] by (simp add: st' wake_frame)
      show "x \<in> set (ld_needed st') \<Longrightarrow> length x = 32 \<and> om_get (ld_layers st') x = None" for x
        using load_invD(2) [OF inv1] by (simp add: st' wake_frame)
      show "om_get (ld_all st') x \<noteq> None \<Longrightarrow> om_get (ld_layers st') x \<noteq> None" for x
        using load_invD(3) [OF inv1, of x] h(1) same by (auto simp: st' wake_frame split: if_splits)
    qed
    moreover have fewer: "{x \<in> dom v. om_get (ld_all st') x = None} = {x \<in> dom v. om_get (ld_all st) x = None} - {h}"
      using same by (auto simp: st' wake_frame)
    have "card {x \<in> dom v. om_get (ld_all st') x = None} < card {x \<in> dom v. om_get (ld_all st) x = None}"
      unfolding fewer by (rule card_Diff1_less) (use fin vh h(2) in auto)
    moreover have "ld_layers st' = ld_layers st" using same by (simp add: st' wake_frame)
    ultimately show ?thesis by (simp add: rank_less_def load_rank_def)
  qed
qed

lemma round_step:
  assumes inv: "load_inv v st" and p: "ld_process st = []" "ld_needed st \<noteq> []"
    and load: "\<And>h. length h = 32 \<Longrightarrow> load_layer M s h = Inr (v h)"
    and fin: "finite (dom v)"
    and n: "load_round M s st = Next st'"
  shows "load_inv v st' \<and> (load_rank v st', load_rank v st) \<in> rank_less"
proof -
  have len: "length h = 32 \<and> om_get (ld_layers st) h = None" if "h \<in> set (ld_needed st)" for h
    using inv that unfolding load_inv_def by blast
  obtain d where d: "load_by_hashes M s (ld_needed st) (ld_layers st) = Inr d"
    "\<And>h. om_get d h = (if h \<in> set (ld_needed st) \<and> v h \<noteq> None then v h else om_get (ld_layers st) h)"
    using load_by_hashes_view [of "ld_needed st" M s v "ld_layers st"] load len by blast
  have found: "v h \<noteq> None" if "h \<in> set (ld_needed st)" for h
    using n d that len [OF that] by (auto simp: load_round_def Let_def om_contains_def filter_empty_conv split: if_splits)
  have st': "st' = st\<lparr>ld_layers := d, ld_needed := [], ld_process := os_of_list (ld_needed st)\<rparr>"
    using n d by (auto simp: load_round_def Let_def split: if_splits)
  have layers: "om_get d h = (if h \<in> set (ld_needed st) then v h else om_get (ld_layers st) h)" for h
    using d(2) found by simp
  have all: "om_get (ld_all st) h = None" if "h \<in> set (ld_needed st)" for h
    using inv len [OF that] unfolding load_inv_def by blast
  have "load_inv v st'"
    using inv found all unfolding st' load_inv_def
    by (auto simp: layers set_os_of_list os_wf_of_list waits_in_def)
  moreover obtain h where h: "h \<in> set (ld_needed st)" using p(2) by (cases "ld_needed st") auto
  have "{x \<in> dom v. om_get (ld_layers st') x = None} \<subset> {x \<in> dom v. om_get (ld_layers st) x = None}"
    using h found [OF h] len [OF h] by (auto simp: st' layers split: if_splits)
  then have "card {x \<in> dom v. om_get (ld_layers st') x = None} < card {x \<in> dom v. om_get (ld_layers st) x = None}"
    using fin by (auto intro!: psubset_card_mono)
  ultimately show ?thesis by (simp add: rank_less_def load_rank_def)
qed

context merkle_backend
begin

lemma load_step_inv:
  assumes "ok s" "load_inv (view s) st" "load_step cached M s orig st = Next st'"
  shows "load_inv (view s) st' \<and> (load_rank (view s) st', load_rank (view s) st) \<in> rank_less"
proof (cases "ld_process st")
  case Nil
  then show ?thesis
    using assms round_step [OF assms(2) Nil _ load [OF assms(1)] bounded [OF assms(1)]]
    by (auto simp: load_step_def split: if_splits)
next
  case (Cons h hs)
  then show ?thesis
    using assms process_step [OF assms(2) Cons children_hashes [OF assms(1)] bounded [OF assms(1)]]
    by (simp add: load_step_def)
qed

text \<open>The search ends, with a property that every step keeps.\<close>

lemma load_loop_rule:
  assumes "ok s" "load_inv (view s) st" "P st"
    and keeps: "\<And>st st'. load_inv (view s) st \<Longrightarrow> P st \<Longrightarrow> load_step cached M s orig st = Next st' \<Longrightarrow> P st'"
    and ends: "\<And>st r. load_inv (view s) st \<Longrightarrow> P st \<Longrightarrow> load_step cached M s orig st = Done r \<Longrightarrow> Q r"
  shows "\<exists>r. load_loop cached M s orig st = Some r \<and> Q r"
  using assms(2,3)
proof (induction "load_rank (view s) st" arbitrary: st rule: wf_induct_rule [OF wf_rank_less])
  case 1
  show ?case
  proof (cases "load_step cached M s orig st")
    case (Done r)
    then show ?thesis using ends [OF 1(2,3) Done] by (simp add: load_loop.simps)
  next
    case (Next st')
    have "\<exists>r. load_loop cached M s orig st' = Some r \<and> Q r"
      using 1(1) load_step_inv [OF assms(1) 1(2) Next] keeps [OF 1(2,3) Next] by blast
    then show ?thesis using Next by (simp add: load_loop.simps [of _ _ _ _ st])
  qed
qed

lemma load_init_inv: "length h = 32 \<Longrightarrow> load_inv v (load_init h)"
  by (simp add: load_inv_def load_init_def waits_in_def os_wf_def)

lemma load_returns: "ok s \<Longrightarrow> length h = 32 \<Longrightarrow> \<exists>r. load_merkle_contents cached M s h = Some r"
  using load_loop_rule [where P = "\<lambda>_. True" and Q = "\<lambda>_. True" and st = "load_init h"] load_init_inv
  by (auto simp: load_merkle_contents_def split: option.split)

end

section \<open>The search finds what is there\<close>

text \<open>A value is available when each of its layers is stored or comes from the contents cache.\<close>

inductive available :: "(bytes \<Rightarrow> hash) \<Rightarrow> (hash \<Rightarrow> layer option) \<Rightarrow> (hash \<Rightarrow> contents option) \<Rightarrow> contents \<Rightarrow> bool" where
  available_cached: "cached (contents_hash sha c) = Some c \<Longrightarrow> available sha v cached c"
| available_stored: "v (contents_hash sha c) = Some (layer_of sha c) \<Longrightarrow>
     (\<And>ch. ch \<in> set (c_children c) \<Longrightarrow> available sha v cached ch) \<Longrightarrow> available sha v cached c"

definition cache_ok :: "(bytes \<Rightarrow> hash) \<Rightarrow> contents set \<Rightarrow> (hash \<Rightarrow> contents option) \<Rightarrow> bool" where
  "cache_ok sha C cached \<longleftrightarrow> (\<forall>h c. cached h = Some c \<longrightarrow> c \<in> C \<and> contents_hash sha c = h)"

lemma present_available: "present sha v c \<Longrightarrow> available sha v cached c"
  by (induction rule: present.induct) (rule available_stored)

text \<open>\<open>node\<close>: this hash is one the search has to visit, and it stands for \<open>d\<close>.\<close>

definition search_node ::
  "(bytes \<Rightarrow> hash) \<Rightarrow> contents set \<Rightarrow> (hash \<Rightarrow> layer option) \<Rightarrow> (hash \<Rightarrow> contents option) \<Rightarrow> hash \<Rightarrow> contents \<Rightarrow> bool" where
  "search_node sha C v cached h d \<longleftrightarrow>
     d \<in> C \<and> contents_hash sha d = h \<and> available sha v cached d \<and> cached h = None"

lemma search_node_stored: "search_node sha C v cached h d \<Longrightarrow> v h = Some (layer_of sha d)"
  unfolding search_node_def by (auto elim: available.cases)

lemma search_node_child:
  assumes "content_world sha C" "search_node sha C v cached h d"
    and "ch \<in> set (l_children (layer_of sha d))" "cached ch = None"
  shows "\<exists>e \<in> set (c_children d). search_node sha C v cached ch e"
proof -
  obtain e where e: "e \<in> set (c_children d)" "contents_hash sha e = ch"
    using assms(3) by (auto simp: layer_of_def)
  have "available sha v cached e"
    using assms(2) e(1) unfolding search_node_def by (auto elim: available.cases)
  then show ?thesis
    using e assms(1,2,4) child_in_world [of sha C d e] by (auto simp: search_node_def)
qed

definition search_inv ::
  "(bytes \<Rightarrow> hash) \<Rightarrow> contents set \<Rightarrow> (hash \<Rightarrow> layer option) \<Rightarrow> (hash \<Rightarrow> contents option) \<Rightarrow> hash \<Rightarrow> load_state \<Rightarrow> bool" where
  "search_inv sha C v cached orig st \<longleftrightarrow>
     (\<forall>h l. om_get (ld_layers st) h = Some l \<longrightarrow> (\<exists>d. search_node sha C v cached h d \<and> l = layer_of sha d)) \<and>
     (\<forall>h \<in> set (ld_needed st). \<exists>d. search_node sha C v cached h d) \<and>
     (\<forall>h c. om_get (ld_all st) h = Some c \<longrightarrow> c \<in> C \<and> contents_hash sha c = h \<and> h \<noteq> orig) \<and>
     (\<forall>h l. om_get (ld_layers st) h = Some l \<longrightarrow> om_get (ld_all st) h = None \<longrightarrow> h \<notin> set (ld_process st) \<longrightarrow>
        (\<exists>ch \<in> set (l_children l). done_child cached st ch = None \<and> waits_in st h ch \<and>
           (om_get (ld_layers st) ch \<noteq> None \<or> ch \<in> set (ld_needed st)))) \<and>
     (\<forall>h. om_get (ld_layers st) h \<noteq> None \<or> h \<in> set (ld_needed st) \<longrightarrow> h \<noteq> orig \<longrightarrow> om_get (ld_all st) h = None \<longrightarrow>
        om_get (ld_reverses st) h \<noteq> None) \<and>
     (om_get (ld_layers st) orig \<noteq> None \<or> orig \<in> set (ld_needed st))"

lemma search_invI:
  assumes "\<And>h l. om_get (ld_layers st) h = Some l \<Longrightarrow> \<exists>d. search_node sha C v cached h d \<and> l = layer_of sha d"
    and "\<And>h. h \<in> set (ld_needed st) \<Longrightarrow> \<exists>d. search_node sha C v cached h d"
    and "\<And>h c. om_get (ld_all st) h = Some c \<Longrightarrow> c \<in> C \<and> contents_hash sha c = h \<and> h \<noteq> orig"
    and "\<And>h l. om_get (ld_layers st) h = Some l \<Longrightarrow> om_get (ld_all st) h = None \<Longrightarrow> h \<notin> set (ld_process st) \<Longrightarrow>
      \<exists>ch \<in> set (l_children l). done_child cached st ch = None \<and> waits_in st h ch \<and>
        (om_get (ld_layers st) ch \<noteq> None \<or> ch \<in> set (ld_needed st))"
    and "\<And>h. om_get (ld_layers st) h \<noteq> None \<or> h \<in> set (ld_needed st) \<Longrightarrow> h \<noteq> orig \<Longrightarrow> om_get (ld_all st) h = None \<Longrightarrow>
      om_get (ld_reverses st) h \<noteq> None"
    and "om_get (ld_layers st) orig \<noteq> None \<or> orig \<in> set (ld_needed st)"
  shows "search_inv sha C v cached orig st"
  using assms unfolding search_inv_def by blast

lemma search_invD:
  assumes "search_inv sha C v cached orig st"
  shows "om_get (ld_layers st) h = Some l \<Longrightarrow> \<exists>d. search_node sha C v cached h d \<and> l = layer_of sha d"
    and "h \<in> set (ld_needed st) \<Longrightarrow> \<exists>d. search_node sha C v cached h d"
    and "om_get (ld_all st) h = Some c \<Longrightarrow> c \<in> C \<and> contents_hash sha c = h \<and> h \<noteq> orig"
    and "om_get (ld_layers st) h = Some l \<Longrightarrow> om_get (ld_all st) h = None \<Longrightarrow> h \<notin> set (ld_process st) \<Longrightarrow>
      \<exists>ch \<in> set (l_children l). done_child cached st ch = None \<and> waits_in st h ch \<and>
        (om_get (ld_layers st) ch \<noteq> None \<or> ch \<in> set (ld_needed st))"
    and "om_get (ld_layers st) h \<noteq> None \<or> h \<in> set (ld_needed st) \<Longrightarrow> h \<noteq> orig \<Longrightarrow> om_get (ld_all st) h = None \<Longrightarrow>
      om_get (ld_reverses st) h \<noteq> None"
    and "om_get (ld_layers st) orig \<noteq> None \<or> orig \<in> set (ld_needed st)"
  using assms unfolding search_inv_def by blast+

text \<open>A layer all of whose children are done is complete: it is the contents its hash stands for.\<close>

lemma completed_contents:
  assumes C: "content_world sha C" "cache_ok sha C cached" "search_inv sha C v cached orig st"
    and d: "d \<in> C" and all: "\<forall>ch \<in> set (l_children (layer_of sha d)). done_child cached st ch \<noteq> None"
  shows "Contents (l_payload (layer_of sha d)) (map (\<lambda>ch. the (done_child cached st ch)) (l_children (layer_of sha d))) = d"
proof -
  have "the (done_child cached st (contents_hash sha e)) = e" if e: "e \<in> set (c_children d)" for e
  proof -
    obtain c where c: "done_child cached st (contents_hash sha e) = Some c"
      using all e by (auto simp: layer_of_def)
    then have "c \<in> C \<and> contents_hash sha c = contents_hash sha e"
      using C(2) search_invD(3) [OF C(3)] by (auto simp: done_child_def cache_ok_def split: option.splits)
    then have "c = e" using world_inject [OF C(1)] child_in_world [OF C(1) d e] by blast
    then show ?thesis using c by simp
  qed
  then have "map (\<lambda>ch. the (done_child cached st ch)) (l_children (layer_of sha d)) = c_children d"
    by (simp add: layer_of_def comp_def map_idI)
  then show ?thesis by (simp add: layer_of_def)
qed

text \<open>With nothing left to load or process, the smallest incomplete layer would have to wait for a
  smaller one.\<close>

lemma search_not_stuck:
  assumes C: "content_world sha C" and inv: "search_inv sha C v cached orig st"
    and idle: "ld_process st = []" "ld_needed st = []"
  shows False
proof -
  have stuck: "om_get (ld_layers st) (contents_hash sha d) = None \<or> om_get (ld_all st) (contents_hash sha d) \<noteq> None"
    if "d \<in> C" for d
    using that
  proof (induction d rule: measure_induct_rule [of size])
    case (less d)
    show ?case
    proof (rule ccontr)
      assume "\<not> ?thesis"
      then obtain l where l: "om_get (ld_layers st) (contents_hash sha d) = Some l" "om_get (ld_all st) (contents_hash sha d) = None"
        by auto
      obtain d' where d': "search_node sha C v cached (contents_hash sha d) d'" "l = layer_of sha d'"
        using search_invD(1) [OF inv l(1)] by blast
      then have "d' = d" using world_inject [OF C] less.prems by (simp add: search_node_def)
      obtain ch where ch: "ch \<in> set (l_children l)" "done_child cached st ch = None" "om_get (ld_layers st) ch \<noteq> None"
        using search_invD(4) [OF inv l] idle by auto
      then obtain e where e: "e \<in> set (c_children d)" "contents_hash sha e = ch"
        using d' \<open>d' = d\<close> by (auto simp: layer_of_def)
      have "size e < size d"
        using size_list_estimation' [OF e(1), of "size e" size] by (cases d) (auto simp: less_Suc_eq_le)
      then have "om_get (ld_layers st) ch = None \<or> om_get (ld_all st) ch \<noteq> None"
        using less.IH [of e] child_in_world [OF C less.prems e(1)] unfolding e(2) by blast
      then show False using ch(2,3) by (auto simp: done_child_def split: option.splits)
    qed
  qed
  obtain l where l: "om_get (ld_layers st) orig = Some l" using search_invD(6) [OF inv] idle by auto
  obtain d where "search_node sha C v cached orig d" using search_invD(1) [OF inv l] by blast
  then have "om_get (ld_all st) orig \<noteq> None" using stuck [of d] l by (auto simp: search_node_def)
  then show False using search_invD(3) [OF inv] by blast
qed

lemma done_child_all: "ld_all st' = ld_all st \<Longrightarrow> done_child cached st' ch = done_child cached st ch"
  by (simp add: done_child_def split: option.split)

lemma process_search:
  assumes C: "content_world sha C" "cache_ok sha C cached" and orig: "c0 \<in> C" "contents_hash sha c0 = orig"
    and inv: "load_inv v st" and srch: "search_inv sha C v cached orig st" and p: "ld_process st = h # hs"
  shows "case process_layer cached orig h (st\<lparr>ld_process := hs\<rparr>) of
    Done r \<Rightarrow> r = Inr c0 | Next st' \<Rightarrow> search_inv sha C v cached orig st'"
proof -
  let ?st = "st\<lparr>ld_process := hs\<rparr>"
  have h: "om_get (ld_layers st) h \<noteq> None" "om_get (ld_all st) h = None" "h \<notin> set hs"
    using load_invD(5) [OF inv, of h] load_invD(4) [OF inv] p os_wf_tail by auto
  from h(1) obtain l where l: "om_get (ld_layers st) h = Some l" by blast
  obtain d where d: "search_node sha C v cached h d" "l = layer_of sha d"
    using search_invD(1) [OF srch l] by blast
  obtain cs st1 where g: "gather_children cached h (l_children l) ?st = (cs, st1)" by fastforce
  note G = gather_frame [OF g]
  have same: "ld_layers st1 = ld_layers st" "ld_all st1 = ld_all st" "ld_process st1 = hs" using G by simp_all
  have dc: "done_child cached st1 x = done_child cached st x" "done_child cached ?st x = done_child cached st x" for x
    by (rule done_child_all, simp add: same)+
  have waits: "waits_in st1 w x" if "waits_in st w x" for w x using G that by (auto simp: waits_in_def)
  have revs: "om_get (ld_reverses st1) x \<noteq> None" if "om_get (ld_reverses st) x \<noteq> None" for x using G that by auto
  have needed_mono: "set (ld_needed st) \<subseteq> set (ld_needed st1)" using G by simp
  have needed1: "x \<in> set (ld_needed st) \<or> x \<in> set (l_children l) \<and> done_child cached st x = None \<and> waits_in st1 h x"
    if "x \<in> set (ld_needed st1)" for x
    using G that by (auto simp: dc)
  have miss1: "waits_in st1 h x \<and> (om_get (ld_layers st) x \<noteq> None \<or> x \<in> set (ld_needed st1))"
    if "x \<in> set (l_children l)" "done_child cached st x = None" for x
    using G that by (auto simp: dc)
  have p2: "\<exists>d. search_node sha C v cached x d" if "x \<in> set (ld_needed st1)" for x
  proof (cases "x \<in> set (ld_needed st)")
    case False
    then have "x \<in> set (l_children l)" "cached x = None"
      using needed1 [OF that] by (auto simp: done_child_def split: option.splits)
    then show ?thesis using search_node_child [OF C(1) d(1)] d(2) by blast
  qed (use search_invD(2) [OF srch] in blast)
  have p5: "om_get (ld_reverses st1) x \<noteq> None"
    if "om_get (ld_layers st) x \<noteq> None \<or> x \<in> set (ld_needed st1)" "x \<noteq> orig" "om_get (ld_all st) x = None" for x
    using search_invD(5) [OF srch, of x] that needed1 [of x] revs [of x] by (auto simp: waits_in_def)
  show ?thesis
  proof (cases "length cs = length (l_children l)")
    case False
    then have "\<not> (\<forall>ch \<in> set (l_children l). done_child cached ?st ch \<noteq> None)"
      using gather_complete [of "l_children l" cached ?st h] g by (metis length_map old.prod.inject)
    then obtain ch where ch: "ch \<in> set (l_children l)" "done_child cached st ch = None"
      unfolding dc by blast
    have "search_inv sha C v cached orig st1"
    proof (rule search_invI)
      fix x l' assume x: "om_get (ld_layers st1) x = Some l'" "om_get (ld_all st1) x = None" "x \<notin> set (ld_process st1)"
      show "\<exists>ch \<in> set (l_children l'). done_child cached st1 ch = None \<and> waits_in st1 x ch \<and>
          (om_get (ld_layers st1) ch \<noteq> None \<or> ch \<in> set (ld_needed st1))"
      proof (cases "x = h")
        case True
        then show ?thesis using x(1) l same ch miss1 [OF ch] by (auto simp: dc)
      next
        case False
        then have "x \<notin> set (ld_process st)" using x(3) p same by simp
        then obtain ch where "ch \<in> set (l_children l')" "done_child cached st ch = None" "waits_in st x ch"
            "om_get (ld_layers st) ch \<noteq> None \<or> ch \<in> set (ld_needed st)"
          using search_invD(4) [OF srch, of x l'] x same by metis
        then show ?thesis using waits needed_mono same by (auto simp: dc)
      qed
    qed (use search_invD(1,3,6) [OF srch] p2 p5 needed_mono same in auto)
    then show ?thesis using False l g by (simp add: process_layer_def)
  next
    case True
    then have all: "\<forall>ch \<in> set (l_children l). done_child cached st ch \<noteq> None" using G by (auto simp: dc)
    then have cs: "cs = map (\<lambda>ch. the (done_child cached st ch)) (l_children l)" and st1: "st1 = ?st"
      using gather_complete [of "l_children l" cached ?st h] g by (auto simp: dc)
    have c: "Contents (l_payload l) cs = d"
      unfolding cs d(2) by (rule completed_contents [OF C srch]) (use d all in \<open>auto simp: search_node_def\<close>)
    show ?thesis
    proof (cases "h = orig")
      case True
      then have "d = c0" using world_inject [OF C(1)] d(1) orig by (simp add: search_node_def)
      then show ?thesis using True l g c \<open>length cs = _\<close> by (simp add: process_layer_def)
    next
      case False
      then obtain ws where ws: "om_get (ld_reverses st1) h = Some ws" using p5 [of h] h by auto
      let ?new = "st1\<lparr>ld_all := om_insert h d (ld_all st1), ld_reverses := om_remove h (ld_reverses st1)\<rparr>"
      have "search_inv sha C v cached orig (wake ws ?new)"
      proof (rule search_invI)
        fix x l' assume x: "om_get (ld_layers (wake ws ?new)) x = Some l'" "om_get (ld_all (wake ws ?new)) x = None"
          "x \<notin> set (ld_process (wake ws ?new))"
        then have x': "om_get (ld_layers st) x = Some l'" "om_get (ld_all st) x = None" "x \<noteq> h" "x \<notin> set hs"
          using same by (auto simp: wake_frame split: if_splits)
        then obtain ch where ch: "ch \<in> set (l_children l')" "done_child cached st ch = None" "waits_in st x ch"
            "om_get (ld_layers st) ch \<noteq> None \<or> ch \<in> set (ld_needed st)"
          using search_invD(4) [OF srch, of x l'] p by auto
        have "ch \<noteq> h"
        proof
          assume "ch = h"
          then have "x \<in> set ws" using waits [OF ch(3)] ws by (simp add: waits_in_def)
          then show False using x(2,3) by (simp add: wake_frame)
        qed
        then show "\<exists>ch \<in> set (l_children l'). done_child cached (wake ws ?new) ch = None \<and> waits_in (wake ws ?new) x ch \<and>
            (om_get (ld_layers (wake ws ?new)) ch \<noteq> None \<or> ch \<in> set (ld_needed (wake ws ?new)))"
          using ch waits [OF ch(3)] same needed_mono
          by (intro bexI [of _ ch]) (auto simp: wake_frame waits_in_def done_child_def split: option.splits)
      next
        show "\<And>x c. om_get (ld_all (wake ws ?new)) x = Some c \<Longrightarrow> c \<in> C \<and> contents_hash sha c = x \<and> x \<noteq> orig"
          using search_invD(3) [OF srch] d(1) False same by (auto simp: wake_frame search_node_def split: if_splits)
        fix x assume "om_get (ld_layers (wake ws ?new)) x \<noteq> None \<or> x \<in> set (ld_needed (wake ws ?new))" "x \<noteq> orig"
          "om_get (ld_all (wake ws ?new)) x = None"
        then show "om_get (ld_reverses (wake ws ?new)) x \<noteq> None"
          using p5 [of x] same by (auto simp: wake_frame split: if_splits)
      qed (use search_invD(1,6) [OF srch] p2 needed_mono same in \<open>auto simp: wake_frame\<close>)
      then show ?thesis using False l g c ws \<open>length cs = _\<close> by (simp add: process_layer_def)
    qed
  qed
qed

lemma round_search:
  assumes inv: "load_inv v st" and srch: "search_inv sha C v cached orig st" and p: "ld_process st = []"
    and load: "\<And>h. length h = 32 \<Longrightarrow> load_layer M s h = Inr (v h)"
  shows "\<exists>st'. load_round M s st = Next st' \<and> search_inv sha C v cached orig st'"
proof -
  have len: "length h = 32 \<and> om_get (ld_layers st) h = None" if "h \<in> set (ld_needed st)" for h
    using load_invD(2) [OF inv] that by blast
  have found: "\<exists>d. search_node sha C v cached h d \<and> v h = Some (layer_of sha d)" if "h \<in> set (ld_needed st)" for h
    using search_invD(2) [OF srch that] search_node_stored by blast
  obtain d where d: "load_by_hashes M s (ld_needed st) (ld_layers st) = Inr d"
    "\<And>h. om_get d h = (if h \<in> set (ld_needed st) \<and> v h \<noteq> None then v h else om_get (ld_layers st) h)"
    using load_by_hashes_view [of "ld_needed st" M s v "ld_layers st"] load len by blast
  have layers: "om_get d h = (if h \<in> set (ld_needed st) then v h else om_get (ld_layers st) h)" for h
    using d(2) [of h] found [of h] by (metis option.distinct(1))
  let ?st = "st\<lparr>ld_layers := d, ld_needed := [], ld_process := os_of_list (ld_needed st)\<rparr>"
  have "filter (\<lambda>h. \<not> om_contains d h) (ld_needed st) = []"
    using found by (auto simp: filter_empty_conv om_contains_def layers)
  then have "load_round M s st = Next ?st" using d(1) by (simp add: load_round_def)
  moreover have "search_inv sha C v cached orig ?st"
  proof (rule search_invI)
    fix h l assume h: "om_get (ld_layers ?st) h = Some l" "om_get (ld_all ?st) h = None" "h \<notin> set (ld_process ?st)"
    then have "om_get (ld_layers st) h = Some l" by (simp add: layers set_os_of_list)
    then obtain ch where "ch \<in> set (l_children l)" "done_child cached st ch = None" "waits_in st h ch"
        "om_get (ld_layers st) ch \<noteq> None \<or> ch \<in> set (ld_needed st)"
      using search_invD(4) [OF srch, of h l] h p by auto
    then show "\<exists>ch \<in> set (l_children l). done_child cached ?st ch = None \<and> waits_in ?st h ch \<and>
        (om_get (ld_layers ?st) ch \<noteq> None \<or> ch \<in> set (ld_needed ?st))"
      using found by (intro bexI [of _ ch]) (auto simp: layers waits_in_def done_child_def split: option.splits)
  next
    show "\<And>h l. om_get (ld_layers ?st) h = Some l \<Longrightarrow> \<exists>d. search_node sha C v cached h d \<and> l = layer_of sha d"
      using search_invD(1) [OF srch] found by (fastforce simp: layers split: if_splits)
    show "om_get (ld_layers ?st) orig \<noteq> None \<or> orig \<in> set (ld_needed ?st)"
      using search_invD(6) [OF srch] found by (auto simp: layers)
    fix h assume "om_get (ld_layers ?st) h \<noteq> None \<or> h \<in> set (ld_needed ?st)" "h \<noteq> orig" "om_get (ld_all ?st) h = None"
    then show "om_get (ld_reverses ?st) h \<noteq> None"
      using search_invD(5) [OF srch, of h] by (auto simp: layers split: if_splits)
  qed (use search_invD(3) [OF srch] in auto)
  ultimately show ?thesis by blast
qed

context merkle_backend
begin

lemma load_finds:
  assumes C: "content_world sha C" "cache_ok sha C cached" and s: "ok s"
    and c: "c \<in> C" "available sha (view s) cached c"
  shows "load_merkle_contents cached M s (contents_hash sha c) = Some (Inr c)"
proof (cases "cached (contents_hash sha c)")
  case (Some d)
  then have "d = c" using C(2) world_inject [OF C(1) _ c(1)] by (simp add: cache_ok_def)
  then show ?thesis using Some by (simp add: load_merkle_contents_def)
next
  case None
  let ?orig = "contents_hash sha c"
  let ?P = "search_inv sha C (view s) cached ?orig"
  have len: "length ?orig = 32" using C(1) by (simp add: content_world_def contents_hash_def)
  have step: "case load_step cached M s ?orig st of Done r \<Rightarrow> r = Inr c | Next st' \<Rightarrow> ?P st'"
    if inv: "load_inv (view s) st" "?P st" for st
  proof (cases "ld_process st")
    case Nil
    then have "ld_needed st \<noteq> []" using search_not_stuck [OF C(1) inv(2)] by blast
    then show ?thesis
      using Nil round_search [OF inv Nil load [OF s]] by (auto simp: load_step_def)
  next
    case (Cons h hs)
    then show ?thesis using process_search [OF C c(1) refl inv Cons] by (simp add: load_step_def)
  qed
  have "search_node sha C (view s) cached ?orig c" using c None by (simp add: search_node_def)
  then have "?P (load_init ?orig)" by (auto simp: search_inv_def load_init_def)
  then have "\<exists>r. load_loop cached M s ?orig (load_init ?orig) = Some r \<and> r = Inr c"
    by (rule load_loop_rule [OF s load_init_inv [OF len]]) (use step in \<open>fastforce split: load_step.splits\<close>)+
  then show ?thesis using None by (simp add: load_merkle_contents_def)
qed

text \<open>What was saved is found, whatever else the store and the cache hold.\<close>

lemma save_then_load:
  assumes "content_world sha C" "cache_ok sha C cached" "ok s" "good_view sha C (view s)" "c \<in> C"
  shows "\<exists>s'. save_merkle_contents sha M c s = Inr s' \<and> ok s' \<and> good_view sha C (view s') \<and> view s \<subseteq>\<^sub>m view s' \<and>
    load_merkle_contents cached M s' (contents_hash sha c) = Some (Inr c)"
  using save_stores [OF assms(1,3,4,5)] load_finds [OF assms(1,2) _ assms(5)] present_available by blast

end

section \<open>Every write leaves a closed store\<close>

text \<open>A store that keeps every state it has been in.\<close>

definition journal_ops :: "'s merkle_ops \<Rightarrow> ('s \<times> 's list) merkle_ops" where
  "journal_ops M = \<lparr>load_layer = (\<lambda>s h. load_layer M (fst s) h),
     save_layer = (\<lambda>l s. rbind (save_layer M l (fst s)) (\<lambda>s'. Inr (s', s' # snd s))),
     has_layer = (\<lambda>s h. has_layer M (fst s) h)\<rparr>"

lemma journal_ops_simps [simp]:
  "load_layer (journal_ops M) s h = load_layer M (fst s) h"
  "save_layer (journal_ops M) l s = rbind (save_layer M l (fst s)) (\<lambda>s'. Inr (s', s' # snd s))"
  "has_layer (journal_ops M) s h = has_layer M (fst s) h"
  by (simp_all add: journal_ops_def)

context merkle_backend
begin

lemma journal_backend:
  "merkle_backend sha (journal_ops M) (\<lambda>s. view (fst s))
     (\<lambda>s. ok (fst s) \<and> closed_view (view (fst s)) \<and> (\<forall>t \<in> set (snd s). closed_view (view t)))"
proof (unfold_locales, goal_cases)
  case (3 s l)
  then obtain s' where s': "save_layer M l (fst s) = Inr s'" "ok s'" "view s' = (view (fst s))(layer_hash sha l \<mapsto> l)"
    using save [of "fst s" l] by auto
  have "closed_view (view s')"
    using 3(1,3) unfolding s'(3) closed_view_def by (auto split: if_splits)
  then show ?case using s' 3(1) by auto
next
  case (5 s h l ch)
  then show ?case using children_hashes [of "fst s" h l ch] by simp
qed (simp_all add: load has bounded)

lemma journaled_save:
  assumes C: "content_world sha C" and s: "ok s" "good_view sha C (view s)" "c \<in> C"
  shows "\<exists>s' states. save_merkle_contents sha (journal_ops M) c (s, []) = Inr (s', states) \<and>
    (\<forall>t \<in> set states. closed_view (view t)) \<and> ok s' \<and> good_view sha C (view s') \<and> view s \<subseteq>\<^sub>m view s' \<and>
    present sha (view s') c"
  using merkle_backend.save_stores [OF journal_backend C, of "(s, [])" c] s by (auto simp: good_view_def)

end

section \<open>The in-memory store\<close>

type_synonym memory_store = "(hash, layer) omap"

definition memory_load :: "memory_store \<Rightarrow> hash \<Rightarrow> merkle_error + layer option" where
  "memory_load s h = Inr (om_get s h)"

definition memory_save :: "(bytes \<Rightarrow> hash) \<Rightarrow> layer \<Rightarrow> memory_store \<Rightarrow> merkle_error + memory_store" where
  "memory_save sha l s =
     (case om_get s (layer_hash sha l) of
        Some l' \<Rightarrow> if l' = l then Inr s else Inl (MerklePanic ''assertion left == right'')
      | None \<Rightarrow> Inr (om_insert (layer_hash sha l) l s))"

definition memory_has :: "memory_store \<Rightarrow> hash \<Rightarrow> merkle_error + bool" where
  "memory_has s h = Inr (om_contains s h)"

definition memory_ops :: "(bytes \<Rightarrow> hash) \<Rightarrow> memory_store merkle_ops" where
  "memory_ops sha = \<lparr>load_layer = memory_load, save_layer = memory_save sha, has_layer = memory_has\<rparr>"

definition memory_ok :: "memory_store \<Rightarrow> bool" where
  "memory_ok s \<longleftrightarrow> (\<forall>h l. om_get s h = Some l \<longrightarrow> (\<forall>ch \<in> set (l_children l). length ch = 32))"

interpretation memory: merkle_backend sha "memory_ops sha" om_get memory_ok for sha
proof (unfold_locales, goal_cases)
  case (3 s l)
  then show ?case
    by (auto simp: memory_ops_def memory_save_def memory_ok_def fun_eq_iff split: option.splits)
next
  case (4 s)
  then show ?case by (simp add: om_get_def [abs_def] finite_dom_map_of)
qed (auto simp: memory_ops_def memory_load_def memory_has_def om_contains_def memory_ok_def)

section \<open>The Fjall store\<close>

text \<open>One key-value partition holds the layers (payload and children under the hash and a tag byte)
  and, for \<open>kolme-store/src/fjall.rs\<close>, the blocks and transactions.\<close>

type_synonym kv = "(bytes, bytes) omap"

definition payload_key :: "hash \<Rightarrow> bytes" where
  "payload_key h = h @ [112]"

definition children_key :: "hash \<Rightarrow> bytes" where
  "children_key h = h @ [99]"

definition render_children :: "hash list \<Rightarrow> bytes" where
  "render_children hs = concat hs"

definition parse_children :: "bytes \<Rightarrow> merkle_error + hash list" where
  "parse_children bs =
     (if length bs mod 32 \<noteq> 0 then Inl (MerkleCustom ''Children in fjall store not a multiple of 32 bytes'')
      else Inr (map (\<lambda>i. take 32 (drop (i * 32) bs)) [0..<length bs div 32]))"

definition fjall_load :: "kv \<Rightarrow> hash \<Rightarrow> merkle_error + layer option" where
  "fjall_load s h =
     (case om_get s (payload_key h) of
        None \<Rightarrow> Inr None
      | Some p \<Rightarrow>
          (case om_get s (children_key h) of
             None \<Rightarrow> Inr None
           | Some bs \<Rightarrow> rbind (parse_children bs) (\<lambda>cs. Inr (Some \<lparr>l_payload = p, l_children = cs\<rparr>))))"

definition fjall_save :: "(bytes \<Rightarrow> hash) \<Rightarrow> layer \<Rightarrow> kv \<Rightarrow> merkle_error + kv" where
  "fjall_save sha l s =
     Inr (om_insert (children_key (layer_hash sha l)) (render_children (l_children l))
           (om_insert (payload_key (layer_hash sha l)) (l_payload l) s))"

definition fjall_has :: "kv \<Rightarrow> hash \<Rightarrow> merkle_error + bool" where
  "fjall_has s h = Inr (om_contains s (payload_key h) \<and> om_contains s (children_key h))"

definition fjall_ops :: "(bytes \<Rightarrow> hash) \<Rightarrow> kv merkle_ops" where
  "fjall_ops sha = \<lparr>load_layer = fjall_load, save_layer = fjall_save sha, has_layer = fjall_has\<rparr>"

definition fjall_view :: "kv \<Rightarrow> hash \<Rightarrow> layer option" where
  "fjall_view s h = (if length h = 32 then (case fjall_load s h of Inl _ \<Rightarrow> None | Inr l \<Rightarrow> l) else None)"

definition fjall_ok :: "kv \<Rightarrow> bool" where
  "fjall_ok s \<longleftrightarrow> (\<forall>h bs. length h = 32 \<longrightarrow> om_get s (children_key h) = Some bs \<longrightarrow> length bs mod 32 = 0)"

lemma parse_render:
  assumes "\<forall>h \<in> set hs. length h = 32"
  shows "parse_children (render_children hs) = Inr hs"
proof -
  have len: "length (concat hs) = length hs * 32" if "\<forall>h \<in> set hs. length h = 32" for hs :: "hash list"
    using that by (induction hs) simp_all
  have "take 32 (drop (i * 32) (concat hs)) = hs ! i" if "i < length hs" "\<forall>h \<in> set hs. length h = 32" for i hs
    using that
  proof (induction hs arbitrary: i)
    case (Cons h hs)
    then show ?case by (cases i) (simp_all add: drop_append)
  qed simp
  then have "map (\<lambda>i. take 32 (drop (i * 32) (concat hs))) [0..<length hs] = map (\<lambda>i. hs ! i) [0..<length hs]"
    using assms by (intro map_cong) auto
  then show ?thesis
    using len [OF assms] by (simp add: parse_children_def render_children_def map_nth)
qed

lemma parse_length: "parse_children bs = Inr cs \<Longrightarrow> ch \<in> set cs \<Longrightarrow> length ch = 32"
  by (auto simp: parse_children_def split: if_splits)

lemma fjall_keys [simp]:
  "payload_key h = payload_key h' \<longleftrightarrow> h = h'" "children_key h = children_key h' \<longleftrightarrow> h = h'"
  "payload_key h \<noteq> children_key h'" "children_key h \<noteq> payload_key h'"
  by (simp_all add: payload_key_def children_key_def)

interpretation fjall: merkle_backend sha "fjall_ops sha" fjall_view fjall_ok for sha
proof (unfold_locales, goal_cases)
  case (1 s h)
  then show ?case
    by (auto simp: fjall_ops_def fjall_view_def fjall_load_def fjall_ok_def parse_children_def split: option.splits)
next
  case (2 s h)
  then show ?case
    by (auto simp: fjall_ops_def fjall_view_def fjall_load_def fjall_has_def fjall_ok_def om_contains_def
        parse_children_def split: option.splits)
next
  case (3 s l)
  let ?s = "om_insert (children_key (layer_hash sha l)) (render_children (l_children l))
      (om_insert (payload_key (layer_hash sha l)) (l_payload l) s)"
  have p: "parse_children (render_children (l_children l)) = Inr (l_children l)"
    using 3(3) by (intro parse_render) blast
  have "fjall_load ?s h = (if h = layer_hash sha l then Inr (Some l) else fjall_load s h)" for h
    by (auto simp: fjall_load_def p split: option.split)
  then have "fjall_view ?s = (fjall_view s)(layer_hash sha l \<mapsto> l)"
    using 3(2) by (auto simp: fun_eq_iff fjall_view_def)
  moreover have "fjall_ok ?s"
    using 3(1) p by (auto simp: fjall_ok_def parse_children_def split: if_splits)
  ultimately show ?case by (simp add: fjall_ops_def fjall_save_def)
next
  case (4 s)
  have "dom (fjall_view s) \<subseteq> butlast ` dom (om_get s)"
  proof
    fix h assume "h \<in> dom (fjall_view s)"
    then have "payload_key h \<in> dom (om_get s)"
      by (auto simp: fjall_view_def fjall_load_def split: if_splits option.splits)
    then show "h \<in> butlast ` dom (om_get s)" by (auto simp: payload_key_def intro: image_eqI [of _ _ "h @ [112]"])
  qed
  then show ?case by (rule finite_subset) (simp add: om_get_def [abs_def] finite_dom_map_of)
next
  case (5 s h l ch)
  then show ?case
    by (auto simp: fjall_view_def fjall_load_def parse_length split: if_splits option.splits sum.splits)
      (auto simp: rbind_def parse_length split: sum.splits)
qed

section \<open>Properties\<close>

text \<open>Saving a value in the Fjall store writes its layers so that after every single write each
  stored layer has its children stored, keeps what was there, and loading the hash afterwards
  returns the value, whatever else the store and the contents cache hold.\<close>

theorem fjall_save_then_load:
  assumes "content_world sha C" "cache_ok sha C cached" "fjall_ok s" "good_view sha C (fjall_view s)" "c \<in> C"
  shows "\<exists>s' states. save_merkle_contents sha (journal_ops (fjall_ops sha)) c (s, []) = Inr (s', states) \<and>
    (\<forall>t \<in> set (s' # states). closed_view (fjall_view t)) \<and> fjall_view s \<subseteq>\<^sub>m fjall_view s' \<and>
    load_merkle_contents cached (fjall_ops sha) s' (contents_hash sha c) = Some (Inr c)"
proof -
  obtain s' states where s': "save_merkle_contents sha (journal_ops (fjall_ops sha)) c (s, []) = Inr (s', states)"
      "\<forall>t \<in> set states. closed_view (fjall_view t)" "fjall_ok s'" "good_view sha C (fjall_view s')"
      "fjall_view s \<subseteq>\<^sub>m fjall_view s'" "present sha (fjall_view s') c"
    using fjall.journaled_save [OF assms(1,3,4,5)] by blast
  then show ?thesis
    using fjall.load_finds [OF assms(1,2) s'(3) assms(5) present_available [OF s'(6)]]
    by (auto simp: good_view_def)
qed

definition nested_contents :: contents where
  "nested_contents = Contents [1] [Contents [2] [], Contents [3] [Contents [2] []]]"

lemma nested_world: "content_world (ce_sha sample_codec) {nested_contents, Contents [2] [], Contents [3] [Contents [2] []]}"
  by (auto simp: content_world_def sample_codec_def nested_contents_def)

theorem fjall_save_then_load_witness:
  "\<exists>s' states. save_merkle_contents (ce_sha sample_codec) (journal_ops (fjall_ops (ce_sha sample_codec))) nested_contents ([], []) =
      Inr (s', states) \<and> (\<forall>t \<in> set states. closed_view (fjall_view t)) \<and>
    load_merkle_contents (\<lambda>_. None) (fjall_ops (ce_sha sample_codec)) s' (contents_hash (ce_sha sample_codec) nested_contents) =
      Some (Inr nested_contents)"
proof -
  have "fjall_view [] = (\<lambda>_. None)" by (simp add: fun_eq_iff fjall_view_def fjall_load_def)
  then have g: "good_view (ce_sha sample_codec) C (fjall_view [])" for C
    by (simp add: good_view_def closed_view_def view_of_world_def)
  show ?thesis
    using fjall_save_then_load [OF nested_world _ _ g, of "\<lambda>_. None" nested_contents]
    by (fastforce simp: cache_ok_def fjall_ok_def)
qed

text \<open>Loading returns on every store, also one with missing, cyclic or unreachable layers: the
  rounds of the search come to an end with a value or an error.\<close>

theorem load_merkle_contents_returns:
  assumes "fjall_ok s" "length h = 32"
  shows "\<exists>r. load_merkle_contents cached (fjall_ops sha) s h = Some r"
  using fjall.load_returns [OF assms] .

theorem load_merkle_contents_returns_witness:
  "\<exists>r. load_merkle_contents (\<lambda>_. None) (fjall_ops (ce_sha sample_codec)) [] (replicate 32 0) = Some r"
  by (rule load_merkle_contents_returns) (simp_all add: fjall_ok_def)

end
