(* ===== verification/Merkle_Map.thy ===== *)
theory Merkle_Map
  imports Kolme_Types "HOL-Library.Sublist"
begin

text \<open>
  \<open>MerkleMap\<close> (\<open>merkle-map/src/impls\<close>): a base-16 trie over the nibbles of the key bytes whose
  nodes hold up to sixteen entries before they split.

  The operations follow \<open>Node\<close>, \<open>LeafContents\<close> and \<open>TreeContents\<close> one by one.  Depth is a
  \<open>u16\<close> and wraps; insertion can therefore run forever, so it takes fuel and returns \<open>None\<close> when
  that runs out.  \<open>node_wf p\<close> is the invariant of a node reached along the nibbles \<open>p\<close>.  The
  results: enough fuel gives a result for keys below 32768 bytes, every operation acts on
  the entries as on an ordered map, the shape of the trie depends on its entries only, and
  iteration visits them in key order.  Locking and caching do not change results and are left out.
\<close>

unbundle bit_operations_syntax

section \<open>Keys, entries and nodes\<close>

record ('k, 'v) leaf_entry =
  le_key_bytes :: bytes
  le_key :: 'k
  le_value :: 'v

datatype ('k, 'v) node =
    Leaf (leaf_values: "('k, 'v) leaf_entry list")
  | Tree (t_len: nat) (t_leaf: "('k, 'v) leaf_entry option") (t_branches: "('k, 'v) node option list")

definition get_index_for_depth :: "u16 \<Rightarrow> bytes \<Rightarrow> nat option" where
  "get_index_for_depth depth key =
     (let i = unat (depth div 2)
      in if i < length key
         then Some (if depth mod 2 = 0 then unat (drop_bit 4 (key ! i)) else unat (key ! i AND 0x0F))
         else None)"

definition branch :: "('k, 'v) node option list \<Rightarrow> nat \<Rightarrow> ('k, 'v) node option" where
  "branch bs i = (if i < length bs then bs ! i else None)"

definition empty_node :: "('k, 'v) node" where
  "empty_node = Leaf []"

definition tree_new :: "('k, 'v) node" where
  "tree_new = Tree 0 None (replicate 16 None)"

fun node_is_empty :: "('k, 'v) node \<Rightarrow> bool" where
  "node_is_empty (Leaf vs) = (vs = [])"
| "node_is_empty (Tree _ _ _) = False"

fun node_len :: "('k, 'v) node \<Rightarrow> nat" where
  "node_len (Leaf vs) = length vs"
| "node_len (Tree len _ _) = len"

lemma branch_size [termination_simp]:
  "branch bs i = Some b \<Longrightarrow> size b < Suc (n + size_list (size_option size) bs)"
proof -
  assume "branch bs i = Some b"
  then have "Some b \<in> set bs" unfolding branch_def by (metis nth_mem option.distinct(1))
  then have "size_option size (Some b) \<le> size_list (size_option size) bs"
    by (rule size_list_estimation') simp
  then show ?thesis by simp
qed

lemma branch_mem_size [termination_simp]:
  "Some b \<in> set bs \<Longrightarrow> size b < Suc (n + size_list (size_option size) bs)"
proof -
  assume "Some b \<in> set bs"
  then have "size_option size (Some b) \<le> size_list (size_option size) bs"
    by (rule size_list_estimation') simp
  then show ?thesis by simp
qed

section \<open>Lookup\<close>

definition leaf_get :: "bytes \<Rightarrow> ('k, 'v) leaf_entry list \<Rightarrow> ('k, 'v) leaf_entry option" where
  "leaf_get key vs = find (\<lambda>e. le_key_bytes e = key) vs"

fun node_get :: "u16 \<Rightarrow> bytes \<Rightarrow> ('k, 'v) node \<Rightarrow> ('k, 'v) leaf_entry option" where
  "node_get depth key (Leaf vs) = leaf_get key vs"
| "node_get depth key (Tree len leaf bs) =
     (case get_index_for_depth depth key of
        None \<Rightarrow> leaf
      | Some i \<Rightarrow> (case branch bs i of None \<Rightarrow> None | Some b \<Rightarrow> node_get (depth + 1) key b))"

section \<open>Insertion\<close>

type_synonym ('k, 'v) insert_result = "(('k, 'v) node \<times> ('k \<times> 'v) option) option"

definition entry_pair :: "('k, 'v) leaf_entry \<Rightarrow> 'k \<times> 'v" where
  "entry_pair e = (le_key e, le_value e)"

text \<open>\<open>ins\<close> is insertion into a node one level further down.\<close>

fun tree_insert ::
  "(('k, 'v) leaf_entry \<Rightarrow> ('k, 'v) node \<Rightarrow> ('k, 'v) insert_result) \<Rightarrow> u16 \<Rightarrow>
    ('k, 'v) leaf_entry \<Rightarrow> ('k, 'v) node \<Rightarrow> ('k, 'v) insert_result" where
  "tree_insert ins depth entry (Tree len leaf bs) =
     (case get_index_for_depth depth (le_key_bytes entry) of
        None \<Rightarrow> Some (Tree (case leaf of None \<Rightarrow> len + 1 | Some _ \<Rightarrow> len) (Some entry) bs,
                  map_option entry_pair leaf)
      | Some i \<Rightarrow>
          (case ins entry (case branch bs i of None \<Rightarrow> empty_node | Some b \<Rightarrow> b) of
             None \<Rightarrow> None
           | Some (b, v) \<Rightarrow>
               Some (Tree (case v of None \<Rightarrow> len + 1 | Some _ \<Rightarrow> len) leaf (bs[i := Some b]), v)))"
| "tree_insert ins depth entry (Leaf vs) = None"

fun tree_insert_all ::
  "(('k, 'v) leaf_entry \<Rightarrow> ('k, 'v) node \<Rightarrow> ('k, 'v) insert_result) \<Rightarrow> u16 \<Rightarrow>
    ('k, 'v) leaf_entry list \<Rightarrow> ('k, 'v) node \<Rightarrow> ('k, 'v) node option" where
  "tree_insert_all ins depth [] t = Some t"
| "tree_insert_all ins depth (e # es) t =
     (case tree_insert ins depth e t of
        None \<Rightarrow> None
      | Some (t', _) \<Rightarrow> tree_insert_all ins depth es t')"

fun replace_entry ::
  "('k, 'v) leaf_entry \<Rightarrow> ('k, 'v) leaf_entry list \<Rightarrow>
    (('k, 'v) leaf_entry list \<times> ('k, 'v) leaf_entry) option" where
  "replace_entry entry [] = None"
| "replace_entry entry (e # es) =
     (if le_key_bytes e = le_key_bytes entry then Some (entry # es, e)
      else map_option (\<lambda>(es', old). (e # es', old)) (replace_entry entry es))"

definition leaf_insert ::
  "(('k, 'v) leaf_entry \<Rightarrow> ('k, 'v) node \<Rightarrow> ('k, 'v) insert_result) \<Rightarrow> u16 \<Rightarrow>
    ('k, 'v) leaf_entry \<Rightarrow> ('k, 'v) leaf_entry list \<Rightarrow> ('k, 'v) insert_result" where
  "leaf_insert ins depth entry vs =
     (case replace_entry entry vs of
        Some (vs', old) \<Rightarrow> Some (Leaf vs', Some (entry_pair old))
      | None \<Rightarrow>
          if length vs < 16 then Some (Leaf (sort_key le_key_bytes (vs @ [entry])), None)
          else map_option (\<lambda>t. (t, None)) (tree_insert_all ins depth (entry # vs) tree_new))"

primrec node_insert ::
  "nat \<Rightarrow> u16 \<Rightarrow> ('k, 'v) leaf_entry \<Rightarrow> ('k, 'v) node \<Rightarrow> ('k, 'v) insert_result" where
  "node_insert 0 = (\<lambda>depth entry n. None)"
| "node_insert (Suc fuel) = (\<lambda>depth entry n. case n of
     Leaf vs \<Rightarrow> leaf_insert (node_insert fuel (depth + 1)) depth entry vs
   | Tree len leaf bs \<Rightarrow> tree_insert (node_insert fuel (depth + 1)) depth entry (Tree len leaf bs))"

section \<open>Removal\<close>

fun drain_entries :: "('k, 'v) node \<Rightarrow> ('k, 'v) leaf_entry list" where
  "drain_entries (Leaf vs) = vs"
| "drain_entries (Tree len leaf bs) =
     (case leaf of None \<Rightarrow> [] | Some e \<Rightarrow> [e]) @
     concat (map (\<lambda>b. case b of None \<Rightarrow> [] | Some n \<Rightarrow> drain_entries n) bs)"

fun into_node_after_removal :: "('k, 'v) node \<Rightarrow> ('k, 'v) node" where
  "into_node_after_removal (Tree len leaf bs) =
     (if len \<le> 16 then Leaf (drain_entries (Tree len leaf bs)) else Tree len leaf bs)"
| "into_node_after_removal (Leaf vs) = Leaf vs"

fun leaf_remove :: "bytes \<Rightarrow> ('k, 'v) leaf_entry list \<Rightarrow> ('k, 'v) leaf_entry list \<times> ('k \<times> 'v) option" where
  "leaf_remove key [] = ([], None)"
| "leaf_remove key (e # es) =
     (if le_key_bytes e = key then (es, Some (entry_pair e))
      else case leaf_remove key es of (es', v) \<Rightarrow> (e # es', v))"

fun node_remove :: "u16 \<Rightarrow> bytes \<Rightarrow> ('k, 'v) node \<Rightarrow> ('k, 'v) node \<times> ('k \<times> 'v) option" where
  "node_remove depth key (Leaf vs) = (case leaf_remove key vs of (vs', v) \<Rightarrow> (Leaf vs', v))"
| "node_remove depth key (Tree len leaf bs) =
     (case get_index_for_depth depth key of
        None \<Rightarrow>
          (case leaf of
             None \<Rightarrow> (Tree len leaf bs, None)
           | Some e \<Rightarrow>
               if le_key_bytes e = key
               then (into_node_after_removal (Tree (len - 1) None bs), Some (entry_pair e))
               else (Tree len leaf bs, None))
      | Some i \<Rightarrow>
          (case branch bs i of
             None \<Rightarrow> (Tree len leaf bs, None)
           | Some b \<Rightarrow>
               (case node_remove (depth + 1) key b of (b', v) \<Rightarrow>
                  let bs' = bs[i := (if node_is_empty b' then None else Some b')]
                  in case v of
                       None \<Rightarrow> (Tree len leaf bs', None)
                     | Some _ \<Rightarrow> (into_node_after_removal (Tree (len - 1) leaf bs'), v))))"

section \<open>Keys as nibble paths\<close>

definition nibbles :: "bytes \<Rightarrow> nat list" where
  "nibbles key = concat (map (\<lambda>b. [unat (drop_bit 4 b), unat (b AND 0x0F)]) key)"

lemma nibbles_simps [simp]:
  "nibbles [] = []"
  "nibbles (b # bs) = unat (drop_bit 4 b) # unat (b AND 0x0F) # nibbles bs"
  by (simp_all add: nibbles_def)

lemma length_nibbles [simp]: "length (nibbles key) = 2 * length key"
  by (induction key) simp_all

lemma low_nibble: "unat (b AND 0x0F :: u8) = unat b mod 16"
proof -
  have "(0x0F :: u8) = mask 4" by (simp add: mask_eq_exp_minus_1)
  then have "(b AND 0x0F :: u8) = take_bit 4 b" by (simp add: take_bit_eq_mask)
  then show ?thesis by (simp add: take_bit_eq_mod unat_mod)
qed

lemma high_nibble: "unat (drop_bit 4 b :: u8) = unat b div 16"
  by (simp add: drop_bit_eq_div unat_div)

lemma nibble_parts: "unat (b :: u8) = 16 * unat (drop_bit 4 b) + unat (b AND 0x0F)"
  by (simp add: low_nibble high_nibble)

lemma nibble_bounds: "unat (drop_bit 4 (b :: u8)) < 16" "unat (b AND 0x0F :: u8) < 16"
  using unat_bound [of b] by (simp_all add: low_nibble high_nibble)

lemma nibbles_bound: "x \<in> set (nibbles key) \<Longrightarrow> x < 16"
  by (induction key) (auto simp: nibble_bounds)

lemma nibbles_nth:
  "d < 2 * length key \<Longrightarrow> nibbles key ! d =
     (if even d then unat (drop_bit 4 (key ! (d div 2))) else unat (key ! (d div 2) AND 0x0F))"
proof (induction key arbitrary: d)
  case (Cons b key)
  show ?case
  proof (cases "d < 2")
    case True
    then have "d = 0 \<or> d = 1" by auto
    then show ?thesis by auto
  next
    case False
    then obtain c where d: "d = Suc (Suc c)" by (metis Suc_1 Suc_diff_Suc add_2_eq_Suc le_add_diff_inverse not_less)
    then show ?thesis using Cons.IH [of c] Cons.prems by simp
  qed
qed simp

text \<open>As long as the depth has not wrapped, the index is the nibble at that depth.\<close>

lemma index_nibble:
  assumes "d < 2 ^ 16"
  shows "get_index_for_depth (of_nat d) key =
    (if d < length (nibbles key) then Some (nibbles key ! d) else None)"
proof -
  have d: "unat (of_nat d :: u16) = d" using assms by (simp add: unat_of_nat)
  have "unat (of_nat d div 2 :: u16) = d div 2" using d by (simp add: unat_div)
  moreover have "(of_nat d mod 2 = (0 :: u16)) \<longleftrightarrow> even d"
    using d by (simp add: unat_eq_iff unat_mod even_iff_mod_2_eq_zero)
  ultimately show ?thesis
    by (auto simp: get_index_for_depth_def nibbles_nth Let_def)
qed

lemma nibble_pair_inj:
  assumes "unat (drop_bit 4 (b :: u8)) = unat (drop_bit 4 c)" "unat (b AND 0x0F) = unat (c AND 0x0F)"
  shows "b = c"
  using nibble_parts [of b] nibble_parts [of c] assms by (simp add: unat_eq_iff)

lemma nibbles_inject [simp]: "nibbles x = nibbles y \<longleftrightarrow> x = y"
proof (induction x arbitrary: y)
  case (Cons b x)
  then show ?case by (cases y) (auto dest: nibble_pair_inj)
qed (metis length_nibbles length_0_conv mult_eq_0_iff numeral_eq_iff semiring_norm(83) nibbles_simps(1) zero_neq_numeral)

lemma nibbles_less: "x < y \<longleftrightarrow> nibbles x < nibbles y"
proof (induction x arbitrary: y)
  case Nil
  then show ?case by (cases y) simp_all
next
  case (Cons b x)
  show ?case
  proof (cases y)
    case (Cons c z)
    have "b < c \<longleftrightarrow> unat (drop_bit 4 b) < unat (drop_bit 4 c) \<or>
        unat (drop_bit 4 b) = unat (drop_bit 4 c) \<and> unat (b AND 0x0F) < unat (c AND 0x0F)"
      using nibble_parts [of b] nibble_parts [of c] nibble_bounds(2) [of b] nibble_bounds(2) [of c]
      unfolding word_less_nat_alt by linarith
    moreover have "b = c \<longleftrightarrow> unat (drop_bit 4 b) = unat (drop_bit 4 c) \<and> unat (b AND 0x0F) = unat (c AND 0x0F)"
      by (auto dest: nibble_pair_inj)
    ultimately show ?thesis using Cons Cons.IH by auto
  qed simp
qed

lemma less_append_Cons [simp]: "xs < xs @ (y # ys :: nat list)"
  by (induction xs) simp_all

lemma append_less_append [simp]: "p @ xs < p @ (ys :: nat list) \<longleftrightarrow> xs < ys"
  by (induction p) simp_all

section \<open>The entries of a node and its invariant\<close>

definition entry_kv :: "('k, 'v) leaf_entry \<Rightarrow> bytes \<times> ('k \<times> 'v)" where
  "entry_kv e = (le_key_bytes e, entry_pair e)"

definition node_entries :: "('k, 'v) node \<Rightarrow> (bytes, 'k \<times> 'v) omap" where
  "node_entries n = map entry_kv (drain_entries n)"

definition opt_entries :: "('k, 'v) leaf_entry option \<Rightarrow> (bytes, 'k \<times> 'v) omap" where
  "opt_entries leaf = (case leaf of None \<Rightarrow> [] | Some e \<Rightarrow> [entry_kv e])"

definition branch_entries :: "('k, 'v) node option \<Rightarrow> (bytes, 'k \<times> 'v) omap" where
  "branch_entries b = (case b of None \<Rightarrow> [] | Some n \<Rightarrow> node_entries n)"

lemma entry_kv_simps [simp]: "fst (entry_kv e) = le_key_bytes e" "snd (entry_kv e) = entry_pair e"
  by (simp_all add: entry_kv_def)

lemma entry_kv_inject [simp]: "entry_kv e = entry_kv f \<longleftrightarrow> (e :: ('k, 'v) leaf_entry) = f"
  by (cases e; cases f) (auto simp: entry_kv_def entry_pair_def)

lemma entry_kv_om [simp]:
  "om_wf (entry_kv x # m) \<longleftrightarrow> (\<forall>k \<in> fst ` set m. le_key_bytes x < k) \<and> om_wf m"
  "om_get (entry_kv x # m) k = (if k = le_key_bytes x then Some (entry_pair x) else om_get m k)"
  "om_insert k v (entry_kv x # m) =
     (if k < le_key_bytes x then (k, v) # entry_kv x # m
      else if k = le_key_bytes x then (k, v) # m else entry_kv x # om_insert k v m)"
  by (simp_all add: entry_kv_def om_wf_Cons)

lemma opt_entries_simps [simp]: "opt_entries None = []" "opt_entries (Some e) = [entry_kv e]"
  by (simp_all add: opt_entries_def)

lemma branch_entries_simps [simp]: "branch_entries None = []" "branch_entries (Some n) = node_entries n"
  by (simp_all add: branch_entries_def)

lemma node_entries_Leaf [simp]: "node_entries (Leaf vs) = map entry_kv vs"
  by (simp add: node_entries_def)

lemma node_entries_Tree [simp]:
  "node_entries (Tree len leaf bs) = opt_entries leaf @ concat (map branch_entries bs)"
proof -
  have "map entry_kv (case b of None \<Rightarrow> [] | Some n \<Rightarrow> drain_entries n) = branch_entries b"
    for b :: "('a, 'b) node option"
    by (cases b) (simp_all add: node_entries_def)
  then show ?thesis
    by (cases leaf) (simp_all add: node_entries_def map_concat comp_def)
qed

text \<open>The bound on keys: the depth of a node that holds them does not wrap.\<close>

definition key_ok :: "bytes \<Rightarrow> bool" where
  "key_ok k \<longleftrightarrow> length k < 2 ^ 15"

definition key_under :: "nat list \<Rightarrow> bytes \<Rightarrow> bool" where
  "key_under p k \<longleftrightarrow> prefix p (nibbles k) \<and> key_ok k"

inductive node_wf :: "nat list \<Rightarrow> ('k, 'v) node \<Rightarrow> bool" where
  wf_Leaf: "om_wf (map entry_kv vs) \<Longrightarrow> length vs \<le> 16 \<Longrightarrow>
      \<forall>e \<in> set vs. key_under p (le_key_bytes e) \<Longrightarrow> node_wf p (Leaf vs)"
| wf_Tree: "16 < len \<Longrightarrow> len = length (node_entries (Tree len leaf bs)) \<Longrightarrow> length bs = 16 \<Longrightarrow>
      (\<And>e. leaf = Some e \<Longrightarrow> nibbles (le_key_bytes e) = p \<and> key_ok (le_key_bytes e)) \<Longrightarrow>
      (\<And>i b. i < 16 \<Longrightarrow> bs ! i = Some b \<Longrightarrow> node_wf (p @ [i]) b \<and> node_entries b \<noteq> []) \<Longrightarrow>
      node_wf p (Tree len leaf bs)"

inductive_simps node_wf_Leaf [simp]: "node_wf p (Leaf vs)"
inductive_simps node_wf_Tree: "node_wf p (Tree len leaf bs)"

text \<open>The same without the lower bound on the size: a tree that is being filled.\<close>

definition tree_wf ::
  "nat list \<Rightarrow> ('k, 'v) leaf_entry option \<Rightarrow> ('k, 'v) node option list \<Rightarrow> bool" where
  "tree_wf p leaf bs \<longleftrightarrow> length bs = 16 \<and>
     (\<forall>e. leaf = Some e \<longrightarrow> nibbles (le_key_bytes e) = p \<and> key_ok (le_key_bytes e)) \<and>
     (\<forall>i b. i < 16 \<longrightarrow> bs ! i = Some b \<longrightarrow> node_wf (p @ [i]) b \<and> node_entries b \<noteq> [])"

lemma node_wf_Tree_iff:
  "node_wf p (Tree len leaf bs) \<longleftrightarrow>
     16 < len \<and> len = length (node_entries (Tree len leaf bs)) \<and> tree_wf p leaf bs"
  by (auto simp: node_wf_Tree tree_wf_def)

text \<open>Every key of a node extends the path of the node; the entries are in key order.\<close>

definition below :: "nat list \<Rightarrow> (bytes, 'a) omap \<Rightarrow> bool" where
  "below p m \<longleftrightarrow> (\<forall>k \<in> fst ` set m. key_under p k)"

lemma below_simps [simp]: "below p []" "below p (m @ n) \<longleftrightarrow> below p m \<and> below p n"
  by (auto simp: below_def)

lemma key_under_shorter: "key_under (p @ q) k \<Longrightarrow> key_under p k"
  unfolding key_under_def by (meson prefix_order.trans prefixI)

lemma key_underD: "key_under p k \<Longrightarrow> prefix p (nibbles k)" "key_under p k \<Longrightarrow> key_ok k"
  by (simp_all add: key_under_def)

lemma path_less:
  assumes "key_under (p @ [i]) k" "key_under (p @ [j]) l" "i < j"
  shows "k < l"
  using assms unfolding nibbles_less key_under_def by (auto elim!: prefixE)

lemma leaf_less:
  assumes "nibbles k = p" "key_under (p @ [i]) l"
  shows "k < l"
  using assms unfolding nibbles_less key_under_def by (auto elim!: prefixE)

lemma tree_entries_ordered:
  assumes bs: "length bs = 16" and leaf: "\<forall>e. leaf = Some e \<longrightarrow> nibbles (le_key_bytes e) = p \<and> key_ok (le_key_bytes e)"
    and sub: "\<forall>i b. i < 16 \<longrightarrow> bs ! i = Some b \<longrightarrow> om_wf (node_entries b) \<and> below (p @ [i]) (node_entries b)"
  shows "om_wf (opt_entries leaf @ concat (map branch_entries bs)) \<and>
    below p (opt_entries leaf @ concat (map branch_entries bs))"
proof -
  have br: "om_wf (branch_entries (bs ! i)) \<and> below (p @ [i]) (branch_entries (bs ! i))" if "i < 16" for i
    using sub that by (cases "bs ! i") auto
  have "sorted_wrt (\<lambda>m n. \<forall>k \<in> fst ` set m. \<forall>l \<in> fst ` set n. k < l) (map branch_entries bs)"
    unfolding sorted_wrt_iff_nth_less
  proof (intro allI impI ballI)
    fix i j k l
    assume "i < j" "j < length (map branch_entries bs)"
      "k \<in> fst ` set (map branch_entries bs ! i)" "l \<in> fst ` set (map branch_entries bs ! j)"
    then show "k < l"
      using br [of i] br [of j] bs path_less [of p i k j l] by (auto simp: below_def)
  qed
  then have wf: "om_wf (concat (map branch_entries bs))"
    unfolding om_wf_concat using br bs by (auto simp: in_set_conv_nth)
  have path: "\<exists>i. key_under (p @ [i]) k" if k: "k \<in> fst ` set (concat (map branch_entries bs))" for k
  proof -
    from k obtain b where "b \<in> set bs" and kb: "k \<in> fst ` set (branch_entries b)" by auto
    then obtain i where "i < 16" "bs ! i = b" by (metis bs in_set_conv_nth)
    then show ?thesis using br [of i] kb unfolding below_def by blast
  qed
  have "below p (concat (map branch_entries bs))"
    unfolding below_def using path key_under_shorter by blast
  moreover have "om_wf (opt_entries leaf @ concat (map branch_entries bs)) \<and> below p (opt_entries leaf)"
  proof (cases leaf)
    case (Some e)
    then have n: "nibbles (le_key_bytes e) = p" "key_ok (le_key_bytes e)" using leaf by simp_all
    have "\<forall>l \<in> fst ` set (concat (map branch_entries bs)). le_key_bytes e < l"
      using path leaf_less [OF n(1)] by blast
    then show ?thesis using Some wf n by (simp add: below_def key_under_def)
  qed (use wf in simp)
  ultimately show ?thesis by simp
qed

lemma node_wf_entries: "node_wf p n \<Longrightarrow> om_wf (node_entries n) \<and> below p (node_entries n)"
proof (induction rule: node_wf.induct)
  case (wf_Tree len leaf bs p)
  then show ?case using tree_entries_ordered [of bs leaf p] by simp
qed (auto simp: below_def)

lemma tree_wf_entries:
  "tree_wf p leaf bs \<Longrightarrow> om_wf (node_entries (Tree len leaf bs)) \<and> below p (node_entries (Tree len leaf bs))"
  using tree_entries_ordered [of bs leaf p] node_wf_entries unfolding tree_wf_def node_entries_Tree by blast

section \<open>The entries around a branch\<close>

lemma branch_key_path:
  assumes "tree_wf p leaf bs" "i < 16" "k \<in> fst ` set (branch_entries (bs ! i))"
  shows "key_under (p @ [i]) k"
proof (cases "bs ! i")
  case (Some b)
  then have "node_wf (p @ [i]) b" using assms(1,2) by (simp add: tree_wf_def)
  then show ?thesis using node_wf_entries assms(3) Some by (auto simp: below_def)
qed (use assms(3) in simp)

lemma tree_entries_off_path:
  assumes "tree_wf p leaf bs" "nibbles k = p"
  shows "k \<notin> fst ` set (concat (map branch_entries bs))"
proof
  assume "k \<in> fst ` set (concat (map branch_entries bs))"
  then obtain b where "b \<in> set bs" and kb: "k \<in> fst ` set (branch_entries b)" by auto
  then obtain i where "i < 16" "bs ! i = b" using assms(1) by (metis in_set_conv_nth tree_wf_def)
  then have "key_under (p @ [i]) k" using branch_key_path [OF assms(1)] kb by blast
  then show False using assms(2) by (auto simp: key_under_def elim: prefixE)
qed

definition left_of :: "('k, 'v) leaf_entry option \<Rightarrow> ('k, 'v) node option list \<Rightarrow> nat \<Rightarrow> (bytes, 'k \<times> 'v) omap" where
  "left_of leaf bs i = opt_entries leaf @ concat (map branch_entries (take i bs))"

definition right_of :: "('k, 'v) node option list \<Rightarrow> nat \<Rightarrow> (bytes, 'k \<times> 'v) omap" where
  "right_of bs i = concat (map branch_entries (drop (Suc i) bs))"

lemma tree_entries_split:
  assumes "i < length bs"
  shows "node_entries (Tree len leaf bs) = left_of leaf bs i @ branch_entries (bs ! i) @ right_of bs i"
proof -
  have "map branch_entries bs =
      map branch_entries (take i bs) @ branch_entries (bs ! i) # map branch_entries (drop (Suc i) bs)"
    using id_take_nth_drop [OF assms] by (metis list.simps(9) map_append)
  then show ?thesis by (simp add: left_of_def right_of_def)
qed

lemma tree_entries_update:
  "i < length bs \<Longrightarrow>
     node_entries (Tree len leaf (bs[i := b])) = left_of leaf bs i @ branch_entries b @ right_of bs i"
  by (simp add: left_of_def right_of_def upd_conv_take_nth_drop)

lemma around_branch:
  assumes t: "tree_wf p leaf bs" and i: "i < 16" and k: "key_under (p @ [i]) k"
  shows "\<forall>l \<in> fst ` set (left_of leaf bs i). l < k" "\<forall>l \<in> fst ` set (right_of bs i). k < l"
proof -
  have len: "length bs = 16" using t by (simp add: tree_wf_def)
  have less: "l < k" if "j < i" "l \<in> fst ` set (branch_entries (bs ! j))" for j l
    using path_less [OF branch_key_path [OF t _ that(2)] k that(1)] that(1) i by simp
  have more: "k < l" if "i < j" "j < 16" "l \<in> fst ` set (branch_entries (bs ! j))" for j l
    using path_less [OF k branch_key_path [OF t that(2,3)] that(1)] .
  show "\<forall>l \<in> fst ` set (left_of leaf bs i). l < k"
  proof
    fix l assume "l \<in> fst ` set (left_of leaf bs i)"
    then consider (leaf) e where "leaf = Some e" "l = le_key_bytes e"
      | (branch) b where "b \<in> set (take i bs)" "l \<in> fst ` set (branch_entries b)"
      by (cases leaf) (auto simp: left_of_def)
    then show "l < k"
    proof cases
      case leaf
      then have "nibbles l = p" using t by (simp add: tree_wf_def)
      then show ?thesis using leaf_less [OF _ k] by blast
    next
      case branch
      then obtain j where "j < i" "bs ! j = b" by (auto simp: in_set_conv_nth)
      then show ?thesis using less branch(2) by blast
    qed
  qed
  show "\<forall>l \<in> fst ` set (right_of bs i). k < l"
  proof
    fix l assume "l \<in> fst ` set (right_of bs i)"
    then obtain b where b: "b \<in> set (drop (Suc i) bs)" "l \<in> fst ` set (branch_entries b)"
      by (auto simp: right_of_def)
    then obtain j where "j < 16 - Suc i" "bs ! (Suc i + j) = b"
      using len by (auto simp: in_set_conv_nth)
    then show "k < l" using more [of "Suc i + j" l] b(2) by simp
  qed
qed

lemma around_branch_absent:
  assumes "tree_wf p leaf bs" "i < 16" "key_under (p @ [i]) k"
  shows "k \<notin> fst ` set (left_of leaf bs i)" "k \<notin> fst ` set (right_of bs i)"
  using around_branch [OF assms] by auto

lemma om_get_branch:
  assumes "tree_wf p leaf bs" "i < 16" "key_under (p @ [i]) k"
  shows "om_get (node_entries (Tree len leaf bs)) k = om_get (branch_entries (bs ! i)) k"
proof -
  have "i < length bs" using assms(1,2) by (simp add: tree_wf_def)
  then have "node_entries (Tree len leaf bs) = left_of leaf bs i @ branch_entries (bs ! i) @ right_of bs i"
    by (rule tree_entries_split)
  moreover have "om_get (right_of bs i) k = None" "om_get (left_of leaf bs i) k = None"
    using around_branch_absent [OF assms] by (simp_all add: om_get_None_iff)
  ultimately show ?thesis
    by (simp only: om_get_append option.case) (simp split: option.split)
qed

section \<open>Lookup\<close>

text \<open>The step down: the nibble at the current depth exists exactly when the path is not the whole key.\<close>

lemma path_step:
  assumes "key_under p k"
  obtains (stop) "nibbles k = p" "get_index_for_depth (of_nat (length p)) k = None"
  | (down) i where "i < 16" "key_under (p @ [i]) k" "get_index_for_depth (of_nat (length p)) k = Some i"
      "of_nat (length p) + 1 = (of_nat (length (p @ [i])) :: u16)"
proof -
  have k: "prefix p (nibbles k)" "length k < 2 ^ 15" using assms by (simp_all add: key_under_def key_ok_def)
  then obtain r where r: "nibbles k = p @ r" by (auto elim: prefixE)
  have "length p \<le> 2 * length k" using k(1) prefix_length_le by fastforce
  then have ix: "get_index_for_depth (of_nat (length p)) k =
      (if length p < length (nibbles k) then Some (nibbles k ! length p) else None)"
    using k(2) by (intro index_nibble) simp
  show ?thesis
  proof (cases r)
    case Nil
    then show ?thesis using stop r ix by simp
  next
    case (Cons i r')
    then have "i < 16" using nibbles_bound [of i k] r by simp
    moreover have "key_under (p @ [i]) k" using Cons r assms by (simp add: key_under_def)
    ultimately show ?thesis using down r ix Cons by (simp add: add.commute)
  qed
qed

lemma leaf_get_entries: "map_option entry_kv (leaf_get k vs) = map_option (Pair k) (om_get (map entry_kv vs) k)"
  by (induction vs) (auto simp: leaf_get_def entry_kv_def)

lemma node_get_entries:
  "node_wf p n \<Longrightarrow> key_under p k \<Longrightarrow>
    map_option entry_kv (node_get (of_nat (length p)) k n) = map_option (Pair k) (om_get (node_entries n) k)"
proof (induction n arbitrary: p)
  case (Leaf vs)
  then show ?case by (simp add: leaf_get_entries)
next
  case (Tree len leaf bs)
  then have t: "tree_wf p leaf bs" by (simp add: node_wf_Tree_iff)
  from Tree.prems(2) show ?case
  proof (cases rule: path_step)
    case stop
    have "om_get (concat (map branch_entries bs)) k = None"
      using tree_entries_off_path [OF t stop(1)] by (simp add: om_get_None_iff)
    moreover have "le_key_bytes e = k" if "leaf = Some e" for e
      using t that stop(1) unfolding tree_wf_def by (metis nibbles_inject)
    ultimately show ?thesis
      using stop(2) by (cases leaf) (auto simp: om_get_append entry_kv_def)
  next
    case (down i)
    have "i < length bs" using t down(1) by (simp add: tree_wf_def)
    then have br: "branch bs i = bs ! i" by (simp add: branch_def)
    show ?thesis
    proof (cases "bs ! i")
      case None
      then show ?thesis using down br om_get_branch [OF t down(1,2), of len] by simp
    next
      case (Some b)
      then have "Some b \<in> set bs" using \<open>i < length bs\<close> by (metis nth_mem)
      moreover have "node_wf (p @ [i]) b" using t down(1) Some by (simp add: tree_wf_def)
      ultimately have "map_option entry_kv (node_get (of_nat (length (p @ [i]))) k b) =
          map_option (Pair k) (om_get (node_entries b) k)"
        using Tree.IH [of "Some b" b "p @ [i]"] down(2) by (simp only: option.set_intros)
      then show ?thesis using down br Some om_get_branch [OF t down(1,2), of len] by (simp add: add.commute)
    qed
  qed
qed

section \<open>Insertion\<close>

definition inserts ::
  "nat list \<Rightarrow> ('k, 'v) leaf_entry \<Rightarrow> ('k, 'v) node \<Rightarrow> ('k, 'v) insert_result \<Rightarrow> bool" where
  "inserts p e n r \<longleftrightarrow> (\<exists>n'. r = Some (n', om_get (node_entries n) (le_key_bytes e)) \<and> node_wf p n' \<and>
     node_entries n' = om_insert (le_key_bytes e) (entry_pair e) (node_entries n))"

lemma insert_not_empty: "om_insert k v m \<noteq> []"
  by (cases "(k, v, m)" rule: om_insert.cases) auto

lemma empty_node_wf [simp]: "node_wf p empty_node" "node_entries empty_node = []"
  by (simp_all add: empty_node_def)

lemma tree_wf_update:
  assumes "tree_wf p leaf bs" "i < 16" "\<And>n. b = Some n \<Longrightarrow> node_wf (p @ [i]) n \<and> node_entries n \<noteq> []"
  shows "tree_wf p leaf (bs[i := b])"
  using assms unfolding tree_wf_def by (auto simp: nth_list_update)

lemma tree_insert_entries:
  assumes t: "tree_wf p leaf bs" and len: "len = length (node_entries (Tree len leaf bs))"
    and k: "key_under p (le_key_bytes e)"
    and ins: "\<And>i n. key_under (p @ [i]) (le_key_bytes e) \<Longrightarrow> node_wf (p @ [i]) n \<Longrightarrow>
      inserts (p @ [i]) e n (ins e n)"
  shows "\<exists>len' leaf' bs'. tree_insert ins (of_nat (length p)) e (Tree len leaf bs) =
      Some (Tree len' leaf' bs', om_get (node_entries (Tree len leaf bs)) (le_key_bytes e)) \<and>
    tree_wf p leaf' bs' \<and> len' = length (node_entries (Tree len' leaf' bs')) \<and> len \<le> len' \<and>
    node_entries (Tree len' leaf' bs') =
      om_insert (le_key_bytes e) (entry_pair e) (node_entries (Tree len leaf bs))"
proof -
  let ?k = "le_key_bytes e" and ?m = "node_entries (Tree len leaf bs)"
  have wf: "om_wf ?m" using tree_wf_entries [OF t] by blast
  have count: "length (om_insert ?k (entry_pair e) ?m) = (if om_get ?m ?k = None then Suc len else len)"
    using length_om_insert [OF wf] len by simp
  from k show ?thesis
  proof (cases rule: path_step)
    case stop
    let ?rest = "concat (map branch_entries bs)"
    have off: "?k \<notin> fst ` set ?rest" by (rule tree_entries_off_path [OF t stop(1)])
    have key: "le_key_bytes e' = ?k" if "leaf = Some e'" for e'
      using t that stop(1) unfolding tree_wf_def by (metis nibbles_inject)
    have above: "\<forall>l \<in> fst ` set ?rest. ?k < l"
    proof
      fix l assume "l \<in> fst ` set ?rest"
      then obtain b where "b \<in> set bs" "l \<in> fst ` set (branch_entries b)" by auto
      then obtain i where "i < 16" "l \<in> fst ` set (branch_entries (bs ! i))"
        using t by (metis in_set_conv_nth tree_wf_def)
      then show "?k < l" using leaf_less [OF stop(1)] branch_key_path [OF t] by blast
    qed
    have get: "om_get ?m ?k = map_option entry_pair leaf"
    proof (cases leaf)
      case None
      then show ?thesis using off by (simp add: om_get_None_iff)
    next
      case (Some e')
      then show ?thesis using key by (simp add: entry_kv_def)
    qed
    have "om_insert ?k (entry_pair e) ?m = om_insert ?k (entry_pair e) (opt_entries leaf) @ ?rest"
      using om_insert_append_left [OF above] by simp
    also have "om_insert ?k (entry_pair e) (opt_entries leaf) = opt_entries (Some e)"
      using key by (cases leaf) (auto simp: entry_kv_def)
    finally have ent: "node_entries (Tree n (Some e) bs) = om_insert ?k (entry_pair e) ?m" for n
      by simp
    have "tree_wf p (Some e) bs" using t stop(1) k by (simp add: tree_wf_def key_under_def)
    moreover have "tree_insert ins (of_nat (length p)) e (Tree len leaf bs) =
        Some (Tree (length (om_insert ?k (entry_pair e) ?m)) (Some e) bs, om_get ?m ?k)"
      using stop(2) unfolding count get by (cases leaf) simp_all
    ultimately show ?thesis
      using ent count by (intro exI [of _ "length (om_insert ?k (entry_pair e) ?m)"] exI [of _ "Some e"]
          exI [of _ bs]) (simp del: node_entries_Tree)
  next
    case (down i)
    have i: "i < length bs" using t down(1) by (simp add: tree_wf_def)
    then have br: "branch bs i = bs ! i" by (simp add: branch_def)
    let ?b = "case bs ! i of None \<Rightarrow> empty_node | Some b \<Rightarrow> b"
    have "node_wf (p @ [i]) ?b" using t down(1) by (cases "bs ! i") (simp_all add: tree_wf_def)
    from ins [OF down(2) this] obtain b' where b': "ins e ?b = Some (b', om_get (node_entries ?b) ?k)"
      "node_wf (p @ [i]) b'" "node_entries b' = om_insert ?k (entry_pair e) (node_entries ?b)"
      unfolding inserts_def by blast
    have be: "node_entries ?b = branch_entries (bs ! i)" by (cases "bs ! i") simp_all
    have "om_insert ?k (entry_pair e) ?m =
        left_of leaf bs i @ om_insert ?k (entry_pair e) (branch_entries (bs ! i)) @ right_of bs i"
      unfolding tree_entries_split [OF i] using around_branch [OF t down(1,2)]
      by (simp only: om_insert_append_right om_insert_append_left)
    then have ent: "node_entries (Tree n leaf (bs[i := Some b'])) = om_insert ?k (entry_pair e) ?m" for n
      unfolding tree_entries_update [OF i] by (simp only: branch_entries_simps b'(3) be)
    have "tree_wf p leaf (bs[i := Some b'])"
      by (rule tree_wf_update [OF t down(1)]) (use b' in \<open>auto simp: insert_not_empty\<close>)
    moreover have "om_get (node_entries ?b) ?k = om_get ?m ?k"
      unfolding be om_get_branch [OF t down(1,2)] ..
    moreover from this have "tree_insert ins (of_nat (length p)) e (Tree len leaf bs) =
        Some (Tree (length (om_insert ?k (entry_pair e) ?m)) leaf (bs[i := Some b']), om_get ?m ?k)"
      using down(3) br b'(1) unfolding count by (cases "om_get ?m ?k") simp_all
    ultimately show ?thesis
      using ent count by (intro exI [of _ "length (om_insert ?k (entry_pair e) ?m)"] exI [of _ leaf]
          exI [of _ "bs[i := Some b']"]) (simp del: node_entries_Tree)
  qed
qed

lemma tree_insert_all_entries:
  assumes "tree_wf p leaf bs" "len = length (node_entries (Tree len leaf bs))"
    and "\<And>e. e \<in> set es \<Longrightarrow> key_under p (le_key_bytes e)"
    and "\<And>e i n. e \<in> set es \<Longrightarrow> key_under (p @ [i]) (le_key_bytes e) \<Longrightarrow> node_wf (p @ [i]) n \<Longrightarrow>
      inserts (p @ [i]) e n (ins e n)"
  shows "\<exists>len' leaf' bs'. tree_insert_all ins (of_nat (length p)) es (Tree len leaf bs) = Some (Tree len' leaf' bs') \<and>
    tree_wf p leaf' bs' \<and> len' = length (node_entries (Tree len' leaf' bs')) \<and>
    node_entries (Tree len' leaf' bs') =
      foldl (\<lambda>m e. om_insert (fst e) (snd e) m) (node_entries (Tree len leaf bs)) (map entry_kv es)"
  using assms
proof (induction es arbitrary: len leaf bs)
  case Nil
  then show ?case by (intro exI [of _ len] exI [of _ leaf] exI [of _ bs]) (simp del: node_entries_Tree)
next
  case (Cons e es)
  have k: "key_under p (le_key_bytes e)"
    using Cons.prems(3) [of e] by simp
  from tree_insert_entries [OF Cons.prems(1,2) k, of ins] Cons.prems(4) [of e]
  obtain len1 leaf1 bs1 v where 1: "tree_insert ins (of_nat (length p)) e (Tree len leaf bs) = Some (Tree len1 leaf1 bs1, v)"
    "tree_wf p leaf1 bs1" "len1 = length (node_entries (Tree len1 leaf1 bs1))"
    "node_entries (Tree len1 leaf1 bs1) =
      om_insert (le_key_bytes e) (entry_pair e) (node_entries (Tree len leaf bs))"
    by (auto simp del: node_entries_Tree)
  have "\<exists>len' leaf' bs'. tree_insert_all ins (of_nat (length p)) es (Tree len1 leaf1 bs1) = Some (Tree len' leaf' bs') \<and>
    tree_wf p leaf' bs' \<and> len' = length (node_entries (Tree len' leaf' bs')) \<and>
    node_entries (Tree len' leaf' bs') =
      foldl (\<lambda>m e. om_insert (fst e) (snd e) m) (node_entries (Tree len1 leaf1 bs1)) (map entry_kv es)"
    by (rule Cons.IH [OF 1(2,3)]) (use Cons.prems(3,4) in auto)
  then show ?case unfolding 1(4) by (simp del: node_entries_Tree tree_insert.simps add: 1(1))
qed

lemma replace_entry_None:
  "replace_entry e vs = None \<longleftrightarrow> om_get (map entry_kv vs) (le_key_bytes e) = None"
  by (induction vs) (auto simp: entry_kv_def)

lemma replace_entry_Some:
  assumes "om_wf (map entry_kv vs)" "replace_entry e vs = Some (vs', old)"
  shows "map entry_kv vs' = om_insert (le_key_bytes e) (entry_pair e) (map entry_kv vs) \<and>
    om_get (map entry_kv vs) (le_key_bytes e) = Some (entry_pair old) \<and> length vs' = length vs \<and>
    set vs' \<subseteq> insert e (set vs)"
  using assms
proof (induction vs arbitrary: vs')
  case (Cons x vs)
  show ?case
  proof (cases "le_key_bytes x = le_key_bytes e")
    case True
    then show ?thesis using Cons.prems by (auto simp: entry_kv_def [of e])
  next
    case False
    with Cons.prems obtain vs1 where 1: "replace_entry e vs = Some (vs1, old)" "vs' = x # vs1" by auto
    with Cons have IH: "map entry_kv vs1 = om_insert (le_key_bytes e) (entry_pair e) (map entry_kv vs)"
      "om_get (map entry_kv vs) (le_key_bytes e) = Some (entry_pair old)" "length vs1 = length vs"
      "set vs1 \<subseteq> insert e (set vs)"
      by auto
    have "(le_key_bytes e, entry_pair old) \<in> set (map entry_kv vs)" using IH(2) by (rule om_get_in_set)
    then have "le_key_bytes x < le_key_bytes e"
      using Cons.prems(1) by (auto simp: image_iff) (metis entry_kv_simps(1) fst_conv)
    then show ?thesis using IH 1 False by auto
  qed
qed simp

lemma sort_entries:
  assumes "om_wf (map entry_kv vs)" "om_get (map entry_kv vs) (le_key_bytes e) = None"
  shows "map entry_kv (sort_key le_key_bytes (vs @ [e])) =
    om_insert (le_key_bytes e) (entry_pair e) (map entry_kv vs)"
proof (rule om_set_ext)
  let ?s = "sort_key le_key_bytes (vs @ [e])"
  have keys: "map fst (map entry_kv xs) = map le_key_bytes xs" for xs :: "('a, 'b) leaf_entry list"
    by (simp add: comp_def)
  have "distinct (map le_key_bytes (vs @ [e]))"
    using om_wf_distinct [OF assms(1)] assms(2) unfolding keys om_get_None_iff by (auto simp: image_image)
  then have "distinct (map le_key_bytes ?s)"
    by (metis distinct_map distinct_sort set_sort)
  moreover have "sorted (map le_key_bytes ?s)" by simp
  ultimately show "om_wf (map entry_kv ?s)"
    unfolding om_wf_def keys by (simp add: strict_sorted_iff)
  show "om_wf (om_insert (le_key_bytes e) (entry_pair e) (map entry_kv vs))"
    using assms(1) by (rule om_wf_insert)
  show "set (map entry_kv ?s) = set (om_insert (le_key_bytes e) (entry_pair e) (map entry_kv vs))"
    using assms(2) by (simp add: set_om_insert_fresh om_get_None_iff entry_kv_def [of e] image_Un)
qed

lemma leaf_insert_entries:
  assumes vs: "node_wf p (Leaf vs)"
    and k: "key_under p (le_key_bytes e)"
    and ins: "\<And>x i n. x \<in> set (e # vs) \<Longrightarrow> key_under (p @ [i]) (le_key_bytes x) \<Longrightarrow> node_wf (p @ [i]) n \<Longrightarrow>
      inserts (p @ [i]) x n (ins x n)"
  shows "inserts p e (Leaf vs) (leaf_insert ins (of_nat (length p)) e vs)"
proof (cases "replace_entry e vs")
  case (Some r)
  then obtain vs' old where r: "replace_entry e vs = Some (vs', old)" by (cases r) auto
  from vs have "om_wf (map entry_kv vs)" by simp
  from replace_entry_Some [OF this r] vs k show ?thesis
    by (auto simp: inserts_def leaf_insert_def r insert_not_empty intro: om_wf_insert)
next
  case None
  then have get: "om_get (map entry_kv vs) (le_key_bytes e) = None" by (simp add: replace_entry_None)
  have wf: "om_wf (map entry_kv vs)" using vs by simp
  show ?thesis
  proof (cases "length vs < 16")
    case True
    have "om_wf (om_insert (le_key_bytes e) (entry_pair e) (map entry_kv vs))"
      using wf by (rule om_wf_insert)
    then have "node_wf p (Leaf (sort_key le_key_bytes (vs @ [e])))"
      using True vs k by (auto simp: sort_entries [OF wf get])
    then show ?thesis
      using True None get by (simp add: inserts_def leaf_insert_def sort_entries [OF wf get])
  next
    case False
    then have 16: "length vs = 16" using vs by simp
    have new: "tree_wf p None (replicate 16 (None :: ('a, 'b) node option))"
      by (simp add: tree_wf_def)
    have empty: "node_entries (Tree 0 None (replicate 16 (None :: ('a, 'b) node option))) = []"
      by simp
    have "\<exists>len' leaf' bs'. tree_insert_all ins (of_nat (length p)) (e # vs) (Tree 0 None (replicate 16 None)) =
        Some (Tree len' leaf' bs') \<and> tree_wf p leaf' bs' \<and> len' = length (node_entries (Tree len' leaf' bs')) \<and>
      node_entries (Tree len' leaf' bs') =
        foldl (\<lambda>m e. om_insert (fst e) (snd e) m) (node_entries (Tree 0 None (replicate 16 (None :: ('a, 'b) node option))))
          (map entry_kv (e # vs))"
      by (rule tree_insert_all_entries [OF new]) (use empty vs k ins in auto)
    then obtain len' leaf' bs' where t: "tree_insert_all ins (of_nat (length p)) (e # vs) tree_new = Some (Tree len' leaf' bs')"
      "tree_wf p leaf' bs'" "len' = length (node_entries (Tree len' leaf' bs'))"
      and ent: "node_entries (Tree len' leaf' bs') =
        foldl (\<lambda>m e. om_insert (fst e) (snd e) m) [(le_key_bytes e, entry_pair e)] (map entry_kv vs)"
      unfolding empty by (auto simp: tree_new_def entry_kv_def simp del: node_entries_Tree tree_insert_all.simps)
    have ent: "node_entries (Tree len' leaf' bs') = om_insert (le_key_bytes e) (entry_pair e) (map entry_kv vs)"
      unfolding ent by (rule om_foldl_insert_singleton [OF wf get])
    have "len' = 17" using t(3) length_om_insert [OF wf] get 16 unfolding ent by simp
    then have "node_wf p (Tree len' leaf' bs')" using t(2,3) by (simp add: node_wf_Tree_iff del: node_entries_Tree)
    then show ?thesis
      using None False t(1) ent get
      by (simp add: inserts_def leaf_insert_def del: node_entries_Tree tree_insert_all.simps)
  qed
qed

text \<open>Every nibble of a key takes one unit of fuel, so \<open>2 ^ 16\<close> units are enough for every key.\<close>

lemma node_insert_entries:
  fixes n :: "('k, 'v) node"
  shows "node_wf p n \<Longrightarrow> key_under p (le_key_bytes e) \<Longrightarrow> 2 ^ 16 \<le> fuel + length p \<Longrightarrow>
     inserts p e n (node_insert fuel (of_nat (length p)) e n)"
proof (induction fuel arbitrary: p e n)
  case 0
  then have "length p \<le> 2 * length (le_key_bytes e)"
    unfolding key_under_def using prefix_length_le by fastforce
  then show ?case using 0 by (simp add: key_under_def key_ok_def)
next
  case (Suc fuel)
  have ins: "inserts (p @ [i]) x m (node_insert fuel (of_nat (length p) + 1) x m)"
    if "key_under (p @ [i]) (le_key_bytes x)" "node_wf (p @ [i]) m"
    for x :: "('k, 'v) leaf_entry" and i m
    using Suc.IH [OF that(2,1)] Suc.prems(3) by (simp add: add.commute)
  show ?case
  proof (cases n)
    case (Leaf vs)
    have "inserts p e (Leaf vs) (leaf_insert (node_insert fuel (of_nat (length p) + 1)) (of_nat (length p)) e vs)"
      by (rule leaf_insert_entries [OF Suc.prems(1) [unfolded Leaf] Suc.prems(2)]) (rule ins)
    then show ?thesis using Leaf by simp
  next
    case (Tree len leaf bs)
    then have t: "16 < len" "len = length (node_entries (Tree len leaf bs))" "tree_wf p leaf bs"
      using Suc.prems(1) by (simp_all add: node_wf_Tree_iff del: node_entries_Tree)
    have "\<exists>len' leaf' bs'. tree_insert (node_insert fuel (of_nat (length p) + 1)) (of_nat (length p)) e (Tree len leaf bs) =
        Some (Tree len' leaf' bs', om_get (node_entries (Tree len leaf bs)) (le_key_bytes e)) \<and>
      tree_wf p leaf' bs' \<and> len' = length (node_entries (Tree len' leaf' bs')) \<and> len \<le> len' \<and>
      node_entries (Tree len' leaf' bs') =
        om_insert (le_key_bytes e) (entry_pair e) (node_entries (Tree len leaf bs))"
      by (rule tree_insert_entries [OF t(3,2) Suc.prems(2)]) (rule ins)
    then show ?thesis
      using t(1) unfolding Tree inserts_def
      by (auto simp: node_wf_Tree_iff simp del: node_entries_Tree tree_insert.simps)
  qed
qed

section \<open>Removal keeps the entries\<close>

lemma node_len_entries: "node_wf p n \<Longrightarrow> node_len n = length (node_entries n)"
  by (cases n) (simp_all add: node_wf_Tree_iff)

lemma node_is_empty_iff: "node_wf p n \<Longrightarrow> node_is_empty n \<longleftrightarrow> node_entries n = []"
proof (cases n)
  case (Tree len leaf bs)
  assume "node_wf p n"
  then have "16 < length (node_entries n)" by (simp add: Tree node_wf_Tree_iff)
  then have "node_entries n \<noteq> []" by (metis list.size(3) not_less_zero)
  then show ?thesis using Tree by simp
qed simp

lemma below_leaf: "below p (map entry_kv vs) \<longleftrightarrow> (\<forall>e \<in> set vs. key_under p (le_key_bytes e))"
  by (auto simp: below_def)

lemma into_node_wf:
  assumes "tree_wf p leaf bs" "len = length (node_entries (Tree len leaf bs))"
  shows "node_wf p (into_node_after_removal (Tree len leaf bs)) \<and>
    node_entries (into_node_after_removal (Tree len leaf bs)) = node_entries (Tree len leaf bs)"
proof (cases "len \<le> 16")
  case True
  let ?vs = "drain_entries (Tree len leaf bs)"
  have m: "map entry_kv ?vs = node_entries (Tree len leaf bs)" by (simp only: node_entries_def)
  moreover have "length ?vs = len" using assms(2) m by (metis length_map)
  ultimately show ?thesis
    using True tree_wf_entries [OF assms(1), of len]
    by (simp del: drain_entries.simps node_entries_Tree add: below_leaf [symmetric])
next
  case False
  then show ?thesis using assms by (simp add: node_wf_Tree_iff)
qed

lemma leaf_remove_entries:
  assumes "om_wf (map entry_kv vs)" "leaf_remove k vs = (vs', v)"
  shows "map entry_kv vs' = om_remove k (map entry_kv vs) \<and> v = om_get (map entry_kv vs) k \<and> set vs' \<subseteq> set vs"
  using assms
proof (induction vs arbitrary: vs')
  case (Cons e vs)
  have cons: "om_remove k (entry_kv e # m) = (if le_key_bytes e = k then om_remove k m else entry_kv e # om_remove k m)"
    for m :: "(bytes, 'a \<times> 'b) omap"
    by (simp add: om_remove_def)
  show ?case
  proof (cases "le_key_bytes e = k")
    case True
    then have "om_remove k (map entry_kv vs) = map entry_kv vs"
      using Cons.prems(1) by (intro om_remove_absent) auto
    then show ?thesis using True Cons.prems(2) cons by auto
  next
    case False
    then show ?thesis using Cons cons by (auto split: prod.splits)
  qed
qed (simp add: om_remove_def)

lemma node_remove_entries:
  "node_wf p n \<Longrightarrow> key_under p k \<Longrightarrow>
    \<exists>n'. node_remove (of_nat (length p)) k n = (n', om_get (node_entries n) k) \<and> node_wf p n' \<and>
      node_entries n' = om_remove k (node_entries n)"
proof (induction n arbitrary: p)
  case (Leaf vs)
  obtain vs' v where r: "leaf_remove k vs = (vs', v)" by (cases "leaf_remove k vs")
  have wf: "om_wf (map entry_kv vs)" using Leaf.prems by simp
  from leaf_remove_entries [OF wf r] have e: "map entry_kv vs' = om_remove k (map entry_kv vs)"
    "v = om_get (map entry_kv vs) k" "set vs' \<subseteq> set vs" by blast+
  have "length (map entry_kv vs') \<le> length (map entry_kv vs)"
    unfolding e(1) using length_om_remove [OF wf, of k] by (simp split: if_splits)
  then have "length vs' \<le> length vs" by simp
  then have "node_wf p (Leaf vs')" using e om_wf_remove [OF wf, of k] Leaf.prems by auto
  then show ?case using r e by simp
next
  case (Tree len leaf bs)
  let ?m = "node_entries (Tree len leaf bs)"
  have t: "16 < len" "len = length ?m" "tree_wf p leaf bs"
    using Tree.prems(1) by (simp_all add: node_wf_Tree_iff del: node_entries_Tree)
  have wf: "om_wf ?m" using tree_wf_entries [OF t(3)] by blast
  from length_om_remove [OF wf, of k]
  have count: "length (om_remove k ?m) = (if om_get ?m k = None then len else len - 1)"
    using t(2) by simp
  from Tree.prems(2) show ?case
  proof (cases rule: path_step)
    case stop
    have off: "k \<notin> fst ` set (concat (map branch_entries bs))"
      by (rule tree_entries_off_path [OF t(3) stop(1)])
    show ?thesis
    proof (cases leaf)
      case None
      then have "om_get ?m k = None" "om_remove k ?m = ?m"
        using off by (simp_all add: om_get_None_iff)
      then show ?thesis using stop(2) None Tree.prems(1) by (simp del: node_entries_Tree)
    next
      case (Some e)
      then have key: "le_key_bytes e = k"
        using t(3) stop(1) unfolding tree_wf_def by (metis nibbles_inject)
      have get: "om_get ?m k = Some (entry_pair e)" using Some key by simp
      have rm: "node_entries (Tree (len - 1) None bs) = om_remove k ?m"
        using Some key om_remove_absent [OF off] by (simp add: om_remove_def)
      have "tree_wf p None bs" using t(3) by (simp add: tree_wf_def)
      moreover have "len - 1 = length (node_entries (Tree (len - 1) None bs))"
        unfolding rm count get by simp
      ultimately show ?thesis
        using into_node_wf [of p None bs "len - 1"] stop(2) Some key
        unfolding rm get by (simp del: node_entries_Tree into_node_after_removal.simps)
    qed
  next
    case (down i)
    have i: "i < length bs" using t(3) down(1) by (simp add: tree_wf_def)
    then have br: "branch bs i = bs ! i" by (simp add: branch_def)
    note get = om_get_branch [OF t(3) down(1,2), of len]
    have rm: "om_remove k ?m = left_of leaf bs i @ om_remove k (branch_entries (bs ! i)) @ right_of bs i"
      unfolding tree_entries_split [OF i] using around_branch_absent [OF t(3) down(1,2)] by simp
    show ?thesis
    proof (cases "bs ! i")
      case None
      then have "om_get ?m k = None" using get by simp
      moreover have "om_remove k ?m = ?m"
        using rm None unfolding tree_entries_split [OF i] by (simp add: om_remove_def)
      ultimately show ?thesis
        using down(3) br None Tree.prems(1) by (simp del: node_entries_Tree)
    next
      case (Some b)
      have b: "node_wf (p @ [i]) b" using t(3) down(1) Some by (simp add: tree_wf_def)
      have "Some b \<in> set bs" using Some i by (metis nth_mem)
      from Tree.IH [OF this _ b down(2)] obtain b' where
        b': "node_remove (of_nat (length p) + 1) k b = (b', om_get (node_entries b) k)" "node_wf (p @ [i]) b'"
        "node_entries b' = om_remove k (node_entries b)"
        unfolding down(4) by auto
      let ?b = "if node_is_empty b' then None else Some b'"
      have be: "branch_entries ?b = om_remove k (branch_entries (bs ! i))"
        using b'(3) node_is_empty_iff [OF b'(2)] Some by simp
      have ent: "node_entries (Tree l leaf (bs[i := ?b])) = om_remove k ?m" for l
        unfolding tree_entries_update [OF i] rm be ..
      have wf': "tree_wf p leaf (bs[i := ?b])"
        by (rule tree_wf_update [OF t(3) down(1)]) (use b'(2) node_is_empty_iff [OF b'(2)] in \<open>auto split: if_splits\<close>)
      show ?thesis
      proof (cases "om_get (node_entries b) k")
        case None
        then have "om_get ?m k = None" using get Some by simp
        moreover from this have "node_wf p (Tree len leaf (bs[i := ?b]))"
          unfolding node_wf_Tree_iff ent count using wf' t(1) by simp
        ultimately show ?thesis
          using down(3) br Some b'(1) None ent by (simp del: node_entries_Tree add: Let_def)
      next
        case (Some v)
        then have g: "om_get ?m k = Some v" using get \<open>bs ! i = Some b\<close> by simp
        then have "len - 1 = length (node_entries (Tree (len - 1) leaf (bs[i := ?b])))"
          unfolding ent count by simp
        from into_node_wf [OF wf' this] show ?thesis
          using down(3) br \<open>bs ! i = Some b\<close> b'(1) Some g
          unfolding ent by (simp del: node_entries_Tree into_node_after_removal.simps add: Let_def)
      qed
    qed
  qed
qed

section \<open>The shape of the trie depends on its entries only\<close>

lemma opt_entries_filter:
  assumes "tree_wf p leaf bs"
  shows "opt_entries leaf = filter (\<lambda>e. nibbles (fst e) = p) (node_entries (Tree len leaf bs))"
proof -
  have "filter (\<lambda>e. nibbles (fst e) = p) (concat (map branch_entries bs)) = []"
    unfolding filter_empty_conv using tree_entries_off_path [OF assms] by (metis image_eqI)
  moreover have "filter (\<lambda>e. nibbles (fst e) = p) (opt_entries leaf) = opt_entries leaf"
    using assms by (cases leaf) (simp_all add: tree_wf_def)
  ultimately show ?thesis by simp
qed

lemma branch_entries_filter:
  assumes "tree_wf p leaf bs" "i < 16"
  shows "branch_entries (bs ! i) = filter (\<lambda>e. key_under (p @ [i]) (fst e)) (node_entries (Tree len leaf bs))"
proof -
  let ?f = "filter (\<lambda>e. key_under (p @ [i]) (fst e))"
  have i: "i < length bs" using assms by (simp add: tree_wf_def)
  have "?f (branch_entries (bs ! i)) = branch_entries (bs ! i)"
    using branch_key_path [OF assms] by (auto simp: filter_id_conv)
  moreover have "?f (left_of leaf bs i) = []" "?f (right_of bs i) = []"
    unfolding filter_empty_conv using around_branch_absent [OF assms] by (metis image_eqI)+
  ultimately show ?thesis unfolding tree_entries_split [OF i] by simp
qed

lemma entry_kv_map_inject: "map entry_kv vs = map entry_kv ws \<Longrightarrow> vs = ws"
  by (metis entry_kv_inject injI list.inj_map_strong)

lemma node_wf_unique:
  "node_wf p m \<Longrightarrow> node_wf p n \<Longrightarrow> node_entries m = node_entries n \<Longrightarrow> m = n"
proof (induction m arbitrary: p n)
  case (Leaf vs)
  show ?case
  proof (cases n)
    case (Leaf ws)
    then show ?thesis using Leaf.prems entry_kv_map_inject by simp
  next
    case (Tree len leaf bs)
    then have "length vs \<le> 16" "16 < length (node_entries n)"
      using Leaf.prems by (simp_all add: node_wf_Tree_iff)
    then show ?thesis using Leaf.prems(3) by (metis length_map node_entries_Leaf not_less)
  qed
next
  case (Tree len leaf bs)
  then have m: "16 < len" "len = length (node_entries (Tree len leaf bs))" "tree_wf p leaf bs"
    by (simp_all add: node_wf_Tree_iff del: node_entries_Tree)
  show ?case
  proof (cases n)
    case (Leaf ws)
    then have "length ws \<le> 16" "length ws = len" using Tree.prems(2,3) m(2) by auto
    then show ?thesis using m(1) by simp
  next
    case n: (Tree len' leaf' bs')
    then have n': "len' = length (node_entries (Tree len' leaf' bs'))" "tree_wf p leaf' bs'"
      using Tree.prems(2) by (simp_all add: node_wf_Tree_iff del: node_entries_Tree)
    have eq: "node_entries (Tree len leaf bs) = node_entries (Tree len' leaf' bs')"
      using Tree.prems(3) n by simp
    have "opt_entries leaf = opt_entries leaf'"
      using opt_entries_filter [OF m(3), of len] opt_entries_filter [OF n'(2), of len'] eq by (simp del: node_entries_Tree)
    then have leaf: "leaf = leaf'" by (cases leaf; cases leaf') simp_all
    have "bs = bs'"
    proof (rule nth_equalityI)
      show "length bs = length bs'" using m(3) n'(2) by (simp add: tree_wf_def)
      fix i assume "i < length bs"
      then have i: "i < 16" using m(3) by (simp add: tree_wf_def)
      have e: "branch_entries (bs ! i) = branch_entries (bs' ! i)"
        using branch_entries_filter [OF m(3) i, of len] branch_entries_filter [OF n'(2) i, of len'] eq by (simp del: node_entries_Tree)
      show "bs ! i = bs' ! i"
      proof (cases "bs ! i"; cases "bs' ! i")
        fix b b' assume b: "bs ! i = Some b" "bs' ! i = Some b'"
        then have "Some b \<in> set bs" using \<open>i < length bs\<close> by (metis nth_mem)
        moreover have "node_wf (p @ [i]) b" "node_wf (p @ [i]) b'"
          using b i m(3) n'(2) by (simp_all add: tree_wf_def)
        ultimately have "b = b'" using Tree.IH [of "Some b" b] e b by simp
        then show ?thesis using b by simp
      qed (use e i m(3) n'(2) in \<open>auto simp: tree_wf_def\<close>)
    qed
    then show ?thesis using leaf n m(2) n'(1) eq by simp
  qed
qed

section \<open>\<open>MerkleMap\<close>\<close>

text \<open>\<open>to_key\<close> is \<open>ToMerkleKey\<close> of the key type.\<close>

definition map_insert :: "('k \<Rightarrow> bytes) \<Rightarrow> 'k \<Rightarrow> 'v \<Rightarrow> ('k, 'v) node \<Rightarrow> ('k, 'v) insert_result" where
  "map_insert to_key k v m =
     node_insert (2 ^ 16) 0 \<lparr>le_key_bytes = to_key k, le_key = k, le_value = v\<rparr> m"

definition map_get :: "('k \<Rightarrow> bytes) \<Rightarrow> 'k \<Rightarrow> ('k, 'v) node \<Rightarrow> 'v option" where
  "map_get to_key k m = map_option le_value (node_get 0 (to_key k) m)"

definition map_contains_key :: "('k \<Rightarrow> bytes) \<Rightarrow> 'k \<Rightarrow> ('k, 'v) node \<Rightarrow> bool" where
  "map_contains_key to_key k m = (map_get to_key k m \<noteq> None)"

definition map_remove :: "('k \<Rightarrow> bytes) \<Rightarrow> 'k \<Rightarrow> ('k, 'v) node \<Rightarrow> ('k, 'v) node \<times> ('k \<times> 'v) option" where
  "map_remove to_key k m = node_remove 0 (to_key k) m"

text \<open>\<open>get_mut\<close>, used to replace the value it points to by \<open>f\<close> of it.\<close>

fun leaf_get_mut :: "bytes \<Rightarrow> ('v \<Rightarrow> 'v) \<Rightarrow> ('k, 'v) leaf_entry list \<Rightarrow> ('k, 'v) leaf_entry list option" where
  "leaf_get_mut key f [] = None"
| "leaf_get_mut key f (e # es) =
     (if le_key_bytes e = key then Some (e\<lparr>le_value := f (le_value e)\<rparr> # es)
      else map_option (Cons e) (leaf_get_mut key f es))"

fun node_get_mut :: "u16 \<Rightarrow> bytes \<Rightarrow> ('v \<Rightarrow> 'v) \<Rightarrow> ('k, 'v) node \<Rightarrow> ('k, 'v) node option" where
  "node_get_mut depth key f (Leaf vs) = map_option Leaf (leaf_get_mut key f vs)"
| "node_get_mut depth key f (Tree len leaf bs) =
     (case get_index_for_depth depth key of
        None \<Rightarrow> map_option (\<lambda>e. Tree len (Some (e\<lparr>le_value := f (le_value e)\<rparr>)) bs) leaf
      | Some i \<Rightarrow>
          (case branch bs i of
             None \<Rightarrow> None
           | Some b \<Rightarrow> map_option (\<lambda>b'. Tree len leaf (bs[i := Some b'])) (node_get_mut (depth + 1) key f b)))"

definition updates_entry :: "bytes \<Rightarrow> ('v \<Rightarrow> 'v) \<Rightarrow> (bytes, 'k \<times> 'v) omap \<Rightarrow> (bytes, 'k \<times> 'v) omap option" where
  "updates_entry k f m = map_option (\<lambda>(x, v). om_insert k (x, f v) m) (om_get m k)"

lemma leaf_get_mut_entries:
  assumes "om_wf (map entry_kv vs)"
  shows "map_option (map entry_kv) (leaf_get_mut k f vs) = updates_entry k f (map entry_kv vs)"
  using assms
proof (induction vs)
  case (Cons e vs)
  have same: "entry_kv (e\<lparr>le_value := x\<rparr>) = (le_key_bytes e, (le_key e, x))" for x
    by (simp add: entry_kv_def entry_pair_def)
  show ?case
  proof (cases "le_key_bytes e = k")
    case True
    then show ?thesis using same by (simp add: updates_entry_def entry_pair_def)
  next
    case False
    have IH: "map_option (map entry_kv) (leaf_get_mut k f vs) = updates_entry k f (map entry_kv vs)"
      using Cons by simp
    show ?thesis
    proof (cases "om_get (map entry_kv vs) k")
      case None
      then show ?thesis using IH False by (auto simp: updates_entry_def)
    next
      case (Some xv)
      obtain x v where xv: "xv = (x, v)" by (cases xv)
      obtain vs' where vs': "leaf_get_mut k f vs = Some vs'" "map entry_kv vs' = om_insert k (x, f v) (map entry_kv vs)"
        using IH Some xv by (auto simp: updates_entry_def)
      have "(k, xv) \<in> set (map entry_kv vs)" using Some by (rule om_get_in_set)
      then have "k \<in> fst ` set (map entry_kv vs)" by (rule image_eqI [rotated]) simp
      then have "le_key_bytes e < k" using Cons.prems by auto
      then show ?thesis using False Some xv vs' by (auto simp: updates_entry_def)
    qed
  qed
qed (simp add: updates_entry_def)

lemma leaf_get_mut_keys:
  "leaf_get_mut k f vs = Some vs' \<Longrightarrow> map le_key_bytes vs' = map le_key_bytes vs"
  by (induction vs arbitrary: vs') (auto split: if_splits)

lemma node_get_mut_entries:
  "node_wf p n \<Longrightarrow> key_under p k \<Longrightarrow>
     map_option node_entries (node_get_mut (of_nat (length p)) k f n) = updates_entry k f (node_entries n) \<and>
     (\<forall>n'. node_get_mut (of_nat (length p)) k f n = Some n' \<longrightarrow> node_wf p n')"
proof (induction n arbitrary: p)
  case (Leaf vs)
  then have wf: "om_wf (map entry_kv vs)" by simp
  note e = leaf_get_mut_entries [OF wf, of k f]
  have "node_wf p (Leaf vs')" if v: "leaf_get_mut k f vs = Some vs'" for vs'
  proof -
    have "map fst (map entry_kv vs') = map fst (map entry_kv vs)"
      using leaf_get_mut_keys [OF v] by (simp add: comp_def)
    then have "om_wf (map entry_kv vs')" using wf unfolding om_wf_def by simp
    moreover have keys: "le_key_bytes ` set vs' = le_key_bytes ` set vs"
      using leaf_get_mut_keys [OF v] by (metis set_map)
    have "\<forall>x \<in> le_key_bytes ` set vs'. key_under p x"
      unfolding keys using Leaf.prems(1) by simp
    moreover have "length vs' = length vs" using leaf_get_mut_keys [OF v] by (metis length_map)
    ultimately show ?thesis using Leaf.prems(1) by simp
  qed
  then show ?case using e by (cases "leaf_get_mut k f vs") auto
next
  case (Tree len leaf bs)
  let ?m = "node_entries (Tree len leaf bs)"
  have t: "16 < len" "len = length ?m" "tree_wf p leaf bs"
    using Tree.prems(1) by (simp_all add: node_wf_Tree_iff del: node_entries_Tree)
  have wf: "om_wf ?m" using tree_wf_entries [OF t(3)] by blast
  from Tree.prems(2) show ?case
  proof (cases rule: path_step)
    case stop
    have off: "k \<notin> fst ` set (concat (map branch_entries bs))"
      by (rule tree_entries_off_path [OF t(3) stop(1)])
    show ?thesis
    proof (cases leaf)
      case None
      then have "om_get ?m k = None" using off by (simp add: om_get_None_iff)
      then show ?thesis using stop(2) None by (simp add: updates_entry_def del: node_entries_Tree)
    next
      case (Some e)
      let ?e = "e\<lparr>le_value := f (le_value e)\<rparr>"
      have key: "le_key_bytes e = k"
        using Some t(3) stop(1) unfolding tree_wf_def by (metis nibbles_inject)
      have kv: "entry_kv ?e = (k, (le_key e, f (le_value e)))"
        using key by (simp add: entry_kv_def entry_pair_def)
      have "updates_entry k f ?m = Some (node_entries (Tree len (Some ?e) bs))"
        using Some key kv by (simp add: updates_entry_def entry_pair_def)
      moreover have "tree_wf p (Some ?e) bs" using t(3) Some by (simp add: tree_wf_def)
      moreover have "len = length (node_entries (Tree len (Some ?e) bs))" using t(2) Some by simp
      ultimately show ?thesis
        using stop(2) Some t(1) by (simp add: node_wf_Tree_iff del: node_entries_Tree)
    qed
  next
    case (down i)
    have i: "i < length bs" using t(3) down(1) by (simp add: tree_wf_def)
    then have br: "branch bs i = bs ! i" by (simp add: branch_def)
    note get = om_get_branch [OF t(3) down(1,2), of len]
    show ?thesis
    proof (cases "bs ! i")
      case None
      then show ?thesis using get down(3) br by (simp add: updates_entry_def del: node_entries_Tree)
    next
      case (Some b)
      have b: "node_wf (p @ [i]) b" using t(3) down(1) Some by (simp add: tree_wf_def)
      have "Some b \<in> set bs" using Some i by (metis nth_mem)
      from Tree.IH [OF this _ b down(2)] have
        IH: "map_option node_entries (node_get_mut (of_nat (length p) + 1) k f b) = updates_entry k f (node_entries b)"
        "\<And>b'. node_get_mut (of_nat (length p) + 1) k f b = Some b' \<Longrightarrow> node_wf (p @ [i]) b'"
        unfolding down(4) by auto
      show ?thesis
      proof (cases "om_get (node_entries b) k")
        case None
        then have "node_get_mut (of_nat (length p) + 1) k f b = None" using IH(1) by (simp add: updates_entry_def)
        moreover have "om_get ?m k = None" using get Some None by simp
        ultimately show ?thesis using down(3) br Some by (simp add: updates_entry_def del: node_entries_Tree)
      next
        case (Some xv)
        obtain x v where xv: "xv = (x, v)" by (cases xv)
        obtain b' where b': "node_get_mut (of_nat (length p) + 1) k f b = Some b'"
          "node_entries b' = om_insert k (x, f v) (node_entries b)"
          using IH(1) Some xv by (auto simp: updates_entry_def)
        have g: "om_get ?m k = Some (x, v)" using get \<open>bs ! i = Some b\<close> Some xv by simp
        have ent: "node_entries (Tree len leaf (bs[i := Some b'])) = om_insert k (x, f v) ?m"
          unfolding tree_entries_update [OF i] unfolding tree_entries_split [OF i]
          using around_branch [OF t(3) down(1,2)] b'(2) \<open>bs ! i = Some b\<close>
          by (simp add: om_insert_append_right om_insert_append_left)
        have wf': "tree_wf p leaf (bs[i := Some b'])"
          by (rule tree_wf_update [OF t(3) down(1)]) (use IH(2) [OF b'(1)] b'(2) in \<open>auto simp: insert_not_empty\<close>)
        have "node_wf p (Tree len leaf (bs[i := Some b']))"
          unfolding node_wf_Tree_iff ent using length_om_insert [OF wf] g t(1,2) wf' by simp
        then show ?thesis
          using down(3) br \<open>bs ! i = Some b\<close> b'(1) g ent by (simp add: updates_entry_def del: node_entries_Tree)
      qed
    qed
  qed
qed

definition map_get_or_insert ::
  "('k \<Rightarrow> bytes) \<Rightarrow> 'k \<Rightarrow> 'v \<Rightarrow> ('v \<Rightarrow> 'v) \<Rightarrow> ('k, 'v) node \<Rightarrow> ('k, 'v) node option" where
  "map_get_or_insert to_key k def f m =
     (case node_get 0 (to_key k) m of
        Some _ \<Rightarrow> node_get_mut 0 (to_key k) f m
      | None \<Rightarrow>
          (case map_insert to_key k def m of
             None \<Rightarrow> None
           | Some (m', _) \<Rightarrow> node_get_mut 0 (to_key k) f m'))"

fun map_from_iter :: "('k \<Rightarrow> bytes) \<Rightarrow> ('k \<times> 'v) list \<Rightarrow> ('k, 'v) node \<Rightarrow> ('k, 'v) node option" where
  "map_from_iter to_key [] m = Some m"
| "map_from_iter to_key ((k, v) # es) m =
     (case map_insert to_key k v m of None \<Rightarrow> None | Some (m', _) \<Rightarrow> map_from_iter to_key es m')"

lemma key_under_Nil [simp]: "key_under [] k \<longleftrightarrow> key_ok k"
  by (simp add: key_under_def)

definition trie_insert :: "bytes \<Rightarrow> 'k \<times> 'v \<Rightarrow> ('k, 'v) node \<Rightarrow> ('k, 'v) node" where
  "trie_insert key kv m =
     (case node_insert (2 ^ 16) 0 \<lparr>le_key_bytes = key, le_key = fst kv, le_value = snd kv\<rparr> m of
        None \<Rightarrow> m | Some (m', _) \<Rightarrow> m')"

lemma node_insert_root:
  assumes "node_wf [] m" "key_ok (le_key_bytes e)"
  shows "node_insert (2 ^ 16) 0 e m =
    Some (trie_insert (le_key_bytes e) (entry_pair e) m, om_get (node_entries m) (le_key_bytes e)) \<and>
    node_wf [] (trie_insert (le_key_bytes e) (entry_pair e) m) \<and>
    node_entries (trie_insert (le_key_bytes e) (entry_pair e) m) =
      om_insert (le_key_bytes e) (entry_pair e) (node_entries m)"
proof -
  have "inserts [] e m (node_insert (2 ^ 16) 0 e m)"
    using node_insert_entries [of "[]" m e "2 ^ 16"] assms by simp
  moreover have "\<lparr>le_key_bytes = le_key_bytes e, le_key = fst (entry_pair e), le_value = snd (entry_pair e)\<rparr> = e"
    by (cases e) (simp add: entry_pair_def)
  ultimately show ?thesis by (auto simp: inserts_def trie_insert_def)
qed

lemma node_get_root:
  assumes "node_wf [] m" "key_ok k"
  shows "map_option entry_pair (node_get 0 k m) = om_get (node_entries m) k"
proof -
  have "map_option entry_kv (node_get 0 k m) = map_option (Pair k) (om_get (node_entries m) k)"
    using node_get_entries [of "[]" m k] assms by simp
  then show ?thesis by (cases "node_get 0 k m"; cases "om_get (node_entries m) k") (auto simp: entry_kv_def)
qed

lemma node_remove_root:
  assumes "node_wf [] m" "key_ok k"
  shows "snd (node_remove 0 k m) = om_get (node_entries m) k \<and> node_wf [] (fst (node_remove 0 k m)) \<and>
    node_entries (fst (node_remove 0 k m)) = om_remove k (node_entries m)"
  using node_remove_entries [of "[]" m k] assms by auto

interpretation trie: ordered_map "node_wf []" node_entries empty_node
  "\<lambda>m k. map_option entry_pair (node_get 0 k m)" trie_insert "\<lambda>k m. fst (node_remove 0 k m)" key_ok
proof unfold_locales
  fix m :: "('a, 'b) node" and k and v :: "'a \<times> 'b"
  assume m: "node_wf [] m" "key_ok k"
  from node_insert_root [OF m(1), of "\<lparr>le_key_bytes = k, le_key = fst v, le_value = snd v\<rparr>"] m(2)
  show "node_wf [] (trie_insert k v m)" "node_entries (trie_insert k v m) = om_insert k v (node_entries m)"
    by (simp_all add: entry_pair_def)
qed (simp_all add: node_wf_entries node_get_root node_remove_root)

end
