(* ===== verification/Merkle_Iter.thy ===== *)
theory Merkle_Iter
  imports Merkle_Map
begin

text \<open>
  Iteration over a \<open>MerkleMap\<close> (\<open>merkle-map/src/impls/iter.rs\<close>): the double-ended range iterator,
  which keeps no position but searches the trie for the entry after or before its bounds, and the
  consuming iterator, which pops the first entry.  \<open>remaining\<close> abstracts an iterator to the entries
  still inside its bounds; \<open>next\<close> takes the first and \<open>next_back\<close> the last of them.
\<close>

section \<open>First and last entry\<close>

fun find_map :: "('a \<Rightarrow> 'b option) \<Rightarrow> 'a list \<Rightarrow> 'b option" where
  "find_map f [] = None"
| "find_map f (x # xs) = (case f x of Some y \<Rightarrow> Some y | None \<Rightarrow> find_map f xs)"

lemma find_map_cong [fundef_cong]:
  "xs = ys \<Longrightarrow> (\<And>x. x \<in> set ys \<Longrightarrow> f x = g x) \<Longrightarrow> find_map f xs = find_map g ys"
  by (induction xs arbitrary: ys) (auto split: option.splits)

fun find_first_entry :: "('k, 'v) node \<Rightarrow> ('k, 'v) leaf_entry option" where
  "find_first_entry (Leaf vs) = (case vs of [] \<Rightarrow> None | e # _ \<Rightarrow> Some e)"
| "find_first_entry (Tree len leaf bs) =
     (case leaf of
        Some e \<Rightarrow> Some e
      | None \<Rightarrow> find_map (\<lambda>b. case b of None \<Rightarrow> None | Some n \<Rightarrow> find_first_entry n) bs)"

fun find_last_entry :: "('k, 'v) node \<Rightarrow> ('k, 'v) leaf_entry option" where
  "find_last_entry (Leaf vs) = (if vs = [] then None else Some (last vs))"
| "find_last_entry (Tree len leaf bs) =
     (case find_map (\<lambda>b. case b of None \<Rightarrow> None | Some n \<Rightarrow> find_last_entry n) (rev bs) of
        Some e \<Rightarrow> Some e
      | None \<Rightarrow> leaf)"

definition first_of :: "('k, 'v) node option \<Rightarrow> ('k, 'v) leaf_entry option" where
  "first_of b = (case b of None \<Rightarrow> None | Some n \<Rightarrow> find_first_entry n)"

definition last_of :: "('k, 'v) node option \<Rightarrow> ('k, 'v) leaf_entry option" where
  "last_of b = (case b of None \<Rightarrow> None | Some n \<Rightarrow> find_last_entry n)"

section \<open>Neighbours of a key\<close>

fun find_entry_after :: "u16 \<Rightarrow> bytes \<Rightarrow> ('k, 'v) node \<Rightarrow> ('k, 'v) leaf_entry option" where
  "find_entry_after depth key (Leaf vs) = find (\<lambda>e. key < le_key_bytes e) vs"
| "find_entry_after depth key (Tree len leaf bs) =
     (if \<exists>e \<in> set_option leaf. key < le_key_bytes e then leaf
      else let i = (case get_index_for_depth depth key of None \<Rightarrow> 0 | Some i \<Rightarrow> i)
           in case (case branch bs i of None \<Rightarrow> None | Some b \<Rightarrow> find_entry_after (depth + 1) key b) of
                Some e \<Rightarrow> Some e
              | None \<Rightarrow> find_map first_of (drop (Suc i) bs))"

fun find_entry_before :: "u16 \<Rightarrow> bytes \<Rightarrow> ('k, 'v) node \<Rightarrow> ('k, 'v) leaf_entry option" where
  "find_entry_before depth key (Leaf vs) = find (\<lambda>e. le_key_bytes e < key) (rev vs)"
| "find_entry_before depth key (Tree len leaf bs) =
     (let i = (case get_index_for_depth depth key of None \<Rightarrow> 0 | Some i \<Rightarrow> i)
      in case (case branch bs i of None \<Rightarrow> None | Some b \<Rightarrow> find_entry_before (depth + 1) key b) of
           Some e \<Rightarrow> Some e
         | None \<Rightarrow>
             (case find_map last_of (rev (take i bs)) of
                Some e \<Rightarrow> Some e
              | None \<Rightarrow> if \<exists>e \<in> set_option leaf. le_key_bytes e < key then leaf else None))"

section \<open>The iterator\<close>

datatype bound = Included bytes | Excluded bytes | Unbounded

record ('k, 'v) iter =
  it_node :: "('k, 'v) node"
  it_start :: bound
  it_end :: bound

definition node_iter :: "('k, 'v) node \<Rightarrow> ('k, 'v) iter" where
  "node_iter n = \<lparr>it_node = n, it_start = Unbounded, it_end = Unbounded\<rparr>"

definition node_range :: "bound \<Rightarrow> bound \<Rightarrow> ('k, 'v) node \<Rightarrow> ('k, 'v) iter" where
  "node_range s e n = \<lparr>it_node = n, it_start = s, it_end = e\<rparr>"

definition ends_meet :: "bytes \<Rightarrow> bool \<Rightarrow> bytes \<Rightarrow> bool \<Rightarrow> bool" where
  "ends_meet start start_inc end' end_inc =
     (if start < end' then False else if start = end' then \<not> start_inc \<and> \<not> end_inc else True)"

definition is_complete :: "('k, 'v) iter \<Rightarrow> bool" where
  "is_complete it = (case (it_start it, it_end it) of
     (Included s, Included e) \<Rightarrow> ends_meet s True e True
   | (Included s, Excluded e) \<Rightarrow> ends_meet s True e False
   | (Excluded s, Included e) \<Rightarrow> ends_meet s False e True
   | (Excluded s, Excluded e) \<Rightarrow> ends_meet s False e False
   | _ \<Rightarrow> False)"

definition next_entry :: "('k, 'v) iter \<Rightarrow> ('k, 'v) leaf_entry option" where
  "next_entry it =
     (let (key, included) = (case it_start it of
             Included s \<Rightarrow> (s, True) | Excluded s \<Rightarrow> (s, False) | Unbounded \<Rightarrow> ([], True))
      in if included
         then (case node_get 0 key (it_node it) of
                 Some e \<Rightarrow> Some e
               | None \<Rightarrow> find_entry_after 0 key (it_node it))
         else find_entry_after 0 key (it_node it))"

definition iter_next :: "('k, 'v) iter \<Rightarrow> ('k \<times> 'v) option \<times> ('k, 'v) iter" where
  "iter_next it =
     (if is_complete it then (None, it)
      else case next_entry it of
        None \<Rightarrow> (None, it)
      | Some e \<Rightarrow>
          let it' = it\<lparr>it_start := Excluded (le_key_bytes e)\<rparr>
          in case it_end it of
               Included end' \<Rightarrow> if end' < le_key_bytes e then (None, it') else (Some (entry_pair e), it')
             | Excluded end' \<Rightarrow> if end' \<le> le_key_bytes e then (None, it') else (Some (entry_pair e), it')
             | Unbounded \<Rightarrow> (Some (entry_pair e), it'))"

definition back_entry :: "('k, 'v) iter \<Rightarrow> ('k, 'v) leaf_entry option" where
  "back_entry it =
     (let (key, entry) = (case it_end it of
             Included e \<Rightarrow> (Some e, node_get 0 e (it_node it))
           | Excluded e \<Rightarrow> (Some e, None)
           | Unbounded \<Rightarrow> (None, find_last_entry (it_node it)))
      in case entry of
           Some e \<Rightarrow> Some e
         | None \<Rightarrow> (case key of None \<Rightarrow> None | Some k \<Rightarrow> find_entry_before 0 k (it_node it)))"

definition iter_next_back :: "('k, 'v) iter \<Rightarrow> ('k \<times> 'v) option \<times> ('k, 'v) iter" where
  "iter_next_back it =
     (if is_complete it then (None, it)
      else case back_entry it of
        None \<Rightarrow> (None, it)
      | Some e \<Rightarrow>
          let it' = it\<lparr>it_end := Excluded (le_key_bytes e)\<rparr>
          in case it_start it of
               Included start \<Rightarrow> if le_key_bytes e < start then (None, it') else (Some (entry_pair e), it')
             | Excluded start \<Rightarrow> if le_key_bytes e \<le> start then (None, it') else (Some (entry_pair e), it')
             | Unbounded \<Rightarrow> (Some (entry_pair e), it'))"

section \<open>The consuming iterator\<close>

text \<open>The branches up to and including the first that yields an entry; emptied ones are cleared.\<close>

fun node_pop_first :: "('k, 'v) node \<Rightarrow> ('k \<times> 'v) option \<times> ('k, 'v) node"
  and branches_pop_first :: "('k, 'v) node option list \<Rightarrow> ('k \<times> 'v) option \<times> ('k, 'v) node option list" where
  "node_pop_first (Leaf vs) = (case vs of [] \<Rightarrow> (None, Leaf vs) | e # es \<Rightarrow> (Some (entry_pair e), Leaf es))"
| "node_pop_first (Tree len leaf bs) =
     (case leaf of
        Some e \<Rightarrow> (Some (entry_pair e), Tree len None bs)
      | None \<Rightarrow> (case branches_pop_first bs of (v, bs') \<Rightarrow> (v, Tree len None bs')))"
| "branches_pop_first [] = (None, [])"
| "branches_pop_first (b # bs) =
     (case (case b of None \<Rightarrow> (None, None)
            | Some n \<Rightarrow> (case node_pop_first n of (v, n') \<Rightarrow> (v, if node_is_empty n' then None else Some n'))) of
        (Some v, b') \<Rightarrow> (Some v, b' # bs)
      | (None, b') \<Rightarrow> (case branches_pop_first bs of (v, bs') \<Rightarrow> (v, b' # bs')))"

section \<open>Searching an ordered list of entries\<close>

definition om_after :: "'k::linorder \<Rightarrow> ('k, 'v) omap \<Rightarrow> ('k \<times> 'v) option" where
  "om_after k m = find (\<lambda>e. k < fst e) m"

definition om_before :: "'k::linorder \<Rightarrow> ('k, 'v) omap \<Rightarrow> ('k \<times> 'v) option" where
  "om_before k m = find (\<lambda>e. fst e < k) (rev m)"

lemma find_append: "find P (xs @ ys) = (case find P xs of None \<Rightarrow> find P ys | Some x \<Rightarrow> Some x)"
  by (induction xs) auto

lemma find_None: "\<forall>x \<in> set xs. \<not> P x \<Longrightarrow> find P xs = None"
  by (simp add: find_None_iff)

lemma om_after_append:
  "om_after k (m @ n) = (case om_after k m of None \<Rightarrow> om_after k n | Some e \<Rightarrow> Some e)"
  unfolding om_after_def by (rule find_append)

lemma om_before_append:
  "om_before k (m @ n) = (case om_before k n of None \<Rightarrow> om_before k m | Some e \<Rightarrow> Some e)"
  unfolding om_before_def rev_append by (rule find_append)

lemma om_after_all_below: "\<forall>l \<in> fst ` set m. \<not> k < l \<Longrightarrow> om_after k m = None"
  by (auto simp: om_after_def intro!: find_None)

lemma om_before_all_above: "\<forall>l \<in> fst ` set m. \<not> l < k \<Longrightarrow> om_before k m = None"
  by (auto simp: om_before_def intro!: find_None)

lemma om_after_all_above: "\<forall>l \<in> fst ` set m. k < l \<Longrightarrow> om_after k m = om_first m"
  by (cases m) (auto simp: om_after_def om_first_def)

lemma om_before_all_below: "\<forall>l \<in> fst ` set m. l < k \<Longrightarrow> om_before k m = om_last m"
  by (cases m rule: rev_cases) (auto simp: om_before_def om_last_def)

lemma om_first_append: "om_first (m @ n) = (case om_first m of None \<Rightarrow> om_first n | Some e \<Rightarrow> Some e)"
  by (cases m) (auto simp: om_first_def)

lemma om_last_append: "om_last (m @ n) = (case om_last n of None \<Rightarrow> om_last m | Some e \<Rightarrow> Some e)"
  by (auto simp: om_last_def)

lemma find_map_first:
  "(\<And>b. b \<in> set bs \<Longrightarrow> map_option entry_kv (f b) = om_first (g b)) \<Longrightarrow>
     map_option entry_kv (find_map f bs) = om_first (concat (map g bs))"
proof (induction bs)
  case (Cons b bs)
  have "om_first (g b) = map_option entry_kv (f b)" using Cons.prems by simp
  then show ?case using Cons by (cases "f b") (simp_all add: om_first_append)
qed (simp add: om_first_def)

lemma find_map_last:
  "(\<And>b. b \<in> set bs \<Longrightarrow> map_option entry_kv (f b) = om_last (g b)) \<Longrightarrow>
     map_option entry_kv (find_map f bs) = om_last (concat (map g (rev bs)))"
proof (induction bs)
  case (Cons b bs)
  have "om_last (g b) = map_option entry_kv (f b)" using Cons.prems by simp
  then show ?case using Cons by (cases "f b") (simp_all add: om_last_append)
qed (simp add: om_last_def)

lemma om_first_Nil [simp]: "om_first [] = None"
  by (simp add: om_first_def)

lemma om_last_Nil [simp]: "om_last [] = None"
  by (simp add: om_last_def)

lemma find_first_entries: "map_option entry_kv (find_first_entry n) = om_first (node_entries n)"
proof (induction n)
  case (Leaf vs)
  then show ?case by (cases vs) (simp_all add: om_first_def)
next
  case (Tree len leaf bs)
  show ?case
  proof (cases leaf)
    case None
    have "map_option entry_kv (find_map (\<lambda>b. case b of None \<Rightarrow> None | Some n \<Rightarrow> find_first_entry n) bs) =
        om_first (concat (map branch_entries bs))"
    proof (rule find_map_first)
      fix b assume "b \<in> set bs"
      then show "map_option entry_kv (case b of None \<Rightarrow> None | Some n \<Rightarrow> find_first_entry n) = om_first (branch_entries b)"
        using Tree.IH [of b] by (auto split: option.split)
    qed
    then show ?thesis using None by simp
  qed (simp add: om_first_def)
qed

lemma find_last_entries: "map_option entry_kv (find_last_entry n) = om_last (node_entries n)"
proof (induction n)
  case (Leaf vs)
  then show ?case by (simp add: om_last_def last_map)
next
  case (Tree len leaf bs)
  have "map_option entry_kv (find_map (\<lambda>b. case b of None \<Rightarrow> None | Some n \<Rightarrow> find_last_entry n) (rev bs)) =
      om_last (concat (map branch_entries (rev (rev bs))))"
  proof (rule find_map_last)
    fix b assume "b \<in> set (rev bs)"
    then show "map_option entry_kv (case b of None \<Rightarrow> None | Some n \<Rightarrow> find_last_entry n) = om_last (branch_entries b)"
      using Tree.IH [of b] by (auto split: option.split)
  qed
  then have "map_option entry_kv (find_map (\<lambda>b. case b of None \<Rightarrow> None | Some n \<Rightarrow> find_last_entry n) (rev bs)) =
      om_last (concat (map branch_entries bs))" by simp
  moreover have "map_option entry_kv leaf = om_last (opt_entries leaf)"
    by (cases leaf) (simp_all add: om_last_def)
  ultimately show ?case by (auto simp: om_last_append split: option.splits)
qed

lemma first_of_entries: "map_option entry_kv (first_of b) = om_first (branch_entries b)"
  by (cases b) (simp_all add: first_of_def om_first_def find_first_entries)

lemma last_of_entries: "map_option entry_kv (last_of b) = om_last (branch_entries b)"
  by (cases b) (simp_all add: last_of_def om_last_def find_last_entries)

section \<open>The search follows the key, and past its end the first branches\<close>

definition on_track :: "nat list \<Rightarrow> bytes \<Rightarrow> bool" where
  "on_track p k \<longleftrightarrow> key_under p k \<or> key_ok k \<and> (\<exists>m. p = nibbles k @ replicate m 0)"

lemma on_track_locate:
  assumes t: "node_wf p (Tree len leaf bs)" and k: "on_track p k"
  defines "i \<equiv> (case get_index_for_depth (of_nat (length p)) k of None \<Rightarrow> 0 | Some i \<Rightarrow> i)"
  shows "i < 16 \<and> on_track (p @ [i]) k \<and>
    (\<forall>l \<in> fst ` set (concat (map branch_entries (take i bs))). l < k) \<and>
    (\<forall>l \<in> fst ` set (right_of bs i). k < l)"
proof -
  have w: "tree_wf p leaf bs" "16 < length (node_entries (Tree len leaf bs))"
    using t by (simp_all add: node_wf_Tree_iff del: node_entries_Tree)
  then obtain e where "e \<in> set (node_entries (Tree len leaf bs))"
    by (metis list.set_intros(1) list.size(3) neq_Nil_conv not_less_zero)
  then have "key_under p (fst e)" using node_wf_entries [OF t] by (auto simp: below_def)
  then have "length p < 2 ^ 16"
    unfolding key_under_def key_ok_def using prefix_length_le by fastforce
  note ix = index_nibble [OF this, of k]
  show ?thesis
  proof (cases "length p < length (nibbles k)")
    case True
    then have "key_under p k" using k unfolding on_track_def by auto
    then show ?thesis
    proof (cases rule: path_step)
      case (down j)
      then show ?thesis
        using around_branch [OF w(1) down(1,2)] by (auto simp: i_def on_track_def left_of_def)
    qed (use True in simp)
  next
    case False
    then have i: "i = 0" using ix by (simp add: i_def)
    obtain m where p: "p = nibbles k @ replicate m 0" "key_ok k"
    proof -
      have "\<exists>m. p = nibbles k @ replicate m 0"
      proof (cases "key_under p k")
        case True
        then have "p = nibbles k" using False unfolding key_under_def
          by (metis not_less not_equal_is_parallel parallelE prefix_length_le prefix_order.eq_iff le_antisym prefix_def append_eq_append_conv append_Nil2)
        then show ?thesis by (intro exI [of _ 0]) simp
      qed (use k in \<open>auto simp: on_track_def\<close>)
      then show ?thesis using that k by (auto simp: on_track_def key_under_def)
    qed
    have "on_track (p @ [0]) k"
      unfolding on_track_def using p by (intro disjI2 conjI exI [of _ "Suc m"]) (simp_all add: replicate_append_same)
    moreover have "k < l" if l: "l \<in> fst ` set (right_of bs 0)" for l
    proof -
      obtain b where "b \<in> set (drop (Suc 0) bs)" "l \<in> fst ` set (branch_entries b)"
        using l by (auto simp: right_of_def)
      then obtain j where "j < 16" "l \<in> fst ` set (branch_entries (bs ! j))"
        using w(1) unfolding tree_wf_def by (metis in_set_conv_nth in_set_dropD)
      then have "key_under (p @ [j]) l" using branch_key_path [OF w(1)] by blast
      then have "prefix (nibbles k @ (replicate m 0 @ [j])) (nibbles l)"
        using p by (simp add: key_under_def)
      then obtain r where "nibbles l = nibbles k @ ((replicate m 0 @ [j]) @ r)" by (auto elim!: prefixE)
      then show ?thesis unfolding nibbles_less by (cases m) simp_all
    qed
    ultimately show ?thesis using i by simp
  qed
qed

lemma find_map_entry: "find P (map entry_kv vs) = map_option entry_kv (find (\<lambda>e. P (entry_kv e)) vs)"
  by (induction vs) auto

text \<open>A search in the chosen branch, for either direction, is the search in its entries.\<close>

lemma search_branch:
  assumes t: "tree_wf p leaf bs" and i: "i < 16" and k: "on_track (p @ [i]) k"
    and IH: "\<And>b. Some b \<in> set bs \<Longrightarrow> node_wf (p @ [i]) b \<Longrightarrow> on_track (p @ [i]) k \<Longrightarrow>
      map_option entry_kv (f b) = g (node_entries b)"
    and g: "g [] = None"
  shows "map_option entry_kv (case branch bs i of None \<Rightarrow> None | Some b \<Rightarrow> f b) = g (branch_entries (bs ! i))"
proof -
  have len: "i < length bs" using t i by (simp add: tree_wf_def)
  show ?thesis
  proof (cases "bs ! i")
    case (Some b)
    then have "Some b \<in> set bs" "node_wf (p @ [i]) b"
      using t i len by (metis nth_mem, simp add: tree_wf_def)
    then show ?thesis using IH k Some len by (simp add: branch_def)
  qed (use g len in \<open>simp add: branch_def\<close>)
qed

lemma depth_Suc: "of_nat (length p) + 1 = (of_nat (length (p @ [i])) :: u16)"
  by (simp add: add.commute)

lemma find_entry_after_entries:
  "node_wf p n \<Longrightarrow> on_track p k \<Longrightarrow>
     map_option entry_kv (find_entry_after (of_nat (length p)) k n) = om_after k (node_entries n)"
proof (induction n arbitrary: p)
  case (Leaf vs)
  then show ?case by (simp add: om_after_def find_map_entry)
next
  case (Tree len leaf bs)
  have t: "tree_wf p leaf bs" using Tree.prems(1) by (simp add: node_wf_Tree_iff)
  define i where "i = (case get_index_for_depth (of_nat (length p)) k of None \<Rightarrow> 0 | Some i \<Rightarrow> i)"
  from on_track_locate [OF Tree.prems] have i: "i < 16" "on_track (p @ [i]) k"
    "\<forall>l \<in> fst ` set (concat (map branch_entries (take i bs))). l < k"
    "\<forall>l \<in> fst ` set (right_of bs i). k < l" unfolding i_def by blast+
  have len: "i < length bs" using t i(1) by (simp add: tree_wf_def)
  show ?case
  proof (cases "\<exists>e \<in> set_option leaf. k < le_key_bytes e")
    case True
    then show ?thesis by (auto simp: om_after_def)
  next
    case False
    then have "om_after k (opt_entries leaf) = None" by (cases leaf) (simp_all add: om_after_def)
    moreover have "om_after k (concat (map branch_entries (take i bs))) = None"
      by (rule om_after_all_below) (use i(3) less_asym in blast)
    ultimately have "om_after k (left_of leaf bs i) = None"
      by (simp add: left_of_def om_after_append)
    then have "om_after k (node_entries (Tree len leaf bs)) =
        (case om_after k (branch_entries (bs ! i)) of
           None \<Rightarrow> om_first (right_of bs i) | Some e \<Rightarrow> Some e)"
      unfolding tree_entries_split [OF len] by (simp add: om_after_append om_after_all_above [OF i(4)] split: option.split)
    moreover have "map_option entry_kv (case branch bs i of None \<Rightarrow> None
        | Some b \<Rightarrow> find_entry_after (of_nat (length p) + 1) k b) = om_after k (branch_entries (bs ! i))"
    proof (rule search_branch [OF t i(1,2)])
      fix b assume "Some b \<in> set bs" "node_wf (p @ [i]) b" "on_track (p @ [i]) k"
      then show "map_option entry_kv (find_entry_after (of_nat (length p) + 1) k b) = om_after k (node_entries b)"
        unfolding depth_Suc [of p i] by (intro Tree.IH [of "Some b"]) simp_all
    qed (simp add: om_after_def)
    moreover have "map_option entry_kv (find_map first_of (drop (Suc i) bs)) = om_first (right_of bs i)"
      unfolding right_of_def by (rule find_map_first) (rule first_of_entries)
    ultimately show ?thesis
      using False by (auto simp: i_def [symmetric] Let_def simp del: node_entries_Tree split: option.splits)
  qed
qed

lemma find_entry_before_entries:
  "node_wf p n \<Longrightarrow> on_track p k \<Longrightarrow>
     map_option entry_kv (find_entry_before (of_nat (length p)) k n) = om_before k (node_entries n)"
proof (induction n arbitrary: p)
  case (Leaf vs)
  then show ?case by (simp add: om_before_def rev_map find_map_entry)
next
  case (Tree len leaf bs)
  have t: "tree_wf p leaf bs" using Tree.prems(1) by (simp add: node_wf_Tree_iff)
  define i where "i = (case get_index_for_depth (of_nat (length p)) k of None \<Rightarrow> 0 | Some i \<Rightarrow> i)"
  from on_track_locate [OF Tree.prems] have i: "i < 16" "on_track (p @ [i]) k"
    "\<forall>l \<in> fst ` set (concat (map branch_entries (take i bs))). l < k"
    "\<forall>l \<in> fst ` set (right_of bs i). k < l" unfolding i_def by blast+
  have len: "i < length bs" using t i(1) by (simp add: tree_wf_def)
  have "om_before k (right_of bs i) = None"
    by (rule om_before_all_above) (use i(4) less_asym in blast)
  then have m: "om_before k (node_entries (Tree len leaf bs)) =
      (case om_before k (branch_entries (bs ! i)) of
         None \<Rightarrow> (case om_last (concat (map branch_entries (take i bs))) of
                   None \<Rightarrow> om_before k (opt_entries leaf) | Some e \<Rightarrow> Some e)
       | Some e \<Rightarrow> Some e)"
    unfolding tree_entries_split [OF len] left_of_def
    by (simp add: om_before_append om_before_all_below [OF i(3)] split: option.split)
  have 1: "map_option entry_kv (case branch bs i of None \<Rightarrow> None
      | Some b \<Rightarrow> find_entry_before (of_nat (length p) + 1) k b) = om_before k (branch_entries (bs ! i))"
    proof (rule search_branch [OF t i(1,2)])
      fix b assume "Some b \<in> set bs" "node_wf (p @ [i]) b" "on_track (p @ [i]) k"
      then show "map_option entry_kv (find_entry_before (of_nat (length p) + 1) k b) = om_before k (node_entries b)"
        unfolding depth_Suc [of p i] by (intro Tree.IH [of "Some b"]) simp_all
    qed (simp add: om_before_def)
  have "map_option entry_kv (find_map last_of (rev (take i bs))) = om_last (concat (map branch_entries (rev (rev (take i bs)))))"
    by (rule find_map_last) (rule last_of_entries)
  then have 2: "map_option entry_kv (find_map last_of (rev (take i bs))) = om_last (concat (map branch_entries (take i bs)))"
    by simp
  have 3: "map_option entry_kv (if \<exists>e \<in> set_option leaf. le_key_bytes e < k then leaf else None) =
      om_before k (opt_entries leaf)"
    by (cases leaf) (auto simp: om_before_def)
  show ?case
    unfolding m unfolding 1 [symmetric] 2 [symmetric] 3 [symmetric]
    by (simp add: i_def [symmetric] Let_def split: option.splits)
qed

section \<open>An iterator is the list of entries inside its bounds\<close>

fun lower :: "bound \<Rightarrow> bytes \<Rightarrow> bool" where
  "lower (Included b) k \<longleftrightarrow> b \<le> k"
| "lower (Excluded b) k \<longleftrightarrow> b < k"
| "lower Unbounded k \<longleftrightarrow> True"

fun upper :: "bound \<Rightarrow> bytes \<Rightarrow> bool" where
  "upper (Included b) k \<longleftrightarrow> k \<le> b"
| "upper (Excluded b) k \<longleftrightarrow> k < b"
| "upper Unbounded k \<longleftrightarrow> True"

fun bound_ok :: "bound \<Rightarrow> bool" where
  "bound_ok (Included b) \<longleftrightarrow> key_ok b"
| "bound_ok (Excluded b) \<longleftrightarrow> key_ok b"
| "bound_ok Unbounded \<longleftrightarrow> True"

definition iter_ok :: "('k, 'v) iter \<Rightarrow> bool" where
  "iter_ok it \<longleftrightarrow> node_wf [] (it_node it) \<and> bound_ok (it_start it) \<and> bound_ok (it_end it)"

definition remaining :: "('k, 'v) iter \<Rightarrow> (bytes, 'k \<times> 'v) omap" where
  "remaining it =
     filter (\<lambda>e. lower (it_start it) (fst e) \<and> upper (it_end it) (fst e)) (node_entries (it_node it))"

lemma lower_mono: "lower b k \<Longrightarrow> k < l \<Longrightarrow> lower b l"
  by (cases b) auto

lemma upper_mono: "upper b l \<Longrightarrow> k < l \<Longrightarrow> upper b k"
  by (cases b) auto

lemma filter_front:
  assumes "om_wf m" "\<And>k l. P k \<Longrightarrow> k < l \<Longrightarrow> P l" "\<And>k l. U l \<Longrightarrow> k < l \<Longrightarrow> U k"
  shows "filter (\<lambda>e. P (fst e) \<and> U (fst e)) m =
    (case find (\<lambda>e. P (fst e)) m of None \<Rightarrow> []
     | Some x \<Rightarrow> if U (fst x) then x # filter (\<lambda>e. fst x < fst e \<and> U (fst e)) m else [])"
  using assms(1)
proof (induction m)
  case (Cons e m)
  obtain k v where e: "e = (k, v)" by (cases e)
  have above: "\<forall>f \<in> set m. k < fst f" and wf: "om_wf m" using Cons.prems e by (auto simp: om_wf_Cons)
  show ?case
  proof (cases "P k")
    case True
    then have P: "\<forall>f \<in> set m. P (fst f)" using above assms(2) by blast
    show ?thesis
    proof (cases "U k")
      case True
      have "filter (\<lambda>f. P (fst f) \<and> U (fst f)) m = filter (\<lambda>f. k < fst f \<and> U (fst f)) m"
        by (rule filter_cong) (use P above in auto)
      then show ?thesis using \<open>P k\<close> True e by simp
    next
      case False
      then have "filter (\<lambda>f. P (fst f) \<and> U (fst f)) m = []"
        unfolding filter_empty_conv using above assms(3) by blast
      then show ?thesis using \<open>P k\<close> False e by simp
    qed
  next
    case False
    then have "\<not> fst x < k" if "find (\<lambda>e. P (fst e)) m = Some x" for x
      using that above by (auto simp: find_Some_iff dest!: nth_mem)
    then show ?thesis using False e Cons.IH [OF wf] by (auto split: option.split)
  qed
qed simp

lemma filter_back:
  assumes "om_wf m" "\<And>k l. P k \<Longrightarrow> k < l \<Longrightarrow> P l" "\<And>k l. U l \<Longrightarrow> k < l \<Longrightarrow> U k"
  shows "filter (\<lambda>e. P (fst e) \<and> U (fst e)) m =
    (case find (\<lambda>e. U (fst e)) (rev m) of None \<Rightarrow> []
     | Some x \<Rightarrow> if P (fst x) then filter (\<lambda>e. P (fst e) \<and> fst e < fst x) m @ [x] else [])"
  using assms(1)
proof (induction m rule: rev_induct)
  case (snoc e m)
  obtain k v where e: "e = (k, v)" by (cases e)
  have below: "\<forall>f \<in> set m. fst f < k" and wf: "om_wf m" using snoc.prems e by (auto simp: om_wf_append)
  show ?case
  proof (cases "U k")
    case True
    then have U: "\<forall>f \<in> set m. U (fst f)" using below assms(3) by blast
    show ?thesis
    proof (cases "P k")
      case True
      have "filter (\<lambda>f. P (fst f) \<and> U (fst f)) m = filter (\<lambda>f. P (fst f) \<and> fst f < k) m"
        by (rule filter_cong) (use U below in auto)
      then show ?thesis using \<open>U k\<close> True e by simp
    next
      case False
      then have "filter (\<lambda>f. P (fst f) \<and> U (fst f)) m = []"
        unfolding filter_empty_conv using below assms(2) by blast
      then show ?thesis using \<open>U k\<close> False e by simp
    qed
  next
    case False
    then have "\<not> k < fst x" if "find (\<lambda>e. U (fst e)) (rev m) = Some x" for x
    proof -
      have "x \<in> set (rev m)" using that by (metis find_Some_iff nth_mem)
      then show ?thesis using below less_asym by auto
    qed
    then show ?thesis using False e snoc.IH [OF wf] by (auto split: option.split)
  qed
qed simp

lemma find_Included:
  "om_wf m \<Longrightarrow> find (\<lambda>e. s \<le> fst e) m = (case om_get m s of Some v \<Rightarrow> Some (s, v) | None \<Rightarrow> om_after s m)"
proof (induction m)
  case (Cons e m)
  obtain k v where e: "e = (k, v)" by (cases e)
  have "om_get m s = None" if "s < k"
    using Cons.prems e that by (auto simp: om_wf_Cons om_get_None_iff)
  then show ?case
    using Cons e by (auto simp: om_wf_Cons om_after_def order.order_iff_strict split: option.split)
qed (simp add: om_after_def)

lemma find_last_Included:
  "om_wf m \<Longrightarrow> find (\<lambda>e. fst e \<le> s) (rev m) = (case om_get m s of Some v \<Rightarrow> Some (s, v) | None \<Rightarrow> om_before s m)"
proof (induction m rule: rev_induct)
  case (snoc e m)
  obtain k v where e: "e = (k, v)" by (cases e)
  have below: "\<forall>f \<in> set m. fst f < k" and wf: "om_wf m" using snoc.prems e by (auto simp: om_wf_append)
  have "om_get m s = None" if "k \<le> s"
    using below that by (auto simp: om_get_None_iff)
  then show ?case
    using snoc.IH [OF wf] e by (auto simp: om_get_append om_before_def order.order_iff_strict split: option.split)
qed (simp add: om_before_def)

lemma get_or_after:
  assumes "node_wf [] n" "key_ok s"
  shows "map_option entry_kv (case node_get 0 s n of Some e \<Rightarrow> Some e | None \<Rightarrow> find_entry_after 0 s n) =
    find (\<lambda>e. s \<le> fst e) (node_entries n)"
proof -
  have wf: "om_wf (node_entries n)" using node_wf_entries [OF assms(1)] by blast
  have "map_option entry_kv (node_get 0 s n) = map_option (Pair s) (om_get (node_entries n) s)"
    using node_get_entries [OF assms(1), of s] assms(2) by simp
  moreover have "map_option entry_kv (find_entry_after 0 s n) = om_after s (node_entries n)"
    using find_entry_after_entries [OF assms(1), of s] assms(2) by (simp add: on_track_def)
  ultimately show ?thesis
    unfolding find_Included [OF wf] by (auto split: option.splits)
qed

lemma next_entry_finds:
  assumes "iter_ok it"
  shows "map_option entry_kv (next_entry it) = find (\<lambda>e. lower (it_start it) (fst e)) (node_entries (it_node it))"
proof (cases "it_start it")
  case (Excluded s)
  then show ?thesis
    using find_entry_after_entries [of "[]" "it_node it" s] assms
    by (simp add: next_entry_def iter_ok_def on_track_def om_after_def)
next
  case (Included s)
  then show ?thesis
    using get_or_after [of "it_node it" s] assms by (simp add: next_entry_def iter_ok_def)
next
  case Unbounded
  then show ?thesis
    using get_or_after [of "it_node it" "[]"] assms
    by (simp add: next_entry_def iter_ok_def key_ok_def)
qed

lemma back_entry_finds:
  assumes "iter_ok it"
  shows "map_option entry_kv (back_entry it) = find (\<lambda>e. upper (it_end it) (fst e)) (rev (node_entries (it_node it)))"
proof (cases "it_end it")
  case (Excluded s)
  then show ?thesis
    using find_entry_before_entries [of "[]" "it_node it" s] assms
    by (simp add: back_entry_def iter_ok_def on_track_def om_before_def)
next
  case (Included s)
  let ?n = "it_node it"
  have n: "node_wf [] ?n" "key_ok s" using assms Included by (simp_all add: iter_ok_def)
  have wf: "om_wf (node_entries ?n)" using node_wf_entries [OF n(1)] by blast
  have "map_option entry_kv (node_get 0 s ?n) = map_option (Pair s) (om_get (node_entries ?n) s)"
    using node_get_entries [OF n(1), of s] n(2) by simp
  moreover have "map_option entry_kv (find_entry_before 0 s ?n) = om_before s (node_entries ?n)"
    using find_entry_before_entries [OF n(1), of s] n(2) by (simp add: on_track_def)
  ultimately show ?thesis
    using Included unfolding find_last_Included [OF wf] back_entry_def
    by (auto simp: find_last_Included [OF wf] split: option.splits)
next
  case Unbounded
  have "find (\<lambda>_. True) (rev m) = om_last m" for m :: "(bytes, 'a \<times> 'b) omap"
    by (cases m rule: rev_cases) (simp_all add: om_last_def)
  then show ?thesis
    using Unbounded find_last_entries [of "it_node it"] by (auto simp: back_entry_def split: option.split)
qed

lemma complete_nothing_left:
  assumes "is_complete it"
  shows "remaining it = []"
  unfolding remaining_def filter_empty_conv using assms
  by (cases "it_start it"; cases "it_end it") (auto simp: is_complete_def ends_meet_def split: if_splits)

lemma found_entry:
  assumes "iter_ok it" "e \<in> set (drain_entries (it_node it))"
  shows "key_ok (le_key_bytes e)"
proof -
  have "below [] (node_entries (it_node it))"
    using assms(1) node_wf_entries by (auto simp: iter_ok_def)
  moreover have "le_key_bytes e \<in> fst ` set (node_entries (it_node it))"
    using assms(2) by (force simp: node_entries_def)
  ultimately show ?thesis unfolding below_def key_under_Nil by (rule bspec)
qed

lemma found_in_node: "find P (node_entries n) = Some (entry_kv e) \<Longrightarrow> e \<in> set (drain_entries n)"
  by (auto simp: node_entries_def find_map_entry find_Some_iff)

lemma found_in_node_rev: "find P (rev (node_entries n)) = Some (entry_kv e) \<Longrightarrow> e \<in> set (drain_entries n)"
  by (auto simp: node_entries_def rev_map find_map_entry find_Some_iff rev_nth)

lemma iter_next_remaining:
  assumes ok: "iter_ok it" and n: "iter_next it = (x, it')"
  shows "iter_ok it' \<and> it_node it' = it_node it \<and>
    (case remaining it of
       [] \<Rightarrow> x = None \<and> remaining it' = []
     | r # rs \<Rightarrow> x = Some (snd r) \<and> remaining it' = rs)"
proof (cases "is_complete it")
  case True
  then have "it' = it" "x = None" using n by (simp_all add: iter_next_def)
  then show ?thesis using ok complete_nothing_left [OF True] by simp
next
  case False
  let ?m = "node_entries (it_node it)"
  have wf: "om_wf ?m" using ok node_wf_entries by (auto simp: iter_ok_def)
  note front = filter_front [OF wf, of "lower (it_start it)" "upper (it_end it)", OF lower_mono upper_mono]
  note found = next_entry_finds [OF ok, symmetric]
  show ?thesis
  proof (cases "next_entry it")
    case None
    then have "remaining it = []" using front by (simp add: remaining_def found)
    then show ?thesis using None False n ok by (simp add: iter_next_def)
  next
    case (Some e)
    then have "find (\<lambda>e. lower (it_start it) (fst e)) ?m = Some (entry_kv e)" by (simp add: found)
    then have "key_ok (le_key_bytes e)" using found_entry [OF ok] found_in_node by blast
    then have ok': "iter_ok (it\<lparr>it_start := Excluded (le_key_bytes e)\<rparr>)" using ok by (simp add: iter_ok_def)
    have rem': "remaining (it\<lparr>it_start := Excluded (le_key_bytes e)\<rparr>) =
        filter (\<lambda>f. le_key_bytes e < fst f \<and> upper (it_end it) (fst f)) ?m"
      by (simp add: remaining_def)
    have rem: "remaining it = (if upper (it_end it) (le_key_bytes e)
        then entry_kv e # filter (\<lambda>f. le_key_bytes e < fst f \<and> upper (it_end it) (fst f)) ?m else [])"
      using front Some by (simp add: remaining_def found)
    have it': "it' = it\<lparr>it_start := Excluded (le_key_bytes e)\<rparr>"
      "x = (if upper (it_end it) (le_key_bytes e) then Some (entry_pair e) else None)"
      using n False Some by (auto simp: iter_next_def Let_def not_less split: bound.splits if_splits)
    have "filter (\<lambda>f. le_key_bytes e < fst f \<and> upper (it_end it) (fst f)) ?m = []"
      if "\<not> upper (it_end it) (le_key_bytes e)"
      unfolding filter_empty_conv using that upper_mono by blast
    then show ?thesis using it' ok' rem rem' by simp
  qed
qed

lemma iter_next_back_remaining:
  assumes ok: "iter_ok it" and n: "iter_next_back it = (x, it')"
  shows "iter_ok it' \<and> it_node it' = it_node it \<and>
    (if remaining it = [] then x = None \<and> remaining it' = []
     else x = Some (snd (last (remaining it))) \<and> remaining it' = butlast (remaining it))"
proof (cases "is_complete it")
  case True
  then have "it' = it" "x = None" using n by (simp_all add: iter_next_back_def)
  then show ?thesis using ok complete_nothing_left [OF True] by simp
next
  case False
  let ?m = "node_entries (it_node it)"
  have wf: "om_wf ?m" using ok node_wf_entries by (auto simp: iter_ok_def)
  note behind = filter_back [OF wf, of "lower (it_start it)" "upper (it_end it)", OF lower_mono upper_mono]
  note found = back_entry_finds [OF ok, symmetric]
  show ?thesis
  proof (cases "back_entry it")
    case None
    then have "remaining it = []" using behind by (simp add: remaining_def found)
    then show ?thesis using None False n ok by (simp add: iter_next_back_def)
  next
    case (Some e)
    then have "find (\<lambda>e. upper (it_end it) (fst e)) (rev ?m) = Some (entry_kv e)" by (simp add: found)
    then have "key_ok (le_key_bytes e)" using found_entry [OF ok] found_in_node_rev by blast
    then have ok': "iter_ok (it\<lparr>it_end := Excluded (le_key_bytes e)\<rparr>)" using ok by (simp add: iter_ok_def)
    have rem': "remaining (it\<lparr>it_end := Excluded (le_key_bytes e)\<rparr>) =
        filter (\<lambda>f. lower (it_start it) (fst f) \<and> fst f < le_key_bytes e) ?m"
      by (simp add: remaining_def)
    have rem: "remaining it = (if lower (it_start it) (le_key_bytes e)
        then filter (\<lambda>f. lower (it_start it) (fst f) \<and> fst f < le_key_bytes e) ?m @ [entry_kv e] else [])"
      using behind Some by (simp add: remaining_def found)
    have it': "it' = it\<lparr>it_end := Excluded (le_key_bytes e)\<rparr>"
      "x = (if lower (it_start it) (le_key_bytes e) then Some (entry_pair e) else None)"
      using n False Some by (auto simp: iter_next_back_def Let_def not_less split: bound.splits if_splits)
    have "filter (\<lambda>f. lower (it_start it) (fst f) \<and> fst f < le_key_bytes e) ?m = []"
      if "\<not> lower (it_start it) (le_key_bytes e)"
      unfolding filter_empty_conv using that lower_mono by blast
    then show ?thesis using it' ok' rem rem' by simp
  qed
qed

section \<open>Popping entries\<close>

lemma drain_is_empty: "node_is_empty n \<Longrightarrow> drain_entries n = []"
  by (cases n) auto

lemma pop_first_entries:
  fixes n :: "('k, 'v) node" and bs :: "('k, 'v) node option list"
  shows "node_pop_first n = (v, n') \<Longrightarrow>
      v = map_option snd (om_first (node_entries n)) \<and> node_entries n' = tl (node_entries n)"
    and "branches_pop_first bs = (w, bs') \<Longrightarrow>
      w = map_option snd (om_first (concat (map branch_entries bs))) \<and>
      concat (map branch_entries bs') = tl (concat (map branch_entries bs))"
proof (induction n and bs arbitrary: v n' and w bs' rule: node_pop_first_branches_pop_first.induct)
  case (1 vs)
  then show ?case by (cases vs) (auto simp: om_first_def)
next
  case (2 len leaf bs)
  show ?case
  proof (cases leaf)
    case None
    obtain w bs' where b: "branches_pop_first bs = (w, bs')" by (cases "branches_pop_first bs")
    then show ?thesis using 2 None by auto
  qed (use 2 in \<open>auto simp: om_first_def\<close>)
next
  case 3
  then show ?case by simp
next
  case (4 b bs)
  show ?case
  proof (cases b)
    case None
    obtain w1 bs1 where b: "branches_pop_first bs = (w1, bs1)" by (cases "branches_pop_first bs")
    then show ?thesis using 4(2) [of None None w1 bs1] 4(3) None by auto
  next
    case (Some n)
    obtain v n' where p: "node_pop_first n = (v, n')" by (cases "node_pop_first n")
    have e: "v = map_option snd (om_first (node_entries n))" "node_entries n' = tl (node_entries n)"
      using 4(1) [OF Some p] by auto
    have be: "branch_entries (if node_is_empty n' then None else Some n') = tl (node_entries n)"
      using e(2) drain_is_empty [of n'] by (auto simp: node_entries_def)
    show ?thesis
    proof (cases "node_entries n")
      case Nil
      then have "v = None" using e by simp
      obtain w1 bs1 where b: "branches_pop_first bs = (w1, bs1)" by (cases "branches_pop_first bs")
      have ih: "w1 = map_option snd (om_first (concat (map branch_entries bs)))"
        "concat (map branch_entries bs1) = tl (concat (map branch_entries bs))"
        using 4(2) [of None "if node_is_empty n' then None else Some n'" w1 bs1] Some p \<open>v = None\<close> b by auto
      have "w = w1" "bs' = (if node_is_empty n' then None else Some n') # bs1"
        using 4(3) Some p \<open>v = None\<close> b by auto
      then show ?thesis using ih be Nil Some by simp
    next
      case (Cons x xs)
      then have "v = Some (snd x)" using e by (simp add: om_first_def)
      have "w = v" "bs' = (if node_is_empty n' then None else Some n') # bs"
        using 4(3) Some p \<open>v = Some (snd x)\<close> by auto
      then show ?thesis using \<open>v = Some (snd x)\<close> be Cons Some by (simp add: om_first_def)
    qed
  qed
qed

end
