(* ===== verification/Merkle_Map_Props.thy ===== *)
theory Merkle_Map_Props
  imports Merkle_Iter
begin

text \<open>
  The properties of \<open>MerkleMap\<close>: its operations implement an ordered map, equal contents mean an
  equal trie however it was built, iteration is a double-ended queue of the entries in key order,
  and the key length at which insertion stops returning.
\<close>

section \<open>Operations\<close>

lemma map_insert_root:
  assumes "node_wf [] m" "key_ok (to_key k)"
  shows "map_insert to_key k v m = Some (trie_insert (to_key k) (k, v) m, om_get (node_entries m) (to_key k)) \<and>
    node_wf [] (trie_insert (to_key k) (k, v) m) \<and>
    node_entries (trie_insert (to_key k) (k, v) m) = om_insert (to_key k) (k, v) (node_entries m)"
  using node_insert_root [OF assms(1), of "\<lparr>le_key_bytes = to_key k, le_key = k, le_value = v\<rparr>"] assms(2)
  by (simp add: map_insert_def entry_pair_def)

lemma map_get_root:
  assumes "node_wf [] m" "key_ok (to_key k)"
  shows "map_get to_key k m = map_option snd (om_get (node_entries m) (to_key k))"
proof -
  have "map_get to_key k m = map_option snd (map_option entry_pair (node_get 0 (to_key k) m))"
    by (simp add: map_get_def entry_pair_def option.map_comp comp_def)
  then show ?thesis using node_get_root [OF assms] by simp
qed

lemma get_mut_root:
  assumes "node_wf [] m" "key_ok k"
  shows "map_option node_entries (node_get_mut 0 k f m) = updates_entry k f (node_entries m)"
    and "node_get_mut 0 k f m = Some m' \<Longrightarrow> node_wf [] m'"
  using node_get_mut_entries [of "[]" m k f] assms by simp_all

text \<open>C32: on keys below 32768 bytes every operation of a \<open>MerkleMap\<close> returns, keeps the trie
  well-formed, and does to the entries what the ordered map does: insertion and removal with
  the old entry, lookup, length, emptiness, and \<open>get_or_insert\<close> with the value it updates.\<close>

theorem map_operations_refine_ordered_map:
  assumes m: "node_wf [] m" and k: "key_ok (to_key k)"
  shows "(\<exists>m'. map_insert to_key k v m = Some (m', om_get (node_entries m) (to_key k)) \<and>
      node_wf [] m' \<and> node_entries m' = om_insert (to_key k) (k, v) (node_entries m)) \<and>
    (\<exists>m'. map_remove to_key k m = (m', om_get (node_entries m) (to_key k)) \<and>
      node_wf [] m' \<and> node_entries m' = om_remove (to_key k) (node_entries m)) \<and>
    map_get to_key k m = map_option snd (om_get (node_entries m) (to_key k)) \<and>
    map_contains_key to_key k m = om_contains (node_entries m) (to_key k) \<and>
    node_len m = length (node_entries m) \<and> (node_is_empty m \<longleftrightarrow> node_entries m = []) \<and>
    (\<exists>m'. map_get_or_insert to_key k d f m = Some m' \<and> node_wf [] m' \<and>
      node_entries m' = om_insert (to_key k)
        (case om_get (node_entries m) (to_key k) of None \<Rightarrow> (k, f d) | Some (x, w) \<Rightarrow> (x, f w))
        (node_entries m))"
proof (intro conjI)
  let ?k = "to_key k" and ?m = "node_entries m"
  note ins = map_insert_root [of m to_key k, OF m k]
  show "\<exists>m'. map_insert to_key k v m = Some (m', om_get ?m ?k) \<and> node_wf [] m' \<and>
      node_entries m' = om_insert ?k (k, v) ?m"
    using ins by blast
  show "\<exists>m'. map_remove to_key k m = (m', om_get ?m ?k) \<and> node_wf [] m' \<and> node_entries m' = om_remove ?k ?m"
    using node_remove_root [OF m k] unfolding map_remove_def by (metis prod.collapse)
  show get: "map_get to_key k m = map_option snd (om_get ?m ?k)" by (rule map_get_root [of m to_key k, OF m k])
  show "map_contains_key to_key k m = om_contains ?m ?k"
    by (simp add: map_contains_key_def om_contains_def get)
  show "node_len m = length ?m" by (rule node_len_entries [OF m])
  show "node_is_empty m \<longleftrightarrow> ?m = []" by (rule node_is_empty_iff [OF m])
  show "\<exists>m'. map_get_or_insert to_key k d f m = Some m' \<and> node_wf [] m' \<and>
      node_entries m' = om_insert ?k
        (case om_get ?m ?k of None \<Rightarrow> (k, f d) | Some (x, w) \<Rightarrow> (x, f w)) ?m"
  proof (cases "om_get ?m ?k")
    case None
    let ?m1 = "trie_insert ?k (k, d) m"
    have e: "node_entries ?m1 = om_insert ?k (k, d) ?m" "node_wf [] ?m1" using ins by blast+
    from get_mut_root(1) [OF e(2) k, of f] obtain m' where
      m': "node_get_mut 0 ?k f ?m1 = Some m'" "node_entries m' = om_insert ?k (k, f d) (node_entries ?m1)"
      by (auto simp: updates_entry_def e(1))
    have "node_get 0 ?k m = None" using node_get_root [OF m k] None by simp
    then have "map_get_or_insert to_key k d f m = Some m'"
      using ins [of d] m'(1) by (simp add: map_get_or_insert_def)
    moreover have "om_wf ?m" using node_wf_entries [OF m] by blast
    ultimately show ?thesis
      using None m' get_mut_root(2) [OF e(2) k m'(1)] e(1) by (simp add: om_insert_insert)
  next
    case (Some xw)
    obtain x w where xw: "xw = (x, w)" by (cases xw)
    from get_mut_root(1) [OF m k, of f] Some xw obtain m' where
      m': "node_get_mut 0 ?k f m = Some m'" "node_entries m' = om_insert ?k (x, f w) ?m"
      by (auto simp: updates_entry_def)
    moreover have "\<exists>e. node_get 0 ?k m = Some e" using node_get_root [OF m k] Some by (cases "node_get 0 ?k m") auto
    ultimately show ?thesis
      using get_mut_root(2) [OF m k m'(1)] Some xw by (auto simp: map_get_or_insert_def)
  qed
qed

theorem map_operations_refine_ordered_map_witness:
  "let m = Leaf [\<lparr>le_key_bytes = [3], le_key = 3, le_value = 1\<rparr>] :: (u8, nat) node
   in (\<exists>m'. map_insert (\<lambda>k. [k]) 7 2 m = Some (m', None) \<and> node_entries m' = [([3], 3, 1), ([7], 7, 2)]) \<and>
      (\<exists>m'. map_remove (\<lambda>k. [k]) 7 m = (m', None) \<and> node_entries m' = [([3], 3, 1)])"
proof -
  have k: "key_ok [7]" by (simp add: key_ok_def)
  have w: "node_wf [] (Leaf [\<lparr>le_key_bytes = [3], le_key = 3, le_value = 1\<rparr>] :: (u8, nat) node)"
    by (simp add: entry_kv_def key_ok_def om_wf_def)
  show ?thesis
    using map_operations_refine_ordered_map [of _ "\<lambda>k. [k]" 7 2 0 id, OF w k]
    by (auto simp: Let_def entry_kv_def entry_pair_def om_remove_def)
qed

section \<open>History\<close>

datatype ('k, 'v) map_op = Put 'k 'v | Del 'k

fun run_op :: "('k \<Rightarrow> bytes) \<Rightarrow> ('k, 'v) map_op \<Rightarrow> ('k, 'v) node \<Rightarrow> ('k, 'v) node option" where
  "run_op to_key (Put k v) m = map_option fst (map_insert to_key k v m)"
| "run_op to_key (Del k) m = Some (fst (map_remove to_key k m))"

fun run_ops :: "('k \<Rightarrow> bytes) \<Rightarrow> ('k, 'v) map_op list \<Rightarrow> ('k, 'v) node \<Rightarrow> ('k, 'v) node option" where
  "run_ops to_key [] m = Some m"
| "run_ops to_key (x # xs) m = Option.bind (run_op to_key x m) (run_ops to_key xs)"

definition keyed :: "('k \<Rightarrow> bytes) \<Rightarrow> (bytes, 'k \<times> 'v) omap \<Rightarrow> bool" where
  "keyed to_key m \<longleftrightarrow> (\<forall>e \<in> set m. fst e = to_key (fst (snd e)))"

lemma set_om_insert_subset: "set (om_insert k v m) \<subseteq> insert (k, v) (set m)"
  by (induction k v m rule: om_insert.induct) auto

lemma keyed_insert: "keyed to_key m \<Longrightarrow> keyed to_key (om_insert (to_key k) (k, v) m)"
  using set_om_insert_subset [of "to_key k" "(k, v)" m] by (auto simp: keyed_def)

lemma run_ops_wf:
  assumes ok: "\<And>k. key_ok (to_key k)"
  shows "node_wf [] m \<Longrightarrow> keyed to_key (node_entries m) \<Longrightarrow>
    \<exists>m'. run_ops to_key xs m = Some m' \<and> node_wf [] m' \<and> keyed to_key (node_entries m')"
proof (induction xs arbitrary: m)
  case (Cons x xs)
  have "\<exists>m'. run_op to_key x m = Some m' \<and> node_wf [] m' \<and> keyed to_key (node_entries m')"
  proof (cases x)
    case (Put k v)
    then show ?thesis
      using map_insert_root [of m to_key k v, OF Cons.prems(1) ok] keyed_insert [OF Cons.prems(2)] by simp
  next
    case (Del k)
    have "keyed to_key (om_remove (to_key k) (node_entries m))"
      using Cons.prems(2) by (simp add: keyed_def om_remove_def)
    then show ?thesis
      using Del node_remove_root [OF Cons.prems(1) ok, of k] by (simp add: map_remove_def)
  qed
  then show ?case using Cons.IH by auto
qed simp

text \<open>C33: the trie, and with it the hash, depends on the contents only: two histories of
  insertions and removals that leave the same value under every key leave the same trie.\<close>

theorem merkle_map_history_independent:
  assumes "\<And>k. key_ok (to_key k)" "inj to_key"
    and "\<And>k. Option.bind (run_ops to_key xs empty_node) (map_get to_key k) =
      Option.bind (run_ops to_key ys empty_node) (map_get to_key k)"
  shows "\<exists>m. run_ops to_key xs empty_node = Some m \<and> run_ops to_key ys empty_node = Some m \<and> node_wf [] m"
proof -
  have e: "node_wf [] empty_node" "keyed to_key (node_entries (empty_node :: ('a, 'b) node))"
    by (simp_all add: keyed_def)
  obtain m where m: "run_ops to_key xs empty_node = Some m" "node_wf [] m" "keyed to_key (node_entries m)"
    using run_ops_wf [of to_key, OF assms(1) e] by blast
  obtain n where n: "run_ops to_key ys empty_node = Some n" "node_wf [] n" "keyed to_key (node_entries n)"
    using run_ops_wf [of to_key, OF assms(1) e] by blast
  have wf: "om_wf (node_entries m)" "om_wf (node_entries n)" using m n node_wf_entries by blast+
  have entry: "om_get (node_entries u) b = Some (k, v) \<longleftrightarrow> b = to_key k \<and> map_get to_key k u = Some v"
    if u: "node_wf [] u" "keyed to_key (node_entries u)" for u :: "('a, 'b) node" and b k v
  proof -
    have key: "b' = to_key k'" if g: "om_get (node_entries u) b' = Some (k', v')" for b' k' v'
      using om_get_in_set [OF g] u(2) by (auto simp: keyed_def)
    have get: "map_get to_key k u = map_option snd (om_get (node_entries u) (to_key k))"
      by (rule map_get_root [of u to_key k, OF u(1) assms(1)])
    show ?thesis
    proof
      assume e: "om_get (node_entries u) b = Some (k, v)"
      then show "b = to_key k \<and> map_get to_key k u = Some v" using key [OF e] get by simp
    next
      assume "b = to_key k \<and> map_get to_key k u = Some v"
      then obtain k' where e: "om_get (node_entries u) b = Some (k', v)" "b = to_key k" using get by auto
      then have "k = k'" using key [OF e(1)] injD [OF assms(2)] by simp
      then show "om_get (node_entries u) b = Some (k, v)" using e by simp
    qed
  qed
  have same: "map_get to_key k m = map_get to_key k n" for k
    using assms(3) [of k] m(1) n(1) by simp
  have iff: "om_get (node_entries m) b = Some (k, v) \<longleftrightarrow> om_get (node_entries n) b = Some (k, v)" for b k v
    by (simp only: entry [OF m(2,3)] entry [OF n(2,3)] same)
  have "om_get (node_entries m) b = om_get (node_entries n) b" for b
    using iff [of b] by (metis not_Some_eq surj_pair)
  then have "node_entries m = node_entries n" by (rule om_ext [OF wf])
  then have "m = n" by (rule node_wf_unique [OF m(2) n(2)])
  then show ?thesis using m n by blast
qed

theorem merkle_map_history_independent_witness:
  "run_ops (\<lambda>k. [k]) [Put (1 :: u8) True, Put 2 False, Del 1] empty_node = run_ops (\<lambda>k. [k]) [Put 2 False] empty_node"
proof -
  have "\<exists>m. run_ops (\<lambda>k. [k]) [Put (1 :: u8) True, Put 2 False, Del 1] empty_node = Some m \<and>
      run_ops (\<lambda>k. [k]) [Put 2 False] empty_node = Some m \<and> node_wf [] m"
  proof (rule merkle_map_history_independent)
    show "key_ok [k]" for k :: u8 by (simp add: key_ok_def)
    show "inj (\<lambda>k :: u8. [k])" by (simp add: inj_def)
    have "2 ^ 16 = Suc 65535" by simp
    then have ins: "node_insert (2 ^ 16) 0 e (Leaf vs) = leaf_insert (node_insert 65535 1) 0 e vs" for e :: "(u8, bool) leaf_entry" and vs
      by (simp only: node_insert.simps node.case add_0)
    show "Option.bind (run_ops (\<lambda>k. [k]) [Put (1 :: u8) True, Put 2 False, Del 1] empty_node) (map_get (\<lambda>k. [k]) k) =
        Option.bind (run_ops (\<lambda>k. [k]) [Put 2 False] empty_node) (map_get (\<lambda>k. [k]) k)" for k
      by (simp add: map_insert_def map_remove_def ins leaf_insert_def empty_node_def
          del: node_insert.simps power_numeral)
  qed
  then show ?thesis by auto
qed

section \<open>Iteration\<close>

text \<open>A caller of the double-ended iterator pulls from the front (\<open>False\<close>) or from the back.\<close>

fun run_pulls :: "bool list \<Rightarrow> ('k, 'v) iter \<Rightarrow> ('k \<times> 'v) option list" where
  "run_pulls [] it = []"
| "run_pulls (back # ds) it =
     (case (if back then iter_next_back it else iter_next it) of (x, it') \<Rightarrow> x # run_pulls ds it')"

fun deque_pulls :: "bool list \<Rightarrow> 'a list \<Rightarrow> 'a option list" where
  "deque_pulls [] xs = []"
| "deque_pulls (b # ds) xs =
     (if xs = [] then None # deque_pulls ds []
      else if b then Some (last xs) # deque_pulls ds (butlast xs)
      else Some (hd xs) # deque_pulls ds (tl xs))"

lemma run_pulls_deque: "iter_ok it \<Longrightarrow> run_pulls ds it = deque_pulls ds (map snd (remaining it))"
proof (induction ds arbitrary: it)
  case (Cons b ds)
  obtain x it' where p: "(if b then iter_next_back it else iter_next it) = (x, it')" by fastforce
  have step: "iter_ok it' \<and> (if remaining it = [] then x = None \<and> remaining it' = []
      else if b then x = Some (snd (last (remaining it))) \<and> remaining it' = butlast (remaining it)
      else x = Some (snd (hd (remaining it))) \<and> remaining it' = tl (remaining it))"
  proof (cases b)
    case True
    then show ?thesis using iter_next_back_remaining [OF Cons.prems, of x it'] p by simp
  next
    case False
    then show ?thesis
      using iter_next_remaining [OF Cons.prems, of x it'] p by (auto split: list.splits)
  qed
  have "run_pulls (b # ds) it = x # deque_pulls ds (map snd (remaining it'))"
    using p Cons.IH step by simp
  then show ?case using step by (auto simp: last_map hd_map map_butlast map_tl split: if_splits)
qed simp

text \<open>Iteration over a range is a double-ended queue of the entries inside the range in key
  order: however a caller interleaves \<open>next\<close> and \<open>next_back\<close>, every entry comes out exactly
  once, and then only \<open>None\<close>.  The full iterator is the range without bounds.\<close>

theorem range_iteration_is_deque:
  assumes "node_wf [] m" "bound_ok lo" "bound_ok hi"
  shows "run_pulls ds (node_range lo hi m) =
      deque_pulls ds (map snd (filter (\<lambda>e. lower lo (fst e) \<and> upper hi (fst e)) (node_entries m))) \<and>
    run_pulls ds (node_iter m) = deque_pulls ds (map snd (node_entries m))"
proof -
  have "iter_ok (node_range lo hi m)" "iter_ok (node_iter m)"
    using assms by (simp_all add: iter_ok_def node_range_def node_iter_def)
  then show ?thesis by (simp add: run_pulls_deque) (simp add: remaining_def node_range_def node_iter_def)
qed

theorem range_iteration_is_deque_witness:
  "let m = Leaf (map (\<lambda>k. \<lparr>le_key_bytes = [k], le_key = k, le_value = True\<rparr>) [1, 2, 3, 4 :: u8])
   in run_pulls [True, False, False, True] (node_range (Included [2]) Unbounded m) =
      [Some (4, True), Some (2, True), Some (3, True), None]"
proof -
  have m: "node_wf [] (Leaf (map (\<lambda>k. \<lparr>le_key_bytes = [k], le_key = k, le_value = True\<rparr>) [1, 2, 3, 4 :: u8]))"
    by (simp add: entry_kv_def key_ok_def om_wf_def)
  show ?thesis
    using range_iteration_is_deque [of _ "Included [2]" Unbounded "[True, False, False, True]", OF m]
    by (simp add: key_ok_def entry_kv_def entry_pair_def)
qed

text \<open>\<open>IntoIter\<close>: pop the first entry until none is left.\<close>

fun pops :: "nat \<Rightarrow> ('k, 'v) node \<Rightarrow> ('k \<times> 'v) option list" where
  "pops 0 n = []"
| "pops (Suc i) n = (case node_pop_first n of (v, n') \<Rightarrow> v # pops i n')"

text \<open>The consuming iterator yields every entry once, in key order, and then \<open>None\<close> forever.\<close>

lemma pops_entries:
  "pops i m = map Some (take i (map snd (node_entries m))) @ replicate (i - length (node_entries m)) None"
proof (induction i arbitrary: m)
  case (Suc i)
  obtain v m' where p: "node_pop_first m = (v, m')" by fastforce
  show ?case
    using pop_first_entries(1) [OF p] Suc.IH [of m'] p
    by (cases "node_entries m") (auto simp: om_first_def)
qed simp

section \<open>Keys that insertion cannot separate\<close>

text \<open>Depth is a \<open>u16\<close>: after 65536 nibbles it starts again at the first byte of the key.  Keys that
  agree on their first 32768 bytes are sent into the same branch at every depth.\<close>

definition inseparable :: "bytes set \<Rightarrow> bool" where
  "inseparable ks \<longleftrightarrow> (\<exists>p. length p = 2 ^ 15 \<and> (\<forall>k \<in> ks. take (2 ^ 15) k = p))"

lemma inseparable_index:
  assumes "inseparable ks" shows "\<exists>i < 16. \<forall>k \<in> ks. get_index_for_depth depth k = Some i"
proof -
  from assms obtain p where p: "length p = 2 ^ 15" "\<forall>k \<in> ks. take (2 ^ 15) k = p"
    unfolding inseparable_def by blast
  have d: "unat (depth div 2) < 2 ^ 15" using unat_bound [of depth] by (simp add: unat_div)
  have "k ! unat (depth div 2) = p ! unat (depth div 2) \<and> unat (depth div 2) < length k" if "k \<in> ks" for k
  proof -
    have t: "take (2 ^ 15) k = p" using p(2) that by blast
    then have "unat (depth div 2) < length (take (2 ^ 15) k)" using d p(1) by simp
    then show ?thesis using t nth_take [OF d, of k] by simp
  qed
  then have "\<forall>k \<in> ks. get_index_for_depth depth k = get_index_for_depth depth p"
    using d p(1) by (auto simp: get_index_for_depth_def Let_def)
  moreover have "\<exists>i < 16. get_index_for_depth depth p = Some i"
    using d p(1) nibble_bounds by (auto simp: get_index_for_depth_def Let_def)
  ultimately show ?thesis by metis
qed

text \<open>Filling the fresh tree: all entries go into branch \<open>i\<close>, whose leaf overflows on the last.\<close>

lemma tree_insert_all_inseparable:
  fixes ws xs :: "('k, 'v) leaf_entry list" and bs :: "('k, 'v) node option list"
  assumes idx: "\<forall>e \<in> set xs. get_index_for_depth depth (le_key_bytes e) = Some i" "i < length bs"
    and full: "\<And>e ws'. e \<in> set xs \<Longrightarrow> set ws' \<subseteq> S \<Longrightarrow> length ws' = 16 \<Longrightarrow>
      distinct (map le_key_bytes (e # ws')) \<Longrightarrow> ins e (Leaf ws') = None"
    and room: "\<And>e ws'. length ws' < 16 \<Longrightarrow> distinct (map le_key_bytes (e # ws')) \<Longrightarrow>
      ins e (Leaf ws') = None \<or> ins e (Leaf ws') = Some (Leaf (sort_key le_key_bytes (ws' @ [e])), None)"
    and b: "(case branch bs i of None \<Rightarrow> empty_node | Some b \<Rightarrow> b) = Leaf ws"
    and len: "length ws + length xs = 17" "xs \<noteq> []" "length ws \<le> 16"
    and S: "set ws \<union> set xs \<subseteq> S" "distinct (map le_key_bytes (ws @ xs))"
  shows "tree_insert_all ins depth xs (Tree n leaf bs) = None"
  using idx full b len S
proof (induction xs arbitrary: ws bs n)
  case (Cons x xs)
  show ?case
  proof (cases "length ws = 16")
    case True
    then have "ins x (Leaf ws) = None" using Cons.prems by (intro Cons.prems(3)) auto
    then show ?thesis using Cons.prems(1,4) by simp
  next
    case False
    then have w: "length ws < 16" using Cons.prems(7) by simp
    then have "ins x (Leaf ws) = None \<or>
        ins x (Leaf ws) = Some (Leaf (sort_key le_key_bytes (ws @ [x])), None)"
      using Cons.prems(9) by (intro room) auto
    moreover have "tree_insert_all ins depth xs
        (Tree (n + 1) leaf (bs[i := Some (Leaf (sort_key le_key_bytes (ws @ [x])))])) = None"
      (is "tree_insert_all _ _ _ (Tree _ _ ?bs) = None")
    proof (rule Cons.IH)
      show "(case branch ?bs i of None \<Rightarrow> empty_node | Some b \<Rightarrow> b) = Leaf (sort_key le_key_bytes (ws @ [x]))"
        using Cons.prems(2) by (simp add: branch_def)
      show "xs \<noteq> []" using w Cons.prems(5) by auto
      show "distinct (map le_key_bytes (sort_key le_key_bytes (ws @ [x]) @ xs))"
        using Cons.prems(9) by (auto simp: distinct_map)
    qed (use w Cons.prems in auto)
    ultimately show ?thesis using Cons.prems(1,4) by auto
  qed
qed simp

lemma leaf_has_room:
  assumes "length vs < 16" "distinct (map le_key_bytes (e # vs))"
  shows "node_insert fuel depth e (Leaf vs) = None \<or>
    node_insert fuel depth e (Leaf vs) = Some (Leaf (sort_key le_key_bytes (vs @ [e])), None)"
proof -
  have "replace_entry e vs = None"
    using assms(2) by (simp add: replace_entry_None om_get_None_iff image_image)
  then show ?thesis using assms(1) by (cases fuel) (simp_all add: leaf_insert_def)
qed

text \<open>C34: seventeen different keys that share their first 32768 bytes cannot be held by one map:
  inserting the last into the leaf with the other sixteen recurses forever, whatever the depth
  it starts from and however much fuel it gets.\<close>

theorem long_common_prefix_never_returns:
  assumes "inseparable (le_key_bytes ` set (e # vs))" "distinct (map le_key_bytes (e # vs))" "length vs = 16"
  shows "node_insert fuel depth e (Leaf vs) = None"
  using assms
proof (induction fuel arbitrary: depth e vs)
  case (Suc fuel)
  let ?S = "set (e # vs)"
  obtain i where i: "i < 16" "\<forall>x \<in> ?S. get_index_for_depth depth (le_key_bytes x) = Some i"
    using inseparable_index [OF Suc.prems(1)] by auto
  have "tree_insert_all (node_insert fuel (depth + 1)) depth (e # vs) (Tree 0 None (replicate 16 None)) = None"
  proof (rule tree_insert_all_inseparable [where ws = "[]" and S = ?S])
    fix x ws'
    assume x: "x \<in> set (e # vs)" "set ws' \<subseteq> ?S" "length ws' = 16" "distinct (map le_key_bytes (x # ws'))"
    have "inseparable (le_key_bytes ` set (x # ws'))"
      using Suc.prems(1) x(1,2) unfolding inseparable_def by (smt (verit) image_iff list.set_intros set_ConsD subsetD)
    then show "node_insert fuel (depth + 1) x (Leaf ws') = None" using x by (intro Suc.IH)
  qed (use i Suc.prems leaf_has_room in \<open>auto simp: branch_def empty_node_def\<close>)
  moreover have "replace_entry e vs = None"
    using Suc.prems(2) by (simp add: replace_entry_None om_get_None_iff image_image)
  ultimately show ?case using Suc.prems(3) by (simp add: leaf_insert_def tree_new_def)
qed simp

theorem long_common_prefix_never_returns_witness:
  "let es = map (\<lambda>i. \<lparr>le_key_bytes = replicate 32768 0 @ [i], le_key = i, le_value = True\<rparr>)
     [0, 1, 2, 3, 4, 5, 6, 7, 8, 9, 10, 11, 12, 13, 14, 15 :: u8]
   in \<forall>fuel. node_insert fuel 0 \<lparr>le_key_bytes = replicate 32768 0 @ [16], le_key = 16, le_value = True\<rparr> (Leaf es) = None"
proof -
  have "node_insert fuel 0 \<lparr>le_key_bytes = replicate 32768 0 @ [16], le_key = 16, le_value = True\<rparr>
    (Leaf (map (\<lambda>i. \<lparr>le_key_bytes = replicate 32768 0 @ [i], le_key = i, le_value = True\<rparr>)
     [0, 1, 2, 3, 4, 5, 6, 7, 8, 9, 10, 11, 12, 13, 14, 15 :: u8])) = None" for fuel
    by (rule long_common_prefix_never_returns)
      (auto simp: inseparable_def image_image intro!: exI [of _ "replicate 32768 0"])
  then show ?thesis by simp
qed

end
