(* ===== verification/Merkle_Keys.thy ===== *)
theory Merkle_Keys
  imports Merkle_Map_Props Merkle_Codec
begin

text \<open>
  The keys of a \<open>MerkleMap\<close> (\<open>to_merkle_key.rs\<close>, \<open>from_merkle_key.rs\<close> and the impls of \<open>types.rs\<close>)
  and \<open>MerkleVec\<close> (\<open>vec.rs\<close>).  A key type promises that its bytes can be read back; the integer
  and string keys also promise that byte order is key order, so that a map iterates in key order
  and \<open>MerkleVec::push\<close> finds its last index with \<open>next_back\<close>.
\<close>

section \<open>Key types\<close>

definition to_be_bytes :: "'a::len word \<Rightarrow> bytes" where
  "to_be_bytes w = rev (to_le_bytes w)"

definition key_u8 :: "u8 \<Rightarrow> bytes" where
  "key_u8 b = [b]"

definition from_key_u8 :: "bytes \<Rightarrow> merkle_error + u8" where
  "from_key_u8 bs = (if length bs = 1 then Inr (bs ! 0) else Inl InsufficientInput)"

definition key_u32 :: "u32 \<Rightarrow> bytes" where
  "key_u32 w = to_be_bytes w"

definition from_key_u32 :: "bytes \<Rightarrow> merkle_error + u32" where
  "from_key_u32 bs =
     (if length bs = 4 then Inr (of_le_bytes (rev bs)) else Inl (MerkleCustom ''TryFromSliceError''))"

definition key_u64 :: "u64 \<Rightarrow> bytes" where
  "key_u64 w = to_be_bytes w"

definition from_key_u64 :: "bytes \<Rightarrow> merkle_error + u64" where
  "from_key_u64 bs =
     (if length bs = 8 then Inr (of_le_bytes (rev bs)) else Inl (MerkleCustom ''TryFromSliceError''))"

definition key_string :: "string \<Rightarrow> bytes" where
  "key_string s = str_bytes s"

definition from_key_string :: "bytes \<Rightarrow> merkle_error + string" where
  "from_key_string bs = from_utf8 bs"

locale merkle_key =
  fixes to_key :: "'k \<Rightarrow> bytes" and from_key :: "bytes \<Rightarrow> merkle_error + 'k" and valid :: "'k \<Rightarrow> bool"
  assumes read_back: "valid k \<Longrightarrow> from_key (to_key k) = Inr k"
begin

lemma key_injective: "valid k \<Longrightarrow> valid l \<Longrightarrow> to_key k = to_key l \<longleftrightarrow> k = l"
  using read_back by (metis sum.inject(2))

end

locale ordered_key = merkle_key to_key from_key valid
  for to_key :: "'k::linorder \<Rightarrow> bytes" and from_key valid +
  assumes key_order: "to_key k < to_key l \<longleftrightarrow> k < l"
begin

text \<open>The keys of a map come out in ascending order.\<close>

lemma iterates_ascending:
  assumes "om_wf m" "keyed to_key m"
  shows "sorted_wrt (<) (map (fst \<circ> snd) m)"
proof -
  have "sorted_wrt (<) (map (to_key \<circ> fst \<circ> snd) m)"
  proof -
    have "map fst m = map (to_key \<circ> fst \<circ> snd) m" using assms(2) by (simp add: keyed_def)
    then show ?thesis using assms(1) unfolding om_wf_def by metis
  qed
  then show ?thesis by (simp add: sorted_wrt_map key_order)
qed

end

lemma key_order_le:
  "x < 256 ^ n \<Longrightarrow> y < 256 ^ n \<Longrightarrow> rev (nat_to_le n x) < rev (nat_to_le n y) \<longleftrightarrow> x < y"
proof (induction n arbitrary: x y)
  case (Suc n)
  have app: "xs @ [a] < ys @ [b] \<longleftrightarrow> xs < ys \<or> xs = ys \<and> a < b"
    if "length xs = length ys" for xs ys :: bytes and a b
    using that by (induction xs ys rule: list_induct2) auto
  have div: "x div 256 < 256 ^ n" "y div 256 < 256 ^ n"
    using Suc.prems by (simp_all add: less_mult_imp_div_less mult.commute)
  have eq: "nat_to_le n (x div 256) = nat_to_le n (y div 256) \<longleftrightarrow> x div 256 = y div 256"
    using nat_of_to_le [of n "x div 256"] nat_of_to_le [of n "y div 256"] div by (metis mod_less)
  have low: "(of_nat x :: u8) < of_nat y \<longleftrightarrow> x mod 256 < y mod 256"
    by (simp add: word_less_nat_alt unat_of_nat)
  have "x < y \<longleftrightarrow> x div 256 < y div 256 \<or> x div 256 = y div 256 \<and> x mod 256 < y mod 256"
  proof -
    have "x = 256 * (x div 256) + x mod 256" "y = 256 * (y div 256) + y mod 256"
      "x mod 256 < 256" "y mod 256 < 256" by simp_all
    then show ?thesis by linarith
  qed
  then show ?case
    using Suc.IH [OF div] by (simp add: app eq low)
qed simp

lemma to_be_bytes_order:
  assumes "LENGTH('a) = 8 * n"
  shows "to_be_bytes (v :: 'a::len word) < to_be_bytes w \<longleftrightarrow> v < w"
proof -
  have "(256 :: nat) ^ n = 2 ^ LENGTH('a)" using assms by (simp add: power_mult)
  then have "unat v < 256 ^ n" "unat w < 256 ^ n" using unat_bound by metis+
  then show ?thesis
    using assms by (simp add: to_be_bytes_def to_le_bytes_def key_order_le word_less_nat_alt)
qed

lemma str_bytes_order: "str_bytes s < str_bytes t \<longleftrightarrow> s < t"
proof (induction s arbitrary: t)
  case Nil
  then show ?case by (cases t) (simp_all add: str_bytes_def)
next
  case (Cons c s)
  show ?case
  proof (cases t)
    case (Cons d u)
    have n: "unat (of_char a :: u8) = of_char a" for a :: char
    proof -
      have "(of_char (char_of (unat (of_char a :: u8))) :: nat) = unat (of_char a :: u8) mod 256"
        by (simp only: of_char_of)
      then show ?thesis using unat_bound [of "of_char a :: u8"] by (simp add: char_of_byte)
    qed
    then have "(of_char c :: u8) < of_char d \<longleftrightarrow> c < d"
      by (simp add: word_less_nat_alt less_char_def)
    moreover have "(of_char c :: u8) = of_char d \<longleftrightarrow> c = d" by (metis char_of_byte)
    ultimately show ?thesis using Cons Cons.IH [of u] by (simp add: str_bytes_def)
  qed (simp add: str_bytes_def)
qed

interpretation u8_key: ordered_key key_u8 from_key_u8 "\<lambda>_. True"
  by unfold_locales (simp_all add: key_u8_def from_key_u8_def)

interpretation u32_key: ordered_key key_u32 from_key_u32 "\<lambda>_. True"
  by unfold_locales
    (simp_all add: key_u32_def from_key_u32_def to_be_bytes_def length_to_le_bytes of_to_le_bytes [where n = 4]
      to_be_bytes_order [where n = 4, unfolded to_be_bytes_def])

interpretation u64_key: ordered_key key_u64 from_key_u64 "\<lambda>_. True"
  by unfold_locales
    (simp_all add: key_u64_def from_key_u64_def to_be_bytes_def length_to_le_bytes of_to_le_bytes [where n = 8]
      to_be_bytes_order [where n = 8, unfolded to_be_bytes_def])

interpretation string_key: ordered_key key_string from_key_string "\<lambda>s. utf8_valid (str_bytes s)"
  by unfold_locales (simp_all add: key_string_def from_key_string_def from_utf8_def str_bytes_order)

text \<open>A map with integer keys iterates in the order of the integers: the big-endian bytes of
  \<open>u64\<close> keys compare like the keys (account ids, bridge event and action ids).\<close>

theorem u64_map_iterates_in_key_order:
  assumes "node_wf [] m" "keyed key_u64 (node_entries m)"
  shows "\<exists>kvs. pops (node_len m) m = map Some kvs \<and> sorted_wrt (<) (map fst kvs) \<and>
    (\<forall>k v. (k, v) \<in> set kvs \<longleftrightarrow> map_get key_u64 k m = Some v)"
proof (intro exI conjI allI)
  let ?m = "node_entries m"
  have wf: "om_wf ?m" using assms(1) node_wf_entries by blast
  show "pops (node_len m) m = map Some (map snd ?m)"
    using node_len_entries [OF assms(1)] by (simp add: pops_entries)
  show "sorted_wrt (<) (map fst (map snd ?m))"
    using u64_key.iterates_ascending [OF wf assms(2)] by (simp add: comp_def)
  fix k v
  have ok: "key_ok (key_u64 k)" by (simp add: key_ok_def key_u64_def to_be_bytes_def length_to_le_bytes)
  have "(k, v) \<in> set (map snd ?m) \<longleftrightarrow> (\<exists>b. (b, k, v) \<in> set ?m)" by force
  also have "\<dots> \<longleftrightarrow> (key_u64 k, k, v) \<in> set ?m" using assms(2) by (force simp: keyed_def)
  also have "\<dots> \<longleftrightarrow> om_get ?m (key_u64 k) = Some (k, v)" by (rule om_get_iff_in_set [OF wf, symmetric])
  also have "\<dots> \<longleftrightarrow> map_option snd (om_get ?m (key_u64 k)) = Some v"
  proof
    assume "map_option snd (om_get ?m (key_u64 k)) = Some v"
    then obtain l where l: "om_get ?m (key_u64 k) = Some (l, v)" by auto
    have "(key_u64 k, l, v) \<in> set ?m" using om_get_in_set [OF l] .
    then have "key_u64 k = key_u64 l" using assms(2) by (auto simp: keyed_def)
    then show "om_get ?m (key_u64 k) = Some (k, v)" using l u64_key.key_injective by simp
  qed simp
  finally show "(k, v) \<in> set (map snd ?m) \<longleftrightarrow> map_get key_u64 k m = Some v"
    by (simp add: map_get_root [of m key_u64, OF assms(1) ok])
qed

theorem u64_map_iterates_in_key_order_witness:
  "\<exists>kvs. pops 2 (Leaf (map (\<lambda>k. \<lparr>le_key_bytes = key_u64 k, le_key = k, le_value = True\<rparr>) [255, 256])) = map Some kvs \<and>
    sorted_wrt (<) (map fst kvs)"
proof -
  let ?m = "Leaf (map (\<lambda>k. \<lparr>le_key_bytes = key_u64 k, le_key = k, le_value = True\<rparr>) [255, 256])"
  have "key_u64 255 < key_u64 256" by (simp add: u64_key.key_order)
  then have wf: "node_wf [] ?m"
    by (simp add: entry_kv_def om_wf_def key_ok_def key_u64_def to_be_bytes_def length_to_le_bytes)
  have keys: "keyed key_u64 (node_entries ?m)" by (simp add: keyed_def entry_kv_def entry_pair_def)
  have len: "node_len ?m = 2" by simp
  have "\<exists>kvs. pops (node_len ?m) ?m = map Some kvs \<and> sorted_wrt (<) (map fst kvs)"
    using u64_map_iterates_in_key_order [OF wf keys] by blast
  then show ?thesis unfolding len .
qed

section \<open>Vectors\<close>

definition vec_push :: "'t \<Rightarrow> (u32, 't) node \<Rightarrow> (u32, 't) node option" where
  "vec_push t v =
     (let k = (case fst (iter_next_back (node_iter v)) of None \<Rightarrow> 0 | Some (k, _) \<Rightarrow> k + 1)
      in map_option fst (map_insert key_u32 k t v))"

fun vec_pushes :: "'t list \<Rightarrow> (u32, 't) node \<Rightarrow> (u32, 't) node option" where
  "vec_pushes [] v = Some v"
| "vec_pushes (t # ts) v = Option.bind (vec_push t v) (vec_pushes ts)"

definition vec_values :: "(u32, 't) node \<Rightarrow> 't list" where
  "vec_values v = map (snd \<circ> snd) (node_entries v)"

text \<open>The entries of a vector: its values under the indices.\<close>

definition indexed :: "'t list \<Rightarrow> (bytes, u32 \<times> 't) omap" where
  "indexed xs = map (\<lambda>i. (key_u32 (of_nat i), of_nat i, xs ! i)) [0..<length xs]"

definition vec_ok :: "(u32, 't) node \<Rightarrow> 't list \<Rightarrow> bool" where
  "vec_ok v xs \<longleftrightarrow> node_wf [] v \<and> node_entries v = indexed xs \<and> length xs \<le> 2 ^ 32"

lemma key_u32_ok: "key_ok (key_u32 k)"
  by (simp add: key_ok_def key_u32_def to_be_bytes_def length_to_le_bytes)

lemma indexed_snoc: "indexed (xs @ [x]) = indexed xs @ [(key_u32 (of_nat (length xs)), of_nat (length xs), x)]"
  by (simp add: indexed_def nth_append)

lemma indexed_Cons:
  "indexed (x # xs) = (key_u32 0, 0, x) # map (\<lambda>i. (key_u32 (of_nat i), of_nat i, (x # xs) ! i)) [1..<length (x # xs)]"
  by (simp add: indexed_def upt_rec [of 0] del: upt_Suc)

lemma vec_push_ok:
  assumes "vec_ok v xs"
  shows "\<exists>v'. vec_push x v = Some v' \<and> vec_ok v' (if length xs < 2 ^ 32 then xs @ [x] else x # tl xs)"
proof -
  have v: "node_wf [] v" "node_entries v = indexed xs" "length xs \<le> 2 ^ 32" using assms by (simp_all add: vec_ok_def)
  let ?k = "of_nat (length xs) :: u32"
  have "iter_ok (node_iter v)" using v by (simp add: iter_ok_def node_iter_def)
  moreover have "remaining (node_iter v) = indexed xs" using v by (simp add: remaining_def node_iter_def)
  moreover obtain e it' where "iter_next_back (node_iter v) = (e, it')" by fastforce
  moreover have "indexed xs = [] \<longleftrightarrow> xs = []" by (simp add: indexed_def)
  ultimately have "fst (iter_next_back (node_iter v)) = (if xs = [] then None else Some (snd (last (indexed xs))))"
    using iter_next_back_remaining [of "node_iter v" e it'] by (cases "xs = []") simp_all
  moreover have "(case snd (last (indexed xs)) of (k, _) \<Rightarrow> k + 1) = ?k" if "xs \<noteq> []"
    using that by (cases xs rule: rev_cases) (simp_all add: indexed_snoc)
  ultimately have "vec_push x v = map_option fst (map_insert key_u32 ?k x v)"
    by (auto simp: vec_push_def split: prod.splits)
  then obtain v' where v': "vec_push x v = Some v'" "node_wf [] v'"
      "node_entries v' = om_insert (key_u32 ?k) (?k, x) (indexed xs)"
    using map_insert_root [of v key_u32 ?k x, OF v(1) key_u32_ok] v(2) by simp
  have "om_insert (key_u32 ?k) (?k, x) (indexed xs) = indexed (if length xs < 2 ^ 32 then xs @ [x] else x # tl xs)"
  proof (cases "length xs < 2 ^ 32")
    case True
    have "key_u32 (of_nat i) < key_u32 ?k" if "i < length xs" for i
      using that True by (simp add: u32_key.key_order word_less_nat_alt unat_of_nat)
    then have "\<forall>l \<in> fst ` set (indexed xs). l < key_u32 ?k" by (auto simp: indexed_def)
    then show ?thesis using True by (simp add: om_insert_append_right [where n = "[]", simplified] indexed_snoc)
  next
    case False
    then have "length xs = 2 ^ 32" using v(3) by simp
    then have k: "?k = 0" and "xs \<noteq> []" by auto
    then obtain y ys where xs: "xs = y # ys" by (cases xs) auto
    have "map (\<lambda>i. (key_u32 (of_nat i), of_nat i :: u32, (y # ys) ! i)) [1..<length (y # ys)] =
        map (\<lambda>i. (key_u32 (of_nat i), of_nat i, (x # ys) ! i)) [1..<length (x # ys)]"
      by (rule map_cong) (auto simp: nth_Cons' simp del: upt_Suc)
    then show ?thesis using False k unfolding xs by (simp add: indexed_Cons del: upt_Suc)
  qed
  moreover have "length (if length xs < 2 ^ 32 then xs @ [x] else x # tl xs) \<le> 2 ^ 32"
    using v(3) by (cases xs) auto
  ultimately show ?thesis using v' by (simp only: vec_ok_def) blast
qed

text \<open>Pushing values one by one builds exactly their list, up to the 2^32 entries a vector
  holds; from then on every push wraps its index around and overwrites the first element.\<close>

theorem merkle_vec_is_list:
  "\<exists>v. vec_pushes xs empty_node = Some v \<and>
    vec_values v = (if length xs \<le> 2 ^ 32 then xs else last xs # tl (take (2 ^ 32) xs))"
proof -
  have app: "vec_pushes (ys @ [y]) v = Option.bind (vec_pushes ys v) (vec_push y)" for ys y and v :: "(u32, 'a) node"
  proof (induction ys arbitrary: v)
    case (Cons z zs)
    then show ?case by (cases "vec_push z v") simp_all
  next
    case Nil
    then show ?case by (cases "vec_push y v") simp_all
  qed
  let ?held = "\<lambda>xs :: 'a list. if length xs \<le> 2 ^ 32 then xs else last xs # tl (take (2 ^ 32) xs)"
  have "\<exists>v. vec_pushes xs empty_node = Some v \<and> vec_ok v (?held xs)"
  proof (induction xs rule: rev_induct)
    case Nil
    then show ?case by (simp add: vec_ok_def indexed_def)
  next
    case (snoc x xs)
    then obtain v where v: "vec_pushes xs empty_node = Some v" "vec_ok v (?held xs)" by blast
    have len: "length (?held xs) = min (length xs) (2 ^ 32)" by auto
    have "(if length (?held xs) < 2 ^ 32 then ?held xs @ [x] else x # tl (?held xs)) = ?held (xs @ [x])"
    proof (cases "length xs < 2 ^ 32")
      case True
      then show ?thesis by simp
    next
      case False
      then have "tl (?held xs) = tl (take (2 ^ 32) (xs @ [x]))" by auto
      then show ?thesis using False len by simp
    qed
    then show ?case using vec_push_ok [OF v(2), of x] v(1) app by simp
  qed
  then obtain v where v: "vec_pushes xs empty_node = Some v" "vec_ok v (?held xs)" by blast
  have "vec_values v = ?held xs"
    using v(2) unfolding vec_ok_def vec_values_def
    by (simp add: indexed_def comp_def map_nth)
  then show ?thesis using v(1) by blast
qed

end
