(* ===== verification/Block_Store.thy ===== *)
theory Block_Store
  imports Merkle_Store Merkle_Keys
begin

text \<open>
  The block databases (\<open>kolme-store/src\<close>): the record kept per block (\<open>block.rs\<close>), the in-memory
  store (\<open>in_memory.rs\<close>) and the key layout of the Fjall store (\<open>fjall.rs\<close>).  Both implement
  \<open>KolmeBackingStore\<close>; the locale \<open>block_db\<close> is that contract: a block is added once per height, an
  equal one is recognised, a different one refused, and the latest block is the highest.  The
  Postgres store is SQL and is not modelled.

  Serialization of the block itself is a parameter.  I/O errors of the database are not modelled.
\<close>

section \<open>Values in a store\<close>

definition save_value ::
  "(bytes \<Rightarrow> hash) \<Rightarrow> 's merkle_ops \<Rightarrow> 'a enc \<Rightarrow> 'a \<Rightarrow> 's \<Rightarrow> merkle_error + (hash \<times> 's)" where
  "save_value sha M enc x s =
     rbind (serialize enc x) (\<lambda>c.
     rbind (save_merkle_contents sha M c s) (\<lambda>s'. Inr (contents_hash sha c, s')))"

definition load_value ::
  "(hash \<Rightarrow> contents option) \<Rightarrow> 's merkle_ops \<Rightarrow> 's \<Rightarrow> 'a dec \<Rightarrow> hash \<Rightarrow> (merkle_error + 'a) option" where
  "load_value cached M s dec h =
     map_option (\<lambda>r. rbind r (deserialize dec)) (load_merkle_contents cached M s h)"

definition stored_value ::
  "(bytes \<Rightarrow> hash) \<Rightarrow> contents set \<Rightarrow> (hash \<Rightarrow> layer option) \<Rightarrow> 'a dec \<Rightarrow> hash \<Rightarrow> 'a \<Rightarrow> bool" where
  "stored_value sha C v dec h x \<longleftrightarrow>
     (\<exists>c \<in> C. contents_hash sha c = h \<and> present sha v c \<and> deserialize dec c = Inr x)"

lemma present_mono: "present sha v c \<Longrightarrow> v \<subseteq>\<^sub>m w \<Longrightarrow> present sha w c"
proof (induction rule: present.induct)
  case (present_layers v sha c)
  have "w (contents_hash sha c) = Some (layer_of sha c)"
    using present_layers.hyps(1) present_layers.prems by (simp add: map_le_def dom_def)
  then show ?case using present_layers by (auto intro: present.present_layers)
qed

lemma stored_value_mono: "stored_value sha C v dec h x \<Longrightarrow> v \<subseteq>\<^sub>m w \<Longrightarrow> stored_value sha C w dec h x"
  unfolding stored_value_def using present_mono by blast

lemma stored_value_unique:
  "content_world sha C \<Longrightarrow> stored_value sha C v dec h x \<Longrightarrow> stored_value sha C v dec h y \<Longrightarrow> x = y"
  unfolding stored_value_def using world_inject by (metis sum.inject(2))

context merkle_backend
begin

lemma load_stored_value:
  assumes "content_world sha C" "cache_ok sha C cached" "ok s" "stored_value sha C (view s) dec h x"
  shows "load_value cached M s dec h = Some (Inr x)"
proof -
  obtain c where c: "c \<in> C" "contents_hash sha c = h" "present sha (view s) c" "deserialize dec c = Inr x"
    using assms(4) unfolding stored_value_def by blast
  then show ?thesis
    using load_finds [OF assms(1-3) c(1) present_available [OF c(3)]] by (simp add: load_value_def)
qed

lemma save_value_stores:
  assumes "content_world sha C" "ok s" "good_view sha C (view s)"
    and "roundtrips C (enc x) dec x" "serialize enc x = Inr c" "c \<in> C"
  shows "\<exists>s'. save_value sha M enc x s = Inr (contents_hash sha c, s') \<and> ok s' \<and> good_view sha C (view s') \<and>
    view s \<subseteq>\<^sub>m view s' \<and> stored_value sha C (view s') dec (contents_hash sha c) x"
proof -
  have "deserialize dec c = Inr x" by (rule deserialize_serialize [OF assms(4-6)])
  then show ?thesis
    using save_stores [OF assms(1-3,6)] assms(5,6) by (auto simp: save_value_def stored_value_def)
qed

end

section \<open>Blocks\<close>

record 'b storable_block =
  sb_height :: u64
  sb_blockhash :: hash
  sb_txhash :: hash
  sb_block :: 'b

datatype store_error =
    StoreMerkle merkle_error
  | BlockNotFound u64
  | UnsupportedDeleteOperation string
  | ConflictingBlockInDb u64 hash hash
  | MatchingBlockAlreadyInserted u64
  | TxAlreadyInDb hash
  | StoreOther string

definition ser_storable :: "'b enc \<Rightarrow> 'b storable_block enc" where
  "ser_storable enc = ser_versioned 2 (\<lambda>b.
     s_then (ser_word (sb_height b))
    (s_then (ser_hash (sb_blockhash b))
    (s_then (ser_hash (sb_txhash b))
            (enc (sb_block b)))))"

definition ignore_remaining :: "unit dec" where
  "ignore_remaining ds = Inr ((), ds\<lparr>d_pos := length (payload_of ds)\<rparr>)"

definition de_storable :: "'b dec \<Rightarrow> 'b storable_block dec" where
  "de_storable dec = de_versioned 2 (\<lambda>version.
     d_bind de_word (\<lambda>height.
     d_bind de_hash (\<lambda>blockhash.
     d_bind de_hash (\<lambda>txhash.
     d_bind dec (\<lambda>block.
     d_bind (if version \<le> 1 then ignore_remaining else d_return ()) (\<lambda>_.
     d_return \<lparr>sb_height = height, sb_blockhash = blockhash, sb_txhash = txhash, sb_block = block\<rparr>))))))"

lemma rt_storable:
  assumes C: "content_world sha C" and "roundtrips C (enc (sb_block b)) dec (sb_block b)"
    and "length (sb_blockhash b) = 32" "length (sb_txhash b) = 32"
  shows "roundtrips C (ser_storable enc b) (de_storable dec) b"
proof -
  have eta: "\<lparr>sb_height = sb_height b, sb_blockhash = sb_blockhash b, sb_txhash = sb_txhash b, sb_block = sb_block b\<rparr> = b"
    by (cases b) simp
  have nop: "d_bind (d_return ()) k = k ()" for k :: "unit \<Rightarrow> 'a storable_block dec"
    by (simp add: d_bind_def d_return_def fun_eq_iff)
  show ?thesis
    unfolding ser_storable_def de_storable_def
    by (rule rt_versioned, simp)
      (intro rt_then [OF rt_u64 [OF C]] rt_then [OF rt_hash [OF C assms(3)]] rt_then [OF rt_hash [OF C assms(4)]]
        rt_last [OF assms(2)], simp add: nop eta)
qed

section \<open>The in-memory store\<close>

record memory_db =
  db_merkle :: memory_store
  db_blockhashes :: "(u64, hash) omap"
  db_blocks :: "(u64, hash) omap"
  db_txhashes :: "(hash, u64) omap"
  db_archived :: "u64 option"

definition memory_db_new :: memory_db where
  "memory_db_new = \<lparr>db_merkle = [], db_blockhashes = [], db_blocks = [], db_txhashes = [], db_archived = None\<rparr>"

definition memory_clear_blocks :: "memory_db \<Rightarrow> memory_db" where
  "memory_clear_blocks db = db\<lparr>db_blocks := [], db_txhashes := []\<rparr>"

definition memory_delete_block :: "u64 \<Rightarrow> memory_db \<Rightarrow> memory_db" where
  "memory_delete_block height db = db\<lparr>db_blocks := om_remove height (db_blocks db)\<rparr>"

definition memory_load_latest_block :: "memory_db \<Rightarrow> store_error + u64 option" where
  "memory_load_latest_block db = Inr (map_option fst (om_last (db_blocks db)))"

definition store_load :: "(merkle_error + 'a) option \<Rightarrow> (store_error + 'a option) option" where
  "store_load r = map_option (\<lambda>r. case r of Inl e \<Rightarrow> Inl (StoreMerkle e) | Inr x \<Rightarrow> Inr (Some x)) r"

definition memory_load_block ::
  "(hash \<Rightarrow> contents option) \<Rightarrow> (bytes \<Rightarrow> hash) \<Rightarrow> 'b dec \<Rightarrow> memory_db \<Rightarrow> u64 \<Rightarrow>
    (store_error + 'b storable_block option) option" where
  "memory_load_block cached sha dec db height =
     (case om_get (db_blocks db) height of
        None \<Rightarrow> Some (Inr None)
      | Some h \<Rightarrow> store_load (load_value cached (memory_ops sha) (db_merkle db) (de_storable dec) h))"

definition memory_has_block :: "memory_db \<Rightarrow> u64 \<Rightarrow> store_error + bool" where
  "memory_has_block db height = Inr (om_contains (db_blocks db) height)"

definition memory_height_for_tx :: "memory_db \<Rightarrow> hash \<Rightarrow> store_error + u64 option" where
  "memory_height_for_tx db txhash = Inr (om_get (db_txhashes db) txhash)"

text \<open>The transaction is registered before the block is saved, so a failing save leaves it behind.\<close>

definition memory_add_block ::
  "(bytes \<Rightarrow> hash) \<Rightarrow> 'b enc \<Rightarrow> 'b storable_block \<Rightarrow> memory_db \<Rightarrow> (store_error + unit) \<times> memory_db" where
  "memory_add_block sha enc b db =
     (case om_get (db_blockhashes db) (sb_height b) of
        Some existing \<Rightarrow>
          if existing \<noteq> sb_blockhash b
          then (Inl (ConflictingBlockInDb (sb_height b) (sb_blockhash b) existing), db)
          else (Inl (MatchingBlockAlreadyInserted (sb_height b)), db)
      | None \<Rightarrow>
          if om_contains (db_txhashes db) (sb_txhash b) then (Inl (TxAlreadyInDb (sb_txhash b)), db)
          else let db1 = db\<lparr>db_txhashes := om_insert (sb_txhash b) (sb_height b) (db_txhashes db)\<rparr>
               in case save_value sha (memory_ops sha) (ser_storable enc) b (db_merkle db1) of
                    Inl e \<Rightarrow> (Inl (StoreMerkle e), db1)
                  | Inr (h, merkle) \<Rightarrow>
                      (Inr (), db1\<lparr>db_merkle := merkle, db_blocks := om_insert (sb_height b) h (db_blocks db1),
                                 db_blockhashes := om_insert (sb_height b) (sb_blockhash b) (db_blockhashes db1)\<rparr>))"

definition memory_archive_block :: "u64 \<Rightarrow> memory_db \<Rightarrow> memory_db" where
  "memory_archive_block height db = db\<lparr>db_archived := Some height\<rparr>"

definition memory_latest_archived :: "memory_db \<Rightarrow> store_error + u64 option" where
  "memory_latest_archived db = Inr (db_archived db)"

section \<open>The Fjall store\<close>

definition block_prefix :: bytes where
  "block_prefix = str_bytes ''block:''"

definition block_key :: "u64 \<Rightarrow> bytes" where
  "block_key height = block_prefix @ to_be_bytes height"

definition tx_key :: "hash \<Rightarrow> bytes" where
  "tx_key txhash = str_bytes ''tx:'' @ txhash"

definition latest_archived_key :: bytes where
  "latest_archived_key = str_bytes ''LATEST''"

definition fjall_clear_blocks :: "kv \<Rightarrow> kv" where
  "fjall_clear_blocks db = []"

definition fjall_delete_block :: "u64 \<Rightarrow> kv \<Rightarrow> store_error + kv" where
  "fjall_delete_block height db = Inl (UnsupportedDeleteOperation ''Fjall'')"

definition fjall_load_latest_block :: "kv \<Rightarrow> store_error + u64 option" where
  "fjall_load_latest_block db =
     (case om_last (filter (\<lambda>e. take 6 (fst e) = block_prefix) db) of
        None \<Rightarrow> Inr None
      | Some (key, _) \<Rightarrow>
          let rest = drop 6 key
          in if length rest = 8 then Inr (Some (of_le_bytes (rev rest))) else Inl (StoreOther ''TryFromSliceError''))"

definition hash_from_bytes :: "bytes \<Rightarrow> store_error + hash" where
  "hash_from_bytes bs = (if length bs = 32 then Inr bs else Inl (StoreOther ''Sha256Hash::from_hash''))"

definition fjall_load_block ::
  "(hash \<Rightarrow> contents option) \<Rightarrow> (bytes \<Rightarrow> hash) \<Rightarrow> 'b dec \<Rightarrow> kv \<Rightarrow> u64 \<Rightarrow>
    (store_error + 'b storable_block option) option" where
  "fjall_load_block cached sha dec db height =
     (case om_get db (block_key height) of
        None \<Rightarrow> Some (Inr None)
      | Some bs \<Rightarrow>
          (case hash_from_bytes bs of
             Inl e \<Rightarrow> Some (Inl e)
           | Inr h \<Rightarrow> store_load (load_value cached (fjall_ops sha) db (de_storable dec) h)))"

definition fjall_has_block :: "kv \<Rightarrow> u64 \<Rightarrow> store_error + bool" where
  "fjall_has_block db height = Inr (om_contains db (block_key height))"

definition fjall_height_for_tx :: "kv \<Rightarrow> hash \<Rightarrow> store_error + u64 option" where
  "fjall_height_for_tx db txhash =
     (case om_get db (tx_key txhash) of
        None \<Rightarrow> Inr None
      | Some bs \<Rightarrow> if length bs = 8 then Inr (Some (of_le_bytes (rev bs))) else Inl (StoreOther ''invalid height''))"

definition fjall_add_block ::
  "(bytes \<Rightarrow> hash) \<Rightarrow> 'b enc \<Rightarrow> 'b storable_block \<Rightarrow> kv \<Rightarrow> (store_error + unit) \<times> kv" where
  "fjall_add_block sha enc b db =
     (case serialize (ser_storable enc) b of
        Inl e \<Rightarrow> (Inl (StoreMerkle e), db)
      | Inr c \<Rightarrow>
          (case om_get db (block_key (sb_height b)) of
             Some existing \<Rightarrow>
               if existing \<noteq> contents_hash sha c
               then (case hash_from_bytes existing of
                       Inl e \<Rightarrow> (Inl e, db)
                     | Inr h \<Rightarrow> (Inl (ConflictingBlockInDb (sb_height b) (contents_hash sha c) h), db))
               else (Inl (MatchingBlockAlreadyInserted (sb_height b)), db)
           | None \<Rightarrow>
               (case save_merkle_contents sha (fjall_ops sha) c db of
                  Inl e \<Rightarrow> (Inl (StoreMerkle e), db)
                | Inr db1 \<Rightarrow>
                    (Inr (), om_insert (tx_key (sb_txhash b)) (to_be_bytes (sb_height b))
                               (om_insert (block_key (sb_height b)) (contents_hash sha c) db1)))))"

definition fjall_archive_block :: "u64 \<Rightarrow> kv \<Rightarrow> kv" where
  "fjall_archive_block height db = om_insert latest_archived_key (to_be_bytes height) db"

definition fjall_latest_archived :: "kv \<Rightarrow> store_error + u64 option" where
  "fjall_latest_archived db =
     (case om_get db latest_archived_key of
        None \<Rightarrow> Inr None
      | Some bs \<Rightarrow> if length bs < 8 then Inl (StoreOther ''index out of bounds'')
                  else Inr (Some (of_le_bytes (rev (take 8 bs)))))"


section \<open>The contract of a block database\<close>

datatype add_outcome = BlockAdded | BlockMatches | BlockConflicts | BlockFailed

fun outcome :: "store_error + unit \<Rightarrow> add_outcome" where
  "outcome (Inr ()) = BlockAdded"
| "outcome (Inl (MatchingBlockAlreadyInserted h)) = BlockMatches"
| "outcome (Inl (ConflictingBlockInDb h new old)) = BlockConflicts"
| "outcome (Inl e) = BlockFailed"

type_synonym 'b block_table = "u64 \<Rightarrow> 'b storable_block option"

definition add_spec :: "'b storable_block \<Rightarrow> 'b block_table \<Rightarrow> add_outcome \<times> 'b block_table" where
  "add_spec b f =
     (case f (sb_height b) of
        Some b' \<Rightarrow> (if b' = b then BlockMatches else BlockConflicts, f)
      | None \<Rightarrow> (BlockAdded, f(sb_height b \<mapsto> b)))"

definition latest_spec :: "'b block_table \<Rightarrow> u64 option" where
  "latest_spec f = (if dom f = {} then None else Some (Max (dom f)))"

definition tx_spec :: "'b block_table \<Rightarrow> hash \<Rightarrow> u64 option \<Rightarrow> bool" where
  "tx_spec f t r \<longleftrightarrow> (\<forall>h. r = Some h \<longleftrightarrow> (\<exists>b. f h = Some b \<and> sb_txhash b = t))"

fun add_specs :: "'b storable_block list \<Rightarrow> 'b block_table \<Rightarrow> add_outcome list \<times> 'b block_table" where
  "add_specs [] f = ([], f)"
| "add_specs (b # bs) f =
     (let (r, f') = add_spec b f; (rs, f'') = add_specs bs f' in (r # rs, f''))"

fun add_blocks ::
  "('b storable_block \<Rightarrow> 's \<Rightarrow> (store_error + unit) \<times> 's) \<Rightarrow> 'b storable_block list \<Rightarrow> 's \<Rightarrow>
    add_outcome list \<times> 's" where
  "add_blocks add [] s = ([], s)"
| "add_blocks add (b # bs) s =
     (let (r, s') = add b s; (rs, s'') = add_blocks add bs s' in (outcome r # rs, s''))"

text \<open>No transaction is in blocks of two heights.\<close>

definition txs_once :: "'b storable_block set \<Rightarrow> bool" where
  "txs_once bs \<longleftrightarrow> (\<forall>b \<in> bs. \<forall>b' \<in> bs. sb_txhash b = sb_txhash b' \<longrightarrow> sb_height b = sb_height b')"

lemma txs_once_subset: "txs_once B \<Longrightarrow> A \<subseteq> B \<Longrightarrow> txs_once A"
  unfolding txs_once_def by blast

lemma ran_add_spec: "ran (snd (add_spec b f)) \<subseteq> insert b (ran f)"
  by (auto simp: add_spec_def ran_def split: option.splits)

locale block_db =
  fixes repr :: "'s \<Rightarrow> 'b block_table \<Rightarrow> bool"
    and block_ok :: "'b storable_block \<Rightarrow> bool"
    and add :: "'b storable_block \<Rightarrow> 's \<Rightarrow> (store_error + unit) \<times> 's"
    and load :: "'s \<Rightarrow> u64 \<Rightarrow> (store_error + 'b storable_block option) option"
    and has :: "'s \<Rightarrow> u64 \<Rightarrow> store_error + bool"
    and latest :: "'s \<Rightarrow> store_error + u64 option"
    and tx_height :: "'s \<Rightarrow> hash \<Rightarrow> store_error + u64 option"
  assumes load: "repr s f \<Longrightarrow> load s h = Some (Inr (f h))"
    and has: "repr s f \<Longrightarrow> has s h = Inr (f h \<noteq> None)"
    and latest: "repr s f \<Longrightarrow> latest s = Inr (latest_spec f)"
    and tx_height: "repr s f \<Longrightarrow> length t = 32 \<Longrightarrow> \<exists>r. tx_height s t = Inr r \<and> tx_spec f t r"
    and add: "repr s f \<Longrightarrow> block_ok b \<Longrightarrow> txs_once (insert b (ran f)) \<Longrightarrow>
      \<exists>r s'. add b s = (r, s') \<and> outcome r = fst (add_spec b f) \<and> repr s' (snd (add_spec b f))"
begin

lemma add_blocks_repr:
  "repr s f \<Longrightarrow> \<forall>b \<in> set bs. block_ok b \<Longrightarrow> txs_once (set bs \<union> ran f) \<Longrightarrow>
    \<exists>s'. add_blocks add bs s = (fst (add_specs bs f), s') \<and> repr s' (snd (add_specs bs f))"
proof (induction bs arbitrary: s f)
  case (Cons b bs)
  obtain r s' where r: "add b s = (r, s')" "outcome r = fst (add_spec b f)" "repr s' (snd (add_spec b f))"
    using add [OF Cons.prems(1), of b] Cons.prems(2) txs_once_subset [OF Cons.prems(3), of "insert b (ran f)"]
    by auto
  have "txs_once (set bs \<union> ran (snd (add_spec b f)))"
    by (rule txs_once_subset [OF Cons.prems(3)]) (use ran_add_spec [of b f] in auto)
  then show ?case
    using Cons.IH [OF r(3)] Cons.prems(2) r by (auto simp: Let_def split: prod.split)
qed simp

end


section \<open>Both stores keep the contract\<close>

text \<open>The blocks a database is used with: their serializations lie in the world of contents, and a
  block is determined by its hash.\<close>

definition storable_ok ::
  "contents set \<Rightarrow> 'b enc \<Rightarrow> 'b dec \<Rightarrow> 'b storable_block set \<Rightarrow> 'b storable_block \<Rightarrow> bool" where
  "storable_ok C enc dec B b \<longleftrightarrow> b \<in> B \<and> length (sb_blockhash b) = 32 \<and> length (sb_txhash b) = 32 \<and>
     roundtrips C (enc (sb_block b)) dec (sb_block b) \<and> (\<exists>c \<in> C. serialize (ser_storable enc) b = Inr c)"

definition block_world ::
  "(bytes \<Rightarrow> hash) \<Rightarrow> contents set \<Rightarrow> (hash \<Rightarrow> contents option) \<Rightarrow> 'b storable_block set \<Rightarrow> bool" where
  "block_world sha C cached B \<longleftrightarrow> content_world sha C \<and> cache_ok sha C cached \<and> inj_on sb_blockhash B"

lemma storable_roundtrip:
  "content_world sha C \<Longrightarrow> storable_ok C enc dec B b \<Longrightarrow> roundtrips C (ser_storable enc b) (de_storable dec) b"
  unfolding storable_ok_def by (blast intro: rt_storable)

definition memory_holds ::
  "(bytes \<Rightarrow> hash) \<Rightarrow> contents set \<Rightarrow> 'b enc \<Rightarrow> 'b dec \<Rightarrow> 'b storable_block set \<Rightarrow> memory_db \<Rightarrow> u64 \<Rightarrow>
    'b storable_block \<Rightarrow> bool" where
  "memory_holds sha C enc dec B db h b \<longleftrightarrow> sb_height b = h \<and> storable_ok C enc dec B b \<and>
     om_get (db_blockhashes db) h = Some (sb_blockhash b) \<and>
     (\<exists>x. om_get (db_blocks db) h = Some x \<and> stored_value sha C (om_get (db_merkle db)) (de_storable dec) x b)"

definition memory_repr ::
  "(bytes \<Rightarrow> hash) \<Rightarrow> contents set \<Rightarrow> (hash \<Rightarrow> contents option) \<Rightarrow> 'b enc \<Rightarrow> 'b dec \<Rightarrow> 'b storable_block set \<Rightarrow>
    memory_db \<Rightarrow> 'b block_table \<Rightarrow> bool" where
  "memory_repr sha C cached enc dec B db f \<longleftrightarrow> block_world sha C cached B \<and>
     memory_ok (db_merkle db) \<and> good_view sha C (om_get (db_merkle db)) \<and> om_wf (db_blocks db) \<and>
     (\<forall>h. f h = None \<longrightarrow> om_get (db_blocks db) h = None \<and> om_get (db_blockhashes db) h = None) \<and>
     (\<forall>h b. f h = Some b \<longrightarrow> memory_holds sha C enc dec B db h b) \<and>
     (\<forall>t. tx_spec f t (om_get (db_txhashes db) t))"

lemma memory_holds_mono:
  assumes "memory_holds sha C enc dec B db h b"
    and "om_get (db_merkle db) \<subseteq>\<^sub>m om_get (db_merkle db')"
    and "om_get (db_blocks db') h = om_get (db_blocks db) h"
    and "om_get (db_blockhashes db') h = om_get (db_blockhashes db) h"
  shows "memory_holds sha C enc dec B db' h b"
  using assms stored_value_mono unfolding memory_holds_def by metis

lemma tx_spec_add:
  assumes m: "tx_spec f t r" and new: "f (sb_height b) = None"
    and once: "txs_once (insert b (ran f))" and keyed: "\<And>h b'. f h = Some b' \<Longrightarrow> sb_height b' = h"
  shows "tx_spec (f(sb_height b \<mapsto> b)) t (if t = sb_txhash b then Some (sb_height b) else r)"
proof -
  have here: "h = sb_height b" if "f h = Some b'" "sb_txhash b' = sb_txhash b" for h b'
  proof -
    have "b' \<in> ran f" using that(1) by (rule ranI)
    then have "sb_height b' = sb_height b" using once that(2) unfolding txs_once_def by blast
    then show ?thesis using keyed [OF that(1)] by simp
  qed
  have "(if t = sb_txhash b then Some (sb_height b) else r) = Some h \<longleftrightarrow>
      (\<exists>b'. (f(sb_height b \<mapsto> b)) h = Some b' \<and> sb_txhash b' = t)" for h
  proof (cases "t = sb_txhash b")
    case True
    then show ?thesis using here [of h] new by auto
  next
    case False
    then show ?thesis using m new by (auto simp: tx_spec_def)
  qed
  then show ?thesis by (simp add: tx_spec_def)
qed

lemma om_last_dom:
  assumes "om_wf m" "\<And>k. om_get m k = None \<longleftrightarrow> f k = None"
  shows "map_option fst (om_last m) = latest_spec f"
proof -
  have "k \<in> dom f \<longleftrightarrow> k \<in> fst ` set m" for k
    using assms(2) [of k] by (auto simp: om_get_None_iff)
  then have d: "dom f = fst ` set m" by blast
  show ?thesis
  proof (cases "om_last m")
    case None
    then show ?thesis using d by (simp add: latest_spec_def om_last_None_iff)
  next
    case (Some e)
    obtain k v where e: "e = (k, v)" by (cases e)
    have k: "om_get m k = Some v" "\<forall>k'. om_get m k' \<noteq> None \<longrightarrow> k' \<le> k"
      using om_last_Some [OF assms(1)] Some e by auto
    have "k \<in> fst ` set m" using om_get_in_set [OF k(1)] by force
    then have "Max (dom f) = k"
      using d k(2) by (intro Max_eqI) (auto simp: om_get_None_iff)
    moreover have "dom f \<noteq> {}" using k(1) assms(2) [of k] by (auto simp: dom_def)
    ultimately show ?thesis using Some e by (simp add: latest_spec_def)
  qed
qed


lemma load_memory_block:
  assumes "memory_repr sha C cached enc dec B db f"
  shows "memory_load_block cached sha dec db h = Some (Inr (f h))"
proof (cases "f h")
  case None
  then show ?thesis using assms by (simp add: memory_repr_def memory_load_block_def)
next
  case (Some b)
  then obtain x where x: "om_get (db_blocks db) h = Some x"
      "stored_value sha C (om_get (db_merkle db)) (de_storable dec) x b"
    using assms unfolding memory_repr_def memory_holds_def by blast
  then have "load_value cached (memory_ops sha) (db_merkle db) (de_storable dec) x = Some (Inr b)"
    using assms by (intro memory.load_stored_value) (auto simp: memory_repr_def block_world_def)
  then show ?thesis using x(1) Some by (simp add: memory_load_block_def store_load_def)
qed

lemma memory_blocks_dom:
  "memory_repr sha C cached enc dec B db f \<Longrightarrow> om_get (db_blocks db) h = None \<longleftrightarrow> f h = None"
  unfolding memory_repr_def memory_holds_def by (metis not_Some_eq)

lemma add_memory_block:
  assumes r: "memory_repr sha C cached enc dec B db f" and b: "storable_ok C enc dec B b"
    and once: "txs_once (insert b (ran f))"
  shows "\<exists>r db'. memory_add_block sha enc b db = (r, db') \<and> outcome r = fst (add_spec b f) \<and>
    memory_repr sha C cached enc dec B db' (snd (add_spec b f))"
proof (cases "f (sb_height b)")
  case (Some b')
  then have h: "memory_holds sha C enc dec B db (sb_height b) b'" using r by (simp add: memory_repr_def)
  then have "sb_blockhash b' = sb_blockhash b \<longleftrightarrow> b' = b"
    using r b unfolding memory_repr_def block_world_def memory_holds_def storable_ok_def by (metis inj_onD)
  then show ?thesis
    using Some h r by (auto simp: memory_add_block_def add_spec_def memory_holds_def)
next
  case None
  let ?h = "sb_height b"
  obtain c where c: "c \<in> C" "serialize (ser_storable enc) b = Inr c" using b by (auto simp: storable_ok_def)
  have C: "content_world sha C" and keyed: "\<And>h b'. f h = Some b' \<Longrightarrow> sb_height b' = h"
    using r by (auto simp: memory_repr_def block_world_def memory_holds_def)
  have m: "memory_ok (db_merkle db)" "good_view sha C (om_get (db_merkle db))"
    using r by (auto simp: memory_repr_def)
  have free: "om_get (db_txhashes db) (sb_txhash b) = None"
  proof (rule ccontr)
    assume "om_get (db_txhashes db) (sb_txhash b) \<noteq> None"
    then obtain h b' where h: "f h = Some b'" "sb_txhash b' = sb_txhash b"
      using r unfolding memory_repr_def tx_spec_def by blast
    then have "sb_height b' = sb_height b" using once unfolding txs_once_def by (meson insertCI ranI)
    then show False using keyed [OF h(1)] h(1) None by simp
  qed
  obtain M where M: "save_value sha (memory_ops sha) (ser_storable enc) b (db_merkle db) = Inr (contents_hash sha c, M)"
      "memory_ok M" "good_view sha C (om_get M)" "om_get (db_merkle db) \<subseteq>\<^sub>m om_get M"
      "stored_value sha C (om_get M) (de_storable dec) (contents_hash sha c) b"
    using memory.save_value_stores [OF C m storable_roundtrip [OF C b] c(2,1)] by blast
  let ?db = "db\<lparr>db_txhashes := om_insert (sb_txhash b) ?h (db_txhashes db), db_merkle := M,
      db_blocks := om_insert ?h (contents_hash sha c) (db_blocks db),
      db_blockhashes := om_insert ?h (sb_blockhash b) (db_blockhashes db)\<rparr>"
  have "memory_add_block sha enc b db = (Inr (), ?db)"
    using r None free M(1) by (simp add: memory_add_block_def memory_repr_def om_contains_def Let_def)
  moreover have "memory_repr sha C cached enc dec B ?db (f(?h \<mapsto> b))"
  proof -
    have new: "memory_holds sha C enc dec B ?db ?h b" using b M(5) by (simp add: memory_holds_def)
    have old: "memory_holds sha C enc dec B ?db h b'" if "f h = Some b'" "h \<noteq> ?h" for h b'
      by (rule memory_holds_mono [of _ _ _ _ _ db]) (use r that M(4) in \<open>auto simp: memory_repr_def\<close>)
    have tx: "tx_spec (f(?h \<mapsto> b)) t (om_get (db_txhashes ?db) t)" for t
      using tx_spec_add [OF _ None once keyed, of t "om_get (db_txhashes db) t"] r by (simp add: memory_repr_def)
    show ?thesis
      unfolding memory_repr_def
      using r M(2,3) new old tx by (auto simp: memory_repr_def om_wf_insert)
  qed
  ultimately show ?thesis using None by (simp add: add_spec_def)
qed

interpretation memory_blocks: block_db "memory_repr sha C cached enc dec B" "storable_ok C enc dec B"
  "memory_add_block sha enc" "memory_load_block cached sha dec" memory_has_block memory_load_latest_block
  memory_height_for_tx for sha C cached enc dec B
proof (unfold_locales, goal_cases)
  case (3 s f)
  have "map_option fst (om_last (db_blocks s)) = latest_spec f"
    by (rule om_last_dom [OF _ memory_blocks_dom [OF 3]]) (use 3 in \<open>simp add: memory_repr_def\<close>)
  then show ?case by (simp add: memory_load_latest_block_def)
next
  case (4 s f t)
  then show ?case by (simp add: memory_height_for_tx_def memory_repr_def)
qed (simp_all add: load_memory_block add_memory_block memory_has_block_def om_contains_def memory_blocks_dom)


text \<open>A save writes nothing but layers.\<close>

lemma missing_children_subset: "missing_children sha M s cs = Inr ms \<Longrightarrow> set ms \<subseteq> set cs"
  by (induction cs arbitrary: ms) (force simp: result_simps split: if_splits)+

lemma save_loop_keeps:
  assumes C: "content_world sha C"
    and step: "\<And>c s s'. c \<in> C \<Longrightarrow> P s \<Longrightarrow> save_layer M (layer_of sha c) s = Inr s' \<Longrightarrow> P s'"
  shows "save_loop sha M work saved s = Inr s' \<Longrightarrow> fst ` set work \<subseteq> C \<Longrightarrow> P s \<Longrightarrow> P s'"
proof (induction "work_weight work" arbitrary: work saved s rule: less_induct)
  case less
  show ?case
  proof (cases work)
    case (Cons w rest)
    obtain c check where w: "w = (c, check)" by fastforce
    have c: "c \<in> C" and rest: "fst ` set rest \<subseteq> C" using less.prems(2) Cons w by auto
    show ?thesis
    proof (cases check)
      case True
      then obtain ms where ms: "missing_children sha M s (c_children c) = Inr ms"
          "save_loop sha M (rev (map (\<lambda>m. (m, True)) ms) @ (c, False) # rest) saved s = Inr s'"
        using less.prems(1) Cons w by (auto simp: result_simps)
      have "set ms \<subseteq> C" using missing_children_subset [OF ms(1)] child_in_world [OF C c] by blast
      moreover have "work_weight (rev (map (\<lambda>m. (m, True)) ms) @ (c, False) # rest) < work_weight work"
        using missing_lighter [OF ms(1)] Cons w True by simp
      ultimately show ?thesis using less.hyps ms(2) c rest less.prems(3) by fastforce
    next
      case False
      show ?thesis
      proof (cases "contents_hash sha c \<in> set saved")
        case True
        then show ?thesis
          using less.hyps [of rest] less.prems rest Cons w False by simp
      next
        case notin: False
        then obtain t where "save_layer M (layer_of sha c) s = Inr t"
            "save_loop sha M rest (contents_hash sha c # saved) t = Inr s'"
          using less.prems(1) Cons w False by (auto simp: result_simps)
        moreover from this have "P t" using step c less.prems(3) by blast
        ultimately show ?thesis using less.hyps [of rest] rest Cons w False by simp
      qed
    qed
  qed (use less.prems in simp)
qed

lemma save_keeps:
  assumes "content_world sha C" "save_merkle_contents sha M c s = Inr s'" "c \<in> C" "P s"
    and "\<And>c s s'. c \<in> C \<Longrightarrow> P s \<Longrightarrow> save_layer M (layer_of sha c) s = Inr s' \<Longrightarrow> P s'"
  shows "P s'"
proof -
  consider "s' = s" | "save_loop sha M [(c, True)] [] s = Inr s'"
    using assms(2) unfolding save_merkle_contents_def result_simps by (auto split: if_splits)
  then show ?thesis
  proof cases
    case 2
    show ?thesis
    proof (rule save_loop_keeps [where P = P and M = M, OF assms(1) _ 2])
      show "P t'" if "d \<in> C" "P t" "save_layer M (layer_of sha d) t = Inr t'" for d t t'
        by (rule assms(5) [OF that])
    qed (use assms(3,4) in simp_all)
  qed (use assms(4) in simp)
qed

definition layer_key :: "(bytes \<Rightarrow> hash) \<Rightarrow> contents set \<Rightarrow> bytes \<Rightarrow> bool" where
  "layer_key sha C k \<longleftrightarrow> (\<exists>c \<in> C. k = payload_key (contents_hash sha c) \<or> k = children_key (contents_hash sha c))"

lemma fjall_save_frame:
  assumes "content_world sha C" "save_merkle_contents sha (fjall_ops sha) c db = Inr db'" "c \<in> C" "om_wf db"
  shows "om_wf db' \<and> (\<forall>k. \<not> layer_key sha C k \<longrightarrow> om_get db' k = om_get db k)"
proof (rule save_keeps [OF assms(1-3)])
  show "om_wf s' \<and> (\<forall>k. \<not> layer_key sha C k \<longrightarrow> om_get s' k = om_get db k)"
    if c: "d \<in> C" and s: "om_wf s \<and> (\<forall>k. \<not> layer_key sha C k \<longrightarrow> om_get s k = om_get db k)"
      and s': "save_layer (fjall_ops sha) (layer_of sha d) s = Inr s'" for d s s'
  proof -
    have "layer_hash sha (layer_of sha d) = contents_hash sha d"
      by (simp add: layer_hash_def layer_of_def contents_hash_def)
    then have "layer_key sha C (payload_key (layer_hash sha (layer_of sha d)))"
      "layer_key sha C (children_key (layer_hash sha (layer_of sha d)))"
      using c by (auto simp: layer_key_def)
    then show ?thesis using s s' by (auto simp: fjall_ops_def fjall_save_def intro: om_wf_insert)
  qed
qed (simp add: assms(4))


lemma to_be_bytes_u64 [simp]:
  "length (to_be_bytes (h :: u64)) = 8" "of_le_bytes (rev (to_be_bytes h)) = (h :: u64)"
  using u64_key.read_back [of h] by (auto simp: key_u64_def from_key_u64_def split: if_splits)

lemma block_prefix_length [simp]: "length block_prefix = 6"
  by (simp add: block_prefix_def str_bytes_def)

lemma block_key_simps [simp]:
  "length (block_key h) = 14" "take 6 (block_key h) = block_prefix" "drop 6 (block_key h) = to_be_bytes h"
  by (simp_all add: block_key_def)

lemma block_key_inject [simp]: "block_key h = block_key h' \<longleftrightarrow> h = h'"
  by (metis block_key_simps(3) to_be_bytes_u64(2))

lemma block_key_le: "block_key h \<le> block_key h' \<longleftrightarrow> h \<le> h'"
proof -
  have "(block_prefix @ xs < block_prefix @ ys) \<longleftrightarrow> xs < ys" for xs ys :: bytes
    using list_less_def lexord_same_pref_iff [of block_prefix xs ys "{(a, b). a < b}"]
    by (simp add: list_less_def)
  then have "block_key h' < block_key h \<longleftrightarrow> h' < h"
    unfolding block_key_def using to_be_bytes_order [of 8 h' h] by simp
  then show ?thesis by (meson linorder_not_less)
qed

lemma tx_key_simps [simp]: "length (tx_key t) = 3 + length t" "tx_key t = tx_key t' \<longleftrightarrow> t = t'"
  "take 6 (tx_key t) \<noteq> block_prefix"
  by (simp_all add: tx_key_def block_prefix_def str_bytes_def)

lemma layer_key_length: "content_world sha C \<Longrightarrow> layer_key sha C k \<Longrightarrow> length k = 33"
  by (auto simp: layer_key_def content_world_def contents_hash_def payload_key_def children_key_def)

lemma fjall_other_keys:
  assumes "length k \<noteq> 33"
  shows "fjall_view (om_insert k v db) = fjall_view db" "fjall_ok (om_insert k v db) = fjall_ok db"
proof -
  have "length h = 32 \<Longrightarrow> payload_key h \<noteq> k \<and> children_key h \<noteq> k" for h
    using assms by (auto simp: payload_key_def children_key_def)
  then show "fjall_view (om_insert k v db) = fjall_view db" "fjall_ok (om_insert k v db) = fjall_ok db"
    by (auto simp: fjall_view_def fjall_load_def fjall_ok_def fun_eq_iff split: option.split)
qed

definition fjall_holds ::
  "(bytes \<Rightarrow> hash) \<Rightarrow> contents set \<Rightarrow> 'b enc \<Rightarrow> 'b dec \<Rightarrow> 'b storable_block set \<Rightarrow> kv \<Rightarrow> u64 \<Rightarrow>
    'b storable_block \<Rightarrow> bool" where
  "fjall_holds sha C enc dec B db h b \<longleftrightarrow> sb_height b = h \<and> storable_ok C enc dec B b \<and>
     (\<exists>c \<in> C. serialize (ser_storable enc) b = Inr c \<and> om_get db (block_key h) = Some (contents_hash sha c) \<and>
        present sha (fjall_view db) c)"

definition fjall_tx :: "kv \<Rightarrow> hash \<Rightarrow> u64 option" where
  "fjall_tx db t = map_option (\<lambda>bs. of_le_bytes (rev bs)) (om_get db (tx_key t))"

definition fjall_repr ::
  "(bytes \<Rightarrow> hash) \<Rightarrow> contents set \<Rightarrow> (hash \<Rightarrow> contents option) \<Rightarrow> 'b enc \<Rightarrow> 'b dec \<Rightarrow> 'b storable_block set \<Rightarrow>
    kv \<Rightarrow> 'b block_table \<Rightarrow> bool" where
  "fjall_repr sha C cached enc dec B db f \<longleftrightarrow> block_world sha C cached B \<and>
     (\<forall>c \<in> C. take 6 (contents_hash sha c) \<noteq> block_prefix) \<and>
     fjall_ok db \<and> good_view sha C (fjall_view db) \<and> om_wf db \<and>
     (\<forall>h. f h = None \<longrightarrow> om_get db (block_key h) = None) \<and>
     (\<forall>h b. f h = Some b \<longrightarrow> fjall_holds sha C enc dec B db h b) \<and>
     (\<forall>k. om_get db k \<noteq> None \<longrightarrow> take 6 k = block_prefix \<longrightarrow> k \<in> range block_key) \<and>
     (\<forall>t. length t = 32 \<longrightarrow> tx_spec f t (fjall_tx db t)) \<and>
     (\<forall>t bs. length t = 32 \<longrightarrow> om_get db (tx_key t) = Some bs \<longrightarrow> length bs = 8)"

lemma fjall_holds_mono:
  assumes "fjall_holds sha C enc dec B db h b" "fjall_view db \<subseteq>\<^sub>m fjall_view db'"
    and "om_get db' (block_key h) = om_get db (block_key h)"
  shows "fjall_holds sha C enc dec B db' h b"
  using assms present_mono unfolding fjall_holds_def by metis

lemma fjall_blocks_dom:
  "fjall_repr sha C cached enc dec B db f \<Longrightarrow> om_get db (block_key h) = None \<longleftrightarrow> f h = None"
  unfolding fjall_repr_def fjall_holds_def by (metis not_Some_eq)

lemma load_fjall_block:
  assumes "fjall_repr sha C cached enc dec B db f"
  shows "fjall_load_block cached sha dec db h = Some (Inr (f h))"
proof (cases "f h")
  case None
  then show ?thesis using assms by (simp add: fjall_repr_def fjall_load_block_def)
next
  case (Some b)
  have C: "content_world sha C" "cache_ok sha C cached" using assms by (auto simp: fjall_repr_def block_world_def)
  obtain c where c: "c \<in> C" "serialize (ser_storable enc) b = Inr c" "om_get db (block_key h) = Some (contents_hash sha c)"
      "present sha (fjall_view db) c" and b: "storable_ok C enc dec B b"
    using assms Some unfolding fjall_repr_def fjall_holds_def by blast
  have "deserialize (de_storable dec) c = Inr b"
    by (rule deserialize_serialize [OF storable_roundtrip [OF C(1) b] c(2,1)])
  then have "stored_value sha C (fjall_view db) (de_storable dec) (contents_hash sha c) b"
    using c(1,4) by (auto simp: stored_value_def)
  then have "load_value cached (fjall_ops sha) db (de_storable dec) (contents_hash sha c) = Some (Inr b)"
    using assms by (intro fjall.load_stored_value [OF C]) (auto simp: fjall_repr_def)
  moreover have "length (contents_hash sha c) = 32" using C by (simp add: content_world_def contents_hash_def)
  ultimately show ?thesis using c(3) Some by (simp add: fjall_load_block_def hash_from_bytes_def store_load_def)
qed


lemma prefix_entries:
  "om_get (filter (\<lambda>e. take 6 (fst e) = block_prefix) db) k = (if take 6 k = block_prefix then om_get db k else None)"
  by (induction db) auto

lemma prefix_wf: "om_wf db \<Longrightarrow> om_wf (filter (\<lambda>e. take 6 (fst e) = block_prefix) db)"
  by (simp add: om_wf_def sorted_wrt_map sorted_wrt_filter)

lemma latest_fjall_block:
  assumes r: "fjall_repr sha C cached enc dec B db f"
  shows "fjall_load_latest_block db = Inr (latest_spec f)"
proof -
  let ?m = "filter (\<lambda>e. take 6 (fst e) = block_prefix) db"
  have wf: "om_wf db" "om_wf ?m"
    using r by (simp_all add: fjall_repr_def prefix_wf)
  note get = prefix_entries [of db]
  show ?thesis
  proof (cases "om_last ?m")
    case None
    then have "om_get ?m (block_key h) = None" for h by (simp add: om_last_None_iff)
    then have "dom f = {}" using fjall_blocks_dom [OF r] by (auto simp: get)
    then show ?thesis using None by (simp add: fjall_load_latest_block_def latest_spec_def)
  next
    case (Some e)
    obtain k v where e: "e = (k, v)" by (cases e)
    have k: "om_get ?m k = Some v" "\<forall>k'. om_get ?m k' \<noteq> None \<longrightarrow> k' \<le> k"
      using om_last_Some [OF wf(2)] Some e by auto
    have kb: "take 6 k = block_prefix" "om_get db k = Some v"
      using k(1) unfolding get by (metis option.distinct(1))+
    then obtain h where h: "k = block_key h"
      using r unfolding fjall_repr_def by blast
    have in_dom: "h' \<in> dom f \<longleftrightarrow> om_get ?m (block_key h') \<noteq> None" for h'
      using fjall_blocks_dom [OF r, of h'] by (auto simp: get)
    have "finite (dom f)"
    proof (rule finite_subset)
      show "dom f \<subseteq> block_key -` (fst ` set ?m)"
        by (rule subsetI) (simp only: in_dom om_get_None_iff not_not vimage_eq)
      show "finite (block_key -` (fst ` set ?m))" by (rule finite_vimageI) (auto simp: inj_def)
    qed
    moreover have "h' \<le> h" if "h' \<in> dom f" for h'
      using k(2) in_dom [of h'] that h block_key_le by blast
    moreover have "h \<in> dom f" using in_dom [of h] k(1) h by simp
    ultimately have "Max (dom f) = h \<and> dom f \<noteq> {}" using Max_eqI [of "dom f" h] by blast
    then have "latest_spec f = Some h" by (simp add: latest_spec_def)
    then show ?thesis using Some e h by (simp add: fjall_load_latest_block_def Let_def)
  qed
qed


lemma add_fjall_block:
  assumes r: "fjall_repr sha C cached enc dec B db f" and b: "storable_ok C enc dec B b"
    and once: "txs_once (insert b (ran f))"
  shows "\<exists>r db'. fjall_add_block sha enc b db = (r, db') \<and> outcome r = fst (add_spec b f) \<and>
    fjall_repr sha C cached enc dec B db' (snd (add_spec b f))"
proof -
  let ?h = "sb_height b"
  obtain c where c: "c \<in> C" "serialize (ser_storable enc) b = Inr c" using b by (auto simp: storable_ok_def)
  have C: "content_world sha C" and keyed: "\<And>h b'. f h = Some b' \<Longrightarrow> sb_height b' = h"
    using r by (auto simp: fjall_repr_def block_world_def fjall_holds_def)
  have len: "length (contents_hash sha d) = 32" for d using C by (simp add: content_world_def contents_hash_def)
  have de_c: "deserialize (de_storable dec) c = Inr b"
    by (rule deserialize_serialize [OF storable_roundtrip [OF C b] c(2,1)])
  show ?thesis
  proof (cases "f ?h")
    case (Some b')
    then obtain d where d: "d \<in> C" "serialize (ser_storable enc) b' = Inr d"
        "om_get db (block_key ?h) = Some (contents_hash sha d)" and b': "storable_ok C enc dec B b'"
      using r unfolding fjall_repr_def fjall_holds_def by blast
    have "deserialize (de_storable dec) d = Inr b'"
      by (rule deserialize_serialize [OF storable_roundtrip [OF C b'] d(2,1)])
    then have "contents_hash sha d = contents_hash sha c \<longleftrightarrow> b' = b"
      using world_inject [OF C d(1) c(1)] de_c c(2) d(2) by auto
    then show ?thesis
      using Some d(3) c(2) r by (auto simp: fjall_add_block_def add_spec_def hash_from_bytes_def len)
  next
    case None
    have s: "fjall_ok db" "good_view sha C (fjall_view db)" "om_wf db" using r by (auto simp: fjall_repr_def)
    obtain s' where s': "save_merkle_contents sha (fjall_ops sha) c db = Inr s'" "fjall_ok s'"
        "good_view sha C (fjall_view s')" "fjall_view db \<subseteq>\<^sub>m fjall_view s'" "present sha (fjall_view s') c"
      using fjall.save_stores [OF C s(1,2) c(1)] by blast
    have frame: "om_wf s'" "\<And>k. \<not> layer_key sha C k \<Longrightarrow> om_get s' k = om_get db k"
      using fjall_save_frame [OF C s'(1) c(1) s(3)] by auto
    define db' where "db' = om_insert (tx_key (sb_txhash b)) (to_be_bytes ?h)
        (om_insert (block_key ?h) (contents_hash sha c) s')"
    have txl: "length (tx_key (sb_txhash b)) = 35" using b by (simp add: storable_ok_def)
    have eq: "fjall_add_block sha enc b db = (Inr (), db')"
      using r None c(2) s'(1) by (simp add: fjall_add_block_def fjall_repr_def db'_def)
    have view: "fjall_view db' = fjall_view s'" "fjall_ok db'"
      using s'(2) txl by (simp_all add: db'_def fjall_other_keys)
    have nlk: "\<not> layer_key sha C k" if "length k \<noteq> 33" for k using layer_key_length [OF C] that by blast
    have bk: "om_get db' (block_key h) = (if h = ?h then Some (contents_hash sha c) else om_get db (block_key h))" for h
    proof -
      have "block_key h \<noteq> tx_key (sb_txhash b)" using txl by (metis block_key_simps(1) numeral_eq_iff semiring_norm)
      then show ?thesis using frame(2) [OF nlk] by (simp add: db'_def)
    qed
    have tk: "om_get db' (tx_key t) = (if t = sb_txhash b then Some (to_be_bytes ?h) else om_get db (tx_key t))"
      if "length t = 32" for t
      using frame(2) [OF nlk, of "tx_key t"] that tx_key_simps(3) [of t] block_key_simps(2) [of ?h]
      by (auto simp: db'_def simp del: tx_key_simps(3) block_key_simps(2))
    have new: "fjall_holds sha C enc dec B db' ?h b"
      using b c s'(5) bk [of ?h] view(1) by (auto simp: fjall_holds_def)
    have old: "fjall_holds sha C enc dec B db' h b'" if "f h = Some b'" "h \<noteq> ?h" for h b'
      by (rule fjall_holds_mono [of _ _ _ _ _ db])
        (use r that s'(4) view(1) bk in \<open>auto simp: fjall_repr_def\<close>)
    have tx: "tx_spec (f(?h \<mapsto> b)) t (fjall_tx db' t)" if t: "length t = 32" for t
    proof -
      have "tx_spec f t (fjall_tx db t)" using r t by (simp add: fjall_repr_def)
      moreover have "fjall_tx db' t = (if t = sb_txhash b then Some ?h else fjall_tx db t)"
        by (simp add: fjall_tx_def tk [OF t])
      ultimately show ?thesis using tx_spec_add [OF _ None once keyed] by simp
    qed
    have pre: "k \<in> range block_key" if "om_get db' k \<noteq> None" "take 6 k = block_prefix" for k
    proof (cases "k = block_key ?h")
      case False
      have "take 6 k \<noteq> block_prefix" if "layer_key sha C k"
        using r that len unfolding layer_key_def fjall_repr_def payload_key_def children_key_def by auto
      then have "om_get s' k = om_get db k" using that(2) by (intro frame(2)) blast
      then have "om_get db k \<noteq> None"
        using that False tx_key_simps(3) [of "sb_txhash b"] by (auto simp: db'_def split: if_splits)
      then show ?thesis using r that(2) unfolding fjall_repr_def by blast
    qed simp
    have "fjall_repr sha C cached enc dec B db' (f(?h \<mapsto> b))"
      unfolding fjall_repr_def
    proof (intro conjI)
      show "om_wf db'" using frame(1) by (simp add: db'_def om_wf_insert)
      show "good_view sha C (fjall_view db')" using s'(3) view(1) by simp
      show "\<forall>h. (f(?h \<mapsto> b)) h = None \<longrightarrow> om_get db' (block_key h) = None"
        using bk r by (auto simp: fjall_repr_def)
      show "\<forall>h b'. (f(?h \<mapsto> b)) h = Some b' \<longrightarrow> fjall_holds sha C enc dec B db' h b'" using new old by auto
      show "\<forall>k. om_get db' k \<noteq> None \<longrightarrow> take 6 k = block_prefix \<longrightarrow> k \<in> range block_key" using pre by blast
      show "\<forall>t. length t = 32 \<longrightarrow> tx_spec (f(?h \<mapsto> b)) t (fjall_tx db' t)" using tx by blast
      show "\<forall>t bs. length t = 32 \<longrightarrow> om_get db' (tx_key t) = Some bs \<longrightarrow> length bs = 8"
        using tk r by (auto simp: fjall_repr_def)
    qed (use r view(2) in \<open>auto simp: fjall_repr_def\<close>)
    then show ?thesis using eq None by (simp add: add_spec_def)
  qed
qed


interpretation fjall_blocks: block_db "fjall_repr sha C cached enc dec B" "storable_ok C enc dec B"
  "fjall_add_block sha enc" "fjall_load_block cached sha dec" fjall_has_block fjall_load_latest_block
  fjall_height_for_tx for sha C cached enc dec B
proof (unfold_locales, goal_cases)
  case (4 s f t)
  then have "tx_spec f t (fjall_tx s t)" "\<And>bs. om_get s (tx_key t) = Some bs \<Longrightarrow> length bs = 8"
    by (auto simp: fjall_repr_def)
  then show ?case by (auto simp: fjall_height_for_tx_def fjall_tx_def split: option.splits)
qed (simp_all add: load_fjall_block latest_fjall_block add_fjall_block fjall_has_block_def om_contains_def fjall_blocks_dom)


section \<open>Properties\<close>

lemma tx_spec_unique: "tx_spec f t r \<Longrightarrow> tx_spec f t r' \<Longrightarrow> r = r'"
  unfolding tx_spec_def by (metis option.exhaust)

lemma memory_repr_new: "block_world sha C cached B \<Longrightarrow> memory_repr sha C cached enc dec B memory_db_new (\<lambda>_. None)"
  by (simp add: memory_repr_def memory_db_new_def memory_ok_def good_view_def closed_view_def view_of_world_def tx_spec_def)

lemma fjall_repr_new:
  assumes "block_world sha C cached B" "\<forall>c \<in> C. take 6 (contents_hash sha c) \<noteq> block_prefix"
  shows "fjall_repr sha C cached enc dec B [] (\<lambda>_. None)"
proof -
  have "fjall_view [] = (\<lambda>_. None)" by (simp add: fun_eq_iff fjall_view_def fjall_load_def)
  then show ?thesis
    using assms by (simp add: fjall_repr_def fjall_ok_def good_view_def closed_view_def view_of_world_def
        tx_spec_def fjall_tx_def)
qed


definition tiny_block :: "u64 \<Rightarrow> u8 \<Rightarrow> u64 storable_block" where
  "tiny_block h x = \<lparr>sb_height = h, sb_blockhash = replicate 32 x, sb_txhash = replicate 32 x, sb_block = 7\<rparr>"

definition tiny_contents :: "u64 \<Rightarrow> u8 \<Rightarrow> contents" where
  "tiny_contents h x = Contents ([2] @ to_le_bytes h @ replicate 32 x @ replicate 32 x @ to_le_bytes (7 :: u64)) []"

lemma tiny_serialized:
  "serialize (ser_storable ser_word) (tiny_block 0 1) = Inr (tiny_contents 0 1)"
  "serialize (ser_storable ser_word) (tiny_block 1 2) = Inr (tiny_contents 1 2)"
  "serialize (ser_storable ser_word) (tiny_block 1 3) = Inr (tiny_contents 1 3)"
  by code_simp+


text \<open>Clearing the in-memory store, or deleting a block, removes the block but not the hash that
  \<open>add_block\<close> compares with: the block is answered with "already inserted" when it is added again,
  and loading it finds nothing.\<close>

theorem cleared_memory_block_cannot_return:
  assumes "memory_add_block sha enc b db = (Inr (), db1)"
    and "db2 = memory_clear_blocks db1 \<or> db2 = memory_delete_block (sb_height b) db1"
  shows "memory_add_block sha enc b db2 = (Inl (MatchingBlockAlreadyInserted (sb_height b)), db2) \<and>
    memory_load_block cached sha dec db2 (sb_height b) = Some (Inr None)"
proof -
  have "om_get (db_blockhashes db1) (sb_height b) = Some (sb_blockhash b)"
    using assms(1) by (auto simp: memory_add_block_def Let_def split: option.splits if_splits sum.splits)
  then show ?thesis
    using assms(2) by (auto simp: memory_add_block_def memory_load_block_def memory_clear_blocks_def memory_delete_block_def)
qed

theorem cleared_memory_block_cannot_return_witness:
  "\<exists>db1. memory_add_block (ce_sha sample_codec) ser_word (tiny_block 0 1) memory_db_new = (Inr (), db1) \<and>
     memory_add_block (ce_sha sample_codec) ser_word (tiny_block 0 1) (memory_clear_blocks db1) =
       (Inl (MatchingBlockAlreadyInserted 0), memory_clear_blocks db1) \<and>
     memory_load_block (\<lambda>_. None) (ce_sha sample_codec) de_word (memory_clear_blocks db1) 0 = Some (Inr None)"
proof -
  have "outcome (fst (memory_add_block (ce_sha sample_codec) ser_word (tiny_block 0 1) memory_db_new)) = BlockAdded"
    by code_simp
  moreover have "outcome r = BlockAdded \<Longrightarrow> r = Inr ()" for r by (cases r rule: outcome.cases) auto
  ultimately obtain db1 where
    "memory_add_block (ce_sha sample_codec) ser_word (tiny_block 0 1) memory_db_new = (Inr (), db1)"
    by (metis prod.collapse)
  then show ?thesis
    using cleared_memory_block_cannot_return [of "ce_sha sample_codec" ser_word "tiny_block 0 1" memory_db_new]
    by (fastforce simp: tiny_block_def)
qed

text \<open>Blocks, transactions and Merkle layers share one Fjall partition, and the latest block is the
  last key that starts with \<open>block:\<close>.  A layer whose hash starts with these six bytes and sorts behind
  the keys of the blocks makes \<open>load_latest_block\<close> fail from the moment it is stored.\<close>

theorem layer_hash_hides_latest_block:
  assumes "om_wf db" "save_layer (fjall_ops sha) l db = Inr db'"
    and "length (layer_hash sha l) = 32" "take 6 (layer_hash sha l) = block_prefix"
    and "\<And>k. om_contains db k \<Longrightarrow> take 6 k = block_prefix \<Longrightarrow> \<exists>h. k = block_key h \<and> k < layer_hash sha l"
  shows "\<exists>e. fjall_load_latest_block db' = Inl e"
proof -
  let ?m = "filter (\<lambda>e. take 6 (fst e) = block_prefix) db'"
  have db': "db' = om_insert (children_key (layer_hash sha l)) (render_children (l_children l))
      (om_insert (payload_key (layer_hash sha l)) (l_payload l) db)"
    using assms(2) by (simp add: fjall_ops_def fjall_save_def)
  have wf: "om_wf ?m"
    using assms(1) by (simp add: db' prefix_wf om_wf_insert)
  have ck: "om_get ?m (children_key (layer_hash sha l)) \<noteq> None"
    using assms(3,4) unfolding prefix_entries by (simp add: db' children_key_def)
  from ck have "?m \<noteq> []" by auto
  then obtain k v where last: "om_last ?m = Some (k, v)"
    by (metis om_last_None_iff option.exhaust prod.exhaust)
  then have k: "om_get ?m k = Some v" "children_key (layer_hash sha l) \<le> k"
    using om_last_Some [OF wf last] ck by blast+
  have pre: "take 6 k = block_prefix" "om_get db' k = Some v"
    using k(1) unfolding prefix_entries by (metis option.distinct(1))+
  have "length k = 33"
  proof (rule ccontr)
    assume "length k \<noteq> 33"
    then have "om_contains db k"
      using pre(2) assms(3) by (auto simp: db' om_contains_def payload_key_def children_key_def split: if_splits)
    then have "k < layer_hash sha l" using assms(5) pre(1) by blast
    moreover have "layer_hash sha l \<le> children_key (layer_hash sha l)"
      by (simp add: children_key_def list_le_def list_less_def lexord_append_rightI)
    ultimately show False using k(2) by order
  qed
  then show ?thesis using last by (auto simp: fjall_load_latest_block_def Let_def)
qed


theorem layer_hash_hides_latest_block_witness:
  "fjall_load_latest_block [(block_key 0, replicate 32 0)] = Inr (Some 0) \<and>
   (\<exists>db e. save_layer (fjall_ops (\<lambda>_. block_prefix @ replicate 26 1)) \<lparr>l_payload = [5], l_children = []\<rparr>
        [(block_key 0, replicate 32 0)] = Inr db \<and> fjall_load_latest_block db = Inl e)"
proof -
  let ?sha = "\<lambda>_ :: bytes. block_prefix @ replicate 26 1 :: bytes"
  have "block_key 0 < ?sha []" by code_simp
  then have "\<exists>e. fjall_load_latest_block (om_insert (children_key (?sha [])) [] (om_insert (payload_key (?sha [])) [5]
      [(block_key 0, replicate 32 0)])) = Inl e"
    by (intro layer_hash_hides_latest_block [of "[(block_key 0, replicate 32 0)]" ?sha "\<lparr>l_payload = [5], l_children = []\<rparr>"])
      (auto simp: om_wf_def om_contains_def fjall_ops_def fjall_save_def layer_hash_def render_children_def split: if_splits)
  moreover have "fjall_load_latest_block [(block_key 0, replicate 32 0)] = Inr (Some 0)"
    by (simp add: fjall_load_latest_block_def om_last_def Let_def)
  ultimately show ?thesis
    by (auto simp: fjall_ops_def fjall_save_def layer_hash_def render_children_def)
qed

end
