(* ===== verification/Blocks.thy ===== *)
theory Blocks
  imports Execution Merkle_Codec
begin

text \<open>
  Blocks (\<open>kolme/src/core/types.rs\<close>): a block carries one signed transaction, the hashes of the
  states it leads to, and the hash of its parent.  A signed block is the JSON text of a block with
  the signature of the processor; its hash is the hash of that text.  Also here: the notifications
  a processor signs, and how signed JSON is stored (\<open>kolme/src/common.rs\<close>).

  JSON printing and parsing are parameters.
\<close>

section \<open>Data\<close>

record ('d, 'm) block =
  bk_tx :: "('d, 'm) signed_transaction"
  bk_timestamp :: int
  bk_processor :: public_key
  bk_height :: u64
  bk_parent :: hash
  bk_framework_state :: hash
  bk_app_state :: hash
  bk_logs :: hash
  bk_loads :: "block_data_load list"

type_synonym ('d, 'm) signed_block = "('d, 'm) block signed_tagged_json"

record 'd failed_transaction =
  ft_txhash :: hash
  ft_proposed_height :: u64
  ft_error :: "'d kerr"

record latest_block =
  lb_height :: u64
  lb_when :: int

record ('d, 'm, 's) executed_block =
  xb_signed_block :: "('d, 'm) signed_block"
  xb_fs :: "'d framework_state"
  xb_app_state :: 's
  xb_logs :: "string list list"

definition stj_inner :: "'a signed_tagged_json \<Rightarrow> 'a" where
  "stj_inner s = tj_value (stj_message s)"

definition message_hash :: "'a signed_tagged_json \<Rightarrow> hash" where
  "message_hash s = tj_hash (stj_message s)"

definition tx_hash :: "('d, 'm) signed_transaction \<Rightarrow> hash" where
  "tx_hash stx = message_hash stx"

definition block_hash :: "('d, 'm) signed_block \<Rightarrow> hash" where
  "block_hash b = message_hash b"

definition block_height :: "('d, 'm) signed_block \<Rightarrow> u64" where
  "block_height b = bk_height (stj_inner b)"

definition block_tx :: "('d, 'm) signed_block \<Rightarrow> ('d, 'm) signed_transaction" where
  "block_tx b = bk_tx (stj_inner b)"

definition validate_block_signature :: "recover_fn \<Rightarrow> ('d, 'm) signed_block \<Rightarrow> 'd kerr + unit" where
  "validate_block_signature rcv b =
     rbind (stj_verify_signature rcv b) (\<lambda>pubkey.
       ensure (pubkey = bk_processor (stj_inner b)) (Anyhow ''pubkey == processor''))"

definition genesis_parent :: "(bytes \<Rightarrow> hash) \<Rightarrow> hash" where
  "genesis_parent sha = sha (str_bytes ''genesis parent'')"

section \<open>Signing\<close>

definition tj_sign :: "('k \<Rightarrow> bytes \<Rightarrow> sigrec) \<Rightarrow> 'k \<Rightarrow> 'a tagged_json \<Rightarrow> 'a signed_tagged_json" where
  "tj_sign sign key t =
     (let r = sign key (tj_as_bytes t) in
      \<lparr>stj_message = t, stj_signature = sig r, stj_recovery_id = recid r\<rparr>)"

text \<open>What the code relies on of \<open>k256\<close>: a signature recovers to the key that made it.\<close>

definition sign_recovers :: "recover_fn \<Rightarrow> ('k \<Rightarrow> bytes \<Rightarrow> sigrec) \<Rightarrow> ('k \<Rightarrow> public_key) \<Rightarrow> bool" where
  "sign_recovers rcv sign pk \<longleftrightarrow>
     (\<forall>k msg. rcv msg (sig (sign k msg)) (recid (sign k msg)) = Some (pk k))"

lemma verify_signed:
  "sign_recovers rcv sign pk \<Longrightarrow> stj_verify_signature rcv (tj_sign sign k t) = Inr (pk k)"
  by (simp add: stj_verify_signature_def tj_sign_def sign_recovers_def Let_def)

lemma tj_sign_simps [simp]:
  "stj_message (tj_sign sign k t) = t" "stj_inner (tj_sign sign k t) = tj_value t"
  "message_hash (tj_sign sign k t) = tj_hash t"
  by (simp_all add: tj_sign_def Let_def stj_inner_def message_hash_def)

section \<open>Storage\<close>

definition ser_tagged_json :: "'a tagged_json enc" where
  "ser_tagged_json t = ser_string (tj_serialized t)"

definition de_tagged_json :: "(bytes \<Rightarrow> hash) \<Rightarrow> (string \<Rightarrow> 'a option) \<Rightarrow> 'a tagged_json dec" where
  "de_tagged_json sha of_json =
     d_bind de_string (\<lambda>s. d_check (ok_or (tj_try_from_string sha of_json s) (MerkleCustom ''json'')))"

definition ser_signed_json :: "'a signed_tagged_json enc" where
  "ser_signed_json = ser_versioned 0 (\<lambda>s.
     s_then (ser_tagged_json (stj_message s))
    (s_then (ser_signature (stj_signature s))
            (ser_recid (stj_recovery_id s))))"

definition de_signed_json ::
  "'d codec_env \<Rightarrow> (string \<Rightarrow> 'a option) \<Rightarrow> 'a signed_tagged_json dec" where
  "de_signed_json E of_json = de_versioned 0 (\<lambda>_.
     d_bind (de_tagged_json (ce_sha E) of_json) (\<lambda>t.
     d_bind (de_signature E) (\<lambda>x.
     d_bind (de_recid E) (\<lambda>r.
     d_return \<lparr>stj_message = t, stj_signature = x, stj_recovery_id = r\<rparr>))))"

definition ser_signed_block :: "('d, 'm) signed_block enc" where
  "ser_signed_block = ser_versioned 0 ser_signed_json"

definition de_signed_block ::
  "'d codec_env \<Rightarrow> (string \<Rightarrow> ('d, 'm) block option) \<Rightarrow> ('d, 'm) signed_block dec" where
  "de_signed_block E of_json = de_versioned 0 (\<lambda>_. de_signed_json E of_json)"

text \<open>A signed message as it comes out of a parser: its value is what its text says, its hash the hash
  of the text.\<close>

definition ok_signed_json :: "'d codec_env \<Rightarrow> (string \<Rightarrow> 'a option) \<Rightarrow> 'a signed_tagged_json \<Rightarrow> bool" where
  "ok_signed_json E of_json s \<longleftrightarrow>
     ok_string (tj_serialized (stj_message s)) \<and>
     tj_try_from_string (ce_sha E) of_json (tj_serialized (stj_message s)) = Some (stj_message s) \<and>
     ok_sigrec E (stj_signature_with_recovery s)"

lemma rt_signed_json:
  assumes C: "content_world sha C" and "ok_signed_json E of_json s"
  shows "roundtrips C (ser_signed_json s) (de_signed_json E of_json) s"
proof -
  have t: "roundtrips C (ser_tagged_json (stj_message s)) (de_tagged_json (ce_sha E) of_json) (stj_message s)"
    unfolding ser_tagged_json_def de_tagged_json_def
    by (rule rt_last [OF rt_string [OF C]]) (use assms(2) in \<open>simp_all add: ok_signed_json_def\<close>)
  have sg: "roundtrips C (ser_signature (stj_signature s)) (de_signature E) (stj_signature s)"
    by (rule rt_signature [OF C])
      (use assms(2) in \<open>simp_all add: ok_signed_json_def ok_sigrec_def stj_signature_with_recovery_def\<close>)
  have r: "roundtrips C (ser_recid (stj_recovery_id s)) (de_recid E) (stj_recovery_id s)"
    unfolding ser_recid_def de_recid_def using assms(2)
    by (intro rt_last [OF rt_byte]) (simp add: ok_signed_json_def ok_sigrec_def stj_signature_with_recovery_def)
  show ?thesis
    unfolding ser_signed_json_def de_signed_json_def
    by (rule rt_versioned, simp) (intro rt_then [OF t] rt_then [OF sg] rt_last [OF r], cases s, simp)
qed

interpretation signed_json_codec:
  merkle_codec sha ser_signed_json "de_signed_json E of_json" "ok_signed_json E of_json" for sha E of_json
  by unfold_locales (rule rt_signed_json)

interpretation signed_block_codec:
  merkle_codec sha ser_signed_block "de_signed_block E of_json" "ok_signed_json E of_json" for sha E of_json
  by unfold_locales (auto simp: ser_signed_block_def de_signed_block_def intro: rt_versioned rt_signed_json)

end
