(* ===== verification/Mempool.thy ===== *)
theory Mempool
  imports Blocks
begin

text \<open>
  The mempool (\<open>kolme/src/core/kolme/mempool.rs\<close>) and the part of \<open>gossip.rs\<close> that broadcasts it:
  pending transactions in one LRU cache, transactions known to have landed or failed in another.
  The caches are the crate \<open>lru\<close>, a parameter: \<open>lru_ops\<close> lists the operations the code calls, the
  locale \<open>lru\<close> states their documented behaviour over the list of entries, most recently used
  first, and \<open>list_lru\<close> is an instance of it.

  \<open>Instant\<close>s are numbers.  The clock is read once per operation, and once per broadcast.
\<close>

section \<open>LRU caches\<close>

record ('c, 'k, 'v) lru_ops =
  lru_new :: 'c
  lru_put :: "'k \<Rightarrow> 'v \<Rightarrow> 'c \<Rightarrow> 'c"
  lru_get :: "'k \<Rightarrow> 'c \<Rightarrow> 'v option \<times> 'c"
  lru_peek :: "'k \<Rightarrow> 'c \<Rightarrow> 'v option"
  lru_contains :: "'k \<Rightarrow> 'c \<Rightarrow> bool"
  lru_update :: "'k \<Rightarrow> ('v \<Rightarrow> 'v) \<Rightarrow> 'c \<Rightarrow> 'c"
  lru_pop :: "'k \<Rightarrow> 'c \<Rightarrow> 'v option \<times> 'c"
  lru_peek_lru :: "'c \<Rightarrow> ('k \<times> 'v) option"
  lru_entries :: "'c \<Rightarrow> ('k \<times> 'v) list"

definition without :: "'k \<Rightarrow> ('k \<times> 'v) list \<Rightarrow> ('k \<times> 'v) list" where
  "without k es = filter (\<lambda>e. fst e \<noteq> k) es"

definition promote :: "'k \<Rightarrow> ('v \<Rightarrow> 'v) \<Rightarrow> ('k \<times> 'v) list \<Rightarrow> ('k \<times> 'v) list" where
  "promote k f es = (case map_of es k of None \<Rightarrow> es | Some v \<Rightarrow> (k, f v) # without k es)"

locale lru =
  fixes L :: "('c, 'k, 'v) lru_ops" and ok :: "'c \<Rightarrow> bool" and cap :: nat
  assumes new: "ok (lru_new L) \<and> lru_entries L (lru_new L) = []"
    and put: "ok c \<Longrightarrow> ok (lru_put L k v c) \<and> lru_entries L (lru_put L k v c) = take cap ((k, v) # without k (lru_entries L c))"
    and get: "ok c \<Longrightarrow> fst (lru_get L k c) = map_of (lru_entries L c) k \<and> ok (snd (lru_get L k c)) \<and>
      lru_entries L (snd (lru_get L k c)) = promote k (\<lambda>v. v) (lru_entries L c)"
    and peek: "ok c \<Longrightarrow> lru_peek L k c = map_of (lru_entries L c) k"
    and contains: "ok c \<Longrightarrow> lru_contains L k c \<longleftrightarrow> map_of (lru_entries L c) k \<noteq> None"
    and update: "ok c \<Longrightarrow> ok (lru_update L k f c) \<and> lru_entries L (lru_update L k f c) = promote k f (lru_entries L c)"
    and pop: "ok c \<Longrightarrow> fst (lru_pop L k c) = map_of (lru_entries L c) k \<and> ok (snd (lru_pop L k c)) \<and>
      lru_entries L (snd (lru_pop L k c)) = without k (lru_entries L c)"
    and peek_lru: "ok c \<Longrightarrow> lru_peek_lru L c = (if lru_entries L c = [] then None else Some (last (lru_entries L c)))"
    and bounded: "ok c \<Longrightarrow> distinct (map fst (lru_entries L c)) \<and> length (lru_entries L c) \<le> cap"
    and capacity: "0 < cap"
begin

lemma put_get: "ok c \<Longrightarrow> map_of (lru_entries L (lru_put L k v c)) k = Some v"
  using put capacity by (cases cap) auto

lemma put_subset: "ok c \<Longrightarrow> set (lru_entries L (lru_put L k v c)) \<subseteq> insert (k, v) {e \<in> set (lru_entries L c). fst e \<noteq> k}"
  using put [of c k v] set_take_subset [of cap "(k, v) # without k (lru_entries L c)"] by (auto simp: without_def)

end

text \<open>An instance: the list of entries itself.\<close>

definition list_lru :: "nat \<Rightarrow> (('k \<times> 'v) list, 'k, 'v) lru_ops" where
  "list_lru cap = \<lparr>lru_new = [], lru_put = (\<lambda>k v c. take cap ((k, v) # without k c)),
     lru_get = (\<lambda>k c. (map_of c k, promote k (\<lambda>v. v) c)), lru_peek = (\<lambda>k c. map_of c k),
     lru_contains = (\<lambda>k c. map_of c k \<noteq> None), lru_update = promote,
     lru_pop = (\<lambda>k c. (map_of c k, without k c)),
     lru_peek_lru = (\<lambda>c. if c = [] then None else Some (last c)), lru_entries = (\<lambda>c. c)\<rparr>"

lemma distinct_without: "distinct (map fst es) \<Longrightarrow> distinct (map fst (without k es))"
  by (simp add: without_def distinct_map_filter)

lemma without_absent: "k \<notin> fst ` set es \<Longrightarrow> without k es = es"
  by (induction es) (auto simp: without_def)

lemma fst_without [simp]: "fst ` set (without k es) = fst ` set es - {k}"
  by (auto simp: without_def)

lemma length_promote: "distinct (map fst es) \<Longrightarrow> length (promote k f es) = length es"
proof (cases "map_of es k")
  case (Some v)
  have "distinct (map fst es) \<Longrightarrow> map_of es k \<noteq> None \<Longrightarrow> Suc (length (without k es)) = length es"
  proof (induction es)
    case (Cons e es)
    show ?case
    proof (cases "fst e = k")
      case True
      then have "k \<notin> fst ` set es" using Cons.prems(1) by auto
      then have "without k es = es" by (rule without_absent)
      then show ?thesis using True by (simp add: without_def)
    next
      case False
      then show ?thesis using Cons by (simp add: without_def split: if_splits)
    qed
  qed simp
  moreover assume "distinct (map fst es)"
  ultimately show ?thesis using Some by (simp add: promote_def)
qed (simp add: promote_def)

lemma promote_distinct: "distinct (map fst es) \<Longrightarrow> distinct (map fst (promote k f es))"
  by (auto simp: promote_def distinct_without split: option.splits)

lemma promote_keys [simp]: "fst ` set (promote k f es) = fst ` set es"
proof (cases "map_of es k")
  case (Some v)
  then have "k \<in> fst ` set es" by (force dest: map_of_SomeD)
  then show ?thesis using Some by (auto simp: promote_def)
qed (simp add: promote_def)

interpretation list_lru: lru "list_lru (Suc n)" "\<lambda>c. distinct (map fst c) \<and> length c \<le> Suc n" "Suc n" for n
proof (unfold_locales, goal_cases)
  case (2 c k v)
  have "distinct (map fst (take n (without k c)))"
    using distinct_without [of c k] 2 by (simp add: take_map [symmetric])
  moreover have "k \<notin> fst ` set (take n (without k c))"
    using set_take_subset [of n "without k c"] by (force simp: without_def)
  ultimately show ?case by (simp add: list_lru_def)
next
  case (7 c k)
  have "length (without k c) \<le> length c" by (simp add: without_def)
  then show ?case using 7 distinct_without by (auto simp: list_lru_def)
qed (auto simp: list_lru_def length_promote promote_distinct)


section \<open>The mempool\<close>

record ('d, 'm) mempool_item =
  mi_tx :: "('d, 'm) signed_transaction"
  mi_last_gossiped :: "nat option"

datatype ('d, 'm) block_reason =
    InBlock "('d, 'm) signed_block"
  | FailedTx "'d failed_transaction signed_tagged_json"

datatype ('d, 'm) propose_error =
    InMempool
  | ProposedInBlock "('d, 'm) signed_block"
  | ProposedFailed "'d failed_transaction signed_tagged_json"

record ('ct, 'cb) mempool =
  mp_txs :: 'ct
  mp_blocked :: 'cb
  mp_notify :: nat

record ('ct, 'cb, 'd, 'm) pool_env =
  pe_txs :: "('ct, hash, ('d, 'm) mempool_item) lru_ops"
  pe_blocked :: "('cb, hash, ('d, 'm) block_reason) lru_ops"
  pe_gossip_delay :: nat

definition mempool_new :: "('ct, 'cb, 'd, 'm) pool_env \<Rightarrow> ('ct, 'cb) mempool" where
  "mempool_new P = \<lparr>mp_txs = lru_new (pe_txs P), mp_blocked = lru_new (pe_blocked P), mp_notify = 0\<rparr>"

definition trigger :: "('ct, 'cb) mempool \<Rightarrow> ('ct, 'cb) mempool" where
  "trigger s = s\<lparr>mp_notify := mp_notify s + 1\<rparr>"

definition drop_tx :: "('ct, 'cb, 'd, 'm) pool_env \<Rightarrow> hash \<Rightarrow> ('ct, 'cb) mempool \<Rightarrow> ('ct, 'cb) mempool" where
  "drop_tx P h s =
     (let (r, txs) = lru_pop (pe_txs P) h (mp_txs s)
      in if r \<noteq> None then trigger (s\<lparr>mp_txs := txs\<rparr>) else s\<lparr>mp_txs := txs\<rparr>)"

definition pool_peek :: "('ct, 'cb, 'd, 'm) pool_env \<Rightarrow> ('ct, 'cb) mempool \<Rightarrow> ('d, 'm) signed_transaction option" where
  "pool_peek P s = map_option (\<lambda>e. mi_tx (snd e)) (lru_peek_lru (pe_txs P) (mp_txs s))"

definition pool_add_signed_block ::
  "('ct, 'cb, 'd, 'm) pool_env \<Rightarrow> ('d, 'm) signed_block \<Rightarrow> ('ct, 'cb) mempool \<Rightarrow> bool \<times> ('ct, 'cb) mempool" where
  "pool_add_signed_block P b s =
     (let h = tx_hash (block_tx b)
      in if lru_contains (pe_blocked P) h (mp_blocked s) then (False, s)
         else (True, trigger (drop_tx P h (s\<lparr>mp_blocked := lru_put (pe_blocked P) h (InBlock b) (mp_blocked s)\<rparr>))))"

definition pool_add_failed ::
  "('ct, 'cb, 'd, 'm) pool_env \<Rightarrow> 'd failed_transaction signed_tagged_json \<Rightarrow> ('ct, 'cb) mempool \<Rightarrow>
    bool \<times> ('ct, 'cb) mempool" where
  "pool_add_failed P failed s =
     (let h = ft_txhash (stj_inner failed)
      in if lru_contains (pe_blocked P) h (mp_blocked s) then (False, s)
         else (True, trigger (drop_tx P h (s\<lparr>mp_blocked := lru_put (pe_blocked P) h (FailedTx failed) (mp_blocked s)\<rparr>))))"

definition pool_add ::
  "('ct, 'cb, 'd, 'm) pool_env \<Rightarrow> ('d, 'm) signed_transaction \<Rightarrow> ('ct, 'cb) mempool \<Rightarrow>
    (('d, 'm) propose_error + unit) \<times> ('ct, 'cb) mempool" where
  "pool_add P tx s =
     (let h = tx_hash tx; (r, blocked) = lru_get (pe_blocked P) h (mp_blocked s); s1 = s\<lparr>mp_blocked := blocked\<rparr>
      in case r of
           Some (InBlock b) \<Rightarrow> (Inl (ProposedInBlock b), s1)
         | Some (FailedTx f) \<Rightarrow> (Inl (ProposedFailed f), s1)
         | None \<Rightarrow>
             if lru_contains (pe_txs P) h (mp_txs s1) then (Inl InMempool, s1)
             else (Inr (), trigger (s1\<lparr>mp_txs := lru_put (pe_txs P) h \<lparr>mi_tx = tx, mi_last_gossiped = None\<rparr> (mp_txs s1)\<rparr>)))"

definition pool_entries :: "('ct, 'cb, 'd, 'm) pool_env \<Rightarrow> ('ct, 'cb) mempool \<Rightarrow> ('d, 'm) signed_transaction list" where
  "pool_entries P s = map (\<lambda>e. mi_tx (snd e)) (lru_entries (pe_txs P) (mp_txs s))"

definition gossip_due :: "('ct, 'cb, 'd, 'm) pool_env \<Rightarrow> nat \<Rightarrow> ('d, 'm) mempool_item \<Rightarrow> bool" where
  "gossip_due P now item =
     (let cutoff = (if pe_gossip_delay P \<le> now then now - pe_gossip_delay P else now)
      in case mi_last_gossiped item of None \<Rightarrow> True | Some t \<Rightarrow> t < cutoff)"

definition pool_entries_for_gossip ::
  "('ct, 'cb, 'd, 'm) pool_env \<Rightarrow> nat \<Rightarrow> ('ct, 'cb) mempool \<Rightarrow> ('d, 'm) signed_transaction list" where
  "pool_entries_for_gossip P now s =
     map (\<lambda>e. mi_tx (snd e)) (filter (\<lambda>e. gossip_due P now (snd e)) (lru_entries (pe_txs P) (mp_txs s)))"

definition mark_gossiped :: "('ct, 'cb, 'd, 'm) pool_env \<Rightarrow> nat \<Rightarrow> hash \<Rightarrow> ('ct, 'cb) mempool \<Rightarrow> ('ct, 'cb) mempool" where
  "mark_gossiped P now h s = s\<lparr>mp_txs := lru_update (pe_txs P) h (\<lambda>i. i\<lparr>mi_last_gossiped := Some now\<rparr>) (mp_txs s)\<rparr>"

definition pool_remove :: "('ct, 'cb, 'd, 'm) pool_env \<Rightarrow> hash \<Rightarrow> ('ct, 'cb) mempool \<Rightarrow> ('ct, 'cb) mempool" where
  "pool_remove P h s = drop_tx P h s"

text \<open>\<open>Gossip::broadcast_mempool_entries\<close>: the transactions sent, in order, and the mempool after it.\<close>

definition broadcast_mempool_entries ::
  "('ct, 'cb, 'd, 'm) pool_env \<Rightarrow> nat \<Rightarrow> ('ct, 'cb) mempool \<Rightarrow> ('d, 'm) signed_transaction list \<times> ('ct, 'cb) mempool" where
  "broadcast_mempool_entries P now s =
     (let txs = pool_entries_for_gossip P now s
      in (txs, foldl (\<lambda>s tx. mark_gossiped P now (tx_hash tx) s) s txs))"

section \<open>The invariant\<close>

fun reason_hash :: "('d, 'm) block_reason \<Rightarrow> hash" where
  "reason_hash (InBlock b) = tx_hash (block_tx b)"
| "reason_hash (FailedTx f) = ft_txhash (stj_inner f)"

record ('ct, 'cb) pool_ok =
  ok_txs :: "'ct \<Rightarrow> bool"
  ok_blocked :: "'cb \<Rightarrow> bool"
  cap_txs :: nat
  cap_blocked :: nat

definition pool_laws :: "('ct, 'cb, 'd, 'm) pool_env \<Rightarrow> ('ct, 'cb) pool_ok \<Rightarrow> bool" where
  "pool_laws P K \<longleftrightarrow> lru (pe_txs P) (ok_txs K) (cap_txs K) \<and> lru (pe_blocked P) (ok_blocked K) (cap_blocked K)"

abbreviation pending :: "('ct, 'cb, 'd, 'm) pool_env \<Rightarrow> ('ct, 'cb) mempool \<Rightarrow> (hash \<times> ('d, 'm) mempool_item) list" where
  "pending P s \<equiv> lru_entries (pe_txs P) (mp_txs s)"

abbreviation blocked :: "('ct, 'cb, 'd, 'm) pool_env \<Rightarrow> ('ct, 'cb) mempool \<Rightarrow> (hash \<times> ('d, 'm) block_reason) list" where
  "blocked P s \<equiv> lru_entries (pe_blocked P) (mp_blocked s)"

definition pool_inv :: "('ct, 'cb, 'd, 'm) pool_env \<Rightarrow> ('ct, 'cb) pool_ok \<Rightarrow> ('ct, 'cb) mempool \<Rightarrow> bool" where
  "pool_inv P K s \<longleftrightarrow> ok_txs K (mp_txs s) \<and> ok_blocked K (mp_blocked s) \<and>
     (\<forall>(h, i) \<in> set (pending P s). tx_hash (mi_tx i) = h) \<and>
     (\<forall>(h, r) \<in> set (blocked P s). reason_hash r = h) \<and>
     fst ` set (pending P s) \<inter> fst ` set (blocked P s) = {}"

text \<open>What can happen to a mempool: every call of its interface.\<close>

inductive pool_step :: "('ct, 'cb, 'd, 'm) pool_env \<Rightarrow> ('ct, 'cb) mempool \<Rightarrow> ('ct, 'cb) mempool \<Rightarrow> bool" for P where
  step_add: "pool_add P tx s = (r, s') \<Longrightarrow> pool_step P s s'"
| step_block: "pool_add_signed_block P b s = (r, s') \<Longrightarrow> pool_step P s s'"
| step_failed: "pool_add_failed P f s = (r, s') \<Longrightarrow> pool_step P s s'"
| step_gossiped: "pool_step P s (mark_gossiped P now h s)"
| step_broadcast: "broadcast_mempool_entries P now s = (txs, s') \<Longrightarrow> pool_step P s s'"
| step_remove: "pool_step P s (pool_remove P h s)"

inductive_cases pool_stepE: "pool_step P s s'"


lemma pool_lawsD:
  assumes "pool_laws P K"
  shows "lru (pe_txs P) (ok_txs K) (cap_txs K)" "lru (pe_blocked P) (ok_blocked K) (cap_blocked K)"
  using assms by (simp_all add: pool_laws_def)

lemma trigger_simps [simp]: "mp_txs (trigger s) = mp_txs s" "mp_blocked (trigger s) = mp_blocked s"
  by (simp_all add: trigger_def)

lemma drop_tx_effect:
  assumes "pool_laws P K" "ok_txs K (mp_txs s)"
  shows "ok_txs K (mp_txs (drop_tx P h s))" "pending P (drop_tx P h s) = without h (pending P s)"
    "mp_blocked (drop_tx P h s) = mp_blocked s"
  using lru.pop [OF pool_lawsD(1) [OF assms(1)] assms(2), of h] by (auto simp: drop_tx_def Let_def split: prod.split)

lemma promote_values:
  "(k, v) \<in> set (promote h f es) \<Longrightarrow> \<exists>w. (k, w) \<in> set es \<and> (v = w \<or> v = f w)"
  by (auto simp: promote_def without_def split: option.splits dest: map_of_SomeD)

lemma pool_invI:
  assumes "ok_txs K (mp_txs s)" "ok_blocked K (mp_blocked s)"
    and "\<And>h i. (h, i) \<in> set (pending P s) \<Longrightarrow> tx_hash (mi_tx i) = h"
    and "\<And>h r. (h, r) \<in> set (blocked P s) \<Longrightarrow> reason_hash r = h"
    and "\<And>h i r. (h, i) \<in> set (pending P s) \<Longrightarrow> (h, r) \<notin> set (blocked P s)"
  shows "pool_inv P K s"
  unfolding pool_inv_def
proof (intro conjI)
  show "fst ` set (pending P s) \<inter> fst ` set (blocked P s) = {}" using assms(5) by fastforce
qed (use assms(1-4) in auto)

lemma pool_invD:
  assumes "pool_inv P K s"
  shows "ok_txs K (mp_txs s)" "ok_blocked K (mp_blocked s)"
    and "(h, i) \<in> set (pending P s) \<Longrightarrow> tx_hash (mi_tx i) = h"
    and "(h, r) \<in> set (blocked P s) \<Longrightarrow> reason_hash r = h"
    and "(h, i) \<in> set (pending P s) \<Longrightarrow> (h, r) \<notin> set (blocked P s)"
proof -
  show "ok_txs K (mp_txs s)" "ok_blocked K (mp_blocked s)"
    and "(h, i) \<in> set (pending P s) \<Longrightarrow> tx_hash (mi_tx i) = h"
    and "(h, r) \<in> set (blocked P s) \<Longrightarrow> reason_hash r = h"
    using assms by (auto simp: pool_inv_def)
  show "(h, r) \<notin> set (blocked P s)" if p: "(h, i) \<in> set (pending P s)"
  proof
    assume b: "(h, r) \<in> set (blocked P s)"
    have "h \<in> fst ` set (pending P s) \<inter> fst ` set (blocked P s)"
      using imageI [OF p, of fst] imageI [OF b, of fst] by simp
    then show False using assms unfolding pool_inv_def by blast
  qed
qed

lemma pool_inv_drop:
  assumes "pool_laws P K" "pool_inv P K s"
  shows "pool_inv P K (drop_tx P h s)"
proof -
  note d = drop_tx_effect [OF assms(1) pool_invD(1) [OF assms(2)], of h]
  note i = pool_invD [OF assms(2)]
  show ?thesis
  proof (rule pool_invI)
    show "(g, r) \<notin> set (blocked P (drop_tx P h s))" if "(g, j) \<in> set (pending P (drop_tx P h s))" for g j r
      using that i(5) [of g j r] d by (simp add: without_def)
  qed (use d i(1-4) in \<open>auto simp: without_def\<close>)
qed

lemma pool_inv_block:
  assumes l: "pool_laws P K" and i: "pool_inv P K s" and r: "reason_hash r = h"
  shows "pool_inv P K (trigger (drop_tx P h (s\<lparr>mp_blocked := lru_put (pe_blocked P) h r (mp_blocked s)\<rparr>)))"
proof -
  let ?s = "s\<lparr>mp_blocked := lru_put (pe_blocked P) h r (mp_blocked s)\<rparr>"
  let ?t = "trigger (drop_tx P h ?s)"
  have ok: "ok_txs K (mp_txs ?s)" "ok_blocked K (mp_blocked s)" using pool_invD(1,2) [OF i] by simp_all
  note d = drop_tx_effect [OF l ok(1), of h]
  have bl: "blocked P ?t = blocked P ?s" "pending P ?t = without h (pending P s)" using d by simp_all
  have sub: "set (blocked P ?t) \<subseteq> insert (h, r) (set (blocked P s))"
    using lru.put_subset [OF pool_lawsD(2) [OF l] ok(2), of h r] unfolding bl by auto
  show ?thesis
  proof (rule pool_invI)
    show "ok_txs K (mp_txs ?t)" using d(1) by simp
    show "ok_blocked K (mp_blocked ?t)" using lru.put [OF pool_lawsD(2) [OF l] ok(2)] d(3) by simp
    show "tx_hash (mi_tx j) = g" if "(g, j) \<in> set (pending P ?t)" for g j
      using that pool_invD(3) [OF i] unfolding bl by (simp add: without_def)
    show "reason_hash q = g" if "(g, q) \<in> set (blocked P ?t)" for g q
      using that sub pool_invD(4) [OF i] r by blast
    show "(g, q) \<notin> set (blocked P ?t)" if "(g, j) \<in> set (pending P ?t)" for g j q
      using that sub pool_invD(5) [OF i, of g j q] unfolding bl by (auto simp: without_def)
  qed
qed

lemma pool_inv_signed_block: "pool_laws P K \<Longrightarrow> pool_inv P K s \<Longrightarrow> pool_inv P K (snd (pool_add_signed_block P b s))"
  using pool_inv_block [of P K s "InBlock b"] by (simp add: pool_add_signed_block_def Let_def)

lemma pool_inv_failed: "pool_laws P K \<Longrightarrow> pool_inv P K s \<Longrightarrow> pool_inv P K (snd (pool_add_failed P f s))"
  using pool_inv_block [of P K s "FailedTx f"] by (simp add: pool_add_failed_def Let_def)

lemma pool_inv_mark:
  assumes l: "pool_laws P K" and i: "pool_inv P K s"
  shows "pool_inv P K (mark_gossiped P now h s)"
proof -
  have u: "ok_txs K (mp_txs (mark_gossiped P now h s))"
    "pending P (mark_gossiped P now h s) = promote h (\<lambda>i. i\<lparr>mi_last_gossiped := Some now\<rparr>) (pending P s)"
    using lru.update [OF pool_lawsD(1) [OF l]] i by (simp_all add: mark_gossiped_def pool_inv_def)
  have "mp_blocked (mark_gossiped P now h s) = mp_blocked s" by (simp add: mark_gossiped_def)
  then show ?thesis
    using i u by (auto simp: pool_inv_def dest!: promote_values)
qed

lemma pool_inv_broadcast:
  assumes "pool_laws P K" "pool_inv P K s"
  shows "pool_inv P K (snd (broadcast_mempool_entries P now s))"
proof -
  have "pool_inv P K s \<Longrightarrow> pool_inv P K (foldl (\<lambda>s tx. mark_gossiped P now (tx_hash tx) s) s txs)"
    for s and txs :: "('c, 'd) signed_transaction list"
    by (induction txs arbitrary: s) (auto intro: pool_inv_mark [OF assms(1)])
  then show ?thesis using assms(2) by (simp add: broadcast_mempool_entries_def Let_def)
qed

text \<open>Proposing a transaction: which of the four things happens, and what the mempool holds then.\<close>

lemma pool_add_result:
  assumes l: "pool_laws P K" and i: "pool_inv P K s"
  shows "case map_of (blocked P s) (tx_hash tx) of
      Some (InBlock b) \<Rightarrow> fst (pool_add P tx s) = Inl (ProposedInBlock b) \<and> pending P (snd (pool_add P tx s)) = pending P s
    | Some (FailedTx f) \<Rightarrow> fst (pool_add P tx s) = Inl (ProposedFailed f) \<and> pending P (snd (pool_add P tx s)) = pending P s
    | None \<Rightarrow>
        if tx_hash tx \<in> fst ` set (pending P s)
        then fst (pool_add P tx s) = Inl InMempool \<and> pending P (snd (pool_add P tx s)) = pending P s
        else fst (pool_add P tx s) = Inr () \<and> pending P (snd (pool_add P tx s)) =
          take (cap_txs K) ((tx_hash tx, \<lparr>mi_tx = tx, mi_last_gossiped = None\<rparr>) # pending P s)"
    and "blocked P (snd (pool_add P tx s)) = promote (tx_hash tx) (\<lambda>r. r) (blocked P s)"
    and "ok_blocked K (mp_blocked (snd (pool_add P tx s)))" "ok_txs K (mp_txs (snd (pool_add P tx s)))"
proof -
  let ?h = "tx_hash tx"
  have ok: "ok_txs K (mp_txs s)" "ok_blocked K (mp_blocked s)" using i by (simp_all add: pool_inv_def)
  obtain r bl where g: "lru_get (pe_blocked P) ?h (mp_blocked s) = (r, bl)" by fastforce
  then have r: "r = map_of (blocked P s) ?h" and bl: "ok_blocked K bl"
      "lru_entries (pe_blocked P) bl = promote ?h (\<lambda>r. r) (blocked P s)"
    using lru.get [OF pool_lawsD(2) [OF l] ok(2), of ?h] by simp_all
  have eq: "pool_add P tx s = (case r of
           Some (InBlock b) \<Rightarrow> (Inl (ProposedInBlock b), s\<lparr>mp_blocked := bl\<rparr>)
         | Some (FailedTx f) \<Rightarrow> (Inl (ProposedFailed f), s\<lparr>mp_blocked := bl\<rparr>)
         | None \<Rightarrow>
             if lru_contains (pe_txs P) ?h (mp_txs s) then (Inl InMempool, s\<lparr>mp_blocked := bl\<rparr>)
             else (Inr (), trigger (s\<lparr>mp_blocked := bl,
               mp_txs := lru_put (pe_txs P) ?h \<lparr>mi_tx = tx, mi_last_gossiped = None\<rparr> (mp_txs s)\<rparr>)))"
    by (cases r) (simp_all add: pool_add_def g Let_def)
  have c: "lru_contains (pe_txs P) ?h (mp_txs s) \<longleftrightarrow> ?h \<in> fst ` set (pending P s)"
    using lru.contains [OF pool_lawsD(1) [OF l] ok(1)] by (metis map_of_eq_None_iff)
  have w: "without ?h (pending P s) = pending P s" if "?h \<notin> fst ` set (pending P s)"
    using that by (rule without_absent)
  note p = lru.put [OF pool_lawsD(1) [OF l] ok(1), of ?h]
  show "case map_of (blocked P s) (tx_hash tx) of
      Some (InBlock b) \<Rightarrow> fst (pool_add P tx s) = Inl (ProposedInBlock b) \<and> pending P (snd (pool_add P tx s)) = pending P s
    | Some (FailedTx f) \<Rightarrow> fst (pool_add P tx s) = Inl (ProposedFailed f) \<and> pending P (snd (pool_add P tx s)) = pending P s
    | None \<Rightarrow>
        if tx_hash tx \<in> fst ` set (pending P s)
        then fst (pool_add P tx s) = Inl InMempool \<and> pending P (snd (pool_add P tx s)) = pending P s
        else fst (pool_add P tx s) = Inr () \<and> pending P (snd (pool_add P tx s)) =
          take (cap_txs K) ((tx_hash tx, \<lparr>mi_tx = tx, mi_last_gossiped = None\<rparr>) # pending P s)"
    using p w c by (simp add: eq r split: option.split block_reason.split)
  show "blocked P (snd (pool_add P tx s)) = promote (tx_hash tx) (\<lambda>r. r) (blocked P s)"
    "ok_blocked K (mp_blocked (snd (pool_add P tx s)))" "ok_txs K (mp_txs (snd (pool_add P tx s)))"
    using bl p ok(1) by (simp_all add: eq split: option.split block_reason.split)
qed

lemma pool_inv_add:
  assumes l: "pool_laws P K" and i: "pool_inv P K s"
  shows "pool_inv P K (snd (pool_add P tx s))"
proof -
  let ?s = "snd (pool_add P tx s)" and ?h = "tx_hash tx"
  let ?e = "(?h, \<lparr>mi_tx = tx, mi_last_gossiped = None\<rparr>)"
  note r = pool_add_result [OF l i, of tx]
  have b: "(h, x) \<in> set (blocked P ?s) \<Longrightarrow> (h, x) \<in> set (blocked P s)" for h x
    unfolding r(2) by (auto dest: promote_values)
  have p: "set (pending P ?s) \<subseteq> set (pending P s) \<or>
      set (pending P ?s) \<subseteq> insert ?e (set (pending P s)) \<and> ?h \<notin> fst ` set (blocked P s)"
  proof (cases "map_of (blocked P s) ?h")
    case None
    then have "?h \<notin> fst ` set (blocked P s)" by (simp add: map_of_eq_None_iff)
    moreover have "set (take (cap_txs K) (?e # pending P s)) \<subseteq> insert ?e (set (pending P s))"
      using set_take_subset [of "cap_txs K" "?e # pending P s"] by simp
    ultimately show ?thesis using r(1) None by (auto split: if_splits)
  next
    case (Some x)
    then show ?thesis using r(1) by (cases x) auto
  qed
  have k: "(h, x) \<in> set (blocked P ?s) \<Longrightarrow> h \<in> fst ` set (blocked P s)" for h x
    using b by force
  show ?thesis
  proof (rule pool_invI [OF r(4,3)])
    show "tx_hash (mi_tx j) = g" if "(g, j) \<in> set (pending P ?s)" for g j
      using p that pool_invD(3) [OF i] by auto
    show "reason_hash q = g" if "(g, q) \<in> set (blocked P ?s)" for g q
      using b [OF that] by (rule pool_invD(4) [OF i])
    show "(g, q) \<notin> set (blocked P ?s)" if "(g, j) \<in> set (pending P ?s)" for g j q
      using p that pool_invD(5) [OF i, of g j q] b k by auto
  qed
qed


lemma pool_inv_step: "pool_laws P K \<Longrightarrow> pool_step P s s' \<Longrightarrow> pool_inv P K s \<Longrightarrow> pool_inv P K s'"
proof (erule pool_stepE)
  fix tx r assume "pool_laws P K" "pool_inv P K s" "pool_add P tx s = (r, s')"
  then show "pool_inv P K s'" using pool_inv_add by (metis snd_conv)
next
  fix b r assume "pool_laws P K" "pool_inv P K s" "pool_add_signed_block P b s = (r, s')"
  then show "pool_inv P K s'" using pool_inv_signed_block by (metis snd_conv)
next
  fix f r assume "pool_laws P K" "pool_inv P K s" "pool_add_failed P f s = (r, s')"
  then show "pool_inv P K s'" using pool_inv_failed by (metis snd_conv)
next
  fix now txs assume "pool_laws P K" "pool_inv P K s" "broadcast_mempool_entries P now s = (txs, s')"
  then show "pool_inv P K s'" using pool_inv_broadcast by (metis snd_conv)
qed (simp_all add: pool_inv_mark pool_remove_def pool_inv_drop)

lemma pool_inv_new: "pool_laws P K \<Longrightarrow> pool_inv P K (mempool_new P)"
  using lru.new [OF pool_lawsD(1)] lru.new [OF pool_lawsD(2)]
  by (auto simp: mempool_new_def pool_inv_def)

lemma pool_reachable_inv:
  assumes "pool_laws P K" "(pool_step P)\<^sup>*\<^sup>* (mempool_new P) s"
  shows "pool_inv P K s"
  using assms(2) by (induction rule: rtranclp_induct) (auto intro: pool_inv_step pool_inv_new assms(1))

section \<open>Properties\<close>

text \<open>C28: a transaction that is known to have landed or failed is never pending.  In every state the
  mempool can reach, each pending entry is filed under the hash of its transaction, no hash is filed
  twice, no hash is both pending and blocked, and neither cache exceeds its capacity.\<close>

theorem mempool_never_holds_settled_transaction:
  assumes "pool_laws P K" "(pool_step P)\<^sup>*\<^sup>* (mempool_new P) s"
  shows "distinct (map fst (pending P s)) \<and> length (pool_entries P s) \<le> cap_txs K \<and>
    (\<forall>tx \<in> set (pool_entries P s). tx_hash tx \<in> fst ` set (pending P s) \<and> tx_hash tx \<notin> fst ` set (blocked P s)) \<and>
    length (blocked P s) \<le> cap_blocked K"
proof -
  have i: "pool_inv P K s" by (rule pool_reachable_inv [OF assms])
  note ok = pool_invD(1,2) [OF i]
  have "tx_hash tx \<in> fst ` set (pending P s) \<and> tx_hash tx \<notin> fst ` set (blocked P s)"
    if t: "tx \<in> set (pool_entries P s)" for tx
  proof -
    obtain h j where e: "(h, j) \<in> set (pending P s)" "tx = mi_tx j" using t by (auto simp: pool_entries_def)
    then have "tx_hash tx = h" using pool_invD(3) [OF i] by simp
    then show ?thesis using e pool_invD(5) [OF i] by force
  qed
  then show ?thesis
    using lru.bounded [OF pool_lawsD(1) [OF assms(1)] ok(1)] lru.bounded [OF pool_lawsD(2) [OF assms(1)] ok(2)]
    by (simp add: pool_entries_def)
qed

definition plain_tx :: "u8 \<Rightarrow> (int, unit) signed_transaction" where
  "plain_tx n = \<lparr>stj_message = \<lparr>tj_serialized = '''', tj_hash = [n],
       tj_value = \<lparr>tx_pubkey = PublicKey [1], tx_nonce = 0, tx_created = 0, tx_messages = [], tx_max_height = None\<rparr>\<rparr>,
     stj_signature = Signature [], stj_recovery_id = 0\<rparr>"

type_synonym plain_pool =
  "((hash \<times> (int, unit) mempool_item) list, (hash \<times> (int, unit) block_reason) list, int, unit) pool_env"

definition plain_env :: plain_pool where
  "plain_env = \<lparr>pe_txs = list_lru (Suc 1), pe_blocked = list_lru (Suc 1), pe_gossip_delay = 90\<rparr>"

definition plain_ok ::
  "((hash \<times> (int, unit) mempool_item) list, (hash \<times> (int, unit) block_reason) list) pool_ok" where
  "plain_ok = \<lparr>ok_txs = (\<lambda>c. distinct (map fst c) \<and> length c \<le> Suc 1),
     ok_blocked = (\<lambda>c. distinct (map fst c) \<and> length c \<le> Suc 1), cap_txs = Suc 1, cap_blocked = Suc 1\<rparr>"

lemma plain_laws: "pool_laws plain_env plain_ok"
  unfolding pool_laws_def plain_env_def plain_ok_def pool_env.simps pool_ok.simps
  by (intro conjI list_lru.lru_axioms)

definition two_pending :: "((hash \<times> (int, unit) mempool_item) list, (hash \<times> (int, unit) block_reason) list) mempool" where
  "two_pending = snd (pool_add plain_env (plain_tx 8) (snd (pool_add plain_env (plain_tx 7) (mempool_new plain_env))))"

lemma two_pending_reachable: "(pool_step plain_env)\<^sup>*\<^sup>* (mempool_new plain_env) two_pending"
proof -
  have "pool_step plain_env s (snd (pool_add plain_env tx s))" for tx s
    by (rule step_add [of _ tx s "fst (pool_add plain_env tx s)"]) simp
  then show ?thesis unfolding two_pending_def by (meson converse_rtranclp_into_rtranclp r_into_rtranclp)
qed

lemma two_pending_entries: "pool_entries plain_env two_pending = [plain_tx 8, plain_tx 7]"
  by code_simp

theorem mempool_never_holds_settled_transaction_witness:
  "plain_tx 7 \<in> set (pool_entries plain_env two_pending) \<and>
   tx_hash (plain_tx 7) \<notin> fst ` set (blocked plain_env two_pending) \<and>
   length (pool_entries plain_env two_pending) \<le> Suc 1"
  using mempool_never_holds_settled_transaction [OF plain_laws two_pending_reachable]
  by (simp add: two_pending_entries plain_ok_def)

text \<open>Marking the entries due for gossip, in the order they are listed.\<close>

lemma mark_all_keys:
  assumes l: "pool_laws P K"
  shows "pool_inv P K s \<Longrightarrow> distinct hs \<Longrightarrow> set hs \<subseteq> fst ` set (pending P s) \<Longrightarrow>
    map fst (pending P (foldl (\<lambda>s h. mark_gossiped P now h s) s hs)) =
      rev hs @ filter (\<lambda>h. h \<notin> set hs) (map fst (pending P s))"
proof (induction hs arbitrary: s)
  case (Cons h hs)
  let ?s = "mark_gossiped P now h s"
  have "pending P ?s = promote h (\<lambda>i. i\<lparr>mi_last_gossiped := Some now\<rparr>) (pending P s)"
    using lru.update [OF pool_lawsD(1) [OF l] pool_invD(1) [OF Cons.prems(1)]] by (simp add: mark_gossiped_def)
  moreover obtain i where "map_of (pending P s) h = Some i"
    using Cons.prems(3) by (metis list.set_intros(1) map_of_eq_None_iff not_Some_eq subsetD)
  ultimately have k: "map fst (pending P ?s) = h # filter (\<lambda>g. g \<noteq> h) (map fst (pending P s))"
    by (simp add: promote_def without_def filter_map comp_def)
  have "fst ` set (pending P ?s) = fst ` set (pending P s)"
    using arg_cong [OF k, of set] Cons.prems(3) by auto
  then have "map fst (pending P (foldl (\<lambda>s h. mark_gossiped P now h s) ?s hs)) =
      rev hs @ filter (\<lambda>g. g \<notin> set hs) (map fst (pending P ?s))"
    using Cons.prems by (intro Cons.IH pool_inv_mark [OF l]) auto
  also have "\<dots> = rev (h # hs) @ filter (\<lambda>g. g \<notin> set (h # hs)) (map fst (pending P s))"
    using Cons.prems(2) unfolding k by (auto intro: filter_cong)
  finally show ?case by simp
qed simp

text \<open>A broadcast turns the mempool around.  \<open>get_mut\<close> makes an entry the most recently used one, and
  the entries due for gossip are marked newest first: when none has been gossiped lately, the
  transaction that came last is the next the processor takes, before those it may depend on.\<close>

theorem broadcast_reverses_mempool:
  assumes l: "pool_laws P K" and i: "pool_inv P K s"
    and due: "\<forall>e \<in> set (pending P s). gossip_due P now (snd e)"
    and b: "broadcast_mempool_entries P now s = (sent, s')"
  shows "sent = pool_entries P s \<and> map fst (pending P s') = rev (map fst (pending P s)) \<and>
    (pool_entries P s \<noteq> [] \<longrightarrow> map_option tx_hash (pool_peek P s') = Some (tx_hash (hd (pool_entries P s))))"
proof -
  have d: "pool_entries_for_gossip P now s = pool_entries P s"
    using due by (simp add: pool_entries_for_gossip_def pool_entries_def filter_True)
  have h: "map tx_hash (pool_entries P s) = map fst (pending P s)"
    using pool_invD(3) [OF i] by (auto simp: pool_entries_def)
  have s': "s' = foldl (\<lambda>s h. mark_gossiped P now h s) s (map fst (pending P s))"
    using b unfolding h [symmetric] by (auto simp: broadcast_mempool_entries_def d Let_def foldl_map)
  have dist: "distinct (map fst (pending P s))"
    using lru.bounded [OF pool_lawsD(1) [OF l] pool_invD(1) [OF i]] by simp
  have k: "map fst (pending P s') = rev (map fst (pending P s))"
    unfolding s' using mark_all_keys [OF l i dist] by (simp add: filter_empty_conv)
  have i': "pool_inv P K s'" using pool_inv_broadcast [OF l i, of now] b by simp
  have "map_option tx_hash (pool_peek P s') = Some (tx_hash (hd (pool_entries P s)))" if ne: "pool_entries P s \<noteq> []"
  proof -
    have ne': "pending P s \<noteq> []" "pending P s' \<noteq> []" using ne k by (auto simp: pool_entries_def)
    have "tx_hash (mi_tx (snd (last (pending P s')))) = fst (last (pending P s'))"
      using pool_invD(3) [OF i', of "fst (last (pending P s'))" "snd (last (pending P s'))"] ne' by simp
    also have "\<dots> = last (map fst (pending P s'))" using ne'(2) by (simp add: last_map)
    also have "\<dots> = hd (map tx_hash (pool_entries P s))" using k ne' by (simp add: h last_rev)
    finally show ?thesis
      using lru.peek_lru [OF pool_lawsD(1) [OF l] pool_invD(1) [OF i']] ne ne'
      by (simp add: pool_peek_def hd_map)
  qed
  then show ?thesis using b k by (auto simp: broadcast_mempool_entries_def d Let_def)
qed


theorem broadcast_reverses_mempool_witness:
  "pool_peek plain_env two_pending = Some (plain_tx 7) \<and>
   (\<exists>s'. broadcast_mempool_entries plain_env 100 two_pending = ([plain_tx 8, plain_tx 7], s') \<and>
     map_option tx_hash (pool_peek plain_env s') = Some (tx_hash (plain_tx 8)))"
proof -
  have i: "pool_inv plain_env plain_ok two_pending" by (rule pool_reachable_inv [OF plain_laws two_pending_reachable])
  have d: "\<forall>e \<in> set (pending plain_env two_pending). gossip_due plain_env 100 (snd e)" by code_simp
  obtain sent s' where b: "broadcast_mempool_entries plain_env 100 two_pending = (sent, s')" by fastforce
  have "sent = pool_entries plain_env two_pending \<and>
      map_option tx_hash (pool_peek plain_env s') = Some (tx_hash (hd (pool_entries plain_env two_pending)))"
    using broadcast_reverses_mempool [OF plain_laws i d b] by (simp add: two_pending_entries)
  moreover have "pool_peek plain_env two_pending = Some (plain_tx 7)" by code_simp
  ultimately show ?thesis using b by (simp add: two_pending_entries)
qed

end
