(* ===== verification/Chain_Store.thy ===== *)
theory Chain_Store
  imports Block_Store Mempool
begin

text \<open>
  The store a node works with (\<open>kolme/src/core/kolme/store.rs\<close>): one of the block databases behind
  a cache of recent blocks.  \<open>store_ops\<close> is the interface \<open>KolmeBackingStore\<close> with the Merkle layers
  and the blocks; the locale \<open>chain_store\<close> is what a node relies on, over the abstract table of
  blocks, and is interpreted on the in-memory and on the Fjall store.
\<close>

section \<open>The interface\<close>

record ('st, 'b) store_ops =
  so_merkle :: "'st merkle_ops"
  so_add :: "'b storable_block \<Rightarrow> 'st \<Rightarrow> (store_error + unit) \<times> 'st"
  so_load :: "'st \<Rightarrow> u64 \<Rightarrow> (store_error + 'b storable_block option) option"
  so_has :: "'st \<Rightarrow> u64 \<Rightarrow> store_error + bool"
  so_latest :: "'st \<Rightarrow> store_error + u64 option"
  so_tx_height :: "'st \<Rightarrow> hash \<Rightarrow> store_error + u64 option"
  so_archive :: "u64 \<Rightarrow> 'st \<Rightarrow> 'st"
  so_archived :: "'st \<Rightarrow> store_error + u64 option"
  so_clear :: "'st \<Rightarrow> 'st"

definition memory_layers :: "(bytes \<Rightarrow> hash) \<Rightarrow> memory_db merkle_ops" where
  "memory_layers sha = \<lparr>load_layer = (\<lambda>db. memory_load (db_merkle db)),
     save_layer = (\<lambda>l db. rbind (memory_save sha l (db_merkle db)) (\<lambda>m. Inr (db\<lparr>db_merkle := m\<rparr>))),
     has_layer = (\<lambda>db. memory_has (db_merkle db))\<rparr>"

definition memory_store_ops ::
  "(bytes \<Rightarrow> hash) \<Rightarrow> (hash \<Rightarrow> contents option) \<Rightarrow> 'b enc \<Rightarrow> 'b dec \<Rightarrow> (memory_db, 'b) store_ops" where
  "memory_store_ops sha cached enc dec = \<lparr>so_merkle = memory_layers sha, so_add = memory_add_block sha enc,
     so_load = memory_load_block cached sha dec, so_has = memory_has_block, so_latest = memory_load_latest_block,
     so_tx_height = memory_height_for_tx, so_archive = memory_archive_block, so_archived = memory_latest_archived,
     so_clear = memory_clear_blocks\<rparr>"

definition fjall_store_ops ::
  "(bytes \<Rightarrow> hash) \<Rightarrow> (hash \<Rightarrow> contents option) \<Rightarrow> 'b enc \<Rightarrow> 'b dec \<Rightarrow> (kv, 'b) store_ops" where
  "fjall_store_ops sha cached enc dec = \<lparr>so_merkle = fjall_ops sha, so_add = fjall_add_block sha enc,
     so_load = fjall_load_block cached sha dec, so_has = fjall_has_block, so_latest = fjall_load_latest_block,
     so_tx_height = fjall_height_for_tx, so_archive = fjall_archive_block, so_archived = fjall_latest_archived,
     so_clear = fjall_clear_blocks\<rparr>"

section \<open>The contract\<close>

locale chain_store =
  block_db repr "storable_ok C enc dec B" "so_add S" "so_load S" "so_has S" "so_latest S" "so_tx_height S"
  for repr :: "'st \<Rightarrow> 'b block_table \<Rightarrow> bool" and C :: "contents set" and enc :: "'b enc" and dec :: "'b dec"
    and B :: "'b storable_block set" and S :: "('st, 'b) store_ops" +
  fixes sha :: "bytes \<Rightarrow> hash" and cached :: "hash \<Rightarrow> contents option"
    and view :: "'st \<Rightarrow> hash \<Rightarrow> layer option" and archived :: "'st \<Rightarrow> u64 option"
  assumes saves: "repr s f \<Longrightarrow> c \<in> C \<Longrightarrow> \<exists>s'. save_merkle_contents sha (so_merkle S) c s = Inr s' \<and> repr s' f \<and>
      view s \<subseteq>\<^sub>m view s' \<and> present sha (view s') c \<and> archived s' = archived s"
    and finds: "repr s f \<Longrightarrow> c \<in> C \<Longrightarrow> present sha (view s) c \<Longrightarrow>
      load_merkle_contents cached (so_merkle S) s (contents_hash sha c) = Some (Inr c)"
    and has_layer: "repr s f \<Longrightarrow> length g = 32 \<Longrightarrow> has_layer (so_merkle S) s g = Inr (view s g \<noteq> None)"
    and good: "repr s f \<Longrightarrow> content_world sha C \<and> good_view sha C (view s)"
    and keyed: "repr s f \<Longrightarrow> f h = Some b \<Longrightarrow> sb_height b = h \<and> storable_ok C enc dec B b"
    and add_view: "repr s f \<Longrightarrow> storable_ok C enc dec B b \<Longrightarrow> txs_once (insert b (ran f)) \<Longrightarrow>
      view s \<subseteq>\<^sub>m view (snd (so_add S b s)) \<and> archived (snd (so_add S b s)) = archived s"
    and archives: "repr s f \<Longrightarrow> repr (so_archive S h s) f \<and> view (so_archive S h s) = view s \<and>
      archived (so_archive S h s) = Some h"
    and reads_archived: "repr s f \<Longrightarrow> so_archived S s = Inr (archived s)"

section \<open>Saving leaves the blocks alone\<close>

lemma memory_repr_merkle:
  assumes r: "memory_repr sha C cached enc dec B db f"
    and m: "memory_ok m" "good_view sha C (om_get m)" "om_get (db_merkle db) \<subseteq>\<^sub>m om_get m"
  shows "memory_repr sha C cached enc dec B (db\<lparr>db_merkle := m\<rparr>) f"
proof -
  have "memory_holds sha C enc dec B (db\<lparr>db_merkle := m\<rparr>) h b" if "f h = Some b" for h b
    by (rule memory_holds_mono [of _ _ _ _ _ db]) (use r that m(3) in \<open>auto simp: memory_repr_def\<close>)
  then show ?thesis using r m by (simp add: memory_repr_def)
qed

lemma memory_add_view:
  assumes r: "memory_repr sha C cached enc dec B db f" and b: "storable_ok C enc dec B b"
  shows "om_get (db_merkle db) \<subseteq>\<^sub>m om_get (db_merkle (snd (memory_add_block sha enc b db))) \<and>
    db_archived (snd (memory_add_block sha enc b db)) = db_archived db"
proof -
  have C: "content_world sha C" "memory_ok (db_merkle db)" "good_view sha C (om_get (db_merkle db))"
    using r by (auto simp: memory_repr_def block_world_def)
  obtain c where c: "c \<in> C" "serialize (ser_storable enc) b = Inr c" using b by (auto simp: storable_ok_def)
  obtain M where "save_value sha (memory_ops sha) (ser_storable enc) b (db_merkle db) = Inr (contents_hash sha c, M)"
      "om_get (db_merkle db) \<subseteq>\<^sub>m om_get M"
    using memory.save_value_stores [OF C storable_roundtrip [OF C(1) b] c(2,1)] by blast
  then show ?thesis by (simp add: memory_add_block_def Let_def split: option.split)
qed

interpretation memory_full: merkle_backend sha "memory_layers sha" "\<lambda>db. om_get (db_merkle db)" "\<lambda>db. memory_ok (db_merkle db)" for sha
proof (unfold_locales, goal_cases)
  case (1 s h)
  then show ?case using memory.load [of "db_merkle s" h sha] by (simp add: memory_layers_def memory_ops_def)
next
  case (2 s h)
  then show ?case using memory.has [of "db_merkle s" h sha] by (simp add: memory_layers_def memory_ops_def)
next
  case (3 s l)
  then show ?case using memory.save [of "db_merkle s" sha l] by (auto simp: memory_layers_def memory_ops_def result_simps)
next
  case (4 s)
  then show ?case using memory.bounded by blast
next
  case (5 s h l ch)
  then show ?case using memory.children_hashes by blast
qed

interpretation memory_chain: chain_store "memory_repr sha C cached enc dec B" C enc dec B
  "memory_store_ops sha cached enc dec" sha cached "\<lambda>db. om_get (db_merkle db)" db_archived for sha C cached enc dec B
proof (unfold_locales, goal_cases)
  case (1 s f h)
  then show ?case by (simp add: memory_store_ops_def memory_blocks.load)
next
  case (2 s f h)
  then show ?case using memory_blocks.has by (simp add: memory_store_ops_def)
next
  case (3 s f)
  then show ?case using memory_blocks.latest by (simp add: memory_store_ops_def)
next
  case (4 s f t)
  then show ?case using memory_blocks.tx_height by (simp add: memory_store_ops_def)
next
  case (5 s f b)
  then show ?case using memory_blocks.add [OF 5] by (simp add: memory_store_ops_def)
next
  case (6 s f c)
  then have C: "content_world sha C" "memory_ok (db_merkle s)" "good_view sha C (om_get (db_merkle s))"
    by (auto simp: memory_repr_def block_world_def)
  obtain s' where s': "save_merkle_contents sha (memory_layers sha) c s = Inr s'" "memory_ok (db_merkle s')"
      "good_view sha C (om_get (db_merkle s'))" "om_get (db_merkle s) \<subseteq>\<^sub>m om_get (db_merkle s')"
      "present sha (om_get (db_merkle s')) c"
    using memory_full.save_stores [OF C 6(2)] by blast
  have "\<exists>m. s' = s\<lparr>db_merkle := m\<rparr>"
    by (rule save_keeps [where P = "\<lambda>t. \<exists>m. t = s\<lparr>db_merkle := m\<rparr>", OF C(1) s'(1) 6(2)])
      (rule exI [of _ "db_merkle s"], simp, auto simp: memory_layers_def result_simps)
  then obtain m where "s' = s\<lparr>db_merkle := m\<rparr>" by blast
  then show ?case using memory_repr_merkle [OF 6(1), of m] s' by (simp add: memory_store_ops_def)
next
  case (7 s f c)
  then show ?case
    using memory_full.load_finds [of sha C cached s c] present_available
    by (auto simp: memory_store_ops_def memory_repr_def block_world_def)
next
  case (8 s f g)
  then show ?case using memory_full.has [of s g sha] by (simp add: memory_store_ops_def memory_repr_def)
next
  case (9 s f)
  then show ?case by (simp add: memory_repr_def block_world_def)
next
  case (10 s f h b)
  then show ?case by (simp add: memory_repr_def memory_holds_def)
next
  case (11 s f b)
  then show ?case using memory_add_view by (simp add: memory_store_ops_def)
next
  case (12 s f h)
  then show ?case by (auto simp: memory_store_ops_def memory_archive_block_def memory_repr_def memory_holds_def)
next
  case (13 s f)
  then show ?case by (simp add: memory_store_ops_def memory_latest_archived_def)
qed


lemma block_key_not_layer: "content_world sha C \<Longrightarrow> length k \<noteq> 33 \<Longrightarrow> \<not> layer_key sha C k"
  using layer_key_length by blast

lemma fjall_repr_frame:
  assumes r: "fjall_repr sha C cached enc dec B db f"
    and db': "om_wf db'" "fjall_ok db'" "good_view sha C (fjall_view db')" "fjall_view db \<subseteq>\<^sub>m fjall_view db'"
    and same: "\<And>k. \<not> layer_key sha C k \<Longrightarrow> k \<noteq> latest_archived_key \<Longrightarrow> om_get db' k = om_get db k"
  shows "fjall_repr sha C cached enc dec B db' f"
proof -
  have C: "content_world sha C" using r by (simp add: fjall_repr_def block_world_def)
  have ll: "length latest_archived_key = 6" by (simp add: latest_archived_key_def str_bytes_def)
  have bk: "om_get db' (block_key h) = om_get db (block_key h)" for h
    using ll by (intro same block_key_not_layer [OF C]) (auto dest: arg_cong [of _ _ length])
  have tk: "om_get db' (tx_key t) = om_get db (tx_key t)" if "length t = 32" for t
    using that ll by (intro same block_key_not_layer [OF C]) (auto dest: arg_cong [of _ _ length])
  have holds: "fjall_holds sha C enc dec B db' h b" if "f h = Some b" for h b
    by (rule fjall_holds_mono [OF _ db'(4) bk]) (use r that in \<open>simp add: fjall_repr_def\<close>)
  have pre: "k \<in> range block_key" if k: "om_get db' k \<noteq> None" "take 6 k = block_prefix" for k
  proof -
    have "take 6 k \<noteq> block_prefix" if "layer_key sha C k"
      using r that C unfolding layer_key_def fjall_repr_def payload_key_def children_key_def
      by (auto simp: content_world_def contents_hash_def)
    moreover have "k \<noteq> latest_archived_key"
      using k(2) by (auto simp: latest_archived_key_def block_prefix_def str_bytes_def)
    ultimately have "om_get db k \<noteq> None" using same k by metis
    then show ?thesis using r k(2) unfolding fjall_repr_def by blast
  qed
  show ?thesis
    unfolding fjall_repr_def
  proof (intro conjI)
    show "\<forall>h b. f h = Some b \<longrightarrow> fjall_holds sha C enc dec B db' h b" using holds by blast
    show "\<forall>k. om_get db' k \<noteq> None \<longrightarrow> take 6 k = block_prefix \<longrightarrow> k \<in> range block_key" using pre by blast
    show "\<forall>t. length t = 32 \<longrightarrow> tx_spec f t (fjall_tx db' t)"
      using r tk by (simp add: fjall_repr_def fjall_tx_def)
    show "\<forall>t bs. length t = 32 \<longrightarrow> om_get db' (tx_key t) = Some bs \<longrightarrow> length bs = 8"
      using r tk by (simp add: fjall_repr_def)
  qed (use r db' bk in \<open>auto simp: fjall_repr_def\<close>)
qed

definition fjall_archived :: "kv \<Rightarrow> u64 option" where
  "fjall_archived db = map_option (\<lambda>bs. of_le_bytes (rev (take 8 bs))) (om_get db latest_archived_key)"

definition fjall_chain_repr ::
  "(bytes \<Rightarrow> hash) \<Rightarrow> contents set \<Rightarrow> (hash \<Rightarrow> contents option) \<Rightarrow> 'b enc \<Rightarrow> 'b dec \<Rightarrow> 'b storable_block set \<Rightarrow>
    kv \<Rightarrow> 'b block_table \<Rightarrow> bool" where
  "fjall_chain_repr sha C cached enc dec B db f \<longleftrightarrow> fjall_repr sha C cached enc dec B db f \<and>
     (\<forall>bs. om_get db latest_archived_key = Some bs \<longrightarrow> 8 \<le> length bs)"

lemma fjall_save_chain:
  assumes r: "fjall_chain_repr sha C cached enc dec B s f" and c: "c \<in> C"
  shows "\<exists>s'. save_merkle_contents sha (fjall_ops sha) c s = Inr s' \<and> fjall_chain_repr sha C cached enc dec B s' f \<and>
    fjall_view s \<subseteq>\<^sub>m fjall_view s' \<and> present sha (fjall_view s') c \<and> fjall_archived s' = fjall_archived s"
proof -
  have C: "content_world sha C" and s: "fjall_ok s" "good_view sha C (fjall_view s)" "om_wf s"
    using r by (auto simp: fjall_chain_repr_def fjall_repr_def block_world_def)
  obtain s' where s': "save_merkle_contents sha (fjall_ops sha) c s = Inr s'" "fjall_ok s'"
      "good_view sha C (fjall_view s')" "fjall_view s \<subseteq>\<^sub>m fjall_view s'" "present sha (fjall_view s') c"
    using fjall.save_stores [OF C s(1,2) c] by blast
  have frame: "om_wf s'" "\<And>k. \<not> layer_key sha C k \<Longrightarrow> om_get s' k = om_get s k"
    using fjall_save_frame [OF C s'(1) c s(3)] by auto
  have "om_get s' latest_archived_key = om_get s latest_archived_key"
    by (intro frame(2) block_key_not_layer [OF C]) (simp add: latest_archived_key_def str_bytes_def)
  moreover have "fjall_repr sha C cached enc dec B s' f"
    by (rule fjall_repr_frame [OF _ frame(1) s'(2-4) frame(2)]) (use r in \<open>simp add: fjall_chain_repr_def\<close>)
  ultimately show ?thesis using r s' by (simp add: fjall_chain_repr_def fjall_archived_def)
qed

lemma fjall_add_chain:
  assumes r: "fjall_repr sha C cached enc dec B db f" and b: "storable_ok C enc dec B b"
  shows "fjall_view db \<subseteq>\<^sub>m fjall_view (snd (fjall_add_block sha enc b db)) \<and>
    om_get (snd (fjall_add_block sha enc b db)) latest_archived_key = om_get db latest_archived_key"
proof -
  obtain c where c: "c \<in> C" "serialize (ser_storable enc) b = Inr c" using b by (auto simp: storable_ok_def)
  have C: "content_world sha C" and s: "fjall_ok db" "good_view sha C (fjall_view db)" "om_wf db"
    using r by (auto simp: fjall_repr_def block_world_def)
  obtain s' where s': "save_merkle_contents sha (fjall_ops sha) c db = Inr s'"  "fjall_view db \<subseteq>\<^sub>m fjall_view s'"
    using fjall.save_stores [OF C s(1,2) c(1)] by blast
  have l: "length latest_archived_key = 6" by (simp add: latest_archived_key_def str_bytes_def)
  have la: "om_get s' latest_archived_key = om_get db latest_archived_key"
    using fjall_save_frame [OF C s'(1) c(1) s(3)] block_key_not_layer [OF C, of latest_archived_key] l by simp
  have t: "length (tx_key (sb_txhash b)) = 35" using b by (simp add: storable_ok_def)
  have ne: "latest_archived_key \<noteq> tx_key (sb_txhash b)" "latest_archived_key \<noteq> block_key (sb_height b)"
    using l t by (auto dest: arg_cong [of _ _ length])
  show ?thesis
    using c(2) s' la ne t
    by (simp add: fjall_add_block_def fjall_other_keys split: option.split sum.split)
qed

interpretation fjall_chain: chain_store "fjall_chain_repr sha C cached enc dec B" C enc dec B
  "fjall_store_ops sha cached enc dec" sha cached fjall_view fjall_archived for sha C cached enc dec B
proof (unfold_locales, goal_cases)
  case (1 s f h)
  then have r: "fjall_repr sha C cached enc dec B s f" by (simp add: fjall_chain_repr_def)
  show ?case using fjall_blocks.load [OF r] by (simp add: fjall_store_ops_def)
next
  case (2 s f h)
  then have r: "fjall_repr sha C cached enc dec B s f" by (simp add: fjall_chain_repr_def)
  show ?case using fjall_blocks.has [OF r] by (simp add: fjall_store_ops_def)
next
  case (3 s f)
  then have r: "fjall_repr sha C cached enc dec B s f" by (simp add: fjall_chain_repr_def)
  show ?case using fjall_blocks.latest [OF r] by (simp add: fjall_store_ops_def)
next
  case (4 s f t)
  then have r: "fjall_repr sha C cached enc dec B s f" by (simp add: fjall_chain_repr_def)
  show ?case using fjall_blocks.tx_height [OF r 4(2)] by (simp add: fjall_store_ops_def)
next
  case (5 s f b)
  then have r: "fjall_repr sha C cached enc dec B s f" by (simp add: fjall_chain_repr_def)
  show ?case
    using fjall_blocks.add [OF r 5(2,3)] fjall_add_chain [OF r 5(2)] 5(1)
    by (fastforce simp: fjall_store_ops_def fjall_chain_repr_def)
next
  case (6 s f c)
  then show ?case using fjall_save_chain [OF 6] by (simp add: fjall_store_ops_def)
next
  case (7 s f c)
  then show ?case
    using fjall.load_finds [of sha C cached s c] present_available
    by (auto simp: fjall_store_ops_def fjall_chain_repr_def fjall_repr_def block_world_def)
next
  case (8 s f g)
  then show ?case using fjall.has [of s g sha] by (simp add: fjall_store_ops_def fjall_chain_repr_def fjall_repr_def)
next
  case (9 s f)
  then show ?case by (simp add: fjall_chain_repr_def fjall_repr_def block_world_def)
next
  case (10 s f h b)
  then show ?case by (simp add: fjall_chain_repr_def fjall_repr_def fjall_holds_def)
next
  case (11 s f b)
  then have r: "fjall_repr sha C cached enc dec B s f" by (simp add: fjall_chain_repr_def)
  show ?case using fjall_add_chain [OF r 11(2)] by (simp add: fjall_store_ops_def fjall_archived_def)
next
  case (12 s f h)
  let ?s = "om_insert latest_archived_key (to_be_bytes h) s"
  have r: "fjall_repr sha C cached enc dec B s f" using 12 by (simp add: fjall_chain_repr_def)
  have l: "length latest_archived_key \<noteq> 33" by (simp add: latest_archived_key_def str_bytes_def)
  have "fjall_repr sha C cached enc dec B ?s f"
    by (rule fjall_repr_frame [OF r]) (use r fjall_other_keys [OF l] in \<open>auto simp: fjall_repr_def om_wf_insert\<close>)
  then show ?case
    by (simp add: fjall_store_ops_def fjall_chain_repr_def fjall_archive_block_def fjall_other_keys [OF l] fjall_archived_def)
next
  case (13 s f)
  then show ?case
    by (auto simp: fjall_store_ops_def fjall_latest_archived_def fjall_archived_def fjall_chain_repr_def split: option.split)
qed


section \<open>The store of a node\<close>

record ('st, 'c) kolme_store =
  ks_inner :: 'st
  ks_cache :: 'c
  ks_notify :: nat

type_synonym ('c, 'b) block_cache = "('c, u64, 'b storable_block) lru_ops"

definition ks_from :: "('c, 'b) block_cache \<Rightarrow> 'st \<Rightarrow> ('st, 'c) kolme_store" where
  "ks_from L inner = \<lparr>ks_inner = inner, ks_cache = lru_new L, ks_notify = 0\<rparr>"

definition ks_clear_blocks ::
  "('st, 'b) store_ops \<Rightarrow> ('c, 'b) block_cache \<Rightarrow> ('st, 'c) kolme_store \<Rightarrow> ('st, 'c) kolme_store" where
  "ks_clear_blocks S L s = s\<lparr>ks_cache := lru_new L, ks_inner := so_clear S (ks_inner s)\<rparr>"

definition ks_load_latest :: "('st, 'b) store_ops \<Rightarrow> ('st, 'c) kolme_store \<Rightarrow> store_error + u64 option" where
  "ks_load_latest S s = so_latest S (ks_inner s)"

definition ks_load_block ::
  "('st, 'b) store_ops \<Rightarrow> ('c, 'b) block_cache \<Rightarrow> ('st, 'c) kolme_store \<Rightarrow> u64 \<Rightarrow>
    (store_error + 'b storable_block option) option" where
  "ks_load_block S L s h =
     (case lru_peek L h (ks_cache s) of
        Some b \<Rightarrow> Some (Inr (Some b))
      | None \<Rightarrow> so_load S (ks_inner s) h)"

definition ks_has_block ::
  "('st, 'b) store_ops \<Rightarrow> ('c, 'b) block_cache \<Rightarrow> ('st, 'c) kolme_store \<Rightarrow> u64 \<Rightarrow> store_error + bool" where
  "ks_has_block S L s h = (if lru_peek L h (ks_cache s) \<noteq> None then Inr True else so_has S (ks_inner s) h)"

definition ks_load_signed_block ::
  "('st, 'b) store_ops \<Rightarrow> ('c, 'b) block_cache \<Rightarrow> ('st, 'c) kolme_store \<Rightarrow> u64 \<Rightarrow> (store_error + 'b option) option" where
  "ks_load_signed_block S L s h =
     (case lru_peek L h (ks_cache s) of
        Some b \<Rightarrow> Some (Inr (Some (sb_block b)))
      | None \<Rightarrow> map_option (\<lambda>r. rbind r (\<lambda>b. Inr (map_option sb_block b))) (so_load S (ks_inner s) h))"

definition ks_height_for_tx :: "('st, 'b) store_ops \<Rightarrow> ('st, 'c) kolme_store \<Rightarrow> hash \<Rightarrow> store_error + u64 option" where
  "ks_height_for_tx S s t = so_tx_height S (ks_inner s) t"

definition ks_add_block ::
  "('st, 'b) store_ops \<Rightarrow> ('c, 'b) block_cache \<Rightarrow> 'b storable_block \<Rightarrow> ('st, 'c) kolme_store \<Rightarrow>
    (store_error + unit) \<times> ('st, 'c) kolme_store" where
  "ks_add_block S L b s =
     (let (r, inner) = so_add S b (ks_inner s);
          s1 = s\<lparr>ks_inner := inner\<rparr>;
          s2 = s1\<lparr>ks_cache := lru_put L (sb_height b) b (ks_cache s), ks_notify := ks_notify s + 1\<rparr>
      in case r of
           Inr _ \<Rightarrow> (Inr (), s2)
         | Inl (MatchingBlockAlreadyInserted _) \<Rightarrow> (Inr (), s2)
         | Inl e \<Rightarrow> (Inl e, s1))"

definition ks_save ::
  "(bytes \<Rightarrow> hash) \<Rightarrow> ('st, 'b) store_ops \<Rightarrow> 'a enc \<Rightarrow> 'a \<Rightarrow> ('st, 'c) kolme_store \<Rightarrow>
    merkle_error + (hash \<times> ('st, 'c) kolme_store)" where
  "ks_save sha S enc x s =
     rbind (save_value sha (so_merkle S) enc x (ks_inner s)) (\<lambda>(h, inner). Inr (h, s\<lparr>ks_inner := inner\<rparr>))"

definition ks_load ::
  "(hash \<Rightarrow> contents option) \<Rightarrow> ('st, 'b) store_ops \<Rightarrow> ('st, 'c) kolme_store \<Rightarrow> 'a dec \<Rightarrow> hash \<Rightarrow>
    (merkle_error + 'a) option" where
  "ks_load cached S s dec h = load_value cached (so_merkle S) (ks_inner s) dec h"

definition ks_has_merkle_hash :: "('st, 'b) store_ops \<Rightarrow> ('st, 'c) kolme_store \<Rightarrow> hash \<Rightarrow> merkle_error + bool" where
  "ks_has_merkle_hash S s h = has_layer (so_merkle S) (ks_inner s) h"

definition ks_get_merkle_layer :: "('st, 'b) store_ops \<Rightarrow> ('st, 'c) kolme_store \<Rightarrow> hash \<Rightarrow> merkle_error + layer option" where
  "ks_get_merkle_layer S s h = load_layer (so_merkle S) (ks_inner s) h"

definition ks_add_merkle_layer ::
  "('st, 'b) store_ops \<Rightarrow> layer \<Rightarrow> ('st, 'c) kolme_store \<Rightarrow> merkle_error + ('st, 'c) kolme_store" where
  "ks_add_merkle_layer S l s =
     rbind (rfold (\<lambda>child _. rbind (ks_has_merkle_hash S s child)
        (\<lambda>b. ensure b (MerkleCustom ''has_merkle_hash(*child)''))) (l_children l) ()) (\<lambda>_.
     rbind (save_layer (so_merkle S) l (ks_inner s)) (\<lambda>inner. Inr (s\<lparr>ks_inner := inner\<rparr>)))"

definition ks_archive :: "('st, 'b) store_ops \<Rightarrow> u64 \<Rightarrow> ('st, 'c) kolme_store \<Rightarrow> ('st, 'c) kolme_store" where
  "ks_archive S h s = s\<lparr>ks_inner := so_archive S h (ks_inner s)\<rparr>"

definition ks_latest_archived :: "('st, 'b) store_ops \<Rightarrow> ('st, 'c) kolme_store \<Rightarrow> store_error + u64 option" where
  "ks_latest_archived S s = so_archived S (ks_inner s)"

section \<open>The cache is transparent\<close>

definition ks_repr ::
  "('st \<Rightarrow> 'b block_table \<Rightarrow> bool) \<Rightarrow> ('c, 'b) block_cache \<Rightarrow> ('c \<Rightarrow> bool) \<Rightarrow> ('st, 'c) kolme_store \<Rightarrow> 'b block_table \<Rightarrow> bool" where
  "ks_repr repr L cache_inv s f \<longleftrightarrow> repr (ks_inner s) f \<and> cache_inv (ks_cache s) \<and>
     (\<forall>e \<in> set (lru_entries L (ks_cache s)). f (fst e) = Some (snd e))"

locale node_store = chain_store repr C enc dec B S sha cached view archived + cache: lru L cache_inv cache_size
  for repr :: "'st \<Rightarrow> 'b block_table \<Rightarrow> bool" and C enc dec B S sha cached view archived
    and L :: "('c, 'b) block_cache" and cache_inv cache_size
begin

abbreviation holds :: "('st, 'c) kolme_store \<Rightarrow> 'b block_table \<Rightarrow> bool" where
  "holds s f \<equiv> ks_repr repr L cache_inv s f"

lemma ks_peek: "holds s f \<Longrightarrow> lru_peek L h (ks_cache s) = Some b \<Longrightarrow> f h = Some b"
  using cache.peek by (fastforce simp: ks_repr_def dest: map_of_SomeD)

lemma ks_from_repr: "repr inner f \<Longrightarrow> holds (ks_from L inner) f"
  using cache.new by (simp add: ks_from_def ks_repr_def)

lemma ks_loads_block: "holds s f \<Longrightarrow> ks_load_block S L s h = Some (Inr (f h))"
  using ks_peek load by (fastforce simp: ks_load_block_def ks_repr_def split: option.split)

lemma ks_loads_signed: "holds s f \<Longrightarrow> ks_load_signed_block S L s h = Some (Inr (map_option sb_block (f h)))"
  using ks_peek load by (fastforce simp: ks_load_signed_block_def ks_repr_def split: option.split)

lemma ks_knows_block: "holds s f \<Longrightarrow> ks_has_block S L s h = Inr (f h \<noteq> None)"
  using ks_peek has by (fastforce simp: ks_has_block_def ks_repr_def split: option.split)

lemma ks_finds_latest: "holds s f \<Longrightarrow> ks_load_latest S s = Inr (latest_spec f)"
  by (simp add: ks_load_latest_def ks_repr_def latest)

lemma ks_finds_tx: "holds s f \<Longrightarrow> length t = 32 \<Longrightarrow> \<exists>r. ks_height_for_tx S s t = Inr r \<and> tx_spec f t r"
  using tx_height by (simp add: ks_height_for_tx_def ks_repr_def)

lemma outcomeD:
  "outcome r = BlockAdded \<Longrightarrow> r = Inr ()" "outcome r = BlockMatches \<Longrightarrow> \<exists>h. r = Inl (MatchingBlockAlreadyInserted h)"
  "outcome r = BlockConflicts \<Longrightarrow> \<exists>h x y. r = Inl (ConflictingBlockInDb h x y)"
  by (cases r rule: outcome.cases; simp)+

lemma ks_adds:
  assumes s: "holds s f" and b: "storable_ok C enc dec B b" and once: "txs_once (insert b (ran f))"
  shows "\<exists>r s'. ks_add_block S L b s = (r, s') \<and>
    view (ks_inner s) \<subseteq>\<^sub>m view (ks_inner s') \<and> archived (ks_inner s') = archived (ks_inner s) \<and>
    (if f (sb_height b) \<in> {None, Some b} then r = Inr () \<and> holds s' (f(sb_height b \<mapsto> b))
     else (\<exists>h x y. r = Inl (ConflictingBlockInDb h x y)) \<and> holds s' f)"
proof -
  have r: "repr (ks_inner s) f" and c: "cache_inv (ks_cache s)"
    and e: "\<forall>e \<in> set (lru_entries L (ks_cache s)). f (fst e) = Some (snd e)"
    using s by (auto simp: ks_repr_def)
  obtain r' t where a: "so_add S b (ks_inner s) = (r', t)" "outcome r' = fst (add_spec b f)"
      "repr t (snd (add_spec b f))"
    using add [OF r b once] by blast
  have v: "view (ks_inner s) \<subseteq>\<^sub>m view t" "archived t = archived (ks_inner s)" using add_view [OF r b once] a(1) by simp_all
  let ?s2 = "s\<lparr>ks_inner := t, ks_cache := lru_put L (sb_height b) b (ks_cache s), ks_notify := ks_notify s + 1\<rparr>"
  have put: "holds ?s2 (f(sb_height b \<mapsto> b))" if "repr t (f(sb_height b \<mapsto> b))"
    using that e cache.put [OF c, of "sb_height b" b] cache.put_subset [OF c, of "sb_height b" b]
    by (auto simp: ks_repr_def)
  consider "f (sb_height b) = None" | "f (sb_height b) = Some b" | b' where "f (sb_height b) = Some b'" "b' \<noteq> b"
    by (cases "f (sb_height b)") auto
  then show ?thesis
  proof cases
    case 1
    then have "r' = Inr ()" "repr t (f(sb_height b \<mapsto> b))" using a(2,3) outcomeD by (auto simp: add_spec_def)
    then show ?thesis using 1 put v a(1) by (simp add: ks_add_block_def)
  next
    case 2
    then have "\<exists>h. r' = Inl (MatchingBlockAlreadyInserted h)" "repr t (f(sb_height b \<mapsto> b))"
      using a(2,3) outcomeD by (auto simp: add_spec_def fun_upd_idem)
    then show ?thesis using 2 put v a(1) by (auto simp: ks_add_block_def)
  next
    case 3
    then have "\<exists>h x y. r' = Inl (ConflictingBlockInDb h x y)" "repr t f"
      using a(2,3) outcomeD by (auto simp: add_spec_def)
    then show ?thesis using 3 v a(1) c e by (auto simp: ks_add_block_def ks_repr_def)
  qed
qed

lemma ks_saves:
  assumes s: "holds s f" and c: "serialize e x = Inr c" "c \<in> C"
  shows "\<exists>s'. ks_save sha S e x s = Inr (contents_hash sha c, s') \<and> holds s' f \<and>
    view (ks_inner s) \<subseteq>\<^sub>m view (ks_inner s') \<and> present sha (view (ks_inner s')) c \<and>
    archived (ks_inner s') = archived (ks_inner s)"
proof -
  have "repr (ks_inner s) f" using s by (simp add: ks_repr_def)
  from saves [OF this c(2)] obtain t where "save_merkle_contents sha (so_merkle S) c (ks_inner s) = Inr t" "repr t f"
      "view (ks_inner s) \<subseteq>\<^sub>m view t" "present sha (view t) c" "archived t = archived (ks_inner s)"
    by blast
  then show ?thesis using s c(1) by (auto simp: ks_save_def save_value_def ks_repr_def)
qed

lemma ks_loads:
  assumes s: "holds s f" and x: "stored_value sha C (view (ks_inner s)) d h x"
  shows "ks_load cached S s d h = Some (Inr x)"
proof -
  obtain c where c: "c \<in> C" "contents_hash sha c = h" "present sha (view (ks_inner s)) c" "deserialize d c = Inr x"
    using x unfolding stored_value_def by blast
  then show ?thesis using finds [of "ks_inner s" f c] s by (simp add: ks_load_def load_value_def ks_repr_def)
qed

lemma ks_archives:
  "holds s f \<Longrightarrow> holds (ks_archive S h s) f \<and> view (ks_inner (ks_archive S h s)) = view (ks_inner s) \<and>
     archived (ks_inner (ks_archive S h s)) = Some h"
  using archives [of "ks_inner s" f h] by (simp add: ks_archive_def ks_repr_def)

lemma ks_reads_archived: "holds s f \<Longrightarrow> ks_latest_archived S s = Inr (archived (ks_inner s))"
  using reads_archived [of "ks_inner s" f] by (simp add: ks_latest_archived_def ks_repr_def)

end

interpretation memory_node: node_store "memory_repr sha C cached enc dec B" C enc dec B "memory_store_ops sha cached enc dec"
  sha cached "\<lambda>db. om_get (db_merkle db)" db_archived "list_lru (Suc n)" "\<lambda>c. distinct (map fst c) \<and> length c \<le> Suc n" "Suc n"
  for sha C cached enc dec B n ..

interpretation fjall_node: node_store "fjall_chain_repr sha C cached enc dec B" C enc dec B "fjall_store_ops sha cached enc dec"
  sha cached fjall_view fjall_archived "list_lru (Suc n)" "\<lambda>c. distinct (map fst c) \<and> length c \<le> Suc n" "Suc n"
  for sha C cached enc dec B n ..

end
