(* ===== verification/Chain.thy ===== *)
theory Chain
  imports Chain_Store
begin

text \<open>
  A node's view of the chain (\<open>kolme/src/core/kolme.rs\<close>, \<open>block_info.rs\<close>): the current block and the
  states after it, adding a block by executing it, adding an executed block, adding a block whose
  states are already stored, following the store, and archiving.

  The lock around the current block is taken per operation; operations are modelled one after the
  other.  A failing save of a state leaves the store as it was: the layers written before an I/O
  error are not modelled.
\<close>

section \<open>State\<close>

datatype 'd chain_error =
    CeKolme "'d kerr"
  | CeStore store_error
  | CeMerkle merkle_error

record ('d, 's) block_state =
  bs_blockhash :: hash
  bs_fs :: "'d framework_state"
  bs_app_state :: 's

datatype ('d, 'm, 's) maybe_block_info =
    NoBlock "('d, 's) block_state"
  | SomeBlock "('d, 'm) signed_block" "('d, 's) block_state"

fun mbi_state :: "('d, 'm, 's) maybe_block_info \<Rightarrow> ('d, 's) block_state" where
  "mbi_state (NoBlock st) = st"
| "mbi_state (SomeBlock b st) = st"

fun mbi_next_height :: "('d, 'm, 's) maybe_block_info \<Rightarrow> u64" where
  "mbi_next_height (NoBlock st) = 0"
| "mbi_next_height (SomeBlock b st) = height_next (block_height b)"

record ('d, 'm, 's, 'st, 'c, 'ct, 'cb) kenv =
  kx_env :: "('d, 'm, 's) env"
  kx_sha :: "bytes \<Rightarrow> hash"
  kx_cached :: "hash \<Rightarrow> contents option"
  kx_store :: "('st, ('d, 'm) signed_block) store_ops"
  kx_cache :: "('c, ('d, 'm) signed_block) block_cache"
  kx_pool :: "('ct, 'cb, 'd, 'm) pool_env"
  kx_enc_fs :: "'d framework_state enc"
  kx_dec_fs :: "'d framework_state dec"
  kx_enc_app :: "'s enc"
  kx_dec_app :: "'s dec"
  kx_new_state :: "'d kerr + 's"
  kx_code_version :: string

record ('d, 'm, 's, 'st, 'c, 'ct, 'cb) kolme =
  km_store :: "('st, 'c) kolme_store"
  km_current :: "('d, 'm, 's) maybe_block_info"
  km_mempool :: "('ct, 'cb) mempool"
  km_latest :: "latest_block signed_tagged_json option"
  km_landed :: "('d, 'm) signed_block list option"
  km_failed :: "'d failed_transaction signed_tagged_json list"

definition ser_logs :: "string list list enc" where
  "ser_logs = ser_list (ser_list ser_string)"

definition de_logs :: "string list list dec" where
  "de_logs = de_list (de_list de_string)"

definition storable :: "('d, 'm) signed_block \<Rightarrow> ('d, 'm) signed_block storable_block" where
  "storable b = \<lparr>sb_height = block_height b, sb_blockhash = block_hash b, sb_txhash = tx_hash (block_tx b), sb_block = b\<rparr>"

definition km_state :: "('d, 'm, 's, 'st, 'c, 'ct, 'cb) kolme \<Rightarrow> ('d, 's) block_state" where
  "km_state k = mbi_state (km_current k)"

definition km_next_height :: "('d, 'm, 's, 'st, 'c, 'ct, 'cb) kolme \<Rightarrow> u64" where
  "km_next_height k = mbi_next_height (km_current k)"

definition state_processor :: "('d, 's) block_state \<Rightarrow> public_key" where
  "state_processor st = processor (fs_validator_set (bs_fs st))"

definition km_read :: "('d, 'm, 's, 'st, 'c, 'ct, 'cb) kenv \<Rightarrow> u64 \<Rightarrow> ('d, 's) block_state \<Rightarrow> ('d, 's) kolme_read" where
  "km_read K next_height st = \<lparr>kr_code_version = kx_code_version K, kr_next_height = next_height,
     kr_fs = bs_fs st, kr_app_state = bs_app_state st\<rparr>"

section \<open>Results that may also fail to return\<close>

type_synonym ('e, 'a) run = "('e + 'a) option"

definition run_bind :: "('e, 'a) run \<Rightarrow> ('a \<Rightarrow> ('e, 'b) run) \<Rightarrow> ('e, 'b) run" where
  "run_bind m f = (case m of None \<Rightarrow> None | Some (Inl e) \<Rightarrow> Some (Inl e) | Some (Inr x) \<Rightarrow> f x)"

definition lift_err :: "('e \<Rightarrow> 'f) \<Rightarrow> 'e + 'a \<Rightarrow> 'f + 'a" where
  "lift_err g m = (case m of Inl e \<Rightarrow> Inl (g e) | Inr x \<Rightarrow> Inr x)"

lemma run_bind_simps [simp]:
  "run_bind None f = None" "run_bind (Some (Inl e)) f = Some (Inl e)" "run_bind (Some (Inr x)) f = f x"
  by (simp_all add: run_bind_def)

lemma lift_err_simps [simp]: "lift_err g (Inl e) = Inl (g e)" "lift_err g (Inr x) = Inr x"
  by (simp_all add: lift_err_def)

lemma lift_err_Inr [result_simps]: "lift_err g m = Inr x \<longleftrightarrow> m = Inr x"
  by (cases m) simp_all

section \<open>Loading the chain\<close>

definition genesis_state :: "('d, 'm, 's, 'st, 'c, 'ct, 'cb) kenv \<Rightarrow> 'd chain_error + ('d, 's) block_state" where
  "genesis_state K = rbind (lift_err CeKolme (kx_new_state K)) (\<lambda>app.
     Inr \<lparr>bs_blockhash = genesis_parent (kx_sha K), bs_fs = fs_new (e_genesis (kx_env K)), bs_app_state = app\<rparr>)"

definition load_states ::
  "('d, 'm, 's, 'st, 'c, 'ct, 'cb) kenv \<Rightarrow> ('st, 'c) kolme_store \<Rightarrow> ('d, 'm) block \<Rightarrow>
    ('d chain_error, 'd framework_state \<times> 's) run" where
  "load_states K s b =
     run_bind (map_option (lift_err CeMerkle) (ks_load (kx_cached K) (kx_store K) s (kx_dec_fs K) (bk_framework_state b))) (\<lambda>fs.
     run_bind (map_option (lift_err CeMerkle) (ks_load (kx_cached K) (kx_store K) s (kx_dec_app K) (bk_app_state b))) (\<lambda>app.
       Some (Inr (fs, app))))"

definition load_block_info ::
  "('d, 'm, 's, 'st, 'c, 'ct, 'cb) kenv \<Rightarrow> ('st, 'c) kolme_store \<Rightarrow> ('d chain_error, ('d, 'm, 's) maybe_block_info) run" where
  "load_block_info K s =
     run_bind (Some (lift_err CeStore (ks_load_latest (kx_store K) s))) (\<lambda>latest.
     run_bind (case latest of
         Some height \<Rightarrow>
           run_bind (map_option (lift_err CeStore) (ks_load_block (kx_store K) (kx_cache K) s height)) (\<lambda>r.
             case r of
               None \<Rightarrow> Some (Inl (CeKolme (Anyhow ''not found in the data store'')))
             | Some b \<Rightarrow>
                 run_bind (load_states K s (stj_inner (sb_block b))) (\<lambda>(fs, app).
                   Some (Inr (SomeBlock (sb_block b) \<lparr>bs_blockhash = sb_blockhash b, bs_fs = fs, bs_app_state = app\<rparr>))))
       | None \<Rightarrow> Some (rbind (genesis_state K) (\<lambda>st. Inr (NoBlock st)))) (\<lambda>info.
     Some (rbind (lift_err CeKolme (fs_validate (bs_fs (mbi_state info)))) (\<lambda>_. Inr info))))"

definition load_genesis_info ::
  "('d, 'm, 's, 'st, 'c, 'ct, 'cb) kenv \<Rightarrow> ('st, 'c) kolme_store \<Rightarrow> ('d chain_error, genesis_info option) run" where
  "load_genesis_info K s =
     run_bind (map_option (lift_err CeStore) (ks_load_signed_block (kx_store K) (kx_cache K) s 0)) (\<lambda>r.
     Some (case r of
        None \<Rightarrow> Inr None
      | Some b \<Rightarrow>
          (let messages = tx_messages (stj_inner (block_tx b)) in
           rbind (ensure (length messages = 1) (CeKolme (Anyhow ''messages.len() == 1''))) (\<lambda>_.
           case messages ! 0 of
             MsgGenesis gi \<Rightarrow> Inr (Some gi)
           | _ \<Rightarrow> Inl (CeKolme (Anyhow ''Invalid messages in first block''))))))"

definition validate_genesis_info ::
  "('d, 'm, 's, 'st, 'c, 'ct, 'cb) kenv \<Rightarrow> ('st, 'c) kolme_store \<Rightarrow> ('d chain_error, unit) run" where
  "validate_genesis_info K s =
     run_bind (load_genesis_info K s) (\<lambda>r. Some (case r of
        None \<Rightarrow> Inr ()
      | Some actual \<Rightarrow> ensure (actual = e_genesis (kx_env K)) (CeKolme (Anyhow ''Mismatched genesis info''))))"

definition kolme_new ::
  "('d, 'm, 's, 'st, 'c, 'ct, 'cb) kenv \<Rightarrow> ('st, 'c) kolme_store \<Rightarrow>
    ('d chain_error, ('d, 'm, 's, 'st, 'c, 'ct, 'cb) kolme) run" where
  "kolme_new K s =
     run_bind (load_block_info K s) (\<lambda>info.
     run_bind (validate_genesis_info K s) (\<lambda>_.
       Some (Inr \<lparr>km_store = s, km_current = info, km_mempool = mempool_new (kx_pool K), km_latest = None,
         km_landed = None, km_failed = []\<rparr>)))"

definition resync ::
  "('d, 'm, 's, 'st, 'c, 'ct, 'cb) kenv \<Rightarrow> ('d, 'm, 's, 'st, 'c, 'ct, 'cb) kolme \<Rightarrow>
    ('d chain_error, ('d, 'm, 's, 'st, 'c, 'ct, 'cb) kolme) run" where
  "resync K k =
     run_bind (Some (lift_err CeStore (ks_load_latest (kx_store K) (km_store k)))) (\<lambda>latest.
     case latest of
       None \<Rightarrow> Some (Inr k)
     | Some height \<Rightarrow>
         if km_next_height k < height_next height
         then run_bind (map_option (lift_err CeStore) (ks_load_signed_block (kx_store K) (kx_cache K) (km_store k) height)) (\<lambda>r.
              case r of
                None \<Rightarrow> Some (Inl (CeKolme (Anyhow ''not found during resync'')))
              | Some b \<Rightarrow>
                  run_bind (load_states K (km_store k) (stj_inner b)) (\<lambda>(fs, app).
                    Some (Inr (k\<lparr>km_current := SomeBlock b \<lparr>bs_blockhash = block_hash b, bs_fs = fs, bs_app_state = app\<rparr>\<rparr>))))
         else Some (Inr k))"

section \<open>Archiving\<close>

partial_function (option) archive_loop ::
  "('st, 'b) store_ops \<Rightarrow> ('c, 'b) block_cache \<Rightarrow> u64 \<Rightarrow> ('st, 'c) kolme_store \<Rightarrow>
    ((store_error + u64) \<times> ('st, 'c) kolme_store) option" where
  "archive_loop S L next_height s =
     (case ks_has_block S L s next_height of
        Inl e \<Rightarrow> Some (Inl e, s)
      | Inr b \<Rightarrow>
          if b then archive_loop S L (height_next next_height) (ks_archive S next_height s)
          else Some (Inr next_height, s))"

definition get_next_to_archive ::
  "('st, 'b) store_ops \<Rightarrow> ('c, 'b) block_cache \<Rightarrow> ('st, 'c) kolme_store \<Rightarrow>
    ((store_error + u64) \<times> ('st, 'c) kolme_store) option" where
  "get_next_to_archive S L s =
     (case ks_latest_archived S s of
        Inl e \<Rightarrow> Some (Inl e, s)
      | Inr a \<Rightarrow> archive_loop S L (case a of None \<Rightarrow> 0 | Some h \<Rightarrow> height_next h) s)"

section \<open>Adding blocks\<close>

type_synonym ('d, 'm, 's, 'st, 'c, 'ct, 'cb) outcome =
  "('d chain_error + unit) \<times> ('d, 'm, 's, 'st, 'c, 'ct, 'cb) kolme"

definition land_block ::
  "('d, 'm, 's, 'st, 'c, 'ct, 'cb) kenv \<Rightarrow> ('d, 'm) signed_block \<Rightarrow> ('d, 'm, 's, 'st, 'c, 'ct, 'cb) kolme \<Rightarrow>
    ('d, 'm, 's, 'st, 'c, 'ct, 'cb) kolme" where
  "land_block K b k = k\<lparr>km_mempool := snd (pool_add_signed_block (kx_pool K) b (km_mempool k)),
     km_landed := map_option (\<lambda>sent. sent @ [b]) (km_landed k)\<rparr>"

text \<open>Save one part of the states and compare its hash with the one in the block.\<close>

definition save_checked ::
  "('d, 'm, 's, 'st, 'c, 'ct, 'cb) kenv \<Rightarrow> 'a enc \<Rightarrow> 'a \<Rightarrow> hash \<Rightarrow> ('st, 'c) kolme_store \<Rightarrow>
    ('d chain_error + unit) \<times> ('st, 'c) kolme_store" where
  "save_checked K enc x expected s =
     (case ks_save (kx_sha K) (kx_store K) enc x s of
        Inl e \<Rightarrow> (Inl (CeMerkle e), s)
      | Inr (h, s') \<Rightarrow> (ensure (h = expected) (CeKolme (Anyhow ''hash == signed_block hash'')), s'))"

definition save_states ::
  "('d, 'm, 's, 'st, 'c, 'ct, 'cb) kenv \<Rightarrow> ('d, 'm, 's) executed_block \<Rightarrow> ('st, 'c) kolme_store \<Rightarrow>
    ('d chain_error + unit) \<times> ('st, 'c) kolme_store" where
  "save_states K xb s =
     (let b = stj_inner (xb_signed_block xb) in
      case save_checked K (kx_enc_fs K) (xb_fs xb) (bk_framework_state b) s of
        (Inl e, s1) \<Rightarrow> (Inl e, s1)
      | (Inr _, s1) \<Rightarrow>
          (case save_checked K (kx_enc_app K) (xb_app_state xb) (bk_app_state b) s1 of
             (Inl e, s2) \<Rightarrow> (Inl e, s2)
           | (Inr _, s2) \<Rightarrow> save_checked K ser_logs (xb_logs xb) (bk_logs b) s2))"

definition add_executed_block ::
  "('d, 'm, 's, 'st, 'c, 'ct, 'cb) kenv \<Rightarrow> ('d, 'm, 's) executed_block \<Rightarrow>
    ('d, 'm, 's, 'st, 'c, 'ct, 'cb) kolme \<Rightarrow> ('d, 'm, 's, 'st, 'c, 'ct, 'cb) outcome option" where
  "add_executed_block K xb k =
     (let b = xb_signed_block xb in
      case save_states K xb (km_store k) of
        (Inl e, s1) \<Rightarrow> Some (Inl e, k\<lparr>km_store := s1\<rparr>)
      | (Inr _, s1) \<Rightarrow>
          (case ks_add_block (kx_store K) (kx_cache K) (storable b) s1 of
             (Inl e, s2) \<Rightarrow> Some (Inl (CeStore e), k\<lparr>km_store := s2\<rparr>)
           | (Inr _, s2) \<Rightarrow>
               (let k1 = land_block K b (k\<lparr>km_store := s2\<rparr>) in
                if km_next_height k1 > block_height b then Some (Inr (), k1)
                else let k2 = k1\<lparr>km_current := SomeBlock b
                         \<lparr>bs_blockhash = block_hash b, bs_fs = xb_fs xb, bs_app_state = xb_app_state xb\<rparr>\<rparr>
                     in map_option (\<lambda>(r, s3). case r of
                          Inl e \<Rightarrow> (Inl (CeStore e), k2\<lparr>km_store := s3\<rparr>)
                        | Inr h \<Rightarrow> (Inr (), k2\<lparr>km_store := if h = block_height b then ks_archive (kx_store K) h s3 else s3\<rparr>))
                        (get_next_to_archive (kx_store K) (kx_cache K) s2))))"

text \<open>Everything \<open>add_block_with\<close> checks of a block, up to and including its execution.\<close>

definition check_block ::
  "('d, 'm, 's, 'st, 'c, 'ct, 'cb) kenv \<Rightarrow> u64 \<Rightarrow> ('d, 's) block_state \<Rightarrow> ('d, 'm) signed_block \<Rightarrow> data_load_validation \<Rightarrow>
    'd kerr + ('d, 'm, 's) executed_block" where
  "check_block K next_height st b validation =
     (let blk = stj_inner b in
      rbind (ensure (next_height = block_height b) (Anyhow ''next expected height'')) (\<lambda>_.
      rbind (ensure (bs_blockhash st = bk_parent blk) (Anyhow ''actual_parent == block_parent'')) (\<lambda>_.
      rbind (ensure (state_processor st = bk_processor blk) (Anyhow ''expected_processor == actual_processor'')) (\<lambda>_.
      rbind (case tx_max_height (stj_inner (block_tx b)) of
          None \<Rightarrow> Inr ()
        | Some max_height \<Rightarrow>
            ensure (\<not> max_height < block_height b) (PastMaxHeight (tx_hash (block_tx b)) max_height (block_height b))) (\<lambda>_.
      rbind (validate_block_signature (e_recover (kx_env K)) b) (\<lambda>_.
      rbind (execute_transaction (kx_env K) (km_read K next_height st) (bk_tx blk) (bk_timestamp blk)
          (PriorData (bk_loads blk) validation)) (\<lambda>r.
      rbind (ensure (er_height r = block_height b) (Anyhow ''height == signed_block.height()'')) (\<lambda>_.
      rbind (ensure (er_loads r = bk_loads blk) (Anyhow ''loads == block.loads'')) (\<lambda>_.
        Inr \<lparr>xb_signed_block = b, xb_fs = er_fs r, xb_app_state = er_app_state r, xb_logs = er_logs r\<rparr>)))))))))"

definition add_block_with ::
  "('d, 'm, 's, 'st, 'c, 'ct, 'cb) kenv \<Rightarrow> ('d, 'm) signed_block \<Rightarrow> data_load_validation \<Rightarrow>
    ('d, 'm, 's, 'st, 'c, 'ct, 'cb) kolme \<Rightarrow> ('d, 'm, 's, 'st, 'c, 'ct, 'cb) outcome option" where
  "add_block_with K b validation k =
     (case check_block K (km_next_height k) (km_state k) b validation of
        Inl e \<Rightarrow> Some (Inl (CeKolme e), k)
      | Inr xb \<Rightarrow> add_executed_block K xb k)"

definition add_block ::
  "('d, 'm, 's, 'st, 'c, 'ct, 'cb) kenv \<Rightarrow> ('d, 'm) signed_block \<Rightarrow> ('d, 'm, 's, 'st, 'c, 'ct, 'cb) kolme \<Rightarrow>
    ('d, 'm, 's, 'st, 'c, 'ct, 'cb) outcome option" where
  "add_block K b = add_block_with K b ValidateDataLoads"

definition layer_present ::
  "('d, 'm, 's, 'st, 'c, 'ct, 'cb) kenv \<Rightarrow> ('st, 'c) kolme_store \<Rightarrow> hash \<Rightarrow> 'd chain_error + unit" where
  "layer_present K s h =
     rbind (lift_err CeMerkle (ks_has_merkle_hash (kx_store K) s h)) (\<lambda>b.
       ensure b (CeKolme (Anyhow ''not written to Merkle store'')))"

definition check_block_with_state ::
  "('d, 'm, 's, 'st, 'c, 'ct, 'cb) kenv \<Rightarrow> ('d, 'm) signed_block \<Rightarrow> ('d, 'm, 's, 'st, 'c, 'ct, 'cb) kolme \<Rightarrow>
    'd chain_error + unit" where
  "check_block_with_state K b k =
     (let blk = stj_inner b; s = km_store k in
      rbind (lift_err CeStore (ks_has_block (kx_store K) (kx_cache K) s (block_height b))) (\<lambda>present.
      rbind (ensure (\<not> present) (CeKolme (Anyhow ''already present in the store''))) (\<lambda>_.
      rbind (ensure (state_processor (km_state k) = bk_processor blk)
        (CeKolme (Anyhow ''expected_processor == actual_processor''))) (\<lambda>_.
      rbind (lift_err CeKolme (validate_block_signature (e_recover (kx_env K)) b)) (\<lambda>_.
      rbind (layer_present K s (bk_framework_state blk)) (\<lambda>_.
      rbind (layer_present K s (bk_app_state blk)) (\<lambda>_.
        layer_present K s (bk_logs blk))))))))"

definition add_block_with_state ::
  "('d, 'm, 's, 'st, 'c, 'ct, 'cb) kenv \<Rightarrow> ('d, 'm) signed_block \<Rightarrow> ('d, 'm, 's, 'st, 'c, 'ct, 'cb) kolme \<Rightarrow>
    ('d, 'm, 's, 'st, 'c, 'ct, 'cb) outcome" where
  "add_block_with_state K b k =
     (case check_block_with_state K b k of
        Inl e \<Rightarrow> (Inl e, k)
      | Inr _ \<Rightarrow>
          (case ks_add_block (kx_store K) (kx_cache K) (storable b) (km_store k) of
             (Inl e, s) \<Rightarrow> (Inl (CeStore e), k\<lparr>km_store := s\<rparr>)
           | (Inr _, s) \<Rightarrow>
               (Inr (), k\<lparr>km_store := s, km_mempool := snd (pool_add_signed_block (kx_pool K) b (km_mempool k))\<rparr>)))"


section \<open>Notifications\<close>

text \<open>The result of checking the processor's signature is only logged: the first component says whether
  there was a warning.\<close>

definition verify_processor_signature ::
  "('d, 'm, 's, 'st, 'c, 'ct, 'cb) kenv \<Rightarrow> ('d, 'm, 's, 'st, 'c, 'ct, 'cb) kolme \<Rightarrow> 'a signed_tagged_json \<Rightarrow> 'd kerr + unit" where
  "verify_processor_signature K k msg =
     rbind (stj_verify_signature (e_recover (kx_env K)) msg) (\<lambda>pubkey.
       if pubkey = state_processor (km_state k) then Inr () else Inl (Anyhow ''Latest block was signed by another key''))"

definition newer_latest :: "latest_block \<Rightarrow> latest_block \<Rightarrow> bool" where
  "newer_latest old new \<longleftrightarrow> \<not> lb_height new < lb_height old \<and> \<not> lb_when new \<le> lb_when old"

definition update_latest_block ::
  "('d, 'm, 's, 'st, 'c, 'ct, 'cb) kenv \<Rightarrow> latest_block signed_tagged_json \<Rightarrow> ('d, 'm, 's, 'st, 'c, 'ct, 'cb) kolme \<Rightarrow>
    bool \<times> ('d, 'm, 's, 'st, 'c, 'ct, 'cb) kolme" where
  "update_latest_block K latest k =
     (\<not> is_ok (verify_processor_signature K k latest),
      case km_latest k of
        None \<Rightarrow> k\<lparr>km_latest := Some latest\<rparr>
      | Some old \<Rightarrow> if newer_latest (stj_inner old) (stj_inner latest) then k\<lparr>km_latest := Some latest\<rparr> else k)"

definition propose_transaction ::
  "('d, 'm, 's, 'st, 'c, 'ct, 'cb) kenv \<Rightarrow> ('d, 'm) signed_transaction \<Rightarrow> ('d, 'm, 's, 'st, 'c, 'ct, 'cb) kolme \<Rightarrow>
    (('d, 'm) propose_error + unit) \<times> ('d, 'm, 's, 'st, 'c, 'ct, 'cb) kolme" where
  "propose_transaction K tx k =
     (let (r, pool) = pool_add (kx_pool K) tx (km_mempool k) in (r, k\<lparr>km_mempool := pool\<rparr>))"

definition add_failed_transaction ::
  "('d, 'm, 's, 'st, 'c, 'ct, 'cb) kenv \<Rightarrow> 'd failed_transaction signed_tagged_json \<Rightarrow>
    ('d, 'm, 's, 'st, 'c, 'ct, 'cb) kolme \<Rightarrow> bool \<times> ('d, 'm, 's, 'st, 'c, 'ct, 'cb) kolme" where
  "add_failed_transaction K failed k =
     (let (added, pool) = pool_add_failed (kx_pool K) failed (km_mempool k);
          k1 = k\<lparr>km_mempool := pool\<rparr>
      in (\<not> is_ok (verify_processor_signature K k failed),
          if added then k1\<lparr>km_failed := km_failed k1 @ [failed]\<rparr> else k1))"

definition add_landed_transaction ::
  "('d, 'm, 's, 'st, 'c, 'ct, 'cb) kenv \<Rightarrow> ('d, 'm) signed_block \<Rightarrow> ('d, 'm, 's, 'st, 'c, 'ct, 'cb) kolme \<Rightarrow>
    bool \<times> ('d, 'm, 's, 'st, 'c, 'ct, 'cb) kolme" where
  "add_landed_transaction K b k =
     (let (added, pool) = pool_add_signed_block (kx_pool K) b (km_mempool k);
          k1 = k\<lparr>km_mempool := pool\<rparr>
      in (\<not> is_ok (verify_processor_signature K k b),
          if added then k1\<lparr>km_landed := map_option (\<lambda>sent. sent @ [b]) (km_landed k1)\<rparr> else k1))"

section \<open>Copying layers from another node\<close>

datatype layer_work = WProcess hash | WWrite layer

text \<open>\<open>ingest_layer_from\<close>; the work list is a stack, its top first.\<close>

partial_function (option) ingest_loop ::
  "('s1, 'b1) store_ops \<Rightarrow> ('s2, 'b2) store_ops \<Rightarrow> (bytes \<Rightarrow> hash) \<Rightarrow> ('s2, 'c2) kolme_store \<Rightarrow>
    layer_work list \<Rightarrow> ('s1, 'c1) kolme_store \<Rightarrow> (merkle_error + ('s1, 'c1) kolme_store) option" where
  "ingest_loop S T sha other work s =
     (case work of
        [] \<Rightarrow> Some (Inr s)
      | WProcess h # rest \<Rightarrow>
          (case ks_has_merkle_hash S s h of
             Inl e \<Rightarrow> Some (Inl e)
           | Inr b \<Rightarrow>
               if b then ingest_loop S T sha other rest s
               else (case ks_get_merkle_layer T other h of
                       Inl e \<Rightarrow> Some (Inl e)
                     | Inr None \<Rightarrow> Some (Inl (MerkleCustom ''Missing layer in source store''))
                     | Inr (Some l) \<Rightarrow>
                         ingest_loop S T sha other (rev (map WProcess (l_children l)) @ WWrite l # rest) s))
      | WWrite l # rest \<Rightarrow>
          (case ks_has_merkle_hash S s (layer_hash sha l) of
             Inl e \<Rightarrow> Some (Inl e)
           | Inr b \<Rightarrow>
               if b then ingest_loop S T sha other rest s
               else (case ks_add_merkle_layer S l s of
                       Inl e \<Rightarrow> Some (Inl e)
                     | Inr s' \<Rightarrow> ingest_loop S T sha other rest s')))"

definition ingest_layer_from ::
  "('s1, 'b1) store_ops \<Rightarrow> ('s2, 'b2) store_ops \<Rightarrow> (bytes \<Rightarrow> hash) \<Rightarrow> ('s2, 'c2) kolme_store \<Rightarrow>
    hash \<Rightarrow> ('s1, 'c1) kolme_store \<Rightarrow> (merkle_error + ('s1, 'c1) kolme_store) option" where
  "ingest_layer_from S T sha other h s = ingest_loop S T sha other [WProcess h] s"

end
