(* ===== verification/Processor.thy ===== *)
theory Processor
  imports Chain
begin

text \<open>
  The processor (\<open>kolme/src/processor.rs\<close>): it takes transactions from the mempool, executes them and adds
  the block to its node, reports the failures, approves bridge actions in order and announces the
  latest block.

  The clock is an argument: the times an operation reads.  Signing does not fail.  The construct lock and
  the retry timers are not modelled.
\<close>

section \<open>The processor\<close>

record ('d, 'm, 's, 'st, 'c, 'ct, 'cb, 'k) penv =
  px_node :: "('d, 'm, 's, 'st, 'c, 'ct, 'cb) kenv"
  px_sign :: "'k \<Rightarrow> bytes \<Rightarrow> sigrec"
  px_public :: "'k \<Rightarrow> public_key"
  px_tx_json :: "('d, 'm) transaction \<Rightarrow> string option"
  px_block_json :: "('d, 'm) block \<Rightarrow> string option"
  px_failed_json :: "'d failed_transaction \<Rightarrow> string option"
  px_latest_json :: "latest_block \<Rightarrow> string option"
  px_error_text :: "'d chain_error \<Rightarrow> string"

type_synonym 'k secrets = "public_key \<Rightarrow> 'k option"

definition processor_new :: "('d, 'm, 's, 'st, 'c, 'ct, 'cb, 'k) penv \<Rightarrow> 'k \<Rightarrow> 'k secrets" where
  "processor_new P secret = [px_public P secret \<mapsto> secret]"

definition add_secret :: "('d, 'm, 's, 'st, 'c, 'ct, 'cb, 'k) penv \<Rightarrow> 'k \<Rightarrow> 'k secrets \<Rightarrow> 'k secrets" where
  "add_secret P secret secrets = secrets(px_public P secret \<mapsto> secret)"

definition get_correct_secret :: "'k secrets \<Rightarrow> ('d, 's) block_state \<Rightarrow> 'd chain_error + 'k" where
  "get_correct_secret secrets st =
     ok_or (secrets (state_processor st)) (CeKolme (Anyhow ''we don't have the matching secret key''))"

section \<open>Transactions of the processor's own\<close>

definition get_next_nonce :: "public_key \<Rightarrow> 'd accounts \<Rightarrow> 'd kerr + (u64 option \<times> u64)" where
  "get_next_nonce key A =
     rbind (get_account_for_key A key) (\<lambda>r. Inr (case r of
        None \<Rightarrow> (None, 0)
      | Some (account_id, account) \<Rightarrow> (Some account_id, next_nonce account)))"

definition sign_json ::
  "('d, 'm, 's, 'st, 'c, 'ct, 'cb, 'k) penv \<Rightarrow> ('a \<Rightarrow> string option) \<Rightarrow> 'a \<Rightarrow> 'k \<Rightarrow> 'd chain_error + 'a signed_tagged_json" where
  "sign_json P to_json x key =
     rbind (ok_or (tj_new (kx_sha (px_node P)) to_json x) (CeKolme (Anyhow ''json''))) (\<lambda>t. Inr (tj_sign (px_sign P) key t))"

definition create_signed_transaction ::
  "('d, 'm, 's, 'st, 'c, 'ct, 'cb, 'k) penv \<Rightarrow> 'k \<Rightarrow> ('d, 'm) message list \<Rightarrow> int \<Rightarrow> ('d, 's) block_state \<Rightarrow>
    'd chain_error + ('d, 'm) signed_transaction" where
  "create_signed_transaction P secret messages now st =
     rbind (lift_err CeKolme (get_next_nonce (px_public P secret) (fs_accounts (bs_fs st)))) (\<lambda>(_, nonce).
       sign_json P (px_tx_json P) \<lparr>tx_pubkey = px_public P secret, tx_nonce = nonce, tx_created = now,
         tx_messages = messages, tx_max_height = None\<rparr> secret)"

section \<open>Building blocks\<close>

definition hash_of_value :: "(bytes \<Rightarrow> hash) \<Rightarrow> 'a enc \<Rightarrow> 'a \<Rightarrow> 'd chain_error + hash" where
  "hash_of_value sha enc x = rbind (lift_err CeMerkle (serialize enc x)) (\<lambda>c. Inr (contents_hash sha c))"

definition construct_block ::
  "('d, 'm, 's, 'st, 'c, 'ct, 'cb, 'k) penv \<Rightarrow> 'k secrets \<Rightarrow> int \<Rightarrow> ('d, 'm) signed_transaction \<Rightarrow> u64 \<Rightarrow>
    ('d, 'm, 's, 'st, 'c, 'ct, 'cb) kolme \<Rightarrow> 'd chain_error + ('d, 'm, 's) executed_block" where
  "construct_block P secrets now tx proposed_height k =
     (let K = px_node P; st = km_state k; sha = kx_sha K in
      rbind (get_correct_secret secrets st) (\<lambda>secret.
      rbind (lift_err CeStore (ks_height_for_tx (kx_store K) (km_store k) (tx_hash tx))) (\<lambda>present.
      rbind (ensure (present = None) (CeStore (TxAlreadyInDb (tx_hash tx)))) (\<lambda>_.
      rbind (lift_err CeKolme
        (execute_transaction (kx_env K) (km_read K (km_next_height k) st) tx now NoPriorData)) (\<lambda>r.
      rbind (ensure (er_height r = proposed_height) (CeKolme (Anyhow ''height == proposed_height''))) (\<lambda>_.
      rbind (case tx_max_height (stj_inner tx) of
          None \<Rightarrow> Inr ()
        | Some max_height \<Rightarrow> ensure (\<not> max_height < proposed_height)
            (CeKolme (PastMaxHeight (tx_hash tx) max_height proposed_height))) (\<lambda>_.
      rbind (hash_of_value sha (kx_enc_fs K) (er_fs r)) (\<lambda>fs_hash.
      rbind (hash_of_value sha (kx_enc_app K) (er_app_state r)) (\<lambda>app_hash.
      rbind (hash_of_value sha ser_logs (er_logs r)) (\<lambda>logs_hash.
      rbind (sign_json P (px_block_json P) \<lparr>bk_tx = tx, bk_timestamp = now, bk_processor = px_public P secret,
          bk_height = proposed_height, bk_parent = bs_blockhash st, bk_framework_state = fs_hash,
          bk_app_state = app_hash, bk_logs = logs_hash, bk_loads = er_loads r\<rparr> secret) (\<lambda>signed_block.
        Inr \<lparr>xb_signed_block = signed_block, xb_fs = er_fs r, xb_app_state = er_app_state r, xb_logs = er_logs r\<rparr>)))))))))))"

definition emit_latest ::
  "('d, 'm, 's, 'st, 'c, 'ct, 'cb, 'k) penv \<Rightarrow> 'k secrets \<Rightarrow> int \<Rightarrow> ('d, 'm, 's, 'st, 'c, 'ct, 'cb) kolme \<Rightarrow>
    'd chain_error + ('d, 'm, 's, 'st, 'c, 'ct, 'cb) kolme" where
  "emit_latest P secrets now k =
     rbind (ok_or (height_prev (km_next_height k)) (CeKolme (Anyhow ''no blocks available''))) (\<lambda>height.
     rbind (get_correct_secret secrets (km_state k)) (\<lambda>secret.
     rbind (sign_json P (px_latest_json P) \<lparr>lb_height = height, lb_when = now\<rparr> secret) (\<lambda>stx.
       Inr (snd (update_latest_block (px_node P) stx k)))))"

definition emit_latest_or_keep ::
  "('d, 'm, 's, 'st, 'c, 'ct, 'cb, 'k) penv \<Rightarrow> 'k secrets \<Rightarrow> int \<Rightarrow> ('d, 'm, 's, 'st, 'c, 'ct, 'cb) kolme \<Rightarrow>
    ('d, 'm, 's, 'st, 'c, 'ct, 'cb) kolme" where
  "emit_latest_or_keep P secrets now k = (case emit_latest P secrets now k of Inl _ \<Rightarrow> k | Inr k' \<Rightarrow> k')"

text \<open>A block that is built and added, or the error.\<close>

definition produce_block ::
  "('d, 'm, 's, 'st, 'c, 'ct, 'cb, 'k) penv \<Rightarrow> 'k secrets \<Rightarrow> int \<Rightarrow> ('d, 'm) signed_transaction \<Rightarrow> u64 \<Rightarrow>
    ('d, 'm, 's, 'st, 'c, 'ct, 'cb) kolme \<Rightarrow> ('d, 'm, 's, 'st, 'c, 'ct, 'cb) outcome option" where
  "produce_block P secrets now tx proposed_height k =
     (case construct_block P secrets now tx proposed_height k of
        Inl e \<Rightarrow> Some (Inl e, k)
      | Inr xb \<Rightarrow> add_executed_block (px_node P) xb k)"

definition as_kolme_error :: "('d, 'm, 's, 'st, 'c, 'ct, 'cb, 'k) penv \<Rightarrow> 'd chain_error \<Rightarrow> 'd kerr" where
  "as_kolme_error P e = (case e of CeKolme e' \<Rightarrow> e' | _ \<Rightarrow> Anyhow (px_error_text P e))"

text \<open>What the processor does with a transaction that failed: nothing when another block took its height,
  otherwise a signed notification, or, without the key to sign it, dropping the transaction.\<close>

definition report_failure ::
  "('d, 'm, 's, 'st, 'c, 'ct, 'cb, 'k) penv \<Rightarrow> 'k secrets \<Rightarrow> 'd chain_error \<Rightarrow> hash \<Rightarrow> u64 \<Rightarrow>
    ('d, 'm, 's, 'st, 'c, 'ct, 'cb) kolme \<Rightarrow> ('d, 'm, 's, 'st, 'c, 'ct, 'cb) kolme" where
  "report_failure P secrets e txhash proposed_height k =
     (case e of
        CeStore (ConflictingBlockInDb _ _ _) \<Rightarrow> k
      | _ \<Rightarrow>
         (case rbind (get_correct_secret secrets (km_state k)) (sign_json P (px_failed_json P)
             \<lparr>ft_txhash = txhash, ft_proposed_height = proposed_height, ft_error = as_kolme_error P e\<rparr>) of
            Inr failed \<Rightarrow> snd (add_failed_transaction (px_node P) failed k)
          | Inl _ \<Rightarrow> k\<lparr>km_mempool := pool_remove (kx_pool (px_node P)) txhash (km_mempool k)\<rparr>))"

definition add_transaction ::
  "('d, 'm, 's, 'st, 'c, 'ct, 'cb, 'k) penv \<Rightarrow> 'k secrets \<Rightarrow> int \<Rightarrow> int \<Rightarrow> ('d, 'm) signed_transaction \<Rightarrow>
    ('d, 'm, 's, 'st, 'c, 'ct, 'cb) kolme \<Rightarrow> ('d, 'm, 's, 'st, 'c, 'ct, 'cb) outcome option" where
  "add_transaction P secrets now later tx k =
     (case resync (px_node P) k of
        None \<Rightarrow> None
      | Some (Inl e) \<Rightarrow> Some (Inl e, k)
      | Some (Inr k1) \<Rightarrow>
          (case ks_height_for_tx (kx_store (px_node P)) (km_store k1) (tx_hash tx) of
             Inl e \<Rightarrow> Some (Inl (CeStore e), k1)
           | Inr (Some _) \<Rightarrow> Some (Inr (), k1)
           | Inr None \<Rightarrow>
               map_option (\<lambda>(res, k2).
                 (res, emit_latest_or_keep P secrets later (case res of
                    Inl e \<Rightarrow> report_failure P secrets e (tx_hash tx) (km_next_height k1) k2
                  | Inr _ \<Rightarrow> k2)))
               (produce_block P secrets now tx (km_next_height k1) k1)))"

section \<open>Genesis\<close>

definition create_genesis_event ::
  "('d, 'm, 's, 'st, 'c, 'ct, 'cb, 'k) penv \<Rightarrow> 'k secrets \<Rightarrow> int \<Rightarrow> int \<Rightarrow> int \<Rightarrow>
    ('d, 'm, 's, 'st, 'c, 'ct, 'cb) kolme \<Rightarrow> ('d, 'm, 's, 'st, 'c, 'ct, 'cb) outcome option" where
  "create_genesis_event P secrets created now later k =
     (case rbind (get_correct_secret secrets (km_state k)) (\<lambda>secret.
         create_signed_transaction P secret [MsgGenesis (e_genesis (kx_env (px_node P)))] created (km_state k)) of
        Inl e \<Rightarrow> Some (Inl e, k)
      | Inr stx \<Rightarrow>
          (case construct_block P secrets now stx (km_next_height k) k of
             Inl e \<Rightarrow> Some (Inl e, k)
           | Inr xb \<Rightarrow>
               (case add_executed_block (px_node P) xb k of
                  None \<Rightarrow> None
                | Some (Inr _, k1) \<Rightarrow> Some (Inr (), emit_latest_or_keep P secrets later k1)
                | Some (Inl (CeStore (ConflictingBlockInDb h a b)), k1) \<Rightarrow>
                    (case resync (px_node P) k1 of
                       None \<Rightarrow> None
                     | Some (Inl e) \<Rightarrow> Some (Inl e, k1)
                     | Some (Inr k2) \<Rightarrow> Some (Inl (CeStore (ConflictingBlockInDb h a b)), k2))
                | Some (Inl e, k1) \<Rightarrow> Some (Inl e, k1))))"

definition ensure_genesis_event ::
  "('d, 'm, 's, 'st, 'c, 'ct, 'cb, 'k) penv \<Rightarrow> 'k secrets \<Rightarrow> int \<Rightarrow> int \<Rightarrow> int \<Rightarrow>
    ('d, 'm, 's, 'st, 'c, 'ct, 'cb) kolme \<Rightarrow> ('d, 'm, 's, 'st, 'c, 'ct, 'cb) outcome option" where
  "ensure_genesis_event P secrets created now later k =
     (if height_is_start (km_next_height k)
      then if kx_code_version (px_node P) \<noteq> fs_version (bs_fs (km_state k)) then Some (Inr (), k)
           else create_genesis_event P secrets created now later k
      else Some (Inr (), k))"

section \<open>Approving bridge actions\<close>

definition get_next_bridge_action ::
  "'d framework_state \<Rightarrow> external_chain \<Rightarrow> 'd kerr + (u64 \<times> pending_bridge_action) option" where
  "get_next_bridge_action fs chain = rbind (chains_get fs chain) (\<lambda>cs. Inr (om_first (cs_pending_actions cs)))"

text \<open>The stored approvals, checked again; those of current approvers are passed on.\<close>

definition take_approval ::
  "recover_fn \<Rightarrow> validator_set \<Rightarrow> bytes \<Rightarrow> public_key \<times> sigrec \<Rightarrow> sigrec list \<Rightarrow> 'd kerr + sigrec list" where
  "take_approval rcv vs payload approval taken =
     rbind (ok_or (sig_validate rcv (snd approval) payload) PublicKeyError) (\<lambda>key2.
     rbind (ensure (fst approval = key2) (Anyhow ''key == &key2'')) (\<lambda>_.
       Inr (if fst approval \<in> set (approvers vs) then taken @ [snd approval] else taken)))"

text \<open>The message to send, if one is due.\<close>

definition approval_due ::
  "('d, 'm, 's, 'st, 'c, 'ct, 'cb, 'k) penv \<Rightarrow> 'k \<Rightarrow> external_chain \<Rightarrow> 'd framework_state \<Rightarrow> 'd kerr + ('d, 'm) message option" where
  "approval_due P secret chain fs =
     (let E = kx_env (px_node P); vs = fs_validator_set fs in
      rbind (get_next_bridge_action fs chain) (\<lambda>due.
      case due of
        None \<Rightarrow> Inr None
      | Some (action_id, action) \<Rightarrow>
          rbind (payload_bytes_to_sign (e_b64_decode E) action chain) (\<lambda>payload.
          rbind (rfold (take_approval (e_recover E) vs payload) (pa_approvals action) []) (\<lambda>taken.
            if length taken < unat (needed_approvers vs) then Inr None
            else if pa_processor action \<noteq> None then Inr None
            else Inr (Some (MsgProcessorApprove chain action_id (px_sign P secret payload) taken))))))"

definition approve_actions ::
  "('d, 'm, 's, 'st, 'c, 'ct, 'cb, 'k) penv \<Rightarrow> 'k secrets \<Rightarrow> int \<Rightarrow> int \<Rightarrow> int \<Rightarrow> external_chain \<Rightarrow>
    ('d, 'm, 's, 'st, 'c, 'ct, 'cb) kolme \<Rightarrow> ('d, 'm, 's, 'st, 'c, 'ct, 'cb) outcome option" where
  "approve_actions P secrets created now later chain k =
     (case rbind (get_correct_secret secrets (km_state k)) (\<lambda>secret.
         rbind (lift_err CeKolme (approval_due P secret chain (bs_fs (km_state k)))) (\<lambda>due.
         case due of
           None \<Rightarrow> Inr None
         | Some msg \<Rightarrow> rbind (create_signed_transaction P secret [msg] created (km_state k)) (\<lambda>tx. Inr (Some tx)))) of
        Inl e \<Rightarrow> Some (Inl e, k)
      | Inr None \<Rightarrow> Some (Inr (), k)
      | Inr (Some tx) \<Rightarrow> add_transaction P secrets now later tx k)"

text \<open>Errors are only logged.\<close>

fun approve_actions_all ::
  "('d, 'm, 's, 'st, 'c, 'ct, 'cb, 'k) penv \<Rightarrow> 'k secrets \<Rightarrow> int \<Rightarrow> external_chain list \<Rightarrow>
    ('d, 'm, 's, 'st, 'c, 'ct, 'cb) kolme \<Rightarrow> ('d, 'm, 's, 'st, 'c, 'ct, 'cb) kolme option" where
  "approve_actions_all P secrets now [] k = Some k"
| "approve_actions_all P secrets now (chain # rest) k =
     (case approve_actions P secrets now now now chain k of
        None \<Rightarrow> None
      | Some (_, k') \<Rightarrow> approve_actions_all P secrets now rest k')"

section \<open>The producer loop\<close>

definition get_tx_block ::
  "('d, 'm, 's, 'st, 'c, 'ct, 'cb) kenv \<Rightarrow> ('d, 'm, 's, 'st, 'c, 'ct, 'cb) kolme \<Rightarrow> hash \<Rightarrow>
    (store_error, ('d, 'm) signed_block option) run" where
  "get_tx_block K k txhash =
     (case ks_height_for_tx (kx_store K) (km_store k) txhash of
        Inl e \<Rightarrow> Some (Inl e)
      | Inr None \<Rightarrow> Some (Inr None)
      | Inr (Some height) \<Rightarrow>
          run_bind (ks_load_block (kx_store K) (kx_cache K) (km_store k) height) (\<lambda>r.
            case r of
              None \<Rightarrow> Some (Inl (BlockNotFound height))
            | Some b \<Rightarrow> Some (Inr (Some (sb_block b)))))"

text \<open>The next transaction that is not on the chain yet; \<open>None\<close> means that it waits.\<close>

partial_function (option) wait_on_mempool ::
  "('d, 'm, 's, 'st, 'c, 'ct, 'cb) kenv \<Rightarrow> ('d, 'm, 's, 'st, 'c, 'ct, 'cb) kolme \<Rightarrow>
    (('d, 'm) signed_transaction \<times> ('d, 'm, 's, 'st, 'c, 'ct, 'cb) kolme) option" where
  "wait_on_mempool K k =
     (case pool_peek (kx_pool K) (km_mempool k) of
        None \<Rightarrow> None
      | Some tx \<Rightarrow>
          (case get_tx_block K k (tx_hash tx) of
             None \<Rightarrow> None
           | Some (Inl e) \<Rightarrow> wait_on_mempool K k
           | Some (Inr None) \<Rightarrow> Some (tx, k)
           | Some (Inr (Some b)) \<Rightarrow>
               wait_on_mempool K (k\<lparr>km_mempool := snd (pool_add_signed_block (kx_pool K) b (km_mempool k))\<rparr>)))"

text \<open>One turn of the loop, from the point where the node runs the chain's version.\<close>

definition producer_turn ::
  "('d, 'm, 's, 'st, 'c, 'ct, 'cb, 'k) penv \<Rightarrow> 'k secrets \<Rightarrow> external_chain list \<Rightarrow> int \<Rightarrow>
    ('d, 'm, 's, 'st, 'c, 'ct, 'cb) kolme \<Rightarrow> ('d, 'm, 's, 'st, 'c, 'ct, 'cb) kolme option" where
  "producer_turn P secrets bridges now k =
     (case wait_on_mempool (px_node P) k of
        None \<Rightarrow> None
      | Some (tx, k1) \<Rightarrow>
          (case add_transaction P secrets now now tx k1 of
             None \<Rightarrow> None
           | Some (Inr _, k2) \<Rightarrow> approve_actions_all P secrets now bridges k2
           | Some (Inl _, k2) \<Rightarrow> Some k2))"

end
