(* ===== verification/Replay.thy ===== *)
theory Replay
  imports Execution_Props
begin

text \<open>
  A block records the data its transaction loaded.  Executing the transaction again with that record
  gives the same results: the handlers of the framework do not look at the record, and an application
  that gets the responses it got before does what it did before.
\<close>

section \<open>Handlers that do not look at the record\<close>

definition with_record :: "block_data_handling \<Rightarrow> block_data_load list \<Rightarrow> ('d, 's) exec_ctx \<Rightarrow> ('d, 's) exec_ctx" where
  "with_record h l c = c\<lparr>ec_handling := h, ec_loads := l\<rparr>"

lemma with_record_simps [simp]:
  "ec_fs (with_record h l c) = ec_fs c" "ec_app_state (with_record h l c) = ec_app_state c"
  "ec_logs (with_record h l c) = ec_logs c" "ec_pubkey (with_record h l c) = ec_pubkey c"
  "ec_sender (with_record h l c) = ec_sender c" "ec_signing_key (with_record h l c) = ec_signing_key c"
  "ec_timestamp (with_record h l c) = ec_timestamp c" "ec_height (with_record h l c) = ec_height c"
  "ec_handling (with_record h l c) = h" "ec_loads (with_record h l c) = l"
  "(with_record h l c)\<lparr>ec_fs := fs\<rparr> = with_record h l (c\<lparr>ec_fs := fs\<rparr>)"
  "(with_record h l c)\<lparr>ec_logs := ls\<rparr> = with_record h l (c\<lparr>ec_logs := ls\<rparr>)"
  "with_record (ec_handling c) (ec_loads c) c = c"
  by (simp_all add: with_record_def)

definition blind :: "(('d, 's) exec_ctx \<Rightarrow> 'd kerr + ('d, 's) exec_ctx) \<Rightarrow> bool" where
  "blind f \<longleftrightarrow> (\<forall>c h l. f (with_record h l c) = rbind (f c) (\<lambda>c'. Inr (with_record h l c')))"

text \<open>The same for a handler that also returns a value.\<close>

definition blind_value :: "(('d, 's) exec_ctx \<Rightarrow> 'd kerr + ('x \<times> ('d, 's) exec_ctx)) \<Rightarrow> bool" where
  "blind_value f \<longleftrightarrow> (\<forall>c h l. f (with_record h l c) = rbind (f c) (\<lambda>(x, c'). Inr (x, with_record h l c')))"

named_theorems blind_intros

lemma blindD: "blind f \<Longrightarrow> f (with_record h l c) = rbind (f c) (\<lambda>c'. Inr (with_record h l c'))"
  by (simp add: blind_def)

lemma blind_valueD: "blind_value f \<Longrightarrow> f (with_record h l c) = rbind (f c) (\<lambda>(x, c'). Inr (x, with_record h l c'))"
  by (simp add: blind_value_def)

lemma rbind_assoc: "rbind (rbind m f) g = rbind m (\<lambda>x. rbind (f x) g)"
  by (cases m) simp_all

lemma blind_Inr [blind_intros]: "blind Inr"
  by (simp add: blind_def)

lemma blind_read [blind_intros]:
  "(\<And>h l c. m (with_record h l c) = m c) \<Longrightarrow> (\<And>x. blind (f x)) \<Longrightarrow> blind (\<lambda>c. rbind (m c) (\<lambda>x. f x c))"
  by (simp add: blind_def rbind_assoc)

lemma blind_then [blind_intros]: "blind f \<Longrightarrow> blind g \<Longrightarrow> blind (\<lambda>c. rbind (f c) g)"
  by (simp add: blind_def rbind_assoc)

lemma blind_value_then [blind_intros]:
  "blind_value f \<Longrightarrow> (\<And>x. blind (g x)) \<Longrightarrow> blind (\<lambda>c. rbind (f c) (\<lambda>(x, c'). g x c'))"
  by (auto simp: blind_def blind_value_def rbind_assoc case_prod_unfold)

lemma blind_case [blind_intros]:
  "(\<And>h l c. g (with_record h l c) = g c) \<Longrightarrow> (\<And>y. blind (f y)) \<Longrightarrow> blind (\<lambda>c. f (g c) c)"
  by (simp add: blind_def)

lemma blind_on_fs [blind_intros]: "blind (on_fs f)"
  by (simp add: blind_def on_fs_def rbind_assoc)

lemma blind_log [blind_intros]: "blind (ctx_log s)"
  by (simp add: blind_def ctx_log_def)

lemma blind_log_event [blind_intros]: "blind (log_event E ev)"
  by (simp add: blind_def log_event_def blindD [OF blind_log] rbind_assoc)

lemma blind_set_fs: "blind f \<Longrightarrow> blind (\<lambda>c. f (c\<lparr>ec_fs := g c\<rparr>))" if "\<And>h l c. g (with_record h l c) = g c"
  using that by (simp add: blind_def)

lemma blind_rfold [blind_intros]: "(\<And>x. blind (f x)) \<Longrightarrow> blind (rfold f xs)"
proof (induction xs)
  case (Cons x xs)
  then have "blind (\<lambda>c. rbind (f x c) (rfold f xs))" by (intro blind_then) auto
  then show ?case by (simp add: blind_def)
qed (simp add: blind_def)

lemma blind_process_event [blind_intros]: "blind (process_event E chain i ev)"
proof (cases ev)
  case (Instantiated x)
  then show ?thesis by (simp add: blind_def process_event_def blindD [OF blind_on_fs])
next
  case (Regular w funds keys)
  then show ?thesis
    by (simp add: blind_def process_event_def blindD [OF blind_log_event] rbind_assoc case_prod_unfold)
next
  case (Signed w x)
  then show ?thesis by (simp add: blind_def process_event_def blindD [OF blind_on_fs])
qed

lemma remove_event_record: "blind_value (remove_event chain i)"
  by (auto simp: blind_value_def remove_event_def split: option.split)

lemma blind_process_ready [blind_intros]: "blind (process_ready_events E chain)"
proof -
  have "process_ready_events E chain (with_record h l c) =
      rbind (process_ready_events E chain c) (\<lambda>c'. Inr (with_record h l c'))" for c h l
  proof (induction E chain c rule: process_ready_events.induct)
    case (1 E chain c)
    show ?case
    proof (cases "get_next_ready_event (ec_fs c) chain")
      case (Inl e)
      then show ?thesis by (simp add: process_ready_events.simps [of E chain])
    next
      case (Inr ready)
      show ?thesis
      proof (cases ready)
        case None
        with Inr show ?thesis by (simp add: process_ready_events.simps [of E chain])
      next
        case (Some i)
        show ?thesis
        proof (cases "remove_event chain i c")
          case (Inl e)
          with Inr Some show ?thesis
            by (simp add: process_ready_events.simps [of E chain] blind_valueD [OF remove_event_record])
        next
          case (Inr r)
          note removed = this
          show ?thesis
          proof (cases "process_event E chain i (fst r) (snd r)")
            case (Inl e)
            with \<open>get_next_ready_event (ec_fs c) chain = Inr ready\<close> Some removed show ?thesis
              by (simp add: process_ready_events.simps [of E chain] blind_valueD [OF remove_event_record]
                  blindD [OF blind_process_event] case_prod_unfold)
          next
            case (Inr c')
            with "1.IH" [OF \<open>get_next_ready_event (ec_fs c) chain = Inr ready\<close> Some removed Inr]
              \<open>get_next_ready_event (ec_fs c) chain = Inr ready\<close> Some removed
            show ?thesis
              by (simp add: process_ready_events.simps [of E chain] blind_valueD [OF remove_event_record]
                  blindD [OF blind_process_event] case_prod_unfold)
          qed
        qed
      qed
    qed
  qed
  then show ?thesis by (simp add: blind_def)
qed

lemma blind_listener [blind_intros]: "blind (listener E chain event i)"
  by (simp add: blind_def listener_def blindD [OF blind_on_fs] blindD [OF blind_process_ready] rbind_assoc)

lemma add_action_record: "blind_value (add_action E chain action)"
  by (simp add: blind_value_def add_action_def Let_def blindD [OF blind_log_event] rbind_assoc)

lemma blind_add_action_all [blind_intros]: "blind (add_action_all_chains E action)"
proof -
  have "blind (rfold (\<lambda>chain c. rbind (add_action E chain action c) (\<lambda>(_, c'). Inr c')) xs)" for xs
    by (intro blind_rfold blind_value_then add_action_record blind_Inr)
  then show ?thesis by (simp add: blind_def add_action_all_chains_def)
qed

lemma withdraw_record: "blind_value (withdraw_asset E asset chain source wallet amount)"
  by (simp add: blind_value_def withdraw_asset_def blindD [OF blind_on_fs] blind_valueD [OF add_action_record] rbind_assoc
      case_prod_unfold)

lemma blind_bank [blind_intros]: "blind (bank E b)"
proof (cases b)
  case (BankWithdraw asset chain dest amount)
  then show ?thesis by (simp add: blind_def blind_valueD [OF withdraw_record] rbind_assoc case_prod_unfold)
next
  case (BankTransfer asset dest amount)
  then show ?thesis
    by (simp add: blind_def transfer_asset_def burn_asset_def mint_asset_def blindD [OF blind_on_fs] rbind_assoc)
qed

lemma blind_auth [blind_intros]: "blind (auth a)"
  by (cases a) (simp_all add: blind_def auth_def blindD [OF blind_on_fs] rbind_assoc)

lemma blind_check_pending [blind_intros]: "blind (check_pending_proposals E)"
proof -
  have "blind (apply_proposal E p)" for p
    by (cases "pp_payload p")
      (simp_all add: blind_def apply_proposal_def blindD [OF blind_add_action_all] blind_valueD [OF add_action_record]
        rbind_assoc case_prod_unfold)
  then show ?thesis
    by (auto simp: blind_def check_pending_proposals_def blindD [OF blind_log_event] rbind_assoc split: option.split)
qed

lemma blind_admin [blind_intros]: "blind (admin E m)"
  by (cases m)
    (simp_all add: blind_def self_replace_msg_def verify_signer_def propose_def add_admin_proposal_def admin_approve_def Let_def
      blindD [OF blind_add_action_all] blindD [OF blind_check_pending] blindD [OF blind_log_event] rbind_assoc)

section \<open>Replaying a transaction\<close>

text \<open>A step replays: what it loaded is appended to the record, and with that record as prior data it gives the
  same result and leaves the rest of the prior data.\<close>

definition replays :: "data_load_validation \<Rightarrow> (('d, 's) exec_ctx \<Rightarrow> 'd kerr + ('d, 's) exec_ctx) \<Rightarrow> bool" where
  "replays m f \<longleftrightarrow> (\<forall>c c'. ec_handling c = NoPriorData \<longrightarrow> f c = Inr c' \<longrightarrow>
     ec_handling c' = NoPriorData \<and> (\<exists>ls. ec_loads c' = ec_loads c @ ls \<and>
       (\<forall>rest. f (c\<lparr>ec_handling := PriorData (ls @ rest) m\<rparr>) = Inr (c'\<lparr>ec_handling := PriorData rest m\<rparr>))))"

text \<open>What is asked of an application: its messages replay.\<close>

definition app_replays :: "('d, 'm, 's) env \<Rightarrow> data_load_validation \<Rightarrow> bool" where
  "app_replays E m \<longleftrightarrow> (\<forall>msg. replays m (e_app_execute E msg))"

lemma replaysI:
  assumes "\<And>c c'. ec_handling c = NoPriorData \<Longrightarrow> f c = Inr c' \<Longrightarrow>
     \<exists>ls. ec_handling c' = NoPriorData \<and> ec_loads c' = ec_loads c @ ls \<and>
       (\<forall>rest. f (c\<lparr>ec_handling := PriorData (ls @ rest) m\<rparr>) = Inr (c'\<lparr>ec_handling := PriorData rest m\<rparr>))"
  shows "replays m f"
  unfolding replays_def using assms by blast

lemma replaysD:
  "replays m f \<Longrightarrow> ec_handling c = NoPriorData \<Longrightarrow> f c = Inr c' \<Longrightarrow>
     \<exists>ls. ec_handling c' = NoPriorData \<and> ec_loads c' = ec_loads c @ ls \<and>
       (\<forall>rest. f (c\<lparr>ec_handling := PriorData (ls @ rest) m\<rparr>) = Inr (c'\<lparr>ec_handling := PriorData rest m\<rparr>))"
  unfolding replays_def by blast

lemma with_handling: "c\<lparr>ec_handling := h\<rparr> = with_record h (ec_loads c) c"
  by (simp add: with_record_def)

lemma blind_frame:
  assumes "blind f" "f c = Inr c'"
  shows "ec_handling c' = ec_handling c \<and> ec_loads c' = ec_loads c"
proof -
  have "f c = rbind (f c) (\<lambda>c'. Inr (with_record (ec_handling c) (ec_loads c) c'))"
    using blindD [OF assms(1), of "ec_handling c" "ec_loads c" c] by simp
  then have "c' = with_record (ec_handling c) (ec_loads c) c'" by (simp add: assms(2))
  then show ?thesis by (metis with_record_simps(9,10))
qed

lemma blind_replays:
  assumes "blind f"
  shows "replays m f"
proof (rule replaysI)
  fix c c'
  assume "ec_handling c = NoPriorData" "f c = Inr c'"
  then show "\<exists>ls. ec_handling c' = NoPriorData \<and> ec_loads c' = ec_loads c @ ls \<and>
      (\<forall>rest. f (c\<lparr>ec_handling := PriorData (ls @ rest) m\<rparr>) = Inr (c'\<lparr>ec_handling := PriorData rest m\<rparr>))"
    using blind_frame [OF assms] by (intro exI [of _ "[]"]) (simp add: with_handling blindD [OF assms])
qed

lemma replays_then:
  assumes "replays m f" "replays m g"
  shows "replays m (\<lambda>c. rbind (f c) g)"
proof (rule replaysI)
  fix c c2
  assume c: "ec_handling c = NoPriorData" "rbind (f c) g = Inr c2"
  then obtain c1 where c1: "f c = Inr c1" "g c1 = Inr c2" by (auto simp: rbind_Inr_iff)
  from replaysD [OF assms(1) c(1) c1(1)] obtain ls where ls: "ec_handling c1 = NoPriorData" "ec_loads c1 = ec_loads c @ ls"
    "\<And>rest. f (c\<lparr>ec_handling := PriorData (ls @ rest) m\<rparr>) = Inr (c1\<lparr>ec_handling := PriorData rest m\<rparr>)"
    by blast
  from replaysD [OF assms(2) ls(1) c1(2)] obtain ls2 where ls2: "ec_handling c2 = NoPriorData" "ec_loads c2 = ec_loads c1 @ ls2"
    "\<And>rest. g (c1\<lparr>ec_handling := PriorData (ls2 @ rest) m\<rparr>) = Inr (c2\<lparr>ec_handling := PriorData rest m\<rparr>)"
    by blast
  show "\<exists>ls. ec_handling c2 = NoPriorData \<and> ec_loads c2 = ec_loads c @ ls \<and>
      (\<forall>rest. rbind (f (c\<lparr>ec_handling := PriorData (ls @ rest) m\<rparr>)) g = Inr (c2\<lparr>ec_handling := PriorData rest m\<rparr>))"
    by (rule exI [of _ "ls @ ls2"]) (simp add: ls ls2)
qed

lemma replays_rfold: "(\<And>x. replays m (f x)) \<Longrightarrow> replays m (rfold f xs)"
proof (induction xs)
  case Nil
  have "rfold f [] = Inr" by (intro ext) simp
  then show ?case using blind_replays [OF blind_Inr] by metis
next
  case (Cons x xs)
  have "rfold f (x # xs) = (\<lambda>c. rbind (f x c) (rfold f xs))" by (intro ext) simp
  with Cons show ?case using replays_then by metis
qed

lemma blind_message:
  assumes "\<nexists>a. msg = MsgApp a"
  shows "blind (execute_message E msg)"
  using assms
  by (cases msg)
    (simp_all add: blind_def rbind_assoc blindD [OF blind_listener] blindD [OF blind_on_fs] blindD [OF blind_bank]
      blindD [OF blind_auth] blindD [OF blind_admin])

lemma message_replays:
  assumes "app_replays E m"
  shows "replays m (execute_message E msg)"
proof (cases "\<exists>a. msg = MsgApp a")
  case True
  then obtain a where "msg = MsgApp a" by blast
  moreover have "execute_message E (MsgApp a) = e_app_execute E a" by (intro ext) simp
  ultimately show ?thesis using assms by (simp add: app_replays_def)
next
  case False
  then show ?thesis by (intro blind_replays blind_message) auto
qed

lemma message_step_replays:
  assumes "app_replays E m"
  shows "replays m (message_step E msg)"
proof -
  have "blind (\<lambda>c. Inr (c\<lparr>ec_logs := ec_logs c @ [[]]\<rparr>))" by (simp add: blind_def)
  from replays_then [OF blind_replays [OF this] message_replays [OF assms]]
  have "replays m (\<lambda>c. rbind (Inr (c\<lparr>ec_logs := ec_logs c @ [[]]\<rparr>)) (execute_message E msg))" .
  moreover have "(\<lambda>c. rbind (Inr (c\<lparr>ec_logs := ec_logs c @ [[]]\<rparr>)) (execute_message E msg)) = message_step E msg"
    by (intro ext) (simp add: message_step_def)
  ultimately show ?thesis by simp
qed

lemma execution_replays:
  assumes app: "app_replays E m" and run: "execute_transaction E k stx timestamp NoPriorData = Inr r"
  shows "execute_transaction E k stx timestamp (PriorData (er_loads r) m) = Inr r"
proof -
  let ?tx = "tj_value (stj_message stx)"
  from run obtain sender A c where c: "fs_version (kr_fs k) = kr_code_version k" "validate_tx E k stx = Inr ()"
    "use_nonce (tx_pubkey ?tx) (tx_nonce ?tx) (fs_accounts (kr_fs k)) = Inr (sender, A)"
    "rfold (message_step E) (tx_messages ?tx) (start_ctx k ?tx timestamp NoPriorData sender A) = Inr c"
    and r: "r = \<lparr>er_fs = ec_fs c, er_app_state = ec_app_state c, er_logs = ec_logs c, er_loads = ec_loads c, er_height = ec_height c\<rparr>"
    by (auto simp: execute_transaction_def result_simps Let_def)
  have "replays m (rfold (message_step E) (tx_messages ?tx))"
    by (intro replays_rfold message_step_replays app)
  from replaysD [OF this _ c(4)] obtain ls where "ec_loads c = ec_loads (start_ctx k ?tx timestamp NoPriorData sender A) @ ls" and again:
    "\<And>rest. rfold (message_step E) (tx_messages ?tx)
      ((start_ctx k ?tx timestamp NoPriorData sender A)\<lparr>ec_handling := PriorData (ls @ rest) m\<rparr>) =
      Inr (c\<lparr>ec_handling := PriorData rest m\<rparr>)"
    by (auto simp: start_ctx_def)
  then have "ec_loads c = ls" by (simp add: start_ctx_def)
  moreover have "(start_ctx k ?tx timestamp NoPriorData sender A)\<lparr>ec_handling := PriorData ls m\<rparr> =
      start_ctx k ?tx timestamp (PriorData ls m) sender A"
    by (simp add: start_ctx_def)
  ultimately show ?thesis
    using again [of "[]"] c(1-3) by (simp add: execute_transaction_def Let_def loads_used_def r)
qed

text \<open>An application that loads data through the framework, with requests that print and parse back, replays.\<close>

lemma load_replays:
  fixes g :: "'r \<Rightarrow> ('d, 's) exec_ctx \<Rightarrow> 'd kerr + ('d, 's) exec_ctx"
  assumes laws: "request_laws Q" "validation_accepts Q m" and rest: "\<And>r. replays m (g r)"
  shows "replays m (\<lambda>c. rbind (load_data Q q c) (\<lambda>(r, c'). g r c'))"
proof (rule replaysI)
  fix c c2 :: "('d, 's) exec_ctx"
  assume c: "ec_handling c = NoPriorData" "rbind (load_data Q q c) (\<lambda>(r, c'). g r c') = Inr c2"
  then obtain r c1 where c1: "load_data Q q c = Inr (r, c1)" "g r c1 = Inr c2" by (auto simp: rbind_Inr_iff)
  from load_data_replay [OF laws c(1) c1(1)] obtain l where
    l: "c1 = c\<lparr>ec_handling := NoPriorData, ec_loads := ec_loads c @ [l]\<rparr>"
    "\<And>(d :: ('d, 's) exec_ctx) ls. ec_handling d = PriorData (l # ls) m \<Longrightarrow>
       load_data Q q d = Inr (r, d\<lparr>ec_handling := PriorData ls m, ec_loads := ec_loads d @ [l]\<rparr>)"
    by blast
  from replaysD [OF rest [of r] _ c1(2)] l(1) obtain ls where
    ls: "ec_handling c2 = NoPriorData" "ec_loads c2 = ec_loads c1 @ ls"
    "\<And>rest. g r (c1\<lparr>ec_handling := PriorData (ls @ rest) m\<rparr>) = Inr (c2\<lparr>ec_handling := PriorData rest m\<rparr>)"
    by auto
  have "load_data Q q (c\<lparr>ec_handling := PriorData (l # ls') m\<rparr>) = Inr (r, c1\<lparr>ec_handling := PriorData ls' m\<rparr>)" for ls'
    using l(2) [of "c\<lparr>ec_handling := PriorData (l # ls') m\<rparr>" ls'] by (simp add: l(1))
  with ls show "\<exists>ls. ec_handling c2 = NoPriorData \<and> ec_loads c2 = ec_loads c @ ls \<and>
      (\<forall>rest. rbind (load_data Q q (c\<lparr>ec_handling := PriorData (ls @ rest) m\<rparr>)) (\<lambda>(r, c'). g r c') =
        Inr (c2\<lparr>ec_handling := PriorData rest m\<rparr>))"
    by (intro exI [of _ "l # ls"]) (simp add: l(1))
qed


definition oracle_env :: "(int, unit, unit) env" where
  "oracle_env = sample_env\<lparr>e_app_execute :=
     (\<lambda>_ c. rbind (load_data sample_requests CHR ''a'' c) (\<lambda>(r, c'). ctx_log [r] c'))\<rparr>"

definition oracle_tx :: "(int, unit) signed_transaction" where
  "oracle_tx = sign_tx 2 \<lparr>tx_pubkey = PublicKey [2], tx_nonce = 0, tx_created = 0, tx_messages = [MsgApp (), MsgAuth (AddWallet ''w'')],
     tx_max_height = None\<rparr>"

lemma oracle_replays: "app_replays oracle_env ValidateDataLoads"
  unfolding app_replays_def
proof
  fix msg
  have "request_laws sample_requests" by (simp add: request_laws_def sample_requests_def)
  moreover have "validation_accepts sample_requests ValidateDataLoads" by (simp add: validation_accepts_def sample_requests_def)
  ultimately have "replays ValidateDataLoads (\<lambda>c. rbind (load_data sample_requests CHR ''a'' c) (\<lambda>(r, c'). ctx_log [r] c'))"
    by (rule load_replays) (intro blind_replays blind_log)
  then show "replays ValidateDataLoads (e_app_execute oracle_env msg)" by (simp add: oracle_env_def)
qed

lemma oracle_load:
  "ec_handling c = NoPriorData \<Longrightarrow> load_data sample_requests CHR ''a'' c =
     Inr (CHR ''x'', c\<lparr>ec_handling := NoPriorData, ec_loads := ec_loads c @ [\<lparr>bl_request = ''a'', bl_response = ''x''\<rparr>]\<rparr>)"
  by (simp add: load_data_def sample_requests_def)

lemma oracle_runs: "is_ok (execute_transaction oracle_env sample_read oracle_tx 0 NoPriorData)"
  by (simp add: exec_defs sample_defs oracle_tx_def oracle_env_def oracle_load ctx_log_def)


end
