(* ===== verification/Chain_Props.thy ===== *)
theory Chain_Props
  imports Chain Execution_Props
begin

text \<open>
  What a node guarantees about its chain.  \<open>valid_chain\<close> is the specification: a list of blocks,
  each of which passed \<open>add_block\<close>'s checks in the state its predecessors lead to and carries the
  hashes of the states it leads to.  The lemmas of the locale \<open>node_store\<close> show that adding a
  block extends such a chain by one block or changes nothing, on any store that keeps the contract.
\<close>

lemma storable_simps [simp]:
  "sb_height (storable b) = block_height b" "sb_blockhash (storable b) = block_hash b"
  "sb_txhash (storable b) = tx_hash (block_tx b)" "sb_block (storable b) = b"
  by (simp_all add: storable_def)

section \<open>Archiving ends\<close>

context node_store
begin

lemma archive_loop_stops:
  "holds s f \<Longrightarrow> f (h + of_nat n) = None \<Longrightarrow> \<forall>i < n. f (h + of_nat i) \<noteq> None \<Longrightarrow>
    \<exists>s'. archive_loop S L h s = Some (Inr (h + of_nat n), s') \<and> holds s' f \<and> view (ks_inner s') = view (ks_inner s) \<and>
      archived (ks_inner s') = (if n = 0 then archived (ks_inner s) else Some (h + of_nat n - 1))"
proof (induction n arbitrary: h s)
  case 0
  then show ?case by (subst archive_loop.simps) (simp add: ks_knows_block)
next
  case (Suc n)
  let ?s = "ks_archive S h s"
  have here: "ks_has_block S L s h = Inr True" using ks_knows_block [OF Suc.prems(1)] Suc.prems(3) by fastforce
  have a: "holds ?s f" "view (ks_inner ?s) = view (ks_inner s)" "archived (ks_inner ?s) = Some h"
    using ks_archives [OF Suc.prems(1)] by auto
  have "f (height_next h + of_nat n) = None" using Suc.prems(2) by (simp add: height_next_def add.assoc)
  moreover have "\<forall>i < n. f (height_next h + of_nat i) \<noteq> None"
  proof (intro allI impI)
    fix i assume "i < n"
    then have "f (h + of_nat (Suc i)) \<noteq> None" using Suc.prems(3) by (meson Suc_mono)
    then show "f (height_next h + of_nat i) \<noteq> None" by (simp add: height_next_def add.assoc)
  qed
  ultimately obtain s' where s': "archive_loop S L (height_next h) ?s = Some (Inr (height_next h + of_nat n), s')"
      "holds s' f" "view (ks_inner s') = view (ks_inner ?s)"
      "archived (ks_inner s') = (if n = 0 then archived (ks_inner ?s) else Some (height_next h + of_nat n - 1))"
    using Suc.IH [OF a(1)] by blast
  have "archive_loop S L h s = archive_loop S L (height_next h) ?s"
    by (subst archive_loop.simps) (simp add: here)
  then show ?case using s' a by (auto simp: height_next_def add.assoc)
qed

text \<open>The first height not in the table, counting on from \<open>h\<close>.\<close>

lemma first_gap:
  fixes f :: "u64 \<Rightarrow> 'x option" and h :: u64
  assumes "f g = None"
  shows "\<exists>n. f (h + of_nat n) = None \<and> (\<forall>i < n. f (h + of_nat i) \<noteq> None)"
proof -
  have "f (h + of_nat (unat (g - h))) = None" using assms by simp
  then show ?thesis using exists_least_iff [of "\<lambda>n. f (h + of_nat n) = None"] by blast
qed

lemma next_to_archive:
  assumes "holds s f" "f g = None"
  shows "\<exists>h s'. get_next_to_archive S L s = Some (Inr h, s') \<and> f h = None \<and> holds s' f \<and>
    view (ks_inner s') = view (ks_inner s)"
proof -
  let ?start = "case archived (ks_inner s) of None \<Rightarrow> 0 | Some h \<Rightarrow> height_next h"
  obtain n where n: "f (?start + of_nat n) = None" "\<forall>i < n. f (?start + of_nat i) \<noteq> None"
    using first_gap [of f g ?start, OF assms(2)] by blast
  then show ?thesis
    using archive_loop_stops [OF assms(1) n] ks_reads_archived [OF assms(1)]
    by (auto simp: get_next_to_archive_def)
qed

end

section \<open>Chains\<close>

definition commits :: "('d, 'm, 's, 'st, 'c, 'ct, 'cb) kenv \<Rightarrow> contents set \<Rightarrow> ('d, 'm, 's) executed_block \<Rightarrow> bool" where
  "commits K C xb \<longleftrightarrow> (let b = stj_inner (xb_signed_block xb) in
     (\<exists>c \<in> C. serialize (kx_enc_fs K) (xb_fs xb) = Inr c \<and> contents_hash (kx_sha K) c = bk_framework_state b) \<and>
     (\<exists>c \<in> C. serialize (kx_enc_app K) (xb_app_state xb) = Inr c \<and> contents_hash (kx_sha K) c = bk_app_state b) \<and>
     (\<exists>c \<in> C. serialize ser_logs (xb_logs xb) = Inr c \<and> contents_hash (kx_sha K) c = bk_logs b))"

definition state_after :: "('d, 'm, 's) executed_block \<Rightarrow> ('d, 's) block_state" where
  "state_after xb = \<lparr>bs_blockhash = block_hash (xb_signed_block xb), bs_fs = xb_fs xb, bs_app_state = xb_app_state xb\<rparr>"

inductive valid_chain ::
  "('d, 'm, 's, 'st, 'c, 'ct, 'cb) kenv \<Rightarrow> contents set \<Rightarrow> ('d, 'm) signed_block list \<Rightarrow> ('d, 's) block_state \<Rightarrow> bool"
  for K C where
  chain_start: "genesis_state K = Inr st \<Longrightarrow> valid_chain K C [] st"
| chain_block: "valid_chain K C bs st \<Longrightarrow> check_block K (of_nat (length bs)) st b v = Inr xb \<Longrightarrow> commits K C xb \<Longrightarrow>
    valid_chain K C (bs @ [b]) (state_after xb)"

lemma valid_chain_Nil: "valid_chain K C [] st \<longleftrightarrow> genesis_state K = Inr st"
  by (auto intro: chain_start elim: valid_chain.cases)

lemma valid_chain_Nil_hash: "valid_chain K C [] st \<Longrightarrow> bs_blockhash st = genesis_parent (kx_sha K)"
  unfolding valid_chain_Nil genesis_state_def by (auto simp: result_simps)

definition tip :: "('d, 'm) signed_block list \<Rightarrow> ('d, 's) block_state \<Rightarrow> ('d, 'm, 's) maybe_block_info" where
  "tip bs st = (if bs = [] then NoBlock st else SomeBlock (last bs) st)"

lemma check_block_Inr:
  assumes "check_block K h st b v = Inr xb"
  shows "h = block_height b \<and> bs_blockhash st = bk_parent (stj_inner b) \<and>
    state_processor st = bk_processor (stj_inner b) \<and> xb_signed_block xb = b \<and>
    e_recover (kx_env K) (tj_as_bytes (stj_message b)) (stj_signature b) (stj_recovery_id b) = Some (state_processor st) \<and>
    (\<forall>m. tx_max_height (stj_inner (block_tx b)) = Some m \<longrightarrow> block_height b \<le> m) \<and>
    (\<exists>r. execute_transaction (kx_env K) (km_read K h st) (block_tx b) (bk_timestamp (stj_inner b))
        (PriorData (bk_loads (stj_inner b)) v) = Inr r \<and>
      xb = \<lparr>xb_signed_block = b, xb_fs = er_fs r, xb_app_state = er_app_state r, xb_logs = er_logs r\<rparr>)"
  using assms
  by (auto simp: check_block_def Let_def result_simps validate_block_signature_def stj_verify_signature_def
      block_tx_def not_less split: option.splits)

lemma mbi_state_tip [simp]: "mbi_state (tip bs st) = st"
  by (simp add: tip_def)

lemma valid_chain_last:
  "valid_chain K C bs st \<Longrightarrow> bs \<noteq> [] \<Longrightarrow> block_height (last bs) = of_nat (length bs - 1) \<and> bs_blockhash st = block_hash (last bs)"
  by (induction rule: valid_chain.induct) (auto simp: state_after_def dest: check_block_Inr)

section \<open>Adding a block\<close>

text \<open>The world of contents holds whatever a block's states serialize to.\<close>

definition covers :: "('d, 'm, 's, 'st, 'c, 'ct, 'cb) kenv \<Rightarrow> contents set \<Rightarrow> ('d, 'm, 's) executed_block \<Rightarrow> bool" where
  "covers K C xb \<longleftrightarrow>
     (\<forall>c. serialize (kx_enc_fs K) (xb_fs xb) = Inr c \<longrightarrow> c \<in> C) \<and>
     (\<forall>c. serialize (kx_enc_app K) (xb_app_state xb) = Inr c \<longrightarrow> c \<in> C) \<and>
     (\<forall>c. serialize ser_logs (xb_logs xb) = Inr c \<longrightarrow> c \<in> C)"

definition runs_on ::
  "('d, 'm, 's, 'st, 'c, 'ct, 'cb) kenv \<Rightarrow> (bytes \<Rightarrow> hash) \<Rightarrow> (hash \<Rightarrow> contents option) \<Rightarrow>
    ('st, ('d, 'm) signed_block) store_ops \<Rightarrow> ('c, ('d, 'm) signed_block) block_cache \<Rightarrow> bool" where
  "runs_on K sha cached S L \<longleftrightarrow> kx_sha K = sha \<and> kx_cached K = cached \<and> kx_store K = S \<and> kx_cache K = L"

definition held :: "(bytes \<Rightarrow> hash) \<Rightarrow> contents set \<Rightarrow> (hash \<Rightarrow> layer option) \<Rightarrow> 'a enc \<Rightarrow> 'a \<Rightarrow> hash \<Rightarrow> bool" where
  "held sha C v e x h \<longleftrightarrow> (\<exists>c \<in> C. serialize e x = Inr c \<and> contents_hash sha c = h \<and> present sha v c)"

lemma held_mono: "held sha C v e x h \<Longrightarrow> v \<subseteq>\<^sub>m w \<Longrightarrow> held sha C w e x h"
  unfolding held_def using present_mono by blast

lemma held_stored: "held sha C v e x h \<Longrightarrow> roundtrips C (e x) d x \<Longrightarrow> stored_value sha C v d h x"
  unfolding held_def stored_value_def using deserialize_serialize by metis

definition states_held ::
  "('d, 'm, 's, 'st, 'c, 'ct, 'cb) kenv \<Rightarrow> contents set \<Rightarrow> (hash \<Rightarrow> layer option) \<Rightarrow> ('d, 'm) block \<Rightarrow>
    'd framework_state \<Rightarrow> 's \<Rightarrow> bool" where
  "states_held K C v b fs app \<longleftrightarrow>
     held (kx_sha K) C v (kx_enc_fs K) fs (bk_framework_state b) \<and> held (kx_sha K) C v (kx_enc_app K) app (bk_app_state b)"

text \<open>A node follows a chain: its current block is the last of the chain, and its store holds all of it
  and the states it leads to.\<close>

definition follows ::
  "('d, 'm, 's, 'st, 'c, 'ct, 'cb) kenv \<Rightarrow> contents set \<Rightarrow> (hash \<Rightarrow> layer option) \<Rightarrow>
    ('d, 'm, 's, 'st, 'c, 'ct, 'cb) kolme \<Rightarrow> ('d, 'm) signed_block block_table \<Rightarrow> ('d, 'm) signed_block list \<Rightarrow> bool" where
  "follows K C v k f bs \<longleftrightarrow> valid_chain K C bs (km_state k) \<and> km_current k = tip bs (km_state k) \<and>
     (\<forall>i < length bs. f (of_nat i) = Some (storable (bs ! i))) \<and> length bs < 2 ^ 64 \<and>
     (bs \<noteq> [] \<longrightarrow> states_held K C v (stj_inner (last bs)) (bs_fs (km_state k)) (bs_app_state (km_state k)))"

lemma follows_next: "follows K C v k f bs \<Longrightarrow> km_next_height k = of_nat (length bs)"
  using valid_chain_last [of K C bs "km_state k"]
  by (cases bs rule: rev_cases) (auto simp: follows_def km_next_height_def tip_def height_next_def add.commute)

lemma states_held_mono: "states_held K C v b fs app \<Longrightarrow> v \<subseteq>\<^sub>m w \<Longrightarrow> states_held K C w b fs app"
  by (auto simp: states_held_def intro: held_mono)

text \<open>The contract of a store, for blocks.\<close>

locale chain_node = node_store repr C enc dec B S sha cached view archived L cache_inv cache_size
  for repr :: "'st \<Rightarrow> ('d, 'm) signed_block block_table \<Rightarrow> bool" and C enc dec B S sha cached view archived
    and L :: "('c, ('d, 'm) signed_block) block_cache" and cache_inv cache_size
begin

lemma save_checked_result:
  assumes K: "runs_on K sha cached S L" and s: "holds s f" and c: "\<forall>c. serialize e x = Inr c \<longrightarrow> c \<in> C"
  shows "\<exists>r s'. save_checked K e x h s = (r, s') \<and> holds s' f \<and> view (ks_inner s) \<subseteq>\<^sub>m view (ks_inner s') \<and>
    archived (ks_inner s') = archived (ks_inner s) \<and>
    (r = Inr () \<longleftrightarrow> (\<exists>c \<in> C. serialize e x = Inr c \<and> contents_hash sha c = h)) \<and>
    (r = Inr () \<longrightarrow> held sha C (view (ks_inner s')) e x h)"
proof (cases "serialize e x")
  case (Inl err)
  then have "ks_save sha S e x s = Inl err" by (simp add: ks_save_def save_value_def)
  then show ?thesis using K s Inl by (simp add: save_checked_def runs_on_def)
next
  case (Inr d)
  then have "d \<in> C" using c by blast
  then obtain s' where "ks_save sha S e x s = Inr (contents_hash sha d, s')" "holds s' f"
      "view (ks_inner s) \<subseteq>\<^sub>m view (ks_inner s')" "present sha (view (ks_inner s')) d"
      "archived (ks_inner s') = archived (ks_inner s)"
    using ks_saves [OF s Inr] by blast
  then show ?thesis
    using K Inr \<open>d \<in> C\<close> by (auto simp: save_checked_def runs_on_def ensure_def held_def)
qed

lemma save_states_result:
  assumes K: "runs_on K sha cached S L" and s: "holds s f" and c: "covers K C xb"
  shows "\<exists>r s'. save_states K xb s = (r, s') \<and> holds s' f \<and> view (ks_inner s) \<subseteq>\<^sub>m view (ks_inner s') \<and>
    archived (ks_inner s') = archived (ks_inner s) \<and> (r = Inr () \<longleftrightarrow> commits K C xb) \<and>
    (r = Inr () \<longrightarrow> states_held K C (view (ks_inner s')) (stj_inner (xb_signed_block xb)) (xb_fs xb) (xb_app_state xb))"
proof -
  let ?b = "stj_inner (xb_signed_block xb)"
  have sha: "kx_sha K = sha" using K by (simp add: runs_on_def)
  have cf: "\<forall>c. serialize (kx_enc_fs K) (xb_fs xb) = Inr c \<longrightarrow> c \<in> C"
    and ca: "\<forall>c. serialize (kx_enc_app K) (xb_app_state xb) = Inr c \<longrightarrow> c \<in> C"
    and cl: "\<forall>c. serialize ser_logs (xb_logs xb) = Inr c \<longrightarrow> c \<in> C"
    using c by (simp_all add: covers_def)
  obtain r1 s1 where 1: "save_checked K (kx_enc_fs K) (xb_fs xb) (bk_framework_state ?b) s = (r1, s1)" "holds s1 f"
      "view (ks_inner s) \<subseteq>\<^sub>m view (ks_inner s1)" "archived (ks_inner s1) = archived (ks_inner s)"
      "r1 = Inr () \<longleftrightarrow> (\<exists>c \<in> C. serialize (kx_enc_fs K) (xb_fs xb) = Inr c \<and> contents_hash sha c = bk_framework_state ?b)"
      "r1 = Inr () \<longrightarrow> held sha C (view (ks_inner s1)) (kx_enc_fs K) (xb_fs xb) (bk_framework_state ?b)"
    using save_checked_result [OF K s cf, where h = "bk_framework_state ?b"] by blast
  obtain r2 s2 where 2: "save_checked K (kx_enc_app K) (xb_app_state xb) (bk_app_state ?b) s1 = (r2, s2)" "holds s2 f"
      "view (ks_inner s1) \<subseteq>\<^sub>m view (ks_inner s2)" "archived (ks_inner s2) = archived (ks_inner s1)"
      "r2 = Inr () \<longleftrightarrow> (\<exists>c \<in> C. serialize (kx_enc_app K) (xb_app_state xb) = Inr c \<and> contents_hash sha c = bk_app_state ?b)"
      "r2 = Inr () \<longrightarrow> held sha C (view (ks_inner s2)) (kx_enc_app K) (xb_app_state xb) (bk_app_state ?b)"
    using save_checked_result [OF K 1(2) ca, where h = "bk_app_state ?b"] by blast
  obtain r3 s3 where 3: "save_checked K ser_logs (xb_logs xb) (bk_logs ?b) s2 = (r3, s3)" "holds s3 f"
      "view (ks_inner s2) \<subseteq>\<^sub>m view (ks_inner s3)" "archived (ks_inner s3) = archived (ks_inner s2)"
      "r3 = Inr () \<longleftrightarrow> (\<exists>c \<in> C. serialize ser_logs (xb_logs xb) = Inr c \<and> contents_hash sha c = bk_logs ?b)"
    using save_checked_result [OF K 2(2) cl, where h = "bk_logs ?b"] by blast
  have com: "commits K C xb \<longleftrightarrow> r1 = Inr () \<and> r2 = Inr () \<and> r3 = Inr ()"
    by (simp add: commits_def Let_def sha 1(5) 2(5) 3(5))
  show ?thesis
  proof (cases r1)
    case (Inl e)
    then show ?thesis using 1(1-4) com by (simp add: save_states_def Let_def)
  next
    case i1: (Inr u)
    show ?thesis
    proof (cases r2)
      case (Inl e)
      then show ?thesis
        using 1(1) i1 2(1-4) 1(3,4) com by (auto simp: save_states_def Let_def intro: map_le_trans)
    next
      case i2: (Inr w)
      have "held sha C (view (ks_inner s3)) (kx_enc_fs K) (xb_fs xb) (bk_framework_state ?b)"
        using 1(6) i1 held_mono map_le_trans [OF 2(3) 3(3)] by fastforce
      moreover have "held sha C (view (ks_inner s3)) (kx_enc_app K) (xb_app_state xb) (bk_app_state ?b)"
        using 2(6) i2 held_mono 3(3) by fastforce
      moreover have "view (ks_inner s) \<subseteq>\<^sub>m view (ks_inner s3)"
        using map_le_trans [OF 1(3) map_le_trans [OF 2(3) 3(3)]] .
      ultimately show ?thesis
        using 1(1,4) i1 2(1,4) i2 3(1,2,4) com sha by (auto simp: save_states_def Let_def states_held_def)
    qed
  qed
qed

text \<open>Adding an executed block: it lands exactly if it carries the hashes of its states and no other
  block is stored at its height.\<close>

lemma add_executed_result:
  assumes K: "runs_on K sha cached S L" and s: "holds (km_store k) f" and c: "covers K C xb"
    and b: "storable_ok C enc dec B (storable (xb_signed_block xb))"
    and once: "txs_once (insert (storable (xb_signed_block xb)) (ran f))"
    and gap: "f g = None" "g \<noteq> block_height (xb_signed_block xb)"
    and now: "km_next_height k = block_height (xb_signed_block xb)" "block_height (xb_signed_block xb) + 1 \<noteq> 0"
  shows "\<exists>r k'. add_executed_block K xb k = Some (r, k') \<and> view (ks_inner (km_store k)) \<subseteq>\<^sub>m view (ks_inner (km_store k')) \<and>
    (if commits K C xb \<and> f (block_height (xb_signed_block xb)) \<in> {None, Some (storable (xb_signed_block xb))}
     then r = Inr () \<and> holds (km_store k') (f(block_height (xb_signed_block xb) \<mapsto> storable (xb_signed_block xb))) \<and>
       km_current k' = SomeBlock (xb_signed_block xb) (state_after xb) \<and>
       states_held K C (view (ks_inner (km_store k'))) (stj_inner (xb_signed_block xb)) (xb_fs xb) (xb_app_state xb)
     else (\<exists>e. r = Inl e) \<and> holds (km_store k') f \<and> km_current k' = km_current k)"
proof -
  let ?b = "xb_signed_block xb"
  let ?h = "block_height ?b"
  have KS: "kx_store K = S" "kx_cache K = L" using K by (simp_all add: runs_on_def)
  obtain r1 s1 where 1: "save_states K xb (km_store k) = (r1, s1)" "holds s1 f"
      "view (ks_inner (km_store k)) \<subseteq>\<^sub>m view (ks_inner s1)" "r1 = Inr () \<longleftrightarrow> commits K C xb"
      "r1 = Inr () \<longrightarrow> states_held K C (view (ks_inner s1)) (stj_inner ?b) (xb_fs xb) (xb_app_state xb)"
    using save_states_result [OF K s c] by blast
  show ?thesis
  proof (cases r1)
    case (Inl e)
    then show ?thesis using 1 by (auto simp: add_executed_block_def Let_def)
  next
    case r1: (Inr u)
    obtain r2 s2 where 2: "ks_add_block S L (storable ?b) s1 = (r2, s2)"
        "view (ks_inner s1) \<subseteq>\<^sub>m view (ks_inner s2)"
        "if f ?h \<in> {None, Some (storable ?b)} then r2 = Inr () \<and> holds s2 (f(?h \<mapsto> storable ?b))
         else (\<exists>h x y. r2 = Inl (ConflictingBlockInDb h x y)) \<and> holds s2 f"
      using ks_adds [OF 1(2) b once] unfolding storable_simps by blast
    have v: "view (ks_inner (km_store k)) \<subseteq>\<^sub>m view (ks_inner s2)" by (rule map_le_trans [OF 1(3) 2(2)])
    show ?thesis
    proof (cases "f ?h \<in> {None, Some (storable ?b)}")
      case False
      then show ?thesis using 1(1,4) r1 2 v KS by (auto simp: add_executed_block_def Let_def)
    next
      case True
      then have r2: "r2 = Inr ()" and h2: "holds s2 (f(?h \<mapsto> storable ?b))" using 2(3) by simp_all
      have "(f(?h \<mapsto> storable ?b)) g = None" using gap by simp
      then obtain h s3 where 3: "get_next_to_archive S L s2 = Some (Inr h, s3)" "(f(?h \<mapsto> storable ?b)) h = None"
          "holds s3 (f(?h \<mapsto> storable ?b))" "view (ks_inner s3) = view (ks_inner s2)"
        using next_to_archive [OF h2] by blast
      have nh: "km_next_height (land_block K ?b (k\<lparr>km_store := s2\<rparr>)) = ?h"
        using now(1) by (simp add: land_block_def km_next_height_def)
      have "h \<noteq> ?h" using 3(2) by auto
      then have "add_executed_block K xb k = Some (Inr (), (land_block K ?b (k\<lparr>km_store := s2\<rparr>))
          \<lparr>km_current := SomeBlock ?b (state_after xb), km_store := s3\<rparr>)"
        using 1(1) r1 2(1) r2 3(1) nh KS by (simp add: add_executed_block_def Let_def state_after_def)
      moreover have "states_held K C (view (ks_inner s3)) (stj_inner ?b) (xb_fs xb) (xb_app_state xb)"
        using 1(5) r1 states_held_mono 2(2) 3(4) by fastforce
      ultimately show ?thesis using True 1(4) r1 3(3,4) v by (auto simp: land_block_def)
    qed
  qed
qed

lemma add_block_result:
  assumes K: "runs_on K sha cached S L" and s: "holds (km_store k) f"
    and fl: "follows K C (view (ks_inner (km_store k))) k f bs" and room: "Suc (length bs) < 2 ^ 64"
    and c: "\<And>xb. check_block K (of_nat (length bs)) (km_state k) b v = Inr xb \<Longrightarrow> covers K C xb"
    and b: "storable_ok C enc dec B (storable b)" and once: "txs_once (insert (storable b) (ran f))"
    and gap: "f g = None" "g \<noteq> block_height b"
  shows "\<exists>r k'. add_block_with K b v k = Some (r, k') \<and>
    (case check_block K (of_nat (length bs)) (km_state k) b v of
       Inr xb \<Rightarrow>
         if commits K C xb \<and> f (block_height b) \<in> {None, Some (storable b)}
         then r = Inr () \<and> holds (km_store k') (f(block_height b \<mapsto> storable b)) \<and>
           km_current k' = SomeBlock b (state_after xb) \<and>
           follows K C (view (ks_inner (km_store k'))) k' (f(block_height b \<mapsto> storable b)) (bs @ [b])
         else (\<exists>e. r = Inl e) \<and> holds (km_store k') f \<and> km_current k' = km_current k \<and>
           follows K C (view (ks_inner (km_store k'))) k' f bs
     | Inl e \<Rightarrow> r = Inl (CeKolme e) \<and> k' = k)"
proof -
  have next_h: "km_next_height k = of_nat (length bs)" by (rule follows_next [OF fl])
  show ?thesis
  proof (cases "check_block K (of_nat (length bs)) (km_state k) b v")
    case (Inl e)
    then show ?thesis by (simp add: add_block_with_def next_h)
  next
    case (Inr xb)
    note ck = check_block_Inr [OF Inr]
    then have xb: "xb_signed_block xb = b" and h: "block_height b = of_nat (length bs)" by simp_all
    have "block_height b + 1 = of_nat (Suc (length bs))" using h by (simp add: add.commute)
    moreover have "unat (of_nat (Suc (length bs)) :: u64) = Suc (length bs)" using room by (intro unat_of_nat_small) simp
    ultimately have nz: "block_height b + 1 \<noteq> 0" by (metis nat.distinct(1) unat_eq_0)
    obtain r k' where r: "add_executed_block K xb k = Some (r, k')"
        "view (ks_inner (km_store k)) \<subseteq>\<^sub>m view (ks_inner (km_store k'))"
        "if commits K C xb \<and> f (block_height b) \<in> {None, Some (storable b)}
         then r = Inr () \<and> holds (km_store k') (f(block_height b \<mapsto> storable b)) \<and>
           km_current k' = SomeBlock b (state_after xb) \<and>
           states_held K C (view (ks_inner (km_store k'))) (stj_inner b) (xb_fs xb) (xb_app_state xb)
         else (\<exists>e. r = Inl e) \<and> holds (km_store k') f \<and> km_current k' = km_current k"
      using add_executed_result [OF K s c [OF Inr], unfolded xb, OF b once gap] next_h h nz by auto
    show ?thesis
    proof (cases "commits K C xb \<and> f (block_height b) \<in> {None, Some (storable b)}")
      case True
      then have cur: "km_current k' = SomeBlock b (state_after xb)" and st: "states_held K C
          (view (ks_inner (km_store k'))) (stj_inner b) (xb_fs xb) (xb_app_state xb)" using r(3) by simp_all
      have kst: "km_state k' = state_after xb" using cur by (simp add: km_state_def)
      have vc: "valid_chain K C (bs @ [b]) (state_after xb)"
        by (rule chain_block [OF _ Inr]) (use fl True in \<open>simp_all add: follows_def\<close>)
      have "(f(block_height b \<mapsto> storable b)) (of_nat i) = Some (storable ((bs @ [b]) ! i))" if "i < length (bs @ [b])" for i
      proof (cases "i = length bs")
        case False
        then have "i < length bs" using that by simp
        moreover from this have "of_nat i \<noteq> (of_nat (length bs) :: u64)"
          using fl by (auto simp: follows_def word_of_nat_eq_iff take_bit_nat_eq_self)
        ultimately show ?thesis using fl h by (simp add: follows_def nth_append)
      qed (simp add: h)
      then have "follows K C (view (ks_inner (km_store k'))) k' (f(block_height b \<mapsto> storable b)) (bs @ [b])"
        using vc cur st room by (simp add: follows_def kst tip_def state_after_def)
      then show ?thesis using r(1,3) True by (simp add: add_block_with_def next_h Inr)
    next
      case False
      then have "km_state k' = km_state k" using r(3) by (auto simp: km_state_def)
      then have "follows K C (view (ks_inner (km_store k'))) k' f bs"
        using fl r(2,3) False states_held_mono unfolding follows_def by (metis (no_types, lifting))
      then show ?thesis using r(1,3) False by (auto simp: add_block_with_def next_h Inr)
    qed
  qed
qed

end


section \<open>Agreement\<close>

definition block_text :: "('d, 'm) signed_block \<Rightarrow> string" where
  "block_text b = tj_serialized (stj_message b)"

text \<open>Blocks as a parser yields them.\<close>

definition parsed_blocks ::
  "(bytes \<Rightarrow> hash) \<Rightarrow> (string \<Rightarrow> ('d, 'm) block option) \<Rightarrow> ('d, 'm) signed_block set \<Rightarrow> bool" where
  "parsed_blocks sha of_json X \<longleftrightarrow> of_json ''genesis parent'' = None \<and>
     (\<forall>b \<in> X. tj_try_from_string sha of_json (block_text b) = Some (stj_message b)) \<and>
     inj_on (\<lambda>t. sha (str_bytes t)) (insert ''genesis parent'' (block_text ` X))"

lemma parsed_hash:
  assumes "parsed_blocks sha of_json X" "b \<in> X"
  shows "block_hash b = sha (str_bytes (block_text b))" "block_text b \<noteq> ''genesis parent''"
proof -
  have t: "tj_try_from_string sha of_json (block_text b) = Some (stj_message b)"
    using assms unfolding parsed_blocks_def by blast
  then have "tj_hash (stj_message b) = sha (str_bytes (block_text b))"
    by (auto simp: tj_try_from_string_def split: option.splits dest: sym)
  then show "block_hash b = sha (str_bytes (block_text b))" by (simp add: block_hash_def message_hash_def)
  show "block_text b \<noteq> ''genesis parent''"
  proof
    assume "block_text b = ''genesis parent''"
    then show False using t assms(1) by (simp add: tj_try_from_string_def parsed_blocks_def)
  qed
qed

lemma parsed_same_hash:
  assumes "parsed_blocks sha of_json X" "b \<in> X" "b' \<in> X" "block_hash b = block_hash b'"
  shows "stj_message b = stj_message b'"
proof -
  have "sha (str_bytes (block_text b)) = sha (str_bytes (block_text b'))"
    using parsed_hash(1) [OF assms(1)] assms(2-4) by metis
  then have "block_text b = block_text b'"
    using assms(1-3) unfolding parsed_blocks_def by (meson imageI inj_onD insertI2)
  then show ?thesis using assms(1-3) unfolding parsed_blocks_def by (metis option.inject)
qed

lemma valid_chain_parent:
  "valid_chain K C (bs @ [b]) st \<Longrightarrow> \<exists>st0 v xb. valid_chain K C bs st0 \<and>
     check_block K (of_nat (length bs)) st0 b v = Inr xb \<and> commits K C xb \<and> st = state_after xb"
  by (erule valid_chain.cases) auto

lemma same_tip_messages:
  assumes sha: "kx_sha K = sha" "kx_sha K' = sha"
  shows "valid_chain K C bs st \<Longrightarrow> valid_chain K' C' bs' st' \<Longrightarrow> bs_blockhash st = bs_blockhash st' \<Longrightarrow>
    parsed_blocks sha of_json (set bs \<union> set bs') \<Longrightarrow> length bs < 2 ^ 64 \<Longrightarrow> length bs' < 2 ^ 64 \<Longrightarrow>
    map stj_message bs = map stj_message bs'"
proof (induction bs arbitrary: st bs' st' rule: rev_induct)
  case Nil
  show ?case
  proof (cases bs' rule: rev_cases)
    case (snoc xs b')
    then have "bs_blockhash st' = block_hash b'" using valid_chain_last [OF Nil.prems(2)] by simp
    moreover have "bs_blockhash st = genesis_parent sha"
      using valid_chain_Nil_hash [OF Nil.prems(1)] sha(1) by simp
    ultimately have "sha (str_bytes ''genesis parent'') = sha (str_bytes (block_text b'))"
      using Nil.prems(3) parsed_hash(1) [OF Nil.prems(4), of b'] snoc by (simp add: genesis_parent_def)
    then have "''genesis parent'' = block_text b'"
      using Nil.prems(4) snoc unfolding parsed_blocks_def by (auto dest: inj_onD)
    then show ?thesis using parsed_hash(2) [OF Nil.prems(4), of b'] snoc by simp
  qed simp
next
  case (snoc b bs)
  have h: "bs_blockhash st = block_hash b" using valid_chain_last [OF snoc.prems(1)] by simp
  show ?case
  proof (cases bs' rule: rev_cases)
    case Nil
    then have "bs_blockhash st' = genesis_parent sha"
      using valid_chain_Nil_hash [of K' C' st'] snoc.prems(2) sha(2) by simp
    then have "sha (str_bytes ''genesis parent'') = sha (str_bytes (block_text b))"
      using snoc.prems(3) h parsed_hash(1) [OF snoc.prems(4), of b] by (simp add: genesis_parent_def)
    then have "''genesis parent'' = block_text b"
      using snoc.prems(4) unfolding parsed_blocks_def by (auto dest: inj_onD)
    then show ?thesis using parsed_hash(2) [OF snoc.prems(4), of b] by simp
  next
    case bs': (snoc xs b')
    have "bs_blockhash st' = block_hash b'" using valid_chain_last [OF snoc.prems(2)] bs' by simp
    then have m: "stj_message b = stj_message b'"
      using h snoc.prems(3) bs' by (intro parsed_same_hash [OF snoc.prems(4)]) simp_all
    obtain st0 v xb where 1: "valid_chain K C bs st0" "check_block K (of_nat (length bs)) st0 b v = Inr xb"
      using valid_chain_parent [OF snoc.prems(1)] by blast
    obtain st0' v' xb' where 2: "valid_chain K' C' xs st0'" "check_block K' (of_nat (length xs)) st0' b' v' = Inr xb'"
      using valid_chain_parent [of K' C' xs b' st'] snoc.prems(2) bs' by blast
    have "bs_blockhash st0 = bs_blockhash st0'"
      using check_block_Inr [OF 1(2)] check_block_Inr [OF 2(2)] m by (simp add: stj_inner_def)
    moreover have "parsed_blocks sha of_json (set bs \<union> set xs)"
      using snoc.prems(4) bs' unfolding parsed_blocks_def by (auto intro: inj_on_subset)
    ultimately have "map stj_message bs = map stj_message xs"
      using snoc.IH [OF 1(1) 2(1)] snoc.prems(5,6) bs' by simp
    then show ?thesis using m bs' by simp
  qed
qed

definition same_chain_rules ::
  "('d, 'm, 's, 'st, 'c, 'ct, 'cb) kenv \<Rightarrow> ('d, 'm, 's, 'st2, 'c2, 'ct2, 'cb2) kenv \<Rightarrow> bool" where
  "same_chain_rules K K' \<longleftrightarrow> kx_sha K = kx_sha K' \<and> kx_enc_fs K = kx_enc_fs K' \<and> kx_dec_fs K = kx_dec_fs K' \<and>
     kx_enc_app K = kx_enc_app K' \<and> kx_dec_app K = kx_dec_app K' \<and> kx_new_state K = kx_new_state K' \<and>
     e_genesis (kx_env K) = e_genesis (kx_env K')"

definition codable ::
  "('d, 'm, 's, 'st, 'c, 'ct, 'cb) kenv \<Rightarrow> contents set \<Rightarrow> ('d, 's) block_state \<Rightarrow> bool" where
  "codable K C st \<longleftrightarrow> roundtrips C (kx_enc_fs K (bs_fs st)) (kx_dec_fs K) (bs_fs st) \<and>
     roundtrips C (kx_enc_app K (bs_app_state st)) (kx_dec_app K) (bs_app_state st)"

lemma same_tip:
  assumes "valid_chain K C bs st" "valid_chain K' C bs' st'" "bs_blockhash st = bs_blockhash st'"
    and "same_chain_rules K K'" "content_world (kx_sha K) C" "codable K C st" "codable K C st'"
    and "parsed_blocks (kx_sha K) of_json (set bs \<union> set bs')" "length bs < 2 ^ 64" "length bs' < 2 ^ 64"
  shows "map stj_message bs = map stj_message bs' \<and> bs_fs st = bs_fs st' \<and> bs_app_state st = bs_app_state st'"
proof -
  note rules = assms(4) [unfolded same_chain_rules_def]
  have m: "map stj_message bs = map stj_message bs'"
    by (rule same_tip_messages [OF _ _ assms(1,2,3,8,9,10)]) (use rules in simp_all)
  have "bs_fs st = bs_fs st' \<and> bs_app_state st = bs_app_state st'"
  proof (cases bs rule: rev_cases)
    case Nil
    then have "bs' = []" using m by simp
    then have "genesis_state K = Inr st" "genesis_state K' = Inr st'"
      using assms(1,2) Nil by (simp_all add: valid_chain_Nil)
    then show ?thesis using rules by (auto simp: genesis_state_def result_simps)
  next
    case (snoc xs b)
    then obtain xs' b' where bs': "bs' = xs' @ [b']" "stj_message b = stj_message b'"
      using m by (cases bs' rule: rev_cases) auto
    obtain st0 v xb where 1: "check_block K (of_nat (length xs)) st0 b v = Inr xb" "commits K C xb" "st = state_after xb"
      using valid_chain_parent [of K C xs b st] assms(1) snoc by blast
    obtain st0' v' xb' where 2: "check_block K' (of_nat (length xs')) st0' b' v' = Inr xb'" "commits K' C xb'" "st' = state_after xb'"
      using valid_chain_parent [of K' C xs' b' st'] assms(2) bs'(1) by blast
    have b: "xb_signed_block xb = b" "xb_signed_block xb' = b'" "stj_inner b = stj_inner b'"
      using check_block_Inr [OF 1(1)] check_block_Inr [OF 2(1)] bs'(2) by (simp_all add: stj_inner_def)
    obtain c d where c: "c \<in> C" "serialize (kx_enc_fs K) (bs_fs st) = Inr c" "contents_hash (kx_sha K) c = bk_framework_state (stj_inner b)"
      and d: "d \<in> C" "serialize (kx_enc_app K) (bs_app_state st) = Inr d" "contents_hash (kx_sha K) d = bk_app_state (stj_inner b)"
      using 1(2,3) b(1) by (auto simp: commits_def Let_def state_after_def)
    obtain c' d' where c': "c' \<in> C" "serialize (kx_enc_fs K) (bs_fs st') = Inr c'" "contents_hash (kx_sha K) c' = bk_framework_state (stj_inner b)"
      and d': "d' \<in> C" "serialize (kx_enc_app K) (bs_app_state st') = Inr d'" "contents_hash (kx_sha K) d' = bk_app_state (stj_inner b)"
      using 2(2,3) b rules by (auto simp: commits_def Let_def state_after_def)
    have "c = c'" "d = d'"
      using world_inject [OF assms(5) c(1) c'(1)] world_inject [OF assms(5) d(1) d'(1)] c(3) c'(3) d(3) d'(3) by simp_all
    then show ?thesis
      using deserialize_serialize [OF _ c(2,1)] deserialize_serialize [OF _ c'(2,1)]
        deserialize_serialize [OF _ d(2,1)] deserialize_serialize [OF _ d'(2,1)] assms(6,7)
      unfolding codable_def by (metis sum.inject(2))
  qed
  then show ?thesis using m by blast
qed

end
