(* ===== verification/Chain_Load.thy ===== *)
theory Chain_Load
  imports Chain_Props
begin

text \<open>
  A node that starts, resyncs or follows the store: what it finds is what it left, and what state sync
  checks of a block.
\<close>

section \<open>The first block\<close>

lemma valid_chain_first:
  "valid_chain K C bs st \<Longrightarrow> length bs < 2 ^ 64 \<Longrightarrow> bs \<noteq> [] \<Longrightarrow>
    tx_messages (stj_inner (block_tx (hd bs))) = [MsgGenesis (e_genesis (kx_env K))]"
proof (induction rule: valid_chain.induct)
  case (chain_block bs st b v xb)
  show ?case
  proof (cases "bs = []")
    case True
    then have "check_block K 0 st b v = Inr xb" using chain_block.hyps by simp
    then obtain r where "execute_transaction (kx_env K) (km_read K 0 st) (block_tx b) (bk_timestamp (stj_inner b))
        (PriorData (bk_loads (stj_inner b)) v) = Inr r"
      using check_block_Inr by blast
    from first_transaction [OF this refl] show ?thesis using True by (simp add: km_read_def stj_inner_def)
  next
    case False
    then show ?thesis using chain_block by simp
  qed
qed simp

section \<open>Loading states\<close>

lemma good_view_present:
  "content_world sha C \<Longrightarrow> good_view sha C v \<Longrightarrow> c \<in> C \<Longrightarrow> v (contents_hash sha c) \<noteq> None \<Longrightarrow> present sha v c"
proof (induction c)
  case (Contents p cs)
  have l: "v (contents_hash sha (Contents p cs)) = Some (layer_of sha (Contents p cs))"
    using stored_layer Contents.prems by blast
  show ?case
  proof (rule present_layers [of v sha "Contents p cs", OF l])
    fix ch assume "ch \<in> set (c_children (Contents p cs))"
    then have ch: "ch \<in> set cs" by simp
    then have "v (contents_hash sha ch) \<noteq> None"
      using l Contents.prems(2) unfolding good_view_def closed_view_def by (force simp: layer_of_def)
    moreover have "ch \<in> C" using Contents.prems(1,3) ch by (fastforce simp: content_world_def)
    ultimately show "present sha v ch" using Contents.IH [OF ch] Contents.prems(1,2) by blast
  qed
qed

context chain_node
begin

lemma load_states_result:
  assumes K: "runs_on K sha cached S L" and s: "holds s f"
    and st: "states_held K C (view (ks_inner s)) b fs app"
    and ok: "codable K C \<lparr>bs_blockhash = h, bs_fs = fs, bs_app_state = app\<rparr>"
  shows "load_states K s b = Some (Inr (fs, app))"
proof -
  have f: "stored_value sha C (view (ks_inner s)) (kx_dec_fs K) (bk_framework_state b) fs"
    and a: "stored_value sha C (view (ks_inner s)) (kx_dec_app K) (bk_app_state b) app"
    using st ok K by (auto simp: states_held_def codable_def runs_on_def intro: held_stored)
  show ?thesis
    using ks_loads [OF s f] ks_loads [OF s a] K by (simp add: load_states_def runs_on_def)
qed

lemma load_block_info_result:
  assumes K: "runs_on K sha cached S L" and s: "holds s f"
    and fl: "valid_chain K C bs st" "\<forall>i < length bs. f (of_nat i) = Some (storable (bs ! i))"
    and last: "latest_spec f = (if bs = [] then None else Some (of_nat (length bs - 1)))"
    and held: "bs \<noteq> [] \<Longrightarrow> states_held K C (view (ks_inner s)) (stj_inner (last bs)) (bs_fs st) (bs_app_state st)"
    and ok: "codable K C st"
  shows "load_block_info K s = Some (rbind (lift_err CeKolme (fs_validate (bs_fs st))) (\<lambda>_. Inr (tip bs st)))"
proof (cases "bs = []")
  case True
  then have "genesis_state K = Inr st" using fl(1) by (simp add: valid_chain_Nil)
  moreover have "ks_load_latest S s = Inr None" using ks_finds_latest [OF s] last True by simp
  ultimately show ?thesis using K True by (simp add: load_block_info_def runs_on_def tip_def)
next
  case False
  have "ks_load_latest S s = Inr (Some (of_nat (length bs - 1)))" using ks_finds_latest [OF s] last False by simp
  moreover have "ks_load_block S L s (of_nat (length bs - 1)) = Some (Inr (Some (storable (List.last bs))))"
    using ks_loads_block [OF s] fl(2) False by (simp add: last_conv_nth)
  moreover have "load_states K s (stj_inner (List.last bs)) = Some (Inr (bs_fs st, bs_app_state st))"
    by (rule load_states_result [OF K s held [OF False]]) (use ok in \<open>simp add: codable_def\<close>)
  moreover have "\<lparr>bs_blockhash = block_hash (List.last bs), bs_fs = bs_fs st, bs_app_state = bs_app_state st\<rparr> = st"
    using valid_chain_last [OF fl(1) False] by simp
  ultimately show ?thesis using K False by (simp add: load_block_info_def runs_on_def tip_def)
qed

lemma validate_genesis_result:
  assumes K: "runs_on K sha cached S L" and s: "holds s f" and len: "length bs < 2 ^ 64"
    and fl: "valid_chain K C bs st" "\<forall>i < length bs. f (of_nat i) = Some (storable (bs ! i))" "bs = [] \<Longrightarrow> f 0 = None"
  shows "validate_genesis_info K s = Some (Inr ())"
proof (cases bs)
  case Nil
  then show ?thesis
    using ks_loads_signed [OF s, of 0] fl(3) K by (simp add: validate_genesis_info_def load_genesis_info_def runs_on_def)
next
  case (Cons b bs')
  then have "f 0 = Some (storable b)" using fl(2) by (auto dest: spec [of _ 0])
  moreover have "tx_messages (stj_inner (block_tx b)) = [MsgGenesis (e_genesis (kx_env K))]"
    using valid_chain_first [OF fl(1) len] Cons by simp
  ultimately show ?thesis
    using ks_loads_signed [OF s, of 0] K
    by (simp add: validate_genesis_info_def load_genesis_info_def runs_on_def Let_def ensure_def)
qed

text \<open>A node that starts on the store of one that follows a chain takes up where that one stopped, if
  its validator set is valid, and does not start otherwise.\<close>

lemma restart_result:
  assumes K: "runs_on K sha cached S L" and s: "holds (km_store k) f"
    and fl: "follows K C (view (ks_inner (km_store k))) k f bs"
    and last: "latest_spec f = (if bs = [] then None else Some (of_nat (length bs - 1)))"
    and ok: "codable K C (km_state k)"
  shows "kolme_new K (km_store k) =
    Some (rbind (lift_err CeKolme (fs_validate (bs_fs (km_state k)))) (\<lambda>_.
      Inr \<lparr>km_store = km_store k, km_current = km_current k, km_mempool = mempool_new (kx_pool K), km_latest = None,
        km_landed = None, km_failed = []\<rparr>))"
proof -
  have "load_block_info K (km_store k) =
      Some (rbind (lift_err CeKolme (fs_validate (bs_fs (km_state k)))) (\<lambda>_. Inr (tip bs (km_state k))))"
    using fl by (intro load_block_info_result [OF K s _ _ last _ ok]) (auto simp: follows_def)
  moreover have "validate_genesis_info K (km_store k) = Some (Inr ())"
  proof (rule validate_genesis_result [OF K s])
    show "f 0 = None" if "bs = []"
      using last that by (auto simp: latest_spec_def split: if_splits)
  qed (use fl in \<open>auto simp: follows_def\<close>)
  ultimately show ?thesis
    using fl by (cases "fs_validate (bs_fs (km_state k))") (simp_all add: kolme_new_def follows_def)
qed

section \<open>State sync\<close>

text \<open>What \<open>add_block_with_state\<close> checks: the height is free, the block is signed by the processor of
  the node's current state, and the roots of its states are stored.  Neither its parent nor whether
  its height comes next.\<close>

lemma check_block_with_state_iff:
  assumes K: "runs_on K sha cached S L" and s: "holds (km_store k) f"
    and len: "length (bk_framework_state (stj_inner b)) = 32" "length (bk_app_state (stj_inner b)) = 32"
      "length (bk_logs (stj_inner b)) = 32"
  shows "check_block_with_state K b k = Inr () \<longleftrightarrow> f (block_height b) = None \<and>
    state_processor (km_state k) = bk_processor (stj_inner b) \<and>
    e_recover (kx_env K) (tj_as_bytes (stj_message b)) (stj_signature b) (stj_recovery_id b) = Some (bk_processor (stj_inner b)) \<and>
    (\<forall>h \<in> {bk_framework_state (stj_inner b), bk_app_state (stj_inner b), bk_logs (stj_inner b)}.
       view (ks_inner (km_store k)) h \<noteq> None)"
proof -
  have KS: "kx_store K = S" "kx_cache K = L" using K by (simp_all add: runs_on_def)
  have p: "layer_present K (km_store k) h = Inr () \<longleftrightarrow> view (ks_inner (km_store k)) h \<noteq> None" if "length h = 32" for h
    using has_layer [of "ks_inner (km_store k)" f h] s that KS
    by (simp add: layer_present_def ks_has_merkle_hash_def ks_repr_def result_simps)
  have v: "validate_block_signature (e_recover (kx_env K)) b = Inr () \<longleftrightarrow>
      e_recover (kx_env K) (tj_as_bytes (stj_message b)) (stj_signature b) (stj_recovery_id b) = Some (bk_processor (stj_inner b))"
    by (auto simp: validate_block_signature_def stj_verify_signature_def result_simps split: option.splits)
  show ?thesis
    using ks_knows_block [OF s, of "block_height b"] p len KS
    by (auto simp: check_block_with_state_def Let_def result_simps v)
qed

lemma add_block_with_state_result:
  assumes K: "runs_on K sha cached S L" and s: "holds (km_store k) f"
    and b: "storable_ok C enc dec B (storable b)" and once: "txs_once (insert (storable b) (ran f))"
    and ok: "check_block_with_state K b k = Inr ()"
  shows "\<exists>k'. add_block_with_state K b k = (Inr (), k') \<and> holds (km_store k') (f(block_height b \<mapsto> storable b)) \<and>
    km_current k' = km_current k \<and> view (ks_inner (km_store k)) \<subseteq>\<^sub>m view (ks_inner (km_store k'))"
proof -
  have KS: "kx_store K = S" "kx_cache K = L" using K by (simp_all add: runs_on_def)
  have "f (block_height b) = None"
    using ok ks_knows_block [OF s, of "block_height b"] KS by (auto simp: check_block_with_state_def Let_def result_simps)
  then obtain s' where "ks_add_block S L (storable b) (km_store k) = (Inr (), s')" "holds s' (f(block_height b \<mapsto> storable b))"
      "view (ks_inner (km_store k)) \<subseteq>\<^sub>m view (ks_inner s')"
    using ks_adds [OF s b once] unfolding storable_simps by auto
  then show ?thesis using ok KS by (simp add: add_block_with_state_def)
qed

text \<open>The root of a state is stored only with everything below it.\<close>

lemma root_stored_held:
  assumes s: "holds s f" and c: "c \<in> C" "serialize e x = Inr c" "contents_hash sha c = h"
    and v: "view (ks_inner s) h \<noteq> None"
  shows "held sha C (view (ks_inner s)) e x h"
proof -
  have "content_world sha C" "good_view sha C (view (ks_inner s))"
    using good [of "ks_inner s" f] s by (simp_all add: ks_repr_def)
  then have "present sha (view (ks_inner s)) c" using good_view_present c(1,3) v by blast
  then show ?thesis using c unfolding held_def by blast
qed

text \<open>Resync loads the states of the latest block.\<close>

lemma resync_result:
  assumes K: "runs_on K sha cached S L" and s: "holds (km_store k) f" and last: "latest_spec f = Some h"
    and b: "f h = Some (storable b)"
    and st: "states_held K C (view (ks_inner (km_store k))) (stj_inner b) (xb_fs xb) (xb_app_state xb)"
    and xb: "xb_signed_block xb = b" and ok: "codable K C (state_after xb)"
  shows "resync K k = Some (Inr (if km_next_height k < height_next h
    then k\<lparr>km_current := SomeBlock b (state_after xb)\<rparr> else k))"
proof -
  have KS: "kx_store K = S" "kx_cache K = L" using K by (simp_all add: runs_on_def)
  have l: "load_states K (km_store k) (stj_inner b) = Some (Inr (xb_fs xb, xb_app_state xb))"
    by (rule load_states_result [OF K s st]) (use ok in \<open>simp add: codable_def state_after_def\<close>)
  show ?thesis
    using ks_finds_latest [OF s] ks_loads_signed [OF s, of h] last b KS l xb
    by (simp add: resync_def state_after_def)
qed

end

end
