(* ===== verification/Node_Props.thy ===== *)
theory Node_Props
  imports Chain_Load
begin

text \<open>
  The properties of a node on the Fjall store, and an instance to evaluate them on: a chain of one
  block, the genesis block.
\<close>

section \<open>An instance\<close>

abbreviation pad_sha :: "bytes \<Rightarrow> hash" where
  "pad_sha \<equiv> ce_sha sample_codec"

definition first_tx :: "(int, unit) signed_transaction" where
  "first_tx = \<lparr>stj_message = \<lparr>tj_serialized = ''tx'', tj_hash = pad_sha (str_bytes ''tx''), tj_value = stj_inner genesis_tx\<rparr>,
     stj_signature = Signature [1], stj_recovery_id = 0\<rparr>"

definition first_block :: "u8 \<Rightarrow> (int, unit) signed_block" where
  "first_block rid = \<lparr>stj_message = \<lparr>tj_serialized = ''block'', tj_hash = pad_sha (str_bytes ''block''), tj_value =
       \<lparr>bk_tx = first_tx, bk_timestamp = 0, bk_processor = PublicKey [1], bk_height = 0, bk_parent = genesis_parent pad_sha,
        bk_framework_state = pad_sha [8], bk_app_state = pad_sha [9], bk_logs = pad_sha [1, 0], bk_loads = []\<rparr>\<rparr>,
     stj_signature = Signature [1], stj_recovery_id = rid\<rparr>"

definition first_fs :: "int framework_state" where
  "first_fs = (case execute_transaction sample_env (sample_read\<lparr>kr_next_height := 0\<rparr>) first_tx 0 (PriorData [] ValidateDataLoads) of
     Inr r \<Rightarrow> er_fs r | Inl _ \<Rightarrow> fs_new sample_genesis)"

type_synonym ('st, 'c) sample_kenv = "(int, unit, unit, 'st, 'c, (hash \<times> (int, unit) mempool_item) list,
  (hash \<times> (int, unit) block_reason) list) kenv"

definition sample_kenv :: "('st, (int, unit) signed_block) store_ops \<Rightarrow> ('c, (int, unit) signed_block) block_cache \<Rightarrow>
    ('st, 'c) sample_kenv" where
  "sample_kenv S L = \<lparr>kx_env = sample_env, kx_sha = pad_sha, kx_cached = (\<lambda>_. None), kx_store = S, kx_cache = L,
     kx_pool = plain_env, kx_enc_fs = (\<lambda>_. store_byte 8), kx_dec_fs = d_map (\<lambda>_. first_fs) pop_byte,
     kx_enc_app = (\<lambda>_. store_byte 9), kx_dec_app = d_map (\<lambda>_. ()) pop_byte, kx_new_state = Inr (),
     kx_code_version = ''v1''\<rparr>"

definition first_state :: "(int, unit) block_state" where
  "first_state = \<lparr>bs_blockhash = genesis_parent pad_sha, bs_fs = fs_new sample_genesis, bs_app_state = ()\<rparr>"

definition first_executed :: "u8 \<Rightarrow> (int, unit, unit) executed_block" where
  "first_executed rid = \<lparr>xb_signed_block = first_block rid, xb_fs = first_fs, xb_app_state = (), xb_logs = [[]]\<rparr>"

definition block_contents :: contents where
  "block_contents = Contents ([2] @ to_le_bytes (0 :: u64) @ block_hash (first_block 0) @ tx_hash first_tx @ [5]) []"

text \<open>A block that links to nothing.\<close>

definition stray_block :: "(int, unit) signed_block" where
  "stray_block = \<lparr>stj_message = \<lparr>tj_serialized = ''stray'', tj_hash = pad_sha (str_bytes ''stray''), tj_value =
       \<lparr>bk_tx = \<lparr>stj_message = \<lparr>tj_serialized = ''other'', tj_hash = pad_sha (str_bytes ''other''), tj_value = stj_inner genesis_tx\<rparr>,
          stj_signature = Signature [1], stj_recovery_id = 0\<rparr>,
        bk_timestamp = 0, bk_processor = PublicKey [1], bk_height = 7, bk_parent = pad_sha (str_bytes ''nowhere''),
        bk_framework_state = pad_sha [8], bk_app_state = pad_sha [9], bk_logs = pad_sha [1, 0], bk_loads = []\<rparr>\<rparr>,
     stj_signature = Signature [1], stj_recovery_id = 0\<rparr>"

definition stray_contents :: contents where
  "stray_contents = Contents ([2] @ to_le_bytes (7 :: u64) @ block_hash stray_block @ tx_hash (block_tx stray_block) @ [6]) []"

definition enc_sample :: "(int, unit) signed_block enc" where
  "enc_sample b = store_byte (if b = stray_block then 6 else 5)"

definition dec_sample :: "(int, unit) signed_block dec" where
  "dec_sample = d_map (\<lambda>w. if w = 6 then stray_block else first_block 0) pop_byte"

definition sample_contents :: "contents set" where
  "sample_contents = {Contents [8] [], Contents [9] [], Contents [1, 0] [], block_contents, stray_contents}"

lemma first_execution:
  "\<exists>r. execute_transaction sample_env (sample_read\<lparr>kr_next_height := 0\<rparr>) first_tx 0 (PriorData [] ValidateDataLoads) = Inr r \<and>
     er_app_state r = () \<and> er_logs r = [[]] \<and> er_loads r = [] \<and> er_height r = 0 \<and>
     fs_validator_set (er_fs r) = sample_set"
  by (simp add: exec_defs sample_defs first_tx_def genesis_tx_def stj_inner_def)

lemma sample_hashes:
  "block_hash (first_block rid) = pad_sha (str_bytes ''block'')" "tx_hash first_tx = pad_sha (str_bytes ''tx'')"
  "block_hash stray_block = pad_sha (str_bytes ''stray'')" "tx_hash (block_tx stray_block) = pad_sha (str_bytes ''other'')"
  "block_tx (first_block rid) = first_tx" "block_height (first_block rid) = 0" "block_height stray_block = 7"
  by (simp_all add: block_hash_def tx_hash_def message_hash_def block_tx_def block_height_def stj_inner_def
      first_block_def first_tx_def stray_block_def)

lemma pad_length [simp]: "length (pad_sha bs) = 32"
  by (simp add: sample_codec_def)

lemma sample_world: "content_world pad_sha sample_contents"
proof -
  have "length (to_le_bytes (w :: u64)) = 8" for w by (simp add: to_le_bytes_def)
  moreover have "to_le_bytes (0 :: u64) \<noteq> to_le_bytes (7 :: u64)" by code_simp
  ultimately have "inj_on (\<lambda>c. pad_sha (c_payload c)) sample_contents"
    by (simp add: sample_contents_def block_contents_def stray_contents_def sample_hashes) (simp add: sample_codec_def)
  then show ?thesis
    by (simp add: content_world_def) (simp add: sample_contents_def block_contents_def stray_contents_def sample_hashes to_le_bytes_def)
qed

lemma first_check:
  "check_block (sample_kenv S L) 0 first_state (first_block rid) ValidateDataLoads = Inr (first_executed rid)"
proof -
  obtain r where r: "execute_transaction sample_env (sample_read\<lparr>kr_next_height := 0\<rparr>) first_tx 0 (PriorData [] ValidateDataLoads) = Inr r"
      "er_app_state r = ()" "er_logs r = [[]]" "er_loads r = []" "er_height r = 0"
    using first_execution by blast
  have k: "km_read (sample_kenv S L) 0 first_state = sample_read\<lparr>kr_next_height := 0\<rparr>"
    by (simp add: km_read_def sample_kenv_def sample_read_def first_state_def)
  have e: "kx_env (sample_kenv S L) = sample_env" by (simp add: sample_kenv_def)
  have ffs: "first_fs = er_fs r" using r(1) by (simp add: first_fs_def)
  have b: "stj_inner (first_block rid) = \<lparr>bk_tx = first_tx, bk_timestamp = 0, bk_processor = PublicKey [1], bk_height = 0,
      bk_parent = genesis_parent pad_sha, bk_framework_state = pad_sha [8], bk_app_state = pad_sha [9], bk_logs = pad_sha [1, 0],
      bk_loads = []\<rparr>" by (simp add: stj_inner_def first_block_def)
  have v: "validate_block_signature (e_recover sample_env) (first_block rid) = Inr ()"
    by (simp add: validate_block_signature_def b stj_verify_signature_def sample_env_def) (simp add: first_block_def)
  have mh: "tx_max_height (stj_inner first_tx) = None" by (simp add: first_tx_def stj_inner_def genesis_tx_def sign_tx_def)
  have p: "state_processor first_state = PublicKey [1]" "bs_blockhash first_state = genesis_parent pad_sha"
    by (simp_all add: state_processor_def first_state_def fs_new_def sample_genesis_def sample_set_def)
  show ?thesis
    by (simp add: check_block_def Let_def b block_height_def block_tx_def p mh v e k r first_executed_def ffs)
qed


lemma first_contents:
  "serialize (\<lambda>_. store_byte 8) x = Inr (Contents [8] [])" "serialize (\<lambda>_. store_byte 9) y = Inr (Contents [9] [])"
  "serialize ser_logs [[]] = Inr (Contents [1, 0] [])"
  by (simp_all add: serialize_def store_byte_def store_raw_bytes_def ser_new_def ser_finish_def) code_simp

lemma first_commits: "commits (sample_kenv S L) sample_contents (first_executed rid)"
proof -
  have b: "bk_framework_state (stj_inner (first_block rid)) = pad_sha [8]" "bk_app_state (stj_inner (first_block rid)) = pad_sha [9]"
    "bk_logs (stj_inner (first_block rid)) = pad_sha [1, 0]" by (simp_all add: stj_inner_def first_block_def)
  show ?thesis
    by (simp add: commits_def first_executed_def sample_kenv_def first_contents b contents_hash_def sample_contents_def)
qed

lemma first_start: "valid_chain (sample_kenv S L) C [] first_state"
  by (simp add: valid_chain_Nil genesis_state_def sample_kenv_def first_state_def sample_env_def)

lemma first_chain: "valid_chain (sample_kenv S L) sample_contents [first_block rid] (state_after (first_executed rid))"
proof -
  have "valid_chain (sample_kenv S L) sample_contents ([] @ [first_block rid]) (state_after (first_executed rid))"
    by (rule chain_block [OF first_start _ first_commits, where v = ValidateDataLoads]) (simp add: first_check)
  then show ?thesis by simp
qed

lemma one_byte_codec: "roundtrips C (store_byte w) (d_map (\<lambda>_. x) pop_byte) x"
  unfolding d_map_def by (rule rt_last [OF rt_byte]) simp

lemma first_codable: "codable (sample_kenv S L) C (state_after (first_executed rid))"
  by (simp add: codable_def sample_kenv_def state_after_def first_executed_def one_byte_codec)

section \<open>Agreement\<close>



section \<open>A node on the Fjall store\<close>

interpretation fjall_kolme: chain_node "fjall_chain_repr sha C cached enc dec B" C enc dec B "fjall_store_ops sha cached enc dec"
  sha cached fjall_view fjall_archived "list_lru (Suc n)" "\<lambda>c. distinct (map fst c) \<and> length c \<le> Suc n" "Suc n"
  for sha C cached enc dec B n ..

interpretation memory_kolme: chain_node "memory_repr sha C cached enc dec B" C enc dec B "memory_store_ops sha cached enc dec"
  sha cached "\<lambda>db. om_get (db_merkle db)" db_archived "list_lru (Suc n)" "\<lambda>c. distinct (map fst c) \<and> length c \<le> Suc n" "Suc n"
  for sha C cached enc dec B n ..

text \<open>The node \<open>k\<close> runs on a Fjall store whose blocks are the table \<open>f\<close>, with a cache for \<open>n + 1\<close> blocks.\<close>

definition on_fjall ::
  "('d, 'm, 's, kv, (u64 \<times> ('d, 'm) signed_block storable_block) list, 'ct, 'cb) kenv \<Rightarrow> contents set \<Rightarrow>
    ('d, 'm) signed_block enc \<Rightarrow> ('d, 'm) signed_block dec \<Rightarrow> ('d, 'm) signed_block storable_block set \<Rightarrow> nat \<Rightarrow>
    ('d, 'm, 's, kv, (u64 \<times> ('d, 'm) signed_block storable_block) list, 'ct, 'cb) kolme \<Rightarrow>
    ('d, 'm) signed_block block_table \<Rightarrow> bool" where
  "on_fjall K C enc dec B n k f \<longleftrightarrow>
     kx_store K = fjall_store_ops (kx_sha K) (kx_cached K) enc dec \<and> kx_cache K = list_lru (Suc n) \<and>
     ks_repr (fjall_chain_repr (kx_sha K) C (kx_cached K) enc dec B) (list_lru (Suc n))
       (\<lambda>c. distinct (map fst c) \<and> length c \<le> Suc n) (km_store k) f"

definition stored_layers :: "('d, 'm, 's, kv, 'c, 'ct, 'cb) kolme \<Rightarrow> hash \<Rightarrow> layer option" where
  "stored_layers k = fjall_view (ks_inner (km_store k))"

lemma on_fjallD:
  assumes "on_fjall K C enc dec B n k f"
  shows "runs_on K (kx_sha K) (kx_cached K) (fjall_store_ops (kx_sha K) (kx_cached K) enc dec) (list_lru (Suc n))"
    "ks_repr (fjall_chain_repr (kx_sha K) C (kx_cached K) enc dec B) (list_lru (Suc n))
       (\<lambda>c. distinct (map fst c) \<and> length c \<le> Suc n) (km_store k) f"
  using assms by (simp_all add: on_fjall_def runs_on_def)

lemma fjall_add_block:
  assumes "on_fjall K C enc dec B n k f" "follows K C (stored_layers k) k f bs" "Suc (length bs) < 2 ^ 64"
    and "\<And>xb. check_block K (of_nat (length bs)) (km_state k) b v = Inr xb \<Longrightarrow> covers K C xb"
    and "storable_ok C enc dec B (storable b)" "txs_once (insert (storable b) (ran f))"
    and "f g = None" "g \<noteq> block_height b"
  shows "\<exists>r k'. add_block_with K b v k = Some (r, k') \<and>
    (case check_block K (of_nat (length bs)) (km_state k) b v of
       Inr xb \<Rightarrow>
         if commits K C xb \<and> f (block_height b) \<in> {None, Some (storable b)}
         then r = Inr () \<and> km_current k' = SomeBlock b (state_after xb) \<and>
           on_fjall K C enc dec B n k' (f(block_height b \<mapsto> storable b)) \<and>
           follows K C (stored_layers k') k' (f(block_height b \<mapsto> storable b)) (bs @ [b])
         else r \<noteq> Inr () \<and> km_current k' = km_current k \<and> on_fjall K C enc dec B n k' f \<and>
           follows K C (stored_layers k') k' f bs
     | Inl e \<Rightarrow> r = Inl (CeKolme e) \<and> k' = k)"
proof -
  note K = on_fjallD [OF assms(1)]
  obtain r k' where "add_block_with K b v k = Some (r, k')"
    "case check_block K (of_nat (length bs)) (km_state k) b v of
       Inr xb \<Rightarrow>
         if commits K C xb \<and> f (block_height b) \<in> {None, Some (storable b)}
         then r = Inr () \<and> ks_repr (fjall_chain_repr (kx_sha K) C (kx_cached K) enc dec B) (list_lru (Suc n))
             (\<lambda>c. distinct (map fst c) \<and> length c \<le> Suc n) (km_store k') (f(block_height b \<mapsto> storable b)) \<and>
           km_current k' = SomeBlock b (state_after xb) \<and>
           follows K C (stored_layers k') k' (f(block_height b \<mapsto> storable b)) (bs @ [b])
         else (\<exists>e. r = Inl e) \<and> ks_repr (fjall_chain_repr (kx_sha K) C (kx_cached K) enc dec B) (list_lru (Suc n))
             (\<lambda>c. distinct (map fst c) \<and> length c \<le> Suc n) (km_store k') f \<and> km_current k' = km_current k \<and>
           follows K C (stored_layers k') k' f bs
     | Inl e \<Rightarrow> r = Inl (CeKolme e) \<and> k' = k"
    using fjall_kolme.add_block_result [OF K assms(2) [unfolded stored_layers_def] assms(3-8)]
    unfolding stored_layers_def by blast
  then show ?thesis
    using assms(1,2) by (cases "check_block K (of_nat (length bs)) (km_state k) b v") (auto simp: on_fjall_def)
qed

text \<open>C3: adding a block always returns.  The node accepts a block exactly if it passes the checks in the
  node's current state, carries the hashes of the states it leads to, and no other block is stored at
  its height; then the chain it follows is longer by this block.  Otherwise it reports an error and
  follows the same chain as before, and the table of stored blocks is as before.\<close>

theorem add_block_extends_or_refuses:
  assumes "on_fjall K C enc dec B n k f" "follows K C (stored_layers k) k f bs" "Suc (length bs) < 2 ^ 64"
    and "\<And>xb. check_block K (of_nat (length bs)) (km_state k) b v = Inr xb \<Longrightarrow> covers K C xb"
    and "storable_ok C enc dec B (storable b)" "txs_once (insert (storable b) (ran f))"
    and "f g = None" "g \<noteq> block_height b"
  shows "\<exists>r k'. add_block_with K b v k = Some (r, k') \<and>
    (case check_block K (of_nat (length bs)) (km_state k) b v of
       Inr xb \<Rightarrow>
         if commits K C xb \<and> f (block_height b) \<in> {None, Some (storable b)}
         then r = Inr () \<and> km_current k' = SomeBlock b (state_after xb) \<and>
           on_fjall K C enc dec B n k' (f(block_height b \<mapsto> storable b)) \<and>
           follows K C (stored_layers k') k' (f(block_height b \<mapsto> storable b)) (bs @ [b])
         else r \<noteq> Inr () \<and> km_current k' = km_current k \<and> on_fjall K C enc dec B n k' f \<and>
           follows K C (stored_layers k') k' f bs
     | Inl e \<Rightarrow> r = Inl (CeKolme e) \<and> k' = k)"
  by (rule fjall_add_block [OF assms])

text \<open>C7: a node that starts on the store of one that follows a chain resumes with the same block and
  state, exactly if the validator set in that state is valid; with an invalid one it does not start.\<close>

theorem restart_resumes:
  assumes "on_fjall K C enc dec B n k f" "follows K C (stored_layers k) k f bs" "codable K C (km_state k)"
    and "latest_spec f = (if bs = [] then None else Some (of_nat (length bs - 1)))"
  shows "\<exists>k'. kolme_new K (km_store k) =
      Some (case fs_validate (bs_fs (km_state k)) of Inl e \<Rightarrow> Inl (CeKolme e) | Inr _ \<Rightarrow> Inr k') \<and>
    km_current k' = km_current k \<and> km_store k' = km_store k"
  using fjall_kolme.restart_result [OF on_fjallD [OF assms(1)] assms(2) [unfolded stored_layers_def] assms(4,3)]
  by (intro exI [of _ "\<lparr>km_store = km_store k, km_current = km_current k, km_mempool = mempool_new (kx_pool K),
      km_latest = None, km_landed = None, km_failed = []\<rparr>"]) (auto split: sum.split)

text \<open>C9: state sync accepts a block exactly if its height is free, it is signed by the processor of the
  state the node is in, and the roots of its states are stored.  So it accepts blocks that do not
  link to the chain, and refuses the blocks of a new processor until the node has resynced.\<close>

theorem state_sync_accepts_iff:
  assumes "on_fjall K C enc dec B n k f" "storable_ok C enc dec B (storable b)" "txs_once (insert (storable b) (ran f))"
    and "length (bk_framework_state (stj_inner b)) = 32" "length (bk_app_state (stj_inner b)) = 32"
      "length (bk_logs (stj_inner b)) = 32"
  shows "\<exists>r k'. add_block_with_state K b k = (r, k') \<and> km_current k' = km_current k \<and>
    (if f (block_height b) = None \<and> state_processor (km_state k) = bk_processor (stj_inner b) \<and>
        e_recover (kx_env K) (tj_as_bytes (stj_message b)) (stj_signature b) (stj_recovery_id b) = Some (bk_processor (stj_inner b)) \<and>
        (\<forall>h \<in> {bk_framework_state (stj_inner b), bk_app_state (stj_inner b), bk_logs (stj_inner b)}. stored_layers k h \<noteq> None)
     then r = Inr () \<and> on_fjall K C enc dec B n k' (f(block_height b \<mapsto> storable b))
     else r \<noteq> Inr () \<and> k' = k)"
proof -
  note K = on_fjallD [OF assms(1)]
  note iff = fjall_kolme.check_block_with_state_iff [OF K assms(4-6)]
  show ?thesis
  proof (cases "check_block_with_state K b k")
    case (Inl e)
    then have "add_block_with_state K b k = (Inl e, k)" by (simp add: add_block_with_state_def)
    then show ?thesis using Inl iff unfolding stored_layers_def by auto
  next
    case (Inr u)
    then obtain k' where "add_block_with_state K b k = (Inr (), k')" "km_current k' = km_current k"
        "on_fjall K C enc dec B n k' (f(block_height b \<mapsto> storable b))"
      using fjall_kolme.add_block_with_state_result [OF K assms(2,3)] assms(1) by (auto simp: on_fjall_def)
    then show ?thesis using Inr iff unfolding stored_layers_def by auto
  qed
qed

text \<open>C8: a node whose store holds the blocks of a valid chain and the roots of the last block's states
  reaches, by resyncing, the state a node that executed every block has: it follows the chain.\<close>

theorem resync_reaches_executed_state:
  assumes "on_fjall K C enc dec B n k f" "valid_chain K C bs st" "bs \<noteq> []" "length bs < 2 ^ 64" "codable K C st"
    and "\<forall>i < length bs. f (of_nat i) = Some (storable (bs ! i))" "latest_spec f = Some (of_nat (length bs - 1))"
    and "stored_layers k (bk_framework_state (stj_inner (last bs))) \<noteq> None"
      "stored_layers k (bk_app_state (stj_inner (last bs))) \<noteq> None"
    and "km_next_height k < of_nat (length bs)"
  shows "\<exists>k'. resync K k = Some (Inr k') \<and> km_state k' = st \<and> follows K C (stored_layers k') k' f bs"
proof -
  note K = on_fjallD [OF assms(1)]
  obtain st0 v xb where xb: "check_block K (of_nat (length (butlast bs))) st0 (last bs) v = Inr xb" "commits K C xb" "st = state_after xb"
    using valid_chain_parent [of K C "butlast bs" "last bs" st] assms(2,3) by auto
  have b: "xb_signed_block xb = last bs" using check_block_Inr [OF xb(1)] by simp
  obtain c d where c: "c \<in> C" "serialize (kx_enc_fs K) (xb_fs xb) = Inr c" "contents_hash (kx_sha K) c = bk_framework_state (stj_inner (last bs))"
    and d: "d \<in> C" "serialize (kx_enc_app K) (xb_app_state xb) = Inr d" "contents_hash (kx_sha K) d = bk_app_state (stj_inner (last bs))"
    using xb(2) b by (auto simp: commits_def Let_def)
  have held: "states_held K C (stored_layers k) (stj_inner (last bs)) (xb_fs xb) (xb_app_state xb)"
    unfolding states_held_def stored_layers_def
    using fjall_kolme.root_stored_held [OF K(2) c] fjall_kolme.root_stored_held [OF K(2) d] assms(8,9)
    by (simp add: stored_layers_def)
  have "height_next (of_nat (length bs - 1)) = (of_nat (length bs) :: u64)"
    using assms(3) by (cases bs rule: rev_cases) (simp_all add: height_next_def add.commute)
  then have "resync K k = Some (Inr (k\<lparr>km_current := SomeBlock (last bs) (state_after xb)\<rparr>))"
    using fjall_kolme.resync_result [OF K assms(7) _ held [unfolded stored_layers_def] b] assms(3,5,6,10) xb(3)
    by (simp add: last_conv_nth)
  moreover have "follows K C (stored_layers k) (k\<lparr>km_current := SomeBlock (last bs) (state_after xb)\<rparr>) f bs"
    using assms(2-4,6) held xb(3) by (simp add: follows_def km_state_def tip_def state_after_def)
  ultimately show ?thesis using xb(3) by (simp add: stored_layers_def km_state_def)
qed

text \<open>Looking for the next block to archive returns, marks stored blocks as archived on its way, and
  changes nothing else.\<close>

theorem next_to_archive_returns:
  assumes "on_fjall K C enc dec B n k f" "f g = None"
  shows "\<exists>h s. get_next_to_archive (kx_store K) (kx_cache K) (km_store k) = Some (Inr h, s) \<and> f h = None \<and>
    on_fjall K C enc dec B n (k\<lparr>km_store := s\<rparr>) f"
proof -
  note K = on_fjallD [OF assms(1)]
  show ?thesis
    using fjall_node.next_to_archive [OF K(2) assms(2)] assms(1) by (auto simp: on_fjall_def)
qed

section \<open>The instance on Fjall\<close>

abbreviation fjall_env :: "(kv, (u64 \<times> (int, unit) signed_block storable_block) list) sample_kenv" where
  "fjall_env \<equiv> sample_kenv (fjall_store_ops pad_sha (\<lambda>_. None) enc_sample dec_sample) (list_lru (Suc 0))"

abbreviation sample_blocks :: "(int, unit) signed_block storable_block set" where
  "sample_blocks \<equiv> {storable (first_block 0), storable stray_block}"

lemma sample_serialized:
  "serialize (ser_storable enc_sample) (storable (first_block 0)) = Inr block_contents"
  "serialize (ser_storable enc_sample) (storable stray_block) = Inr stray_contents"
proof -
  have ne: "first_block 0 \<noteq> stray_block" by (simp add: first_block_def stray_block_def)
  show "serialize (ser_storable enc_sample) (storable (first_block 0)) = Inr block_contents"
    using ne by (simp add: codec_eval ser_storable_def ser_versioned_def ser_hash_def enc_sample_def sample_hashes
        block_contents_def)
  show "serialize (ser_storable enc_sample) (storable stray_block) = Inr stray_contents"
    by (simp add: codec_eval ser_storable_def ser_versioned_def ser_hash_def enc_sample_def sample_hashes
        stray_contents_def)
qed

lemma sample_storable:
  assumes "b \<in> {first_block 0, stray_block}"
  shows "storable_ok sample_contents enc_sample dec_sample sample_blocks (storable b)"
proof -
  have ne: "first_block 0 \<noteq> stray_block" by (simp add: first_block_def stray_block_def)
  have "roundtrips sample_contents (enc_sample b) dec_sample b"
    unfolding enc_sample_def dec_sample_def d_map_def by (rule rt_last [OF rt_byte]) (use assms ne in auto)
  moreover have "\<exists>c \<in> sample_contents. serialize (ser_storable enc_sample) (storable b) = Inr c"
    using assms sample_serialized by (auto simp: sample_contents_def)
  ultimately show ?thesis
    using assms by (auto simp: storable_ok_def sample_hashes)
qed

definition first_node ::
  "(int, unit, unit, kv, (u64 \<times> (int, unit) signed_block storable_block) list,
    (hash \<times> (int, unit) mempool_item) list, (hash \<times> (int, unit) block_reason) list) kolme" where
  "first_node = \<lparr>km_store = ks_from (list_lru (Suc 0)) [], km_current = NoBlock first_state,
     km_mempool = mempool_new plain_env, km_latest = None, km_landed = None, km_failed = []\<rparr>"

lemma first_node_runs: "on_fjall fjall_env sample_contents enc_sample dec_sample sample_blocks 0 first_node (\<lambda>_. None)"
proof -
  have "pad_sha (str_bytes ''block'') \<noteq> pad_sha (str_bytes ''stray'')" by (simp add: sample_codec_def str_bytes_def)
  then have "inj_on sb_blockhash sample_blocks"
    by (simp add: inj_on_def sample_hashes)
  then have "block_world pad_sha sample_contents (\<lambda>_. None) sample_blocks"
    using sample_world by (simp add: block_world_def cache_ok_def)
  moreover have "\<forall>c \<in> sample_contents. take 6 (contents_hash pad_sha c) \<noteq> block_prefix"
  proof -
    have "take 6 (pad_sha (x # xs)) \<noteq> block_prefix" if "x \<noteq> 98" for x xs
      using that by (auto simp: sample_codec_def block_prefix_def str_bytes_def)
    then show ?thesis by (simp add: sample_contents_def contents_hash_def block_contents_def stray_contents_def)
  qed
  ultimately have "fjall_repr pad_sha sample_contents (\<lambda>_. None) enc_sample dec_sample sample_blocks [] (\<lambda>_. None)"
    by (rule fjall_repr_new)
  then have "fjall_chain_repr pad_sha sample_contents (\<lambda>_. None) enc_sample dec_sample sample_blocks [] (\<lambda>_. None)"
    by (simp add: fjall_chain_repr_def)
  then show ?thesis
    by (simp add: on_fjall_def sample_kenv_def first_node_def ks_from_def ks_repr_def list_lru_def)
qed

lemma first_node_follows: "follows fjall_env sample_contents (stored_layers first_node) first_node (\<lambda>_. None) []"
  using first_start by (simp add: follows_def first_node_def km_state_def tip_def)

lemma first_covers: "covers (sample_kenv S L) sample_contents (first_executed rid)"
  by (simp add: covers_def sample_kenv_def first_executed_def first_contents sample_contents_def)

abbreviation one_block :: "(int, unit) signed_block block_table" where
  "one_block \<equiv> (\<lambda>_. None)(0 \<mapsto> storable (first_block 0))"

theorem add_block_extends_or_refuses_witness:
  "\<exists>k. add_block fjall_env (first_block 0) first_node = Some (Inr (), k) \<and>
     follows fjall_env sample_contents (stored_layers k) k one_block [first_block 0]"
proof -
  have ck: "check_block fjall_env (of_nat (length [])) (km_state first_node) (first_block 0) ValidateDataLoads = Inr (first_executed 0)"
    using first_check by (simp add: first_node_def km_state_def)
  have cov: "covers fjall_env sample_contents (first_executed 0)" and com: "commits fjall_env sample_contents (first_executed 0)"
    by (rule first_covers, rule first_commits)
  show ?thesis
    using add_block_extends_or_refuses [OF first_node_runs first_node_follows, of "first_block 0" ValidateDataLoads 1]
      ck cov com sample_storable [of "first_block 0"]
    by (auto simp: add_block_def sample_hashes txs_once_def)
qed

lemma second_node:
  "\<exists>k. on_fjall fjall_env sample_contents enc_sample dec_sample sample_blocks 0 k one_block \<and>
     follows fjall_env sample_contents (stored_layers k) k one_block [first_block 0] \<and>
     km_state k = state_after (first_executed 0)"
proof -
  have ck: "check_block fjall_env (of_nat (length [])) (km_state first_node) (first_block 0) ValidateDataLoads = Inr (first_executed 0)"
    using first_check by (simp add: first_node_def km_state_def)
  have cov: "covers fjall_env sample_contents (first_executed 0)" and com: "commits fjall_env sample_contents (first_executed 0)"
    by (rule first_covers, rule first_commits)
  show ?thesis
    using fjall_add_block [OF first_node_runs first_node_follows, of "first_block 0" ValidateDataLoads 1]
      ck cov com sample_storable [of "first_block 0"]
    by (auto simp: sample_hashes txs_once_def km_state_def)
qed

lemma first_set_valid: "fs_validate first_fs = (Inr () :: int kerr + unit)"
proof -
  have "fs_validator_set first_fs = sample_set" using first_execution by (auto simp: first_fs_def)
  then show ?thesis by (simp add: fs_validate_def validate_set_def sample_set_def u16_try_from_def)
qed

theorem restart_resumes_witness:
  "\<exists>k k'. follows fjall_env sample_contents (stored_layers k) k one_block [first_block 0] \<and>
     kolme_new fjall_env (km_store k) = Some (Inr k') \<and> bs_fs (km_state k') = first_fs"
proof -
  obtain k where k: "on_fjall fjall_env sample_contents enc_sample dec_sample sample_blocks 0 k one_block"
      "follows fjall_env sample_contents (stored_layers k) k one_block [first_block 0]"
      "km_state k = state_after (first_executed 0)"
    using second_node by blast
  have c: "codable fjall_env sample_contents (km_state k)" unfolding k(3) by (rule first_codable)
  have l: "latest_spec one_block = (if [first_block 0] = [] then None else Some (of_nat (length [first_block 0] - 1)))"
    by (simp add: latest_spec_def)
  have fs: "bs_fs (km_state k) = first_fs" using k(3) by (simp add: state_after_def first_executed_def)
  show ?thesis
    using restart_resumes [OF k(1,2) c l] k(2) fs first_set_valid unfolding km_state_def by auto
qed

text \<open>A node that has the three layers and no block.\<close>

lemma stocked_node:
  "\<exists>s. on_fjall fjall_env sample_contents enc_sample dec_sample sample_blocks 0 (first_node\<lparr>km_store := s\<rparr>) (\<lambda>_. None) \<and>
     (\<forall>h \<in> {pad_sha [8], pad_sha [9], pad_sha [1, 0]}. stored_layers (first_node\<lparr>km_store := s\<rparr>) h \<noteq> None)"
proof -
  note K = on_fjallD [OF first_node_runs]
  let ?S = "kx_store fjall_env"
  have kp: "kx_sha fjall_env = pad_sha" "?S = fjall_store_ops pad_sha (\<lambda>_. None) enc_sample dec_sample" "kx_cached fjall_env = (\<lambda>_. None)"
    by (simp_all add: sample_kenv_def)
  let ?holds = "\<lambda>s. ks_repr (fjall_chain_repr pad_sha sample_contents (\<lambda>_. None) enc_sample dec_sample sample_blocks) (list_lru (Suc 0))
       (\<lambda>c. distinct (map fst c) \<and> length c \<le> Suc 0) s (\<lambda>_. None)"
  have save: "\<exists>s'. ?holds s' \<and> fjall_view (ks_inner s) \<subseteq>\<^sub>m fjall_view (ks_inner s') \<and> fjall_view (ks_inner s') (pad_sha p) \<noteq> None"
    if s: "?holds s" and p: "Contents p [] \<in> sample_contents" for s p
  proof -
    have "serialize (\<lambda>_. store_raw_bytes p) () = Inr (Contents p [])"
      by (simp add: serialize_def store_raw_bytes_def ser_new_def ser_finish_def)
    from fjall_node.ks_saves [OF s this p] obtain s' where s': "?holds s'" "fjall_view (ks_inner s) \<subseteq>\<^sub>m fjall_view (ks_inner s')"
        "present pad_sha (fjall_view (ks_inner s')) (Contents p [])" by blast
    have "fjall_view (ks_inner s') (pad_sha p) \<noteq> None"
      using s'(3) by (cases rule: present.cases) (simp add: contents_hash_def)
    then show ?thesis using s' by blast
  qed
  have in_world: "Contents [8] [] \<in> sample_contents" "Contents [9] [] \<in> sample_contents" "Contents [1, 0] [] \<in> sample_contents"
    by (simp_all add: sample_contents_def)
  have "?holds (km_store first_node)" using K(2) by (simp add: kp)
  then obtain s1 where 1: "?holds s1" "fjall_view (ks_inner s1) (pad_sha [8]) \<noteq> None"
    using save [OF _ in_world(1)] by blast
  then obtain s2 where 2: "?holds s2" "fjall_view (ks_inner s1) \<subseteq>\<^sub>m fjall_view (ks_inner s2)" "fjall_view (ks_inner s2) (pad_sha [9]) \<noteq> None"
    using save [OF _ in_world(2)] by blast
  then obtain s3 where 3: "?holds s3" "fjall_view (ks_inner s2) \<subseteq>\<^sub>m fjall_view (ks_inner s3)" "fjall_view (ks_inner s3) (pad_sha [1, 0]) \<noteq> None"
    using save [OF _ in_world(3)] by blast
  have up: "v h \<noteq> None \<Longrightarrow> v \<subseteq>\<^sub>m w \<Longrightarrow> w h \<noteq> None" for v w :: "hash \<Rightarrow> layer option" and h
    by (metis domIff map_le_def)
  have "\<forall>h \<in> {pad_sha [8], pad_sha [9], pad_sha [1, 0]}. fjall_view (ks_inner s3) h \<noteq> None"
    using up [OF up [OF 1(2) 2(2)] 3(2)] up [OF 2(3) 3(2)] 3(3) by blast
  moreover have "on_fjall fjall_env sample_contents enc_sample dec_sample sample_blocks 0 (first_node\<lparr>km_store := s3\<rparr>) (\<lambda>_. None)"
    using 3(1) by (simp add: on_fjall_def kp) (simp add: sample_kenv_def)
  ultimately show ?thesis unfolding stored_layers_def by auto
qed

theorem state_sync_accepts_iff_witness:
  "\<exists>s k'. add_block_with_state fjall_env stray_block (first_node\<lparr>km_store := s\<rparr>) = (Inr (), k') \<and>
     km_current k' = NoBlock first_state \<and> bk_parent (stj_inner stray_block) \<noteq> bs_blockhash first_state \<and>
     block_height stray_block = 7"
proof -
  obtain s where s: "on_fjall fjall_env sample_contents enc_sample dec_sample sample_blocks 0 (first_node\<lparr>km_store := s\<rparr>) (\<lambda>_. None)"
     "\<forall>h \<in> {pad_sha [8], pad_sha [9], pad_sha [1, 0]}. stored_layers (first_node\<lparr>km_store := s\<rparr>) h \<noteq> None"
    using stocked_node by blast
  have b: "bk_framework_state (stj_inner stray_block) = pad_sha [8]" "bk_app_state (stj_inner stray_block) = pad_sha [9]"
    "bk_logs (stj_inner stray_block) = pad_sha [1, 0]" "bk_processor (stj_inner stray_block) = PublicKey [1]"
    "bk_parent (stj_inner stray_block) = pad_sha (str_bytes ''nowhere'')" "stj_signature stray_block = Signature [1]"
    by (simp_all add: stray_block_def stj_inner_def)
  have p: "state_processor (km_state (first_node\<lparr>km_store := s\<rparr>)) = PublicKey [1]"
    by (simp add: km_state_def first_node_def first_state_def state_processor_def fs_new_def sample_genesis_def sample_set_def)
  have rec: "e_recover (kx_env fjall_env) m (Signature [1]) i = Some (PublicKey [1])" for m i
    by (simp add: sample_kenv_def sample_env_def)
  have ne: "pad_sha (str_bytes ''nowhere'') \<noteq> genesis_parent pad_sha"
    by (simp add: genesis_parent_def sample_codec_def str_bytes_def)
  obtain r k' where k': "add_block_with_state fjall_env stray_block (first_node\<lparr>km_store := s\<rparr>) = (r, k')"
      "km_current k' = km_current (first_node\<lparr>km_store := s\<rparr>)" "r = Inr ()"
    using state_sync_accepts_iff [OF s(1) sample_storable [of stray_block]] s(2) b p rec by (auto simp: txs_once_def)
  moreover have "km_current (first_node\<lparr>km_store := s\<rparr>) = NoBlock first_state" by (simp add: first_node_def)
  ultimately show ?thesis using ne b(5) sample_hashes(7) by (auto simp: first_state_def)
qed

theorem resync_reaches_executed_state_witness:
  "\<exists>k k'. km_current k = NoBlock first_state \<and> resync fjall_env k = Some (Inr k') \<and>
     follows fjall_env sample_contents (stored_layers k') k' one_block [first_block 0]"
proof -
  obtain k where k: "on_fjall fjall_env sample_contents enc_sample dec_sample sample_blocks 0 k one_block"
      "follows fjall_env sample_contents (stored_layers k) k one_block [first_block 0]"
      "km_state k = state_after (first_executed 0)"
    using second_node by blast
  let ?k = "k\<lparr>km_current := NoBlock first_state\<rparr>"
  have k': "on_fjall fjall_env sample_contents enc_sample dec_sample sample_blocks 0 ?k one_block"
    using k(1) by (simp add: on_fjall_def)
  have h: "states_held fjall_env sample_contents (stored_layers ?k) (stj_inner (first_block 0)) (bs_fs (km_state k)) (bs_app_state (km_state k))"
    using k(2) by (simp add: follows_def stored_layers_def)
  then have roots: "stored_layers ?k (bk_framework_state (stj_inner (first_block 0))) \<noteq> None"
      "stored_layers ?k (bk_app_state (stj_inner (first_block 0))) \<noteq> None"
    by (auto simp: states_held_def held_def elim!: present.cases)
  have "latest_spec one_block = Some (of_nat (length [first_block 0] - 1))" by (simp add: latest_spec_def)
  moreover have "km_next_height ?k < of_nat (length [first_block 0])" by (simp add: km_next_height_def)
  ultimately obtain k1 where "resync fjall_env ?k = Some (Inr k1)"
      "follows fjall_env sample_contents (stored_layers k1) k1 one_block [first_block 0]"
    using resync_reaches_executed_state [OF k' first_chain [of _ _ 0] _ _ first_codable] roots by auto
  then show ?thesis by (intro exI [of _ ?k] exI [of _ k1]) simp
qed

theorem next_to_archive_returns_witness:
  "\<exists>k h s. on_fjall fjall_env sample_contents enc_sample dec_sample sample_blocks 0 k one_block \<and>
     get_next_to_archive (kx_store fjall_env) (kx_cache fjall_env) (km_store k) = Some (Inr h, s) \<and> h \<noteq> 0"
proof -
  obtain k where k: "on_fjall fjall_env sample_contents enc_sample dec_sample sample_blocks 0 k one_block"
    using second_node by blast
  obtain h s where "get_next_to_archive (kx_store fjall_env) (kx_cache fjall_env) (km_store k) = Some (Inr h, s)" "one_block h = None"
    using next_to_archive_returns [OF k, of 1] by auto
  moreover have "h \<noteq> 0" using calculation by auto
  ultimately show ?thesis using k by blast
qed

end
