(* ===== verification/Processor_Props.thy ===== *)
theory Processor_Props
  imports Processor Replay Node_Props
begin

text \<open>
  What the processor produces: blocks that every node in its state accepts, transactions that leave the
  mempool one way or the other, and approvals the chain accepts.
\<close>

section \<open>Keys and signatures\<close>

definition held_keys :: "('d, 'm, 's, 'st, 'c, 'ct, 'cb, 'k) penv \<Rightarrow> 'k secrets \<Rightarrow> bool" where
  "held_keys P secrets \<longleftrightarrow> (\<forall>pk secret. secrets pk = Some secret \<longrightarrow> px_public P secret = pk)"

lemma held_keys_new: "held_keys P (processor_new P secret)"
  by (simp add: held_keys_def processor_new_def)

lemma held_keys_add: "held_keys P secrets \<Longrightarrow> held_keys P (add_secret P secret secrets)"
  by (simp add: held_keys_def add_secret_def)

lemma sign_json_Inr:
  assumes "sign_json P to_json x key = Inr s"
  shows "stj_inner s = x \<and> (sign_recovers rcv (px_sign P) (px_public P) \<longrightarrow>
    stj_verify_signature rcv s = (Inr (px_public P key) :: 'd kerr + public_key))"
  using assms
  by (auto simp: sign_json_def tj_new_def tj_sign_def Let_def stj_inner_def stj_verify_signature_def sign_recovers_def
      result_simps split: option.splits)

lemma get_correct_secret_Inr:
  "held_keys P secrets \<Longrightarrow> get_correct_secret secrets st = Inr secret \<Longrightarrow> px_public P secret = state_processor st"
  by (auto simp: get_correct_secret_def held_keys_def result_simps)

section \<open>Blocks\<close>

lemma construct_block_Inr:
  assumes "construct_block P secrets now tx h k = Inr xb" "held_keys P secrets"
    "sign_recovers (e_recover (kx_env (px_node P))) (px_sign P) (px_public P)" "app_replays (kx_env (px_node P)) v"
    "h = km_next_height k"
  shows "check_block (px_node P) h (km_state k) (xb_signed_block xb) v = Inr xb \<and>
    block_tx (xb_signed_block xb) = tx \<and> block_height (xb_signed_block xb) = h \<and>
    (covers (px_node P) C xb \<longrightarrow> commits (px_node P) C xb)"
proof -
  let ?K = "px_node P" and ?st = "km_state k"
  obtain secret r fsh aph lgh sb where
    s: "get_correct_secret secrets ?st = Inr secret"
    and r: "execute_transaction (kx_env ?K) (km_read ?K h ?st) tx now NoPriorData = Inr r" "er_height r = h"
    and m: "\<And>mh. tx_max_height (stj_inner tx) = Some mh \<Longrightarrow> \<not> mh < h"
    and hs: "hash_of_value (kx_sha ?K) (kx_enc_fs ?K) (er_fs r) = (Inr fsh :: 'a chain_error + hash)"
      "hash_of_value (kx_sha ?K) (kx_enc_app ?K) (er_app_state r) = (Inr aph :: 'a chain_error + hash)"
      "hash_of_value (kx_sha ?K) ser_logs (er_logs r) = (Inr lgh :: 'a chain_error + hash)"
    and sb: "sign_json P (px_block_json P) \<lparr>bk_tx = tx, bk_timestamp = now, bk_processor = px_public P secret,
          bk_height = h, bk_parent = bs_blockhash ?st, bk_framework_state = fsh,
          bk_app_state = aph, bk_logs = lgh, bk_loads = er_loads r\<rparr> secret = Inr sb"
    and xb: "xb = \<lparr>xb_signed_block = sb, xb_fs = er_fs r, xb_app_state = er_app_state r, xb_logs = er_logs r\<rparr>"
    using assms(1) unfolding assms(5)
    by (auto simp: construct_block_def Let_def result_simps split: option.splits)
  note key = get_correct_secret_Inr [OF assms(2) s]
  have again: "execute_transaction (kx_env ?K) (km_read ?K h ?st) tx now (PriorData (er_loads r) v) = Inr r"
    by (rule execution_replays [OF assms(4) r(1)])
  have i: "stj_inner sb = \<lparr>bk_tx = tx, bk_timestamp = now, bk_processor = px_public P secret,
          bk_height = h, bk_parent = bs_blockhash ?st, bk_framework_state = fsh,
          bk_app_state = aph, bk_logs = lgh, bk_loads = er_loads r\<rparr>" using sign_json_Inr [OF sb] by blast
  have v: "validate_block_signature (e_recover (kx_env ?K)) sb = Inr ()"
    by (simp add: validate_block_signature_def i conjunct2 [OF sign_json_Inr [OF sb], THEN mp, OF assms(3)])
  have b: "block_height sb = h" "block_tx sb = tx" by (simp_all add: block_height_def block_tx_def i)
  have mh: "(case tx_max_height (stj_inner tx) of None \<Rightarrow> Inr ()
      | Some mh \<Rightarrow> ensure (\<not> mh < block_height sb) (e mh)) = (Inr () :: 'a kerr + unit)" for e
    using m b by (auto split: option.split)
  have "check_block ?K h ?st sb v = Inr xb"
    by (simp add: check_block_def Let_def i b(2) key v again r(2) xb mh) (simp add: b)
  moreover have "covers ?K C xb \<longrightarrow> commits ?K C xb"
    using hs by (auto simp: covers_def commits_def Let_def xb i hash_of_value_def result_simps)
  ultimately show ?thesis by (simp add: xb b)
qed

lemma construct_block_error:
  "construct_block P secrets now tx h k = Inl e \<Longrightarrow>
     ks_height_for_tx (kx_store (px_node P)) (km_store k) (tx_hash tx) = Inr p \<Longrightarrow> e \<noteq> CeStore (ConflictingBlockInDb a b c)"
  by (auto simp: construct_block_def Let_def rbind_Inl_iff lift_err_def ok_or_def ensure_def get_correct_secret_def
      hash_of_value_def sign_json_def split: sum.splits option.splits if_splits)

section \<open>The mempool\<close>

lemma drop_tx_gone:
  "pool_laws M Q \<Longrightarrow> pool_inv M Q s \<Longrightarrow> h \<notin> fst ` set (pending M (drop_tx M h s))"
  using drop_tx_effect(2) [of M Q s h] by (simp add: pool_inv_def)

lemma drop_blocked_gone:
  assumes "pool_laws M Q" "pool_inv M Q s"
  shows "h \<notin> fst ` set (pending M (if lru_contains (pe_blocked M) h (mp_blocked s) then s
    else trigger (drop_tx M h (s\<lparr>mp_blocked := c\<rparr>))))"
proof (cases "lru_contains (pe_blocked M) h (mp_blocked s)")
  case True
  then obtain r where "(h, r) \<in> set (blocked M s)"
    using lru.contains [OF pool_lawsD(2) [OF assms(1)]] assms(2) by (auto simp: pool_inv_def dest: map_of_SomeD)
  then have "h \<notin> fst ` set (pending M s)" using pool_invD(5) [OF assms(2)] by fastforce
  then show ?thesis using True by simp
next
  case False
  have "ok_txs Q (mp_txs (s\<lparr>mp_blocked := c\<rparr>))" using assms(2) by (simp add: pool_inv_def)
  from drop_tx_effect(2) [OF assms(1) this, of h] show ?thesis using False by simp
qed

lemma signed_block_settles:
  "pool_laws M Q \<Longrightarrow> pool_inv M Q s \<Longrightarrow> tx_hash (block_tx b) \<notin> fst ` set (pending M (snd (pool_add_signed_block M b s)))"
  using drop_blocked_gone [of M Q s "tx_hash (block_tx b)" "lru_put (pe_blocked M) (tx_hash (block_tx b)) (InBlock b) (mp_blocked s)"]
  by (cases "lru_contains (pe_blocked M) (tx_hash (block_tx b)) (mp_blocked s)") (simp_all add: pool_add_signed_block_def Let_def)

lemma failed_settles:
  "pool_laws M Q \<Longrightarrow> pool_inv M Q s \<Longrightarrow> ft_txhash (stj_inner e) \<notin> fst ` set (pending M (snd (pool_add_failed M e s)))"
  using drop_blocked_gone [of M Q s "ft_txhash (stj_inner e)" "lru_put (pe_blocked M) (ft_txhash (stj_inner e)) (FailedTx e) (mp_blocked s)"]
  by (cases "lru_contains (pe_blocked M) (ft_txhash (stj_inner e)) (mp_blocked s)") (simp_all add: pool_add_failed_def Let_def)

lemma add_executed_mempool:
  assumes "add_executed_block K xb k = Some (Inr u, k')"
  shows "km_mempool k' = snd (pool_add_signed_block (kx_pool K) (xb_signed_block xb) (km_mempool k))"
proof -
  obtain r1 s1 where 1: "save_states K xb (km_store k) = (r1, s1)" by force
  obtain r2 s2 where 2: "ks_add_block (kx_store K) (kx_cache K) (storable (xb_signed_block xb)) s1 = (r2, s2)" by force
  obtain v w where ok: "r1 = Inr v" "r2 = Inr w"
    using assms 1 2 by (cases r1; cases r2) (auto simp: add_executed_block_def)
  show ?thesis
  proof (cases "get_next_to_archive (kx_store K) (kx_cache K) s2")
    case None
    then show ?thesis using assms 1 2 ok by (auto simp: add_executed_block_def Let_def land_block_def split: if_splits)
  next
    case (Some p)
    then show ?thesis using assms 1 2 ok
      by (cases p; cases "fst p") (auto simp: add_executed_block_def Let_def land_block_def split: if_splits)
  qed
qed

lemma report_failure_result:
  assumes "pool_laws (kx_pool (px_node P)) Q" "pool_inv (kx_pool (px_node P)) Q (km_mempool k)"
    and "\<And>a b c. e \<noteq> CeStore (ConflictingBlockInDb a b c)"
  shows "pool_inv (kx_pool (px_node P)) Q (km_mempool (report_failure P secrets e h ph k)) \<and>
    h \<notin> fst ` set (pending (kx_pool (px_node P)) (km_mempool (report_failure P secrets e h ph k)))"
proof -
  let ?M = "kx_pool (px_node P)"
  let ?r = "rbind (get_correct_secret secrets (km_state k)) (sign_json P (px_failed_json P)
             \<lparr>ft_txhash = h, ft_proposed_height = ph, ft_error = as_kolme_error P e\<rparr>)"
  have e: "report_failure P secrets e h ph k = (case ?r of
      Inr failed \<Rightarrow> snd (add_failed_transaction (px_node P) failed k)
    | Inl _ \<Rightarrow> k\<lparr>km_mempool := pool_remove ?M h (km_mempool k)\<rparr>)"
    using assms(3) by (auto simp: report_failure_def split: chain_error.split store_error.split)
  show ?thesis
  proof (cases ?r)
    case (Inl err)
    then show ?thesis
      using drop_tx_gone [OF assms(1,2)] pool_inv_drop [OF assms(1,2)] by (simp add: e pool_remove_def)
  next
    case (Inr failed)
    then have h: "ft_txhash (stj_inner failed) = h"
      using conjunct1 [OF sign_json_Inr] by (fastforce simp: rbind_Inr_iff)
    have "km_mempool (snd (add_failed_transaction (px_node P) failed k)) = snd (pool_add_failed ?M failed (km_mempool k))"
      by (simp add: add_failed_transaction_def Let_def case_prod_unfold)
    then show ?thesis
      using failed_settles [OF assms(1,2), of failed] pool_inv_failed [OF assms(1,2), of failed] by (simp add: e Inr h)
  qed
qed

lemma report_failure_frame:
  "km_store (report_failure P secrets e h ph k) = km_store k \<and> km_current (report_failure P secrets e h ph k) = km_current k"
  by (auto simp: report_failure_def add_failed_transaction_def Let_def case_prod_unfold
      split: chain_error.split store_error.split sum.split)

lemma emit_latest_frame:
  "km_store (emit_latest_or_keep P secrets t k) = km_store k \<and> km_current (emit_latest_or_keep P secrets t k) = km_current k \<and>
   km_mempool (emit_latest_or_keep P secrets t k) = km_mempool k"
  by (auto simp: emit_latest_or_keep_def emit_latest_def update_latest_block_def result_simps split: sum.split option.splits)

section \<open>A turn of the processor\<close>

text \<open>The processor's own loop is the only writer of its store: its node is at the latest block.\<close>

definition at_latest :: "'b block_table \<Rightarrow> ('d, 'm) signed_block list \<Rightarrow> bool" where
  "at_latest f bs \<longleftrightarrow> latest_spec f = (if bs = [] then None else Some (of_nat (length bs - 1)))"

lemma at_latest_free:
  assumes "at_latest f bs" "Suc (length bs) < 2 ^ 64" "length bs \<le> n" "n < 2 ^ 64"
  shows "f (of_nat n) = None"
proof (rule ccontr)
  assume "f (of_nat n) \<noteq> None"
  then have d: "of_nat n \<in> dom f" by auto
  then have "bs \<noteq> []" and m: "Max (dom f) = of_nat (length bs - 1)"
    using assms(1) by (auto simp: at_latest_def latest_spec_def split: if_splits)
  have "of_nat n \<le> (of_nat (length bs - 1) :: u64)" using Max_ge [OF finite d] m by simp
  moreover have "unat (of_nat n :: u64) = n" "unat (of_nat (length bs - 1) :: u64) = length bs - 1"
    using assms(2,4) by (auto intro!: unat_of_nat_small)
  ultimately have "n \<le> length bs - 1" by (metis word_le_nat_alt)
  then show False using assms(3) \<open>bs \<noteq> []\<close> by (cases bs) auto
qed

lemma resync_at_latest:
  assumes "on_fjall K C enc dec B n k f" "follows K C (stored_layers k) k f bs" "at_latest f bs"
  shows "resync K k = Some (Inr k)"
proof -
  note K = on_fjallD [OF assms(1)]
  have "ks_load_latest (kx_store K) (km_store k) = Inr (latest_spec f)"
    using fjall_node.ks_finds_latest [OF K(2)] K(1) by (simp add: runs_on_def)
  moreover have "height_next (of_nat (length bs - 1)) = (of_nat (length bs) :: u64)" if "bs \<noteq> []"
    using that by (cases bs rule: rev_cases) (simp_all add: height_next_def add.commute)
  ultimately show ?thesis
    using assms(3) follows_next [OF assms(2)] by (simp add: resync_def at_latest_def)
qed

lemma tx_known:
  assumes "on_fjall K C enc dec B n k f" "length t = 32"
  shows "\<exists>r. ks_height_for_tx (kx_store K) (km_store k) t = Inr r \<and> (r \<noteq> None \<longleftrightarrow> (\<exists>b \<in> ran f. sb_txhash b = t))"
proof -
  note K = on_fjallD [OF assms(1)]
  obtain r where "ks_height_for_tx (kx_store K) (km_store k) t = Inr r" "tx_spec f t r"
    using fjall_node.ks_finds_tx [OF K(2) assms(2)] K(1) by (auto simp: runs_on_def)
  moreover from this have "r \<noteq> None \<longleftrightarrow> (\<exists>b \<in> ran f. sb_txhash b = t)"
    unfolding tx_spec_def ran_def by (cases r) (force, metis (mono_tags, lifting) mem_Collect_eq option.distinct(1))
  ultimately show ?thesis by blast
qed

lemma frame_follows:
  assumes "km_store k' = km_store k" "km_current k' = km_current k"
  shows "on_fjall K C enc dec B n k' f = on_fjall K C enc dec B n k f"
    "follows K C (stored_layers k') k' f bs = follows K C (stored_layers k) k f bs"
  using assms by (simp_all add: on_fjall_def follows_def stored_layers_def km_state_def)

text \<open>The node of a processor, on Fjall.\<close>

definition processor_ready ::
  "('d, 'm, 's, kv, (u64 \<times> ('d, 'm) signed_block storable_block) list, 'ct, 'cb, 'k) penv \<Rightarrow> 'k secrets \<Rightarrow> contents set \<Rightarrow>
    ('d, 'm) signed_block enc \<Rightarrow> ('d, 'm) signed_block dec \<Rightarrow> ('d, 'm) signed_block storable_block set \<Rightarrow> nat \<Rightarrow> ('ct, 'cb) pool_ok \<Rightarrow>
    ('d, 'm, 's, kv, (u64 \<times> ('d, 'm) signed_block storable_block) list, 'ct, 'cb) kolme \<Rightarrow>
    ('d, 'm) signed_block block_table \<Rightarrow> ('d, 'm) signed_block list \<Rightarrow> bool" where
  "processor_ready P secrets C enc dec B n Q k f bs \<longleftrightarrow>
     on_fjall (px_node P) C enc dec B n k f \<and> follows (px_node P) C (stored_layers k) k f bs \<and> at_latest f bs \<and>
     txs_once (ran f) \<and> held_keys P secrets \<and>
     sign_recovers (e_recover (kx_env (px_node P))) (px_sign P) (px_public P) \<and>
     pool_laws (kx_pool (px_node P)) Q \<and> pool_inv (kx_pool (px_node P)) Q (km_mempool k)"

lemma produced_block:
  assumes ready: "processor_ready P secrets C enc dec B n Q k f bs" and room: "Suc (Suc (length bs)) < 2 ^ 64"
    and app: "app_replays (kx_env (px_node P)) v" and xb: "construct_block P secrets now tx (km_next_height k) k = Inr xb"
    and world: "covers (px_node P) C xb" "storable_ok C enc dec B (storable (xb_signed_block xb))"
    and fresh: "\<forall>b \<in> ran f. sb_txhash b \<noteq> tx_hash tx"
  shows "\<exists>k'. add_executed_block (px_node P) xb k = Some (Inr (), k') \<and>
    check_block (px_node P) (of_nat (length bs)) (km_state k) (xb_signed_block xb) v = Inr xb \<and>
    block_tx (xb_signed_block xb) = tx \<and> km_state k' = state_after xb \<and>
    processor_ready P secrets C enc dec B n Q k' (f(of_nat (length bs) \<mapsto> storable (xb_signed_block xb))) (bs @ [xb_signed_block xb]) \<and>
    tx_hash tx \<notin> fst ` set (pending (kx_pool (px_node P)) (km_mempool k'))"
proof -
  let ?K = "px_node P" and ?b = "xb_signed_block xb"
  let ?f = "f(of_nat (length bs) \<mapsto> storable ?b)"
  note r = ready [unfolded processor_ready_def]
  have next_h: "km_next_height k = of_nat (length bs)" using r follows_next by blast
  have ck: "check_block ?K (of_nat (length bs)) (km_state k) ?b v = Inr xb" and tx: "block_tx ?b = tx"
    and h: "block_height ?b = of_nat (length bs)" and com: "commits ?K C xb"
    using construct_block_Inr [OF xb _ _ app refl, where C = C] r world(1) by (simp_all add: next_h)
  have al: "at_latest f bs" and on: "on_fjall ?K C enc dec B n k f" and fl: "follows ?K C (stored_layers k) k f bs"
    using r by blast+
  have less: "Suc (length bs) < 2 ^ 64" using room by simp
  have free: "f (of_nat (length bs)) = None" "f (of_nat (Suc (length bs))) = None"
    by (rule at_latest_free [OF al]; use room in simp)+
  have ne: "of_nat (Suc (length bs)) \<noteq> (of_nat (length bs) :: u64)" by simp
  have once: "txs_once (insert (storable ?b) (ran f))"
  proof -
    have "sb_txhash (storable ?b) = tx_hash tx" by (simp add: tx)
    moreover have "txs_once (ran f)" using r by blast
    ultimately show ?thesis using fresh unfolding txs_once_def by (metis insert_iff)
  qed
  have cov: "covers ?K C xb'" if "check_block ?K (of_nat (length bs)) (km_state k) ?b v = Inr xb'" for xb'
    using that ck world(1) by simp
  obtain r' k' where a: "add_block_with ?K ?b v k = Some (r', k')" "r' = Inr ()" "km_current k' = SomeBlock ?b (state_after xb)"
     "on_fjall ?K C enc dec B n k' ?f" "follows ?K C (stored_layers k') k' ?f (bs @ [?b])"
    using fjall_add_block [where b = ?b and v = v and g = "of_nat (Suc (length bs))", OF on fl less cov world(2) once free(2)]
      ne ck com free(1) by (auto simp: h)
  have add: "add_executed_block ?K xb k = Some (Inr (), k')"
    using a(1,2) ck by (simp add: add_block_with_def next_h)
  have mp: "km_mempool k' = snd (pool_add_signed_block (kx_pool ?K) ?b (km_mempool k))"
    by (rule add_executed_mempool [OF add])
  have "d \<le> of_nat (length bs)" if "d \<in> dom f" for d
  proof (rule ccontr)
    assume "\<not> d \<le> of_nat (length bs)"
    then have "length bs \<le> unat d" "unat d < 2 ^ 64"
      using room unsigned_less [of d, where ?'a = nat] by (simp_all add: word_le_nat_alt unat_of_nat_small)
    then have "f (of_nat (unat d)) = None" by (intro at_latest_free [OF al]) (use room in simp_all)
    then show False using that by auto
  qed
  then have "Max (dom ?f) = of_nat (length bs)" by (intro Max_eqI) auto
  then have "latest_spec ?f = Some (of_nat (length bs))" by (simp add: latest_spec_def)
  then have "at_latest ?f (bs @ [?b])" by (simp add: at_latest_def)
  moreover have "txs_once (ran ?f)" by (rule txs_once_subset [OF once]) (auto simp: ran_def)
  ultimately show ?thesis
    using a r add ck tx signed_block_settles [of "kx_pool ?K" Q "km_mempool k" ?b] pool_inv_signed_block [of "kx_pool ?K" Q "km_mempool k" ?b]
    by (simp add: processor_ready_def mp km_state_def)
qed

lemma ready_frame:
  assumes "processor_ready P secrets C enc dec B n Q k f bs" "km_store k' = km_store k" "km_current k' = km_current k"
    and "pool_inv (kx_pool (px_node P)) Q (km_mempool k')"
  shows "processor_ready P secrets C enc dec B n Q k' f bs"
  using assms(1,4) frame_follows [OF assms(2,3)] by (simp add: processor_ready_def)

text \<open>C13: the processor settles a transaction it takes from its mempool.  One that is in a block already is
  left alone.  Otherwise the transaction is no longer pending, and either its block cannot be built, the
  error is returned and the node follows the same chain, or a block that carries it is the next of the
  node's chain, and this block passes the checks of every other node in the same state.  The node is
  again one that can process a transaction.\<close>

theorem processor_settles_transaction:
  assumes "processor_ready P secrets C enc dec B n Q k f bs" "Suc (Suc (length bs)) < 2 ^ 64"
    and "app_replays (kx_env (px_node P)) v" "length (tx_hash tx) = 32"
    and "\<And>xb. construct_block P secrets now tx (km_next_height k) k = Inr xb \<Longrightarrow>
      covers (px_node P) C xb \<and> storable_ok C enc dec B (storable (xb_signed_block xb))"
  shows "\<exists>r k'. add_transaction P secrets now later tx k = Some (r, k') \<and>
    (if \<exists>b \<in> ran f. sb_txhash b = tx_hash tx then r = Inr () \<and> k' = k
     else tx_hash tx \<notin> fst ` set (pending (kx_pool (px_node P)) (km_mempool k')) \<and>
       (case construct_block P secrets now tx (km_next_height k) k of
          Inl e \<Rightarrow> r = Inl e \<and> processor_ready P secrets C enc dec B n Q k' f bs
        | Inr xb \<Rightarrow> r = Inr () \<and> block_tx (xb_signed_block xb) = tx \<and> km_state k' = state_after xb \<and>
            check_block (px_node P) (of_nat (length bs)) (km_state k) (xb_signed_block xb) v = Inr xb \<and>
            processor_ready P secrets C enc dec B n Q k'
              (f(of_nat (length bs) \<mapsto> storable (xb_signed_block xb))) (bs @ [xb_signed_block xb])))"
proof -
  let ?K = "px_node P"
  note r = assms(1) [unfolded processor_ready_def]
  have sync: "resync ?K k = Some (Inr k)" using r resync_at_latest by blast
  obtain p where p: "ks_height_for_tx (kx_store ?K) (km_store k) (tx_hash tx) = Inr p"
      "p \<noteq> None \<longleftrightarrow> (\<exists>b \<in> ran f. sb_txhash b = tx_hash tx)"
    using tx_known [OF _ assms(4)] r by blast
  show ?thesis
  proof (cases "\<exists>b \<in> ran f. sb_txhash b = tx_hash tx")
    case True
    then show ?thesis using p sync by (auto simp: add_transaction_def)
  next
    case new: False
    then have p0: "ks_height_for_tx (kx_store ?K) (km_store k) (tx_hash tx) = Inr None" using p by simp
    show ?thesis
    proof (cases "construct_block P secrets now tx (km_next_height k) k")
      case (Inl e)
      let ?k = "report_failure P secrets e (tx_hash tx) (km_next_height k) k"
      have e: "e \<noteq> CeStore (ConflictingBlockInDb a b c)" for a b c by (rule construct_block_error [OF Inl p0])
      have mp: "pool_inv (kx_pool ?K) Q (km_mempool ?k)" "tx_hash tx \<notin> fst ` set (pending (kx_pool ?K) (km_mempool ?k))"
        using report_failure_result [OF _ _ e, where Q = Q] r by blast+
      have "add_transaction P secrets now later tx k = Some (Inl e, emit_latest_or_keep P secrets later ?k)"
        by (simp add: add_transaction_def sync p0 produce_block_def Inl)
      moreover have "processor_ready P secrets C enc dec B n Q (emit_latest_or_keep P secrets later ?k) f bs"
        by (rule ready_frame [OF assms(1)]) (simp_all add: emit_latest_frame report_failure_frame mp(1))
      ultimately show ?thesis using new Inl mp(2) by (simp add: emit_latest_frame)
    next
      case (Inr xb)
      obtain k' where k': "add_executed_block ?K xb k = Some (Inr (), k')"
          "check_block ?K (of_nat (length bs)) (km_state k) (xb_signed_block xb) v = Inr xb"
          "block_tx (xb_signed_block xb) = tx" "km_state k' = state_after xb"
          "processor_ready P secrets C enc dec B n Q k' (f(of_nat (length bs) \<mapsto> storable (xb_signed_block xb))) (bs @ [xb_signed_block xb])"
          "tx_hash tx \<notin> fst ` set (pending (kx_pool ?K) (km_mempool k'))"
        using produced_block [OF assms(1,2,3) Inr] assms(5) [OF Inr] new by blast
      let ?k = "emit_latest_or_keep P secrets later k'"
      have "add_transaction P secrets now later tx k = Some (Inr (), ?k)"
        by (simp add: add_transaction_def sync p0 produce_block_def Inr k'(1))
      moreover have "processor_ready P secrets C enc dec B n Q ?k
          (f(of_nat (length bs) \<mapsto> storable (xb_signed_block xb))) (bs @ [xb_signed_block xb])"
        using k'(5) by (rule ready_frame) (use k'(5) in \<open>simp_all add: emit_latest_frame processor_ready_def\<close>)
      ultimately show ?thesis using new Inr k' by (simp add: emit_latest_frame km_state_def)
    qed
  qed
qed

section \<open>Approvals\<close>

abbreviation current_approvals :: "validator_set \<Rightarrow> pending_bridge_action \<Rightarrow> (public_key \<times> sigrec) list" where
  "current_approvals vs a \<equiv> filter (\<lambda>e. fst e \<in> set (approvers vs)) (pa_approvals a)"

lemma take_approvals:
  "\<forall>e \<in> set es. sig_validate rcv (snd e) payload = Some (fst e) \<Longrightarrow>
    rfold (take_approval rcv vs payload) es taken =
      (Inr (taken @ map snd (filter (\<lambda>e. fst e \<in> set (approvers vs)) es)) :: 'd kerr + sigrec list)"
  by (induction es arbitrary: taken) (auto simp: take_approval_def)

lemma approval_due_result:
  fixes fs :: "'d framework_state"
  assumes inv: "fs_inv (kx_env (px_node P)) v fs" and cs: "om_get (fs_chains fs) chain = Some cs"
    and a: "om_first (cs_pending_actions cs) = Some (i, a)"
    and payload: "payload_bytes_to_sign (e_b64_decode (kx_env (px_node P))) a chain = (Inr payload :: 'd kerr + bytes)"
  shows "approval_due P secret chain fs =
    Inr (if unat (needed_approvers (fs_validator_set fs)) \<le> length (current_approvals (fs_validator_set fs) a) \<and> pa_processor a = None
      then Some (MsgProcessorApprove chain i (px_sign P secret payload) (map snd (current_approvals (fs_validator_set fs) a)))
      else None)"
    "om_get (cs_pending_actions cs) i = Some a" "om_wf (pa_approvals a)"
    "\<forall>e \<in> set (pa_approvals a). sig_validate (e_recover (kx_env (px_node P))) (snd e) payload = Some (fst e)"
proof -
  let ?E = "kx_env (px_node P)"
  have ci: "chain_inv ?E chain cs" by (rule fs_invD(4) [OF inv cs])
  show get: "om_get (cs_pending_actions cs) i = Some a"
    using a by (auto simp: om_first_def om_get_def split: list.splits)
  then have av: "action_valid ?E chain a" using ci by (auto simp: chain_inv_def)
  then show wf: "om_wf (pa_approvals a)" by (simp add: action_valid_def)
  show ok: "\<forall>e \<in> set (pa_approvals a). sig_validate (e_recover ?E) (snd e) payload = Some (fst e)"
  proof
    fix e assume "e \<in> set (pa_approvals a)"
    then have "om_get (pa_approvals a) (fst e) = Some (snd e)" using om_get_iff_in_set [OF wf] by simp
    then show "sig_validate (e_recover ?E) (snd e) payload = Some (fst e)"
      using av payload by (auto simp: action_valid_def)
  qed
  show "approval_due P secret chain fs =
    Inr (if unat (needed_approvers (fs_validator_set fs)) \<le> length (current_approvals (fs_validator_set fs) a) \<and> pa_processor a = None
      then Some (MsgProcessorApprove chain i (px_sign P secret payload) (map snd (current_approvals (fs_validator_set fs) a)))
      else None)"
    by (simp add: approval_due_def Let_def get_next_bridge_action_def chains_get_def cs a payload take_approvals [OF ok])
qed

text \<open>C19: the processor approves bridge actions in order.  In a state with the invariant, whose validator set names
  the processor's key, the message it sends next is for the first pending action of the chain; it is sent exactly if
  that action has no processor signature yet and enough stored approvals are by approvers of the current set; it lists
  those approvals, and the chain accepts it.  An action that is not ready holds back all later ones.\<close>

theorem processor_approves_in_order:
  fixes fs :: "'d framework_state"
  assumes "fs_inv (kx_env (px_node P)) v fs" "om_get (fs_chains fs) chain = Some cs"
    and "om_first (cs_pending_actions cs) = Some (i, a)"
    and "payload_bytes_to_sign (e_b64_decode (kx_env (px_node P))) a chain = (Inr payload :: 'd kerr + bytes)"
    and "sign_recovers (e_recover (kx_env (px_node P))) (px_sign P) (px_public P)"
      "px_public P secret = processor (fs_validator_set fs)"
  shows "case approval_due P secret chain fs of
      Inr (Some msg) \<Rightarrow> pa_processor a = None \<and>
        unat (needed_approvers (fs_validator_set fs)) \<le> length (current_approvals (fs_validator_set fs) a) \<and>
        (\<exists>proc sgs. msg = MsgProcessorApprove chain i proc sgs \<and> sgs = map snd (current_approvals (fs_validator_set fs) a) \<and>
          is_ok (processor_approve (kx_env (px_node P)) chain i proc sgs fs))
    | Inr None \<Rightarrow> pa_processor a \<noteq> None \<or>
        length (current_approvals (fs_validator_set fs) a) < unat (needed_approvers (fs_validator_set fs))
    | Inl e \<Rightarrow> False"
proof -
  let ?vs = "fs_validator_set fs" and ?E = "kx_env (px_node P)"
  note d = approval_due_result [OF assms(1-4)]
  show ?thesis
  proof (cases "unat (needed_approvers ?vs) \<le> length (current_approvals ?vs a) \<and> pa_processor a = None")
    case True
    let ?keys = "map fst (current_approvals ?vs a)"
    have "sig_validate (e_recover ?E) (px_sign P secret payload) payload = Some (processor ?vs)"
      using assms(5,6) by (simp add: sign_recovers_def sig_validate_def)
    moreover have "map (\<lambda>sg. sig_validate (e_recover ?E) sg payload) (map snd (current_approvals ?vs a)) = map Some ?keys"
      using d(4) by simp
    moreover have "distinct ?keys" using om_wf_distinct [OF d(3)] by (simp add: distinct_map_filter)
    ultimately have "is_ok (processor_approve ?E chain i (px_sign P secret payload) (map snd (current_approvals ?vs a)) fs)"
      unfolding processor_approve_iff using True assms(2,4) d(2)
      by (intro exI [of _ cs] exI [of _ a] exI [of _ payload] exI [of _ ?keys]) auto
    then show ?thesis using True d(1) by simp
  next
    case False
    then show ?thesis using d(1) by auto
  qed
qed

section \<open>An instance\<close>

type_synonym sample_penv_type = "(int, unit, unit, kv, (u64 \<times> (int, unit) signed_block storable_block) list,
  (hash \<times> (int, unit) mempool_item) list, (hash \<times> (int, unit) block_reason) list, u8) penv"

definition sample_penv :: sample_penv_type where
  "sample_penv = \<lparr>px_node = fjall_env, px_sign = (\<lambda>k _. \<lparr>recid = 0, sig = Signature [k]\<rparr>), px_public = (\<lambda>k. PublicKey [k]),
     px_tx_json = (\<lambda>_. Some ''tx''), px_block_json = (\<lambda>_. Some ''block''), px_failed_json = (\<lambda>_. Some ''failed''),
     px_latest_json = (\<lambda>_. Some ''latest''), px_error_text = (\<lambda>_. ''error'')\<rparr>"

lemma sample_penv_simps:
  "px_node sample_penv = fjall_env" "kx_env fjall_env = sample_env" "kx_sha fjall_env = pad_sha" "kx_pool fjall_env = plain_env"
  "kx_enc_fs fjall_env = (\<lambda>_. store_byte 8)" "kx_enc_app fjall_env = (\<lambda>_. store_byte 9)"
  by (simp_all add: sample_penv_def sample_kenv_def)

lemma sample_signs: "sign_recovers (e_recover sample_env) (px_sign sample_penv) (px_public sample_penv)"
  by (simp add: sign_recovers_def sample_penv_def sample_env_def)

lemma sample_replays: "app_replays sample_env v"
  by (simp add: app_replays_def sample_env_def blind_replays [OF blind_Inr])

lemma sample_ready:
  "processor_ready sample_penv (processor_new sample_penv 1) sample_contents enc_sample dec_sample sample_blocks 0 plain_ok
     first_node (\<lambda>_. None) []"
  using first_node_runs first_node_follows sample_signs plain_laws pool_inv_new [OF plain_laws] held_keys_new
  by (simp add: processor_ready_def sample_penv_simps at_latest_def latest_spec_def txs_once_def first_node_def)

lemma sample_constructs:
  "construct_block sample_penv (processor_new sample_penv 1) 0 first_tx (km_next_height first_node) first_node = Inr (first_executed 0)"
proof -
  have "is_ok (execute_transaction sample_env (sample_read\<lparr>kr_next_height := 0\<rparr>) first_tx 0 NoPriorData)"
    by (simp add: exec_defs sample_defs first_tx_def genesis_tx_def stj_inner_def)
  then obtain r where r: "execute_transaction sample_env (sample_read\<lparr>kr_next_height := 0\<rparr>) first_tx 0 NoPriorData = Inr r"
    by (auto simp: is_ok_iff)
  obtain q where q: "execute_transaction sample_env (sample_read\<lparr>kr_next_height := 0\<rparr>) first_tx 0 (PriorData [] ValidateDataLoads) = Inr q"
      "er_app_state q = ()" "er_logs q = [[]]" "er_loads q = []" "er_height q = 0"
    using first_execution by blast
  have "er_loads r = []" using r by (auto simp: exec_defs sample_defs first_tx_def genesis_tx_def stj_inner_def)
  then have "r = q" using execution_replays [OF sample_replays r, of ValidateDataLoads] q(1) by simp
  then have fs: "er_fs r = first_fs" using q(1) by (simp add: first_fs_def)
  have k: "km_read fjall_env 0 first_state = sample_read\<lparr>kr_next_height := 0\<rparr>"
    by (simp add: km_read_def sample_kenv_def sample_read_def first_state_def)
  have n: "km_next_height first_node = 0" "km_state first_node = first_state" by (simp_all add: km_next_height_def km_state_def first_node_def)
  have p: "get_correct_secret (processor_new sample_penv 1) first_state = Inr 1" "bs_blockhash first_state = genesis_parent pad_sha"
    by (simp_all add: get_correct_secret_def processor_new_def sample_penv_def state_processor_def first_state_def fs_new_def
        sample_genesis_def sample_set_def)
  have mh: "tx_max_height (stj_inner first_tx) = None" by (simp add: first_tx_def stj_inner_def genesis_tx_def sign_tx_def)
  have tx: "ks_height_for_tx (kx_store fjall_env) (km_store first_node) (tx_hash first_tx) = Inr None"
    using tx_known [OF first_node_runs, of "tx_hash first_tx"] by (auto simp: sample_hashes)
  show ?thesis
    by (simp add: construct_block_def Let_def sample_penv_simps n p tx k r \<open>r = q\<close> q mh fs [unfolded \<open>r = q\<close>] hash_of_value_def
        first_contents contents_hash_def)
      (simp add: sign_json_def tj_new_def tj_sign_def Let_def sample_penv_def sample_kenv_def first_executed_def first_block_def)
qed

theorem processor_settles_transaction_witness:
  "\<exists>k'. add_transaction sample_penv (processor_new sample_penv 1) 0 0 first_tx first_node = Some (Inr (), k') \<and>
     km_state k' = state_after (first_executed 0) \<and>
     processor_ready sample_penv (processor_new sample_penv 1) sample_contents enc_sample dec_sample sample_blocks 0 plain_ok
       k' one_block [first_block 0]"
proof -
  have b: "xb_signed_block (first_executed 0) = first_block 0" by (simp add: first_executed_def)
  have "app_replays (kx_env (px_node sample_penv)) ValidateDataLoads" by (simp add: sample_penv_simps sample_replays)
  from processor_settles_transaction [OF sample_ready _ this, of first_tx 0 0] show ?thesis
    using first_covers sample_storable [of "first_block 0"] by (auto simp: sample_constructs b sample_penv_simps sample_hashes)
qed

definition approved_fs :: "int framework_state" where
  "approved_fs = put_chain OsmosisLocal ((into_state (snd (gi_chains sample_genesis ! 0)))\<lparr>cs_pending_actions :=
       [(0, \<lparr>pa_payload = ''pay'', pa_approvals = [(PublicKey [3], \<lparr>recid = 0, sig = Signature [3]\<rparr>)], pa_processor = None\<rparr>),
        (1, \<lparr>pa_payload = ''later'', pa_approvals = [], pa_processor = None\<rparr>)]\<rparr>) (fs_new sample_genesis)"

lemma approved_fs_inv: "fs_inv sample_env of_int approved_fs"
proof -
  have "fs_inv sample_env of_int (fs_new sample_genesis :: int framework_state)"
    using sample_inv by (simp add: sample_read_def)
  then show ?thesis unfolding approved_fs_def
    by (rule fs_inv_put_chain) (auto simp: chain_inv_def om_wf_Cons into_state_def om_get_def action_valid_def
      payload_bytes_to_sign_def chain_name_of_def sig_validate_def sample_env_def split: if_splits)
qed

theorem processor_approves_in_order_witness:
  "\<exists>sgs. approval_due sample_penv 1 OsmosisLocal approved_fs = Inr (Some (MsgProcessorApprove OsmosisLocal 0 \<lparr>recid = 0, sig = Signature [1]\<rparr> sgs)) \<and>
     is_ok (processor_approve sample_env OsmosisLocal 0 \<lparr>recid = 0, sig = Signature [1]\<rparr> sgs approved_fs)"
proof -
  obtain cs where cs: "om_get (fs_chains approved_fs) OsmosisLocal = Some cs"
      "om_first (cs_pending_actions cs) = Some (0,
        \<lparr>pa_payload = ''pay'', pa_approvals = [(PublicKey [3], \<lparr>recid = 0, sig = Signature [3]\<rparr>)], pa_processor = None\<rparr>)"
    by (simp add: approved_fs_def put_chain_def om_first_def)
  have inv: "fs_inv (kx_env (px_node sample_penv)) of_int approved_fs" by (simp add: sample_penv_simps approved_fs_inv)
  have vs: "fs_validator_set approved_fs = sample_set" by (simp add: approved_fs_def put_chain_def fs_new_def sample_genesis_def)
  have pay: "payload_bytes_to_sign (e_b64_decode (kx_env (px_node sample_penv)))
      \<lparr>pa_payload = ''pay'', pa_approvals = [(PublicKey [3], \<lparr>recid = 0, sig = Signature [3]\<rparr>)], pa_processor = None\<rparr> OsmosisLocal =
      (Inr (str_bytes ''pay'') :: int kerr + bytes)"
    by (simp add: payload_bytes_to_sign_def chain_name_of_def)
  have p: "px_public sample_penv 1 = processor (fs_validator_set approved_fs)" by (simp add: vs sample_set_def sample_penv_def)
  have signs: "sign_recovers (e_recover (kx_env (px_node sample_penv))) (px_sign sample_penv) (px_public sample_penv)"
    by (simp add: sample_penv_simps sample_signs)
  have due: "approval_due sample_penv 1 OsmosisLocal approved_fs = Inr (Some (MsgProcessorApprove OsmosisLocal 0
      \<lparr>recid = 0, sig = Signature [1]\<rparr> [\<lparr>recid = 0, sig = Signature [3]\<rparr>]))"
    using approval_due_result(1) [OF inv cs pay, of 1] by (simp add: vs sample_set_def) (simp add: sample_penv_def)
  obtain proc sgs where "MsgProcessorApprove OsmosisLocal 0 \<lparr>recid = 0, sig = Signature [1]\<rparr> [\<lparr>recid = 0, sig = Signature [3]\<rparr>] =
      (MsgProcessorApprove OsmosisLocal 0 proc sgs :: (int, unit) message)"
      "is_ok (processor_approve (kx_env (px_node sample_penv)) OsmosisLocal 0 proc sgs approved_fs)"
    using processor_approves_in_order [OF inv cs pay signs p, unfolded due sum.case option.case, THEN conjunct2, THEN conjunct2]
    by (elim exE conjE) (rule that)
  then show ?thesis using due unfolding sample_penv_simps by blast
qed

end
