(* ===== verification/Sync_Manager.thy ===== *)
theory Sync_Manager
  imports Chain
begin

text \<open>
  Gossip (\<open>kolme/src/gossip.rs\<close>) and its sync manager (\<open>kolme/src/gossip/sync_manager.rs\<close>): which blocks
  and Merkle layers a node still needs, what it asks its peers for, and what it does with each message.

  Times are nanoseconds; an operation reads the clock once.  The operations run under the lock of the sync
  manager, one after the other.  Sending, logging and subscriptions are I/O: a handler returns the messages it
  sends.  Debug assertions are left out, as in a release build.
\<close>

section \<open>State\<close>

datatype sync_mode = StateTransfer | Archive | BlockTransfer | ValidateFrom u64

record request_status =
  rq_last_sent :: "nat option"
  rq_warning_updated :: "nat option"

datatype peer_request = DataBlock u64 | DataMerkle hash

record ('d, 'm) pending_block =
  pb_block :: "('d, 'm) signed_block"
  pb_needed :: "(hash, request_status) omap"
  pb_pending :: "hash \<Rightarrow> layer option"
  pb_reverse :: "hash \<Rightarrow> hash list option"

datatype ('d, 'm) waiting_block =
    Needed request_status
  | Received "('d, 'm) signed_block"
  | Pending "('d, 'm) pending_block"

record ('d, 'm) sync_manager =
  sm_needed :: "(u64, ('d, 'm) waiting_block) omap"
  sm_trigger :: nat

record ('d, 'm, 's, 'st, 'c, 'ct, 'cb) gossip_env =
  gx_node :: "('d, 'm, 's, 'st, 'c, 'ct, 'cb) kenv"
  gx_sync_mode :: sync_mode
  gx_validation :: data_load_validation
  gx_limit :: nat
  gx_warning_period :: nat

type_synonym ('d, 'm, 's, 'st, 'c, 'ct, 'cb, 'a) sync_result =
  "('d chain_error + 'a) \<times> ('d, 'm, 's, 'st, 'c, 'ct, 'cb) kolme \<times> ('d, 'm) sync_manager"

definition request_new :: request_status where
  "request_new = \<lparr>rq_last_sent = None, rq_warning_updated = None\<rparr>"

definition should_request :: "nat \<Rightarrow> nat \<Rightarrow> request_status \<Rightarrow> bool \<times> request_status" where
  "should_request warning_period now st =
     (let res = (case rq_last_sent st of None \<Rightarrow> True | Some sent \<Rightarrow> 2 \<le> (now - sent) div 10 ^ 9)
      in (res, \<lparr>rq_last_sent = (if res then Some now else rq_last_sent st),
               rq_warning_updated = (case rq_warning_updated st of
                  None \<Rightarrow> Some now
                | Some updated \<Rightarrow> if warning_period \<le> now - updated then Some now else Some updated)\<rparr>))"

definition sync_default :: "('d, 'm) sync_manager" where
  "sync_default = \<lparr>sm_needed = [], sm_trigger = 0\<rparr>"

definition sync_trigger :: "('d, 'm) sync_manager \<Rightarrow> ('d, 'm) sync_manager" where
  "sync_trigger sm = sm\<lparr>sm_trigger := sm_trigger sm + 1\<rparr>"

section \<open>Blocks\<close>

definition km_has_block ::
  "('d, 'm, 's, 'st, 'c, 'ct, 'cb) kenv \<Rightarrow> ('d, 'm, 's, 'st, 'c, 'ct, 'cb) kolme \<Rightarrow> u64 \<Rightarrow> 'd chain_error + bool" where
  "km_has_block K k h = lift_err CeStore (ks_has_block (kx_store K) (kx_cache K) (km_store k) h)"

definition km_has_merkle_hash ::
  "('d, 'm, 's, 'st, 'c, 'ct, 'cb) kenv \<Rightarrow> ('d, 'm, 's, 'st, 'c, 'ct, 'cb) kolme \<Rightarrow> hash \<Rightarrow> 'd chain_error + bool" where
  "km_has_merkle_hash K k h = lift_err CeMerkle (ks_has_merkle_hash (kx_store K) (km_store k) h)"

definition add_needed_block ::
  "('d, 'm, 's, 'st, 'c, 'ct, 'cb) kenv \<Rightarrow> ('d, 'm, 's, 'st, 'c, 'ct, 'cb) kolme \<Rightarrow> u64 \<Rightarrow> ('d, 'm) sync_manager \<Rightarrow>
    'd chain_error + ('d, 'm) sync_manager" where
  "add_needed_block K k h sm =
     rbind (km_has_block K k h) (\<lambda>present.
       if present \<or> om_contains (sm_needed sm) h then Inr sm
       else Inr (sync_trigger (sm\<lparr>sm_needed := om_insert h (Needed request_new) (sm_needed sm)\<rparr>)))"

definition add_pending_block ::
  "('d, 'm, 's, 'st, 'c, 'ct, 'cb) kenv \<Rightarrow> ('d, 'm, 's, 'st, 'c, 'ct, 'cb) kolme \<Rightarrow> ('d, 'm) signed_block \<Rightarrow>
    ('d, 'm) sync_manager \<Rightarrow> ('d, 'm) sync_manager" where
  "add_pending_block K k b sm =
     (case km_has_block K k (block_height b) of
        Inl _ \<Rightarrow> sm
      | Inr True \<Rightarrow> sm\<lparr>sm_needed := om_remove (block_height b) (sm_needed sm)\<rparr>
      | Inr False \<Rightarrow>
          (case om_get (sm_needed sm) (block_height b) of
             Some (Needed _) \<Rightarrow> sync_trigger (sm\<lparr>sm_needed := om_insert (block_height b) (Received b) (sm_needed sm)\<rparr>)
           | _ \<Rightarrow> sm))"

definition add_latest_block ::
  "('d, 'm, 's, 'st, 'c, 'ct, 'cb) kenv \<Rightarrow> ('d, 'm, 's, 'st, 'c, 'ct, 'cb) kolme \<Rightarrow> latest_block \<Rightarrow>
    ('d, 'm) sync_manager \<Rightarrow> ('d, 'm) sync_manager" where
  "add_latest_block K k latest sm = (case add_needed_block K k (lb_height latest) sm of Inl _ \<Rightarrow> sm | Inr sm' \<Rightarrow> sm')"

section \<open>Layers\<close>

definition wait_for_child :: "hash \<Rightarrow> hash \<Rightarrow> ('d, 'm) pending_block \<Rightarrow> ('d, 'm) pending_block" where
  "wait_for_child h child p = p\<lparr>
     pb_reverse := (pb_reverse p)(child \<mapsto>
       (case pb_reverse p child of None \<Rightarrow> [h] | Some ps \<Rightarrow> if h \<in> set ps then ps else ps @ [h])),
     pb_needed := (if om_contains (pb_needed p) child then pb_needed p else om_insert child request_new (pb_needed p))\<rparr>"

fun wait_for_children ::
  "(hash \<Rightarrow> 'd chain_error + bool) \<Rightarrow> hash \<Rightarrow> hash list \<Rightarrow> bool \<Rightarrow> ('d, 'm) pending_block \<Rightarrow>
    ('d chain_error + bool) \<times> ('d, 'm) pending_block" where
  "wait_for_children has h [] has_all p = (Inr has_all, p)"
| "wait_for_children has h (child # rest) has_all p =
     (case has child of
        Inl e \<Rightarrow> (Inl e, p)
      | Inr True \<Rightarrow> wait_for_children has h rest has_all p
      | Inr False \<Rightarrow> wait_for_children has h rest False (wait_for_child h child p))"

fun all_stored :: "(hash \<Rightarrow> 'd chain_error + bool) \<Rightarrow> hash list \<Rightarrow> 'd chain_error + bool" where
  "all_stored has [] = Inr True"
| "all_stored has (child # rest) = rbind (has child) (\<lambda>b. if b then all_stored has rest else Inr False)"

text \<open>\<open>process_available_hash\<close>, its recursion written with a stack: visit a hash, and forget its parents
  after they were all visited.\<close>

datatype hash_work = Visit hash | Forget hash

definition visit_parents :: "('d, 'm) pending_block \<Rightarrow> hash \<Rightarrow> hash_work list" where
  "visit_parents p h = (case pb_reverse p h of None \<Rightarrow> [] | Some parents \<Rightarrow> map Visit parents @ [Forget h])"

partial_function (option) process_hashes ::
  "('d, 'm, 's, 'st, 'c, 'ct, 'cb) kenv \<Rightarrow> hash_work list \<Rightarrow> ('d, 'm) pending_block \<Rightarrow>
    ('d, 'm, 's, 'st, 'c, 'ct, 'cb) kolme \<Rightarrow>
    (('d chain_error + unit) \<times> ('d, 'm) pending_block \<times> ('d, 'm, 's, 'st, 'c, 'ct, 'cb) kolme) option" where
  "process_hashes K work p k =
     (case work of
        [] \<Rightarrow> Some (Inr (), p, k)
      | Forget h # rest \<Rightarrow> process_hashes K rest (p\<lparr>pb_reverse := (pb_reverse p)(h := None)\<rparr>) k
      | Visit h # rest \<Rightarrow>
          (case km_has_merkle_hash K k h of
             Inl e \<Rightarrow> Some (Inl e, p, k)
           | Inr stored \<Rightarrow>
               if stored
               then process_hashes K (visit_parents p h @ rest) (p\<lparr>pb_pending := (pb_pending p)(h := None)\<rparr>) k
               else
                 (case pb_pending p h of
                    None \<Rightarrow> process_hashes K rest p k
                  | Some l \<Rightarrow>
                      (case all_stored (km_has_merkle_hash K k) (l_children l) of
                         Inl e \<Rightarrow> Some (Inl e, p, k)
                       | Inr ready \<Rightarrow>
                           if \<not> ready then process_hashes K rest p k
                           else
                             (case ks_add_merkle_layer (kx_store K) l (km_store k) of
                                Inl e \<Rightarrow> Some (Inl (CeMerkle e), p, k)
                              | Inr s \<Rightarrow>
                                  process_hashes K (visit_parents p h @ rest)
                                    (p\<lparr>pb_pending := (pb_pending p)(h := None)\<rparr>) (k\<lparr>km_store := s\<rparr>))))))"

definition add_layer_to_pending ::
  "('d, 'm, 's, 'st, 'c, 'ct, 'cb) kenv \<Rightarrow> hash \<Rightarrow> layer \<Rightarrow> ('d, 'm) pending_block \<Rightarrow>
    ('d, 'm, 's, 'st, 'c, 'ct, 'cb) kolme \<Rightarrow>
    (('d chain_error + bool) \<times> ('d, 'm) pending_block \<times> ('d, 'm, 's, 'st, 'c, 'ct, 'cb) kolme) option" where
  "add_layer_to_pending K h l p k =
     (if \<not> om_contains (pb_needed p) h \<or> pb_pending p h \<noteq> None then Some (Inr False, p, k)
      else
        (case km_has_merkle_hash K k h of
           Inl e \<Rightarrow> Some (Inl e, p, k)
         | Inr True \<Rightarrow> Some (Inr True, p\<lparr>pb_needed := om_remove h (pb_needed p)\<rparr>, k)
         | Inr False \<Rightarrow>
             (case wait_for_children (km_has_merkle_hash K k) h (l_children l) True p of
                (Inl e, p1) \<Rightarrow> Some (Inl e, p1, k)
              | (Inr has_all, p1) \<Rightarrow>
                  (let p2 = p1\<lparr>pb_pending := (pb_pending p1)(h \<mapsto> l), pb_needed := om_remove h (pb_needed p1)\<rparr>
                   in if has_all
                      then map_option (\<lambda>(r, p3, k3). (case r of Inl e \<Rightarrow> Inl e | Inr _ \<Rightarrow> Inr True, p3, k3))
                             (process_hashes K [Visit h] p2 k)
                      else Some (Inr True, p2, k)))))"

definition add_merkle_layer ::
  "('d, 'm, 's, 'st, 'c, 'ct, 'cb) kenv \<Rightarrow> hash \<Rightarrow> layer \<Rightarrow> ('d, 'm, 's, 'st, 'c, 'ct, 'cb) kolme \<Rightarrow>
    ('d, 'm) sync_manager \<Rightarrow> ('d, 'm, 's, 'st, 'c, 'ct, 'cb, unit) sync_result option" where
  "add_merkle_layer K h l k sm =
     (case om_first (sm_needed sm) of
        Some (height, Pending p) \<Rightarrow>
          map_option (\<lambda>(r, p', k').
              (let sm' = sm\<lparr>sm_needed := om_insert height (Pending p') (sm_needed sm)\<rparr>
               in case r of
                    Inl e \<Rightarrow> (Inl e, k', sm')
                  | Inr changed \<Rightarrow> (Inr (), k', if changed then sync_trigger sm' else sm')))
            (add_layer_to_pending K h l p k)
      | _ \<Rightarrow> Some (Inr (), k, sm))"

section \<open>Requests\<close>

text \<open>The loop over the needed layers: the layers found in the store meanwhile, the requests, and the
  updated table.\<close>

fun scan_layers ::
  "(hash \<Rightarrow> 'd chain_error + bool) \<Rightarrow> nat \<Rightarrow> nat \<Rightarrow> nat \<Rightarrow> (hash, request_status) omap \<Rightarrow>
    ('d chain_error + hash list \<times> peer_request list) \<times> (hash, request_status) omap" where
  "scan_layers has period now left [] = (Inr ([], []), [])"
| "scan_layers has period now left ((h, st) # es) =
     (if left = 0 then (Inr ([], []), (h, st) # es)
      else
        (case has h of
           Inl e \<Rightarrow> (Inl e, (h, st) # es)
         | Inr True \<Rightarrow>
             (let (r, es') = scan_layers has period now left es
              in (rbind r (\<lambda>(drops, reqs). Inr (h # drops, reqs)), (h, st) # es'))
         | Inr False \<Rightarrow>
             (let (send, st') = should_request period now st;
                  (r, es') = scan_layers has period now (left - 1) es
              in (rbind r (\<lambda>(drops, reqs). Inr (drops, if send then DataMerkle h # reqs else reqs)), (h, st') # es'))))"

type_synonym ('d, 'm, 's, 'st, 'c, 'ct, 'cb, 'w) request_result =
  "(('d chain_error + peer_request list option) \<times> 'w \<times> ('d, 'm, 's, 'st, 'c, 'ct, 'cb) kolme) option"

definition get_block_data_requests ::
  "('d, 'm, 's, 'st, 'c, 'ct, 'cb) gossip_env \<Rightarrow> nat \<Rightarrow> ('d, 'm) pending_block \<Rightarrow>
    ('d, 'm, 's, 'st, 'c, 'ct, 'cb) kolme \<Rightarrow>
    ('d, 'm, 's, 'st, 'c, 'ct, 'cb, ('d, 'm) pending_block) request_result" where
  "get_block_data_requests G now p k =
     (case scan_layers (km_has_merkle_hash (gx_node G) k) (gx_warning_period G) now (gx_limit G) (pb_needed p) of
        (Inl e, es) \<Rightarrow> Some (Inl e, p\<lparr>pb_needed := es\<rparr>, k)
      | (Inr (drops, reqs), es) \<Rightarrow>
          (let p' = p\<lparr>pb_needed := foldl (\<lambda>m h. om_remove h m) es drops\<rparr>
           in if pb_needed p' = []
              then (case add_block_with_state (gx_node G) (pb_block p') k of
                      (Inl e, k1) \<Rightarrow> Some (Inl e, p', k1)
                    | (Inr _, k1) \<Rightarrow>
                        map_option (\<lambda>r. case r of Inl e \<Rightarrow> (Inl e, p', k1) | Inr k2 \<Rightarrow> (Inr None, p', k2))
                          (resync (gx_node G) k1))
              else Some (Inr (Some reqs), p', k)))"

text \<open>Whether a received block is executed, or its states downloaded.\<close>

definition executes_block ::
  "('d, 'm, 's, 'st, 'c, 'ct, 'cb) gossip_env \<Rightarrow> ('d, 'm) signed_block \<Rightarrow> ('d, 'm, 's, 'st, 'c, 'ct, 'cb) kolme \<Rightarrow> bool" where
  "executes_block G b k =
     (case gx_sync_mode G of
        BlockTransfer \<Rightarrow> True
      | ValidateFrom state_sync_height \<Rightarrow> state_sync_height < block_height b
      | _ \<Rightarrow> km_next_height k = block_height b \<and> fs_version (bs_fs (km_state k)) = kx_code_version (gx_node G))"

definition start_pending ::
  "(hash \<Rightarrow> 'd chain_error + bool) \<Rightarrow> ('d, 'm) signed_block \<Rightarrow> 'd chain_error + ('d, 'm) pending_block" where
  "start_pending has b =
     rfold (\<lambda>h p. rbind (has h) (\<lambda>stored. Inr (if stored then p else p\<lparr>pb_needed := om_insert h request_new (pb_needed p)\<rparr>)))
       [bk_framework_state (stj_inner b), bk_app_state (stj_inner b), bk_logs (stj_inner b)]
       \<lparr>pb_block = b, pb_needed = [], pb_pending = (\<lambda>_. None), pb_reverse = (\<lambda>_. None)\<rparr>"

definition get_data_requests_for ::
  "('d, 'm, 's, 'st, 'c, 'ct, 'cb) gossip_env \<Rightarrow> nat \<Rightarrow> u64 \<Rightarrow> ('d, 'm) waiting_block \<Rightarrow>
    ('d, 'm, 's, 'st, 'c, 'ct, 'cb) kolme \<Rightarrow>
    ('d, 'm, 's, 'st, 'c, 'ct, 'cb, ('d, 'm) waiting_block) request_result" where
  "get_data_requests_for G now height waiting k =
     (case km_has_block (gx_node G) k height of
        Inl e \<Rightarrow> Some (Inl e, waiting, k)
      | Inr True \<Rightarrow> Some (Inr None, waiting, k)
      | Inr False \<Rightarrow>
          (case waiting of
             Needed st \<Rightarrow>
               (let (send, st') = should_request (gx_warning_period G) now st
                in Some (Inr (Some (if send then [DataBlock height] else [])), Needed st', k))
           | Received b \<Rightarrow>
               if executes_block G b k
               then map_option (\<lambda>(_, k'). (Inr None, waiting, k')) (add_block_with (gx_node G) b (gx_validation G) k)
               else (case start_pending (km_has_merkle_hash (gx_node G) k) b of
                       Inl e \<Rightarrow> Some (Inl e, waiting, k)
                     | Inr p \<Rightarrow> map_option (\<lambda>(r, p', k'). (r, Pending p', k')) (get_block_data_requests G now p k))
           | Pending p \<Rightarrow> map_option (\<lambda>(r, p', k'). (r, Pending p', k')) (get_block_data_requests G now p k)))"

definition add_missing_needed_blocks ::
  "('d, 'm, 's, 'st, 'c, 'ct, 'cb) gossip_env \<Rightarrow> ('d, 'm, 's, 'st, 'c, 'ct, 'cb) kolme \<Rightarrow> ('d, 'm) sync_manager \<Rightarrow>
    ('d, 'm, 's, 'st, 'c, 'ct, 'cb, unit) sync_result option" where
  "add_missing_needed_blocks G k sm =
     (let need = (\<lambda>h k. case add_needed_block (gx_node G) k h sm of
                     Inl e \<Rightarrow> (Inl e, k, sm) | Inr sm' \<Rightarrow> (Inr (), k, sm'))
      in case gx_sync_mode G of
           StateTransfer \<Rightarrow> Some (Inr (), k, sm)
         | Archive \<Rightarrow>
             (case om_first (sm_needed sm) of
                None \<Rightarrow> Some (Inr (), k, sm)
              | Some (next_needed, _) \<Rightarrow>
                  map_option (\<lambda>(r, s).
                      (let k' = k\<lparr>km_store := s\<rparr>
                       in case r of
                            Inl e \<Rightarrow> (Inl (CeStore e), k', sm)
                          | Inr next_to_archive \<Rightarrow>
                              if next_to_archive < next_needed then need next_to_archive k' else (Inr (), k', sm)))
                    (get_next_to_archive (kx_store (gx_node G)) (kx_cache (gx_node G)) (km_store k)))
         | BlockTransfer \<Rightarrow>
             Some (case om_first (sm_needed sm) of
                None \<Rightarrow> (Inr (), k, sm)
              | Some (next_needed, _) \<Rightarrow>
                  if next_needed \<noteq> km_next_height k then need (km_next_height k) k else (Inr (), k, sm))
         | ValidateFrom state_sync_height \<Rightarrow>
             Some (if km_next_height k \<le> state_sync_height then need state_sync_height k else (Inr (), k, sm)))"

partial_function (option) get_data_requests ::
  "('d, 'm, 's, 'st, 'c, 'ct, 'cb) gossip_env \<Rightarrow> nat \<Rightarrow> ('d, 'm, 's, 'st, 'c, 'ct, 'cb) kolme \<Rightarrow> ('d, 'm) sync_manager \<Rightarrow>
    ('d, 'm, 's, 'st, 'c, 'ct, 'cb, peer_request list) sync_result option" where
  "get_data_requests G now k sm =
     (case add_missing_needed_blocks G k sm of
        None \<Rightarrow> None
      | Some (Inl e, k1, sm1) \<Rightarrow> Some (Inl e, k1, sm1)
      | Some (Inr _, k1, sm1) \<Rightarrow>
          (case om_first (sm_needed sm1) of
             None \<Rightarrow> Some (Inr [], k1, sm1)
           | Some (height, waiting) \<Rightarrow>
               (case get_data_requests_for G now height waiting k1 of
                  None \<Rightarrow> None
                | Some (Inl e, w, k2) \<Rightarrow> Some (Inl e, k2, sm1\<lparr>sm_needed := om_insert height w (sm_needed sm1)\<rparr>)
                | Some (Inr None, w, k2) \<Rightarrow> get_data_requests G now k2 (sm1\<lparr>sm_needed := om_remove height (sm_needed sm1)\<rparr>)
                | Some (Inr (Some reqs), w, k2) \<Rightarrow>
                    Some (Inr reqs, k2, sm1\<lparr>sm_needed := om_insert height w (sm_needed sm1)\<rparr>))))"

section \<open>Messages\<close>

datatype ('d, 'm) gossip_message =
    ProvideLatestBlock "latest_block signed_tagged_json"
  | RequestBlock u64
  | ProvideBlock u64 "('d, 'm) signed_block option"
  | RequestLayer hash
  | ProvideLayer hash "layer option"
  | BroadcastTx "('d, 'm) signed_transaction"
  | FailedTransaction "'d failed_transaction signed_tagged_json"
  | LandedTransaction "('d, 'm) signed_block"

fun request_message :: "peer_request \<Rightarrow> ('d, 'm) gossip_message" where
  "request_message (DataBlock height) = RequestBlock height"
| "request_message (DataMerkle h) = RequestLayer h"

text \<open>The messages sent to all peers; the error is logged.\<close>

definition process_sync_manager ::
  "('d, 'm, 's, 'st, 'c, 'ct, 'cb) gossip_env \<Rightarrow> nat \<Rightarrow> ('d, 'm, 's, 'st, 'c, 'ct, 'cb) kolme \<Rightarrow> ('d, 'm) sync_manager \<Rightarrow>
    (('d, 'm) gossip_message list \<times> ('d, 'm, 's, 'st, 'c, 'ct, 'cb) kolme \<times> ('d, 'm) sync_manager) option" where
  "process_sync_manager G now k sm =
     map_option (\<lambda>(r, k', sm'). (case r of Inl _ \<Rightarrow> [] | Inr reqs \<Rightarrow> map request_message reqs, k', sm'))
       (get_data_requests G now k sm)"

definition broadcast_pending ::
  "('d, 'm, 's, 'st, 'c, 'ct, 'cb) gossip_env \<Rightarrow> nat \<Rightarrow> ('d, 'm, 's, 'st, 'c, 'ct, 'cb) kolme \<Rightarrow>
    ('d, 'm) gossip_message list \<times> ('d, 'm, 's, 'st, 'c, 'ct, 'cb) kolme" where
  "broadcast_pending G now k =
     (let (txs, pool) = broadcast_mempool_entries (kx_pool (gx_node G)) now (km_mempool k)
      in (map BroadcastTx txs, k\<lparr>km_mempool := pool\<rparr>))"

definition on_interval ::
  "('d, 'm, 's, 'st, 'c, 'ct, 'cb) gossip_env \<Rightarrow> nat \<Rightarrow> ('d, 'm, 's, 'st, 'c, 'ct, 'cb) kolme \<Rightarrow> ('d, 'm) sync_manager \<Rightarrow>
    (('d, 'm) gossip_message list \<times> ('d, 'm, 's, 'st, 'c, 'ct, 'cb) kolme \<times> ('d, 'm) sync_manager) option" where
  "on_interval G now k sm =
     map_option (\<lambda>(sent, k1, sm1). let (txs, k2) = broadcast_pending G now k1 in (sent @ txs, k2, sm1))
       (process_sync_manager G now k sm)"

definition update_latest ::
  "('d, 'm, 's, 'st, 'c, 'ct, 'cb) gossip_env \<Rightarrow> ('d, 'm, 's, 'st, 'c, 'ct, 'cb) kolme \<Rightarrow> ('d, 'm) sync_manager \<Rightarrow>
    ('d, 'm) gossip_message list \<times> ('d, 'm) sync_manager" where
  "update_latest G k sm =
     (case km_latest k of
        None \<Rightarrow> ([], sm)
      | Some latest \<Rightarrow> ([ProvideLatestBlock latest], add_latest_block (gx_node G) k (stj_inner latest) sm))"

text \<open>What arrives from a peer, and what is sent back to it.\<close>

fun handle_message ::
  "('d, 'm, 's, 'st, 'c, 'ct, 'cb) gossip_env \<Rightarrow> nat \<Rightarrow> ('d, 'm) gossip_message \<Rightarrow> ('d, 'm, 's, 'st, 'c, 'ct, 'cb) kolme \<Rightarrow>
    ('d, 'm) sync_manager \<Rightarrow>
    (('d, 'm) gossip_message list \<times> ('d, 'm, 's, 'st, 'c, 'ct, 'cb) kolme \<times> ('d, 'm) sync_manager) option" where
  "handle_message G now (ProvideLatestBlock latest) k sm = Some ([], snd (update_latest_block (gx_node G) latest k), sm)"
| "handle_message G now (RequestBlock height) k sm =
     map_option (\<lambda>r. (case r of Inl _ \<Rightarrow> [] | Inr b \<Rightarrow> [ProvideBlock height (map_option sb_block b)], k, sm))
       (ks_load_block (kx_store (gx_node G)) (kx_cache (gx_node G)) (km_store k) height)"
| "handle_message G now (ProvideBlock _ None) k sm = Some ([], k, sm)"
| "handle_message G now (ProvideBlock _ (Some b)) k sm = Some ([], k, add_pending_block (gx_node G) k b sm)"
| "handle_message G now (RequestLayer h) k sm =
     Some (case ks_get_merkle_layer (kx_store (gx_node G)) (km_store k) h of
             Inl _ \<Rightarrow> [] | Inr l \<Rightarrow> [ProvideLayer h l], k, sm)"
| "handle_message G now (ProvideLayer h None) k sm = Some ([], k, sm)"
| "handle_message G now (ProvideLayer h (Some l)) k sm =
     (if layer_hash (kx_sha (gx_node G)) l = h
      then map_option (\<lambda>(_, k', sm'). ([], k', sm')) (add_merkle_layer (gx_node G) h l k sm)
      else Some ([], k, sm))"
| "handle_message G now (BroadcastTx tx) k sm =
     (let (r, k') = propose_transaction (gx_node G) tx k
      in case r of
           Inr _ \<Rightarrow> Some ([], k'\<lparr>km_mempool := mark_gossiped (kx_pool (gx_node G)) now (tx_hash tx) (km_mempool k')\<rparr>, sm)
         | Inl InMempool \<Rightarrow> Some ([], k', sm)
         | Inl (ProposedInBlock b) \<Rightarrow> Some ([LandedTransaction b], k', sm)
         | Inl (ProposedFailed f) \<Rightarrow> Some ([FailedTransaction f], k', sm))"
| "handle_message G now (FailedTransaction f) k sm = Some ([], snd (add_failed_transaction (gx_node G) f k), sm)"
| "handle_message G now (LandedTransaction b) k sm = Some ([], snd (add_landed_transaction (gx_node G) b k), sm)"

end
