(* ===== verification/Sync_Props.thy ===== *)
theory Sync_Props
  imports Sync_Manager Node_Props
begin

text \<open>
  Downloading the states of a block, layer by layer: what the sync manager knows is enough to finish, every
  faithful answer brings it closer, and when nothing is needed any more everything is stored.
\<close>

section \<open>Layers and their parents\<close>

definition child_of :: "(bytes \<Rightarrow> hash) \<Rightarrow> contents set \<Rightarrow> hash \<Rightarrow> hash \<Rightarrow> bool" where
  "child_of sha D ch h \<longleftrightarrow> (\<exists>c \<in> D. contents_hash sha c = h \<and> ch \<in> set (l_children (layer_of sha c)))"

definition hash_rank :: "(bytes \<Rightarrow> hash) \<Rightarrow> contents set \<Rightarrow> hash \<Rightarrow> nat" where
  "hash_rank sha D h = size (inv_into D (contents_hash sha) h)"

text \<open>The contents to download: all parts of some states.\<close>

definition target :: "(bytes \<Rightarrow> hash) \<Rightarrow> contents set \<Rightarrow> contents set \<Rightarrow> bool" where
  "target sha C D \<longleftrightarrow> finite D \<and> D \<subseteq> C \<and> (\<forall>c \<in> D. set (c_children c) \<subseteq> D)"

lemma target_rank:
  assumes "content_world sha C" "target sha C D" "c \<in> D"
  shows "hash_rank sha D (contents_hash sha c) = size c"
proof -
  have "inj_on (contents_hash sha) D"
    using assms(1,2) unfolding content_world_def target_def contents_hash_def by (meson inj_on_subset)
  then show ?thesis using assms(3) by (simp add: hash_rank_def)
qed

lemma child_rank:
  assumes w: "content_world sha C" "target sha C D" and ch: "child_of sha D ch h"
  shows "hash_rank sha D ch < hash_rank sha D h"
proof -
  obtain c d where c: "c \<in> D" "contents_hash sha c = h" "d \<in> set (c_children c)" "contents_hash sha d = ch"
    using ch by (auto simp: child_of_def layer_of_def)
  then have "d \<in> D" using w(2) by (auto simp: target_def)
  moreover have "size d < size c"
    using c(3) size_list_estimation' [OF c(3), of "size d" size] by (cases c) (auto simp: less_Suc_eq_le)
  ultimately show ?thesis using target_rank [OF w] c by auto
qed

section \<open>What the sync manager knows\<close>

text \<open>\<open>W\<close> is the work of \<open>process_hashes\<close> that is still to be done.\<close>

definition sync_ok :: "(bytes \<Rightarrow> hash) \<Rightarrow> contents set \<Rightarrow> (hash \<Rightarrow> layer option) \<Rightarrow> hash_work set \<Rightarrow> ('d, 'm) pending_block \<Rightarrow> bool" where
  "sync_ok sha D v W p \<longleftrightarrow> finite (dom (pb_reverse p)) \<and>
     (\<forall>h. om_contains (pb_needed p) h \<longrightarrow> h \<in> contents_hash sha ` D) \<and>
     (\<forall>h l. pb_pending p h = Some l \<longrightarrow> (\<exists>c \<in> D. contents_hash sha c = h \<and> l = layer_of sha c) \<and>
        (\<forall>ch \<in> set (l_children l). v ch = None \<longrightarrow>
           (\<exists>ps. pb_reverse p ch = Some ps \<and> h \<in> set ps) \<and> (om_contains (pb_needed p) ch \<or> pb_pending p ch \<noteq> None)) \<and>
        ((\<forall>ch \<in> set (l_children l). v ch \<noteq> None) \<longrightarrow> Visit h \<in> W)) \<and>
     (\<forall>ch ps q. pb_reverse p ch = Some ps \<longrightarrow> q \<in> set ps \<longrightarrow> child_of sha D ch q \<and> (v q \<noteq> None \<or> pb_pending p q \<noteq> None)) \<and>
     (\<forall>ch. pb_reverse p ch \<noteq> None \<longrightarrow> (v ch = None \<and> (om_contains (pb_needed p) ch \<or> pb_pending p ch \<noteq> None)) \<or>
        Visit ch \<in> W \<or> Forget ch \<in> W) \<and>
     (\<forall>h. Visit h \<in> W \<longrightarrow> v h \<noteq> None \<or> pb_pending p h \<noteq> None) \<and> (\<forall>h. Forget h \<in> W \<longrightarrow> v h \<noteq> None)"

text \<open>The states of the block are stored, or on their way.\<close>

definition roots_known :: "(hash \<Rightarrow> layer option) \<Rightarrow> ('d, 'm) pending_block \<Rightarrow> bool" where
  "roots_known v p \<longleftrightarrow> (\<forall>h \<in> {bk_framework_state (stj_inner (pb_block p)), bk_app_state (stj_inner (pb_block p)), bk_logs (stj_inner (pb_block p))}.
     v h \<noteq> None \<or> om_contains (pb_needed p) h \<or> pb_pending p h \<noteq> None)"

text \<open>What has not arrived yet.\<close>

definition missing :: "(bytes \<Rightarrow> hash) \<Rightarrow> contents set \<Rightarrow> (hash \<Rightarrow> layer option) \<Rightarrow> ('d, 'm) pending_block \<Rightarrow> hash set" where
  "missing sha D v p = {h \<in> contents_hash sha ` D. v h = None \<and> pb_pending p h = None}"

lemma sync_okD:
  assumes "sync_ok sha D v W p"
  shows "finite (dom (pb_reverse p))" "om_contains (pb_needed p) h \<Longrightarrow> h \<in> contents_hash sha ` D"
    and "pb_pending p h = Some l \<Longrightarrow> \<exists>c \<in> D. contents_hash sha c = h \<and> l = layer_of sha c"
    and "pb_pending p h = Some l \<Longrightarrow> ch \<in> set (l_children l) \<Longrightarrow> v ch = None \<Longrightarrow> \<exists>ps. pb_reverse p ch = Some ps \<and> h \<in> set ps"
    and "pb_pending p h = Some l \<Longrightarrow> ch \<in> set (l_children l) \<Longrightarrow> v ch = None \<Longrightarrow> om_contains (pb_needed p) ch \<or> pb_pending p ch \<noteq> None"
    and "pb_pending p h = Some l \<Longrightarrow> \<forall>ch \<in> set (l_children l). v ch \<noteq> None \<Longrightarrow> Visit h \<in> W"
    and "pb_reverse p ch = Some ps \<Longrightarrow> q \<in> set ps \<Longrightarrow> child_of sha D ch q"
    and "pb_reverse p ch = Some ps \<Longrightarrow> q \<in> set ps \<Longrightarrow> v q \<noteq> None \<or> pb_pending p q \<noteq> None"
    and "pb_reverse p ch \<noteq> None \<Longrightarrow> (v ch = None \<and> (om_contains (pb_needed p) ch \<or> pb_pending p ch \<noteq> None)) \<or> Visit ch \<in> W \<or> Forget ch \<in> W"
    and "Visit h \<in> W \<Longrightarrow> v h \<noteq> None \<or> pb_pending p h \<noteq> None"
    and "Forget h \<in> W \<Longrightarrow> v h \<noteq> None"
  using assms unfolding sync_ok_def by blast+

lemma sync_okI:
  assumes "finite (dom (pb_reverse p))" "\<And>h. om_contains (pb_needed p) h \<Longrightarrow> h \<in> contents_hash sha ` D"
    and "\<And>h l. pb_pending p h = Some l \<Longrightarrow> \<exists>c \<in> D. contents_hash sha c = h \<and> l = layer_of sha c"
    and "\<And>h l ch. pb_pending p h = Some l \<Longrightarrow> ch \<in> set (l_children l) \<Longrightarrow> v ch = None \<Longrightarrow> \<exists>ps. pb_reverse p ch = Some ps \<and> h \<in> set ps"
    and "\<And>h l ch. pb_pending p h = Some l \<Longrightarrow> ch \<in> set (l_children l) \<Longrightarrow> v ch = None \<Longrightarrow> om_contains (pb_needed p) ch \<or> pb_pending p ch \<noteq> None"
    and "\<And>h l. pb_pending p h = Some l \<Longrightarrow> \<forall>ch \<in> set (l_children l). v ch \<noteq> None \<Longrightarrow> Visit h \<in> W"
    and "\<And>ch ps q. pb_reverse p ch = Some ps \<Longrightarrow> q \<in> set ps \<Longrightarrow> child_of sha D ch q"
    and "\<And>ch ps q. pb_reverse p ch = Some ps \<Longrightarrow> q \<in> set ps \<Longrightarrow> v q \<noteq> None \<or> pb_pending p q \<noteq> None"
    and "\<And>ch. pb_reverse p ch \<noteq> None \<Longrightarrow> (v ch = None \<and> (om_contains (pb_needed p) ch \<or> pb_pending p ch \<noteq> None)) \<or> Visit ch \<in> W \<or> Forget ch \<in> W"
    and "\<And>h. Visit h \<in> W \<Longrightarrow> v h \<noteq> None \<or> pb_pending p h \<noteq> None"
    and "\<And>h. Forget h \<in> W \<Longrightarrow> v h \<noteq> None"
  shows "sync_ok sha D v W p"
  unfolding sync_ok_def using assms by blast

section \<open>Steps of the processing\<close>

lemma sync_ok_forget:
  assumes "sync_ok sha D v (insert (Forget h) W) p"
  shows "sync_ok sha D v W (p\<lparr>pb_reverse := (pb_reverse p)(h := None)\<rparr>)"
proof -
  note i = sync_okD [OF assms]
  have vh: "v h \<noteq> None" using i(11) by simp
  show ?thesis
  proof (rule sync_okI, goal_cases)
    case 1 then show ?case using i(1) by (auto intro: finite_subset)
  next
    case (4 g l ch)
    then show ?case using i(4) [of g l ch] vh by auto
  next
    case (6 g l)
    then show ?case using i(6) [of g l] by simp
  next
    case (9 ch)
    then show ?case using i(9) [of ch] by (auto split: if_splits)
  qed (use i(2,3,5,7,8,10,11) in \<open>auto split: if_splits\<close>)
qed

lemma sync_ok_wait:
  assumes "sync_ok sha D v (insert (Visit h) W) p" "v h = None" "pb_pending p h = Some l" "\<not> (\<forall>ch \<in> set (l_children l). v ch \<noteq> None)"
  shows "sync_ok sha D v W p"
proof -
  note i = sync_okD [OF assms(1)]
  show ?thesis
  proof (rule sync_okI, goal_cases)
    case (6 g m)
    then have "g \<noteq> h" using assms(3,4) by force
    then show ?case using i(6) [of g m] 6 by auto
  next
    case (9 ch)
    then show ?case using i(9) [of ch] assms(2,3) by auto
  qed (use i(1,2,3,4,5,7,8,10,11) in \<open>auto\<close>)
qed

lemma sync_ok_stored:
  assumes "sync_ok sha D v (insert (Visit h) W) p" "\<And>g. g \<noteq> h \<Longrightarrow> v' g = v g" "v' h \<noteq> None"
  shows "sync_ok sha D v' (set (visit_parents p h) \<union> W) (p\<lparr>pb_pending := (pb_pending p)(h := None)\<rparr>)"
proof -
  note i = sync_okD [OF assms(1)]
  have up: "v' g = None \<Longrightarrow> v g = None \<and> g \<noteq> h" for g using assms(2,3) by metis
  have stays: "v g \<noteq> None \<Longrightarrow> v' g \<noteq> None" for g using assms(2,3) by metis
  show ?thesis
  proof (rule sync_okI, goal_cases)
    case 1 then show ?case using i(1) by simp
  next
    case (2 g) then show ?case using i(2) by simp
  next
    case (3 g m) then show ?case using i(3) by (auto split: if_splits)
  next
    case (4 g m ch) then show ?case using i(4) [of g m ch] up [of ch] by (auto split: if_splits)
  next
    case (5 g m ch) then show ?case using i(5) [of g m ch] up [of ch] by (auto split: if_splits)
  next
    case (6 g m)
    then have g: "g \<noteq> h" "pb_pending p g = Some m" by (auto split: if_splits)
    show ?case
    proof (cases "\<forall>ch \<in> set (l_children m). v ch \<noteq> None")
      case True
      then show ?thesis using i(6) [OF g(2)] g(1) by auto
    next
      case False
      then obtain ch where ch: "ch \<in> set (l_children m)" "v ch = None" by blast
      then have "ch = h" using 6(2) assms(2) by force
      then obtain ps where "pb_reverse p h = Some ps" "g \<in> set ps" using i(4) [OF g(2) ch] by blast
      then show ?thesis by (simp add: visit_parents_def)
    qed
  next
    case (7 ch ps q) then show ?case using i(7) by simp
  next
    case (8 ch ps q)
    then show ?case using i(8) [of ch ps q] stays [of q] assms(3) by (cases "q = h") auto
  next
    case (9 ch)
    then show ?case using i(9) [of ch] assms(2,3)
      by (cases "ch = h") (auto simp: visit_parents_def split: option.split)
  next
    case (10 g)
    have "v g \<noteq> None \<or> pb_pending p g \<noteq> None"
    proof (cases "Visit g \<in> W")
      case True then show ?thesis using i(10) by simp
    next
      case False
      then obtain ps where "pb_reverse p h = Some ps" "g \<in> set ps"
        using 10 by (cases "pb_reverse p h") (auto simp: visit_parents_def)
      then show ?thesis by (rule i(8))
    qed
    then show ?case using stays [of g] assms(3) by (cases "g = h") auto
  next
    case (11 g)
    have "g = h \<or> v g \<noteq> None"
      using 11 i(11) by (auto simp: visit_parents_def split: option.splits)
    then show ?case using stays [of g] assms(3) by blast
  qed
qed

section \<open>The processing ends\<close>

fun hash_weight :: "(hash \<Rightarrow> nat) \<Rightarrow> nat \<Rightarrow> nat \<Rightarrow> hash_work \<Rightarrow> nat" where
  "hash_weight rank m b (Visit h) = 2 * b ^ (Suc m - rank h)"
| "hash_weight rank m b (Forget h) = 1"

definition work_bound :: "(hash \<Rightarrow> nat) \<Rightarrow> nat \<Rightarrow> nat \<Rightarrow> ('d, 'm) pending_block \<Rightarrow> bool" where
  "work_bound rank m b p \<longleftrightarrow> (\<forall>h ps. pb_reverse p h = Some ps \<longrightarrow> length ps + 2 \<le> b \<and> (\<forall>q \<in> set ps. rank h < rank q \<and> rank q \<le> m))"

abbreviation works_weight :: "(hash \<Rightarrow> nat) \<Rightarrow> nat \<Rightarrow> nat \<Rightarrow> hash_work list \<Rightarrow> nat" where
  "works_weight rank m b ws \<equiv> sum_list (map (hash_weight rank m b) ws)"

lemma parents_lighter:
  assumes "work_bound rank m b p" "2 \<le> b"
  shows "works_weight rank m b (visit_parents p h) < hash_weight rank m b (Visit h)"
proof (cases "pb_reverse p h")
  case None
  then show ?thesis using assms(2) by (simp add: visit_parents_def)
next
  case (Some ps)
  have b: "length ps + 2 \<le> b" and r: "\<forall>q \<in> set ps. rank h < rank q \<and> rank q \<le> m"
    using assms(1) Some by (auto simp: work_bound_def)
  define e where "e = b ^ (m - rank h)"
  have e: "0 < e" using assms(2) by (simp add: e_def)
  show ?thesis
  proof (cases "ps = []")
    case True
    have "Suc 0 < 2 * x" if "0 < x" for x :: nat using that by linarith
    moreover have "0 < b ^ (Suc m - rank h)" using assms(2) by simp
    ultimately have "Suc 0 < hash_weight rank m b (Visit h)" by (simp del: power_Suc zero_less_power_eq nat_zero_less_power_iff)
    then show ?thesis by (simp add: Some True visit_parents_def)
  next
    case False
    then have h: "rank h < m" using r by (meson last_in_set less_le_trans)
    have "works_weight rank m b (map Visit ps) \<le> (\<Sum>q \<leftarrow> ps. 2 * e)"
    proof -
      have "hash_weight rank m b (Visit q) \<le> 2 * e" if "q \<in> set ps" for q
        using r that assms(2) by (auto simp: e_def intro!: power_increasing)
      then show ?thesis by (auto intro!: sum_list_mono simp: o_def)
    qed
    also have "(\<Sum>q \<leftarrow> ps. 2 * e) = length ps * (2 * e)" by (simp add: sum_list_triv)
    finally have "works_weight rank m b (map Visit ps) + 1 \<le> length ps * (2 * e) + 1" by simp
    also have "\<dots> < b * (2 * e)"
    proof -
      have "(length ps + 2) * (2 * e) \<le> b * (2 * e)" using b by (rule mult_le_mono1)
      moreover have "length ps * (2 * e) + 1 < (length ps + 2) * (2 * e)" using e by (simp add: distrib_right)
      ultimately show ?thesis by simp
    qed
    also have "b * (2 * e) = hash_weight rank m b (Visit h)" using h by (simp add: e_def Suc_diff_le)
    finally show ?thesis by (simp add: Some visit_parents_def del: hash_weight.simps(1))
  qed
qed

lemma work_bound_exists:
  assumes "content_world sha C" "target sha C D" "sync_ok sha D v W p"
  shows "\<exists>m b. 2 \<le> b \<and> work_bound (hash_rank sha D) m b p"
proof -
  note i = sync_okD [OF assms(3)]
  have fin: "finite (ran (pb_reverse p))" using i(1) by (rule finite_ran)
  define b where "b = Suc (Suc (Max (insert 0 (length ` ran (pb_reverse p)))))"
  define m where "m = Max (insert 0 (hash_rank sha D ` (\<Union>ps \<in> ran (pb_reverse p). set ps)))"
  have "length ps + 2 \<le> b \<and> (\<forall>q \<in> set ps. hash_rank sha D h < hash_rank sha D q \<and> hash_rank sha D q \<le> m)"
    if "pb_reverse p h = Some ps" for h ps
  proof -
    have r: "ps \<in> ran (pb_reverse p)" using that by (rule ranI)
    have "length ps \<le> Max (insert 0 (length ` ran (pb_reverse p)))" using r fin by (intro Max_ge) auto
    moreover have "hash_rank sha D q \<le> m" if "q \<in> set ps" for q
      unfolding m_def using r fin that by (intro Max_ge) auto
    ultimately show ?thesis
      using child_rank [OF assms(1,2)] i(7) that by (auto simp: b_def)
  qed
  then show ?thesis by (intro exI [of _ m] exI [of _ b]) (simp add: work_bound_def b_def)
qed

section \<open>A layer arrives\<close>

lemma wait_for_child_effect:
  "pb_block (wait_for_child h ch p) = pb_block p" "pb_pending (wait_for_child h ch p) = pb_pending p"
  "om_contains (pb_needed (wait_for_child h ch p)) g \<longleftrightarrow> om_contains (pb_needed p) g \<or> g = ch"
  "dom (pb_reverse (wait_for_child h ch p)) = insert ch (dom (pb_reverse p))"
  "(\<exists>ps. pb_reverse (wait_for_child h ch p) g = Some ps \<and> q \<in> set ps) \<longleftrightarrow>
     (\<exists>ps. pb_reverse p g = Some ps \<and> q \<in> set ps) \<or> (g = ch \<and> q = h)"
  by (auto simp: wait_for_child_def om_contains_def split: option.splits if_splits)

lemma wait_for_children_effect:
  assumes "\<forall>ch \<in> set hs. has ch = Inr (v ch \<noteq> None)"
  shows "\<exists>p'. wait_for_children has h hs a p = (Inr (a \<and> (\<forall>ch \<in> set hs. v ch \<noteq> None)), p') \<and>
    pb_block p' = pb_block p \<and> pb_pending p' = pb_pending p \<and>
    (\<forall>g. om_contains (pb_needed p') g \<longleftrightarrow> om_contains (pb_needed p) g \<or> (g \<in> set hs \<and> v g = None)) \<and>
    dom (pb_reverse p') = dom (pb_reverse p) \<union> {g \<in> set hs. v g = None} \<and>
    (\<forall>g q. (\<exists>ps. pb_reverse p' g = Some ps \<and> q \<in> set ps) \<longleftrightarrow>
      (\<exists>ps. pb_reverse p g = Some ps \<and> q \<in> set ps) \<or> (g \<in> set hs \<and> v g = None \<and> q = h))"
  using assms
proof (induction hs arbitrary: a p)
  case (Cons ch hs)
  show ?case
  proof (cases "v ch")
    case None
    obtain p' where "wait_for_children has h hs False (wait_for_child h ch p) = (Inr False, p')"
        "pb_block p' = pb_block p" "pb_pending p' = pb_pending p"
        "\<forall>g. om_contains (pb_needed p') g \<longleftrightarrow> (om_contains (pb_needed p) g \<or> g = ch) \<or> (g \<in> set hs \<and> v g = None)"
        "dom (pb_reverse p') = insert ch (dom (pb_reverse p)) \<union> {g \<in> set hs. v g = None}"
        "\<forall>g q. (\<exists>ps. pb_reverse p' g = Some ps \<and> q \<in> set ps) \<longleftrightarrow>
          ((\<exists>ps. pb_reverse p g = Some ps \<and> q \<in> set ps) \<or> (g = ch \<and> q = h)) \<or> (g \<in> set hs \<and> v g = None \<and> q = h)"
      using Cons.IH [of False "wait_for_child h ch p"] Cons.prems unfolding wait_for_child_effect by auto
    then show ?thesis using Cons.prems None by (intro exI [of _ p']) auto
  next
    case (Some l)
    then show ?thesis using Cons.IH [of a p] Cons.prems by auto
  qed
qed simp

lemma sync_ok_drop:
  assumes "sync_ok sha D v {} p" "v h \<noteq> None"
  shows "sync_ok sha D v {} (p\<lparr>pb_needed := om_remove h (pb_needed p)\<rparr>)"
proof -
  note i = sync_okD [OF assms(1)]
  have keep: "om_contains (om_remove h (pb_needed p)) g \<longleftrightarrow> om_contains (pb_needed p) g \<and> g \<noteq> h" for g
    by (auto simp: om_contains_def)
  show ?thesis
  proof (rule sync_okI, goal_cases)
    case (5 g l ch)
    then show ?case using i(5) [of g l ch] assms(2) by (auto simp: keep)
  next
    case (9 ch)
    then show ?case using i(9) [of ch] assms(2) by (auto simp: keep)
  qed (use i in \<open>auto simp: keep\<close>)
qed

lemma sync_ok_arrive:
  assumes ok: "sync_ok sha D v {} p" and D: "content_world sha C" "target sha C D" and c: "c \<in> D" "contents_hash sha c = h"
    and h: "v h = None" "om_contains (pb_needed p) h"
    and p1: "pb_pending p1 = pb_pending p"
      "\<forall>g. om_contains (pb_needed p1) g \<longleftrightarrow> om_contains (pb_needed p) g \<or> (g \<in> set (l_children (layer_of sha c)) \<and> v g = None)"
      "dom (pb_reverse p1) = dom (pb_reverse p) \<union> {g \<in> set (l_children (layer_of sha c)). v g = None}"
      "\<forall>g q. (\<exists>ps. pb_reverse p1 g = Some ps \<and> q \<in> set ps) \<longleftrightarrow>
        (\<exists>ps. pb_reverse p g = Some ps \<and> q \<in> set ps) \<or> (g \<in> set (l_children (layer_of sha c)) \<and> v g = None \<and> q = h)"
  shows "sync_ok sha D v (if \<forall>ch \<in> set (l_children (layer_of sha c)). v ch \<noteq> None then {Visit h} else {})
    (p1\<lparr>pb_pending := (pb_pending p1)(h \<mapsto> layer_of sha c), pb_needed := om_remove h (pb_needed p1)\<rparr>)"
    (is "sync_ok sha D v ?W ?p")
proof -
  note i = sync_okD [OF ok]
  have child: "child_of sha D g h" if "g \<in> set (l_children (layer_of sha c))" for g
    using c that by (auto simp: child_of_def)
  have ne: "g \<noteq> h" if "g \<in> set (l_children (layer_of sha c))" for g
    using child_rank [OF D child [OF that]] by auto
  have needed: "om_contains (pb_needed ?p) g \<longleftrightarrow> (om_contains (pb_needed p) g \<and> g \<noteq> h) \<or> (g \<in> set (l_children (layer_of sha c)) \<and> v g = None)" for g
    using p1(2) ne [of h] ne [of g] by (auto simp: om_contains_def)
  have pend: "pb_pending ?p g = (if g = h then Some (layer_of sha c) else pb_pending p g)" for g using p1(1) by simp
  have rev: "pb_reverse ?p = pb_reverse p1" by simp
  show ?thesis
  proof (rule sync_okI, goal_cases)
    case 1
    then show ?case using i(1) by (simp add: p1(3))
  next
    case (2 g)
    then show ?case using i(2) [of g] D(2) c unfolding needed by (auto simp: layer_of_def target_def)
  next
    case (3 g l)
    then show ?case using i(3) [of g l] c unfolding pend by (auto split: if_splits)
  next
    case (4 g l ch)
    then show ?case using i(4) [of g l ch] p1(4) unfolding pend rev by (auto split: if_splits)
  next
    case (5 g l ch)
    then show ?case using i(5) [of g l ch] unfolding pend needed by (auto split: if_splits)
  next
    case (6 g l)
    then show ?case using i(6) [of g l] unfolding pend by (auto split: if_splits)
  next
    case (7 ch ps q)
    then show ?case using i(7) p1(4) child unfolding rev by blast
  next
    case (8 ch ps q)
    then have "(\<exists>ps. pb_reverse p ch = Some ps \<and> q \<in> set ps) \<or> q = h" using p1(4) unfolding rev by blast
    then show ?case using i(8) [of ch _ q] unfolding pend by auto
  next
    case (9 ch)
    then have "ch \<in> dom (pb_reverse p) \<or> (ch \<in> set (l_children (layer_of sha c)) \<and> v ch = None)"
      using p1(3) unfolding rev by blast
    then show ?case using i(9) [of ch] unfolding pend needed by auto
  next
    case (10 g)
    then show ?case unfolding pend by (auto split: if_splits)
  qed (auto split: if_splits)
qed

section \<open>A store that takes single layers\<close>

locale layer_store = chain_node repr C enc dec B S sha cached view archived L cache_inv cache_size
  for repr :: "'st \<Rightarrow> ('d, 'm) signed_block block_table \<Rightarrow> bool" and C enc dec B S sha cached view archived
    and L :: "('c, ('d, 'm) signed_block) block_cache" and cache_inv cache_size +
  assumes save_view: "repr s f \<Longrightarrow> c \<in> C \<Longrightarrow> \<forall>ch \<in> set (l_children (layer_of sha c)). view s ch \<noteq> None \<Longrightarrow>
      view s (contents_hash sha c) = None \<Longrightarrow> save_layer (so_merkle S) (layer_of sha c) s = Inr s' \<Longrightarrow>
      view s' = (view s)(contents_hash sha c \<mapsto> layer_of sha c)"
begin

text \<open>Saving a layer whose children are stored is saving its contents.\<close>

lemma put_layer:
  assumes s: "repr s f" and c: "c \<in> C" and ch: "\<forall>ch \<in> set (l_children (layer_of sha c)). view s ch \<noteq> None"
    and new: "view s (contents_hash sha c) = None"
  shows "\<exists>s'. save_layer (so_merkle S) (layer_of sha c) s = Inr s' \<and> repr s' f \<and>
        view s' = (view s)(contents_hash sha c \<mapsto> layer_of sha c)"
proof -
  have has: "length (contents_hash sha d) = 32" for d using good [OF s] by (simp add: content_world_def contents_hash_def)
  have "missing_children sha (so_merkle S) s ds = Inr (filter (\<lambda>d. view s (contents_hash sha d) = None) ds)" for ds
    by (induction ds) (simp_all add: has_layer [OF s has])
  moreover have "filter (\<lambda>d. view s (contents_hash sha d) = None) (c_children c) = []"
    using ch by (simp add: layer_of_def filter_empty_conv)
  ultimately have "save_merkle_contents sha (so_merkle S) c s = save_layer (so_merkle S) (layer_of sha c) s"
    using new has_layer [OF s has, of c] by (cases "save_layer (so_merkle S) (layer_of sha c) s") (simp_all add: save_merkle_contents_def)
  moreover obtain s' where s': "save_merkle_contents sha (so_merkle S) c s = Inr s'" "repr s' f" using saves [OF s c] by blast
  ultimately have "save_layer (so_merkle S) (layer_of sha c) s = Inr s'" by simp
  then show ?thesis using save_view [OF s c ch new] s'(2) by blast
qed

abbreviation stored :: "('d, 'm, 's, 'st, 'c, 'ct, 'cb) kolme \<Rightarrow> hash \<Rightarrow> layer option" where
  "stored k \<equiv> view (ks_inner (km_store k))"

lemma world: "holds s f \<Longrightarrow> content_world sha C" "holds s f \<Longrightarrow> good_view sha C (view (ks_inner s))"
  using good by (auto simp: ks_repr_def)

lemma has_hash:
  "runs_on K sha cached S L \<Longrightarrow> holds (km_store k) f \<Longrightarrow> length h = 32 \<Longrightarrow> km_has_merkle_hash K k h = Inr (stored k h \<noteq> None)"
  using has_layer [of "ks_inner (km_store k)" f h] by (simp add: km_has_merkle_hash_def ks_has_merkle_hash_def runs_on_def ks_repr_def)

lemma all_stored_result:
  assumes "runs_on K sha cached S L" "holds (km_store k) f" "\<forall>h \<in> set hs. length h = 32"
  shows "all_stored (km_has_merkle_hash K k) hs = Inr (\<forall>h \<in> set hs. stored k h \<noteq> None)"
  using assms(3) by (induction hs) (auto simp: has_hash [OF assms(1,2)])

lemma children_length: "holds s f \<Longrightarrow> ch \<in> set (l_children (layer_of sha c)) \<Longrightarrow> length ch = 32"
  using world(1) by (auto simp: layer_of_def content_world_def contents_hash_def)

lemma adds_layer:
  assumes K: "runs_on K sha cached S L" and k: "holds (km_store k) f" and c: "c \<in> C"
    and ch: "\<forall>ch \<in> set (l_children (layer_of sha c)). stored k ch \<noteq> None" and new: "stored k (contents_hash sha c) = None"
  shows "\<exists>s. ks_add_merkle_layer (kx_store K) (layer_of sha c) (km_store k) = Inr s \<and> holds s f \<and>
    view (ks_inner s) = (stored k)(contents_hash sha c \<mapsto> layer_of sha c)"
proof -
  have KS: "kx_store K = S" using K by (simp add: runs_on_def)
  obtain s' where s': "save_layer (so_merkle S) (layer_of sha c) (ks_inner (km_store k)) = Inr s'" "repr s' f"
      "view s' = (stored k)(contents_hash sha c \<mapsto> layer_of sha c)"
    using put_layer [of "ks_inner (km_store k)" f c] k c ch new by (auto simp: ks_repr_def)
  have has: "ks_has_merkle_hash S (km_store k) h = Inr True" if "h \<in> set (l_children (layer_of sha c))" for h
    using has_layer [of "ks_inner (km_store k)" f h] k ch that children_length [OF k that]
    by (simp add: ks_has_merkle_hash_def ks_repr_def)
  have "rfold (\<lambda>child _. rbind (ks_has_merkle_hash S (km_store k) child)
      (\<lambda>b. ensure b (MerkleCustom ''has_merkle_hash(*child)''))) hs () = Inr ()"
    if "set hs \<subseteq> set (l_children (layer_of sha c))" for hs
    using that by (induction hs) (simp_all add: has)
  then show ?thesis using s' k KS by (auto simp: ks_add_merkle_layer_def ks_repr_def)
qed

text \<open>All the work is done, nothing is lost: what is stored or waits for its children is still one or the other.\<close>

lemma process_result:
  assumes K: "runs_on K sha cached S L" and D: "target sha C D" and b: "2 \<le> b"
  shows "holds (km_store k) f \<Longrightarrow> sync_ok sha D (stored k) (set W) p \<Longrightarrow> work_bound (hash_rank sha D) m b p \<Longrightarrow>
    \<exists>p' s. process_hashes K W p k = Some (Inr (), p', k\<lparr>km_store := s\<rparr>) \<and> holds s f \<and>
      sync_ok sha D (view (ks_inner s)) {} p' \<and> pb_block p' = pb_block p \<and> pb_needed p' = pb_needed p \<and>
      (\<forall>h. view (ks_inner s) h \<noteq> None \<or> pb_pending p' h \<noteq> None \<longleftrightarrow> stored k h \<noteq> None \<or> pb_pending p h \<noteq> None) \<and>
      stored k \<subseteq>\<^sub>m view (ks_inner s)"
proof (induction "works_weight (hash_rank sha D) m b W" arbitrary: W p k rule: less_induct)
  case less
  let ?w = "works_weight (hash_rank sha D) m b"
  note i = sync_okD [OF less.prems(2)]
  show ?case
  proof (cases W)
    case Nil
    then show ?thesis using less.prems
      by (intro exI [of _ p] exI [of _ "km_store k"]) (simp add: process_hashes.simps)
  next
    case (Cons x rest)
    show ?thesis
    proof (cases x)
      case (Forget h)
      let ?p = "p\<lparr>pb_reverse := (pb_reverse p)(h := None)\<rparr>"
      have "sync_ok sha D (stored k) (set rest) ?p" using sync_ok_forget [of sha D "stored k" h "set rest" p] less.prems(2) Cons Forget by simp
      moreover have "work_bound (hash_rank sha D) m b ?p" using less.prems(3) by (simp add: work_bound_def)
      ultimately obtain p' s where "process_hashes K rest ?p k = Some (Inr (), p', k\<lparr>km_store := s\<rparr>)" "holds s f"
          "sync_ok sha D (view (ks_inner s)) {} p'" "pb_block p' = pb_block p" "pb_needed p' = pb_needed p"
          "\<forall>h. view (ks_inner s) h \<noteq> None \<or> pb_pending p' h \<noteq> None \<longleftrightarrow> stored k h \<noteq> None \<or> pb_pending p h \<noteq> None"
          "stored k \<subseteq>\<^sub>m view (ks_inner s)"
        using less.hyps [of rest k ?p] less.prems(1) Cons Forget by auto
      then show ?thesis using Cons Forget by (subst process_hashes.simps) auto
    next
      case (Visit h)
      let ?p = "p\<lparr>pb_pending := (pb_pending p)(h := None)\<rparr>"
      have known: "stored k h \<noteq> None \<or> pb_pending p h \<noteq> None" using i(10) Cons Visit by simp
      have len: "length h = 32"
        using known i(3) [of h] world [OF less.prems(1)]
        unfolding good_view_def view_of_world_def content_world_def contents_hash_def by blast
      note hh = has_hash [OF K less.prems(1) len]
      have lighter: "?w (visit_parents p h @ rest) < ?w W" using parents_lighter [OF less.prems(3) b, of h] Cons Visit by simp
      have wb: "work_bound (hash_rank sha D) m b ?p" using less.prems(3) by (simp add: work_bound_def)
      have ok0: "sync_ok sha D (stored k) (insert (Visit h) (set rest)) p" using less.prems(2) Cons Visit by simp
      show ?thesis
      proof (cases "stored k h")
        case (Some l)
        then have st: "stored k h \<noteq> None" by simp
        have "sync_ok sha D (stored k) (set (visit_parents p h @ rest)) ?p"
          unfolding set_append by (rule sync_ok_stored [OF ok0]) (simp_all add: Some)
        from less.hyps [OF lighter less.prems(1) this wb] obtain p' s where
            "process_hashes K (visit_parents p h @ rest) ?p k = Some (Inr (), p', k\<lparr>km_store := s\<rparr>)" "holds s f"
            "sync_ok sha D (view (ks_inner s)) {} p'" "pb_block p' = pb_block p" "pb_needed p' = pb_needed p"
            "\<forall>g. view (ks_inner s) g \<noteq> None \<or> pb_pending p' g \<noteq> None \<longleftrightarrow> stored k g \<noteq> None \<or> pb_pending ?p g \<noteq> None"
            "stored k \<subseteq>\<^sub>m view (ks_inner s)" by auto
        moreover have "stored k g \<noteq> None \<or> pb_pending ?p g \<noteq> None \<longleftrightarrow> stored k g \<noteq> None \<or> pb_pending p g \<noteq> None" for g
          using st by simp
        ultimately show ?thesis using Cons Visit hh st by (subst process_hashes.simps) auto
      next
        case None
        then obtain l where l: "pb_pending p h = Some l" using known by blast
        obtain c where c: "c \<in> D" "contents_hash sha c = h" "l = layer_of sha c" using i(3) [OF l] by blast
        have cC: "c \<in> C" using c(1) D by (auto simp: target_def)
        have all: "all_stored (km_has_merkle_hash K k) (l_children l) = Inr (\<forall>ch \<in> set (l_children l). stored k ch \<noteq> None)"
          using all_stored_result [OF K less.prems(1)] children_length [OF less.prems(1)] c(3) by blast
        show ?thesis
        proof (cases "\<forall>ch \<in> set (l_children l). stored k ch \<noteq> None")
          case False
          have "sync_ok sha D (stored k) (set rest) p" by (rule sync_ok_wait [OF ok0 None l False])
          moreover have "?w rest < ?w W" using Cons Visit b by simp
          ultimately obtain p' s where
            "process_hashes K rest p k = Some (Inr (), p', k\<lparr>km_store := s\<rparr>)" "holds s f"
            "sync_ok sha D (view (ks_inner s)) {} p'" "pb_block p' = pb_block p" "pb_needed p' = pb_needed p"
            "\<forall>h. view (ks_inner s) h \<noteq> None \<or> pb_pending p' h \<noteq> None \<longleftrightarrow> stored k h \<noteq> None \<or> pb_pending p h \<noteq> None"
            "stored k \<subseteq>\<^sub>m view (ks_inner s)"
            using less.hyps [of rest k p] less.prems(1,3) by auto
          then show ?thesis using Cons Visit hh None l all False by (subst process_hashes.simps) auto
        next
          case True
          obtain t where t: "ks_add_merkle_layer (kx_store K) l (km_store k) = Inr t" "holds t f"
              "view (ks_inner t) = (stored k)(h \<mapsto> l)"
            using adds_layer [OF K less.prems(1) cC] True None unfolding c(2,3) by blast
          let ?k = "k\<lparr>km_store := t\<rparr>"
          have kt: "stored ?k = (stored k)(h \<mapsto> l)" using t(3) by simp
          have "sync_ok sha D (stored ?k) (set (visit_parents p h @ rest)) ?p"
            unfolding kt set_append by (rule sync_ok_stored [OF ok0]) simp_all
          moreover have "holds (km_store ?k) f" using t(2) by simp
          ultimately obtain p' s where r:
            "process_hashes K (visit_parents p h @ rest) ?p ?k = Some (Inr (), p', ?k\<lparr>km_store := s\<rparr>)" "holds s f"
            "sync_ok sha D (view (ks_inner s)) {} p'" "pb_block p' = pb_block p" "pb_needed p' = pb_needed p"
            "\<forall>g. view (ks_inner s) g \<noteq> None \<or> pb_pending p' g \<noteq> None \<longleftrightarrow> stored ?k g \<noteq> None \<or> pb_pending ?p g \<noteq> None"
            "stored ?k \<subseteq>\<^sub>m view (ks_inner s)"
            using less.hyps [OF lighter, of ?k ?p] wb by auto
          have "stored ?k g \<noteq> None \<or> pb_pending ?p g \<noteq> None \<longleftrightarrow> stored k g \<noteq> None \<or> pb_pending p g \<noteq> None" for g
            using l by (simp add: t(3))
          moreover have "stored k \<subseteq>\<^sub>m view (ks_inner s)"
            by (rule map_le_trans [OF _ r(7)]) (use None kt in \<open>auto simp: map_le_def\<close>)
          moreover have "process_hashes K W p k = process_hashes K (visit_parents p h @ rest) ?p ?k"
            using Cons Visit hh None l all True t(1) by (subst process_hashes.simps) simp
          ultimately show ?thesis using r by auto
        qed
      qed
    qed
  qed
qed

text \<open>A faithful answer to a request: what arrived is no longer missing, and nothing else changes.\<close>

lemma layer_arrives:
  assumes K: "runs_on K sha cached S L" and D: "target sha C D" and k: "holds (km_store k) f"
    and ok: "sync_ok sha D (stored k) {} p" and c: "c \<in> D" "contents_hash sha c = h"
    and h: "om_contains (pb_needed p) h" "pb_pending p h = None"
  shows "\<exists>p' s. add_layer_to_pending K h (layer_of sha c) p k = Some (Inr True, p', k\<lparr>km_store := s\<rparr>) \<and> holds s f \<and>
    sync_ok sha D (view (ks_inner s)) {} p' \<and> pb_block p' = pb_block p \<and>
    (\<forall>g. view (ks_inner s) g \<noteq> None \<or> pb_pending p' g \<noteq> None \<longleftrightarrow> stored k g \<noteq> None \<or> pb_pending p g \<noteq> None \<or> g = h) \<and>
    (\<forall>g. om_contains (pb_needed p) g \<longrightarrow> om_contains (pb_needed p') g \<or> g = h)"
proof -
  note W = world(1) [OF k]
  have len: "length h = 32" using c(2) W by (auto simp: content_world_def contents_hash_def)
  note hh = has_hash [OF K k len]
  have remove: "om_contains (om_remove h m) g \<longleftrightarrow> om_contains m g \<and> g \<noteq> h" for m :: "(hash, request_status) omap" and g
    by (auto simp: om_contains_def)
  show ?thesis
  proof (cases "stored k h")
    case (Some l)
    then have "stored k h \<noteq> None" by simp
    then have "sync_ok sha D (stored k) {} (p\<lparr>pb_needed := om_remove h (pb_needed p)\<rparr>)" by (rule sync_ok_drop [OF ok])
    then show ?thesis using k h hh Some
      by (intro exI [of _ "p\<lparr>pb_needed := om_remove h (pb_needed p)\<rparr>"] exI [of _ "km_store k"])
        (auto simp: add_layer_to_pending_def remove)
  next
    case None
    let ?hs = "l_children (layer_of sha c)"
    have "\<forall>ch \<in> set ?hs. km_has_merkle_hash K k ch = Inr (stored k ch \<noteq> None)"
      using has_hash [OF K k] children_length [OF k] by blast
    then obtain p1 where p1: "wait_for_children (km_has_merkle_hash K k) h ?hs True p = (Inr (\<forall>ch \<in> set ?hs. stored k ch \<noteq> None), p1)"
        "pb_block p1 = pb_block p" "pb_pending p1 = pb_pending p"
        "\<forall>g. om_contains (pb_needed p1) g \<longleftrightarrow> om_contains (pb_needed p) g \<or> (g \<in> set ?hs \<and> stored k g = None)"
        "dom (pb_reverse p1) = dom (pb_reverse p) \<union> {g \<in> set ?hs. stored k g = None}"
        "\<forall>g q. (\<exists>ps. pb_reverse p1 g = Some ps \<and> q \<in> set ps) \<longleftrightarrow>
          (\<exists>ps. pb_reverse p g = Some ps \<and> q \<in> set ps) \<or> (g \<in> set ?hs \<and> stored k g = None \<and> q = h)"
      using wait_for_children_effect [of ?hs "km_has_merkle_hash K k" "stored k" h True p] by auto
    let ?p = "p1\<lparr>pb_pending := (pb_pending p1)(h \<mapsto> layer_of sha c), pb_needed := om_remove h (pb_needed p1)\<rparr>"
    have ok1: "sync_ok sha D (stored k) (if \<forall>ch \<in> set ?hs. stored k ch \<noteq> None then {Visit h} else {}) ?p"
      by (rule sync_ok_arrive [OF ok W D c None h(1) p1(3-6)])
    have known: "stored k g \<noteq> None \<or> pb_pending ?p g \<noteq> None \<longleftrightarrow> stored k g \<noteq> None \<or> pb_pending p g \<noteq> None \<or> g = h" for g
      using p1(3) by auto
    have needed: "om_contains (pb_needed p) g \<longrightarrow> om_contains (pb_needed ?p) g \<or> g = h" for g
      using p1(4) by (auto simp: remove)
    show ?thesis
    proof (cases "\<forall>ch \<in> set ?hs. stored k ch \<noteq> None")
      case False
      then have "wait_for_children (km_has_merkle_hash K k) h ?hs True p = (Inr False, p1)" using p1(1) by simp
      then have "add_layer_to_pending K h (layer_of sha c) p k = Some (Inr True, ?p, k)"
        using h hh None by (simp add: add_layer_to_pending_def Let_def)
      moreover have "sync_ok sha D (stored k) {} ?p" using ok1 unfolding if_not_P [OF False] .
      ultimately show ?thesis using k p1(2) known needed
        by (intro exI [of _ ?p] exI [of _ "km_store k"]) auto
    next
      case True
      then have ok2: "sync_ok sha D (stored k) (set [Visit h]) ?p" using ok1 by simp
      obtain m b where mb: "2 \<le> b" "work_bound (hash_rank sha D) m b ?p" using work_bound_exists [OF W D ok2] by blast
      obtain p' s where r: "process_hashes K [Visit h] ?p k = Some (Inr (), p', k\<lparr>km_store := s\<rparr>)" "holds s f"
          "sync_ok sha D (view (ks_inner s)) {} p'" "pb_block p' = pb_block ?p" "pb_needed p' = pb_needed ?p"
          "\<forall>g. view (ks_inner s) g \<noteq> None \<or> pb_pending p' g \<noteq> None \<longleftrightarrow> stored k g \<noteq> None \<or> pb_pending ?p g \<noteq> None"
        using process_result [OF K D mb(1) k ok2 mb(2)] by blast
      then have "add_layer_to_pending K h (layer_of sha c) p k = Some (Inr True, p', k\<lparr>km_store := s\<rparr>)"
        using h hh None p1(1) True by (simp add: add_layer_to_pending_def Let_def)
      then show ?thesis using r p1(2) known needed by (intro exI [of _ p'] exI [of _ s]) auto
    qed
  qed
qed

end

section \<open>What is needed is enough\<close>

text \<open>Below whatever is missing there is a layer that is needed and has not arrived.\<close>

lemma useful_request:
  assumes D: "content_world sha C" "target sha C D" and ok: "sync_ok sha D v {} p"
  shows "v h = None \<Longrightarrow> om_contains (pb_needed p) h \<or> pb_pending p h \<noteq> None \<Longrightarrow>
    \<exists>g. om_contains (pb_needed p) g \<and> v g = None \<and> pb_pending p g = None"
proof (induction h rule: measure_induct_rule [of "hash_rank sha D"])
  case (less h)
  note i = sync_okD [OF ok]
  show ?case
  proof (cases "pb_pending p h")
    case None
    then show ?thesis using less.prems by blast
  next
    case (Some l)
    then obtain ch where ch: "ch \<in> set (l_children l)" "v ch = None" using i(6) by blast
    obtain c where "c \<in> D" "contents_hash sha c = h" "l = layer_of sha c" using i(3) [OF Some] by blast
    then have "child_of sha D ch h" using ch(1) by (auto simp: child_of_def)
    then show ?thesis using less.IH [OF child_rank [OF D] ch(2) i(5) [OF Some ch]] by blast
  qed
qed

lemma nothing_missing:
  assumes "content_world sha C" "target sha C D" "sync_ok sha D v {} p" "roots_known v p"
    and "\<forall>g. om_contains (pb_needed p) g \<longrightarrow> v g \<noteq> None"
  shows "\<forall>h \<in> {bk_framework_state (stj_inner (pb_block p)), bk_app_state (stj_inner (pb_block p)), bk_logs (stj_inner (pb_block p))}. v h \<noteq> None"
  using useful_request [OF assms(1-3)] assms(4,5) unfolding roots_known_def by blast

section \<open>Requests\<close>

lemma scan_layers_front:
  assumes "\<forall>h \<in> fst ` set (take n es). has h = Inr False" "n \<le> length es"
  shows "\<exists>reqs es'. scan_layers has period now n es = (Inr ([], reqs), es') \<and> map fst es' = map fst es \<and>
    set reqs \<subseteq> DataMerkle ` fst ` set (take n es)"
  using assms
proof (induction es arbitrary: n)
  case (Cons e es)
  obtain h st where e: "e = (h, st)" by fastforce
  show ?case
  proof (cases n)
    case (Suc m)
    obtain reqs es' where "scan_layers has period now m es = (Inr ([], reqs), es')" "map fst es' = map fst es"
        "set reqs \<subseteq> DataMerkle ` fst ` set (take m es)"
      using Cons.IH [of m] Cons.prems Suc by fastforce
    then show ?thesis using Cons.prems Suc by (auto simp: e case_prod_unfold Let_def)
  qed (simp add: e)
qed simp

section \<open>The stores\<close>

interpretation fjall_sync: layer_store "fjall_chain_repr sha C cached enc dec B" C enc dec B "fjall_store_ops sha cached enc dec"
  sha cached fjall_view fjall_archived "list_lru (Suc n)" "\<lambda>c. distinct (map fst c) \<and> length c \<le> Suc n" "Suc n"
  for sha C cached enc dec B n
proof (unfold_locales, goal_cases)
  case (1 s f c s')
  have w: "content_world sha C" "fjall_ok s" using 1(1) by (auto simp: fjall_chain_repr_def fjall_repr_def block_world_def)
  have h: "layer_hash sha (layer_of sha c) = contents_hash sha c" by (simp add: layer_hash_def layer_of_def contents_hash_def)
  have "length (contents_hash sha d) = 32" for d using w(1) by (simp add: content_world_def contents_hash_def)
  then have "\<forall>ch \<in> set (l_children (layer_of sha c)). length ch = 32 \<and> fjall_view s ch \<noteq> None" "length (contents_hash sha c) = 32"
    using 1(3) by (auto simp: layer_of_def)
  then show ?case using fjall.save [OF w(2), of sha "layer_of sha c"] 1(4,5) h by (simp add: fjall_store_ops_def)
qed

interpretation memory_sync: layer_store "memory_repr sha C cached enc dec B" C enc dec B "memory_store_ops sha cached enc dec"
  sha cached "\<lambda>db. om_get (db_merkle db)" db_archived "list_lru (Suc n)" "\<lambda>c. distinct (map fst c) \<and> length c \<le> Suc n" "Suc n"
  for sha C cached enc dec B n
proof (unfold_locales, goal_cases)
  case (1 s f c s')
  have w: "content_world sha C" "memory_ok (db_merkle s)" using 1(1) by (auto simp: memory_repr_def block_world_def)
  have h: "layer_hash sha (layer_of sha c) = contents_hash sha c" by (simp add: layer_hash_def layer_of_def contents_hash_def)
  have "length (contents_hash sha d) = 32" for d using w(1) by (simp add: content_world_def contents_hash_def)
  then have "\<forall>ch \<in> set (l_children (layer_of sha c)). length ch = 32 \<and> om_get (db_merkle s) ch \<noteq> None" "length (contents_hash sha c) = 32"
    using 1(3) by (auto simp: layer_of_def)
  then show ?case using memory_full.save [OF w(2), of sha "layer_of sha c"] 1(4,5) h by (simp add: memory_store_ops_def)
qed

section \<open>Downloading the states of a block\<close>

text \<open>The first block a node waits for is one whose states, parts of \<open>D\<close>, it is downloading.\<close>

definition downloading ::
  "('d, 'm, 's, kv, (u64 \<times> ('d, 'm) signed_block storable_block) list, 'ct, 'cb) gossip_env \<Rightarrow> contents set \<Rightarrow>
    ('d, 'm) signed_block enc \<Rightarrow> ('d, 'm) signed_block dec \<Rightarrow> ('d, 'm) signed_block storable_block set \<Rightarrow> nat \<Rightarrow> contents set \<Rightarrow>
    u64 \<Rightarrow> ('d, 'm) pending_block \<Rightarrow> ('d, 'm) signed_block block_table \<Rightarrow>
    ('d, 'm, 's, kv, (u64 \<times> ('d, 'm) signed_block storable_block) list, 'ct, 'cb) kolme \<Rightarrow> ('d, 'm) sync_manager \<Rightarrow> bool" where
  "downloading G C enc dec B n D height p f k sm \<longleftrightarrow> om_first (sm_needed sm) = Some (height, Pending p) \<and>
     on_fjall (gx_node G) C enc dec B n k f \<and> target (kx_sha (gx_node G)) C D \<and>
     sync_ok (kx_sha (gx_node G)) D (stored_layers k) {} p \<and> roots_known (stored_layers k) p"

definition block_roots :: "('d, 'm) signed_block \<Rightarrow> hash set" where
  "block_roots b = {bk_framework_state (stj_inner b), bk_app_state (stj_inner b), bk_logs (stj_inner b)}"

definition not_arrived ::
  "('d, 'm, 's, kv, 'c, 'ct, 'cb) kenv \<Rightarrow> contents set \<Rightarrow> ('d, 'm) pending_block \<Rightarrow> ('d, 'm, 's, kv, 'c, 'ct, 'cb) kolme \<Rightarrow> hash set" where
  "not_arrived K D p k = missing (kx_sha K) D (stored_layers k) p"

text \<open>A peer answers, faithfully, a request for a layer that is neither stored nor has arrived.\<close>

inductive answered ::
  "('d, 'm, 's, kv, 'c, 'ct, 'cb) gossip_env \<Rightarrow> contents set \<Rightarrow>
    ('d, 'm, 's, kv, 'c, 'ct, 'cb) kolme \<times> ('d, 'm) sync_manager \<Rightarrow>
    ('d, 'm, 's, kv, 'c, 'ct, 'cb) kolme \<times> ('d, 'm) sync_manager \<Rightarrow> bool" for G D where
  "om_first (sm_needed sm) = Some (height, Pending p) \<Longrightarrow> om_contains (pb_needed p) h \<Longrightarrow> stored_layers k h = None \<Longrightarrow>
   pb_pending p h = None \<Longrightarrow> c \<in> D \<Longrightarrow> contents_hash (kx_sha (gx_node G)) c = h \<Longrightarrow>
   handle_message G now (ProvideLayer h (Some (layer_of (kx_sha (gx_node G)) c))) k sm = Some (sent, k', sm') \<Longrightarrow>
   answered G D (k, sm) (k', sm')"

lemma om_first_insert: "om_first m = Some (h, x) \<Longrightarrow> om_first (om_insert h y m) = Some (h, y)"
  by (cases m) (auto simp: om_first_def)

lemma on_fjall_world:
  "on_fjall K C enc dec B n k f \<Longrightarrow> content_world (kx_sha K) C"
  using fjall_sync.world(1) on_fjallD(2) by blast

lemma answer_result:
  assumes d: "downloading G C enc dec B n D height p f k sm"
    and h: "om_contains (pb_needed p) h" "pb_pending p h = None" "c \<in> D" "contents_hash (kx_sha (gx_node G)) c = h"
  shows "\<exists>p' k' sm'. handle_message G now (ProvideLayer h (Some (layer_of (kx_sha (gx_node G)) c))) k sm = Some ([], k', sm') \<and>
    downloading G C enc dec B n D height p' f k' sm' \<and> pb_block p' = pb_block p \<and> km_current k' = km_current k \<and>
    not_arrived (gx_node G) D p' k' = not_arrived (gx_node G) D p k - {h}"
proof -
  let ?K = "gx_node G"
  have first: "om_first (sm_needed sm) = Some (height, Pending p)" and on: "on_fjall ?K C enc dec B n k f"
    and D: "target (kx_sha ?K) C D" and ok: "sync_ok (kx_sha ?K) D (stored_layers k) {} p" and roots: "roots_known (stored_layers k) p"
    using d by (auto simp: downloading_def)
  note K = on_fjallD [OF on]
  obtain p' s where r: "add_layer_to_pending ?K h (layer_of (kx_sha ?K) c) p k = Some (Inr True, p', k\<lparr>km_store := s\<rparr>)"
      "ks_repr (fjall_chain_repr (kx_sha ?K) C (kx_cached ?K) enc dec B) (list_lru (Suc n)) (\<lambda>c. distinct (map fst c) \<and> length c \<le> Suc n) s f"
      "sync_ok (kx_sha ?K) D (fjall_view (ks_inner s)) {} p'" "pb_block p' = pb_block p"
      "\<forall>g. fjall_view (ks_inner s) g \<noteq> None \<or> pb_pending p' g \<noteq> None \<longleftrightarrow> stored_layers k g \<noteq> None \<or> pb_pending p g \<noteq> None \<or> g = h"
      "\<forall>g. om_contains (pb_needed p) g \<longrightarrow> om_contains (pb_needed p') g \<or> g = h"
    using fjall_sync.layer_arrives [OF K(1) D K(2) ok [unfolded stored_layers_def] h(3,4,1,2)] unfolding stored_layers_def by blast
  let ?k = "k\<lparr>km_store := s\<rparr>" and ?sm = "sync_trigger (sm\<lparr>sm_needed := om_insert height (Pending p') (sm_needed sm)\<rparr>)"
  have sl: "stored_layers ?k = fjall_view (ks_inner s)" by (simp add: stored_layers_def)
  have "layer_hash (kx_sha ?K) (layer_of (kx_sha ?K) c) = h" using h(4) by (simp add: layer_hash_def layer_of_def contents_hash_def)
  then have msg: "handle_message G now (ProvideLayer h (Some (layer_of (kx_sha ?K) c))) k sm = Some ([], ?k, ?sm)"
    using first r(1) by (simp add: add_merkle_layer_def)
  have "roots_known (stored_layers ?k) p'" unfolding roots_known_def sl r(4)
  proof
    fix g assume "g \<in> {bk_framework_state (stj_inner (pb_block p)), bk_app_state (stj_inner (pb_block p)), bk_logs (stj_inner (pb_block p))}"
    then have "stored_layers k g \<noteq> None \<or> pb_pending p g \<noteq> None \<or> om_contains (pb_needed p) g" using roots unfolding roots_known_def by blast
    then show "fjall_view (ks_inner s) g \<noteq> None \<or> om_contains (pb_needed p') g \<or> pb_pending p' g \<noteq> None"
      using r(5) [rule_format, of g] r(6) [rule_format, of g] by argo
  qed
  moreover have "on_fjall ?K C enc dec B n ?k f" using on r(2) by (simp add: on_fjall_def)
  moreover have "om_first (sm_needed ?sm) = Some (height, Pending p')" using om_first_insert [OF first] by (simp add: sync_trigger_def)
  ultimately have "downloading G C enc dec B n D height p' f ?k ?sm" using D r(3) by (simp add: downloading_def sl)
  moreover have "not_arrived ?K D p' ?k = not_arrived ?K D p k - {h}"
    using r(5) unfolding not_arrived_def missing_def sl by blast
  ultimately show ?thesis using msg r(4) by auto
qed

lemma answeredD:
  "answered G D (k, sm) (k', sm') \<Longrightarrow>
    \<exists>height p h c now sent. om_first (sm_needed sm) = Some (height, Pending p) \<and> om_contains (pb_needed p) h \<and> stored_layers k h = None \<and>
      pb_pending p h = None \<and> c \<in> D \<and> contents_hash (kx_sha (gx_node G)) c = h \<and>
      handle_message G now (ProvideLayer h (Some (layer_of (kx_sha (gx_node G)) c))) k sm = Some (sent, k', sm')"
  by (cases rule: answered.cases) blast+

lemma answered_step:
  assumes d: "downloading G C enc dec B n D height p f k sm" and a: "answered G D (k, sm) (k', sm')"
  shows "\<exists>p'. downloading G C enc dec B n D height p' f k' sm' \<and> pb_block p' = pb_block p \<and> km_current k' = km_current k \<and>
    Suc (card (not_arrived (gx_node G) D p' k')) = card (not_arrived (gx_node G) D p k)"
proof -
  obtain height' q h c now sent where 1: "om_first (sm_needed sm) = Some (height', Pending q)" "om_contains (pb_needed q) h"
      "stored_layers k h = None" "pb_pending q h = None" "c \<in> D" "contents_hash (kx_sha (gx_node G)) c = h"
      "handle_message G now (ProvideLayer h (Some (layer_of (kx_sha (gx_node G)) c))) k sm = Some (sent, k', sm')"
    using answeredD [OF a] by (elim exE conjE) (rule that)
  have q: "q = p" using 1(1) d by (simp add: downloading_def)
  obtain p' k1 sm1 where r: "handle_message G now (ProvideLayer h (Some (layer_of (kx_sha (gx_node G)) c))) k sm = Some ([], k1, sm1)"
      "downloading G C enc dec B n D height p' f k1 sm1" "pb_block p' = pb_block p" "km_current k1 = km_current k"
      "not_arrived (gx_node G) D p' k1 = not_arrived (gx_node G) D p k - {h}"
    using answer_result [OF d] 1(2-6) unfolding q by blast
  have eq: "k1 = k'" "sm1 = sm'" using r(1) 1(7) by simp_all
  have "h \<in> not_arrived (gx_node G) D p k" using 1(3-6) unfolding q not_arrived_def missing_def by blast
  moreover have "finite (not_arrived (gx_node G) D p k)" using d by (simp add: not_arrived_def missing_def downloading_def target_def)
  ultimately have "Suc (card (not_arrived (gx_node G) D p' k1)) = card (not_arrived (gx_node G) D p k)"
    unfolding r(5) by (rule card_Suc_Diff1 [rotated])
  then show ?thesis using r(2-4) unfolding eq by blast
qed

lemma answered_steps:
  "(answered G D ^^ m) (k, sm) (k', sm') \<Longrightarrow> downloading G C enc dec B n D height p f k sm \<Longrightarrow>
    \<exists>p'. downloading G C enc dec B n D height p' f k' sm' \<and> pb_block p' = pb_block p \<and> km_current k' = km_current k \<and>
      m + card (not_arrived (gx_node G) D p' k') = card (not_arrived (gx_node G) D p k)"
proof (induction m arbitrary: k' sm')
  case (Suc m)
  obtain q1 where "(answered G D ^^ m) (k, sm) q1" "answered G D q1 (k', sm')" using Suc.prems(1) by (rule relpowp_Suc_E)
  then obtain k1 sm1 where 1: "(answered G D ^^ m) (k, sm) (k1, sm1)" "answered G D (k1, sm1) (k', sm')" by (cases q1) simp
  obtain p1 where p1: "downloading G C enc dec B n D height p1 f k1 sm1" "pb_block p1 = pb_block p" "km_current k1 = km_current k"
      "m + card (not_arrived (gx_node G) D p1 k1) = card (not_arrived (gx_node G) D p k)"
    using Suc.IH [OF 1(1) Suc.prems(2)] by (elim exE conjE) (rule that)
  obtain p2 where p2: "downloading G C enc dec B n D height p2 f k' sm'" "pb_block p2 = pb_block p1" "km_current k' = km_current k1"
      "Suc (card (not_arrived (gx_node G) D p2 k')) = card (not_arrived (gx_node G) D p1 k1)"
    using answered_step [OF p1(1) 1(2)] by (elim exE conjE) (rule that)
  show ?case using p1 p2 by (intro exI [of _ p2] conjI) simp_all
qed auto

lemma no_answer_left:
  assumes d: "downloading G C enc dec B n D height p f k sm" and last: "\<nexists>q. answered G D (k, sm) q"
  shows "\<forall>h \<in> block_roots (pb_block p). stored_layers k h \<noteq> None" "\<forall>g. om_contains (pb_needed p) g \<longrightarrow> stored_layers k g \<noteq> None"
proof -
  let ?K = "gx_node G"
  have first: "om_first (sm_needed sm) = Some (height, Pending p)" and on: "on_fjall ?K C enc dec B n k f"
    and D: "target (kx_sha ?K) C D" and ok: "sync_ok (kx_sha ?K) D (stored_layers k) {} p" and roots: "roots_known (stored_layers k) p"
    using d by (auto simp: downloading_def)
  note W = on_fjall_world [OF on]
  show needed: "\<forall>g. om_contains (pb_needed p) g \<longrightarrow> stored_layers k g \<noteq> None"
  proof (rule ccontr)
    assume "\<not> (\<forall>g. om_contains (pb_needed p) g \<longrightarrow> stored_layers k g \<noteq> None)"
    then obtain g where g: "om_contains (pb_needed p) g" "stored_layers k g = None" "pb_pending p g = None"
      using useful_request [OF W D ok] by blast
    obtain c where c: "c \<in> D" "contents_hash (kx_sha ?K) c = g" using sync_okD(2) [OF ok g(1)] by blast
    obtain k' sm' where "handle_message G 0 (ProvideLayer g (Some (layer_of (kx_sha ?K) c))) k sm = Some ([], k', sm')"
      using answer_result [OF d g(1,3) c] by blast
    then have "answered G D (k, sm) (k', sm')" by (rule answered.intros [OF first g c])
    then show False using last by blast
  qed
  then show "\<forall>h \<in> block_roots (pb_block p). stored_layers k h \<noteq> None"
    using nothing_missing [OF W D ok roots] by (simp add: block_roots_def)
qed


section \<open>A download that starts\<close>

lemma start_pending_result:
  assumes on: "on_fjall K C enc dec B n k f" and roots: "block_roots b \<subseteq> contents_hash (kx_sha K) ` D"
  shows "\<exists>p. start_pending (km_has_merkle_hash K k) b = Inr p \<and> pb_block p = b \<and>
    sync_ok (kx_sha K) D (stored_layers k) {} p \<and> roots_known (stored_layers k) p"
proof -
  note K = on_fjallD [OF on]
  have len: "length h = 32" if "h \<in> block_roots b" for h
    using that roots on_fjall_world [OF on] by (auto simp: content_world_def contents_hash_def)
  have has: "km_has_merkle_hash K k h = Inr (stored_layers k h \<noteq> None)" if "h \<in> block_roots b" for h
    unfolding stored_layers_def by (rule fjall_sync.has_hash [OF K len [OF that]])
  define fresh where "fresh = (\<lambda>m. \<lparr>pb_block = b, pb_needed = m, pb_pending = (\<lambda>_. None), pb_reverse = (\<lambda>_. None)\<rparr>)"
  have fold: "\<exists>m'. rfold (\<lambda>h p. rbind (km_has_merkle_hash K k h)
         (\<lambda>stored. Inr (if stored then p else p\<lparr>pb_needed := om_insert h request_new (pb_needed p)\<rparr>))) hs (fresh m) = Inr (fresh m') \<and>
       (\<forall>g. om_contains m' g \<longleftrightarrow> om_contains m g \<or> (g \<in> set hs \<and> stored_layers k g = None))"
    if "set hs \<subseteq> block_roots b" for hs m
    using that
  proof (induction hs arbitrary: m)
    case (Cons h hs)
    let ?m = "if stored_layers k h \<noteq> None then m else om_insert h request_new m"
    obtain m' where "rfold (\<lambda>h p. rbind (km_has_merkle_hash K k h)
         (\<lambda>stored. Inr (if stored then p else p\<lparr>pb_needed := om_insert h request_new (pb_needed p)\<rparr>))) hs (fresh ?m) = Inr (fresh m')"
        "\<forall>g. om_contains m' g \<longleftrightarrow> om_contains ?m g \<or> (g \<in> set hs \<and> stored_layers k g = None)"
      using Cons.IH [of ?m] Cons.prems unfolding list.set by blast
    then show ?case using Cons.prems has [of h] by (intro exI [of _ m']) (auto simp: fresh_def om_contains_def)
  qed auto
  obtain m where m: "start_pending (km_has_merkle_hash K k) b = Inr (fresh m)"
      "\<And>g. om_contains m g \<longleftrightarrow> g \<in> block_roots b \<and> stored_layers k g = None"
    using fold [of "[bk_framework_state (stj_inner b), bk_app_state (stj_inner b), bk_logs (stj_inner b)]" "[]"]
    by (auto simp: start_pending_def fresh_def block_roots_def om_contains_def)
  have "sync_ok (kx_sha K) D (stored_layers k) {} (fresh m)"
    using m(2) roots by (intro sync_okI) (auto simp: fresh_def)
  moreover have "roots_known (stored_layers k) (fresh m)"
    using m(2) by (auto simp: roots_known_def fresh_def block_roots_def)
  ultimately show ?thesis using m(1) by (intro exI [of _ "fresh m"]) (simp add: fresh_def)
qed

text \<open>Faithful peers can always finish the download.\<close>

lemma answers_finish:
  "downloading G C enc dec B n D height p f k sm \<Longrightarrow>
    \<exists>m k' sm'. (answered G D ^^ m) (k, sm) (k', sm') \<and> (\<nexists>q. answered G D (k', sm') q)"
proof (induction "card (not_arrived (gx_node G) D p k)" arbitrary: k sm p rule: less_induct)
  case less
  show ?case
  proof (cases "\<exists>q. answered G D (k, sm) q")
    case True
    then obtain k1 sm1 where 1: "answered G D (k, sm) (k1, sm1)" by (metis surj_pair)
    obtain p1 where p1: "downloading G C enc dec B n D height p1 f k1 sm1"
        "Suc (card (not_arrived (gx_node G) D p1 k1)) = card (not_arrived (gx_node G) D p k)"
      using answered_step [OF less.prems 1] by (elim exE conjE) (rule that)
    obtain m k' sm' where "(answered G D ^^ m) (k1, sm1) (k', sm')" "\<nexists>q. answered G D (k', sm') q"
      using less.hyps [OF _ p1(1)] p1(2) by auto
    moreover from this have "(answered G D ^^ Suc m) (k, sm) (k', sm')" by (intro relpowp_Suc_I2 [of _ _ "(k1, sm1)"] 1)
    ultimately show ?thesis by blast
  next
    case False
    then have "(answered G D ^^ 0) (k, sm) (k, sm) \<and> (\<nexists>q. answered G D (k, sm) q)" by simp
    then show ?thesis by blast
  qed
qed

text \<open>The states of \<open>stray_block\<close>.\<close>

definition stray_states :: "contents set" where
  "stray_states = {Contents [8] [], Contents [9] [], Contents [1, 0] []}"

abbreviation sync_env ::
  "(int, unit, unit, kv, (u64 \<times> (int, unit) signed_block storable_block) list,
    (hash \<times> (int, unit) mempool_item) list, (hash \<times> (int, unit) block_reason) list) gossip_env" where
  "sync_env \<equiv> \<lparr>gx_node = fjall_env, gx_sync_mode = StateTransfer, gx_validation = ValidateDataLoads, gx_limit = 1, gx_warning_period = 0\<rparr>"

lemma stray_download:
  "\<exists>p sm. downloading sync_env sample_contents enc_sample dec_sample sample_blocks 0 stray_states 7 p (\<lambda>_. None) first_node sm \<and>
     pb_block p = stray_block \<and> start_pending (km_has_merkle_hash fjall_env first_node) stray_block = Inr p"
proof -
  have sha: "kx_sha fjall_env = pad_sha" by (simp add: sample_kenv_def)
  have "block_roots stray_block \<subseteq> contents_hash (kx_sha fjall_env) ` stray_states"
    by (auto simp: block_roots_def stray_block_def stj_inner_def stray_states_def contents_hash_def sha)
  then obtain p where p: "start_pending (km_has_merkle_hash fjall_env first_node) stray_block = Inr p" "pb_block p = stray_block"
      "sync_ok pad_sha stray_states (stored_layers first_node) {} p" "roots_known (stored_layers first_node) p"
    using start_pending_result [OF first_node_runs, of stray_block stray_states] unfolding sha by blast
  have "target pad_sha sample_contents stray_states" by (auto simp: target_def stray_states_def sample_contents_def)
  then have "downloading sync_env sample_contents enc_sample dec_sample sample_blocks 0 stray_states 7 p (\<lambda>_. None) first_node
      \<lparr>sm_needed = [(7, Pending p)], sm_trigger = 0\<rparr>"
    using p(3,4) first_node_runs sha by (simp add: downloading_def om_first_def)
  then show ?thesis using p(1,2) by blast
qed


section \<open>The block is added\<close>

lemma scan_layers_stored:
  "n \<noteq> 0 \<Longrightarrow> \<forall>h \<in> fst ` set es. has h = Inr True \<Longrightarrow> scan_layers has period now n es = (Inr (map fst es, []), es)"
  by (induction es) auto

lemma remove_all: "foldl (\<lambda>m h. om_remove h m) m hs = filter (\<lambda>e. fst e \<notin> set hs) m"
  by (induction hs arbitrary: m) (auto simp: om_remove_def intro: filter_cong)

lemma state_sync_adds:
  assumes on: "on_fjall K C enc dec B n k f" and b: "storable_ok C enc dec B (storable b)" "txs_once (insert (storable b) (ran f))"
    and new: "f (block_height b) = None" and signed: "state_processor (km_state k) = bk_processor (stj_inner b)"
      "e_recover (kx_env K) (tj_as_bytes (stj_message b)) (stj_signature b) (stj_recovery_id b) = Some (bk_processor (stj_inner b))"
    and roots: "\<forall>h \<in> block_roots b. stored_layers k h \<noteq> None" "\<forall>h \<in> block_roots b. length h = 32"
  shows "\<exists>k1. add_block_with_state K b k = (Inr (), k1) \<and> km_current k1 = km_current k \<and>
    on_fjall K C enc dec B n k1 (f(block_height b \<mapsto> storable b))"
proof -
  note K = on_fjallD [OF on]
  have "check_block_with_state K b k = Inr ()"
    using fjall_kolme.check_block_with_state_iff [OF K] roots new signed by (simp add: block_roots_def stored_layers_def)
  from fjall_kolme.add_block_with_state_result [OF K b this] show ?thesis using on by (auto simp: on_fjall_def)
qed

text \<open>C11: once no answer is left to wait for, the next round of requests asks for nothing: it adds the block, whose
  states are all stored, to the node's store if the block is the first at its height and signed by the processor the
  node knows, and then lets the node resync to it.\<close>

theorem downloaded_block_is_added:
  assumes "downloading G C enc dec B n D height p f k sm" "\<nexists>q. answered G D (k, sm) q" "gx_limit G \<noteq> 0"
    and "storable_ok C enc dec B (storable (pb_block p))" "txs_once (insert (storable (pb_block p)) (ran f))"
    and "f (block_height (pb_block p)) = None" "state_processor (km_state k) = bk_processor (stj_inner (pb_block p))"
      "e_recover (kx_env (gx_node G)) (tj_as_bytes (stj_message (pb_block p))) (stj_signature (pb_block p)) (stj_recovery_id (pb_block p)) =
         Some (bk_processor (stj_inner (pb_block p)))"
    and "\<forall>h \<in> block_roots (pb_block p). length h = 32"
  shows "\<exists>k1. on_fjall (gx_node G) C enc dec B n k1 (f(block_height (pb_block p) \<mapsto> storable (pb_block p))) \<and>
    km_current k1 = km_current k \<and>
    get_block_data_requests G now p k = map_option
      (\<lambda>r. case r of Inl e \<Rightarrow> (Inl e, p\<lparr>pb_needed := []\<rparr>, k1) | Inr k2 \<Rightarrow> (Inr None, p\<lparr>pb_needed := []\<rparr>, k2))
      (resync (gx_node G) k1)"
proof -
  let ?K = "gx_node G"
  have on: "on_fjall ?K C enc dec B n k f" and ok: "sync_ok (kx_sha ?K) D (stored_layers k) {} p" using assms(1) by (simp_all add: downloading_def)
  note K = on_fjallD [OF on]
  note left = no_answer_left [OF assms(1,2)]
  have "km_has_merkle_hash ?K k h = Inr True" if "h \<in> fst ` set (pb_needed p)" for h
  proof -
    have h: "om_contains (pb_needed p) h" using that om_get_None_iff [of "pb_needed p" h] by (simp add: om_contains_def)
    then have "length h = 32" using sync_okD(2) [OF ok h] on_fjall_world [OF on] by (auto simp: content_world_def contents_hash_def)
    then show ?thesis using fjall_sync.has_hash [OF K] left(2) h by (simp add: stored_layers_def)
  qed
  then have "scan_layers (km_has_merkle_hash ?K k) (gx_warning_period G) now (gx_limit G) (pb_needed p) =
      (Inr (map fst (pb_needed p), []), pb_needed p)"
    by (intro scan_layers_stored assms(3)) blast
  moreover have "filter (\<lambda>e. fst e \<notin> fst ` set (pb_needed p)) (pb_needed p) = []" by (simp add: filter_empty_conv)
  moreover obtain k1 where "add_block_with_state ?K (pb_block p) k = (Inr (), k1)" "km_current k1 = km_current k"
      "on_fjall ?K C enc dec B n k1 (f(block_height (pb_block p) \<mapsto> storable (pb_block p)))"
    using state_sync_adds [OF on assms(4-8) left(1) assms(9)] by blast
  ultimately show ?thesis by (intro exI [of _ k1]) (simp add: get_block_data_requests_def remove_all Let_def)
qed

text \<open>The node that downloaded the states of \<open>stray_block\<close> adds it.\<close>

theorem downloaded_block_is_added_witness:
  "\<exists>k p k1. on_fjall fjall_env sample_contents enc_sample dec_sample sample_blocks 0 k1 [7 \<mapsto> storable stray_block] \<and>
     km_current k1 = NoBlock first_state \<and>
     get_block_data_requests sync_env 0 p k = map_option
      (\<lambda>r. case r of Inl e \<Rightarrow> (Inl e, p\<lparr>pb_needed := []\<rparr>, k1) | Inr k2 \<Rightarrow> (Inr None, p\<lparr>pb_needed := []\<rparr>, k2))
      (resync fjall_env k1)"
proof -
  obtain p0 sm0 where d0: "downloading sync_env sample_contents enc_sample dec_sample sample_blocks 0 stray_states 7 p0 (\<lambda>_. None) first_node sm0"
      "pb_block p0 = stray_block"
    using stray_download by blast
  obtain m k sm where m: "(answered sync_env stray_states ^^ m) (first_node, sm0) (k, sm)" "\<nexists>q. answered sync_env stray_states (k, sm) q"
    using answers_finish [OF d0(1)] by blast
  obtain p where p: "downloading sync_env sample_contents enc_sample dec_sample sample_blocks 0 stray_states 7 p (\<lambda>_. None) k sm"
      "pb_block p = stray_block" "km_current k = km_current first_node"
    using answered_steps [OF m(1) d0(1)] d0(2) by (elim exE conjE) (rule that; simp)
  have b: "block_roots stray_block = {pad_sha [8], pad_sha [9], pad_sha [1, 0]}" "bk_processor (stj_inner stray_block) = PublicKey [1]"
      "stj_signature stray_block = Signature [1]"
    by (simp_all add: block_roots_def stray_block_def stj_inner_def)
  have proc: "state_processor (km_state k) = PublicKey [1]"
    unfolding km_state_def p(3) by (simp add: first_node_def first_state_def state_processor_def fs_new_def sample_genesis_def sample_set_def)
  have rec: "e_recover (kx_env fjall_env) t (Signature [1]) i = Some (PublicKey [1])" for t i by (simp add: sample_kenv_def sample_env_def)
  have start: "km_current k = NoBlock first_state" unfolding p(3) by (simp add: first_node_def)
  from downloaded_block_is_added [OF p(1) m(2)] show ?thesis
    using sample_storable [of stray_block] b proc rec sample_hashes(7) start p(2)
    by (simp add: txs_once_def) blast
qed

section \<open>Layers shared by states\<close>

text \<open>The first needed layers, as many as may be asked for at a time, have all arrived already.  This happens: a layer
  that waits for its children is needed again when another layer with the same child arrives.\<close>

definition starved ::
  "('d, 'm, 's, 'st, 'c, 'ct, 'cb) gossip_env \<Rightarrow> ('d, 'm, 's, 'st, 'c, 'ct, 'cb) kolme \<Rightarrow> ('d, 'm) sync_manager \<Rightarrow> bool" where
  "starved G k sm \<longleftrightarrow> (\<exists>height p. om_first (sm_needed sm) = Some (height, Pending p) \<and>
     km_has_block (gx_node G) k height = Inr False \<and> pb_needed p \<noteq> [] \<and> gx_limit G \<le> length (pb_needed p) \<and>
     (\<forall>h \<in> fst ` set (take (gx_limit G) (pb_needed p)). pb_pending p h \<noteq> None \<and> km_has_merkle_hash (gx_node G) k h = Inr False))"

lemma om_insert_first_same: "om_first m = Some (h, x) \<Longrightarrow> om_insert h x m = m"
  by (cases m) (auto simp: om_first_def)

lemma arrived_layer_ignored:
  assumes "om_first (sm_needed sm) = Some (height, Pending p)" "pb_pending p h \<noteq> None"
  shows "handle_message G now (ProvideLayer h l) k sm = Some ([], k, sm)"
proof (cases l)
  case (Some x)
  have "add_layer_to_pending (gx_node G) h x p k = Some (Inr False, p, k)" using assms(2) by (simp add: add_layer_to_pending_def)
  then show ?thesis using assms(1) om_insert_first_same [OF assms(1)] by (simp add: Some add_merkle_layer_def)
qed simp

lemma requests_of_pending:
  assumes "om_first (sm_needed sm) = Some (height, Pending p)" "km_has_block (gx_node G) k height = Inr False"
    and "gx_sync_mode G = StateTransfer" "es \<noteq> []"
    and "scan_layers (km_has_merkle_hash (gx_node G) k) (gx_warning_period G) now (gx_limit G) (pb_needed p) = (Inr ([], reqs), es)"
  shows "get_data_requests G now k sm =
    Some (Inr reqs, k, sm\<lparr>sm_needed := om_insert height (Pending (p\<lparr>pb_needed := es\<rparr>)) (sm_needed sm)\<rparr>)"
proof -
  have "get_block_data_requests G now p k = Some (Inr (Some reqs), p\<lparr>pb_needed := es\<rparr>, k)"
    using assms(4,5) by (simp add: get_block_data_requests_def Let_def)
  then show ?thesis using assms(1-3)
    by (subst get_data_requests.simps) (simp add: add_missing_needed_blocks_def get_data_requests_for_def Let_def)
qed

text \<open>C36: a download can stop for ever, with every peer answering faithfully.  Once the node is starved, each round
  asks only for layers that have arrived already, the answers to these requests change nothing, and it stays starved:
  the layers that are really missing are never asked for.\<close>

theorem shared_layers_starve_sync:
  assumes "starved G k sm" "gx_sync_mode G = StateTransfer"
  shows "\<exists>reqs sm'. get_data_requests G now k sm = Some (Inr reqs, k, sm') \<and> starved G k sm' \<and>
    (\<forall>r \<in> set reqs. \<exists>h. r = DataMerkle h \<and> (\<forall>now' l. handle_message G now' (ProvideLayer h l) k sm' = Some ([], k, sm')))"
proof -
  let ?K = "gx_node G"
  obtain height p where p: "om_first (sm_needed sm) = Some (height, Pending p)" "km_has_block ?K k height = Inr False"
      "pb_needed p \<noteq> []" "gx_limit G \<le> length (pb_needed p)"
      "\<forall>h \<in> fst ` set (take (gx_limit G) (pb_needed p)). pb_pending p h \<noteq> None \<and> km_has_merkle_hash ?K k h = Inr False"
    using assms(1) unfolding starved_def by blast
  have "\<forall>h \<in> fst ` set (take (gx_limit G) (pb_needed p)). km_has_merkle_hash ?K k h = Inr False" using p(5) by blast
  then obtain reqs es where s: "scan_layers (km_has_merkle_hash ?K k) (gx_warning_period G) now (gx_limit G) (pb_needed p) = (Inr ([], reqs), es)"
      "map fst es = map fst (pb_needed p)" "set reqs \<subseteq> DataMerkle ` fst ` set (take (gx_limit G) (pb_needed p))"
    using scan_layers_front [OF _ p(4), of "km_has_merkle_hash ?K k" "gx_warning_period G" now] by (elim meta_impE exE conjE) (assumption, rule that)
  have len: "length es = length (pb_needed p)" using arg_cong [OF s(2), of length] by simp
  have take: "fst ` set (take n es) = fst ` set (take n (pb_needed p))" for n
    using arg_cong [OF s(2), of "\<lambda>xs. set (take n xs)"] by (simp add: take_map)
  let ?p = "p\<lparr>pb_needed := es\<rparr>" and ?sm = "sm\<lparr>sm_needed := om_insert height (Pending (p\<lparr>pb_needed := es\<rparr>)) (sm_needed sm)\<rparr>"
  have "es \<noteq> []" using p(3) len by auto
  then have run: "get_data_requests G now k sm = Some (Inr reqs, k, ?sm)" by (rule requests_of_pending [OF p(1,2) assms(2) _ s(1)])
  have first: "om_first (sm_needed ?sm) = Some (height, Pending ?p)" using om_first_insert [OF p(1)] by simp
  have "pb_needed ?p \<noteq> []" "gx_limit G \<le> length (pb_needed ?p)" using p(3,4) len by auto
  moreover have "\<forall>h \<in> fst ` set (take (gx_limit G) (pb_needed ?p)). pb_pending ?p h \<noteq> None \<and> km_has_merkle_hash ?K k h = Inr False"
    using p(5) by (simp add: take)
  ultimately have "starved G k ?sm" unfolding starved_def using first p(2) by blast
  moreover have "\<exists>h. r = DataMerkle h \<and> (\<forall>now' l. handle_message G now' (ProvideLayer h l) k ?sm = Some ([], k, ?sm))"
    if r: "r \<in> set reqs" for r
  proof -
    obtain h where h: "r = DataMerkle h" "h \<in> fst ` set (take (gx_limit G) (pb_needed p))" using r s(3) by blast
    have "pb_pending ?p h \<noteq> None" using bspec [OF p(5) h(2)] by simp
    then show ?thesis using arrived_layer_ignored [OF first] h(1) by blast
  qed
  ultimately show ?thesis using run by blast
qed

text \<open>Two states with a common part: after three faithful answers to the requests the node made, one at a time, the
  next layer it asks for is the common part again, which has arrived and waits for its child.\<close>

definition layer_bytes :: "u8 \<Rightarrow> layer" where
  "layer_bytes b = \<lparr>l_payload = [b], l_children = (if b = 1 \<or> b = 3 then [pad_sha [2]] else if b = 2 then [pad_sha [4]] else [])\<rparr>"

definition shared_block :: "(int, unit) signed_block" where
  "shared_block = stray_block\<lparr>stj_message := (stj_message stray_block)\<lparr>tj_value := (stj_inner stray_block)
     \<lparr>bk_framework_state := pad_sha [1], bk_app_state := pad_sha [3], bk_logs := pad_sha [3]\<rparr>\<rparr>\<rparr>"

abbreviation shared_pending ::
  "(hash, request_status) omap \<Rightarrow> (hash \<Rightarrow> layer option) \<Rightarrow> (hash \<Rightarrow> hash list option) \<Rightarrow> nat \<Rightarrow> (int, unit) sync_manager" where
  "shared_pending needed q v t \<equiv> \<lparr>sm_needed = [(7, Pending \<lparr>pb_block = shared_block, pb_needed = needed,
     pb_pending = q, pb_reverse = v\<rparr>)], sm_trigger = t\<rparr>"

theorem shared_layers_starve_sync_witness:
  "\<exists>p sm1 sm2 sm3 sm4 sm5 sm6. start_pending (km_has_merkle_hash fjall_env first_node) shared_block = Inr p \<and>
     get_data_requests sync_env 0 first_node \<lparr>sm_needed = [(7, Pending p)], sm_trigger = 0\<rparr> =
       Some (Inr [DataMerkle (pad_sha [1])], first_node, sm1) \<and>
     handle_message sync_env 0 (ProvideLayer (pad_sha [1]) (Some (layer_bytes 1))) first_node sm1 = Some ([], first_node, sm2) \<and>
     get_data_requests sync_env 0 first_node sm2 = Some (Inr [DataMerkle (pad_sha [2])], first_node, sm3) \<and>
     handle_message sync_env 0 (ProvideLayer (pad_sha [2]) (Some (layer_bytes 2))) first_node sm3 = Some ([], first_node, sm4) \<and>
     get_data_requests sync_env 0 first_node sm4 = Some (Inr [DataMerkle (pad_sha [3])], first_node, sm5) \<and>
     handle_message sync_env 0 (ProvideLayer (pad_sha [3]) (Some (layer_bytes 3))) first_node sm5 = Some ([], first_node, sm6) \<and>
     (\<exists>reqs sm7. get_data_requests sync_env 0 first_node sm6 = Some (Inr reqs, first_node, sm7) \<and> starved sync_env first_node sm7)"
proof -
  have has: "km_has_merkle_hash fjall_env first_node h = Inr False" if "length h = 32" for h
    using fjall_sync.has_hash [OF on_fjallD [OF first_node_runs] that]
    by (simp add: first_node_def ks_from_def fjall_view_def fjall_load_def)
  have block: "km_has_block fjall_env first_node 7 = Inr False"
    using fjall_node.ks_knows_block [OF on_fjallD(2) [OF first_node_runs]] by (simp add: km_has_block_def) (simp add: sample_kenv_def)
  have less: "pad_sha [a] < pad_sha [b] \<longleftrightarrow> a < b" for a b :: u8 by (simp add: sample_codec_def)
  have eq: "pad_sha [a] = pad_sha [b] \<longleftrightarrow> a = b" for a b :: u8 by (simp add: sample_codec_def)
  have sha: "kx_sha fjall_env = pad_sha" by (simp add: sample_kenv_def)
  define r where "r = \<lparr>rq_last_sent = Some 0, rq_warning_updated = Some 0\<rparr>"
  have sent: "should_request 0 0 request_new = (True, r)" by (simp add: should_request_def request_new_def r_def)
  note steps = has block less eq sha sent
  have start: "start_pending (km_has_merkle_hash fjall_env first_node) shared_block = Inr \<lparr>pb_block = shared_block,
     pb_needed = [(pad_sha [1], request_new), (pad_sha [3], request_new)], pb_pending = \<lambda>_. None, pb_reverse = \<lambda>_. None\<rparr>"
    by (simp add: start_pending_def shared_block_def steps stj_inner_def)
  have ask: "get_data_requests sync_env 0 first_node (shared_pending ((pad_sha [a], request_new) # needed) q v t) =
      Some (Inr [DataMerkle (pad_sha [a])], first_node, shared_pending ((pad_sha [a], r) # needed) q v t)"
    for a :: u8 and needed q v t
  proof -
    have scan: "scan_layers (km_has_merkle_hash fjall_env first_node) 0 0 1 ((pad_sha [a], request_new) # needed) =
        (Inr ([], [DataMerkle (pad_sha [a])]), (pad_sha [a], r) # needed)"
      using steps by (cases needed) auto
    have "get_data_requests sync_env 0 first_node (shared_pending ((pad_sha [a], request_new) # needed) q v t) =
        Some (Inr [DataMerkle (pad_sha [a])], first_node, (shared_pending ((pad_sha [a], request_new) # needed) q v t)
          \<lparr>sm_needed := om_insert 7 (Pending (\<lparr>pb_block = shared_block, pb_needed = (pad_sha [a], request_new) # needed,
             pb_pending = q, pb_reverse = v\<rparr>\<lparr>pb_needed := (pad_sha [a], r) # needed\<rparr>))
            (sm_needed (shared_pending ((pad_sha [a], request_new) # needed) q v t))\<rparr>)"
      by (rule requests_of_pending) (use block scan in \<open>simp_all add: om_first_def del: scan_layers.simps\<close>)
    then show ?thesis by simp
  qed
  let ?q1 = "[pad_sha [1] \<mapsto> layer_bytes 1]" and ?v1 = "[pad_sha [2] \<mapsto> [pad_sha [1]]]"
  have 1: "handle_message sync_env 0 (ProvideLayer (pad_sha [1]) (Some (layer_bytes 1))) first_node
      (shared_pending [(pad_sha [1], r), (pad_sha [3], request_new)] (\<lambda>_. None) (\<lambda>_. None) 0) =
      Some ([], first_node, shared_pending [(pad_sha [2], request_new), (pad_sha [3], request_new)] ?q1 ?v1 1)"
    by (simp add: steps layer_hash_def layer_bytes_def add_merkle_layer_def add_layer_to_pending_def om_first_def om_contains_def
       wait_for_child_def om_remove_def sync_trigger_def Let_def)
  let ?q2 = "?q1(pad_sha [2] \<mapsto> layer_bytes 2)" and ?v2 = "?v1(pad_sha [4] \<mapsto> [pad_sha [2]])"
  have 2: "handle_message sync_env 0 (ProvideLayer (pad_sha [2]) (Some (layer_bytes 2))) first_node
      (shared_pending [(pad_sha [2], r), (pad_sha [3], request_new)] ?q1 ?v1 1) =
      Some ([], first_node, shared_pending [(pad_sha [3], request_new), (pad_sha [4], request_new)] ?q2 ?v2 2)"
    by (simp add: steps layer_hash_def layer_bytes_def add_merkle_layer_def add_layer_to_pending_def om_first_def om_contains_def
       wait_for_child_def om_remove_def sync_trigger_def Let_def)
  let ?final = "shared_pending [(pad_sha [2], request_new), (pad_sha [4], request_new)] (?q2(pad_sha [3] \<mapsto> layer_bytes 3))
      (?v2(pad_sha [2] \<mapsto> [pad_sha [1], pad_sha [3]])) 3"
  have 3: "handle_message sync_env 0 (ProvideLayer (pad_sha [3]) (Some (layer_bytes 3))) first_node
      (shared_pending [(pad_sha [3], r), (pad_sha [4], request_new)] ?q2 ?v2 2) = Some ([], first_node, ?final)"
    by (simp add: steps layer_hash_def layer_bytes_def add_merkle_layer_def add_layer_to_pending_def om_first_def om_contains_def
       wait_for_child_def om_remove_def sync_trigger_def Let_def)
  have "starved sync_env first_node ?final" by (simp add: starved_def om_first_def steps)
  then obtain reqs sm7 where "get_data_requests sync_env 0 first_node ?final = Some (Inr reqs, first_node, sm7)" "starved sync_env first_node sm7"
    using shared_layers_starve_sync [of sync_env first_node ?final 0] by auto
  then show ?thesis using start ask [of 1] 1 ask [of 2] 2 ask [of 3] 3 by blast
qed

section \<open>Layers nobody vouches for\<close>

text \<open>C37: what arrives is checked against the hash that was asked for, but the hash is that of the payload alone: a
  layer with the right payload and an empty list of children is stored at once, whatever children the true layer has,
  and the download goes on without them.\<close>

theorem forged_layer_is_stored:
  assumes "on_fjall (gx_node G) C enc dec B n k f" "om_first (sm_needed sm) = Some (height, Pending p)"
    and "om_contains (pb_needed p) h" "pb_pending p h = None" "pb_reverse p h = None" "stored_layers k h = None" "length h = 32"
    and "kx_sha (gx_node G) payload = h"
  shows "\<exists>s. handle_message G now (ProvideLayer h (Some \<lparr>l_payload = payload, l_children = []\<rparr>)) k sm =
      Some ([], k\<lparr>km_store := s\<rparr>,
        sync_trigger (sm\<lparr>sm_needed := om_insert height (Pending (p\<lparr>pb_needed := om_remove h (pb_needed p)\<rparr>)) (sm_needed sm)\<rparr>)) \<and>
    stored_layers (k\<lparr>km_store := s\<rparr>) = (stored_layers k)(h \<mapsto> \<lparr>l_payload = payload, l_children = []\<rparr>)"
proof -
  let ?K = "gx_node G" and ?l = "\<lparr>l_payload = payload, l_children = []\<rparr> :: layer"
  let ?db = "ks_inner (km_store k)"
  note K = on_fjallD [OF assms(1)]
  have h: "layer_hash (kx_sha ?K) ?l = h" using assms(8) by (simp add: layer_hash_def)
  have S: "kx_store ?K = fjall_store_ops (kx_sha ?K) (kx_cached ?K) enc dec" using assms(1) by (simp add: on_fjall_def)
  have has: "km_has_merkle_hash ?K k h = Inr False"
    using fjall_sync.has_hash [OF K assms(7)] assms(6) by (simp add: stored_layers_def)
  have "fjall_ok ?db" using K(2) by (simp add: ks_repr_def fjall_chain_repr_def fjall_repr_def)
  then obtain db where db: "save_layer (fjall_ops (kx_sha ?K)) ?l ?db = Inr db" "fjall_view db = (fjall_view ?db)(h \<mapsto> ?l)"
    using fjall.save [of ?db "kx_sha ?K" ?l] assms(6,7) h by (auto simp: stored_layers_def)
  let ?s = "(km_store k)\<lparr>ks_inner := db\<rparr>"
  have "ks_add_merkle_layer (kx_store ?K) ?l (km_store k) = Inr ?s"
    using db(1) by (simp add: ks_add_merkle_layer_def S fjall_store_ops_def)
  moreover have "(pb_pending p)(h := None) = pb_pending p" using assms(4) by auto
  ultimately have "add_layer_to_pending ?K h ?l p k = Some (Inr True, p\<lparr>pb_needed := om_remove h (pb_needed p)\<rparr>, k\<lparr>km_store := ?s\<rparr>)"
    using assms(3-5) has
    by (simp add: add_layer_to_pending_def process_hashes.simps visit_parents_def Let_def)
  then show ?thesis using assms(2) h db(2)
    by (intro exI [of _ ?s]) (simp add: add_merkle_layer_def stored_layers_def Let_def)
qed

text \<open>A peer stores its version of a layer that has a child.\<close>

theorem forged_layer_is_stored_witness:
  "\<exists>s sm. handle_message sync_env 0 (ProvideLayer (pad_sha [1]) (Some \<lparr>l_payload = [1], l_children = []\<rparr>)) first_node
      (shared_pending [(pad_sha [1], request_new), (pad_sha [3], request_new)] (\<lambda>_. None) (\<lambda>_. None) 0) =
      Some ([], first_node\<lparr>km_store := s\<rparr>, sm) \<and>
    stored_layers (first_node\<lparr>km_store := s\<rparr>) = [pad_sha [1] \<mapsto> \<lparr>l_payload = [1], l_children = []\<rparr>] \<and>
    layer_hash pad_sha (layer_bytes 1) = pad_sha [1] \<and> l_children (layer_bytes 1) \<noteq> []"
proof -
  let ?p = "\<lparr>pb_block = shared_block, pb_needed = [(pad_sha [1], request_new), (pad_sha [3], request_new)],
    pb_pending = (\<lambda>_. None), pb_reverse = (\<lambda>_. None)\<rparr>"
  have sha: "kx_sha fjall_env = pad_sha" by (simp add: sample_kenv_def)
  have empty: "stored_layers first_node = (\<lambda>_. None)"
    by (simp add: stored_layers_def first_node_def ks_from_def fjall_view_def fjall_load_def fun_eq_iff)
  have on: "on_fjall (gx_node sync_env) sample_contents enc_sample dec_sample sample_blocks 0 first_node (\<lambda>_. None)"
    using first_node_runs by simp
  show ?thesis
    using forged_layer_is_stored [OF on, of "shared_pending (pb_needed ?p) (\<lambda>_. None) (\<lambda>_. None) 0" 7 ?p "pad_sha [1]" "[1]" 0]
    by (simp add: om_first_def om_contains_def empty sha layer_hash_def layer_bytes_def del: handle_message.simps) blast
qed

end
