(* ===== verification/Merkle_Map_Codec.thy ===== *)
theory Merkle_Map_Codec
  imports Merkle_Keys
begin

text \<open>
  The serialized form of a \<open>MerkleMap\<close> (\<open>leaf_entry.rs\<close>, \<open>leaf_contents.rs\<close>, \<open>tree_contents.rs\<close>,
  \<open>node.rs\<close>): a leaf is one layer of entries, a tree is a layer with the hashes of its sixteen
  branches, each a layer of its own.  Reading follows the children of a layer, so it takes as fuel the
  depth of the contents it reads, which is enough for every node they can hold.  Together with
  the canonical shape of the trie this gives the purpose of the data structure: the root hash
  commits to the entries, whatever operations led to them.
\<close>

section \<open>Writing\<close>

definition ser_entry :: "'v enc \<Rightarrow> ('k, 'v) leaf_entry enc" where
  "ser_entry ev e = s_then (store_slice (le_key_bytes e)) (ev (le_value e))"

definition ser_empty_branch :: action where
  "ser_empty_branch = s_then (store_byte 42) (store_usize 0)"

definition ser_leaf :: "'v enc \<Rightarrow> ('k, 'v) leaf_entry list enc" where
  "ser_leaf ev vs =
     s_then (store_byte 42) (s_then (store_usize (length vs)) (ser_array (ser_entry ev) vs))"

fun ser_node :: "(bytes \<Rightarrow> hash) \<Rightarrow> 'v enc \<Rightarrow> ('k, 'v) node enc"
  and ser_branches :: "(bytes \<Rightarrow> hash) \<Rightarrow> 'v enc \<Rightarrow> ('k, 'v) node option list enc" where
  "ser_node sha ev (Leaf vs) = ser_leaf ev vs"
| "ser_node sha ev (Tree len leaf bs) =
     s_then (store_byte 43)
    (s_then (store_usize len)
    (s_then (case leaf of Some e \<Rightarrow> s_then (store_byte 1) (ser_entry ev e) | None \<Rightarrow> store_byte 0)
            (ser_branches sha ev bs)))"
| "ser_branches sha ev [] = s_done"
| "ser_branches sha ev (b # bs) =
     s_then (case b of
               Some n \<Rightarrow> store_by_hash sha (\<lambda>_. ser_node sha ev n) n
             | None \<Rightarrow> store_by_hash sha (\<lambda>_. ser_empty_branch) ())
       (ser_branches sha ev bs)"

section \<open>Reading\<close>

definition de_entry :: "(bytes \<Rightarrow> merkle_error + 'k) \<Rightarrow> 'v dec \<Rightarrow> ('k, 'v) leaf_entry dec" where
  "de_entry from_key dv =
     d_bind load_bytes (\<lambda>kb.
     d_bind (d_check (from_key kb)) (\<lambda>k.
     d_map (\<lambda>v. \<lparr>le_key_bytes = kb, le_key = k, le_value = v\<rparr>) dv))"

definition de_leaf :: "(bytes \<Rightarrow> merkle_error + 'k) \<Rightarrow> 'v dec \<Rightarrow> ('k, 'v) node dec" where
  "de_leaf from_key dv =
     d_bind pop_byte (\<lambda>magic.
       if magic \<noteq> 42 then d_check (Inl (UnexpectedMagicByte magic))
       else d_bind load_usize (\<lambda>len.
         if len > 16 then d_check (Inl (LeafContentLimitExceeded 16 len))
         else d_map Leaf (de_array len (de_entry from_key dv))))"

definition de_branch :: "(bytes \<Rightarrow> hash) \<Rightarrow> ('k, 'v) node dec \<Rightarrow> ('k, 'v) node option dec" where
  "de_branch sha child =
     d_map (\<lambda>n. if node_is_empty n then None else Some n) (load_by_hash sha child)"

definition de_tree ::
  "(bytes \<Rightarrow> hash) \<Rightarrow> (bytes \<Rightarrow> merkle_error + 'k) \<Rightarrow> 'v dec \<Rightarrow> ('k, 'v) node dec \<Rightarrow> ('k, 'v) node dec" where
  "de_tree sha from_key dv child =
     d_bind pop_byte (\<lambda>magic.
       if magic \<noteq> 43 then d_check (Inl (UnexpectedMagicByte magic))
       else d_bind load_usize (\<lambda>len.
       d_bind (d_bind pop_byte (\<lambda>byte.
         if byte = 0 then d_return None
         else if byte = 1 then d_map Some (de_entry from_key dv)
         else d_check (Inl (InvalidTreeStart byte)))) (\<lambda>leaf.
       d_map (Tree len leaf) (de_array 16 (de_branch sha child)))))"

primrec de_node ::
  "nat \<Rightarrow> (bytes \<Rightarrow> hash) \<Rightarrow> (bytes \<Rightarrow> merkle_error + 'k) \<Rightarrow> 'v dec \<Rightarrow> ('k, 'v) node dec" where
  "de_node 0 sha from_key dv = d_check (Inl (MerkleOther ''fuel''))"
| "de_node (Suc fuel) sha from_key dv = (\<lambda>ds.
     rbind (peek_byte ds) (\<lambda>byte.
       if byte = 42 then de_leaf from_key dv ds
       else if byte = 43 then de_tree sha from_key dv (de_node fuel sha from_key dv) ds
       else Inl (UnexpectedMagicByte byte)))"

lemma foldr_max_cong [fundef_cong]:
  "xs = ys \<Longrightarrow> (\<And>x. x \<in> set ys \<Longrightarrow> f x = g x) \<Longrightarrow> foldr (\<lambda>x. max (f x)) xs n = foldr (\<lambda>x. max (g x)) ys (n :: nat)"
  by (induction xs arbitrary: ys) auto

fun cdepth :: "contents \<Rightarrow> nat" where
  "cdepth (Contents p cs) = Suc (foldr (\<lambda>c. max (cdepth c)) cs 0)"

definition de_map :: "(bytes \<Rightarrow> hash) \<Rightarrow> (bytes \<Rightarrow> merkle_error + 'k) \<Rightarrow> 'v dec \<Rightarrow> ('k, 'v) node dec" where
  "de_map sha from_key dv ds = de_node (cdepth (d_contents ds)) sha from_key dv ds"

section \<open>Round trip\<close>

lemma foldr_max_le: "foldr (\<lambda>x. max (f x)) xs n \<le> m \<longleftrightarrow> (\<forall>x \<in> set xs. f x \<le> m) \<and> n \<le> (m :: nat)"
  by (induction xs) auto

fun node_height :: "('k, 'v) node \<Rightarrow> nat" where
  "node_height (Leaf vs) = 1"
| "node_height (Tree len leaf bs) =
     Suc (foldr (\<lambda>b. max (case b of None \<Rightarrow> 1 | Some n \<Rightarrow> node_height n)) bs 0)"

lemma cdepth_child: "c \<in> set cs \<Longrightarrow> cdepth c < cdepth (Contents p cs)"
  using foldr_max_le [of cdepth cs 0 "foldr (\<lambda>c. max (cdepth c)) cs 0"] by auto

lemma cdepth_mono: "set cs \<subseteq> set (c_children c) \<Longrightarrow> cdepth (Contents p cs) \<le> cdepth c"
  using foldr_max_le [of cdepth "c_children c" 0 "foldr (\<lambda>c. max (cdepth c)) (c_children c) 0"]
  by (cases c) (auto simp: foldr_max_le)

lemma height_branch:
  "b \<in> set bs \<Longrightarrow> (case b of None \<Rightarrow> 1 | Some n \<Rightarrow> node_height n) < node_height (Tree len leaf bs)"
  using foldr_max_le [of "\<lambda>b. case b of None \<Rightarrow> 1 | Some n \<Rightarrow> node_height n" bs 0
      "foldr (\<lambda>b. max (case b of None \<Rightarrow> 1 | Some n \<Rightarrow> node_height n)) bs 0"]
  by (simp add: less_Suc_eq_le)

text \<open>What can be written and read back: entries with property \<open>P\<close>, sixteen branches, none empty.\<close>

fun node_codable :: "(('k, 'v) leaf_entry \<Rightarrow> bool) \<Rightarrow> ('k, 'v) node \<Rightarrow> bool" where
  "node_codable P (Leaf vs) \<longleftrightarrow> length vs \<le> 16 \<and> (\<forall>e \<in> set vs. P e)"
| "node_codable P (Tree len leaf bs) \<longleftrightarrow> len < 2 ^ 64 \<and> length bs = 16 \<and> (\<forall>e \<in> set_option leaf. P e) \<and>
     (\<forall>b \<in> set bs. case b of None \<Rightarrow> True | Some n \<Rightarrow> node_codable P n \<and> \<not> node_is_empty n)"

definition emits :: "action \<Rightarrow> bytes \<Rightarrow> contents list \<Rightarrow> bool" where
  "emits act bs cs \<longleftrightarrow> (\<forall>s. act s = Inr (emit bs cs s))"

lemma roundtrips_iff: "roundtrips C act dec x \<longleftrightarrow> (\<exists>bs cs. emits act bs cs \<and> reads C dec bs cs x)"
  by (simp add: roundtrips_def emits_def)

lemma emits_then: "emits a bs1 cs1 \<Longrightarrow> emits b bs2 cs2 \<Longrightarrow> emits (s_then a b) (bs1 @ bs2) (cs1 @ cs2)"
  by (simp add: emits_def s_then_def emit_emit)

lemma emits_byte: "emits (store_byte b) [b] []"
  by (simp add: emits_def store_byte_def store_raw_bytes_def emit_def)

lemma emits_unique: "emits a bs cs \<Longrightarrow> emits a bs' cs' \<Longrightarrow> bs = bs' \<and> cs = cs'"
  using fun_cong [of "\<lambda>_. ()"] by (auto simp: emits_def emit_def ser_new_def dest!: spec [of _ ser_new])

lemma roundtrips_reads: "roundtrips C act dec x \<Longrightarrow> emits act bs cs \<Longrightarrow> reads C dec bs cs x"
  using emits_unique unfolding roundtrips_iff by metis

lemma serialize_emits: "emits (enc x) bs cs \<Longrightarrow> serialize enc x = Inr (Contents bs cs)"
  by (rule serialize_emit) (simp add: emits_def)

text \<open>A reader may look at the first byte before it decides how to go on.\<close>

lemma rt_peek:
  assumes "roundtrips C (s_then (store_byte b) a) dec x" "roundtrips C a d y"
    and "\<And>ds. k b ds = dec ds"
  shows "roundtrips C (s_then (store_byte b) a) (\<lambda>ds. rbind (peek_byte ds) (\<lambda>b. k b ds)) x"
proof -
  from assms(2) obtain bs cs where "emits a bs cs" by (auto simp: roundtrips_iff)
  then have e: "emits (s_then (store_byte b) a) (b # bs) cs"
    using emits_then [OF emits_byte] by fastforce
  then have r: "reads C dec (b # bs) cs x" by (rule roundtrips_reads [OF assms(1)])
  have "reads C (\<lambda>ds. rbind (peek_byte ds) (\<lambda>b. k b ds)) (b # bs) cs x"
    unfolding reads_def
  proof (intro allI impI)
    fix ds rest
    assume ds: "d_contents ds \<in> C" "d_pos ds \<le> length (payload_of ds)"
      "drop (d_pos ds) (payload_of ds) = (b # bs) @ rest" "set cs \<subseteq> set (c_children (d_contents ds))"
    have "peek_byte ds = Inr b"
      using ds(3) drop_Cons_nth [of "d_pos ds" "payload_of ds" b "bs @ rest"] by (simp add: peek_byte_def)
    then show "rbind (peek_byte ds) (\<lambda>b. k b ds) = Inr (x, ds\<lparr>d_pos := d_pos ds + length (b # bs)\<rparr>)"
      using r ds assms(3) unfolding reads_def by simp
  qed
  then show ?thesis using e unfolding roundtrips_iff by blast
qed

definition entry_codable ::
  "contents set \<Rightarrow> 'v enc \<Rightarrow> 'v dec \<Rightarrow> (bytes \<Rightarrow> merkle_error + 'k) \<Rightarrow> ('k, 'v) leaf_entry \<Rightarrow> bool" where
  "entry_codable C ev dv from_key e \<longleftrightarrow> from_key (le_key_bytes e) = Inr (le_key e) \<and>
     length (le_key_bytes e) < 2 ^ 64 \<and> roundtrips C (ev (le_value e)) dv (le_value e)"

lemma d_bind_return: "d_bind (d_return y) k = k y"
  by (simp add: d_bind_def d_return_def fun_eq_iff)

lemma rt_entry:
  assumes "content_world sha C" "entry_codable C ev dv from_key e"
  shows "roundtrips C (ser_entry ev e) (de_entry from_key dv) e"
  unfolding ser_entry_def de_entry_def
proof (rule rt_then [OF rt_slice [OF assms(1)]])
  show "length (le_key_bytes e) < 2 ^ 64" using assms(2) by (simp add: entry_codable_def)
  have "roundtrips C (ev (le_value e))
      (d_map (\<lambda>v. \<lparr>le_key_bytes = le_key_bytes e, le_key = le_key e, le_value = v\<rparr>) dv) e"
    by (rule rt_d_map [where y = "le_value e"]) (use assms(2) in \<open>simp_all add: entry_codable_def\<close>)
  then show "roundtrips C (ev (le_value e))
      (d_bind (d_check (from_key (le_key_bytes e))) (\<lambda>k.
        d_map (\<lambda>v. \<lparr>le_key_bytes = le_key_bytes e, le_key = k, le_value = v\<rparr>) dv)) e"
    using assms(2) by (simp add: entry_codable_def d_bind_return)
qed

lemma rt_leaf_body:
  assumes C: "content_world sha C" and "length vs \<le> 16" "\<forall>e \<in> set vs. entry_codable C ev dv from_key e"
  shows "roundtrips C (s_then (store_usize (length vs)) (ser_array (ser_entry ev) vs))
    (d_bind load_usize (\<lambda>len.
         if len > 16 then d_check (Inl (LeafContentLimitExceeded 16 len))
         else d_map Leaf (de_array len (de_entry from_key dv)))) (Leaf vs)"
proof (rule rt_then)
  show "roundtrips C (store_usize (length vs)) load_usize (length vs)" by (rule rt_usize) (use assms(2) in simp)
  have "roundtrips C (ser_array (ser_entry ev) vs) (d_map Leaf (de_array (length vs) (de_entry from_key dv))) (Leaf vs)"
    by (rule rt_d_map [OF rt_array]) (simp_all add: rt_entry [OF C] assms(3))
  then show "roundtrips C (ser_array (ser_entry ev) vs)
      (if length vs > 16 then d_check (Inl (LeafContentLimitExceeded 16 (length vs)))
       else d_map Leaf (de_array (length vs) (de_entry from_key dv))) (Leaf vs)"
    using assms(2) by simp
qed

lemma rt_leaf:
  assumes C: "content_world sha C" and "length vs \<le> 16" "\<forall>e \<in> set vs. entry_codable C ev dv from_key e"
  shows "roundtrips C (ser_leaf ev vs) (de_node (Suc fuel) sha from_key dv) (Leaf vs)"
  unfolding ser_leaf_def de_node.simps
proof (rule rt_peek [OF _ rt_leaf_body [OF assms]])
  show "roundtrips C (s_then (store_byte 42) (s_then (store_usize (length vs)) (ser_array (ser_entry ev) vs)))
      (de_leaf from_key dv) (Leaf vs)"
    unfolding de_leaf_def by (rule rt_then [OF rt_byte]) (simp add: rt_leaf_body [OF assms])
qed simp

text \<open>The branches, given the layer each of them is written to.\<close>

lemma empty_branch_leaf: "ser_empty_branch = ser_leaf ev []"
  by (simp add: ser_empty_branch_def ser_leaf_def ser_array_def s_then_def fun_eq_iff rbind_def
      split: sum.splits)

lemma emits_by_hash:
  assumes "emits (enc x) bs cs"
  shows "emits (store_by_hash sha enc x) (contents_hash sha (Contents bs cs)) [Contents bs cs]"
  using serialize_emits [of enc x, OF assms]
  by (simp add: emits_def store_by_hash_def ser_hash_def store_raw_bytes_def emit_def)

definition branch_node :: "('k, 'v) node option \<Rightarrow> ('k, 'v) node" where
  "branch_node b = (case b of None \<Rightarrow> empty_node | Some n \<Rightarrow> n)"

lemma ser_array_Cons: "ser_array enc (x # xs) = s_then (enc x) (ser_array enc xs)"
  by (simp add: fun_eq_iff ser_array_def s_then_def)

lemma ser_branches_array:
  fixes bs :: "('k, 'v) node option list"
  shows "ser_branches sha ev bs = ser_array (\<lambda>b. store_by_hash sha (\<lambda>_. ser_node sha ev (branch_node b)) (branch_node b)) bs"
proof (induction bs)
  case Nil
  then show ?case by (simp add: fun_eq_iff ser_array_def s_done_def)
next
  case (Cons b bs)
  have none: "store_by_hash sha (\<lambda>_. ser_empty_branch) () =
      store_by_hash sha (\<lambda>_. ser_node sha ev empty_node) (empty_node :: ('k, 'v) node)"
    by (simp add: fun_eq_iff store_by_hash_def serialize_def empty_branch_leaf [of ev, symmetric] empty_node_def)
  have "ser_branches sha ev (b # bs) =
      s_then (store_by_hash sha (\<lambda>_. ser_node sha ev (branch_node b)) (branch_node b)) (ser_branches sha ev bs)"
  proof (cases b)
    case None
    show ?thesis unfolding None ser_branches.simps branch_node_def option.case
      by (subst none) (rule refl)
  qed (simp add: branch_node_def)
  then show ?case by (simp only: Cons.IH ser_array_Cons)
qed

lemma emits_array:
  "(\<And>x. x \<in> set xs \<Longrightarrow> emits (enc x) (f x) (g x)) \<Longrightarrow>
     emits (ser_array enc xs) (concat (map f xs)) (concat (map g xs))"
proof (induction xs)
  case (Cons x xs)
  then show ?case using emits_then [of "enc x" "f x" "g x" "ser_array enc xs"] by (simp add: ser_array_Cons)
qed (simp add: emits_def ser_array_def emit_def)

lemma rt_branches:
  assumes C: "content_world sha C"
    and sub: "\<And>b. b \<in> set bs \<Longrightarrow> roundtrips C (ser_node sha ev (branch_node b)) child (branch_node b)"
    and full: "\<And>n. Some n \<in> set bs \<Longrightarrow> \<not> node_is_empty n"
  shows "roundtrips C (ser_branches sha ev bs) (de_array (length bs) (de_branch sha child)) bs"
  unfolding ser_branches_array
proof (rule rt_array)
  fix b assume b: "b \<in> set bs"
  show "roundtrips C (store_by_hash sha (\<lambda>_. ser_node sha ev (branch_node b)) (branch_node b)) (de_branch sha child) b"
    unfolding de_branch_def
  proof (rule rt_d_map)
    show "roundtrips C (store_by_hash sha (\<lambda>_. ser_node sha ev (branch_node b)) (branch_node b))
        (load_by_hash sha child) (branch_node b)"
      by (rule rt_by_hash [OF C]) (rule sub [OF b])
    show "(if node_is_empty (branch_node b) then None else Some (branch_node b)) = b"
      using full b by (cases b) (auto simp: branch_node_def empty_node_def)
  qed
qed

lemma rt_tree_leaf:
  assumes "content_world sha C" "\<forall>e \<in> set_option leaf. entry_codable C ev dv from_key e"
  shows "roundtrips C (case leaf of Some e \<Rightarrow> s_then (store_byte 1) (ser_entry ev e) | None \<Rightarrow> store_byte 0)
    (d_bind pop_byte (\<lambda>byte.
         if byte = 0 then d_return None
         else if byte = 1 then d_map Some (de_entry from_key dv)
         else d_check (Inl (InvalidTreeStart byte)))) leaf"
proof (cases leaf)
  case None
  then show ?thesis by simp (rule rt_last [OF rt_byte], simp)
next
  case (Some e)
  have "roundtrips C (ser_entry ev e) (d_map Some (de_entry from_key dv)) (Some e)"
    by (rule rt_d_map [OF rt_entry [OF assms(1)]]) (use assms(2) Some in simp_all)
  then show ?thesis using Some by simp (rule rt_then [OF rt_byte], simp)
qed

lemma branch_height: "(case b of None \<Rightarrow> 1 | Some n \<Rightarrow> node_height n) = node_height (branch_node b)"
  by (cases b) (simp_all add: branch_node_def empty_node_def)

text \<open>A node reads back with as much fuel as its layers are deep.\<close>

lemma node_layers:
  fixes n :: "('k, 'v) node"
  assumes C: "content_world sha C"
  shows "node_codable (entry_codable C ev dv from_key) n \<Longrightarrow>
    (\<exists>bs cs. emits (ser_node sha ev n) bs cs \<and> node_height n \<le> cdepth (Contents bs cs)) \<and>
    (\<forall>fuel. node_height n \<le> fuel \<longrightarrow> roundtrips C (ser_node sha ev n) (de_node fuel sha from_key dv) n)"
proof (induction n rule: measure_induct_rule [of size])
  case (less n)
  show ?case
  proof (cases n)
    case (Leaf vs)
    have rt: "roundtrips C (ser_node sha ev n) (de_node (Suc fuel) sha from_key dv) n" for fuel
      using less.prems Leaf rt_leaf [OF C, of vs ev dv from_key fuel] by simp
    then obtain bs cs where "emits (ser_node sha ev n) bs cs" unfolding roundtrips_iff by blast
    moreover have "roundtrips C (ser_node sha ev n) (de_node fuel sha from_key dv) n" if "1 \<le> fuel" for fuel
      using rt [of "fuel - 1"] that by simp
    ultimately show ?thesis using Leaf by auto
  next
    case (Tree len leaf bs)
    have ok: "len < 2 ^ 64" "length bs = 16" "\<forall>e \<in> set_option leaf. entry_codable C ev dv from_key e"
      "\<And>n. Some n \<in> set bs \<Longrightarrow> node_codable (entry_codable C ev dv from_key) n \<and> \<not> node_is_empty n"
      using less.prems Tree by (auto split: option.splits)
    have sub: "(\<exists>bs cs. emits (ser_node sha ev (branch_node b)) bs cs \<and> node_height (branch_node b) \<le> cdepth (Contents bs cs)) \<and>
        (\<forall>fuel. node_height (branch_node b) \<le> fuel \<longrightarrow>
          roundtrips C (ser_node sha ev (branch_node b)) (de_node fuel sha from_key dv) (branch_node b))"
      if b: "b \<in> set bs" for b
    proof (rule less.IH)
      show "size (branch_node b) < size n"
        using branch_mem_size [of _ bs "size leaf"] b Tree
        by (cases b; cases leaf) (auto simp: branch_node_def empty_node_def)
      show "node_codable (entry_codable C ev dv from_key) (branch_node b)"
        using ok(4) b by (cases b) (auto simp: branch_node_def empty_node_def)
    qed
    let ?leaf = "case leaf of Some e \<Rightarrow> s_then (store_byte 1) (ser_entry ev e) | None \<Rightarrow> store_byte 0"
    let ?body = "s_then (store_usize len) (s_then ?leaf (ser_branches sha ev bs))"
    let ?read = "\<lambda>child. d_bind load_usize (\<lambda>len. d_bind (d_bind pop_byte (\<lambda>byte.
         if byte = 0 then d_return None
         else if byte = 1 then d_map Some (de_entry from_key dv)
         else d_check (Inl (InvalidTreeStart byte)))) (\<lambda>leaf.
       d_map (Tree len leaf) (de_array 16 (de_branch sha child))))"
    have body: "roundtrips C ?body (?read (de_node fuel sha from_key dv)) n" if f: "node_height n \<le> Suc fuel" for fuel
    proof (rule rt_then [OF rt_usize [OF ok(1)]], rule rt_then [OF rt_tree_leaf [OF C ok(3)]], rule rt_d_map)
      show "roundtrips C (ser_branches sha ev bs) (de_array 16 (de_branch sha (de_node fuel sha from_key dv))) bs"
        unfolding ok(2) [symmetric]
      proof (rule rt_branches [OF C])
        fix b assume b: "b \<in> set bs"
        have "node_height (branch_node b) < node_height n"
          using height_branch [OF b, of len leaf] Tree by (simp add: branch_height)
        then show "roundtrips C (ser_node sha ev (branch_node b)) (de_node fuel sha from_key dv) (branch_node b)"
          using sub [OF b] f by simp
      qed (use ok(4) in blast)
      show "Tree len leaf bs = n" using Tree by simp
    qed
    have rt: "roundtrips C (ser_node sha ev n) (de_node (Suc fuel) sha from_key dv) n" if f: "node_height n \<le> Suc fuel" for fuel
    proof -
      have "roundtrips C (s_then (store_byte 43) ?body) (de_tree sha from_key dv (de_node fuel sha from_key dv)) n"
        unfolding de_tree_def by (rule rt_then [OF rt_byte]) (simp add: body [OF f])
      then show ?thesis unfolding Tree ser_node.simps de_node.simps
        by (rule rt_peek) (use body [OF f] Tree in simp_all)
    qed
    moreover have "\<exists>xs cs. emits (ser_node sha ev n) xs cs \<and> node_height n \<le> cdepth (Contents xs cs)"
    proof -
      have "\<forall>b \<in> set bs. \<exists>c. emits (ser_node sha ev (branch_node b)) (c_payload c) (c_children c) \<and> node_height (branch_node b) \<le> cdepth c"
        using sub by (metis contents.sel)
      then obtain c where c: "\<And>b. b \<in> set bs \<Longrightarrow> emits (ser_node sha ev (branch_node b)) (c_payload (c b)) (c_children (c b)) \<and> node_height (branch_node b) \<le> cdepth (c b)"
        by metis
      have "emits (store_by_hash sha (\<lambda>_. ser_node sha ev (branch_node b)) (branch_node b))
          (contents_hash sha (c b)) [c b]" if "b \<in> set bs" for b
        using emits_by_hash [of "\<lambda>_. ser_node sha ev (branch_node b)" "branch_node b" "c_payload (c b)" "c_children (c b)" sha]
          c [OF that] by simp
      then have br: "emits (ser_branches sha ev bs) (concat (map (\<lambda>b. contents_hash sha (c b)) bs)) (concat (map (\<lambda>b. [c b]) bs))"
        unfolding ser_branches_array by (rule emits_array)
      obtain ls lc where lf: "emits ?leaf ls lc"
        using rt_tree_leaf [OF C ok(3)] unfolding roundtrips_iff by blast
      obtain us uc where us: "emits (store_usize len) us uc"
        using rt_usize [OF ok(1)] unfolding roundtrips_iff by blast
      have e: "emits (ser_node sha ev n) ([43] @ us @ ls @ concat (map (\<lambda>b. contents_hash sha (c b)) bs))
          ([] @ uc @ lc @ concat (map (\<lambda>b. [c b]) bs))"
        unfolding Tree ser_node.simps by (intro emits_then emits_byte us lf br)
      have "node_height n \<le> cdepth (Contents p ([] @ uc @ lc @ concat (map (\<lambda>b. [c b]) bs)))" for p
      proof -
        have "node_height (branch_node b) < cdepth (Contents p ([] @ uc @ lc @ concat (map (\<lambda>b. [c b]) bs)))" if "b \<in> set bs" for b
          using c [OF that] cdepth_child [of "c b" "[] @ uc @ lc @ concat (map (\<lambda>b. [c b]) bs)" p] that by force
        then have "foldr (\<lambda>b. max (node_height (branch_node b))) bs 0 < cdepth (Contents p ([] @ uc @ lc @ concat (map (\<lambda>b. [c b]) bs)))"
          by (simp add: less_Suc_eq_le foldr_max_le)
        then show ?thesis using Tree by (simp add: branch_height Suc_le_eq del: cdepth.simps)
      qed
      then show ?thesis using e by blast
    qed
    moreover have "fuel = Suc (fuel - 1)" if "node_height n \<le> fuel" for fuel using that Tree by simp
    ultimately show ?thesis by metis
  qed
qed

lemma rt_map_node:
  assumes C: "content_world sha C" and n: "node_codable (entry_codable C ev dv from_key) n"
  shows "roundtrips C (ser_node sha ev n) (de_map sha from_key dv) n"
proof -
  from node_layers [OF C n] obtain bs cs where
    e: "emits (ser_node sha ev n) bs cs" "node_height n \<le> cdepth (Contents bs cs)" by blast
  have "reads C (de_map sha from_key dv) bs cs n"
    unfolding reads_def
  proof (intro allI impI)
    fix ds rest
    assume ds: "d_contents ds \<in> C" "d_pos ds \<le> length (payload_of ds)"
      "drop (d_pos ds) (payload_of ds) = bs @ rest" "set cs \<subseteq> set (c_children (d_contents ds))"
    have "node_height n \<le> cdepth (d_contents ds)" using e(2) cdepth_mono [OF ds(4), of bs] by simp
    then have "reads C (de_node (cdepth (d_contents ds)) sha from_key dv) bs cs n"
      using node_layers [OF C n] e(1) by (intro roundtrips_reads) auto
    then show "de_map sha from_key dv ds = Inr (n, ds\<lparr>d_pos := d_pos ds + length bs\<rparr>)"
      using ds unfolding de_map_def reads_def by simp
  qed
  then show ?thesis using e(1) unfolding roundtrips_iff by blast
qed

lemma node_wf_codable:
  "node_wf p n \<Longrightarrow> \<forall>e \<in> set (drain_entries n). P e \<Longrightarrow> length (node_entries n) < 2 ^ 64 \<Longrightarrow> node_codable P n"
proof (induction p n rule: node_wf.induct)
  case (wf_Tree len leaf bs p)
  have "node_codable P b \<and> \<not> node_is_empty b" if b: "Some b \<in> set bs" for b
  proof -
    obtain i where i: "i < 16" "bs ! i = Some b" using b wf_Tree.hyps(3) by (metis in_set_conv_nth)
    have sub: "set (drain_entries b) \<subseteq> set (drain_entries (Tree len leaf bs))"
      using b by (force split: option.splits)
    have "length (node_entries b) \<le> length (node_entries (Tree len leaf bs))"
      using b by (auto simp: length_concat comp_def intro!: member_le_sum_list trans_le_add2
          dest!: split_list)
    then have "node_codable P b"
      using wf_Tree.IH [OF i] sub wf_Tree.prems by auto
    then show ?thesis
      using wf_Tree.IH [OF i] node_is_empty_iff by blast
  qed
  moreover have "\<forall>e \<in> set_option leaf. P e" using wf_Tree.prems(1) by (cases leaf) auto
  ultimately show ?case
    using wf_Tree.hyps(2,3) wf_Tree.prems(2) by (auto simp del: node_entries_Tree split: option.splits)
qed simp

section \<open>The contract of a map\<close>

definition map_ok :: "('k \<Rightarrow> bytes) \<Rightarrow> ('k \<Rightarrow> bool) \<Rightarrow> ('v \<Rightarrow> bool) \<Rightarrow> ('k, 'v) node \<Rightarrow> bool" where
  "map_ok to_key valid ok m \<longleftrightarrow> node_wf [] m \<and> length (node_entries m) < 2 ^ 64 \<and>
     (\<forall>e \<in> set (drain_entries m). le_key_bytes e = to_key (le_key e) \<and> valid (le_key e) \<and> ok (le_value e))"

lemma node_wf_key_ok: "node_wf [] m \<Longrightarrow> e \<in> set (drain_entries m) \<Longrightarrow> key_ok (le_key_bytes e)"
  using node_wf_entries [of "[]" m] by (force simp: below_def node_entries_def)

lemma map_ok_codable:
  assumes "map_ok to_key valid ok m"
    and "\<And>k. valid k \<Longrightarrow> from_key (to_key k) = Inr k"
    and "\<And>v. ok v \<Longrightarrow> roundtrips C (enc v) dec v"
  shows "node_codable (entry_codable C enc dec from_key) m"
proof (rule node_wf_codable)
  show "node_wf [] m" "length (node_entries m) < 2 ^ 64" using assms(1) by (simp_all add: map_ok_def)
  show "\<forall>e \<in> set (drain_entries m). entry_codable C enc dec from_key e"
    using assms node_wf_key_ok [of m] by (fastforce simp: map_ok_def entry_codable_def key_ok_def)
qed

locale map_codec = merkle_codec sha enc dec ok + merkle_key to_key from_key valid
  for sha :: "bytes \<Rightarrow> hash" and enc :: "'v enc" and dec ok
    and to_key :: "'k \<Rightarrow> bytes" and from_key valid
begin

lemma map_round_trip:
  "content_world sha C \<Longrightarrow> map_ok to_key valid ok m \<Longrightarrow>
     roundtrips C (ser_node sha enc m) (de_map sha from_key dec) m"
  by (rule rt_map_node, assumption)
    (rule map_ok_codable [where to_key = to_key and valid = valid and ok = ok], auto intro: read_back round_trip)

end

sublocale map_codec \<subseteq> whole: merkle_codec sha "ser_node sha enc" "de_map sha from_key dec" "map_ok to_key valid ok"
  by unfold_locales (rule map_round_trip)

interpretation u64_codec: merkle_codec sha "ser_word :: u64 enc" de_word "\<lambda>_. True" for sha
  by unfold_locales (rule rt_u64)

text \<open>\<open>MerkleMap<Wallet, AccountId>\<close>, the wallet table of the accounts.\<close>

interpretation wallet_table:
  map_codec sha "ser_word :: u64 enc" de_word "\<lambda>_. True" key_string from_key_string "\<lambda>s. utf8_valid (str_bytes s)" for sha
  ..

section \<open>The root hash\<close>

text \<open>A map that is saved is loaded back from its hash, and the root hashes of two maps are equal
  exactly when the maps have the same entries, by whatever operations they were built: the hash
  of the trie authenticates its contents.\<close>

theorem merkle_map_root_hash_commits:
  assumes C: "content_world sha C" and wf: "node_wf [] m" "node_wf [] n"
    and len: "node_len m < 2 ^ 64" "node_len n < 2 ^ 64"
    and entries: "\<And>e. e \<in> set (drain_entries m) \<union> set (drain_entries n) \<Longrightarrow> entry_codable C enc dec from_key e"
    and save: "serialize (ser_node sha enc) m = Inr c" "c \<in> C" "serialize (ser_node sha enc) n = Inr d" "d \<in> C"
  shows "deserialize (de_map sha from_key dec) c = Inr m \<and>
    (contents_hash sha c = contents_hash sha d \<longleftrightarrow> node_entries m = node_entries n)"
proof -
  have "node_codable (entry_codable C enc dec from_key) m" "node_codable (entry_codable C enc dec from_key) n"
    using entries len node_len_entries [OF wf(1)] node_len_entries [OF wf(2)]
    by (auto intro!: node_wf_codable [OF wf(1)] node_wf_codable [OF wf(2)])
  then have rt: "roundtrips C (ser_node sha enc m) (de_map sha from_key dec) m"
    "roundtrips C (ser_node sha enc n) (de_map sha from_key dec) n"
    by (simp_all add: rt_map_node [OF C])
  have m: "deserialize (de_map sha from_key dec) c = Inr m"
    by (rule deserialize_serialize [OF rt(1) save(1,2)])
  have n: "deserialize (de_map sha from_key dec) d = Inr n"
    by (rule deserialize_serialize [OF rt(2) save(3,4)])
  have "contents_hash sha c = contents_hash sha d \<longleftrightarrow> c = d"
    using C save(2,4) unfolding content_world_def contents_hash_def by (metis inj_onD)
  moreover have "c = d \<longleftrightarrow> m = n" using m n save(1,3) by auto
  moreover have "m = n \<longleftrightarrow> node_entries m = node_entries n" using node_wf_unique [OF wf] by blast
  ultimately show ?thesis using m by blast
qed

definition wallet_leaf :: "u64 \<Rightarrow> (string, u64) node" where
  "wallet_leaf v = Leaf [\<lparr>le_key_bytes = [97], le_key = ''a'', le_value = v\<rparr>]"

theorem merkle_map_root_hash_commits_witness:
  "\<exists>c d. serialize (ser_node (ce_sha sample_codec) ser_word) (wallet_leaf 1) = Inr c \<and>
     serialize (ser_node (ce_sha sample_codec) ser_word) (wallet_leaf 2) = Inr d \<and>
     deserialize (de_map (ce_sha sample_codec) from_key_string de_word) c = Inr (wallet_leaf 1) \<and>
     contents_hash (ce_sha sample_codec) c \<noteq> contents_hash (ce_sha sample_codec) d"
proof -
  define c where "c = Contents [42, 1, 1, 97, 1, 0, 0, 0, 0, 0, 0, 0] []"
  define d where "d = Contents [42, 1, 1, 97, 2, 0, 0, 0, 0, 0, 0, 0] []"
  have cd: "serialize (ser_node (ce_sha sample_codec) ser_word) (wallet_leaf 1) = Inr c"
      "serialize (ser_node (ce_sha sample_codec) ser_word) (wallet_leaf 2) = Inr d"
    unfolding c_def d_def by code_simp+
  have w: "content_world (ce_sha sample_codec) {c, d}"
    by (auto simp: content_world_def sample_codec_def c_def d_def)
  have wf: "node_wf [] (wallet_leaf v)" "node_len (wallet_leaf v) = 1" for v
    by (simp_all add: wallet_leaf_def entry_kv_def om_wf_def key_ok_def)
  have "from_key_string [97] = Inr ''a''" by code_simp
  then have e: "entry_codable {c, d} ser_word de_word from_key_string e" if "e \<in> set (drain_entries (wallet_leaf v))" for e v
    using that rt_u64 [OF w] by (auto simp: entry_codable_def wallet_leaf_def)
  have "node_entries (wallet_leaf 1) \<noteq> node_entries (wallet_leaf 2)"
    by (simp add: wallet_leaf_def entry_kv_def entry_pair_def)
  moreover have "deserialize (de_map (ce_sha sample_codec) from_key_string de_word) c = Inr (wallet_leaf 1) \<and>
      (contents_hash (ce_sha sample_codec) c = contents_hash (ce_sha sample_codec) d \<longleftrightarrow>
        node_entries (wallet_leaf 1) = node_entries (wallet_leaf 2))"
  proof (rule merkle_map_root_hash_commits [OF w wf(1) wf(1) _ _ _ cd(1) _ cd(2)])
    show "entry_codable {c, d} ser_word de_word from_key_string e"
      if "e \<in> set (drain_entries (wallet_leaf 1)) \<union> set (drain_entries (wallet_leaf 2))" for e
      using that e by blast
  qed (simp_all add: wf(2))
  ultimately show ?thesis using cd by blast
qed

end
