(* ===== verification/State_Codec.thy ===== *)
theory State_Codec
  imports Framework Blocks Merkle_Map_Codec
begin

text \<open>
  How the framework state is stored (\<open>core/state.rs\<close>, \<open>core/types.rs\<close>, \<open>core/types/accounts.rs\<close>): the
  \<open>MerkleSerialize\<close> and \<open>MerkleDeserialize\<close> implementations of its parts, down to the layers of its
  Merkle maps.  A \<open>MerkleMap\<close> is written as the trie of its entries, which does not depend on the operations that
  built it.  JSON printing and parsing are parameters.
\<close>

section \<open>Maps, keys and JSON\<close>

definition trie_of :: "('k \<Rightarrow> bytes) \<Rightarrow> ('k \<times> 'v) list \<Rightarrow> ('k, 'v) node" where
  "trie_of to_key es = foldl (\<lambda>m e. trie_insert (to_key (fst e)) e m) empty_node es"

definition ser_merkle_map :: "(bytes \<Rightarrow> hash) \<Rightarrow> ('k \<Rightarrow> bytes) \<Rightarrow> 'v enc \<Rightarrow> ('k::linorder, 'v) omap enc" where
  "ser_merkle_map sha to_key ev m = ser_node sha ev (trie_of to_key m)"

definition de_merkle_map :: "(bytes \<Rightarrow> hash) \<Rightarrow> (bytes \<Rightarrow> merkle_error + 'k) \<Rightarrow> 'v dec \<Rightarrow> ('k::linorder, 'v) omap dec" where
  "de_merkle_map sha from_key dv = d_map (\<lambda>n. map snd (node_entries n)) (de_map sha from_key dv)"

definition key_chain :: "external_chain \<Rightarrow> bytes" where
  "key_chain c = key_string (chain_as_ref c)"

definition from_key_chain :: "bytes \<Rightarrow> merkle_error + external_chain" where
  "from_key_chain bs = rbind (from_utf8 bs) (\<lambda>s. ok_or (chain_parse s) (MerkleCustom ''strum''))"

definition key_account_id :: "u64 \<Rightarrow> bytes" where
  "key_account_id i = key_u64 i"

definition from_key_account_id :: "bytes \<Rightarrow> merkle_error + u64" where
  "from_key_account_id bs = from_key_u64 bs"

definition ser_json :: "('a \<Rightarrow> bytes option) \<Rightarrow> 'a enc" where
  "ser_json to_json x s = rbind (ok_or (to_json x) (MerkleCustom ''json'')) (\<lambda>bs. store_slice bs s)"

definition de_json :: "(bytes \<Rightarrow> 'a option) \<Rightarrow> 'a dec" where
  "de_json of_json = d_bind load_bytes (\<lambda>bs. d_check (ok_or (of_json bs) (MerkleCustom ''json'')))"

record 'd state_env =
  sx_codec :: "'d codec_env"
  sx_event_json :: "bridge_event \<Rightarrow> bytes option"
  sx_event_from :: "bytes \<Rightarrow> bridge_event option"
  sx_set_from :: "string \<Rightarrow> validator_set option"
  sx_migrate_from :: "string \<Rightarrow> migrate_contract option"
  sx_upgrade_from :: "string \<Rightarrow> upgrade option"

section \<open>Identifiers\<close>

definition ser_asset_id :: "u64 enc" where "ser_asset_id = ser_word"
definition de_asset_id :: "u64 dec" where "de_asset_id = de_word"
definition ser_asset_name :: "string enc" where "ser_asset_name = ser_string"
definition de_asset_name :: "string dec" where "de_asset_name = de_string"
definition ser_account_nonce :: "u64 enc" where "ser_account_nonce = ser_word"
definition de_account_nonce :: "u64 dec" where "de_account_nonce = de_word"
definition ser_wallet :: "string enc" where "ser_wallet = ser_string"
definition de_wallet :: "string dec" where "de_wallet = de_string"
definition ser_proposal_id :: "u64 enc" where "ser_proposal_id = ser_word"
definition de_proposal_id :: "u64 dec" where "de_proposal_id = de_word"
definition ser_action_id :: "u64 enc" where "ser_action_id = ser_word"
definition de_action_id :: "u64 dec" where "de_action_id = de_word"
definition ser_event_id :: "u64 enc" where "ser_event_id = ser_word"
definition de_event_id :: "u64 dec" where "de_event_id = de_word"

lemmas id_codecs = ser_asset_id_def de_asset_id_def ser_asset_name_def de_asset_name_def ser_account_nonce_def
  de_account_nonce_def ser_wallet_def de_wallet_def ser_proposal_id_def de_proposal_id_def ser_action_id_def
  de_action_id_def ser_event_id_def de_event_id_def

definition ser_external_chain :: "external_chain enc" where
  "ser_external_chain = ser_versioned 0 (\<lambda>c. ser_string (chain_as_ref c))"

definition de_external_chain :: "external_chain dec" where
  "de_external_chain = de_versioned 0 (\<lambda>_. d_bind de_string (\<lambda>s. d_check (ok_or (chain_parse s) (MerkleCustom ''strum''))))"

section \<open>Chains\<close>

definition ser_asset_config :: "asset_config enc" where
  "ser_asset_config = ser_versioned 0 (\<lambda>c. s_then (store_byte (ac_decimals c)) (ser_asset_id (ac_asset_id c)))"

definition de_asset_config :: "asset_config dec" where
  "de_asset_config = de_versioned 0 (\<lambda>_.
     d_bind pop_byte (\<lambda>d. d_bind de_asset_id (\<lambda>i. d_return \<lparr>ac_decimals = d, ac_asset_id = i\<rparr>)))"

definition ser_bridge_contract :: "bridge_contract enc" where
  "ser_bridge_contract = ser_versioned 0 (\<lambda>b. case b of
      NeededCosmosBridge code_id \<Rightarrow> s_then (store_byte 0) (ser_word code_id)
    | NeededSolanaBridge program_id \<Rightarrow> s_then (store_byte 1) (ser_string program_id)
    | NeededEthereumBridge \<Rightarrow> store_byte 3
    | Deployed addr \<Rightarrow> s_then (store_byte 2) (ser_string addr))"

definition de_bridge_contract :: "bridge_contract dec" where
  "de_bridge_contract = de_versioned 0 (\<lambda>_. d_bind pop_byte (\<lambda>b.
     if b = 0 then d_map NeededCosmosBridge de_word
     else if b = 1 then d_map NeededSolanaBridge de_string
     else if b = 2 then d_map Deployed de_string
     else if b = 3 then d_return NeededEthereumBridge
     else d_check (Inl (UnexpectedMagicByte b))))"

definition ser_chain_config :: "chain_config enc" where
  "ser_chain_config = ser_versioned 0 (\<lambda>c.
     s_then (ser_btree_map ser_asset_name ser_asset_config (cc_assets c)) (ser_bridge_contract (cc_bridge c)))"

definition de_chain_config :: "chain_config dec" where
  "de_chain_config = de_versioned 0 (\<lambda>_.
     d_bind (de_btree_map de_asset_name de_asset_config) (\<lambda>a.
     d_bind de_bridge_contract (\<lambda>b. d_return \<lparr>cc_assets = a, cc_bridge = b\<rparr>)))"

definition ser_approvals :: "(public_key, sigrec) omap enc" where
  "ser_approvals = ser_btree_map ser_public_key ser_sigrec"

definition de_approvals :: "'d codec_env \<Rightarrow> (public_key, sigrec) omap dec" where
  "de_approvals E = de_btree_map (de_public_key E) (de_sigrec E)"

definition ser_pending_action :: "pending_bridge_action enc" where
  "ser_pending_action = ser_versioned 0 (\<lambda>a.
     s_then (ser_string (pa_payload a)) (s_then (ser_approvals (pa_approvals a)) (ser_option ser_sigrec (pa_processor a))))"

definition de_pending_action :: "'d codec_env \<Rightarrow> pending_bridge_action dec" where
  "de_pending_action E = de_versioned 0 (\<lambda>_.
     d_bind de_string (\<lambda>p. d_bind (de_approvals E) (\<lambda>a. d_bind (de_option (de_sigrec E)) (\<lambda>s.
     d_return \<lparr>pa_payload = p, pa_approvals = a, pa_processor = s\<rparr>))))"

definition ser_pending_event :: "'d state_env \<Rightarrow> pending_bridge_event enc" where
  "ser_pending_event X = ser_versioned 0 (\<lambda>e.
     s_then (ser_json (sx_event_json X) (pe_event e)) (ser_btree_set ser_public_key (pe_attestations e)))"

definition de_pending_event :: "'d state_env \<Rightarrow> pending_bridge_event dec" where
  "de_pending_event X = de_versioned 0 (\<lambda>_.
     d_bind (de_json (sx_event_from X)) (\<lambda>e. d_bind (de_btree_set (de_public_key (sx_codec X))) (\<lambda>a.
     d_return \<lparr>pe_event = e, pe_attestations = a\<rparr>)))"

definition ser_balances :: "'d codec_env \<Rightarrow> (u64, 'd) omap enc" where
  "ser_balances E = ser_btree_map ser_asset_id (ser_decimal E)"

definition de_balances :: "'d codec_env \<Rightarrow> (u64, 'd) omap dec" where
  "de_balances E = de_btree_map de_asset_id (de_decimal E)"

definition ser_chain_state :: "'d state_env \<Rightarrow> 'd chain_state enc" where
  "ser_chain_state X = ser_versioned 0 (\<lambda>c. let sha = ce_sha (sx_codec X) in
     s_then (ser_chain_config (cs_config c))
    (s_then (ser_action_id (cs_next_action_id c))
    (s_then (ser_merkle_map sha key_u64 ser_pending_action (cs_pending_actions c))
    (s_then (ser_event_id (cs_next_event_id c))
    (s_then (ser_merkle_map sha key_u64 (ser_pending_event X) (cs_pending_events c))
            (ser_balances (sx_codec X) (cs_assets c)))))))"

definition de_chain_state :: "'d state_env \<Rightarrow> 'd chain_state dec" where
  "de_chain_state X = de_versioned 0 (\<lambda>_. let sha = ce_sha (sx_codec X) in
     d_bind de_chain_config (\<lambda>c.
     d_bind de_action_id (\<lambda>na.
     d_bind (de_merkle_map sha from_key_u64 (de_pending_action (sx_codec X))) (\<lambda>pas.
     d_bind de_event_id (\<lambda>ne.
     d_bind (de_merkle_map sha from_key_u64 (de_pending_event X)) (\<lambda>pes.
     d_bind (de_balances (sx_codec X)) (\<lambda>a.
     d_return \<lparr>cs_config = c, cs_next_action_id = na, cs_pending_actions = pas,
       cs_next_event_id = ne, cs_pending_events = pes, cs_assets = a\<rparr>)))))))"

definition ser_chain_states :: "'d state_env \<Rightarrow> (external_chain, 'd chain_state) omap enc" where
  "ser_chain_states X = ser_versioned 0 (ser_merkle_map (ce_sha (sx_codec X)) key_chain (ser_chain_state X))"

definition de_chain_states :: "'d state_env \<Rightarrow> (external_chain, 'd chain_state) omap dec" where
  "de_chain_states X = de_versioned 0 (\<lambda>_. de_merkle_map (ce_sha (sx_codec X)) from_key_chain (de_chain_state X))"

section \<open>Accounts\<close>

definition ser_account :: "'d codec_env \<Rightarrow> 'd account enc" where
  "ser_account E = ser_versioned 0 (\<lambda>a.
     s_then (ser_balances E (assets a))
    (s_then (ser_btree_set ser_wallet (wallets a))
    (s_then (ser_btree_set ser_public_key (pubkeys a))
            (ser_account_nonce (next_nonce a)))))"

definition de_account :: "'d codec_env \<Rightarrow> 'd account dec" where
  "de_account E = de_versioned 0 (\<lambda>_.
     d_bind (de_balances E) (\<lambda>a.
     d_bind (de_btree_set de_wallet) (\<lambda>w.
     d_bind (de_btree_set (de_public_key E)) (\<lambda>k.
     d_bind de_account_nonce (\<lambda>n.
     d_return \<lparr>assets = a, wallets = w, pubkeys = k, next_nonce = n\<rparr>)))))"

definition ser_accounts :: "'d codec_env \<Rightarrow> 'd accounts enc" where
  "ser_accounts E = ser_versioned 0 (\<lambda>a. ser_merkle_map (ce_sha E) key_account_id (ser_account E) (accts a))"

definition de_accounts :: "'d codec_env \<Rightarrow> 'd accounts dec" where
  "de_accounts E = de_versioned 0 (\<lambda>_.
     d_bind (de_merkle_map (ce_sha E) from_key_account_id (de_account E)) (\<lambda>m.
       d_check (case accounts_from_map m of Inl e \<Rightarrow> Inl (MerkleOther e) | Inr a \<Rightarrow> Inr a)))"

section \<open>Proposals\<close>

definition ser_proposal_payload :: "proposal_payload enc" where
  "ser_proposal_payload = ser_versioned 0 (\<lambda>p. case p of
      ProposeNewSet t \<Rightarrow> s_then (store_byte 0) (ser_tagged_json t)
    | ProposeMigrateContract t \<Rightarrow> s_then (store_byte 1) (ser_tagged_json t)
    | ProposeUpgrade t \<Rightarrow> s_then (store_byte 2) (ser_tagged_json t))"

definition de_proposal_payload :: "'d state_env \<Rightarrow> proposal_payload dec" where
  "de_proposal_payload X = de_versioned 0 (\<lambda>_. let sha = ce_sha (sx_codec X) in d_bind pop_byte (\<lambda>b.
     if b = 0 then d_map ProposeNewSet (de_tagged_json sha (sx_set_from X))
     else if b = 1 then d_map ProposeMigrateContract (de_tagged_json sha (sx_migrate_from X))
     else if b = 2 then d_map ProposeUpgrade (de_tagged_json sha (sx_upgrade_from X))
     else d_check (Inl (UnexpectedMagicByte b))))"

definition ser_pending_proposal :: "pending_proposal enc" where
  "ser_pending_proposal = ser_versioned 0 (\<lambda>p.
     s_then (ser_proposal_payload (pp_payload p)) (ser_approvals (pp_approvals p)))"

definition de_pending_proposal :: "'d state_env \<Rightarrow> pending_proposal dec" where
  "de_pending_proposal X = de_versioned 0 (\<lambda>_.
     d_bind (de_proposal_payload X) (\<lambda>p. d_bind (de_approvals (sx_codec X)) (\<lambda>a.
     d_return \<lparr>pp_payload = p, pp_approvals = a\<rparr>)))"

definition ser_admin_state :: "admin_proposal_state enc" where
  "ser_admin_state = ser_versioned 0 (\<lambda>s.
     s_then (ser_proposal_id (ap_next_id s)) (ser_btree_map ser_proposal_id ser_pending_proposal (ap_proposals s)))"

definition de_admin_state :: "'d state_env \<Rightarrow> admin_proposal_state dec" where
  "de_admin_state X = de_versioned 0 (\<lambda>_.
     d_bind de_proposal_id (\<lambda>n. d_bind (de_btree_map de_proposal_id (de_pending_proposal X)) (\<lambda>p.
     d_return \<lparr>ap_next_id = n, ap_proposals = p\<rparr>)))"

section \<open>Framework state\<close>

definition ser_framework_state :: "'d state_env \<Rightarrow> 'd framework_state enc" where
  "ser_framework_state X = ser_versioned 0 (\<lambda>fs.
     s_then (ser_validator_set (fs_validator_set fs))
    (s_then (ser_chain_states X (fs_chains fs))
    (s_then (ser_accounts (sx_codec X) (fs_accounts fs))
    (s_then (ser_admin_state (fs_admin fs))
            (ser_string (fs_version fs))))))"

definition de_framework_state :: "'d state_env \<Rightarrow> 'd framework_state dec" where
  "de_framework_state X = de_versioned 0 (\<lambda>_.
     d_bind (de_validator_set (sx_codec X)) (\<lambda>vs.
     d_bind (de_chain_states X) (\<lambda>c.
     d_bind (de_accounts (sx_codec X)) (\<lambda>a.
     d_bind (de_admin_state X) (\<lambda>p.
     d_bind de_string (\<lambda>v.
     d_return \<lparr>fs_validator_set = vs, fs_chains = c, fs_accounts = a, fs_admin = p, fs_version = v\<rparr>))))))"

section \<open>Round trip of a map\<close>

lemma trie_of_entries:
  assumes "sorted_wrt (<) (map (to_key \<circ> fst) es)" "\<forall>e \<in> set es. key_ok (to_key (fst e))"
  shows "node_wf [] (trie_of to_key es) \<and> node_entries (trie_of to_key es) = map (\<lambda>e. (to_key (fst e), e)) es"
  using assms
proof (induction es rule: rev_induct)
  case (snoc e es)
  then have IH: "node_wf [] (trie_of to_key es)" "node_entries (trie_of to_key es) = map (\<lambda>e. (to_key (fst e), e)) es"
    by (auto simp: sorted_wrt_append)
  have "om_insert (to_key (fst e)) e (map (\<lambda>e. (to_key (fst e), e)) es) = map (\<lambda>e. (to_key (fst e), e)) es @ [(to_key (fst e), e)]"
    by (rule om_insert_above) (use snoc.prems(1) in \<open>auto simp: sorted_wrt_append\<close>)
  then show ?case
    using trie.inv_insert [OF IH(1), of "to_key (fst e)" e] trie.entries_insert [OF IH(1), of "to_key (fst e)" e] IH(2) snoc.prems(2)
    by (simp add: trie_of_def)
qed (simp add: trie_of_def)

context ordered_key begin

lemma rt_merkle_map:
  assumes C: "content_world sha C" and m: "om_wf m" "length m < 2 ^ 64"
    and entries: "\<And>k v. (k, v) \<in> set m \<Longrightarrow> valid k \<and> key_ok (to_key k) \<and> roundtrips C (ev v) dv v"
  shows "roundtrips C (ser_merkle_map sha to_key ev m) (de_merkle_map sha from_key dv) m"
proof -
  let ?t = "trie_of to_key m"
  have "sorted_wrt (<) (map (to_key \<circ> fst) m)"
    using m(1) unfolding om_wf_def by (simp add: sorted_wrt_map key_order)
  then have t: "node_wf [] ?t" "node_entries ?t = map (\<lambda>e. (to_key (fst e), e)) m"
    using trie_of_entries [of to_key m] entries by force+
  have "entry_codable C ev dv from_key e" if "e \<in> set (drain_entries ?t)" for e
  proof -
    have "entry_kv e \<in> set (node_entries ?t)" using that by (simp add: node_entries_def)
    then obtain k v where "(k, v) \<in> set m" "entry_kv e = (to_key k, k, v)" unfolding t(2) by force
    then have "valid k" "key_ok (to_key k)" "roundtrips C (ev v) dv v" "le_key_bytes e = to_key k" "le_key e = k" "le_value e = v"
      using entries [of k v] by (simp_all add: entry_kv_def entry_pair_def)
    then show ?thesis using read_back by (simp add: entry_codable_def key_ok_def)
  qed
  then have "node_codable (entry_codable C ev dv from_key) ?t"
    using t m(2) by (intro node_wf_codable) auto
  from rt_map_node [OF C this] show ?thesis
    unfolding ser_merkle_map_def de_merkle_map_def by (rule rt_d_map) (simp add: t(2) comp_def)
qed

end

lemma key_chain_lengths: "key_ok (key_chain c)"
  by (cases c) (simp_all add: key_chain_def key_string_def key_ok_def str_bytes_def)

interpretation chain_key: ordered_key key_chain from_key_chain "\<lambda>_. True"
proof unfold_locales
  fix c d
  have "list_all (\<lambda>c. utf8_valid (str_bytes (chain_as_ref c))) [OsmosisTestnet, NeutronTestnet, OsmosisLocal, SolanaMainnet,
      SolanaTestnet, SolanaDevnet, SolanaLocal, EthereumMainnet, EthereumSepolia, EthereumLocal, PassThrough]"
    by code_simp
  then have "utf8_valid (str_bytes (chain_as_ref c))" by (cases c) (simp_all del: chain_as_ref.simps)
  then show "from_key_chain (key_chain c) = Inr c"
    by (simp add: from_key_chain_def key_chain_def key_string_def from_utf8_def)
  show "key_chain c < key_chain d \<longleftrightarrow> c < d"
    by (simp add: key_chain_def key_string_def str_bytes_order less_external_chain_def)
qed

interpretation account_key: ordered_key key_account_id from_key_account_id "\<lambda>_. True"
  using u64_key.ordered_key_axioms by (simp add: key_account_id_def [abs_def] from_key_account_id_def [abs_def])

lemma key_u64_ok [simp]: "key_ok (key_u64 i)" "key_ok (key_account_id i)"
  by (simp_all add: key_ok_def key_account_id_def key_u64_def to_be_bytes_def length_to_le_bytes)

section \<open>What can be stored\<close>

definition ok_bridge_contract :: "bridge_contract \<Rightarrow> bool" where
  "ok_bridge_contract b \<longleftrightarrow> (case b of NeededSolanaBridge s \<Rightarrow> ok_string s | Deployed s \<Rightarrow> ok_string s | _ \<Rightarrow> True)"

definition ok_chain_config :: "chain_config \<Rightarrow> bool" where
  "ok_chain_config c \<longleftrightarrow> om_wf (cc_assets c) \<and> length (cc_assets c) < 2 ^ 64 \<and>
     (\<forall>e \<in> set (cc_assets c). ok_string (fst e)) \<and> ok_bridge_contract (cc_bridge c)"

definition ok_approvals :: "'d codec_env \<Rightarrow> (public_key, sigrec) omap \<Rightarrow> bool" where
  "ok_approvals E m \<longleftrightarrow> om_wf m \<and> length m < 2 ^ 64 \<and> (\<forall>e \<in> set m. ok_public_key E (fst e) \<and> ok_sigrec E (snd e))"

definition ok_pending_action :: "'d codec_env \<Rightarrow> pending_bridge_action \<Rightarrow> bool" where
  "ok_pending_action E a \<longleftrightarrow> ok_string (pa_payload a) \<and> ok_approvals E (pa_approvals a) \<and>
     (\<forall>s \<in> set_option (pa_processor a). ok_sigrec E s)"

definition ok_json :: "('a \<Rightarrow> bytes option) \<Rightarrow> (bytes \<Rightarrow> 'a option) \<Rightarrow> 'a \<Rightarrow> bool" where
  "ok_json to_json of_json x \<longleftrightarrow> (\<exists>bs. to_json x = Some bs \<and> of_json bs = Some x \<and> length bs < 2 ^ 64)"

definition ok_pending_event :: "'d state_env \<Rightarrow> pending_bridge_event \<Rightarrow> bool" where
  "ok_pending_event X e \<longleftrightarrow> ok_json (sx_event_json X) (sx_event_from X) (pe_event e) \<and>
     ok_key_set (sx_codec X) (pe_attestations e)"

definition ok_balances :: "'d codec_env \<Rightarrow> (u64, 'd) omap \<Rightarrow> bool" where
  "ok_balances E m \<longleftrightarrow> om_wf m \<and> length m < 2 ^ 64 \<and> (\<forall>e \<in> set m. ok_decimal E (snd e))"

definition ok_chain_state :: "'d state_env \<Rightarrow> 'd chain_state \<Rightarrow> bool" where
  "ok_chain_state X c \<longleftrightarrow> ok_chain_config (cs_config c) \<and>
     om_wf (cs_pending_actions c) \<and> length (cs_pending_actions c) < 2 ^ 64 \<and>
     (\<forall>e \<in> set (cs_pending_actions c). ok_pending_action (sx_codec X) (snd e)) \<and>
     om_wf (cs_pending_events c) \<and> length (cs_pending_events c) < 2 ^ 64 \<and>
     (\<forall>e \<in> set (cs_pending_events c). ok_pending_event X (snd e)) \<and> ok_balances (sx_codec X) (cs_assets c)"

definition ok_account :: "'d codec_env \<Rightarrow> 'd account \<Rightarrow> bool" where
  "ok_account E a \<longleftrightarrow> ok_balances E (assets a) \<and> os_wf (wallets a) \<and> length (wallets a) < 2 ^ 64 \<and>
     (\<forall>w \<in> set (wallets a). ok_string w) \<and> ok_key_set E (pubkeys a)"

definition ok_accounts :: "'d codec_env \<Rightarrow> 'd accounts \<Rightarrow> bool" where
  "ok_accounts E A \<longleftrightarrow> accounts_wf A \<and> length (accts A) < 2 ^ 64 \<and> (\<forall>e \<in> set (accts A). ok_account E (snd e))"

definition ok_tagged :: "(bytes \<Rightarrow> hash) \<Rightarrow> (string \<Rightarrow> 'a option) \<Rightarrow> 'a tagged_json \<Rightarrow> bool" where
  "ok_tagged sha of_json t \<longleftrightarrow> ok_string (tj_serialized t) \<and> tj_try_from_string sha of_json (tj_serialized t) = Some t"

definition ok_proposal_payload :: "'d state_env \<Rightarrow> proposal_payload \<Rightarrow> bool" where
  "ok_proposal_payload X p \<longleftrightarrow> (case p of
      ProposeNewSet t \<Rightarrow> ok_tagged (ce_sha (sx_codec X)) (sx_set_from X) t
    | ProposeMigrateContract t \<Rightarrow> ok_tagged (ce_sha (sx_codec X)) (sx_migrate_from X) t
    | ProposeUpgrade t \<Rightarrow> ok_tagged (ce_sha (sx_codec X)) (sx_upgrade_from X) t)"

definition ok_admin_state :: "'d state_env \<Rightarrow> admin_proposal_state \<Rightarrow> bool" where
  "ok_admin_state X s \<longleftrightarrow> om_wf (ap_proposals s) \<and> length (ap_proposals s) < 2 ^ 64 \<and>
     (\<forall>e \<in> set (ap_proposals s). ok_proposal_payload X (pp_payload (snd e)) \<and> ok_approvals (sx_codec X) (pp_approvals (snd e)))"

definition ok_framework_state :: "'d state_env \<Rightarrow> 'd framework_state \<Rightarrow> bool" where
  "ok_framework_state X fs \<longleftrightarrow> ok_validator_set (sx_codec X) (fs_validator_set fs) \<and>
     om_wf (fs_chains fs) \<and> length (fs_chains fs) < 2 ^ 64 \<and> (\<forall>e \<in> set (fs_chains fs). ok_chain_state X (snd e)) \<and>
     ok_accounts (sx_codec X) (fs_accounts fs) \<and> ok_admin_state X (fs_admin fs) \<and> ok_string (fs_version fs)"

section \<open>Round trips\<close>

lemma state_eta [simp]:
  "\<lparr>ac_decimals = ac_decimals ac, ac_asset_id = ac_asset_id ac\<rparr> = ac"
  "\<lparr>cc_assets = cc_assets cc, cc_bridge = cc_bridge cc\<rparr> = cc"
  "\<lparr>pa_payload = pa_payload pa, pa_approvals = pa_approvals pa, pa_processor = pa_processor pa\<rparr> = pa"
  "\<lparr>pe_event = pe_event pe, pe_attestations = pe_attestations pe\<rparr> = pe"
  "\<lparr>pp_payload = pp_payload pp, pp_approvals = pp_approvals pp\<rparr> = pp"
  "\<lparr>ap_next_id = ap_next_id ap, ap_proposals = ap_proposals ap\<rparr> = ap"
  by (auto intro: asset_config.equality chain_config.equality pending_bridge_action.equality pending_bridge_event.equality
      pending_proposal.equality admin_proposal_state.equality)

lemma decimal_state_eta [simp]:
  "\<lparr>cs_config = cs_config cs, cs_next_action_id = cs_next_action_id cs, cs_pending_actions = cs_pending_actions cs,
     cs_next_event_id = cs_next_event_id cs, cs_pending_events = cs_pending_events cs, cs_assets = cs_assets cs\<rparr> = cs"
  "\<lparr>assets = assets a, wallets = wallets a, pubkeys = pubkeys a, next_nonce = next_nonce a\<rparr> = a"
  "\<lparr>fs_validator_set = fs_validator_set fs, fs_chains = fs_chains fs, fs_accounts = fs_accounts fs,
     fs_admin = fs_admin fs, fs_version = fs_version fs\<rparr> = fs"
  by (auto intro: chain_state.equality account.equality framework_state.equality)

lemma rt_json:
  assumes C: "content_world sha C" and x: "ok_json to_json of_json x"
  shows "roundtrips C (ser_json to_json x) (de_json of_json) x"
proof -
  obtain bs where bs: "to_json x = Some bs" "of_json bs = Some x" "length bs < 2 ^ 64" using x by (auto simp: ok_json_def)
  have "ser_json to_json x = store_slice bs" by (rule ext) (simp add: ser_json_def bs(1))
  then show ?thesis unfolding de_json_def using bs rt_slice [OF C bs(3)] by (auto intro: rt_last)
qed

lemma rt_asset_config:
  assumes "content_world sha C"
  shows "roundtrips C (ser_asset_config c) de_asset_config c"
  unfolding ser_asset_config_def de_asset_config_def id_codecs
  by (intro rt_versioned rt_then [OF rt_byte] rt_last [OF rt_u64 [OF assms]]) simp_all

lemma rt_bridge_contract:
  assumes C: "content_world sha C" and b: "ok_bridge_contract b"
  shows "roundtrips C (ser_bridge_contract b) de_bridge_contract b"
  unfolding ser_bridge_contract_def de_bridge_contract_def
proof (rule rt_versioned)
  show "roundtrips C (case b of NeededCosmosBridge code_id \<Rightarrow> s_then (store_byte 0) (ser_word code_id)
      | NeededSolanaBridge program_id \<Rightarrow> s_then (store_byte 1) (ser_string program_id)
      | NeededEthereumBridge \<Rightarrow> store_byte 3 | Deployed addr \<Rightarrow> s_then (store_byte 2) (ser_string addr))
    (d_bind pop_byte (\<lambda>b. if b = 0 then d_map NeededCosmosBridge de_word else if b = 1 then d_map NeededSolanaBridge de_string
     else if b = 2 then d_map Deployed de_string else if b = 3 then d_return NeededEthereumBridge
     else d_check (Inl (UnexpectedMagicByte b)))) b"
  proof (cases b)
    case (NeededCosmosBridge code)
    then show ?thesis by simp (rule rt_then [OF rt_byte], simp add: rt_d_map [OF rt_u64 [OF C]])
  next
    case (NeededSolanaBridge s)
    then show ?thesis using b rt_string [OF C, of s]
      by (simp add: ok_bridge_contract_def) (rule rt_then [OF rt_byte], simp add: rt_d_map)
  next
    case NeededEthereumBridge
    then show ?thesis by simp (rule rt_last [OF rt_byte], simp)
  next
    case (Deployed s)
    then show ?thesis using b rt_string [OF C, of s]
      by (simp add: ok_bridge_contract_def) (rule rt_then [OF rt_byte], simp add: rt_d_map)
  qed
qed simp

lemma rt_chain_config:
  assumes C: "content_world sha C" and c: "ok_chain_config c"
  shows "roundtrips C (ser_chain_config c) de_chain_config c"
proof -
  have a: "roundtrips C (ser_btree_map ser_asset_name ser_asset_config (cc_assets c)) (de_btree_map de_asset_name de_asset_config) (cc_assets c)"
    using c by (intro rt_btree_map) (fastforce simp: ok_chain_config_def id_codecs intro: rt_string [OF C] rt_asset_config [OF C])+
  have b: "roundtrips C (ser_bridge_contract (cc_bridge c)) de_bridge_contract (cc_bridge c)"
    using c by (intro rt_bridge_contract [OF C]) (simp add: ok_chain_config_def)
  show ?thesis unfolding ser_chain_config_def de_chain_config_def
    by (intro rt_versioned rt_then [OF a] rt_last [OF b]) simp_all
qed

lemma rt_approvals:
  assumes C: "content_world sha C" and m: "ok_approvals E m"
  shows "roundtrips C (ser_approvals m) (de_approvals E) m"
  unfolding ser_approvals_def de_approvals_def
  by (rule rt_btree_map) (use m in \<open>fastforce simp: ok_approvals_def intro: rt_public_key [OF C] rt_sigrec [OF C]\<close>)+

lemma rt_pending_action:
  assumes C: "content_world sha C" and a: "ok_pending_action E a"
  shows "roundtrips C (ser_pending_action a) (de_pending_action E) a"
proof -
  have r: "roundtrips C (ser_string (pa_payload a)) de_string (pa_payload a)"
    "roundtrips C (ser_approvals (pa_approvals a)) (de_approvals E) (pa_approvals a)"
    "roundtrips C (ser_option ser_sigrec (pa_processor a)) (de_option (de_sigrec E)) (pa_processor a)"
    using a by (auto simp: ok_pending_action_def intro!: rt_string [OF C] rt_approvals [OF C] rt_option rt_sigrec [OF C])
  show ?thesis unfolding ser_pending_action_def de_pending_action_def
    by (intro rt_versioned rt_then [OF r(1)] rt_then [OF r(2)] rt_last [OF r(3)]) simp_all
qed

lemma rt_pending_event:
  assumes C: "content_world sha C" and e: "ok_pending_event X e"
  shows "roundtrips C (ser_pending_event X e) (de_pending_event X) e"
proof -
  have r: "roundtrips C (ser_json (sx_event_json X) (pe_event e)) (de_json (sx_event_from X)) (pe_event e)"
    "roundtrips C (ser_btree_set ser_public_key (pe_attestations e)) (de_btree_set (de_public_key (sx_codec X))) (pe_attestations e)"
    using e by (auto simp: ok_pending_event_def intro!: rt_json [OF C] rt_key_set [OF C])
  show ?thesis unfolding ser_pending_event_def de_pending_event_def
    by (intro rt_versioned rt_then [OF r(1)] rt_last [OF r(2)]) simp_all
qed

lemma rt_balances:
  assumes C: "content_world sha C" and m: "ok_balances E m"
  shows "roundtrips C (ser_balances E m) (de_balances E) m"
  unfolding ser_balances_def de_balances_def id_codecs
  by (rule rt_btree_map) (use m in \<open>fastforce simp: ok_balances_def intro: rt_u64 [OF C] rt_decimal [OF C]\<close>)+

lemma rt_chain_state:
  assumes C: "content_world (ce_sha (sx_codec X)) C" and c: "ok_chain_state X c"
  shows "roundtrips C (ser_chain_state X c) (de_chain_state X) c"
proof -
  let ?E = "sx_codec X" and ?sha = "ce_sha (sx_codec X)"
  have 1: "roundtrips C (ser_chain_config (cs_config c)) de_chain_config (cs_config c)"
    by (rule rt_chain_config [OF C]) (use c in \<open>simp add: ok_chain_state_def\<close>)
  have 2: "roundtrips C (ser_merkle_map ?sha key_u64 ser_pending_action (cs_pending_actions c))
      (de_merkle_map ?sha from_key_u64 (de_pending_action ?E)) (cs_pending_actions c)"
    by (rule u64_key.rt_merkle_map [OF C]) (use c in \<open>fastforce simp: ok_chain_state_def intro: rt_pending_action [OF C]\<close>)+
  have 3: "roundtrips C (ser_merkle_map ?sha key_u64 (ser_pending_event X) (cs_pending_events c))
      (de_merkle_map ?sha from_key_u64 (de_pending_event X)) (cs_pending_events c)"
    by (rule u64_key.rt_merkle_map [OF C]) (use c in \<open>fastforce simp: ok_chain_state_def intro: rt_pending_event [OF C]\<close>)+
  have 4: "roundtrips C (ser_balances ?E (cs_assets c)) (de_balances ?E) (cs_assets c)"
    by (rule rt_balances [OF C]) (use c in \<open>simp add: ok_chain_state_def\<close>)
  show ?thesis unfolding ser_chain_state_def de_chain_state_def Let_def id_codecs
    by (intro rt_versioned rt_then [OF 1] rt_then [OF rt_u64 [OF C]] rt_then [OF 2] rt_then [OF 3] rt_last [OF 4]) simp_all
qed

lemma rt_account:
  assumes C: "content_world sha C" and a: "ok_account E a"
  shows "roundtrips C (ser_account E a) (de_account E) a"
proof -
  have 1: "roundtrips C (ser_balances E (assets a)) (de_balances E) (assets a)"
    by (rule rt_balances [OF C]) (use a in \<open>simp add: ok_account_def\<close>)
  have 2: "roundtrips C (ser_btree_set ser_wallet (wallets a)) (de_btree_set de_wallet) (wallets a)"
    by (rule rt_btree_set) (use a in \<open>auto simp: ok_account_def id_codecs intro: rt_string [OF C]\<close>)
  have 3: "roundtrips C (ser_btree_set ser_public_key (pubkeys a)) (de_btree_set (de_public_key E)) (pubkeys a)"
    by (rule rt_key_set [OF C]) (use a in \<open>simp add: ok_account_def\<close>)
  show ?thesis unfolding ser_account_def de_account_def
    by (intro rt_versioned rt_then [OF 1] rt_then [OF 2] rt_then [OF 3] rt_last [where y = "next_nonce a"])
      (simp_all add: id_codecs rt_u64 [OF C])
qed

lemma rt_accounts:
  assumes C: "content_world (ce_sha E) C" and a: "ok_accounts E A"
  shows "roundtrips C (ser_accounts E A) (de_accounts E) A"
proof -
  have "om_wf (accts A)" using a by (simp add: ok_accounts_def accounts_wf_def)
  then have 1: "roundtrips C (ser_merkle_map (ce_sha E) key_account_id (ser_account E) (accts A))
      (de_merkle_map (ce_sha E) from_key_account_id (de_account E)) (accts A)"
    by (rule account_key.rt_merkle_map [OF C]) (use a in \<open>fastforce simp: ok_accounts_def intro: rt_account [OF C]\<close>)+
  have "accounts_from_map (accts A) = Inr A" using a by (simp add: ok_accounts_def accounts_from_map_inverse)
  then show ?thesis unfolding ser_accounts_def de_accounts_def
    by (intro rt_versioned rt_last [OF 1]) simp_all
qed

lemma rt_tagged:
  "content_world sha C \<Longrightarrow> ok_tagged sha of_json t \<Longrightarrow> roundtrips C (ser_tagged_json t) (de_tagged_json sha of_json) t"
  unfolding ser_tagged_json_def de_tagged_json_def ok_tagged_def by (rule rt_last [OF rt_string]) simp_all

lemma rt_proposal_payload:
  assumes C: "content_world (ce_sha (sx_codec X)) C" and p: "ok_proposal_payload X p"
  shows "roundtrips C (ser_proposal_payload p) (de_proposal_payload X) p"
proof (cases p)
  case (ProposeNewSet t)
  then have t: "ok_tagged (ce_sha (sx_codec X)) (sx_set_from X) t" using p by (simp add: ok_proposal_payload_def)
  show ?thesis unfolding ser_proposal_payload_def de_proposal_payload_def Let_def ProposeNewSet
    by (rule rt_versioned, simp, simp, rule rt_then [OF rt_byte]) (simp add: rt_d_map [OF rt_tagged [OF C t]])
next
  case (ProposeMigrateContract t)
  then have t: "ok_tagged (ce_sha (sx_codec X)) (sx_migrate_from X) t" using p by (simp add: ok_proposal_payload_def)
  show ?thesis unfolding ser_proposal_payload_def de_proposal_payload_def Let_def ProposeMigrateContract
    by (rule rt_versioned, simp, simp, rule rt_then [OF rt_byte]) (simp add: rt_d_map [OF rt_tagged [OF C t]])
next
  case (ProposeUpgrade t)
  then have t: "ok_tagged (ce_sha (sx_codec X)) (sx_upgrade_from X) t" using p by (simp add: ok_proposal_payload_def)
  show ?thesis unfolding ser_proposal_payload_def de_proposal_payload_def Let_def ProposeUpgrade
    by (rule rt_versioned, simp, simp, rule rt_then [OF rt_byte]) (simp add: rt_d_map [OF rt_tagged [OF C t]])
qed

lemma rt_pending_proposal:
  assumes C: "content_world (ce_sha (sx_codec X)) C" and p: "ok_proposal_payload X (pp_payload p)" "ok_approvals (sx_codec X) (pp_approvals p)"
  shows "roundtrips C (ser_pending_proposal p) (de_pending_proposal X) p"
  unfolding ser_pending_proposal_def de_pending_proposal_def
  by (intro rt_versioned rt_then [OF rt_proposal_payload [OF C p(1)]] rt_last [OF rt_approvals [OF C p(2)]]) simp_all

lemma rt_admin_state:
  assumes C: "content_world (ce_sha (sx_codec X)) C" and s: "ok_admin_state X s"
  shows "roundtrips C (ser_admin_state s) (de_admin_state X) s"
proof -
  have "roundtrips C (ser_btree_map ser_proposal_id ser_pending_proposal (ap_proposals s))
      (de_btree_map de_proposal_id (de_pending_proposal X)) (ap_proposals s)"
    using s by (intro rt_btree_map) (fastforce simp: ok_admin_state_def id_codecs intro: rt_u64 [OF C] rt_pending_proposal [OF C])+
  then show ?thesis unfolding ser_admin_state_def de_admin_state_def
    by (intro rt_versioned rt_then [where y = "ap_next_id s"] rt_last [where y = "ap_proposals s"])
      (simp_all add: id_codecs rt_u64 [OF C])
qed

lemma rt_framework_state:
  assumes C: "content_world (ce_sha (sx_codec X)) C" and fs: "ok_framework_state X fs"
  shows "roundtrips C (ser_framework_state X fs) (de_framework_state X) fs"
proof -
  have 1: "roundtrips C (ser_validator_set (fs_validator_set fs)) (de_validator_set (sx_codec X)) (fs_validator_set fs)"
    by (rule rt_validator_set [OF C]) (use fs in \<open>simp add: ok_framework_state_def\<close>)
  have "roundtrips C (ser_merkle_map (ce_sha (sx_codec X)) key_chain (ser_chain_state X) (fs_chains fs))
      (de_merkle_map (ce_sha (sx_codec X)) from_key_chain (de_chain_state X)) (fs_chains fs)"
    by (rule chain_key.rt_merkle_map [OF C])
      (use fs in \<open>fastforce simp: ok_framework_state_def key_chain_lengths intro: rt_chain_state [OF C]\<close>)+
  then have 2: "roundtrips C (ser_chain_states X (fs_chains fs)) (de_chain_states X) (fs_chains fs)"
    unfolding ser_chain_states_def de_chain_states_def by (intro rt_versioned) simp_all
  have 3: "roundtrips C (ser_accounts (sx_codec X) (fs_accounts fs)) (de_accounts (sx_codec X)) (fs_accounts fs)"
    by (rule rt_accounts [OF C]) (use fs in \<open>simp add: ok_framework_state_def\<close>)
  have 4: "roundtrips C (ser_admin_state (fs_admin fs)) (de_admin_state X) (fs_admin fs)"
    by (rule rt_admin_state [OF C]) (use fs in \<open>simp add: ok_framework_state_def\<close>)
  have 5: "roundtrips C (ser_string (fs_version fs)) de_string (fs_version fs)"
    by (rule rt_string [OF C]) (use fs in \<open>simp add: ok_framework_state_def\<close>)
  show ?thesis unfolding ser_framework_state_def de_framework_state_def
    by (intro rt_versioned rt_then [OF 1] rt_then [OF 2] rt_then [OF 3] rt_then [OF 4] rt_last [OF 5]) simp_all
qed

interpretation framework_codec:
  merkle_codec "ce_sha (sx_codec X)" "ser_framework_state X" "de_framework_state X" "ok_framework_state X" for X
  by unfold_locales (rule rt_framework_state)

section \<open>Accounts that share a key\<close>

lemma index_keys_new:
  "rfold (index_one i) ks ix = Inr ix' \<Longrightarrow> (\<forall>k \<in> set ks. om_get ix k = None) \<and>
    (\<forall>k. om_get ix k \<noteq> None \<or> k \<in> set ks \<longrightarrow> om_get ix' k \<noteq> None)"
proof (induction ks arbitrary: ix)
  case (Cons k ks)
  then have new: "om_get ix k = None" "rfold (index_one i) ks (om_insert k i ix) = Inr ix'"
    by (auto simp: index_one_def [of i k ix] om_contains_def split: if_splits)
  then show ?case using Cons.IH [OF new(2)] by (auto split: if_splits)
qed simp

lemma index_account_new:
  assumes "index_account (i, a) (ws, ps) = Inr (ws', ps')"
  shows "rfold (index_one i) (wallets a) ws = Inr ws'" "rfold (index_one i) (pubkeys a) ps = Inr ps'"
  using assms by (auto simp: index_account_def result_simps)

lemma index_accounts_new:
  assumes "rfold index_account m (ws, ps) = Inr r" "om_wf m"
  shows "owns m wallets \<and> owns m pubkeys \<and> (\<forall>i. \<forall>k \<in> old_keys m i wallets. om_get ws k = None) \<and>
    (\<forall>i. \<forall>k \<in> old_keys m i pubkeys. om_get ps k = None)"
  using assms
proof (induction m arbitrary: ws ps)
  case Nil
  then show ?case by (simp add: owns_def old_keys_def)
next
  case (Cons e m)
  obtain i a where e: "e = (i, a)" by (cases e)
  note keys = old_keys_Cons [OF Cons.prems(2) [unfolded e]]
  obtain ws1 ps1 where 1: "index_account e (ws, ps) = Inr (ws1, ps1)" "rfold index_account m (ws1, ps1) = Inr r"
    using Cons.prems(1) by (auto simp: result_simps)
  note new = index_account_new [OF 1(1) [unfolded e]]
  note w = index_keys_new [OF new(1)] and p = index_keys_new [OF new(2)]
  have "om_wf m" using Cons.prems(2) by (simp add: e om_wf_Cons)
  note IH = Cons.IH [OF 1(2) this]
  have "owns (e # m) wallets" "owns (e # m) pubkeys"
    using IH w p unfolding owns_def e keys by (metis)+
  moreover have "\<forall>j. \<forall>k \<in> old_keys (e # m) j wallets. om_get ws k = None" "\<forall>j. \<forall>k \<in> old_keys (e # m) j pubkeys. om_get ps k = None"
    using IH w p unfolding e keys by (metis)+
  ultimately show ?case by blast
qed

lemma deserialize_check:
  assumes "roundtrips C (enc x) d y" "serialize enc x = Inr c" "c \<in> C"
  shows "deserialize (d_bind d (\<lambda>y. d_check (f y))) c = f y"
proof -
  from assms(1) obtain bs cs where e: "\<And>s. enc x s = Inr (emit bs cs s)" and r: "reads C d bs cs y"
    by (auto simp: roundtrips_def)
  have c: "c = Contents bs cs" using assms(2) serialize_emit [of enc x, OF e] by simp
  have "d (de_new c) = Inr (y, (de_new c)\<lparr>d_pos := length bs\<rparr>)"
    using r assms(3) unfolding reads_def c by (auto simp: de_new_def payload_of_def)
  then show ?thesis
    by (cases "f y") (simp_all add: deserialize_def d_bind_def d_check_def de_finish_def de_new_def payload_of_def c)
qed

lemma de_versioned_bind: "de_versioned n (\<lambda>v. d_bind (d v) (k v)) = d_bind (de_versioned n (\<lambda>v. d_map (Pair v) (d v))) (\<lambda>(v, y). k v y)"
  by (rule ext) (auto simp: de_versioned_def d_map_def d_bind_def d_return_def rbind_def split: sum.split prod.split)

text \<open>C31: the accounts of a stored state load exactly if no wallet and no key is in two accounts; then the loaded table is
  well formed, with its two indexes rebuilt.\<close>

theorem stored_accounts_load_iff:
  assumes C: "content_world (ce_sha E) C" and m: "om_wf (accts A)" "length (accts A) < 2 ^ 64" "\<forall>e \<in> set (accts A). ok_account E (snd e)"
    and save: "serialize (ser_accounts E) A = Inr c" "c \<in> C"
  shows "((\<exists>B. deserialize (de_accounts E) c = Inr B) \<longleftrightarrow> owns (accts A) wallets \<and> owns (accts A) pubkeys) \<and>
    (\<forall>B. deserialize (de_accounts E) c = Inr B \<longrightarrow> accts B = accts A \<and> accounts_wf B)"
proof -
  let ?f = "\<lambda>m. case accounts_from_map m of Inl e \<Rightarrow> Inl (MerkleOther e) | Inr a \<Rightarrow> Inr a"
  have "roundtrips C (ser_merkle_map (ce_sha E) key_account_id (ser_account E) (accts A))
      (de_merkle_map (ce_sha E) from_key_account_id (de_account E)) (accts A)"
    by (rule account_key.rt_merkle_map [OF C m(1,2)]) (use m(3) in \<open>fastforce intro: rt_account [OF C]\<close>)
  then have "roundtrips C (ser_accounts E A)
      (de_versioned 0 (\<lambda>v. d_map (Pair v) (de_merkle_map (ce_sha E) from_key_account_id (de_account E)))) (0, accts A)"
    unfolding ser_accounts_def ser_versioned_def de_versioned_def
    by (intro rt_then [OF rt_usize]) (simp_all add: rt_d_map)
  from deserialize_check [OF this save, of "\<lambda>(v, m). ?f m"]
  have load: "deserialize (de_accounts E) c = ?f (accts A)"
    unfolding de_accounts_def de_versioned_bind by (simp add: case_prod_unfold)
  have wf: "\<forall>e \<in> set (accts A). account_wf (snd e)"
    using m(3) by (auto simp: ok_account_def account_wf_def ok_balances_def ok_key_set_def)
  have none: "om_get [] k = None" for k :: "'k::linorder" by simp
  have ok: "\<exists>B. accounts_from_map (accts A) = Inr B \<and> accounts_wf B" if "owns (accts A) wallets" "owns (accts A) pubkeys"
  proof -
    from index_accounts [OF m(1) wf that, of "[]" "[]"] obtain ws ps where
      r: "rfold index_account (accts A) ([], []) = Inr (ws, ps)" "om_wf ws" "om_wf ps"
      "\<forall>k i. om_get ws k = Some i \<longleftrightarrow> k \<in> old_keys (accts A) i wallets" "\<forall>k i. om_get ps k = Some i \<longleftrightarrow> k \<in> old_keys (accts A) i pubkeys"
      by auto
    have "accounts_wf \<lparr>accts = accts A, wallet_ix = ws, pubkey_ix = ps\<rparr>"
      using r m(1) wf om_get_iff_in_set [OF m(1)] by (auto simp: accounts_wf_def inverse_ix_iff)
    then show ?thesis using r(1) by (simp add: accounts_from_map_def)
  qed
  have owns: "owns (accts A) wallets \<and> owns (accts A) pubkeys" and acc: "accts B = accts A"
    if "accounts_from_map (accts A) = Inr B" for B
    using that index_accounts_new [OF _ m(1), of "[]" "[]"] by (auto simp: accounts_from_map_def result_simps)
  show ?thesis
  proof (cases "accounts_from_map (accts A)")
    case (Inl e)
    then have "\<not> (owns (accts A) wallets \<and> owns (accts A) pubkeys)" using ok by fastforce
    then show ?thesis by (simp add: load Inl)
  next
    case (Inr B)
    have "accounts_wf B" using ok owns [OF Inr] Inr by fastforce
    then show ?thesis using owns [OF Inr] acc [OF Inr] by (simp add: load Inr)
  qed
qed

section \<open>The hash of the state\<close>

text \<open>C30: a framework state that is saved is read back as it was, through all its maps, and two states have the same
  hash exactly if they are the same: the hash in a block commits to validators, chains, balances, nonces and proposals.\<close>

theorem framework_state_hash_commits:
  assumes "content_world (ce_sha (sx_codec X)) C"
    and "ok_framework_state X fs" "serialize (ser_framework_state X) fs = Inr c" "c \<in> C"
    and "ok_framework_state X gs" "serialize (ser_framework_state X) gs = Inr d" "d \<in> C"
  shows "deserialize (de_framework_state X) c = Inr fs \<and>
    (contents_hash (ce_sha (sx_codec X)) c = contents_hash (ce_sha (sx_codec X)) d \<longleftrightarrow> fs = gs)"
  using framework_codec.load_saved [OF assms(1-4)] assms(3,6)
    framework_codec.equal_hash_equal_value [OF assms(1,2,5,3,6,4,7)]
  by auto

text \<open>A state to evaluate on, with a hash that tells payloads by their lengths.\<close>

definition length_codec :: "int codec_env" where
  "length_codec = sample_codec\<lparr>ce_sha := (\<lambda>bs. of_nat (length bs) # replicate 31 0)\<rparr>"

definition sample_state_env :: "int state_env" where
  "sample_state_env = \<lparr>sx_codec = length_codec, sx_event_json = (\<lambda>_. Some [7]), sx_event_from = (\<lambda>_. Some (Signed ''w'' 0)),
     sx_set_from = (\<lambda>_. None), sx_migrate_from = (\<lambda>_. None), sx_upgrade_from = (\<lambda>s. Some \<lparr>desired_version = s\<rparr>)\<rparr>"

definition sample_chain_state :: "int chain_state" where
  "sample_chain_state = \<lparr>cs_config = \<lparr>cc_assets = [(''eth'', \<lparr>ac_decimals = 18, ac_asset_id = 1\<rparr>)], cc_bridge = Deployed ''0x1''\<rparr>,
     cs_next_action_id = 1, cs_pending_actions = [(0, \<lparr>pa_payload = ''p'',
       pa_approvals = [(PublicKey [2], \<lparr>recid = 0, sig = Signature [2]\<rparr>)], pa_processor = None\<rparr>)],
     cs_next_event_id = 1, cs_pending_events = [(0, \<lparr>pe_event = Signed ''w'' 0, pe_attestations = [PublicKey [1]]\<rparr>)],
     cs_assets = [(1, 0)]\<rparr>"

definition sample_accounts :: "int accounts" where
  "sample_accounts = \<lparr>accts = [(0, \<lparr>assets = [(1, 0)], wallets = [''w''], pubkeys = [PublicKey [5]], next_nonce = 2\<rparr>)],
     wallet_ix = [(''w'', 0)], pubkey_ix = [(PublicKey [5], 0)]\<rparr>"

definition sample_framework_state :: "string \<Rightarrow> int framework_state" where
  "sample_framework_state v = \<lparr>fs_validator_set = codec_set 7, fs_chains = [(EthereumLocal, sample_chain_state)],
     fs_accounts = sample_accounts, fs_admin = \<lparr>ap_next_id = 1, ap_proposals = [(0, \<lparr>pp_payload =
       ProposeUpgrade \<lparr>tj_serialized = ''u'', tj_hash = ce_sha length_codec [117], tj_value = \<lparr>desired_version = ''u''\<rparr>\<rparr>,
       pp_approvals = []\<rparr>)]\<rparr>, fs_version = v\<rparr>"

lemma trie_of_leaf:
  assumes "sorted_wrt (<) (map (to_key \<circ> fst) es)" "\<forall>e \<in> set es. key_ok (to_key (fst e))" "length es \<le> 16"
  shows "trie_of to_key es = Leaf (map (\<lambda>e. \<lparr>le_key_bytes = to_key (fst e), le_key = fst e, le_value = snd e\<rparr>) es)"
    (is "_ = ?leaf")
proof (rule node_wf_unique)
  note t = trie_of_entries [OF assms(1,2)]
  then show "node_wf [] (trie_of to_key es)" by blast
  show "node_wf [] ?leaf"
    using assms by (auto simp: om_wf_def key_under_def comp_def entry_kv_def)
  show "node_entries (trie_of to_key es) = node_entries ?leaf"
    using t by (simp add: entry_kv_def entry_pair_def comp_def)
qed

lemmas trie_of_single = trie_of_leaf [of to_key "[(k, v)]" for to_key k v, simplified]

lemma sample_state_ok: "ok_string v \<Longrightarrow> ok_framework_state sample_state_env (sample_framework_state v)"
proof -
  have s: "ok_string ''eth''" "ok_string ''0x1''" "ok_string ''p''" "ok_string ''w''" "ok_string ''u''"
    by (simp_all add: ok_string_def str_bytes_def)
  have k: "ok_public_key length_codec (PublicKey bs)" if "length bs < 2 ^ 64" for bs
    using that by (simp add: ok_public_key_def length_codec_def sample_codec_def)
  have d: "ok_decimal length_codec 0" by (simp add: ok_decimal_def length_codec_def sample_codec_def)
  have sg: "ok_sigrec length_codec \<lparr>recid = 0, sig = Signature [2]\<rparr>" by (simp add: ok_sigrec_def length_codec_def sample_codec_def)
  have env: "sx_codec sample_state_env = length_codec" by (simp add: sample_state_env_def)
  have cs: "ok_chain_state sample_state_env sample_chain_state"
    using s k d sg unfolding ok_chain_state_def env
    by (simp add: sample_chain_state_def ok_chain_config_def ok_bridge_contract_def ok_pending_action_def ok_approvals_def
      ok_pending_event_def ok_key_set_def ok_balances_def ok_json_def om_wf_def os_wf_def env) (simp add: sample_state_env_def)
  have a: "ok_accounts length_codec sample_accounts"
    using s k d
    by (auto simp: ok_accounts_def sample_accounts_def ok_account_def ok_balances_def ok_key_set_def om_wf_def os_wf_def accounts_wf_def
      account_wf_def inverse_ix_def)
  have p: "ok_admin_state sample_state_env (fs_admin (sample_framework_state v))"
    using s by (simp add: ok_admin_state_def sample_framework_state_def ok_proposal_payload_def ok_tagged_def ok_approvals_def om_wf_def
      tj_try_from_string_def str_bytes_def) (simp add: sample_state_env_def length_codec_def)
  show "ok_string v \<Longrightarrow> ok_framework_state sample_state_env (sample_framework_state v)"
    using cs a p k unfolding ok_framework_state_def env
    by (simp add: sample_framework_state_def om_wf_def codec_set_def ok_validator_set_def ok_key_set_def os_wf_def)
qed


text \<open>Actions that write a bounded number of bytes and no children.\<close>

definition flat :: "nat \<Rightarrow> action \<Rightarrow> bool" where
  "flat n act \<longleftrightarrow> (\<exists>bs. emits act bs [] \<and> length bs \<le> n)"

lemma emits_slice: "emits (store_slice bs) (usize_bytes (length bs) @ bs) []"
  by (simp add: emits_def store_slice_def store_usize_bytes store_raw_bytes_def emit_def)

lemma usize_encoding_length:
  assumes "v < 2 ^ 64"
  shows "length (usize_bytes v) \<le> 10"
proof -
  have "v div 128 < 128 ^ 9" using assms by simp
  then show ?thesis using length_usize_chunks by (simp add: usize_bytes_marked marked_def)
qed

lemma flat_usize: "v < 2 ^ 64 \<Longrightarrow> flat 10 (store_usize v)"
  unfolding flat_def emits_def using usize_encoding_length [of v] store_usize_bytes by blast

lemma flat_slice: "length bs < 2 ^ 64 \<Longrightarrow> flat (10 + length bs) (store_slice bs)"
  unfolding flat_def using emits_slice [of bs] usize_encoding_length [of "length bs"] by fastforce

lemma flat_byte: "flat 1 (store_byte b)"
  using emits_byte by (fastforce simp: flat_def)

lemma flat_then: "flat m a \<Longrightarrow> flat n b \<Longrightarrow> flat (m + n) (s_then a b)"
  unfolding flat_def using emits_then [of a _ "[]" b _ "[]"] by fastforce

lemma flat_raw: "flat (length bs) (store_raw_bytes bs)"
  by (auto simp: flat_def emits_def store_raw_bytes_def emit_def)

lemma flat_done: "flat 0 s_done"
  by (simp add: flat_def emits_def s_done_def emit_def)

lemma ser_array_Nil: "ser_array enc [] = s_done"
  by (rule ext) (simp add: ser_array_def s_done_def)

lemma flat_le: "flat m a \<Longrightarrow> m \<le> n \<Longrightarrow> flat n a"
  unfolding flat_def by (meson order_trans)

lemmas lengths = length_to_le_bytes str_bytes_def key_account_id_def key_chain_def key_string_def key_u64_def to_be_bytes_def

lemmas flat_rules = flat_then flat_byte flat_slice flat_usize flat_raw flat_done

lemmas state_codec_defs = ser_versioned_def ser_chain_states_def ser_merkle_map_def ser_chain_state_def
  ser_chain_config_def ser_btree_map_def ser_btree_set_def ser_pair_def ser_asset_config_def ser_bridge_contract_def ser_pending_action_def
  ser_approvals_def ser_sigrec_def ser_recid_def ser_signature_def ser_option_def ser_pending_event_def ser_public_key_def
  ser_balances_def ser_decimal_def ser_accounts_def ser_account_def ser_admin_state_def ser_pending_proposal_def ser_validator_set_def
  ser_proposal_payload_def ser_tagged_json_def ser_string_def ser_leaf_def ser_entry_def id_codecs ser_word_def ser_array_Cons ser_array_Nil

lemma sample_parts_flat:
  "flat 100 (ser_validator_set (codec_set 7))"
  "flat 1000 (ser_chain_states sample_state_env [(EthereumLocal, sample_chain_state)])"
  "flat 1000 (ser_accounts length_codec sample_accounts)"
  "flat 1000 (ser_admin_state (fs_admin (sample_framework_state v)))"
proof -
  have json: "ser_json (sx_event_json sample_state_env) e = store_slice [7]" for e
    by (rule ext) (simp add: ser_json_def sample_state_env_def)
  have env: "sx_codec sample_state_env = length_codec" by (simp add: sample_state_env_def)
  have dec: "ce_dec_bytes length_codec d = replicate 16 0" for d by (simp add: length_codec_def sample_codec_def)
  show "flat 100 (ser_validator_set (codec_set 7))"
    by (rule flat_le, simp add: state_codec_defs codec_set_def, (rule flat_rules | (simp add: lengths; fail))+)
  show "flat 1000 (ser_accounts length_codec sample_accounts)"
    by (rule flat_le, simp add: state_codec_defs sample_accounts_def trie_of_single dec, (rule flat_rules | (simp add: lengths; fail))+)
  show "flat 1000 (ser_admin_state (fs_admin (sample_framework_state v)))"
    by (rule flat_le, simp add: state_codec_defs sample_framework_state_def, (rule flat_rules | (simp add: lengths; fail))+)
  show "flat 1000 (ser_chain_states sample_state_env [(EthereumLocal, sample_chain_state)])"
    by (rule flat_le, simp add: state_codec_defs sample_chain_state_def trie_of_single key_chain_lengths dec env json,
      (rule flat_rules | (simp add: lengths; fail))+)
qed

text \<open>The bytes of the state before the version at its end.\<close>

lemma sample_state_bytes:
  "\<exists>bs. length bs < 2 ^ 60 \<and> (\<forall>v. emits (ser_framework_state sample_state_env (sample_framework_state v))
     (bs @ usize_bytes (length v) @ str_bytes v) [])"
proof -
  obtain b1 b2 b3 b4 where b: "emits (ser_validator_set (codec_set 7)) b1 []" "length b1 \<le> 100"
      "emits (ser_chain_states sample_state_env [(EthereumLocal, sample_chain_state)]) b2 []" "length b2 \<le> 1000"
      "emits (ser_accounts length_codec sample_accounts) b3 []" "length b3 \<le> 1000"
      "emits (ser_admin_state (fs_admin (sample_framework_state []))) b4 []" "length b4 \<le> 1000"
    using sample_parts_flat(1-3) sample_parts_flat(4) [of "[]"] unfolding flat_def by blast
  have z: "emits (store_usize 0) (usize_bytes 0) []" by (simp add: emits_def store_usize_bytes)
  have env: "sx_codec sample_state_env = length_codec" by (simp add: sample_state_env_def)
  have "emits (ser_framework_state sample_state_env (sample_framework_state v))
      ((usize_bytes 0 @ b1 @ b2 @ b3 @ b4) @ usize_bytes (length v) @ str_bytes v) []" for v
  proof -
    have p: "fs_validator_set (sample_framework_state v) = codec_set 7" "fs_chains (sample_framework_state v) = [(EthereumLocal, sample_chain_state)]"
      "fs_accounts (sample_framework_state v) = sample_accounts" "fs_version (sample_framework_state v) = v"
      "fs_admin (sample_framework_state v) = fs_admin (sample_framework_state [])"
      by (simp_all add: sample_framework_state_def)
    have "emits (ser_string v) (usize_bytes (length v) @ str_bytes v) []"
      using emits_slice [of "str_bytes v"] by (simp add: ser_string_def str_bytes_def)
    from emits_then [OF z emits_then [OF b(1) emits_then [OF b(3) emits_then [OF b(5) emits_then [OF b(7) this]]]]]
    show ?thesis by (simp add: ser_framework_state_def ser_versioned_def p env)
  qed
  moreover have "length (usize_bytes 0 @ b1 @ b2 @ b3 @ b4) < 2 ^ 60" using b usize_encoding_length [of 0] by simp
  ultimately show ?thesis by blast
qed

theorem framework_state_hash_commits_witness:
  "\<exists>c d. serialize (ser_framework_state sample_state_env) (sample_framework_state ''1'') = Inr c \<and>
     serialize (ser_framework_state sample_state_env) (sample_framework_state ''10'') = Inr d \<and>
     deserialize (de_framework_state sample_state_env) c = Inr (sample_framework_state ''1'') \<and>
     contents_hash (ce_sha length_codec) c \<noteq> contents_hash (ce_sha length_codec) d"
proof -
  obtain bs where bs: "length bs < 2 ^ 60"
      "\<And>v. serialize (ser_framework_state sample_state_env) (sample_framework_state v) = Inr (Contents (bs @ usize_bytes (length v) @ str_bytes v) [])"
    using sample_state_bytes serialize_emits by metis
  let ?c = "\<lambda>v. Contents (bs @ usize_bytes (length v) @ str_bytes v) []"
  have env: "sx_codec sample_state_env = length_codec" by (simp add: sample_state_env_def)
  have len: "length (usize_bytes 1) = 1" "length (usize_bytes (Suc (Suc 0))) = 1" by (simp_all add: usize_bytes_marked)
  have "(of_nat (length bs + 2) :: u8) \<noteq> of_nat (length bs + 3)" by simp
  then have w: "content_world (ce_sha (sx_codec sample_state_env)) {?c ''1'', ?c ''10''}"
    using bs(1) len by (simp add: content_world_def env length_codec_def str_bytes_def)
  have ne: "sample_framework_state ''1'' \<noteq> sample_framework_state ''10''" by (simp add: sample_framework_state_def)
  have ok: "ok_string ''1''" "ok_string ''10''" by (simp_all add: ok_string_def str_bytes_def)
  show ?thesis
    using framework_state_hash_commits [OF w sample_state_ok [OF ok(1)] bs(2) _ sample_state_ok [OF ok(2)] bs(2)] bs(2) ne
    unfolding env by blast
qed

text \<open>Two accounts with the same wallet.\<close>

definition twin_accounts :: "int accounts" where
  "twin_accounts = \<lparr>accts = [(0, \<lparr>assets = [], wallets = [''w''], pubkeys = [], next_nonce = 0\<rparr>),
     (1, \<lparr>assets = [], wallets = [''w''], pubkeys = [], next_nonce = 0\<rparr>)], wallet_ix = [], pubkey_ix = []\<rparr>"

theorem stored_accounts_load_iff_witness:
  "\<exists>c. serialize (ser_accounts length_codec) twin_accounts = Inr c \<and> (\<forall>B. deserialize (de_accounts length_codec) c \<noteq> Inr B)"
proof -
  have "sorted_wrt (<) [key_account_id 0, key_account_id 1]" by (simp add: key_account_id_def u64_key.key_order)
  then have t: "trie_of key_account_id (accts twin_accounts) = Leaf (map (\<lambda>e. \<lparr>le_key_bytes = key_account_id (fst e), le_key = fst e, le_value = snd e\<rparr>) (accts twin_accounts))"
    by (intro trie_of_leaf) (simp_all add: twin_accounts_def)
  have dec: "ce_dec_bytes length_codec d = replicate 16 0" for d by (simp add: length_codec_def sample_codec_def)
  have "flat 1000 (ser_merkle_map (ce_sha length_codec) key_account_id (ser_account length_codec) (accts twin_accounts))"
    unfolding ser_merkle_map_def t
    by (rule flat_le, simp add: state_codec_defs twin_accounts_def dec, (rule flat_rules | (simp add: lengths; fail))+)
  then have "flat (10 + 1000) (ser_accounts length_codec twin_accounts)"
    unfolding ser_accounts_def ser_versioned_def by (intro flat_then flat_usize) simp_all
  then obtain bs where bs: "emits (ser_accounts length_codec twin_accounts) bs []" "length bs \<le> 1010" by (auto simp: flat_def)
  have w: "content_world (ce_sha length_codec) {Contents bs []}"
    using bs(2) by (simp add: content_world_def length_codec_def)
  have ok: "om_wf (accts twin_accounts)" "length (accts twin_accounts) < 2 ^ 64"
      "\<forall>e \<in> set (accts twin_accounts). ok_account length_codec (snd e)"
    by (simp_all add: twin_accounts_def om_wf_def ok_account_def ok_balances_def ok_key_set_def os_wf_def ok_string_def str_bytes_def)
  have "''w'' \<in> old_keys (accts twin_accounts) 0 wallets" "''w'' \<in> old_keys (accts twin_accounts) 1 wallets"
    by (simp_all add: old_keys_def twin_accounts_def)
  then have "\<not> owns (accts twin_accounts) wallets" unfolding owns_def using zero_neq_one by blast
  moreover have "serialize (ser_accounts length_codec) twin_accounts = Inr (Contents bs [])" using serialize_emits [of "ser_accounts length_codec", OF bs(1)] .
  ultimately show ?thesis
    using stored_accounts_load_iff [OF w ok _ insertI1] by blast
qed

end
