(* ===== verification/Import_Export.thy ===== *)
theory Import_Export
  imports Chain Merkle_Keys
begin

text \<open>
  Moving a chain between nodes: export to a file and import from it (\<open>core/kolme/import_export.rs\<close>), and copying
  from another node's store (\<open>Kolme::ingest_blocks_from\<close>).  A file is the list of its bytes; what a failed
  export has written is not modelled.  JSON printing and parsing of blocks are parameters.
\<close>

section \<open>Writing\<close>

definition too_large :: "'d chain_error" where
  "too_large = CeKolme (Anyhow ''out of range integral type conversion attempted'')"

definition write_u32 :: "nat \<Rightarrow> 'd chain_error + bytes" where
  "write_u32 n = (if n < 2 ^ 32 then Inr (to_be_bytes (of_nat n :: u32)) else Inl too_large)"

definition write_layer :: "hash \<Rightarrow> layer \<Rightarrow> hash set \<Rightarrow> bytes \<Rightarrow> 'd chain_error + bytes \<times> hash set" where
  "write_layer h l written dest =
     rbind (write_u32 (length (l_payload l))) (\<lambda>n.
     rbind (write_u32 (length (l_children l))) (\<lambda>m.
     rbind (rfold (\<lambda>child d. rbind (ensure (child \<in> written) (CeKolme (Anyhow ''its child is not yet written''))) (\<lambda>_. Inr (d @ child)))
       (l_children l) (dest @ [0] @ n @ l_payload l @ m)) (\<lambda>d.
       Inr (d, insert h written))))"

definition write_block :: "(('d, 'm) signed_block \<Rightarrow> bytes option) \<Rightarrow> ('d, 'm) signed_block \<Rightarrow> bytes \<Rightarrow> 'd chain_error + bytes" where
  "write_block to_json b dest =
     rbind (ok_or (to_json b) (CeKolme (Anyhow ''json''))) (\<lambda>js.
     rbind (write_u32 (length js)) (\<lambda>n. Inr (dest @ [1] @ n @ js)))"

text \<open>The work queue is a stack, its top first.\<close>

datatype export_work = ExProcess hash | ExWrite hash layer

partial_function (option) export_loop ::
  "('d, 'm, 's, 'st, 'c, 'ct, 'cb) kenv \<Rightarrow> ('d, 'm, 's, 'st, 'c, 'ct, 'cb) kolme \<Rightarrow> export_work list \<Rightarrow> hash set \<Rightarrow> bytes \<Rightarrow>
    ('d chain_error, bytes \<times> hash set) run" where
  "export_loop K k work written dest =
     (case work of
        [] \<Rightarrow> Some (Inr (dest, written))
      | ExProcess h # rest \<Rightarrow>
          if h \<in> written then export_loop K k rest written dest
          else (case ks_get_merkle_layer (kx_store K) (km_store k) h of
                  Inl e \<Rightarrow> Some (Inl (CeMerkle e))
                | Inr None \<Rightarrow> Some (Inl (CeKolme (Anyhow ''Missing layer'')))
                | Inr (Some l) \<Rightarrow>
                    export_loop K k (rev (map ExProcess (filter (\<lambda>child. child \<notin> written) (l_children l))) @ ExWrite h l # rest)
                      written dest)
      | ExWrite h l # rest \<Rightarrow>
          if h \<in> written then export_loop K k rest written dest
          else (case write_layer h l written dest of
                  Inl e \<Rightarrow> Some (Inl e)
                | Inr (dest', written') \<Rightarrow> export_loop K k rest written' dest'))"

definition export_block ::
  "('d, 'm, 's, 'st, 'c, 'ct, 'cb) kenv \<Rightarrow> (('d, 'm) signed_block \<Rightarrow> bytes option) \<Rightarrow> ('d, 'm, 's, 'st, 'c, 'ct, 'cb) kolme \<Rightarrow>
    u64 \<Rightarrow> bytes \<times> hash set \<Rightarrow> ('d chain_error, bytes \<times> hash set) run" where
  "export_block K to_json k height out =
     run_bind (map_option (lift_err CeStore) (ks_load_block (kx_store K) (kx_cache K) (km_store k) height)) (\<lambda>r.
     case r of
       None \<Rightarrow> Some (Inl (CeStore (BlockNotFound height)))
     | Some sb \<Rightarrow>
         (let b = stj_inner (sb_block sb) in
          run_bind (export_loop K k [ExProcess (bk_logs b), ExProcess (bk_app_state b), ExProcess (bk_framework_state b)]
            (snd out) (fst out)) (\<lambda>(dest, written).
          Some (rbind (write_block to_json (sb_block sb) dest) (\<lambda>dest'. Inr (dest', written))))))"

text \<open>\<open>RangeBounds<BlockHeight>\<close>.\<close>

datatype height_bound = Included u64 | Excluded u64 | Unbounded

definition range_contains :: "height_bound \<times> height_bound \<Rightarrow> u64 \<Rightarrow> bool" where
  "range_contains r h \<longleftrightarrow>
     (case fst r of Included s \<Rightarrow> s \<le> h | Excluded s \<Rightarrow> s < h | Unbounded \<Rightarrow> True) \<and>
     (case snd r of Included e \<Rightarrow> h \<le> e | Excluded e \<Rightarrow> h < e | Unbounded \<Rightarrow> True)"

partial_function (option) export_from ::
  "('d, 'm, 's, 'st, 'c, 'ct, 'cb) kenv \<Rightarrow> (('d, 'm) signed_block \<Rightarrow> bytes option) \<Rightarrow> ('d, 'm, 's, 'st, 'c, 'ct, 'cb) kolme \<Rightarrow>
    height_bound \<times> height_bound \<Rightarrow> u64 \<Rightarrow> bytes \<times> hash set \<Rightarrow> ('d chain_error, bytes) run" where
  "export_from K to_json k rng height out =
     (if range_contains rng height
      then (case export_block K to_json k height out of
              None \<Rightarrow> None
            | Some (Inl e) \<Rightarrow> Some (Inl e)
            | Some (Inr out') \<Rightarrow> export_from K to_json k rng (height_next height) out')
      else Some (Inr (fst out)))"

definition export_blocks ::
  "('d, 'm, 's, 'st, 'c, 'ct, 'cb) kenv \<Rightarrow> (('d, 'm) signed_block \<Rightarrow> bytes option) \<Rightarrow> ('d, 'm, 's, 'st, 'c, 'ct, 'cb) kolme \<Rightarrow>
    height_bound \<times> height_bound \<Rightarrow> ('d chain_error, bytes) run" where
  "export_blocks K to_json k rng =
     export_from K to_json k rng (case fst rng of Included s \<Rightarrow> s | Excluded s \<Rightarrow> height_next s | Unbounded \<Rightarrow> 0) ([], {})"

section \<open>Reading\<close>

definition read_exact :: "nat \<Rightarrow> bytes \<Rightarrow> 'd chain_error + bytes \<times> bytes" where
  "read_exact n src = (if n \<le> length src then Inr (take n src, drop n src) else Inl (CeKolme (Anyhow ''unexpected end of file'')))"

definition read_u32 :: "bytes \<Rightarrow> 'd chain_error + nat \<times> bytes" where
  "read_u32 src = rbind (read_exact 4 src) (\<lambda>(bs, rest). Inr (unat (of_le_bytes (rev bs) :: u32), rest))"

fun read_children ::
  "(hash \<Rightarrow> 'd chain_error + bool) \<Rightarrow> hash set \<Rightarrow> nat \<Rightarrow> bytes \<Rightarrow> 'd chain_error + hash list \<times> bytes" where
  "read_children has hashes 0 src = Inr ([], src)"
| "read_children has hashes (Suc n) src =
     rbind (read_exact 32 src) (\<lambda>(child, rest).
     rbind (ensure (child \<in> hashes) (CeKolme (Anyhow ''was not previously written''))) (\<lambda>_.
     rbind (has child) (\<lambda>stored.
     rbind (ensure stored (CeKolme (Anyhow ''not found in Merkle store''))) (\<lambda>_.
     rbind (read_children has hashes n rest) (\<lambda>(children, rest'). Inr (child # children, rest'))))))"

definition import_layer ::
  "('d, 'm, 's, 'st, 'c, 'ct, 'cb) kenv \<Rightarrow> hash set \<Rightarrow> bytes \<Rightarrow> ('d, 'm, 's, 'st, 'c, 'ct, 'cb) kolme \<Rightarrow>
    'd chain_error + bytes \<times> hash set \<times> ('d, 'm, 's, 'st, 'c, 'ct, 'cb) kolme" where
  "import_layer K hashes src k =
     rbind (read_u32 src) (\<lambda>(payload_len, src1).
     rbind (read_exact payload_len src1) (\<lambda>(payload, src2).
     rbind (read_u32 src2) (\<lambda>(children_len, src3).
     rbind (read_children (\<lambda>h. lift_err CeMerkle (ks_has_merkle_hash (kx_store K) (km_store k) h)) hashes children_len src3)
       (\<lambda>(children, src4).
     rbind (lift_err CeMerkle (ks_add_merkle_layer (kx_store K) \<lparr>l_payload = payload, l_children = children\<rparr> (km_store k))) (\<lambda>s.
       Inr (src4, insert (kx_sha K payload) hashes, k\<lparr>km_store := s\<rparr>))))))"

definition import_block ::
  "('d, 'm, 's, 'st, 'c, 'ct, 'cb) kenv \<Rightarrow> (bytes \<Rightarrow> ('d, 'm) signed_block option) \<Rightarrow> bytes \<Rightarrow>
    ('d, 'm, 's, 'st, 'c, 'ct, 'cb) kolme \<Rightarrow> ('d chain_error + bytes) \<times> ('d, 'm, 's, 'st, 'c, 'ct, 'cb) kolme" where
  "import_block K of_json src k =
     (case rbind (read_u32 src) (\<lambda>(len, src1).
           rbind (read_exact len src1) (\<lambda>(bs, src2).
           rbind (ok_or (of_json bs) (CeKolme (Anyhow ''json''))) (\<lambda>b.
           rbind (lift_err CeStore (ks_has_block (kx_store K) (kx_cache K) (km_store k) (block_height b))) (\<lambda>known.
             Inr (b, known, src2))))) of
        Inl e \<Rightarrow> (Inl e, k)
      | Inr (b, known, src2) \<Rightarrow>
          if known then (Inr src2, k)
          else (case add_block_with_state K b k of (Inl e, k') \<Rightarrow> (Inl e, k') | (Inr _, k') \<Rightarrow> (Inr src2, k')))"

partial_function (option) import_loop ::
  "('d, 'm, 's, 'st, 'c, 'ct, 'cb) kenv \<Rightarrow> (bytes \<Rightarrow> ('d, 'm) signed_block option) \<Rightarrow> hash set \<Rightarrow> bytes \<Rightarrow>
    ('d, 'm, 's, 'st, 'c, 'ct, 'cb) kolme \<Rightarrow> ('d, 'm, 's, 'st, 'c, 'ct, 'cb) outcome option" where
  "import_loop K of_json hashes src k =
     (case src of
        [] \<Rightarrow> map_option (\<lambda>r. case r of Inl e \<Rightarrow> (Inl e, k) | Inr k' \<Rightarrow> (Inr (), k')) (resync K k)
      | b # rest \<Rightarrow>
          if b = 0
          then (case import_layer K hashes rest k of
                  Inl e \<Rightarrow> Some (Inl e, k)
                | Inr (rest', hashes', k') \<Rightarrow> import_loop K of_json hashes' rest' k')
          else if b = 1
          then (case import_block K of_json rest k of
                  (Inl e, k') \<Rightarrow> Some (Inl e, k')
                | (Inr rest', k') \<Rightarrow> import_loop K of_json hashes rest' k')
          else Some (Inl (CeKolme (Anyhow ''Import blocks failed, found unexpected byte'')), k))"

definition import_blocks ::
  "('d, 'm, 's, 'st, 'c, 'ct, 'cb) kenv \<Rightarrow> (bytes \<Rightarrow> ('d, 'm) signed_block option) \<Rightarrow> bytes \<Rightarrow>
    ('d, 'm, 's, 'st, 'c, 'ct, 'cb) kolme \<Rightarrow> ('d, 'm, 's, 'st, 'c, 'ct, 'cb) outcome option" where
  "import_blocks K of_json src k = import_loop K of_json {} src k"

section \<open>Copying from another node\<close>

definition ingest_states ::
  "('d, 'm, 's, 'st, 'c, 'ct, 'cb) kenv \<Rightarrow> ('d, 'm, 's, 'st2, 'c2, 'ct2, 'cb2) kenv \<Rightarrow> ('st2, 'c2) kolme_store \<Rightarrow> ('d, 'm) block \<Rightarrow>
    ('st, 'c) kolme_store \<Rightarrow> ('d chain_error, ('st, 'c) kolme_store) run" where
  "ingest_states K J other b s =
     (let ingest = (\<lambda>h s. map_option (lift_err CeMerkle) (ingest_layer_from (kx_store K) (kx_store J) (kx_sha K) other h s))
      in run_bind (ingest (bk_framework_state b) s) (\<lambda>s1.
         run_bind (ingest (bk_app_state b) s1) (\<lambda>s2.
           ingest (bk_logs b) s2)))"

partial_function (option) ingest_blocks_from ::
  "('d, 'm, 's, 'st, 'c, 'ct, 'cb) kenv \<Rightarrow> ('d, 'm, 's, 'st2, 'c2, 'ct2, 'cb2) kenv \<Rightarrow> ('st2, 'c2) kolme_store \<Rightarrow>
    ('d, 'm, 's, 'st, 'c, 'ct, 'cb) kolme \<Rightarrow> ('d, 'm, 's, 'st, 'c, 'ct, 'cb) outcome option" where
  "ingest_blocks_from K J other k =
     (case get_next_to_archive (kx_store K) (kx_cache K) (km_store k) of
        None \<Rightarrow> None
      | Some (Inl e, s) \<Rightarrow> Some (Inl (CeStore e), k\<lparr>km_store := s\<rparr>)
      | Some (Inr to_archive, s) \<Rightarrow>
          (case ks_load_block (kx_store J) (kx_cache J) other to_archive of
             None \<Rightarrow> None
           | Some (Inl e) \<Rightarrow> Some (Inl (CeStore e), k\<lparr>km_store := s\<rparr>)
           | Some (Inr None) \<Rightarrow>
               map_option (\<lambda>r. case r of Inl e \<Rightarrow> (Inl e, k\<lparr>km_store := s\<rparr>) | Inr k' \<Rightarrow> (Inr (), k')) (resync K (k\<lparr>km_store := s\<rparr>))
           | Some (Inr (Some sb)) \<Rightarrow>
               (case ingest_states K J other (stj_inner (sb_block sb)) s of
                  None \<Rightarrow> None
                | Some (Inl e) \<Rightarrow> Some (Inl e, k\<lparr>km_store := s\<rparr>)
                | Some (Inr s') \<Rightarrow>
                    (case add_block_with_state K (sb_block sb) (k\<lparr>km_store := s'\<rparr>) of
                       (Inl e, k') \<Rightarrow> Some (Inl e, k')
                     | (Inr _, k') \<Rightarrow> ingest_blocks_from K J other k'))))"

end
