(* ===== verification/Import_Props.thy ===== *)
theory Import_Props
  imports Import_Export Node_Props Sync_Props
begin

text \<open>
  What an export writes is what an import reads: every exported file is the encoding of a list of layers and blocks,
  each layer after its children and each block after its states, and importing the file is adding these one by one.
\<close>

section \<open>Files as lists of items\<close>

datatype ('d, 'm) item = LayerItem layer | BlockItem "('d, 'm) signed_block"

fun item_bytes :: "(('d, 'm) signed_block \<Rightarrow> bytes option) \<Rightarrow> ('d, 'm) item \<Rightarrow> bytes" where
  "item_bytes to_json (LayerItem l) = 0 # to_be_bytes (of_nat (length (l_payload l)) :: u32) @ l_payload l @
     to_be_bytes (of_nat (length (l_children l)) :: u32) @ concat (l_children l)"
| "item_bytes to_json (BlockItem b) = (case to_json b of
     None \<Rightarrow> []
   | Some js \<Rightarrow> 1 # to_be_bytes (of_nat (length js) :: u32) @ js)"

definition file_bytes :: "(('d, 'm) signed_block \<Rightarrow> bytes option) \<Rightarrow> ('d, 'm) item list \<Rightarrow> bytes" where
  "file_bytes to_json items = concat (map (item_bytes to_json) items)"

fun item_ok :: "(('d, 'm) signed_block \<Rightarrow> bytes option) \<Rightarrow> ('d, 'm) item \<Rightarrow> bool" where
  "item_ok to_json (LayerItem l) \<longleftrightarrow> length (l_payload l) < 2 ^ 32 \<and> length (l_children l) < 2 ^ 32 \<and> (\<forall>ch \<in> set (l_children l). length ch = 32)"
| "item_ok to_json (BlockItem b) \<longleftrightarrow> (\<exists>js. to_json b = Some js \<and> length js < 2 ^ 32)"

fun item_hashes :: "(bytes \<Rightarrow> hash) \<Rightarrow> ('d, 'm) item \<Rightarrow> hash set" where
  "item_hashes sha (LayerItem l) = {layer_hash sha l}"
| "item_hashes sha (BlockItem b) = {}"

text \<open>Children come before their parents, states before their blocks.\<close>

fun closed_items :: "(bytes \<Rightarrow> hash) \<Rightarrow> hash set \<Rightarrow> ('d, 'm) item list \<Rightarrow> bool" where
  "closed_items sha known [] \<longleftrightarrow> True"
| "closed_items sha known (LayerItem l # items) \<longleftrightarrow> set (l_children l) \<subseteq> known \<and> closed_items sha (insert (layer_hash sha l) known) items"
| "closed_items sha known (BlockItem b # items) \<longleftrightarrow> block_roots b \<subseteq> known \<and> closed_items sha known items"

text \<open>Adding the items one by one.\<close>

fun import_items ::
  "('d, 'm, 's, 'st, 'c, 'ct, 'cb) kenv \<Rightarrow> ('d, 'm) item list \<Rightarrow> ('d, 'm, 's, 'st, 'c, 'ct, 'cb) kolme \<Rightarrow>
    ('d, 'm, 's, 'st, 'c, 'ct, 'cb) outcome option" where
  "import_items K [] k = map_option (\<lambda>r. case r of Inl e \<Rightarrow> (Inl e, k) | Inr k' \<Rightarrow> (Inr (), k')) (resync K k)"
| "import_items K (LayerItem l # items) k =
     (case rbind (rfold (\<lambda>child _. rbind (lift_err CeMerkle (ks_has_merkle_hash (kx_store K) (km_store k) child)) (\<lambda>stored.
             ensure stored (CeKolme (Anyhow ''not found in Merkle store'')))) (l_children l) ()) (\<lambda>_.
           lift_err CeMerkle (ks_add_merkle_layer (kx_store K) l (km_store k))) of
        Inl e \<Rightarrow> Some (Inl e, k)
      | Inr s \<Rightarrow> import_items K items (k\<lparr>km_store := s\<rparr>))"
| "import_items K (BlockItem b # items) k =
     (case lift_err CeStore (ks_has_block (kx_store K) (kx_cache K) (km_store k) (block_height b)) of
        Inl e \<Rightarrow> Some (Inl e, k)
      | Inr known \<Rightarrow>
          if known then import_items K items k
          else (case add_block_with_state K b k of (Inl e, k') \<Rightarrow> Some (Inl e, k') | (Inr _, k') \<Rightarrow> import_items K items k'))"

section \<open>Reading\<close>

lemma read_written_u32:
  assumes "n < 2 ^ 32"
  shows "read_u32 (to_be_bytes (of_nat n :: u32) @ rest) = (Inr (n, rest) :: 'd chain_error + _)"
proof -
  have len: "length (to_be_bytes (of_nat n :: u32)) = 4" by (simp add: to_be_bytes_def length_to_le_bytes)
  have "unat (of_le_bytes (rev (to_be_bytes (of_nat n :: u32))) :: u32) = n"
    using assms of_to_le_bytes [where n = 4 and w = "of_nat n :: u32"] by (simp add: to_be_bytes_def unat_of_nat_small)
  then show ?thesis by (simp add: read_u32_def read_exact_def len)
qed

lemma read_exact_append: "read_exact (length bs) (bs @ rest) = Inr (bs, rest)"
  by (simp add: read_exact_def)

lemma read_written_children:
  assumes "\<forall>ch \<in> set cs. length ch = 32 \<and> ch \<in> known"
  shows "read_children has known (length cs) (concat cs @ rest) =
    rbind (rfold (\<lambda>child _. rbind (has child) (\<lambda>stored. ensure stored (CeKolme (Anyhow ''not found in Merkle store'')))) cs ())
      (\<lambda>_. Inr (cs, rest))"
  using assms
proof (induction cs)
  case (Cons c cs)
  have "read_exact 32 (c @ concat cs @ rest) = (Inr (c, concat cs @ rest) :: 'a chain_error + _)"
    using Cons.prems read_exact_append [of c] by simp
  then show ?case using Cons by (auto simp: ensure_def rbind_def split: sum.splits)
qed simp

lemma import_written_layer:
  assumes "length (l_payload l) < 2 ^ 32" "length (l_children l) < 2 ^ 32" "\<forall>ch \<in> set (l_children l). length ch = 32 \<and> ch \<in> known"
  shows "import_layer K known (to_be_bytes (of_nat (length (l_payload l)) :: u32) @ l_payload l @
      to_be_bytes (of_nat (length (l_children l)) :: u32) @ concat (l_children l) @ rest) k =
    rbind (rfold (\<lambda>child _. rbind (lift_err CeMerkle (ks_has_merkle_hash (kx_store K) (km_store k) child)) (\<lambda>stored.
        ensure stored (CeKolme (Anyhow ''not found in Merkle store'')))) (l_children l) ()) (\<lambda>_.
      rbind (lift_err CeMerkle (ks_add_merkle_layer (kx_store K) l (km_store k))) (\<lambda>s.
        Inr (rest, insert (layer_hash (kx_sha K) l) known, k\<lparr>km_store := s\<rparr>)))"
proof (cases l)
  case (fields p cs)
  have ok: "length p < 2 ^ 32" "length cs < 2 ^ 32" "\<forall>ch \<in> set cs. length ch = 32 \<and> ch \<in> known" using assms by (simp_all add: fields)
  show ?thesis
    by (simp add: fields import_layer_def read_written_u32 [OF ok(1)] read_written_u32 [OF ok(2)] read_exact_append
        read_written_children [OF ok(3)] layer_hash_def)
      (simp add: rbind_def split: sum.split)
qed

lemma import_written_block:
  assumes "length js < 2 ^ 32" "of_json js = Some b"
  shows "import_block K of_json (to_be_bytes (of_nat (length js) :: u32) @ js @ rest) k =
    (case lift_err CeStore (ks_has_block (kx_store K) (kx_cache K) (km_store k) (block_height b)) of
       Inl e \<Rightarrow> (Inl e, k)
     | Inr known \<Rightarrow> if known then (Inr rest, k)
         else (case add_block_with_state K b k of (Inl e, k') \<Rightarrow> (Inl e, k') | (Inr _, k') \<Rightarrow> (Inr rest, k')))"
  by (simp add: import_block_def read_written_u32 [OF assms(1)] read_exact_append assms(2) split: sum.split)

lemma import_written:
  assumes json: "\<forall>b js. to_json b = Some js \<longrightarrow> of_json js = Some b"
    and "closed_items (kx_sha K) known items" "\<forall>i \<in> set items. item_ok to_json i"
  shows "import_loop K of_json known (file_bytes to_json items) k = import_items K items k"
  using assms(2,3)
proof (induction items arbitrary: known k)
  case Nil
  then show ?case by (subst import_loop.simps) (simp add: file_bytes_def)
next
  case (Cons i items)
  let ?rest = "file_bytes to_json items"
  show ?case
  proof (cases i)
    case (LayerItem l)
    have ok: "length (l_payload l) < 2 ^ 32" "length (l_children l) < 2 ^ 32" "\<forall>ch \<in> set (l_children l). length ch = 32 \<and> ch \<in> known"
      "closed_items (kx_sha K) (insert (layer_hash (kx_sha K) l) known) items" "\<forall>i \<in> set items. item_ok to_json i"
      using Cons.prems by (auto simp: LayerItem)
    note ih = Cons.IH [OF ok(4,5)] and layer = import_written_layer [OF ok(1-3), of K ?rest k]
    have "file_bytes to_json (i # items) = 0 # to_be_bytes (of_nat (length (l_payload l)) :: u32) @ l_payload l @
        to_be_bytes (of_nat (length (l_children l)) :: u32) @ concat (l_children l) @ ?rest"
      by (simp add: LayerItem file_bytes_def)
    then show ?thesis
      by (subst import_loop.simps) (simp add: LayerItem layer ih rbind_def split: sum.split)
  next
    case (BlockItem b)
    obtain js where js: "to_json b = Some js" "length js < 2 ^ 32" using Cons.prems by (auto simp: BlockItem)
    have ok: "closed_items (kx_sha K) known items" "\<forall>i \<in> set items. item_ok to_json i" using Cons.prems by (auto simp: BlockItem)
    note ih = Cons.IH [OF ok] and block = import_written_block [OF js(2), of of_json b K ?rest k]
    have "file_bytes to_json (i # items) = 1 # to_be_bytes (of_nat (length js) :: u32) @ js @ ?rest"
      by (simp add: BlockItem file_bytes_def js(1))
    then show ?thesis using json js(1)
      by (subst import_loop.simps) (simp add: BlockItem block ih split: sum.split prod.split)
  qed
qed

section \<open>Writing\<close>

lemma write_u32_Inr: "write_u32 n = Inr bs \<longleftrightarrow> n < 2 ^ 32 \<and> bs = to_be_bytes (of_nat n :: u32)"
  by (auto simp: write_u32_def)

lemma write_children:
  "rfold (\<lambda>child d. rbind (ensure (child \<in> written) e) (\<lambda>_. Inr (d @ child))) cs dest = Inr dest' \<longleftrightarrow>
    set cs \<subseteq> written \<and> dest' = dest @ concat cs"
  by (induction cs arbitrary: dest) (auto simp: result_simps ensure_def)

lemma write_layer_Inr:
  assumes "write_layer h l written dest = Inr (dest', written')" "\<forall>ch \<in> set (l_children l). length ch = 32"
  shows "dest' = dest @ item_bytes to_json (LayerItem l) \<and> written' = insert h written \<and> set (l_children l) \<subseteq> written \<and>
    item_ok to_json (LayerItem l)"
  using assms by (auto simp: write_layer_def result_simps write_u32_Inr write_children)

fun work_hash :: "export_work \<Rightarrow> hash" where
  "work_hash (ExProcess h) = h"
| "work_hash (ExWrite h l) = h"

text \<open>What the source has under a hash is a layer with that hash.\<close>

definition layers_sound :: "('d, 'm, 's, 'st, 'c, 'ct, 'cb) kenv \<Rightarrow> ('d, 'm, 's, 'st, 'c, 'ct, 'cb) kolme \<Rightarrow> bool" where
  "layers_sound K k \<longleftrightarrow> (\<forall>h l. length h = 32 \<longrightarrow> ks_get_merkle_layer (kx_store K) (km_store k) h = Inr (Some l) \<longrightarrow>
     layer_hash (kx_sha K) l = h \<and> (\<forall>ch \<in> set (l_children l). length ch = 32))"

fun work_ok :: "('d, 'm, 's, 'st, 'c, 'ct, 'cb) kenv \<Rightarrow> ('d, 'm, 's, 'st, 'c, 'ct, 'cb) kolme \<Rightarrow> export_work \<Rightarrow> bool" where
  "work_ok K k (ExProcess h) \<longleftrightarrow> length h = 32"
| "work_ok K k (ExWrite h l) \<longleftrightarrow> length h = 32 \<and> ks_get_merkle_layer (kx_store K) (km_store k) h = Inr (Some l)"

definition exported_layers ::
  "('d, 'm, 's, 'st, 'c, 'ct, 'cb) kenv \<Rightarrow> ('d, 'm, 's, 'st, 'c, 'ct, 'cb) kolme \<Rightarrow> (('d, 'm) signed_block \<Rightarrow> bytes option) \<Rightarrow>
    hash set \<Rightarrow> layer list \<Rightarrow> bool" where
  "exported_layers K k to_json written ls \<longleftrightarrow> closed_items (kx_sha K) written (map LayerItem ls :: ('d, 'm) item list) \<and>
     (\<forall>l \<in> set ls. item_ok to_json (LayerItem l) \<and>
        ks_get_merkle_layer (kx_store K) (km_store k) (layer_hash (kx_sha K) l) = Inr (Some l))"


lemma closed_items_append:
  "closed_items sha known (xs @ ys) \<longleftrightarrow> closed_items sha known xs \<and> closed_items sha (known \<union> \<Union> (item_hashes sha ` set xs)) ys"
  by (induction sha known xs rule: closed_items.induct) auto

lemma layer_item_hashes [simp]: "\<Union> (item_hashes sha ` set (map LayerItem ls)) = layer_hash sha ` set ls"
  by auto

lemma file_bytes_simps [simp]:
  "file_bytes to_json [] = []" "file_bytes to_json (i # is) = item_bytes to_json i @ file_bytes to_json is"
  "file_bytes to_json (is @ js) = file_bytes to_json is @ file_bytes to_json js"
  by (simp_all add: file_bytes_def)

lemma export_loop_items:
  fixes K :: "('a, 'm, 's, 'st, 'c, 'ct, 'cb) kenv"
  assumes ret: "export_loop K k work written dest = Some (Inr (dest', written'))"
    and sound: "layers_sound K k" and work: "\<forall>x \<in> set work. work_ok K k x"
  shows "\<exists>ls. dest' = dest @ file_bytes to_json (map LayerItem ls) \<and> written' = written \<union> layer_hash (kx_sha K) ` set ls \<and>
    exported_layers K k to_json written ls \<and> work_hash ` set work \<subseteq> written'"
proof -
  let ?Q = "\<lambda>work written dest dest' written' ls. dest' = dest @ file_bytes to_json (map LayerItem ls) \<and>
      written' = written \<union> layer_hash (kx_sha K) ` set ls \<and> exported_layers K k to_json written ls \<and> work_hash ` set work \<subseteq> written'"
  let ?P = "\<lambda>K' k' work written dest r. K' = K \<longrightarrow> k' = k \<longrightarrow> (\<forall>x \<in> set work. work_ok K k x) \<longrightarrow>
    (\<forall>dest' written'. (r :: 'a chain_error + _) = Inr (dest', written') \<longrightarrow> (\<exists>ls. ?Q work written dest dest' written' ls))"
  have "?P K k work written dest (Inr (dest', written'))"
  proof (rule export_loop.raw_induct [where P = ?P, OF _ ret], intro impI allI, goal_cases)
    case (1 loop K' k' work written dest r dest' written')
    note IH = 1(1) and body = 1(2) and K = 1(3,4) and work = 1(5) and r = 1(6)
    note step = IH [THEN mp, OF _ refl, THEN mp, OF _ refl, THEN mp, THEN spec, THEN spec, THEN mp, OF _ _ refl]
    show ?case
    proof (cases work)
      case Nil
      then show ?thesis using body r by (intro exI [of _ "[]"]) (simp add: exported_layers_def)
    next
      case (Cons x rest)
      have rest: "\<forall>x \<in> set rest. work_ok K k x" using work Cons by simp
      show ?thesis
      proof (cases "work_hash x \<in> written")
        case True
        then have "loop K k rest written dest = Some (Inr (dest', written'))" using body r K Cons by (cases x) simp_all
        from step [OF this rest] show ?thesis using True Cons by auto
      next
        case False
        show ?thesis
        proof (cases x)
          case (ExProcess h)
          have h: "length h = 32" using work Cons ExProcess by simp
          obtain l where l: "ks_get_merkle_layer (kx_store K) (km_store k) h = Inr (Some l)"
              "loop K k (rev (map ExProcess (filter (\<lambda>child. child \<notin> written) (l_children l))) @ ExWrite h l # rest) written dest
                = Some (Inr (dest', written'))"
            using body r K Cons ExProcess False by (auto split: sum.splits option.splits)
          have "\<forall>ch \<in> set (l_children l). length ch = 32" using sound h l(1) unfolding layers_sound_def by blast
          then have "\<forall>x \<in> set (rev (map ExProcess (filter (\<lambda>child. child \<notin> written) (l_children l))) @ ExWrite h l # rest). work_ok K k x"
            using rest h l(1) by auto
          from step [OF l(2) this] show ?thesis using Cons ExProcess by auto
        next
          case (ExWrite h l)
          have l: "length h = 32" "ks_get_merkle_layer (kx_store K) (km_store k) h = Inr (Some l)" using work Cons ExWrite by simp_all
          then have hash: "layer_hash (kx_sha K) l = h" and ch: "\<forall>ch \<in> set (l_children l). length ch = 32"
            using sound unfolding layers_sound_def by blast+
          obtain d w where w: "(write_layer h l written dest :: 'a chain_error + _) = Inr (d, w)" "loop K k rest w d = Some (Inr (dest', written'))"
            using body r K Cons ExWrite False by (auto split: sum.splits)
          note wr = write_layer_Inr [OF w(1) ch, of to_json]
          from step [OF w(2) rest] obtain ls where "?Q rest w d dest' written' ls" by blast
          then have "?Q work written dest dest' written' (l # ls)"
            using wr l hash Cons ExWrite by (auto simp: exported_layers_def)
          then show ?thesis by blast
        qed
      qed
    qed
  qed
  then show ?thesis using work by blast
qed

fun item_blocks :: "('d, 'm) item list \<Rightarrow> ('d, 'm) signed_block list" where
  "item_blocks [] = []"
| "item_blocks (LayerItem l # items) = item_blocks items"
| "item_blocks (BlockItem b # items) = b # item_blocks items"

lemma item_blocks_simps [simp]:
  "item_blocks (xs @ ys) = item_blocks xs @ item_blocks ys" "item_blocks (map LayerItem ls) = []"
proof -
  show "item_blocks (xs @ ys) = item_blocks xs @ item_blocks ys" by (induction xs rule: item_blocks.induct) simp_all
  show "item_blocks (map LayerItem ls) = []" by (induction ls) simp_all
qed

text \<open>The items of a file exported from \<open>k\<close>, after the layers \<open>written\<close>.\<close>

definition exported_items ::
  "('d, 'm, 's, 'st, 'c, 'ct, 'cb) kenv \<Rightarrow> ('d, 'm, 's, 'st, 'c, 'ct, 'cb) kolme \<Rightarrow> (('d, 'm) signed_block \<Rightarrow> bytes option) \<Rightarrow>
    hash set \<Rightarrow> ('d, 'm) item list \<Rightarrow> bool" where
  "exported_items K k to_json written items \<longleftrightarrow> closed_items (kx_sha K) written items \<and> (\<forall>i \<in> set items. item_ok to_json i) \<and>
     (\<forall>l. LayerItem l \<in> set items \<longrightarrow> ks_get_merkle_layer (kx_store K) (km_store k) (layer_hash (kx_sha K) l) = Inr (Some l))"

lemma exported_items_append:
  "exported_items K k to_json written xs \<Longrightarrow> exported_items K k to_json (written \<union> \<Union> (item_hashes (kx_sha K) ` set xs)) ys \<Longrightarrow>
    exported_items K k to_json written (xs @ ys)"
  unfolding exported_items_def by (auto simp: closed_items_append)

lemma export_block_items:
  fixes K :: "('d, 'm, 's, 'st, 'c, 'ct, 'cb) kenv"
  assumes ret: "export_block K to_json k h (dest, written) = Some (Inr (dest', written'))" and sound: "layers_sound K k"
    and load: "ks_load_block (kx_store K) (kx_cache K) (km_store k) h = Some (Inr (f h))"
    and roots: "\<forall>h sb. f h = Some sb \<longrightarrow> (\<forall>r \<in> block_roots (sb_block sb). length r = 32)"
  shows "\<exists>items sb. f h = Some sb \<and> dest' = dest @ file_bytes to_json items \<and>
    written' = written \<union> \<Union> (item_hashes (kx_sha K) ` set items) \<and>
    exported_items K k to_json written items \<and> item_blocks items = [sb_block sb]"
proof -
  obtain sb where sb: "f h = Some sb" using ret load by (cases "f h") (simp_all add: export_block_def)
  let ?b = "stj_inner (sb_block sb)"
  let ?work = "[ExProcess (bk_logs ?b), ExProcess (bk_app_state ?b), ExProcess (bk_framework_state ?b)]"
  obtain d where d: "export_loop K k ?work written dest = Some (Inr (d, written'))"
      "(write_block to_json (sb_block sb) d :: 'd chain_error + bytes) = Inr dest'"
    using ret load sb by (auto simp: export_block_def Let_def run_bind_def result_simps split: option.splits sum.splits)
  have "\<forall>x \<in> set ?work. work_ok K k x" using roots sb by (simp add: block_roots_def)
  from export_loop_items [OF d(1) sound this, of to_json] obtain ls where ls: "d = dest @ file_bytes to_json (map LayerItem ls)"
      "written' = written \<union> layer_hash (kx_sha K) ` set ls" "exported_layers K k to_json written ls"
      "work_hash ` set ?work \<subseteq> written'" by blast
  obtain js where js: "to_json (sb_block sb) = Some js" "length js < 2 ^ 32"
      "dest' = d @ 1 # to_be_bytes (of_nat (length js) :: u32) @ js"
    using d(2) by (auto simp: write_block_def result_simps write_u32_Inr ok_or_def split: option.splits)
  let ?items = "map LayerItem ls @ [BlockItem (sb_block sb)]"
  have "dest' = dest @ file_bytes to_json ?items" using ls(1) js by simp
  moreover have "written' = written \<union> \<Union> (item_hashes (kx_sha K) ` set ?items)" using ls(2) by auto
  moreover have "exported_items K k to_json written ?items"
  proof (rule exported_items_append)
    show "exported_items K k to_json written (map LayerItem ls)" using ls(3) unfolding exported_layers_def exported_items_def by auto
    have "block_roots (sb_block sb) \<subseteq> written'" using ls(4) by (simp add: block_roots_def)
    then show "exported_items K k to_json (written \<union> \<Union> (item_hashes (kx_sha K) ` set (map LayerItem ls))) [BlockItem (sb_block sb)]"
      using js ls(2) by (auto simp: exported_items_def)
  qed
  ultimately show ?thesis using sb by (intro exI [of _ ?items] exI [of _ sb]) simp
qed

fun heights_from :: "u64 \<Rightarrow> nat \<Rightarrow> u64 list" where
  "heights_from h 0 = []"
| "heights_from h (Suc n) = h # heights_from (height_next h) n"

lemma export_from_items:
  fixes K :: "('d, 'm, 's, 'st, 'c, 'ct, 'cb) kenv"
  assumes ret: "export_from K to_json k rng start (dest, written) = Some (Inr bs)" and sound: "layers_sound K k"
    and load: "\<And>h. ks_load_block (kx_store K) (kx_cache K) (km_store k) h = Some (Inr (f h))"
    and roots: "\<forall>h sb. f h = Some sb \<longrightarrow> (\<forall>r \<in> block_roots (sb_block sb). length r = 32)"
  shows "\<exists>items n. bs = dest @ file_bytes to_json items \<and> exported_items K k to_json written items \<and>
    map Some (item_blocks items) = map (map_option sb_block \<circ> f) (heights_from start n) \<and>
    (\<forall>h \<in> set (heights_from start n). range_contains rng h) \<and> \<not> range_contains rng (start + of_nat n)"
proof -
  let ?Q = "\<lambda>start dest written bs items n. bs = dest @ file_bytes to_json items \<and> exported_items K k to_json written items \<and>
    map Some (item_blocks items) = map (map_option sb_block \<circ> f) (heights_from start n) \<and>
    (\<forall>h \<in> set (heights_from start n). range_contains rng h) \<and> \<not> range_contains rng (start + of_nat n)"
  let ?P = "\<lambda>K' to_json' k' rng' start out r. K' = K \<longrightarrow> to_json' = to_json \<longrightarrow> k' = k \<longrightarrow> rng' = rng \<longrightarrow>
    (\<forall>dest written bs. out = (dest, written) \<longrightarrow> (r :: 'd chain_error + bytes) = Inr bs \<longrightarrow>
      (\<exists>items n. ?Q start dest written bs items n))"
  have "?P K to_json k rng start (dest, written) (Inr bs)"
  proof (rule export_from.raw_induct [where P = ?P, OF _ ret], intro impI allI, goal_cases)
    case (1 loop K' to_json' k' rng' start out r dest written bs)
    note IH = 1(1) and body = 1(2) and eqs = 1(3-8)
    show ?case
    proof (cases "range_contains rng start")
      case False
      then have "?Q start dest written bs [] 0" using body eqs by (simp add: exported_items_def)
      then show ?thesis by blast
    next
      case True
      then obtain d w where d: "export_block K to_json k start (dest, written) = Some (Inr (d, w))"
          "loop K to_json k rng (height_next start) (d, w) = Some (Inr bs)"
        using body eqs by (auto split: option.splits sum.splits)
      from export_block_items [where f = f, OF d(1) sound load roots] obtain items sb where i: "f start = Some sb"
          "d = dest @ file_bytes to_json items" "w = written \<union> \<Union> (item_hashes (kx_sha K) ` set items)"
          "exported_items K k to_json written items" "item_blocks items = [sb_block sb]" by blast
      from IH [OF d(2)] obtain items' n where j: "?Q (height_next start) d w bs items' n" by blast
      have "?Q start dest written bs (items @ items') (Suc n)"
      proof (intro conjI)
        show "exported_items K k to_json written (items @ items')"
          using j i(3,4) by (intro exported_items_append) simp_all
      qed (use i(1,2,5) j True in \<open>simp_all add: height_next_def algebra_simps\<close>)
      then show ?thesis by blast
    qed
  qed
  then show ?thesis by simp
qed

section \<open>Nodes on the Fjall store\<close>

lemma concat_chunks: "concat (map (\<lambda>i. take 32 (drop (i * 32) bs)) [0..<n]) = take (n * 32) bs"
proof (induction n)
  case (Suc n)
  have "take (Suc n * 32) bs = take (n * 32) bs @ take 32 (drop (n * 32) bs)" by (simp add: take_add [symmetric] add.commute)
  then show ?case using Suc by simp
qed simp

lemma render_parse: "parse_children bs = Inr cs \<Longrightarrow> render_children cs = bs"
  by (auto simp: parse_children_def render_children_def concat_chunks split: if_splits)

lemma om_insert_again: "om_wf m \<Longrightarrow> om_get m k = Some v \<Longrightarrow> om_insert k v m = m"
  by (rule om_ext) (auto intro: om_wf_insert)

text \<open>Saving a layer that is there changes nothing.\<close>

lemma fjall_save_again:
  assumes "om_wf db" "fjall_load db (layer_hash sha l) = Inr (Some l)"
  shows "fjall_save sha l db = Inr db"
proof -
  let ?h = "layer_hash sha l"
  obtain bs where "om_get db (payload_key ?h) = Some (l_payload l)" "om_get db (children_key ?h) = Some bs"
      "parse_children bs = Inr (l_children l)"
    using assms(2) by (auto simp: fjall_load_def result_simps split: option.splits)
  then show ?thesis using assms(1) by (simp add: fjall_save_def om_insert_again render_parse)
qed

lemma on_fjall_layer:
  assumes "on_fjall K C enc dec B n k f" "length h = 32"
  shows "ks_get_merkle_layer (kx_store K) (km_store k) h = Inr (stored_layers k h)"
proof -
  have "fjall_ok (ks_inner (km_store k))" "kx_store K = fjall_store_ops (kx_sha K) (kx_cached K) enc dec"
    using assms(1) by (auto simp: on_fjall_def ks_repr_def fjall_chain_repr_def fjall_repr_def)
  then show ?thesis using fjall.load [of "ks_inner (km_store k)" h] assms(2)
    by (simp add: ks_get_merkle_layer_def fjall_store_ops_def stored_layers_def)
qed

lemma on_fjall_good: "on_fjall K C enc dec B n k f \<Longrightarrow> good_view (kx_sha K) C (stored_layers k)"
  using fjall_sync.world(2) on_fjallD(2) unfolding stored_layers_def by blast

lemma stored_is_layer_of:
  assumes "on_fjall K C enc dec B n k f" "stored_layers k h = Some l"
  obtains c where "c \<in> C" "l = layer_of (kx_sha K) c" "contents_hash (kx_sha K) c = h"
  using on_fjall_good [OF assms(1)] assms(2) unfolding good_view_def view_of_world_def by blast

lemma layer_hash_of: "layer_hash sha (layer_of sha c) = contents_hash sha c"
  by (simp add: layer_hash_def layer_of_def contents_hash_def)

lemma on_fjall_sound: "on_fjall K C enc dec B n k f \<Longrightarrow> layers_sound K k"
  unfolding layers_sound_def
proof (intro allI impI)
  fix h l assume on: "on_fjall K C enc dec B n k f" and h: "length h = 32"
    and l: "ks_get_merkle_layer (kx_store K) (km_store k) h = Inr (Some l)"
  have "stored_layers k h = Some l" using on_fjall_layer [OF on h] l by simp
  then obtain c where "c \<in> C" "l = layer_of (kx_sha K) c" "contents_hash (kx_sha K) c = h" by (rule stored_is_layer_of [OF on])
  then show "layer_hash (kx_sha K) l = h \<and> (\<forall>ch \<in> set (l_children l). length ch = 32)"
    using on_fjall_world [OF on] by (auto simp: layer_hash_def layer_of_def content_world_def contents_hash_def)
qed

lemma import_adds_layer:
  assumes on: "on_fjall K C enc dec B n t g" and c: "c \<in> C"
    and ch: "\<forall>ch \<in> set (l_children (layer_of (kx_sha K) c)). stored_layers t ch \<noteq> None"
  shows "\<exists>s. ks_add_merkle_layer (kx_store K) (layer_of (kx_sha K) c) (km_store t) = Inr s \<and>
    on_fjall K C enc dec B n (t\<lparr>km_store := s\<rparr>) g \<and>
    stored_layers (t\<lparr>km_store := s\<rparr>) = (stored_layers t)(contents_hash (kx_sha K) c \<mapsto> layer_of (kx_sha K) c)"
proof (cases "stored_layers t (contents_hash (kx_sha K) c)")
  case None
  then show ?thesis using fjall_sync.adds_layer [OF on_fjallD [OF on] c] ch on by (auto simp: stored_layers_def on_fjall_def)
next
  case (Some l)
  note w = on_fjall_world [OF on]
  obtain d where "d \<in> C" "l = layer_of (kx_sha K) d" "contents_hash (kx_sha K) d = contents_hash (kx_sha K) c"
    using stored_is_layer_of [OF on Some] by blast
  then have l: "l = layer_of (kx_sha K) c" using world_inject [OF w] c by blast
  let ?s = "km_store t"
  have len: "length (contents_hash (kx_sha K) e) = 32" for e using w by (simp add: content_world_def contents_hash_def)
  have r: "kx_store K = fjall_store_ops (kx_sha K) (kx_cached K) enc dec" "om_wf (ks_inner ?s)"
    using on by (auto simp: on_fjall_def ks_repr_def fjall_chain_repr_def fjall_repr_def)
  have "fjall_load (ks_inner ?s) (contents_hash (kx_sha K) c) = Inr (Some l)"
    using on_fjall_layer [OF on len, of c] Some by (simp add: ks_get_merkle_layer_def r fjall_store_ops_def fjall_ops_def)
  then have save: "save_layer (so_merkle (kx_store K)) (layer_of (kx_sha K) c) (ks_inner ?s) = Inr (ks_inner ?s)"
    using fjall_save_again [OF r(2)] l by (simp add: r(1) fjall_store_ops_def fjall_ops_def layer_hash_of)
  have has: "ks_has_merkle_hash (kx_store K) ?s h = Inr True" if "h \<in> set (l_children (layer_of (kx_sha K) c))" for h
    using fjall_sync.has_hash [OF on_fjallD [OF on], of h] ch that len
    by (auto simp: km_has_merkle_hash_def result_simps stored_layers_def layer_of_def)
  have "rfold (\<lambda>child _. rbind (ks_has_merkle_hash (kx_store K) ?s child)
      (\<lambda>b. ensure b (MerkleCustom ''has_merkle_hash(*child)''))) hs () = Inr ()"
    if "set hs \<subseteq> set (l_children (layer_of (kx_sha K) c))" for hs
    using that by (induction hs) (simp_all add: has)
  then have "ks_add_merkle_layer (kx_store K) (layer_of (kx_sha K) c) ?s = Inr ?s"
    by (simp add: ks_add_merkle_layer_def save)
  moreover have "(stored_layers t)(contents_hash (kx_sha K) c \<mapsto> layer_of (kx_sha K) c) = stored_layers t"
    using Some l by (auto simp: fun_eq_iff)
  ultimately show ?thesis using on by simp
qed

lemma import_adds_block:
  assumes on: "on_fjall K C enc dec B n k f" and b: "storable_ok C enc dec B (storable b)" "txs_once (insert (storable b) (ran f))"
    and new: "f (block_height b) = None" and signed: "state_processor (km_state k) = bk_processor (stj_inner b)"
      "e_recover (kx_env K) (tj_as_bytes (stj_message b)) (stj_signature b) (stj_recovery_id b) = Some (bk_processor (stj_inner b))"
    and roots: "\<forall>h \<in> block_roots b. stored_layers k h \<noteq> None" "\<forall>h \<in> block_roots b. length h = 32"
  shows "\<exists>k1. add_block_with_state K b k = (Inr (), k1) \<and> km_current k1 = km_current k \<and>
    on_fjall K C enc dec B n k1 (f(block_height b \<mapsto> storable b)) \<and> stored_layers k \<subseteq>\<^sub>m stored_layers k1"
proof -
  note K = on_fjallD [OF on]
  have "check_block_with_state K b k = Inr ()"
    using fjall_kolme.check_block_with_state_iff [OF K] roots new signed by (simp add: block_roots_def stored_layers_def)
  from fjall_kolme.add_block_with_state_result [OF K b this] show ?thesis
    using on by (auto simp: on_fjall_def stored_layers_def)
qed

section \<open>Importing what was exported\<close>

text \<open>The block \<open>b\<close> of the source can be added to the store of \<open>t\<close> once its states are there.\<close>

definition importable ::
  "('d, 'm, 's, 'st, 'c, 'ct, 'cb) kenv \<Rightarrow> ('d, 'm, 's, 'st, 'c, 'ct, 'cb) kolme \<Rightarrow> ('d, 'm) signed_block block_table \<Rightarrow>
    ('d, 'm) signed_block \<Rightarrow> bool" where
  "importable K t f b \<longleftrightarrow> f (block_height b) = Some (storable b) \<and> state_processor (km_state t) = bk_processor (stj_inner b) \<and>
     e_recover (kx_env K) (tj_as_bytes (stj_message b)) (stj_signature b) (stj_recovery_id b) = Some (bk_processor (stj_inner b)) \<and>
     (\<forall>h \<in> block_roots b. length h = 32)"

definition import_result ::
  "('d chain_error, ('d, 'm, 's, 'st, 'c, 'ct, 'cb) kolme) run \<Rightarrow> ('d, 'm, 's, 'st, 'c, 'ct, 'cb) kolme \<Rightarrow>
    ('d, 'm, 's, 'st, 'c, 'ct, 'cb) outcome option" where
  "import_result r t = map_option (\<lambda>r. case r of Inl e \<Rightarrow> (Inl e, t) | Inr k' \<Rightarrow> (Inr (), k')) r"

lemma importable_cong: "km_current t' = km_current t \<Longrightarrow> importable K t' f b = importable K t f b"
  by (simp add: importable_def km_state_def)

lemma exported_items_Cons:
  assumes "exported_items K k to_json known (i # items)"
  shows "exported_items K k to_json (known \<union> item_hashes (kx_sha K) i) items"
  using assms by (cases i) (auto simp: exported_items_def)

lemma on_fjall_storable: "on_fjall K C enc dec B n k f \<Longrightarrow> f h = Some sb \<Longrightarrow> storable_ok C enc dec B sb \<and> sb_height sb = h"
  unfolding on_fjall_def ks_repr_def fjall_chain_repr_def fjall_repr_def fjall_holds_def by blast

lemma import_layer_item:
  fixes K :: "('d, 'm, 's, kv, (u64 \<times> ('d, 'm) signed_block storable_block) list, 'ct, 'cb) kenv"
  assumes src: "on_fjall K C enc dec B n k f" and on: "on_fjall K C enc dec B n t g"
    and l: "ks_get_merkle_layer (kx_store K) (km_store k) (layer_hash (kx_sha K) l) = Inr (Some l)"
    and ch: "\<forall>h \<in> set (l_children l). stored_layers t h \<noteq> None"
  shows "\<exists>s. import_items K (LayerItem l # items) t = import_items K items (t\<lparr>km_store := s\<rparr>) \<and>
    on_fjall K C enc dec B n (t\<lparr>km_store := s\<rparr>) g \<and>
    stored_layers (t\<lparr>km_store := s\<rparr>) = (stored_layers t)(layer_hash (kx_sha K) l \<mapsto> l)"
proof -
  have len: "length (kx_sha K p) = 32" for p using on_fjall_world [OF src] by (simp add: content_world_def)
  then have "stored_layers k (layer_hash (kx_sha K) l) = Some l" using on_fjall_layer [OF src] l by (simp add: layer_hash_def)
  then obtain c where c: "c \<in> C" "l = layer_of (kx_sha K) c" "contents_hash (kx_sha K) c = layer_hash (kx_sha K) l"
    by (rule stored_is_layer_of [OF src])
  obtain s where s: "ks_add_merkle_layer (kx_store K) l (km_store t) = Inr s" "on_fjall K C enc dec B n (t\<lparr>km_store := s\<rparr>) g"
      "stored_layers (t\<lparr>km_store := s\<rparr>) = (stored_layers t)(layer_hash (kx_sha K) l \<mapsto> l)"
    using import_adds_layer [OF on c(1)] ch unfolding c(2) [symmetric] c(3) by blast
  have "lift_err CeMerkle (ks_has_merkle_hash (kx_store K) (km_store t) h) = (Inr True :: 'd chain_error + bool)"
    if "h \<in> set (l_children l)" for h
  proof -
    have "length h = 32" using that len by (auto simp: c(2) layer_of_def contents_hash_def)
    then show ?thesis using fjall_sync.has_hash [OF on_fjallD [OF on], of h] ch that
      by (auto simp: km_has_merkle_hash_def result_simps stored_layers_def)
  qed
  then have fold: "rfold (\<lambda>child _. rbind (lift_err CeMerkle (ks_has_merkle_hash (kx_store K) (km_store t) child)) (\<lambda>stored.
      ensure stored (CeKolme (Anyhow ''not found in Merkle store'')))) hs () = (Inr () :: 'd chain_error + unit)"
    if "set hs \<subseteq> set (l_children l)" for hs
    using that by (induction hs) simp_all
  have "import_items K (LayerItem l # items) t = import_items K items (t\<lparr>km_store := s\<rparr>)"
    using fold [OF order_refl] by (simp add: s(1))
  then show ?thesis using s(2,3) by blast
qed

lemma import_block_item:
  fixes K :: "('d, 'm, 's, kv, (u64 \<times> ('d, 'm) signed_block storable_block) list, 'ct, 'cb) kenv"
  assumes src: "on_fjall K C enc dec B n k f" "txs_once (ran f)" and on: "on_fjall K C enc dec B n t g" "g \<subseteq>\<^sub>m f"
    and b: "importable K t f b" and roots: "\<forall>h \<in> block_roots b. stored_layers t h \<noteq> None"
  shows "\<exists>t1. import_items K (BlockItem b # items) t = import_items K items t1 \<and> km_current t1 = km_current t \<and>
    on_fjall K C enc dec B n t1 (g(block_height b \<mapsto> storable b)) \<and> g(block_height b \<mapsto> storable b) \<subseteq>\<^sub>m f \<and>
    dom (stored_layers t) \<subseteq> dom (stored_layers t1)"
proof -
  note ib = b [unfolded importable_def]
  have le: "g(block_height b \<mapsto> storable b) \<subseteq>\<^sub>m f" using on(2) ib by (auto simp: map_le_def)
  have known: "lift_err CeStore (ks_has_block (kx_store K) (kx_cache K) (km_store t) (block_height b)) =
      (Inr (g (block_height b) \<noteq> None) :: 'd chain_error + bool)"
    using fjall_node.ks_knows_block [OF on_fjallD(2) [OF on(1)]] on(1) by (auto simp: result_simps on_fjall_def)
  show ?thesis
  proof (cases "g (block_height b)")
    case None
    have ok: "storable_ok C enc dec B (storable b)" "txs_once (insert (storable b) (ran g))"
    proof -
      show "storable_ok C enc dec B (storable b)" using ib on_fjall_storable [OF src(1)] by blast
      have "insert (storable b) (ran g) \<subseteq> ran f" using ib on(2) unfolding map_le_def ran_def dom_def by force
      then show "txs_once (insert (storable b) (ran g))" using src(2) txs_once_subset by blast
    qed
    from import_adds_block [OF on(1) ok None conjunct1 [OF conjunct2 [OF ib]]
        conjunct1 [OF conjunct2 [OF conjunct2 [OF ib]]] roots conjunct2 [OF conjunct2 [OF conjunct2 [OF ib]]]]
    obtain t1 where t1: "add_block_with_state K b t = (Inr (), t1)" "km_current t1 = km_current t"
        "on_fjall K C enc dec B n t1 (g(block_height b \<mapsto> storable b))" "stored_layers t \<subseteq>\<^sub>m stored_layers t1"
      by (elim exE conjE) (rule that)
    have "import_items K (BlockItem b # items) t = import_items K items t1" using known None t1(1) by simp
    then show ?thesis using t1(2,3) le map_le_implies_dom_le [OF t1(4)] by blast
  next
    case (Some sb)
    then have "sb = storable b" using on(2) ib by (metis domI map_le_def option.inject)
    then have "g(block_height b \<mapsto> storable b) = g" using Some by (simp add: map_upd_triv)
    moreover have "import_items K (BlockItem b # items) t = import_items K items t" using known Some by simp
    ultimately show ?thesis using on(1) le by (metis order_refl)
  qed
qed

lemma import_exported_items:
  assumes src: "on_fjall K C enc dec B n k f" "txs_once (ran f)"
  shows "on_fjall K C enc dec B n t g \<Longrightarrow> g \<subseteq>\<^sub>m f \<Longrightarrow> exported_items K k to_json known items \<Longrightarrow>
    known \<subseteq> dom (stored_layers t) \<Longrightarrow> \<forall>b \<in> set (item_blocks items). importable K t f b \<Longrightarrow>
    \<exists>t'. import_items K items t = import_result (resync K t') t' \<and> km_current t' = km_current t \<and>
      on_fjall K C enc dec B n t' (\<lambda>h. if h \<in> block_height ` set (item_blocks items) then f h else g h) \<and>
      dom (stored_layers t) \<subseteq> dom (stored_layers t') \<and> (\<forall>b \<in> set (item_blocks items). block_roots b \<subseteq> dom (stored_layers t'))"
proof (induction items arbitrary: t g known)
  case Nil
  then show ?case by (intro exI [of _ t]) (simp add: import_result_def)
next
  case (Cons i items)
  note rest = exported_items_Cons [OF Cons.prems(3)]
  show ?case
  proof (cases i)
    case (LayerItem l)
    have "ks_get_merkle_layer (kx_store K) (km_store k) (layer_hash (kx_sha K) l) = Inr (Some l)" "set (l_children l) \<subseteq> known"
      using Cons.prems(3) by (auto simp: exported_items_def LayerItem)
    moreover from this have "\<forall>h \<in> set (l_children l). stored_layers t h \<noteq> None" using Cons.prems(4) by blast
    ultimately obtain s where s: "import_items K (i # items) t = import_items K items (t\<lparr>km_store := s\<rparr>)"
        "on_fjall K C enc dec B n (t\<lparr>km_store := s\<rparr>) g"
        "stored_layers (t\<lparr>km_store := s\<rparr>) = (stored_layers t)(layer_hash (kx_sha K) l \<mapsto> l)"
      using import_layer_item [OF src(1) Cons.prems(1)] unfolding LayerItem by blast
    have "known \<union> item_hashes (kx_sha K) i \<subseteq> dom (stored_layers (t\<lparr>km_store := s\<rparr>))" unfolding s(3) using Cons.prems(4) by (auto simp: LayerItem)
    moreover have "\<forall>b \<in> set (item_blocks items). importable K (t\<lparr>km_store := s\<rparr>) f b"
      using Cons.prems(5) importable_cong [of "t\<lparr>km_store := s\<rparr>" t] by (simp add: LayerItem)
    ultimately obtain t' where t': "import_items K (i # items) t = import_result (resync K t') t'" "km_current t' = km_current t"
        "on_fjall K C enc dec B n t' (\<lambda>h. if h \<in> block_height ` set (item_blocks items) then f h else g h)"
        "dom (stored_layers (t\<lparr>km_store := s\<rparr>)) \<subseteq> dom (stored_layers t')"
        "\<forall>b \<in> set (item_blocks items). block_roots b \<subseteq> dom (stored_layers t')"
      using Cons.IH [OF s(2) Cons.prems(2) rest] s(1) by auto
    have up: "dom (stored_layers t) \<subseteq> dom (stored_layers t')" using t'(4) unfolding s(3) by auto
    have bl: "item_blocks (i # items) = item_blocks items" by (simp add: LayerItem)
    show ?thesis unfolding bl by (rule exI [of _ t'], intro conjI) (fact t' up)+
  next
    case (BlockItem b)
    have roots: "block_roots b \<subseteq> dom (stored_layers t)" and b: "importable K t f b"
      using Cons.prems(3,4,5) by (auto simp: exported_items_def BlockItem)
    obtain t1 where t1: "import_items K (i # items) t = import_items K items t1" "km_current t1 = km_current t"
        "on_fjall K C enc dec B n t1 (g(block_height b \<mapsto> storable b))" "g(block_height b \<mapsto> storable b) \<subseteq>\<^sub>m f"
        "dom (stored_layers t) \<subseteq> dom (stored_layers t1)"
      using import_block_item [OF src Cons.prems(1,2) b] roots unfolding BlockItem by blast
    have "known \<union> item_hashes (kx_sha K) i \<subseteq> dom (stored_layers t1)" using Cons.prems(4) t1(5) by (auto simp: BlockItem)
    moreover have "\<forall>b \<in> set (item_blocks items). importable K t1 f b"
      using Cons.prems(5) importable_cong [OF t1(2)] by (simp add: BlockItem)
    ultimately obtain t' where t': "import_items K (i # items) t = import_result (resync K t') t'" "km_current t' = km_current t"
        "on_fjall K C enc dec B n t' (\<lambda>h. if h \<in> block_height ` set (item_blocks items) then f h else (g(block_height b \<mapsto> storable b)) h)"
        "dom (stored_layers t1) \<subseteq> dom (stored_layers t')" "\<forall>b \<in> set (item_blocks items). block_roots b \<subseteq> dom (stored_layers t')"
      using Cons.IH [OF t1(3,4) rest] t1(1,2) by auto
    have tab: "(\<lambda>h. if h \<in> block_height ` set (item_blocks items) then f h else (g(block_height b \<mapsto> storable b)) h) =
        (\<lambda>h. if h \<in> block_height ` set (item_blocks (i # items)) then f h else g h)"
      using b by (auto simp: fun_eq_iff importable_def BlockItem)
    have "\<forall>b \<in> set (item_blocks (i # items)). block_roots b \<subseteq> dom (stored_layers t')"
      using roots t1(5) t'(4,5) by (auto simp: BlockItem)
    then show ?thesis using t'(1-4) t1(5) unfolding tab by blast
  qed
qed

text \<open>C12: what a node exports another node can import.  If an export of a range of heights succeeds, importing the file
  into a node on the same kind of store, which has some of the source's blocks or none and knows the processor that
  signed them, stores exactly the source's blocks of that range beside what it had, with the roots of their states (the
  layers come before the layers and blocks that refer to them), executes nothing, and ends by resyncing.\<close>

theorem export_then_import:
  fixes K :: "('d, 'm, 's, kv, (u64 \<times> ('d, 'm) signed_block storable_block) list, 'ct, 'cb) kenv"
  assumes src: "on_fjall K C enc dec B n k f" "txs_once (ran f)"
    and blocks: "\<forall>h sb. f h = Some sb \<longrightarrow> block_height (sb_block sb) = h \<and> importable K t f (sb_block sb)"
    and tgt: "on_fjall K C enc dec B n t g" "g \<subseteq>\<^sub>m f"
    and json: "\<forall>b js. to_json b = Some js \<longrightarrow> of_json js = Some b"
    and ret: "export_blocks K to_json k rng = Some (Inr bs)"
    and start: "start = (case fst rng of Included s \<Rightarrow> s | Excluded s \<Rightarrow> height_next s | Unbounded \<Rightarrow> 0)"
  shows "\<exists>m t'. (\<forall>h \<in> set (heights_from start m). range_contains rng h \<and> f h \<noteq> None) \<and> \<not> range_contains rng (start + of_nat m) \<and>
    import_blocks K of_json bs t = import_result (resync K t') t' \<and> km_current t' = km_current t \<and>
    on_fjall K C enc dec B n t' (\<lambda>h. if h \<in> set (heights_from start m) then f h else g h) \<and>
    (\<forall>h \<in> set (heights_from start m). \<forall>r \<in> block_roots (sb_block (the (f h))). stored_layers t' r \<noteq> None)"
proof -
  have load: "ks_load_block (kx_store K) (kx_cache K) (km_store k) h = Some (Inr (f h))" for h
    using fjall_node.ks_loads_block [OF on_fjallD(2) [OF src(1)]] src(1) by (simp add: on_fjall_def)
  have roots: "\<forall>h sb. f h = Some sb \<longrightarrow> (\<forall>r \<in> block_roots (sb_block sb). length r = 32)"
    using blocks unfolding importable_def by blast
  have "export_from K to_json k rng start ([], {}) = Some (Inr bs)" using ret start by (simp add: export_blocks_def)
  from export_from_items [OF this on_fjall_sound [OF src(1)], where f = f, OF load roots]
  obtain items m where i: "bs = file_bytes to_json items" "exported_items K k to_json {} items"
      "map Some (item_blocks items) = map (map_option sb_block \<circ> f) (heights_from start m)"
      "\<forall>h \<in> set (heights_from start m). range_contains rng h" "\<not> range_contains rng (start + of_nat m)"
    unfolding append_Nil by (elim exE conjE) (rule that)
  have "Some ` set (item_blocks items) = (map_option sb_block \<circ> f) ` set (heights_from start m)"
    using arg_cong [OF i(3), of set] by simp
  then have img: "(map_option sb_block \<circ> f) h \<in> Some ` set (item_blocks items)" if "h \<in> set (heights_from start m)" for h
    using that by (metis imageI)
  have held: "\<exists>sb. f h = Some sb \<and> sb_block sb \<in> set (item_blocks items) \<and> block_height (sb_block sb) = h"
    if "h \<in> set (heights_from start m)" for h
    using img [OF that] blocks by (cases "f h") auto
  have exported: "block_height b \<in> set (heights_from start m) \<and> importable K t f b" if "b \<in> set (item_blocks items)" for b
  proof -
    have "Some b \<in> (map_option sb_block \<circ> f) ` set (heights_from start m)"
      using that arg_cong [OF i(3), of set] by (metis image_eqI list.set_map)
    then obtain h where h: "h \<in> set (heights_from start m)" "Some b = map_option sb_block (f h)" by auto
    then obtain sb where "f h = Some sb" "sb_block sb = b" by (cases "f h") auto
    then show ?thesis using blocks h(1) by blast
  qed
  have heights: "block_height ` set (item_blocks items) = set (heights_from start m)"
    using held exported by (auto simp: image_iff)
  obtain t' where t': "import_items K items t = import_result (resync K t') t'" "km_current t' = km_current t"
      "on_fjall K C enc dec B n t' (\<lambda>h. if h \<in> block_height ` set (item_blocks items) then f h else g h)"
      "\<forall>b \<in> set (item_blocks items). block_roots b \<subseteq> dom (stored_layers t')"
    using import_exported_items [OF src tgt i(2)] exported by auto
  have "import_blocks K of_json bs t = import_items K items t"
    unfolding import_blocks_def i(1) by (rule import_written [OF json]) (use i(2) in \<open>simp_all add: exported_items_def\<close>)
  moreover have "\<forall>h \<in> set (heights_from start m). \<forall>r \<in> block_roots (sb_block (the (f h))). stored_layers t' r \<noteq> None"
    using held t'(4) by fastforce
  moreover have "\<forall>h \<in> set (heights_from start m). range_contains rng h \<and> f h \<noteq> None" using held i(4) by blast
  ultimately show ?thesis using i(5) t'(1-3) unfolding heights by (intro exI [of _ m] exI [of _ t'] conjI) simp_all
qed

lemma export_leaf:
  fixes K :: "('d, 'm, 's, 'st, 'c, 'ct, 'cb) kenv"
  assumes "ks_get_merkle_layer (kx_store K) (km_store k) h = Inr (Some \<lparr>l_payload = p, l_children = []\<rparr>)" "length p < 2 ^ 32"
  shows "\<exists>d w. export_loop K k (ExProcess h # rest) written dest = export_loop K k rest w d"
proof (cases "h \<in> written")
  case True
  then show ?thesis by (subst export_loop.simps) auto
next
  case False
  obtain d w where "write_layer h \<lparr>l_payload = p, l_children = []\<rparr> written dest = (Inr (d, w) :: 'd chain_error + _)"
    using assms(2) by (simp add: write_layer_def write_u32_def)
  then have "export_loop K k (ExWrite h \<lparr>l_payload = p, l_children = []\<rparr> # rest) written dest = export_loop K k rest w d"
    using False by (subst export_loop.simps) simp
  moreover have "export_loop K k (ExProcess h # rest) written dest =
      export_loop K k (ExWrite h \<lparr>l_payload = p, l_children = []\<rparr> # rest) written dest"
    using False assms(1) by (subst export_loop.simps) simp
  ultimately show ?thesis by metis
qed

text \<open>A node that has the first block and its states.\<close>

lemma exporting_node:
  "\<exists>k. on_fjall fjall_env sample_contents enc_sample dec_sample sample_blocks 0 k one_block \<and>
     (\<forall>h \<in> block_roots (first_block 0). stored_layers k h \<noteq> None)"
proof -
  obtain s where s: "on_fjall fjall_env sample_contents enc_sample dec_sample sample_blocks 0 (first_node\<lparr>km_store := s\<rparr>) (\<lambda>_. None)"
     "\<forall>h \<in> {pad_sha [8], pad_sha [9], pad_sha [1, 0]}. stored_layers (first_node\<lparr>km_store := s\<rparr>) h \<noteq> None"
    using stocked_node by blast
  have roots: "block_roots (first_block 0) = {pad_sha [8], pad_sha [9], pad_sha [1, 0]}"
    by (simp add: block_roots_def first_block_def stj_inner_def)
  have p: "state_processor (km_state (first_node\<lparr>km_store := s\<rparr>)) = bk_processor (stj_inner (first_block 0))"
    by (simp add: km_state_def first_node_def first_state_def state_processor_def fs_new_def sample_genesis_def sample_set_def
        first_block_def stj_inner_def)
  have rec: "e_recover (kx_env fjall_env) m (stj_signature (first_block 0)) i = Some (bk_processor (stj_inner (first_block 0)))" for m i
    by (simp add: sample_kenv_def sample_env_def first_block_def stj_inner_def)
  have len: "\<forall>h \<in> block_roots (first_block 0). length h = 32" unfolding roots by (simp add: sample_codec_def)
  have once: "txs_once (insert (storable (first_block 0)) (ran (\<lambda>_. None)))" by (simp add: txs_once_def)
  have height: "block_height (first_block 0) = 0" by (simp add: block_height_def first_block_def stj_inner_def)
  from import_adds_block [OF s(1) sample_storable [of "first_block 0", OF insertI1] once refl p rec s(2) [folded roots] len]
  obtain k1 where "on_fjall fjall_env sample_contents enc_sample dec_sample sample_blocks 0 k1 ((\<lambda>_. None)(block_height (first_block 0) \<mapsto> storable (first_block 0)))"
      "stored_layers (first_node\<lparr>km_store := s\<rparr>) \<subseteq>\<^sub>m stored_layers k1"
    by (elim exE conjE) (rule that)
  then show ?thesis using s(2) map_le_implies_dom_le [of "stored_layers (first_node\<lparr>km_store := s\<rparr>)" "stored_layers k1"]
    unfolding height roots by blast
qed

abbreviation sample_json :: "(int, unit) signed_block \<Rightarrow> bytes option" where
  "sample_json \<equiv> (\<lambda>b. if b = first_block 0 then Some [42] else None)"

abbreviation sample_unjson :: "bytes \<Rightarrow> (int, unit) signed_block option" where
  "sample_unjson \<equiv> (\<lambda>js. if js = [42] then Some (first_block 0) else None)"

lemma sample_export:
  assumes on: "on_fjall fjall_env sample_contents enc_sample dec_sample sample_blocks 0 k one_block"
    and held: "\<forall>h \<in> block_roots (first_block 0). stored_layers k h \<noteq> None"
  shows "\<exists>bs. export_blocks fjall_env sample_json k (Unbounded, Excluded 1) = Some (Inr bs) \<and> bs \<noteq> []"
proof -
  have sha: "kx_sha fjall_env = pad_sha" by (simp add: sample_kenv_def)
  have leaf: "ks_get_merkle_layer (kx_store fjall_env) (km_store k) (pad_sha p) = Inr (Some \<lparr>l_payload = p, l_children = []\<rparr>)"
    if p: "p \<in> {[8], [9], [1, 0]}" for p
  proof -
    have "stored_layers k (pad_sha p) \<noteq> None" using held p by (auto simp: block_roots_def first_block_def stj_inner_def)
    then obtain l where l: "stored_layers k (pad_sha p) = Some l" by blast
    then obtain c where c: "c \<in> sample_contents" "l = layer_of pad_sha c" "contents_hash pad_sha c = pad_sha p"
      using stored_is_layer_of [OF on l, of thesis] unfolding sha by blast
    have "Contents p [] \<in> sample_contents" using p by (auto simp: sample_contents_def)
    moreover have "contents_hash pad_sha (Contents p []) = contents_hash pad_sha c" using c(3) by (simp add: contents_hash_def)
    ultimately have "c = Contents p []" using world_inject [OF sample_world] c(1) by metis
    moreover have "length (pad_sha p) = 32" using p by (auto simp: sample_codec_def)
    ultimately show ?thesis using on_fjall_layer [OF on, of "pad_sha p"] l c(2) by (simp add: layer_of_def)
  qed
  note step = export_leaf [OF leaf]
  obtain d1 w1 where 1: "export_loop fjall_env k [ExProcess (pad_sha [1, 0]), ExProcess (pad_sha [9]), ExProcess (pad_sha [8])] {} [] =
      export_loop fjall_env k [ExProcess (pad_sha [9]), ExProcess (pad_sha [8])] w1 d1" using step [of "[1, 0]"] by fastforce
  obtain d2 w2 where 2: "export_loop fjall_env k [ExProcess (pad_sha [9]), ExProcess (pad_sha [8])] w1 d1 =
      export_loop fjall_env k [ExProcess (pad_sha [8])] w2 d2" using step [of "[9]"] by fastforce
  obtain d3 w3 where 3: "export_loop fjall_env k [ExProcess (pad_sha [8])] w2 d2 = export_loop fjall_env k [] w3 d3"
    using step [of "[8]"] by fastforce
  have loop: "export_loop fjall_env k [ExProcess (pad_sha [1, 0]), ExProcess (pad_sha [9]), ExProcess (pad_sha [8])] {} [] = Some (Inr (d3, w3))"
    unfolding 1 2 3 by (subst export_loop.simps) simp
  have load: "ks_load_block (kx_store fjall_env) (kx_cache fjall_env) (km_store k) 0 = Some (Inr (Some (storable (first_block 0))))"
    using fjall_node.ks_loads_block [OF on_fjallD(2) [OF on], of 0] on by (simp add: on_fjall_def)
  have "stj_inner (sb_block (storable (first_block 0))) = stj_inner (first_block 0)" "bk_logs (stj_inner (first_block 0)) = pad_sha [1, 0]"
      "bk_app_state (stj_inner (first_block 0)) = pad_sha [9]" "bk_framework_state (stj_inner (first_block 0)) = pad_sha [8]"
    by (simp_all add: storable_def first_block_def stj_inner_def)
  then obtain bs where bs: "export_block fjall_env sample_json k 0 ([], {}) = Some (Inr (bs, w3))" "bs \<noteq> []"
    using load loop by (auto simp: export_block_def Let_def write_block_def write_u32_def storable_def)
  have "export_from fjall_env sample_json k (Unbounded, Excluded 1) 1 (bs, w3) = Some (Inr bs)"
    by (subst export_from.simps) (simp add: range_contains_def)
  then have "export_from fjall_env sample_json k (Unbounded, Excluded 1) 0 ([], {}) = Some (Inr bs)"
    using bs(1) by (subst export_from.simps) (simp add: range_contains_def height_next_def)
  then show ?thesis using bs(2) by (simp add: export_blocks_def)
qed

theorem export_then_import_witness:
  "\<exists>k bs t'. export_blocks fjall_env sample_json k (Unbounded, Excluded 1) = Some (Inr bs) \<and> bs \<noteq> [] \<and>
     import_blocks fjall_env sample_unjson bs first_node = import_result (resync fjall_env t') t' \<and>
     on_fjall fjall_env sample_contents enc_sample dec_sample sample_blocks 0 t' one_block"
proof -
  obtain k where k: "on_fjall fjall_env sample_contents enc_sample dec_sample sample_blocks 0 k one_block"
      "\<forall>h \<in> block_roots (first_block 0). stored_layers k h \<noteq> None"
    using exporting_node by blast
  obtain bs where bs: "export_blocks fjall_env sample_json k (Unbounded, Excluded 1) = Some (Inr bs)" "bs \<noteq> []"
    using sample_export [OF k] by blast
  have block: "block_height (first_block 0) = 0" "importable fjall_env first_node one_block (first_block 0)"
    by (simp_all add: importable_def block_height_def block_roots_def first_block_def stj_inner_def sample_kenv_def sample_env_def
        km_state_def first_node_def first_state_def state_processor_def fs_new_def sample_genesis_def sample_set_def)
  have blocks: "\<forall>h sb. one_block h = Some sb \<longrightarrow> block_height (sb_block sb) = h \<and> importable fjall_env first_node one_block (sb_block sb)"
    using block by (simp add: storable_def)
  have once: "txs_once (ran one_block)" by (simp add: txs_once_def)
  have json: "\<forall>b js. sample_json b = Some js \<longrightarrow> sample_unjson js = Some b" by simp
  have start: "0 = (case fst (Unbounded, Excluded 1) of Included s \<Rightarrow> s | Excluded s \<Rightarrow> height_next s | Unbounded \<Rightarrow> 0)" by simp
  have none: "(\<lambda>_. None) \<subseteq>\<^sub>m one_block" by simp
  from export_then_import [OF k(1) once blocks first_node_runs none json bs(1) start] obtain m t' where m:
      "\<not> range_contains (Unbounded, Excluded 1) (0 + of_nat m)"
      "import_blocks fjall_env sample_unjson bs first_node = import_result (resync fjall_env t') t'"
      "on_fjall fjall_env sample_contents enc_sample dec_sample sample_blocks 0 t' (\<lambda>h. if h \<in> set (heights_from 0 m) then one_block h else None)"
    by (elim exE conjE) (rule that)
  have "m \<noteq> 0" using m(1) by (intro notI) (simp add: range_contains_def)
  then obtain m' where "m = Suc m'" by (cases m) simp_all
  then have "0 \<in> set (heights_from 0 m)" by simp
  then have tab: "(\<lambda>h. if h \<in> set (heights_from 0 m) then one_block h else None) = one_block" by (intro ext) simp
  have "on_fjall fjall_env sample_contents enc_sample dec_sample sample_blocks 0 t' one_block" using m(3) unfolding tab .
  then show ?thesis using bs m(2) by blast
qed

end
