(* ===== verification/Submission.thy ===== *)
theory Submission
  imports Processor
begin

text \<open>
  Sending transactions to the chain and waiting for what becomes of them (\<open>kolme/src/core/kolme.rs\<close>:
  \<open>propose_and_await_transaction\<close>, \<open>sign_propose_await_transaction\<close>, the \<open>wait_\<close> functions; the message builders of
  \<open>core/types.rs\<close>).

  A task that waits runs beside the rest of the system.  Its argument is the world and the moves the rest of the
  system makes, one for each time the task waits; its result is \<open>None\<close> when it still waits at the end of the moves.
\<close>

section \<open>Tasks\<close>

type_synonym ('w, 'e, 'a) task = "'w \<times> ('w \<Rightarrow> 'w) list \<Rightarrow> ('e + 'a) option \<times> 'w \<times> ('w \<Rightarrow> 'w) list"

definition t_result :: "'e + 'a \<Rightarrow> ('w, 'e, 'a) task" where
  "t_result r w = (Some r, w)"

definition t_return :: "'a \<Rightarrow> ('w, 'e, 'a) task" where
  "t_return x w = (Some (Inr x), w)"

definition t_bind :: "('w, 'e, 'a) task \<Rightarrow> ('a \<Rightarrow> ('w, 'e, 'b) task) \<Rightarrow> ('w, 'e, 'b) task" where
  "t_bind m f w = (case m w of
      (Some (Inr x), w') \<Rightarrow> f x w'
    | (Some (Inl e), w') \<Rightarrow> (Some (Inl e), w')
    | (None, w') \<Rightarrow> (None, w'))"

text \<open>The result as a value, errors included.\<close>

definition t_try :: "('w, 'e, 'a) task \<Rightarrow> ('w, 'f, 'e + 'a) task" where
  "t_try m w = (case m w of (Some r, w') \<Rightarrow> (Some (Inr r), w') | (None, w') \<Rightarrow> (None, w'))"

definition t_get :: "('w \<Rightarrow> 'a) \<Rightarrow> ('w, 'e, 'a) task" where
  "t_get f w = (Some (Inr (f (fst w))), w)"

definition t_run :: "('w \<Rightarrow> ('e, 'a) run) \<Rightarrow> ('w, 'e, 'a) task" where
  "t_run f w = (f (fst w), w)"

definition t_update :: "('w \<Rightarrow> 'a \<times> 'w) \<Rightarrow> ('w, 'e, 'a) task" where
  "t_update f w = (let (x, w') = f (fst w) in (Some (Inr x), w', snd w))"

definition t_wait :: "('w, 'e, unit) task" where
  "t_wait w = (case snd w of [] \<Rightarrow> (None, w) | move # moves \<Rightarrow> (Some (Inr ()), move (fst w), moves))"

text \<open>A loop: a round returns the state for the next round or breaks with a result.  A round that neither breaks nor
  waits leaves the rest of the system no move: the loop spins and does not end.\<close>

function t_loop :: "('s \<Rightarrow> ('w, 'e, 's + 'r) task) \<Rightarrow> 's \<Rightarrow> ('w, 'e, 'r) task" where
  "t_loop body s w =
     (case body s w of
        (None, w') \<Rightarrow> (None, w')
      | (Some (Inl e), w') \<Rightarrow> (Some (Inl e), w')
      | (Some (Inr (Inr r)), w') \<Rightarrow> (Some (Inr r), w')
      | (Some (Inr (Inl s')), w') \<Rightarrow> if length (snd w') < length (snd w) then t_loop body s' w' else (None, w'))"
  by auto
termination by (relation "measure (\<lambda>(body, s, w). length (snd w))") auto

declare t_loop.simps [simp del]

fun t_for :: "('a \<Rightarrow> ('w, 'e, unit) task) \<Rightarrow> 'a list \<Rightarrow> ('w, 'e, unit) task" where
  "t_for body [] = t_return ()"
| "t_for body (x # xs) = t_bind (body x) (\<lambda>_. t_for body xs)"

named_theorems task_simps

lemmas [task_simps] = t_result_def t_return_def t_bind_def t_try_def t_get_def t_run_def t_update_def t_wait_def

section \<open>The agent and its node\<close>

record ('w, 'd, 'm, 's, 'st, 'c, 'ct, 'cb, 'k) agent =
  ag_env :: "('d, 'm, 's, 'st, 'c, 'ct, 'cb, 'k) penv"
  ag_node :: "'w \<Rightarrow> ('d, 'm, 's, 'st, 'c, 'ct, 'cb) kolme"
  ag_put :: "('d, 'm, 's, 'st, 'c, 'ct, 'cb) kolme \<Rightarrow> 'w \<Rightarrow> 'w"
  ag_clock :: "'w \<Rightarrow> int"
  ag_request_block :: "u64 \<Rightarrow> 'w \<Rightarrow> 'w"
  ag_upgrade_json :: "upgrade \<Rightarrow> string option"
  ag_set_json :: "validator_set \<Rightarrow> string option"
  ag_replace_json :: "self_replace \<Rightarrow> string option"

text \<open>\<open>Kolme::read\<close>: the state of the node at this moment.\<close>

definition ag_state :: "('w, 'd, 'm, 's, 'st, 'c, 'ct, 'cb, 'k) agent \<Rightarrow> 'w \<Rightarrow> ('d, 's) block_state" where
  "ag_state A w = km_state (ag_node A w)"

section \<open>Building transactions and messages\<close>

record ('d, 'm) tx_builder =
  tb_messages :: "('d, 'm) message list"
  tb_max_height :: "u64 option"

definition tx_builder_new :: "('d, 'm) tx_builder" where
  "tx_builder_new = \<lparr>tb_messages = [], tb_max_height = None\<rparr>"

definition add_message :: "('d, 'm) message \<Rightarrow> ('d, 'm) tx_builder \<Rightarrow> ('d, 'm) tx_builder" where
  "add_message msg b = b\<lparr>tb_messages := tb_messages b @ [msg]\<rparr>"

definition with_max_height :: "u64 \<Rightarrow> ('d, 'm) tx_builder \<Rightarrow> ('d, 'm) tx_builder" where
  "with_max_height h b = b\<lparr>tb_max_height := Some h\<rparr>"

definition tx_builder_of :: "('d, 'm) message list \<Rightarrow> ('d, 'm) tx_builder" where
  "tx_builder_of msgs = \<lparr>tb_messages = msgs, tb_max_height = None\<rparr>"

definition create_signed_transaction_with ::
  "('d, 'm, 's, 'st, 'c, 'ct, 'cb, 'k) penv \<Rightarrow> 'k \<Rightarrow> ('d, 'm) tx_builder \<Rightarrow> public_key \<Rightarrow> u64 \<Rightarrow> int \<Rightarrow>
    'd chain_error + ('d, 'm) signed_transaction" where
  "create_signed_transaction_with P secret b pubkey nonce now =
     sign_json P (px_tx_json P) \<lparr>tx_pubkey = pubkey, tx_nonce = nonce, tx_created = now,
       tx_messages = tb_messages b, tx_max_height = tb_max_height b\<rparr> secret"

definition admin_self_replace ::
  "('w, 'd, 'm, 's, 'st, 'c, 'ct, 'cb, 'k) agent \<Rightarrow> validator_type \<Rightarrow> public_key \<Rightarrow> 'k \<Rightarrow> 'd chain_error + admin_message" where
  "admin_self_replace A ty new_key current =
     rbind (sign_json (ag_env A) (ag_replace_json A) \<lparr>validator_type = ty, replacement = new_key\<rparr> current)
       (\<lambda>signed. Inr (AdminSelfReplace signed))"

definition admin_new_set ::
  "('w, 'd, 'm, 's, 'st, 'c, 'ct, 'cb, 'k) agent \<Rightarrow> validator_set \<Rightarrow> 'k \<Rightarrow> 'd chain_error + admin_message" where
  "admin_new_set A vs proposer = rbind (sign_json (ag_env A) (ag_set_json A) vs proposer) (\<lambda>signed. Inr (AdminNewSet signed))"

definition admin_upgrade ::
  "('w, 'd, 'm, 's, 'st, 'c, 'ct, 'cb, 'k) agent \<Rightarrow> string \<Rightarrow> 'k \<Rightarrow> 'd chain_error + admin_message" where
  "admin_upgrade A version proposer =
     rbind (sign_json (ag_env A) (ag_upgrade_json A) \<lparr>desired_version = version\<rparr> proposer) (\<lambda>signed. Inr (AdminUpgrade signed))"

definition admin_approval ::
  "('w, 'd, 'm, 's, 'st, 'c, 'ct, 'cb, 'k) agent \<Rightarrow> u64 \<Rightarrow> proposal_payload \<Rightarrow> 'k \<Rightarrow> admin_message" where
  "admin_approval A i payload validator = AdminApprove i (px_sign (ag_env A) validator (payload_as_bytes payload))"

section \<open>Proposing and awaiting\<close>

definition t_propose ::
  "('w, 'd, 'm, 's, 'st, 'c, 'ct, 'cb, 'k) agent \<Rightarrow> ('d, 'm) signed_transaction \<Rightarrow>
    ('w, 'd chain_error, ('d, 'm) propose_error + unit) task" where
  "t_propose A tx = t_update (\<lambda>w. let (r, k) = propose_transaction (px_node (ag_env A)) tx (ag_node A w) in (r, ag_put A k w))"

definition propose_and_await_inner ::
  "('w, 'd, 'm, 's, 'st, 'c, 'ct, 'cb, 'k) agent \<Rightarrow> ('d, 'm) signed_transaction \<Rightarrow>
    ('w, 'd chain_error, ('d, 'm) signed_block) task" where
  "propose_and_await_inner A tx = t_loop (\<lambda>_.
     t_bind (t_propose A tx) (\<lambda>r. case r of
        Inr _ \<Rightarrow> t_bind t_wait (\<lambda>_. t_return (Inl ()))
      | Inl InMempool \<Rightarrow> t_bind t_wait (\<lambda>_. t_return (Inl ()))
      | Inl (ProposedInBlock b) \<Rightarrow> t_return (Inr b)
      | Inl (ProposedFailed f) \<Rightarrow> t_result (Inl (CeKolme (ft_error (stj_inner f)))))) ()"

text \<open>With the time limit: the moves are those the system makes before it.\<close>

definition propose_and_await_transaction ::
  "('w, 'd, 'm, 's, 'st, 'c, 'ct, 'cb, 'k) agent \<Rightarrow> ('d, 'm) signed_transaction \<Rightarrow>
    ('w, 'd chain_error, ('d, 'm) signed_block) task" where
  "propose_and_await_transaction A tx w =
     (case propose_and_await_inner A tx w of
        (Some r, w') \<Rightarrow> (Some r, w')
      | (None, w') \<Rightarrow> (Some (Inl (CeKolme (Anyhow ''Timed out proposing and awaiting transaction''))), w'))"

definition max_nonce_attempts :: nat where
  "max_nonce_attempts = 5"

text \<open>The attempt is counted from 1; \<open>left\<close> is what remains of \<open>max_nonce_attempts\<close>.\<close>

fun sign_attempts ::
  "('w, 'd, 'm, 's, 'st, 'c, 'ct, 'cb, 'k) agent \<Rightarrow> 'k \<Rightarrow> ('d, 'm) tx_builder \<Rightarrow> nat \<Rightarrow> u64 \<Rightarrow>
    ('w, 'd chain_error, ('d, 'm) signed_block) task" where
  "sign_attempts A secret b left nonce =
     t_bind (t_get (ag_clock A)) (\<lambda>now.
     t_bind (t_result (create_signed_transaction_with (ag_env A) secret b (px_public (ag_env A) secret) nonce now)) (\<lambda>tx.
     t_bind (t_try (propose_and_await_inner A tx)) (\<lambda>r. case r of
        Inr blk \<Rightarrow> t_return blk
      | Inl e \<Rightarrow>
          (case e of
             CeKolme (InvalidNonce _ _ expected actual) \<Rightarrow>
               (case left of
                  Suc left' \<Rightarrow> if actual < expected then sign_attempts A secret b left' expected else t_result (Inl e)
                | 0 \<Rightarrow> t_result (Inl e))
           | _ \<Rightarrow> t_result (Inl e)))))"

definition sign_propose_await ::
  "('w, 'd, 'm, 's, 'st, 'c, 'ct, 'cb, 'k) agent \<Rightarrow> 'k \<Rightarrow> ('d, 'm) tx_builder \<Rightarrow>
    ('w, 'd chain_error, ('d, 'm) signed_block) task" where
  "sign_propose_await A secret b =
     t_bind (t_get (\<lambda>w. get_next_nonce (px_public (ag_env A) secret) (fs_accounts (bs_fs (ag_state A w))))) (\<lambda>r.
     t_bind (t_result (lift_err CeKolme r)) (\<lambda>(_, nonce).
       sign_attempts A secret b (max_nonce_attempts - 1) nonce))"

text \<open>As the agents use it: the block is not looked at.\<close>

definition t_send :: "('w, 'd, 'm, 's, 'st, 'c, 'ct, 'cb, 'k) agent \<Rightarrow> 'k \<Rightarrow> ('d, 'm) message list \<Rightarrow>
    ('w, 'd chain_error, unit) task" where
  "t_send A secret msgs = t_bind (sign_propose_await A secret (tx_builder_of msgs)) (\<lambda>_. t_return ())"

section \<open>Waiting for the chain\<close>

definition ag_get_block ::
  "('w, 'd, 'm, 's, 'st, 'c, 'ct, 'cb, 'k) agent \<Rightarrow> u64 \<Rightarrow> 'w \<Rightarrow> ('d chain_error, ('d, 'm) signed_block option) run" where
  "ag_get_block A height w =
     run_bind (map_option (lift_err CeStore)
       (ks_load_block (kx_store (px_node (ag_env A))) (kx_cache (px_node (ag_env A))) (km_store (ag_node A w)) height))
       (\<lambda>r. Some (Inr (map_option sb_block r)))"

definition wait_for_block ::
  "('w, 'd, 'm, 's, 'st, 'c, 'ct, 'cb, 'k) agent \<Rightarrow> u64 \<Rightarrow> ('w, 'd chain_error, ('d, 'm) signed_block) task" where
  "wait_for_block A height =
     t_bind (t_run (ag_get_block A height)) (\<lambda>r. case r of
        Some b \<Rightarrow> t_return b
      | None \<Rightarrow> t_loop (\<lambda>_.
          t_bind (t_run (ag_get_block A height)) (\<lambda>r. case r of
             Some b \<Rightarrow> t_return (Inr b)
           | None \<Rightarrow>
               t_bind (t_update (\<lambda>w. ((), ag_request_block A height w))) (\<lambda>_.
               t_bind t_wait (\<lambda>_. t_return (Inl ()))))) ())"

definition wait_for_tx :: "('w, 'd, 'm, 's, 'st, 'c, 'ct, 'cb, 'k) agent \<Rightarrow> hash \<Rightarrow> ('w, 'd chain_error, u64) task" where
  "wait_for_tx A txhash = t_loop (\<lambda>_.
     t_bind (t_get (\<lambda>w. ks_height_for_tx (kx_store (px_node (ag_env A))) (km_store (ag_node A w)) txhash)) (\<lambda>found.
     t_bind (t_result (lift_err CeStore found)) (\<lambda>r. case r of
        Some height \<Rightarrow> t_return (Inr height)
      | None \<Rightarrow> t_bind t_wait (\<lambda>_. t_return (Inl ()))))) ()"

definition t_resync :: "('w, 'd, 'm, 's, 'st, 'c, 'ct, 'cb, 'k) agent \<Rightarrow> ('w, 'd chain_error, unit) task" where
  "t_resync A w =
     (case resync (px_node (ag_env A)) (ag_node A (fst w)) of
        None \<Rightarrow> (None, w)
      | Some (Inl e) \<Rightarrow> (Some (Inl e), w)
      | Some (Inr k) \<Rightarrow> (Some (Inr ()), ag_put A k (fst w), snd w))"

definition wait_for_active_version :: "('w, 'd, 'm, 's, 'st, 'c, 'ct, 'cb, 'k) agent \<Rightarrow> ('w, 'd chain_error, unit) task" where
  "wait_for_active_version A = t_loop (\<lambda>_.
     t_bind (t_try (t_resync A)) (\<lambda>_ :: 'd chain_error + unit.
     t_bind (t_get (\<lambda>w. fs_version (bs_fs (ag_state A w)) = kx_code_version (px_node (ag_env A)))) (\<lambda>active.
       if active then t_return (Inr ()) else t_bind t_wait (\<lambda>_. t_return (Inl ()))))) ()"

text \<open>\<open>wait_account_for_key\<close>, \<open>wait_account_for_wallet\<close>, \<open>wait_for_bridge_event\<close> and \<open>wait_for_action_finished\<close> have one
  shape: look at the state, and wait for the next block as long as what is looked for is not there.\<close>

definition wait_until ::
  "('w, 'd, 'm, 's, 'st, 'c, 'ct, 'cb, 'k) agent \<Rightarrow> ('d framework_state \<Rightarrow> 'd kerr + 'a option) \<Rightarrow> ('w, 'd chain_error, 'a) task" where
  "wait_until A look = t_loop (\<lambda>_.
     t_bind (t_get (\<lambda>w. (bs_fs (ag_state A w), km_next_height (ag_node A w)))) (\<lambda>(fs, next_height).
     t_bind (t_result (lift_err CeKolme (look fs))) (\<lambda>r. case r of
        Some x \<Rightarrow> t_return (Inr x)
      | None \<Rightarrow> t_bind (wait_for_block A next_height) (\<lambda>_. t_return (Inl ()))))) ()"

definition wait_account_for_key ::
  "('w, 'd, 'm, 's, 'st, 'c, 'ct, 'cb, 'k) agent \<Rightarrow> public_key \<Rightarrow> ('w, 'd chain_error, u64) task" where
  "wait_account_for_key A key =
     wait_until A (\<lambda>fs. rbind (get_account_for_key (fs_accounts fs) key) (\<lambda>r. Inr (map_option fst r)))"

definition wait_account_for_wallet ::
  "('w, 'd, 'm, 's, 'st, 'c, 'ct, 'cb, 'k) agent \<Rightarrow> string \<Rightarrow> ('w, 'd chain_error, u64) task" where
  "wait_account_for_wallet A wallet =
     wait_until A (\<lambda>fs. rbind (get_account_for_wallet (fs_accounts fs) wallet) (\<lambda>r. Inr (map_option fst r)))"

definition wait_for_bridge_event ::
  "('w, 'd, 'm, 's, 'st, 'c, 'ct, 'cb, 'k) agent \<Rightarrow> external_chain \<Rightarrow> u64 \<Rightarrow> ('w, 'd chain_error, unit) task" where
  "wait_for_bridge_event A chain event_id =
     wait_until A (\<lambda>fs. rbind (chains_get fs chain) (\<lambda>cs. Inr (if event_id < cs_next_event_id cs then Some () else None)))"

definition wait_for_action_finished ::
  "('w, 'd, 'm, 's, 'st, 'c, 'ct, 'cb, 'k) agent \<Rightarrow> external_chain \<Rightarrow> u64 \<Rightarrow> ('w, 'd chain_error, unit) task" where
  "wait_for_action_finished A chain action_id =
     wait_until A (\<lambda>fs. rbind (chains_get fs chain) (\<lambda>cs.
       Inr (if action_id < cs_next_action_id cs \<and> \<not> om_contains (cs_pending_actions cs) action_id then Some () else None)))"

end
