(* ===== verification/Agents.thy ===== *)
theory Agents
  imports Submission
begin

text \<open>
  The agents that vote: the approver (\<open>kolme/src/approver.rs\<close>) signs the next action of every bridge, the upgrader
  (\<open>kolme/src/upgrader.rs\<close>) proposes the version it wants and votes for such proposals.
\<close>

section \<open>Approver\<close>

text \<open>The message to send, if the approver has one, for the state it read.\<close>

definition approver_message ::
  "('w, 'd, 'm, 's, 'st, 'c, 'ct, 'cb, 'k) agent \<Rightarrow> 'k \<Rightarrow> external_chain \<Rightarrow> 'd framework_state \<Rightarrow> 'd kerr + ('d, 'm) message option" where
  "approver_message A secret chain fs =
     rbind (get_next_bridge_action fs chain) (\<lambda>due. case due of
        None \<Rightarrow> Inr None
      | Some (action_id, action) \<Rightarrow>
          if om_contains (pa_approvals action) (px_public (ag_env A) secret) then Inr None
          else rbind (payload_bytes_to_sign (e_b64_decode (kx_env (px_node (ag_env A)))) action chain) (\<lambda>payload.
            Inr (Some (MsgApprove chain action_id (px_sign (ag_env A) secret payload)))))"

definition catch_up_approvals ::
  "('w, 'd, 'm, 's, 'st, 'c, 'ct, 'cb, 'k) agent \<Rightarrow> 'k \<Rightarrow> 'd framework_state \<Rightarrow> external_chain \<Rightarrow> ('w, 'd chain_error, unit) task" where
  "catch_up_approvals A secret fs chain =
     t_bind (t_result (lift_err CeKolme (approver_message A secret chain fs))) (\<lambda>msg. case msg of
        None \<Rightarrow> t_return ()
      | Some msg \<Rightarrow> t_send A secret [msg])"

definition catch_up_approvals_all ::
  "('w, 'd, 'm, 's, 'st, 'c, 'ct, 'cb, 'k) agent \<Rightarrow> 'k \<Rightarrow> ('w, 'd chain_error, unit) task" where
  "catch_up_approvals_all A secret =
     t_bind (t_get (\<lambda>w. bs_fs (ag_state A w))) (\<lambda>fs. t_for (catch_up_approvals A secret fs) (om_keys (fs_chains fs)))"

definition approver_run :: "('w, 'd, 'm, 's, 'st, 'c, 'ct, 'cb, 'k) agent \<Rightarrow> 'k \<Rightarrow> ('w, 'd chain_error, unit) task" where
  "approver_run A secret =
     t_bind (catch_up_approvals_all A secret) (\<lambda>_.
     t_loop (\<lambda>_. t_bind t_wait (\<lambda>_. t_bind (catch_up_approvals_all A secret) (\<lambda>_. t_return (Inl ())))) ())"

section \<open>Upgrader\<close>

text \<open>What the upgrader does about the proposals it reads.  A proposal to upgrade to another version is passed over;
  the code has no such test for proposals of another kind.\<close>

datatype upgrade_step = UpNothing | UpVote u64 proposal_payload | UpPropose

fun scan_proposals :: "string \<Rightarrow> public_key \<Rightarrow> (u64 \<times> pending_proposal) list \<Rightarrow> upgrade_step" where
  "scan_proposals version key [] = UpPropose"
| "scan_proposals version key ((i, proposal) # rest) =
     (if (case pp_payload proposal of ProposeUpgrade upgrade \<Rightarrow> desired_version (tj_value upgrade) \<noteq> version | _ \<Rightarrow> False)
      then scan_proposals version key rest
      else if om_contains (pp_approvals proposal) key then UpNothing
      else UpVote i (pp_payload proposal))"

definition upgrader_step :: "string \<Rightarrow> public_key \<Rightarrow> 'd framework_state \<Rightarrow> upgrade_step" where
  "upgrader_step version key fs =
     (if fs_version fs = version then UpNothing
      else if \<not> is_ok (ensure_is_validator (fs_validator_set fs) key :: 'd kerr + unit) then UpNothing
      else scan_proposals version key (ap_proposals (fs_admin fs)))"

definition vote_on_upgrade ::
  "('w, 'd, 'm, 's, 'st, 'c, 'ct, 'cb, 'k) agent \<Rightarrow> 'k \<Rightarrow> u64 \<Rightarrow> proposal_payload \<Rightarrow> ('w, 'd chain_error, unit) task" where
  "vote_on_upgrade A secret i payload = t_send A secret [MsgAdmin (admin_approval A i payload secret)]"

definition propose_upgrade ::
  "('w, 'd, 'm, 's, 'st, 'c, 'ct, 'cb, 'k) agent \<Rightarrow> string \<Rightarrow> 'k \<Rightarrow> ('w, 'd chain_error, unit) task" where
  "propose_upgrade A version secret =
     t_bind (t_result (admin_upgrade A version secret)) (\<lambda>msg. t_send A secret [MsgAdmin msg])"

definition run_single ::
  "('w, 'd, 'm, 's, 'st, 'c, 'ct, 'cb, 'k) agent \<Rightarrow> string \<Rightarrow> 'k \<Rightarrow> ('w, 'd chain_error, unit) task" where
  "run_single A version secret =
     t_bind (t_get (\<lambda>w. upgrader_step version (px_public (ag_env A) secret) (bs_fs (ag_state A w)))) (\<lambda>step. case step of
        UpNothing \<Rightarrow> t_return ()
      | UpVote i payload \<Rightarrow> vote_on_upgrade A secret i payload
      | UpPropose \<Rightarrow> propose_upgrade A version secret)"

text \<open>An error is logged, and the upgrader pauses before it goes on.\<close>

definition upgrader_run ::
  "('w, 'd, 'm, 's, 'st, 'c, 'ct, 'cb, 'k) agent \<Rightarrow> string \<Rightarrow> 'k \<Rightarrow> ('w, 'd chain_error, unit) task" where
  "upgrader_run A version secret = t_loop (\<lambda>_.
     t_bind (t_try (run_single A version secret)) (\<lambda>r :: 'd chain_error + unit.
     t_bind (case r of Inl _ \<Rightarrow> t_wait | Inr _ \<Rightarrow> t_return ()) (\<lambda>_.
     t_bind t_wait (\<lambda>_. t_return (Inl ()))))) ()"

end
