(* ===== verification/Listeners.thy ===== *)
theory Listeners
  imports Submission Cosmos_Contract Solana_Program
begin

text \<open>
  The listeners (\<open>kolme/src/listener\<close>, \<open>kolme/src/pass_through.rs\<close>): each watches the bridge contracts of one kind of chain
  and reports their events, in order, in transactions of its own.  What the clients of the external chains answer is a
  parameter, a function of the world at that moment; a notification that arrives is taken from the world.
  A contract address is a string, an address or key of Solana or Ethereum its bytes.
\<close>

section \<open>What the clients answer\<close>

record sol_log =
  sl_failed :: bool
  sl_logs :: "string list"

record sol_signature =
  ss_failed :: bool
  ss_signature :: string

record sol_account =
  so_owner :: bytes
  so_data :: bytes

record funds_received =
  fr_event_id :: u64
  fr_sender :: bytes
  fr_tokens :: "bytes list"
  fr_amounts :: "256 word list"
  fr_keys :: "bytes list"

record eth_log =
  el_removed :: bool
  el_block_number :: "u64 option"
  el_log_index :: "u64 option"
  el_topics :: "bytes list"
  el_data :: bytes

record eth_config =
  eg_processor :: bytes
  eg_listeners :: "bytes list"
  eg_needed_listeners :: u16
  eg_approvers :: "bytes list"
  eg_needed_approvers :: u16

datatype eth_from = Earliest | FromBlock u64

record eth_filter =
  ef_from :: eth_from
  ef_to :: "u64 option"
  ef_topic0 :: "bytes option"
  ef_topic1 :: "bytes option"

record ('w, 'd) clients =
  cl_cosmos :: "cosmos_chain \<Rightarrow> 'w \<Rightarrow> 'd chain_error + unit"
  cl_cosmos_address :: "string \<Rightarrow> 'd chain_error + unit"
  cl_cosmos_code_id :: "cosmos_chain \<Rightarrow> string \<Rightarrow> 'w \<Rightarrow> 'd chain_error + u64"
  cl_cosmos_config :: "cosmos_chain \<Rightarrow> string \<Rightarrow> 'w \<Rightarrow> 'd chain_error + contract_state"
  cl_cosmos_event :: "cosmos_chain \<Rightarrow> string \<Rightarrow> u64 \<Rightarrow> 'w \<Rightarrow> 'd chain_error + bytes option"
  cl_cosmos_of_json :: "bytes \<Rightarrow> cosmos_event option"
  cl_sol_account :: "solana_chain \<Rightarrow> bytes \<Rightarrow> 'w \<Rightarrow> 'd chain_error + sol_account"
  cl_sol_signatures :: "solana_chain \<Rightarrow> bytes \<Rightarrow> 'w \<Rightarrow> 'd chain_error + sol_signature list"
  cl_sol_signature :: "string \<Rightarrow> 'd chain_error + bytes"
  cl_sol_transaction :: "solana_chain \<Rightarrow> bytes \<Rightarrow> 'w \<Rightarrow> 'd chain_error + string list option option"
  cl_sol_pubsub :: "solana_chain \<Rightarrow> 'w \<Rightarrow> 'd chain_error + unit"
  cl_sol_subscribe :: "solana_chain \<Rightarrow> string \<Rightarrow> 'w \<Rightarrow> ('d chain_error + unit) \<times> 'w"
  cl_sol_next :: "'w \<Rightarrow> sol_log option \<times> 'w"
  cl_sol_unsubscribe :: "'w \<Rightarrow> 'w"
  cl_sol_of_borsh :: "bytes \<Rightarrow> bridge_log option"
  cl_sol_state_of_borsh :: "bytes \<Rightarrow> contract_state option"
  cl_sol_show :: "bytes \<Rightarrow> string"
  cl_eth :: "ethereum_chain \<Rightarrow> 'w \<Rightarrow> 'd chain_error + unit"
  cl_eth_code :: "ethereum_chain \<Rightarrow> bytes \<Rightarrow> 'w \<Rightarrow> 'd chain_error + bytes"
  cl_eth_config :: "ethereum_chain \<Rightarrow> bytes \<Rightarrow> 'w \<Rightarrow> 'd chain_error + eth_config"
  cl_eth_block_number :: "ethereum_chain \<Rightarrow> 'w \<Rightarrow> 'd chain_error + u64"
  cl_eth_logs :: "ethereum_chain \<Rightarrow> bytes \<Rightarrow> eth_filter \<Rightarrow> 'w \<Rightarrow> 'd chain_error + eth_log list"
  cl_eth_ws :: "ethereum_chain \<Rightarrow> bytes \<Rightarrow> 'w \<Rightarrow> 'd chain_error + unit"
  cl_eth_subscribe :: "ethereum_chain \<Rightarrow> bytes \<Rightarrow> eth_filter \<Rightarrow> 'w \<Rightarrow> ('d chain_error + unit) \<times> 'w"
  cl_eth_next :: "'w \<Rightarrow> eth_log option \<times> 'w"
  cl_eth_signature_hash :: bytes
  cl_eth_decode :: "eth_log \<Rightarrow> funds_received option"
  cl_public_key :: "bytes \<Rightarrow> public_key option"
  cl_instant :: "'w \<Rightarrow> nat"
  cl_pass_next :: "'w \<Rightarrow> ('d chain_error + bytes) option \<times> 'w"

definition t_query :: "('w \<Rightarrow> 'd chain_error + 'a) \<Rightarrow> ('w, 'd chain_error, 'a) task" where
  "t_query f = t_bind (t_get f) t_result"

abbreviation failure :: "string \<Rightarrow> 'd chain_error" where
  "failure s \<equiv> CeKolme (Anyhow s)"

section \<open>All chains\<close>

definition get_next_bridge_event_id :: "'d framework_state \<Rightarrow> public_key \<Rightarrow> external_chain \<Rightarrow> 'd chain_error + u64" where
  "get_next_bridge_event_id fs key chain =
     (case chains_get fs chain :: 'd kerr + 'd chain_state of
        Inl _ \<Rightarrow> Inl (CeKolme (Panic ''unwrap''))
      | Inr cs \<Rightarrow> Inr (case find (\<lambda>e. key \<notin> set (pe_attestations (snd e))) (cs_pending_events cs) of
            Some e \<Rightarrow> fst e
          | None \<Rightarrow> cs_next_event_id cs))"

text \<open>All contracts of the chains of this name, if all are deployed.\<close>

fun get_contracts_of :: "chain_name \<Rightarrow> (external_chain \<times> 'd chain_state) list \<Rightarrow> (external_chain, string) omap option" where
  "get_contracts_of name [] = Some []"
| "get_contracts_of name ((chain, cs) # rest) =
     (if chain_name_of chain \<noteq> name then get_contracts_of name rest
      else case cc_bridge (cs_config cs) of
        Deployed contract \<Rightarrow> map_option (om_insert chain contract) (get_contracts_of name rest)
      | _ \<Rightarrow> None)"

definition get_contracts :: "chain_name \<Rightarrow> 'd framework_state \<Rightarrow> (external_chain, string) omap option" where
  "get_contracts name fs = get_contracts_of name (fs_chains fs)"

text \<open>The order in which the parts are compared differs between the chains; all mismatches are one error here.\<close>

definition same_set :: "validator_set \<Rightarrow> validator_set \<Rightarrow> 'd chain_error + unit" where
  "same_set want actual =
     ensure (processor want = processor actual \<and> listeners actual = listeners want \<and>
       needed_listeners actual = needed_listeners want \<and> approvers actual = approvers want \<and>
       needed_approvers actual = needed_approvers want) (failure ''validator set'')"

definition cosmos_sanity_check ::
  "('w, 'd) clients \<Rightarrow> cosmos_chain \<Rightarrow> string \<Rightarrow> u64 \<Rightarrow> genesis_info \<Rightarrow> 'w \<Rightarrow> 'd chain_error + unit" where
  "cosmos_sanity_check C chain contract expected_code_id info w =
     rbind (cl_cosmos_address C contract) (\<lambda>_.
     rbind (cl_cosmos_code_id C chain contract w) (\<lambda>actual_code_id.
     rbind (ensure (actual_code_id = expected_code_id) (failure ''Code ID mismatch'')) (\<lambda>_.
     rbind (cl_cosmos_config C chain contract w) (\<lambda>st. same_set (gi_validator_set info) (ct_set st)))))"

definition solana_sanity_check ::
  "('w, 'd) clients \<Rightarrow> encoders \<Rightarrow> solana_chain \<Rightarrow> string \<Rightarrow> genesis_info \<Rightarrow> 'w \<Rightarrow> 'd chain_error + unit" where
  "solana_sanity_check C E chain program info w =
     rbind (ok_or (en_sol_from_str E program) (failure ''pubkey'')) (\<lambda>program_id.
     rbind (cl_sol_account C chain (fst (en_sol_find_pda E [str_bytes ''state''] program_id)) w) (\<lambda>acc.
     if so_owner acc \<noteq> program_id \<or> length (so_data acc) < 2 then Inl (failure ''not initialized'')
     else rbind (ok_or (cl_sol_state_of_borsh C (drop 2 (so_data acc))) (failure ''borsh'')) (\<lambda>st.
       same_set (gi_validator_set info) (ct_set st))))"

text \<open>Keys are collected into a set.\<close>

definition decode_validator_keys :: "('w, 'd) clients \<Rightarrow> bytes list \<Rightarrow> 'd chain_error + public_key list" where
  "decode_validator_keys C keys =
     rbind (rmap (\<lambda>key. ok_or (cl_public_key C key) (CeKolme PublicKeyError)) keys) (\<lambda>ks. Inr (os_of_list ks))"

definition ethereum_sanity_check ::
  "('w, 'd) clients \<Rightarrow> encoders \<Rightarrow> ethereum_chain \<Rightarrow> string \<Rightarrow> genesis_info \<Rightarrow> 'w \<Rightarrow> 'd chain_error + unit" where
  "ethereum_sanity_check C E chain contract info w =
     (let vs = gi_validator_set info in
      rbind (ok_or (en_eth_from_str E contract) (failure ''Invalid Ethereum contract address'')) (\<lambda>address.
      rbind (cl_eth_code C chain address w) (\<lambda>code.
      rbind (ensure (code \<noteq> []) (failure ''no bytecode deployed'')) (\<lambda>_.
      rbind (cl_eth_config C chain address w) (\<lambda>g.
      rbind (ok_or (cl_public_key C (eg_processor g)) (CeKolme PublicKeyError)) (\<lambda>key.
      rbind (ensure (key = processor vs) (failure ''processor key mismatch'')) (\<lambda>_.
      rbind (decode_validator_keys C (eg_listeners g)) (\<lambda>ls.
      rbind (ensure (ls = listeners vs) (failure ''listener set mismatch'')) (\<lambda>_.
      rbind (ensure (eg_needed_listeners g = needed_listeners vs) (failure ''needed listener quorum mismatch'')) (\<lambda>_.
      rbind (decode_validator_keys C (eg_approvers g)) (\<lambda>as.
      rbind (ensure (as = approvers vs) (failure ''approver set mismatch'')) (\<lambda>_.
        ensure (eg_needed_approvers g = needed_approvers vs) (failure ''needed approver quorum mismatch'')))))))))))))"

text \<open>The check of a contract: the outer error ends the listener, the inner one is the verdict.\<close>

definition check_contract ::
  "('w, 'd, 'm, 's, 'st, 'c, 'ct, 'cb, 'k) agent \<Rightarrow> ('w, 'd) clients \<Rightarrow> external_chain \<Rightarrow> bridge_contract \<Rightarrow> string \<Rightarrow>
    ('w, 'd chain_error, 'd chain_error + unit) task" where
  "check_contract A C chain bridge contract =
     (let E = kx_env (px_node (ag_env A)); info = e_genesis E in
      case chain_kind_of chain of
        KindCosmos c \<Rightarrow>
          t_bind (t_query (cl_cosmos C c)) (\<lambda>_.
          case bridge of
            NeededCosmosBridge code_id \<Rightarrow> t_get (cosmos_sanity_check C c contract code_id info)
          | Deployed _ \<Rightarrow> t_result (Inl (failure ''Already have a deployed contract''))
          | _ \<Rightarrow> t_result (Inl (CeKolme (Panic ''unreachable''))))
      | KindSolana c \<Rightarrow> t_get (solana_sanity_check C (e_enc E) c contract info)
      | KindEthereum c \<Rightarrow>
          t_bind (t_query (cl_eth C c)) (\<lambda>_. t_get (ethereum_sanity_check C (e_enc E) c contract info))
      | KindPassThrough \<Rightarrow> t_result (Inl (failure ''No wait for pass-through contract is expected'')))"

text \<open>An unfavourable verdict is only logged.\<close>

definition try_new_contract ::
  "('w, 'd, 'm, 's, 'st, 'c, 'ct, 'cb, 'k) agent \<Rightarrow> ('w, 'd) clients \<Rightarrow> 'k \<Rightarrow> external_chain \<Rightarrow> string \<Rightarrow>
    ('w, 'd chain_error, unit) task" where
  "try_new_contract A C secret chain contract =
     t_bind (t_get (\<lambda>w. bs_fs (ag_state A w))) (\<lambda>fs.
     t_bind (t_result (get_next_bridge_event_id fs (px_public (ag_env A) secret) chain)) (\<lambda>next_id.
     if next_id \<noteq> 0 then t_return ()
     else
       t_bind (t_result (lift_err CeKolme (chains_get fs chain))) (\<lambda>cs.
       case cc_bridge (cs_config cs) of
         Deployed _ \<Rightarrow> t_result (Inl (failure ''Already have a deployed contract''))
       | bridge \<Rightarrow>
           t_bind (check_contract A C chain bridge contract) (\<lambda>_ :: 'd chain_error + unit.
             t_send A secret [MsgListener chain 0 (Instantiated contract)]))))"

definition try_message ::
  "('w, 'd, 'm, 's, 'st, 'c, 'ct, 'cb, 'k) agent \<Rightarrow> ('w, 'd) clients \<Rightarrow> 'k \<Rightarrow> chain_name \<Rightarrow> ('d, 'm) message \<Rightarrow>
    ('w, 'd chain_error, unit) task" where
  "try_message A C secret name msg =
     (case msg of
        MsgListener chain event_id (Instantiated contract) \<Rightarrow>
          if chain_name_of chain \<noteq> name \<or> event_id \<noteq> 0 then t_return () else try_new_contract A C secret chain contract
      | _ \<Rightarrow> t_return ())"

definition mempool_messages :: "('w, 'd, 'm, 's, 'st, 'c, 'ct, 'cb, 'k) agent \<Rightarrow> 'w \<Rightarrow> ('d, 'm) message list" where
  "mempool_messages A w =
     concat (map (\<lambda>tx. tx_messages (stj_inner tx)) (pool_entries (kx_pool (px_node (ag_env A))) (km_mempool (ag_node A w))))"

definition wait_for_contracts ::
  "('w, 'd, 'm, 's, 'st, 'c, 'ct, 'cb, 'k) agent \<Rightarrow> ('w, 'd) clients \<Rightarrow> 'k \<Rightarrow> chain_name \<Rightarrow>
    ('w, 'd chain_error, (external_chain, string) omap) task" where
  "wait_for_contracts A C secret name = t_loop (\<lambda>_.
     t_bind (t_get (\<lambda>w. get_contracts name (bs_fs (ag_state A w)))) (\<lambda>found. case found of
        Some contracts \<Rightarrow> t_return (Inr contracts)
      | None \<Rightarrow>
          t_bind t_wait (\<lambda>_.
          t_bind (t_get (mempool_messages A)) (\<lambda>msgs.
          t_bind (t_for (try_message A C secret name) msgs) (\<lambda>_. t_return (Inl ())))))) ()"

section \<open>Cosmos\<close>

fun cosmos_to_message :: "cosmos_event \<Rightarrow> external_chain \<Rightarrow> u64 \<Rightarrow> ('d, 'm) message" where
  "cosmos_to_message (CosmosRegularEvent wallet funds keys) chain event_id = MsgListener chain event_id (Regular wallet funds keys)"
| "cosmos_to_message (CosmosSignedEvent wallet action_id) chain event_id = MsgListener chain event_id (Signed wallet action_id)"

text \<open>One poll: the next event, and the number after it, if the contract has the event.\<close>

definition cosmos_listen_once ::
  "('w, 'd, 'm, 's, 'st, 'c, 'ct, 'cb, 'k) agent \<Rightarrow> ('w, 'd) clients \<Rightarrow> 'k \<Rightarrow> cosmos_chain \<Rightarrow> string \<Rightarrow> u64 \<Rightarrow>
    ('w, 'd chain_error, u64) task" where
  "cosmos_listen_once A C secret chain contract next_id =
     t_bind (t_query (cl_cosmos_event C chain contract next_id)) (\<lambda>resp. case resp of
        Some message \<Rightarrow>
          t_bind (t_result (ok_or (cl_cosmos_of_json C message) (failure ''json''))) (\<lambda>ev.
          t_bind (t_send A secret [cosmos_to_message ev (of_cosmos_chain chain) next_id]) (\<lambda>_. t_return (next_id + 1)))
      | None \<Rightarrow> t_return next_id)"

definition cosmos_listen ::
  "('w, 'd, 'm, 's, 'st, 'c, 'ct, 'cb, 'k) agent \<Rightarrow> ('w, 'd) clients \<Rightarrow> 'k \<Rightarrow> cosmos_chain \<Rightarrow> string \<Rightarrow> ('w, 'd chain_error, unit) task" where
  "cosmos_listen A C secret chain contract =
     t_bind (t_get (\<lambda>w. bs_fs (ag_state A w))) (\<lambda>fs.
     t_bind (t_query (cl_cosmos C chain)) (\<lambda>_.
     t_bind (t_result (cl_cosmos_address C contract)) (\<lambda>_.
     t_bind (t_result (get_next_bridge_event_id fs (px_public (ag_env A) secret) (of_cosmos_chain chain))) (\<lambda>next_id.
     t_loop (\<lambda>next_id.
       t_bind (cosmos_listen_once A C secret chain contract next_id) (\<lambda>next_id'.
       t_bind t_wait (\<lambda>_. t_return (Inl next_id')))) next_id))))"

section \<open>Solana\<close>

fun log_id :: "bridge_log \<Rightarrow> u64" where
  "log_id (BridgeRegular i _ _ _) = i"
| "log_id (BridgeSigned i _ _) = i"

fun solana_to_message :: "('w, 'd) clients \<Rightarrow> bridge_log \<Rightarrow> solana_chain \<Rightarrow> ('d, 'm) message" where
  "solana_to_message C (BridgeRegular i wallet funds keys) chain =
     MsgListener (of_solana_chain chain) i
       (Regular (cl_sol_show C wallet) (map (\<lambda>coin. (cl_sol_show C (tk_mint coin), ucast (tk_amount coin))) funds) keys)"
| "solana_to_message C (BridgeSigned i wallet action_id) chain =
     MsgListener (of_solana_chain chain) i (Signed (cl_sol_show C wallet) action_id)"

definition starts_with :: "string \<Rightarrow> string \<Rightarrow> bool" where
  "starts_with p s \<longleftrightarrow> take (length p) s = p"

fun str_contains :: "string \<Rightarrow> string \<Rightarrow> bool" where
  "str_contains p [] \<longleftrightarrow> p = []"
| "str_contains p (c # s) \<longleftrightarrow> starts_with p (c # s) \<or> str_contains p s"

definition program_data_log :: string where
  "program_data_log = ''Program data: ''"

text \<open>The last entry with program data decides.\<close>

definition extract_bridge_message ::
  "('w, 'd) clients \<Rightarrow> (string \<Rightarrow> bytes option) \<Rightarrow> string list \<Rightarrow> 'd chain_error + bridge_log option" where
  "extract_bridge_message C b64 logs =
     (case find (starts_with program_data_log) (rev logs) of
        None \<Rightarrow> Inr None
      | Some entry \<Rightarrow>
          rbind (ok_or (b64 (drop (length program_data_log) entry)) (failure ''base64'')) (\<lambda>bs.
          case cl_sol_of_borsh C bs of
            Some msg \<Rightarrow> Inr (Some msg)
          | None \<Rightarrow>
              if \<exists>e \<in> set logs. str_contains ''Instruction: Initialize'' e then Inr None
              else Inl (failure ''Error deserializing Solana bridge message from logs'')))"

text \<open>The messages of the transactions, latest first, down to the last event seen.\<close>

fun missed_messages ::
  "('w, 'd) clients \<Rightarrow> (string \<Rightarrow> bytes option) \<Rightarrow> solana_chain \<Rightarrow> u64 \<Rightarrow> sol_signature list \<Rightarrow> 'w \<Rightarrow> 'd chain_error + bridge_log list" where
  "missed_messages C b64 chain last_seen [] w = Inr []"
| "missed_messages C b64 chain last_seen (tx # txs) w =
     (if ss_failed tx then missed_messages C b64 chain last_seen txs w
      else rbind (cl_sol_signature C (ss_signature tx)) (\<lambda>sg.
        rbind (cl_sol_transaction C chain sg w) (\<lambda>meta.
        case meta of
          None \<Rightarrow> missed_messages C b64 chain last_seen txs w
        | Some None \<Rightarrow> missed_messages C b64 chain last_seen txs w
        | Some (Some logs) \<Rightarrow>
            rbind (extract_bridge_message C b64 logs) (\<lambda>found.
            case found of
              None \<Rightarrow> missed_messages C b64 chain last_seen txs w
            | Some msg \<Rightarrow>
                if log_id msg \<le> last_seen then Inr []
                else rbind (missed_messages C b64 chain last_seen txs w) (\<lambda>rest. Inr (msg # rest))))))"

fun falling_ids :: "bridge_log list \<Rightarrow> bool" where
  "falling_ids (a # b # rest) \<longleftrightarrow> log_id b < log_id a \<and> falling_ids (b # rest)"
| "falling_ids _ \<longleftrightarrow> True"

definition solana_catch_up ::
  "('w, 'd, 'm, 's, 'st, 'c, 'ct, 'cb, 'k) agent \<Rightarrow> ('w, 'd) clients \<Rightarrow> 'k \<Rightarrow> u64 \<Rightarrow> solana_chain \<Rightarrow> bytes \<Rightarrow>
    ('w, 'd chain_error, u64 option) task" where
  "solana_catch_up A C secret last_seen chain contract =
     t_bind (t_query (cl_sol_signatures C chain contract)) (\<lambda>txs.
     t_bind (t_query (missed_messages C (e_b64_decode (kx_env (px_node (ag_env A)))) chain last_seen txs)) (\<lambda>msgs.
     if \<not> falling_ids msgs then t_result (Inl (CeKolme (Panic ''assertion failed: messages are sorted'')))
     else (case msgs of
        [] \<Rightarrow> t_return None
      | latest # _ \<Rightarrow>
          t_bind (t_send A secret (map (\<lambda>m. solana_to_message C m chain) (rev msgs))) (\<lambda>_. t_return (Some (log_id latest))))))"

definition event_id_prev :: "u64 \<Rightarrow> u64" where
  "event_id_prev i = (if i = 0 then 0 else i - 1)"

text \<open>One notification: the number of the event that comes next, or \<open>Inr ()\<close> when the subscription has ended.\<close>

definition solana_notification ::
  "('w, 'd, 'm, 's, 'st, 'c, 'ct, 'cb, 'k) agent \<Rightarrow> ('w, 'd) clients \<Rightarrow> 'k \<Rightarrow> solana_chain \<Rightarrow> bytes \<Rightarrow> u64 \<Rightarrow>
    ('w, 'd chain_error, u64 + unit) task" where
  "solana_notification A C secret chain contract next_id =
     t_bind t_wait (\<lambda>_.
     t_bind (t_update (cl_sol_next C)) (\<lambda>resp. case resp of
        None \<Rightarrow> t_return (Inr ())
      | Some resp \<Rightarrow>
          if sl_failed resp then t_return (Inl next_id)
          else t_bind (t_result (extract_bridge_message C (e_b64_decode (kx_env (px_node (ag_env A)))) (sl_logs resp))) (\<lambda>found.
            case found of
              None \<Rightarrow> t_return (Inl next_id)
            | Some msg \<Rightarrow>
                if log_id msg < next_id then t_return (Inl next_id)
                else if log_id msg \<noteq> next_id then
                  t_bind (solana_catch_up A C secret (event_id_prev next_id) chain contract) (\<lambda>latest. case latest of
                     None \<Rightarrow> t_result (Inl (CeKolme (Panic ''should have at least one TX processed.'')))
                   | Some i \<Rightarrow> t_return (Inl (i + 1)))
                else t_bind (t_send A secret [solana_to_message C msg chain]) (\<lambda>_. t_return (Inl (next_id + 1))))))"

definition solana_listen_internal ::
  "('w, 'd, 'm, 's, 'st, 'c, 'ct, 'cb, 'k) agent \<Rightarrow> ('w, 'd) clients \<Rightarrow> 'k \<Rightarrow> solana_chain \<Rightarrow> string \<Rightarrow> ('w, 'd chain_error, unit) task" where
  "solana_listen_internal A C secret chain contract =
     (let key = en_sol_const (e_enc (kx_env (px_node (ag_env A)))) contract in
      t_bind (t_query (cl_sol_pubsub C chain)) (\<lambda>_.
      t_loop (\<lambda>_.
        t_bind (t_query (\<lambda>w. get_next_bridge_event_id (bs_fs (ag_state A w)) (px_public (ag_env A) secret) (of_solana_chain chain)))
          (\<lambda>next_id.
        t_bind (t_update (cl_sol_subscribe C chain contract)) (\<lambda>sub. case sub of
           Inl _ \<Rightarrow>
             t_bind t_wait (\<lambda>_.
             t_bind (solana_catch_up A C secret (event_id_prev next_id) chain key) (\<lambda>_. t_return (Inl ())))
         | Inr _ \<Rightarrow>
             t_bind (solana_catch_up A C secret (event_id_prev next_id) chain key) (\<lambda>latest.
             t_bind (t_loop (solana_notification A C secret chain key) (case latest of Some i \<Rightarrow> i + 1 | None \<Rightarrow> next_id)) (\<lambda>_.
             t_bind (t_update (\<lambda>w. ((), cl_sol_unsubscribe C w))) (\<lambda>_. t_return (Inl ()))))))) ()))"

text \<open>Every end is logged, and after a pause the listener starts again.\<close>

definition solana_listen ::
  "('w, 'd, 'm, 's, 'st, 'c, 'ct, 'cb, 'k) agent \<Rightarrow> ('w, 'd) clients \<Rightarrow> 'k \<Rightarrow> solana_chain \<Rightarrow> string \<Rightarrow> ('w, 'd chain_error, unit) task" where
  "solana_listen A C secret chain contract = t_loop (\<lambda>_.
     t_bind (t_try (solana_listen_internal A C secret chain contract)) (\<lambda>_ :: 'd chain_error + unit.
     t_bind t_wait (\<lambda>_. t_return (Inl ())))) ()"

end
