(* ===== verification/Ethereum_Listener.thy ===== *)
theory Ethereum_Listener
  imports Listeners
begin

text \<open>
  The listener of the Ethereum bridges (\<open>kolme/src/listener/ethereum.rs\<close>), which reads logs through a subscription and by
  polling and keeps a cursor into them, and the pass-through listener (\<open>kolme/src/pass_through.rs\<close>).
\<close>

section \<open>Logs\<close>

definition u256_to_u128 :: "256 word \<Rightarrow> 'd chain_error + u128" where
  "u256_to_u128 val = (if 2 ^ 128 \<le> unat val then Inl (failure ''does not fit into u128'') else Inr (ucast val))"

definition token_address_to_denom :: "encoders \<Rightarrow> bytes \<Rightarrow> string" where
  "token_address_to_denom E token = (if token = replicate 20 0 then ''eth'' else en_eth_to_str E token)"

definition event_from_log :: "('w, 'd) clients \<Rightarrow> eth_log \<Rightarrow> 'd chain_error + funds_received option" where
  "event_from_log C entry =
     (case el_topics entry of
        [] \<Rightarrow> Inr None
      | topic # _ \<Rightarrow>
          if topic = cl_eth_signature_hash C
          then rbind (ok_or (cl_eth_decode C entry) (failure ''Failed to decode FundsReceived'')) (\<lambda>ev. Inr (Some ev))
          else Inr None)"

definition ethereum_to_message ::
  "('w, 'd) clients \<Rightarrow> encoders \<Rightarrow> funds_received \<Rightarrow> external_chain \<Rightarrow> u64 \<Rightarrow> 'd chain_error + ('d, 'm) message" where
  "ethereum_to_message C E ev chain event_id =
     rbind (ensure (length (fr_tokens ev) = length (fr_amounts ev)) (failure ''malformed payload'')) (\<lambda>_.
     rbind (rmap (\<lambda>(token, amount). rbind (u256_to_u128 amount) (\<lambda>n. Inr (token_address_to_denom E token, n)))
       (zip (fr_tokens ev) (fr_amounts ev))) (\<lambda>funds.
     rbind (rmap (\<lambda>key. ok_or (cl_public_key C key) (CeKolme PublicKeyError)) (fr_keys ev)) (\<lambda>keys.
       Inr (MsgListener chain event_id (Regular (en_eth_to_str E (fr_sender ev)) funds keys)))))"

definition should_skip_log :: "eth_log \<Rightarrow> u64 \<Rightarrow> u64 option \<Rightarrow> bool" where
  "should_skip_log entry next_block first_log_index =
     (if el_removed entry then True
      else case first_log_index of
        Some min_log_index \<Rightarrow>
          el_block_number entry = Some next_block \<and>
          (case el_log_index entry of Some log_index \<Rightarrow> log_index < min_log_index | None \<Rightarrow> False)
      | None \<Rightarrow> False)"

definition event_id_topic :: "u64 \<Rightarrow> bytes" where
  "event_id_topic event_id = replicate 24 0 @ to_be_bytes event_id"

definition saturating_inc :: "u64 \<Rightarrow> u64" where
  "saturating_inc n = (if n = - 1 then n else n + 1)"

section \<open>Where to resume\<close>

record eth_cursor =
  cu_next_id :: u64
  cu_next_block :: u64
  cu_first_log_index :: "u64 option"

fun resume_at :: "('w, 'd) clients \<Rightarrow> u64 \<Rightarrow> u64 \<Rightarrow> eth_log list \<Rightarrow> 'd chain_error + u64 \<times> u64 option" where
  "resume_at C next_id latest [] = Inr (saturating_inc latest, None)"
| "resume_at C next_id latest (entry # rest) =
     (if el_removed entry then resume_at C next_id latest rest
      else rbind (event_from_log C entry) (\<lambda>ev. case ev of
         None \<Rightarrow> resume_at C next_id latest rest
       | Some ev \<Rightarrow>
           rbind (ensure (fr_event_id ev = next_id) (failure ''mismatched event ID'')) (\<lambda>_.
             Inr (case el_block_number entry of Some n \<Rightarrow> n | None \<Rightarrow> 0, el_log_index entry))))"

definition get_resume_cursor ::
  "('w, 'd) clients \<Rightarrow> ethereum_chain \<Rightarrow> bytes \<Rightarrow> u64 \<Rightarrow> ('w, 'd chain_error, u64 \<times> u64 option) task" where
  "get_resume_cursor C chain contract next_id =
     t_bind (t_query (cl_eth_block_number C chain)) (\<lambda>latest.
     if next_id = 0 then t_return (0, None)
     else t_bind (t_query (cl_eth_logs C chain contract \<lparr>ef_from = Earliest, ef_to = Some latest,
            ef_topic0 = Some (cl_eth_signature_hash C), ef_topic1 = Some (event_id_topic next_id)\<rparr>)) (\<lambda>logs.
          t_result (resume_at C next_id latest logs)))"

section \<open>Reading events\<close>

text \<open>The number of the event that is expected next.\<close>

definition process_event ::
  "('w, 'd, 'm, 's, 'st, 'c, 'ct, 'cb, 'k) agent \<Rightarrow> ('w, 'd) clients \<Rightarrow> 'k \<Rightarrow> external_chain \<Rightarrow> eth_log \<Rightarrow> u64 \<Rightarrow>
    ('w, 'd chain_error, u64) task" where
  "process_event A C secret chain entry next_id =
     t_bind (t_result (event_from_log C entry)) (\<lambda>ev. case ev of
        None \<Rightarrow> t_return next_id
      | Some ev \<Rightarrow>
          t_bind (t_result (ensure (fr_event_id ev = next_id) (failure ''Unexpected Ethereum bridge event ID''))) (\<lambda>_.
          t_bind (t_result (ethereum_to_message C (e_enc (kx_env (px_node (ag_env A)))) ev chain (fr_event_id ev))) (\<lambda>msg.
          t_bind (t_send A secret [msg]) (\<lambda>_. t_return (next_id + 1)))))"

fun process_logs ::
  "('w, 'd, 'm, 's, 'st, 'c, 'ct, 'cb, 'k) agent \<Rightarrow> ('w, 'd) clients \<Rightarrow> 'k \<Rightarrow> external_chain \<Rightarrow> eth_log list \<Rightarrow> eth_cursor \<Rightarrow>
    ('w, 'd chain_error, eth_cursor) task" where
  "process_logs A C secret chain [] cur = t_return cur"
| "process_logs A C secret chain (entry # rest) cur =
     (if should_skip_log entry (cu_next_block cur) (cu_first_log_index cur) then process_logs A C secret chain rest cur
      else t_bind (process_event A C secret chain entry (cu_next_id cur)) (\<lambda>next_id.
        process_logs A C secret chain rest (cur\<lparr>cu_next_id := next_id\<rparr>)))"

definition listen_polling_once ::
  "('w, 'd, 'm, 's, 'st, 'c, 'ct, 'cb, 'k) agent \<Rightarrow> ('w, 'd) clients \<Rightarrow> 'k \<Rightarrow> ethereum_chain \<Rightarrow> bytes \<Rightarrow> eth_cursor \<Rightarrow>
    ('w, 'd chain_error, eth_cursor) task" where
  "listen_polling_once A C secret chain contract cur =
     t_bind (t_query (cl_eth_block_number C chain)) (\<lambda>latest.
     if latest < cu_next_block cur then t_return cur
     else
       t_bind (t_query (cl_eth_logs C chain contract \<lparr>ef_from = FromBlock (cu_next_block cur), ef_to = Some latest,
         ef_topic0 = None, ef_topic1 = None\<rparr>)) (\<lambda>logs.
       t_bind (process_logs A C secret (of_ethereum_chain chain) logs cur) (\<lambda>cur'.
         t_return (cur'\<lparr>cu_next_block := saturating_inc latest, cu_first_log_index := None\<rparr>))))"

text \<open>The cursor stays where it was moved when the session fails; the result says how the session ended.\<close>

definition listen_with_subscription ::
  "('w, 'd, 'm, 's, 'st, 'c, 'ct, 'cb, 'k) agent \<Rightarrow> ('w, 'd) clients \<Rightarrow> 'k \<Rightarrow> ethereum_chain \<Rightarrow> bytes \<Rightarrow> eth_cursor \<Rightarrow>
    ('w, 'd chain_error, ('d chain_error + unit) \<times> eth_cursor) task" where
  "listen_with_subscription A C secret chain contract cur =
     t_bind (t_update (cl_eth_subscribe C chain contract \<lparr>ef_from = FromBlock (cu_next_block cur), ef_to = None,
       ef_topic0 = Some (cl_eth_signature_hash C), ef_topic1 = None\<rparr>)) (\<lambda>sub. case sub of
        Inl e \<Rightarrow> t_return (Inl e, cur)
      | Inr _ \<Rightarrow> t_loop (\<lambda>cur.
          t_bind t_wait (\<lambda>_.
          t_bind (t_update (cl_eth_next C)) (\<lambda>got. case got of
             None \<Rightarrow> t_return (Inr (Inr (), cur))
           | Some entry \<Rightarrow>
               if should_skip_log entry (cu_next_block cur) (cu_first_log_index cur) then t_return (Inl cur)
               else t_bind (t_try (process_event A C secret (of_ethereum_chain chain) entry (cu_next_id cur))) (\<lambda>r. case r of
                  Inl e \<Rightarrow> t_return (Inr (Inl e, cur))
                | Inr next_id \<Rightarrow>
                    t_return (Inl \<lparr>cu_next_id = next_id,
                      cu_next_block = (case el_block_number entry of Some n \<Rightarrow> n | None \<Rightarrow> cu_next_block cur),
                      cu_first_log_index = map_option saturating_inc (el_log_index entry)\<rparr>))))) cur)"

definition try_ws_session_once ::
  "('w, 'd, 'm, 's, 'st, 'c, 'ct, 'cb, 'k) agent \<Rightarrow> ('w, 'd) clients \<Rightarrow> 'k \<Rightarrow> ethereum_chain \<Rightarrow> bytes \<Rightarrow> eth_cursor \<Rightarrow>
    ('w, 'd chain_error, ('d chain_error + unit) \<times> eth_cursor) task" where
  "try_ws_session_once A C secret chain contract cur =
     t_bind (t_get (cl_eth_ws C chain contract)) (\<lambda>ws. case ws of
        Inl e \<Rightarrow> t_return (Inl e, cur)
      | Inr _ \<Rightarrow>
          t_bind (listen_with_subscription A C secret chain contract cur) (\<lambda>(r, cur'). case r of
             Inl e \<Rightarrow> t_return (Inl e, cur')
           | Inr _ \<Rightarrow> t_return (Inl (failure ''Ethereum listener subscription ended''), cur')))"

section \<open>The loop\<close>

datatype eth_mode = Hybrid | SubscriptionOnly

definition ws_retry_interval :: nat where
  "ws_retry_interval = 30"

definition ws_attempt ::
  "('w, 'd, 'm, 's, 'st, 'c, 'ct, 'cb, 'k) agent \<Rightarrow> ('w, 'd) clients \<Rightarrow> 'k \<Rightarrow> ethereum_chain \<Rightarrow> eth_mode \<Rightarrow> bytes \<Rightarrow> nat \<times> eth_cursor \<Rightarrow>
    ('w, 'd chain_error, nat \<times> eth_cursor) task" where
  "ws_attempt A C secret chain mode contract = (\<lambda>(next_ws_retry, cur).
     t_bind (t_get (cl_instant C)) (\<lambda>now.
     if now < next_ws_retry then t_return (next_ws_retry, cur)
     else
       t_bind (try_ws_session_once A C secret chain contract cur) (\<lambda>(r, cur').
       case (r, mode) of
         (Inl e, SubscriptionOnly) \<Rightarrow> t_result (Inl e)
       | _ \<Rightarrow> t_bind (t_get (cl_instant C)) (\<lambda>later. t_return (later + ws_retry_interval, cur')))))"

definition listen_with_ws_retry ::
  "('w, 'd, 'm, 's, 'st, 'c, 'ct, 'cb, 'k) agent \<Rightarrow> ('w, 'd) clients \<Rightarrow> 'k \<Rightarrow> ethereum_chain \<Rightarrow> eth_mode \<Rightarrow> bytes \<Rightarrow> eth_cursor \<Rightarrow>
    ('w, 'd chain_error, unit) task" where
  "listen_with_ws_retry A C secret chain mode contract cur =
     t_bind (t_get (cl_instant C)) (\<lambda>start.
     t_loop (\<lambda>st.
       t_bind (ws_attempt A C secret chain mode contract st) (\<lambda>(next_ws_retry, cur).
       case mode of
         SubscriptionOnly \<Rightarrow> t_bind t_wait (\<lambda>_. t_return (Inl (next_ws_retry, cur)))
       | Hybrid \<Rightarrow>
           t_bind (listen_polling_once A C secret chain contract cur) (\<lambda>cur'.
           t_bind t_wait (\<lambda>_. t_return (Inl (next_ws_retry, cur')))))) (start, cur))"

definition ethereum_listen ::
  "('w, 'd, 'm, 's, 'st, 'c, 'ct, 'cb, 'k) agent \<Rightarrow> ('w, 'd) clients \<Rightarrow> 'k \<Rightarrow> ethereum_chain \<Rightarrow> eth_mode \<Rightarrow> string \<Rightarrow>
    ('w, 'd chain_error, unit) task" where
  "ethereum_listen A C secret chain mode contract =
     t_bind (t_result (ok_or (en_eth_from_str (e_enc (kx_env (px_node (ag_env A)))) contract)
       (failure ''Invalid Ethereum contract address''))) (\<lambda>address.
     t_bind (t_query (cl_eth C chain)) (\<lambda>_.
     t_bind (t_query (\<lambda>w. get_next_bridge_event_id (bs_fs (ag_state A w)) (px_public (ag_env A) secret) (of_ethereum_chain chain)))
       (\<lambda>next_id.
     t_bind (get_resume_cursor C chain address next_id) (\<lambda>(next_block, first_log_index).
       listen_with_ws_retry A C secret chain mode address
         \<lparr>cu_next_id = next_id, cu_next_block = next_block, cu_first_log_index = first_log_index\<rparr>))))"

section \<open>Pass-through\<close>

definition pass_through_round ::
  "('w, 'd, 'm, 's, 'st, 'c, 'ct, 'cb, 'k) agent \<Rightarrow> ('w, 'd) clients \<Rightarrow> 'k \<Rightarrow> u64 \<Rightarrow> ('w, 'd chain_error, u64 + unit) task" where
  "pass_through_round A C secret next_id =
     t_bind t_wait (\<lambda>_.
     t_bind (t_update (cl_pass_next C)) (\<lambda>r. case r of
        None \<Rightarrow> t_result (Inl (failure ''WebSocket stream terminated''))
      | Some r \<Rightarrow>
          t_bind (t_result r) (\<lambda>message.
          t_bind (t_result (ok_or (cl_cosmos_of_json C message) (failure ''json''))) (\<lambda>ev.
          t_bind (t_send A secret [cosmos_to_message ev PassThrough next_id]) (\<lambda>_. t_return (Inl (next_id + 1)))))))"

definition pass_through_listen ::
  "('w, 'd, 'm, 's, 'st, 'c, 'ct, 'cb, 'k) agent \<Rightarrow> ('w, 'd) clients \<Rightarrow> 'k \<Rightarrow> ('w, 'd chain_error, unit) task" where
  "pass_through_listen A C secret =
     t_bind (t_query (\<lambda>w. get_next_bridge_event_id (bs_fs (ag_state A w)) (px_public (ag_env A) secret) PassThrough)) (\<lambda>next_id.
       t_loop (pass_through_round A C secret) next_id)"

section \<open>One task per contract\<close>

text \<open>\<open>Listener::run\<close>: the chains it listens to, once their contracts are deployed; the tasks run side by side.\<close>

definition listener_task ::
  "('w, 'd, 'm, 's, 'st, 'c, 'ct, 'cb, 'k) agent \<Rightarrow> ('w, 'd) clients \<Rightarrow> eth_mode \<Rightarrow> 'k \<Rightarrow> external_chain \<Rightarrow> string \<Rightarrow>
    ('w, 'd chain_error, unit) task" where
  "listener_task A C mode secret chain contract =
     (case chain_kind_of chain of
        KindCosmos c \<Rightarrow> cosmos_listen A C secret c contract
      | KindSolana c \<Rightarrow> solana_listen A C secret c contract
      | KindEthereum c \<Rightarrow> ethereum_listen A C secret c mode contract
      | KindPassThrough \<Rightarrow> pass_through_listen A C secret)"

definition listener_run ::
  "('w, 'd, 'm, 's, 'st, 'c, 'ct, 'cb, 'k) agent \<Rightarrow> ('w, 'd) clients \<Rightarrow> eth_mode \<Rightarrow> 'k \<Rightarrow> chain_name \<Rightarrow>
    ('w, 'd chain_error, ('w, 'd chain_error, unit) task list) task" where
  "listener_run A C mode secret name =
     t_bind (wait_for_contracts A C secret name) (\<lambda>contracts.
       t_return (map (\<lambda>(chain, contract). listener_task A C mode secret chain contract) contracts))"

end
