(* ===== verification/Submitters.thy ===== *)
theory Submitters
  imports Listeners
begin

text \<open>
  The submitter (\<open>kolme/src/submitter\<close>): it creates the bridge contracts the chain needs, and sends the next approved
  action of each bridge to its contract; and the instructions for the Solana program that clients send
  (\<open>solana/crates/kolme-solana-bridge-client\<close>).
\<close>

section \<open>Instructions for the Solana program\<close>

definition token_program_id :: "encoders \<Rightarrow> bool \<Rightarrow> bytes" where
  "token_program_id E token2022 =
     en_sol_const E (if token2022 then ''TokenzQdBNbLqP5VEhdkAS6EPFLC1PHnBqCXEpPxuEb'' else ''TokenkegQfeZyiNwAJbNbGKPFXCWuBvf9Ss623VQ5DA'')"

definition system_id :: "encoders \<Rightarrow> bytes" where
  "system_id E = en_sol_const E ''11111111111111111111111111111111''"

definition derive_git_rev_pda :: "encoders \<Rightarrow> bytes \<Rightarrow> bytes" where
  "derive_git_rev_pda E program_id = fst (en_sol_find_pda E [str_bytes ''git_rev''] program_id)"

definition derive_state_pda :: "encoders \<Rightarrow> bytes \<Rightarrow> bytes" where
  "derive_state_pda E program_id = fst (en_sol_find_pda E [str_bytes ''state''] program_id)"

definition derive_upgrade_authority_pda :: "encoders \<Rightarrow> bytes \<Rightarrow> bytes" where
  "derive_upgrade_authority_pda E program_id = fst (en_sol_find_pda E [str_bytes ''upgrade_auth''] program_id)"

definition derive_token_holder_acc :: "encoders \<Rightarrow> bytes \<Rightarrow> bytes \<Rightarrow> bytes" where
  "derive_token_holder_acc E program_id mint_key = fst (en_sol_find_pda E (token_holder_seeds mint_key) program_id)"

definition meta_new :: "bytes \<Rightarrow> bool \<Rightarrow> account_meta" where
  "meta_new key is_signer = \<lparr>am_pubkey = key, am_writable = True, am_signer = is_signer\<rparr>"

definition meta_readonly :: "bytes \<Rightarrow> bool \<Rightarrow> account_meta" where
  "meta_readonly key is_signer = \<lparr>am_pubkey = key, am_writable = False, am_signer = is_signer\<rparr>"

text \<open>Borsh encoding of the instruction data and the address of the program's data, which the loader derives.\<close>

record sol_borsh =
  bo_init :: "validator_set \<Rightarrow> bytes option"
  bo_regular :: "key_registration list \<Rightarrow> u64 list \<Rightarrow> bytes option"
  bo_signed :: "signed_data \<Rightarrow> bytes option"
  bo_payload :: "bytes \<Rightarrow> solana_payload option"
  bo_program_data :: "bytes \<Rightarrow> bytes"
  bo_unit_price :: "u64 \<Rightarrow> instruction"

definition init_ix :: "encoders \<Rightarrow> sol_borsh \<Rightarrow> bytes \<Rightarrow> bytes \<Rightarrow> validator_set \<Rightarrow> instruction list option" where
  "init_ix E B program_id sender vs =
     (case bo_init B vs of
        None \<Rightarrow> None
      | Some data \<Rightarrow> Some [\<lparr>in_program_id = program_id,
          in_accounts = [meta_new sender True, meta_new (system_id E) False, meta_new (derive_state_pda E program_id) False,
            meta_new (derive_git_rev_pda E program_id) False, meta_new (derive_upgrade_authority_pda E program_id) False,
            meta_readonly (bo_program_data B program_id) False],
          in_data = 0 # data\<rparr>])"

definition signed_ix ::
  "encoders \<Rightarrow> sol_borsh \<Rightarrow> instruction list \<Rightarrow> bytes \<Rightarrow> bytes \<Rightarrow> signed_data \<Rightarrow> account_meta list \<Rightarrow> instruction list option" where
  "signed_ix E B leading program_id sender sd additional =
     (case bo_signed B sd of
        None \<Rightarrow> None
      | Some data \<Rightarrow> Some (leading @ [\<lparr>in_program_id = program_id,
          in_accounts = [meta_new sender True, meta_new (derive_state_pda E program_id) False, meta_new (system_id E) False] @ additional,
          in_data = 2 # data\<rparr>]))"

definition mint_accounts :: "encoders \<Rightarrow> bytes \<Rightarrow> bytes \<Rightarrow> bytes \<Rightarrow> bytes \<Rightarrow> account_meta list" where
  "mint_accounts E program_id token_program sender mint_key =
     (let holder = derive_token_holder_acc E program_id mint_key in
      [meta_readonly mint_key False, meta_new (en_sol_token_account E sender mint_key token_program) False,
       meta_new holder False, meta_new (en_sol_token_account E holder mint_key token_program) False])"

definition regular_ix ::
  "encoders \<Rightarrow> sol_borsh \<Rightarrow> bytes \<Rightarrow> bool \<Rightarrow> bytes \<Rightarrow> key_registration list \<Rightarrow> u64 list \<Rightarrow> bytes list \<Rightarrow> instruction list option" where
  "regular_ix E B program_id token2022 sender keys amounts token_mints =
     (case bo_regular B keys amounts of
        None \<Rightarrow> None
      | Some data \<Rightarrow> Some [\<lparr>in_program_id = program_id,
          in_accounts = (if token_mints = [] then [meta_new sender True, meta_new (derive_state_pda E program_id) False]
            else [meta_new sender True, meta_new (derive_state_pda E program_id) False, meta_new (system_id E) False,
                  meta_new (token_program_id E False) False] @
              concat (map (mint_accounts E program_id (token_program_id E token2022) sender) token_mints)),
          in_data = 1 # data\<rparr>])"

section \<open>The submitter\<close>

datatype chain_args =
    ArgsCosmos string
  | ArgsSolana bytes "u64 option"
  | ArgsEthereum bytes
  | ArgsPassThrough u16

fun can_handle :: "chain_args \<Rightarrow> external_chain \<Rightarrow> bool" where
  "can_handle (ArgsCosmos _) chain = (to_cosmos_chain chain \<noteq> None)"
| "can_handle (ArgsSolana _ _) chain = (to_solana_chain chain \<noteq> None)"
| "can_handle (ArgsEthereum _) chain = (to_ethereum_chain chain \<noteq> None)"
| "can_handle (ArgsPassThrough _) chain = (chain = PassThrough)"

record submitter =
  sb_args :: chain_args
  sb_genesis_created :: "external_chain \<Rightarrow> string option"
  sb_triggered :: nat
  sb_last_submitted :: "external_chain \<Rightarrow> u64 option"

definition submitter_new :: "chain_args \<Rightarrow> submitter" where
  "submitter_new args = \<lparr>sb_args = args, sb_genesis_created = (\<lambda>_. None), sb_triggered = 0, sb_last_submitted = (\<lambda>_. None)\<rparr>"

text \<open>What sending to the external chains does.  An execution waits for the chain.\<close>

record ('w, 'd, 'k) senders =
  sn_cosmos_wallet :: "cosmos_chain \<Rightarrow> string \<Rightarrow> 'd chain_error + string"
  sn_cosmos_instantiate :: "cosmos_chain \<Rightarrow> string \<Rightarrow> u64 \<Rightarrow> validator_set \<Rightarrow> 'w \<Rightarrow> ('d chain_error + string) \<times> 'w"
  sn_cosmos_own_admin :: "cosmos_chain \<Rightarrow> string \<Rightarrow> string \<Rightarrow> 'w \<Rightarrow> ('d chain_error + unit) \<times> 'w"
  sn_cosmos_execute :: "cosmos_chain \<Rightarrow> string \<Rightarrow> string \<Rightarrow> cosmos_execute_msg \<Rightarrow> 'w \<Rightarrow> ('d chain_error + string) \<times> 'w"
  sn_sol_blockhash :: "solana_chain \<Rightarrow> 'w \<Rightarrow> 'd chain_error + bytes"
  sn_sol_send :: "solana_chain \<Rightarrow> bytes \<Rightarrow> instruction list \<Rightarrow> bytes \<Rightarrow> 'w \<Rightarrow> ('d chain_error + string) \<times> 'w"
  sn_eth_url :: "ethereum_chain \<Rightarrow> 'd chain_error + unit"
  sn_eth_deploy :: "ethereum_chain \<Rightarrow> bytes \<Rightarrow> bytes \<Rightarrow> 'w \<Rightarrow> ('d chain_error + bytes option) \<times> 'w"
  sn_eth_execute :: "ethereum_chain \<Rightarrow> bytes \<Rightarrow> bytes \<Rightarrow> bytes \<Rightarrow> bytes \<Rightarrow> bytes list \<Rightarrow> 'w \<Rightarrow> ('d chain_error + string) \<times> 'w"
  sn_eth_bytecode :: "'w \<Rightarrow> 'd chain_error + bytes"
  sn_eth_constructor :: "bytes \<Rightarrow> bytes list \<Rightarrow> u16 \<Rightarrow> bytes list \<Rightarrow> u16 \<Rightarrow> bytes"
  sn_pass_post :: "u16 \<Rightarrow> sigrec \<Rightarrow> sigrec list \<Rightarrow> string \<Rightarrow> 'w \<Rightarrow> ('d chain_error + unit) \<times> 'w"
  sn_borsh :: sol_borsh
  sn_random :: "'w \<Rightarrow> 'k"
  sn_state :: "'w \<Rightarrow> submitter"
  sn_put :: "submitter \<Rightarrow> 'w \<Rightarrow> 'w"

definition t_action :: "('w \<Rightarrow> ('d chain_error + 'a) \<times> 'w) \<Rightarrow> ('w, 'd chain_error, 'a) task" where
  "t_action f = t_bind (t_update f) t_result"

section \<open>Cosmos\<close>

definition cosmos_instantiate_bridge ::
  "('w, 'd, 'k) senders \<Rightarrow> cosmos_chain \<Rightarrow> string \<Rightarrow> u64 \<Rightarrow> validator_set \<Rightarrow> ('w, 'd chain_error, string) task" where
  "cosmos_instantiate_bridge S chain seed code_id vs =
     t_bind (t_result (sn_cosmos_wallet S chain seed)) (\<lambda>wallet.
     t_bind (t_action (sn_cosmos_instantiate S chain wallet code_id vs)) (\<lambda>contract.
     t_bind (t_action (sn_cosmos_own_admin S chain wallet contract)) (\<lambda>_. t_return contract)))"

definition cosmos_execute_signed ::
  "('w, 'd) clients \<Rightarrow> ('w, 'd, 'k) senders \<Rightarrow> cosmos_chain \<Rightarrow> string \<Rightarrow> string \<Rightarrow> sigrec \<Rightarrow> (public_key, sigrec) omap \<Rightarrow> string \<Rightarrow>
    ('w, 'd chain_error, string) task" where
  "cosmos_execute_signed C S chain seed contract processor_sig approvals payload =
     t_bind (t_result (cl_cosmos_address C contract)) (\<lambda>_.
     t_bind (t_result (sn_cosmos_wallet S chain seed)) (\<lambda>wallet.
       t_action (sn_cosmos_execute S chain wallet contract (CosmosSigned processor_sig (om_values approvals) payload))))"

section \<open>Solana\<close>

definition solana_instantiate_bridge ::
  "encoders \<Rightarrow> ('w, 'd, 'k) senders \<Rightarrow> solana_chain \<Rightarrow> bytes \<Rightarrow> string \<Rightarrow> validator_set \<Rightarrow> ('w, 'd chain_error, unit) task" where
  "solana_instantiate_bridge E S chain sender program_id vs =
     t_bind (t_result (ok_or (en_sol_from_str E program_id) (failure ''pubkey''))) (\<lambda>program_key.
     t_bind (t_query (sn_sol_blockhash S chain)) (\<lambda>blockhash.
     t_bind (t_result (ok_or (init_ix E (sn_borsh S) program_key sender vs) (failure ''borsh''))) (\<lambda>ixs.
     t_bind (t_action (sn_sol_send S chain sender ixs blockhash)) (\<lambda>_. t_return ()))))"

definition solana_metas :: "solana_action \<Rightarrow> account_meta list" where
  "solana_metas action =
     (case action of
        SolExecute ex \<Rightarrow> meta_new (se_program_id ex) False #
          map (\<lambda>(key, writable). \<lparr>am_pubkey = key, am_writable = writable, am_signer = False\<rparr>) (se_accounts ex)
      | _ \<Rightarrow> [])"

definition solana_execute_signed ::
  "encoders \<Rightarrow> (string \<Rightarrow> bytes option) \<Rightarrow> ('w, 'd, 'k) senders \<Rightarrow> solana_chain \<Rightarrow> bytes \<Rightarrow> u64 option \<Rightarrow> string \<Rightarrow> sigrec \<Rightarrow>
    (public_key, sigrec) omap \<Rightarrow> string \<Rightarrow> ('w, 'd chain_error, string) task" where
  "solana_execute_signed E b64 S chain sender fee_per_cu program_id processor_sig approvals payload_b64 =
     t_bind (t_result (ok_or (b64 payload_b64) (failure ''base64''))) (\<lambda>payload_bytes.
     t_bind (t_result (ok_or (bo_payload (sn_borsh S) payload_bytes) (failure ''borsh''))) (\<lambda>payload.
     t_bind (t_result (ok_or (en_sol_from_str E program_id) (failure ''pubkey''))) (\<lambda>program_key.
     t_bind (t_query (sn_sol_blockhash S chain)) (\<lambda>blockhash.
     t_bind (t_result (ok_or (signed_ix E (sn_borsh S)
         (case fee_per_cu of Some fee \<Rightarrow> [bo_unit_price (sn_borsh S) fee] | None \<Rightarrow> []) program_key sender
         \<lparr>sd_processor = processor_sig, sd_approvers = om_values approvals, sd_payload = payload_b64\<rparr>
         (solana_metas (sol_action payload))) (failure ''borsh''))) (\<lambda>ixs.
       t_action (sn_sol_send S chain sender ixs blockhash))))))"

section \<open>Ethereum\<close>

definition build_bridge_initcode :: "('w, 'd, 'k) senders \<Rightarrow> validator_set \<Rightarrow> bytes \<Rightarrow> bytes" where
  "build_bridge_initcode S vs bytecode =
     bytecode @ sn_eth_constructor S (pk_bytes (processor vs)) (map pk_bytes (listeners vs)) (needed_listeners vs)
       (map pk_bytes (approvers vs)) (needed_approvers vs)"

definition ethereum_instantiate_bridge ::
  "encoders \<Rightarrow> ('w, 'd, 'k) senders \<Rightarrow> ethereum_chain \<Rightarrow> bytes \<Rightarrow> validator_set \<Rightarrow> ('w, 'd chain_error, string) task" where
  "ethereum_instantiate_bridge E S chain signer vs =
     t_bind (t_result (sn_eth_url S chain)) (\<lambda>_.
     t_bind (t_query (sn_eth_bytecode S)) (\<lambda>bytecode.
     t_bind (t_action (sn_eth_deploy S chain signer (build_bridge_initcode S vs bytecode))) (\<lambda>receipt.
     t_bind (t_result (ok_or receipt (failure ''no contract address''))) (\<lambda>address. t_return (en_eth_to_str E address)))))"

definition to_ethereum_signature :: "sigrec \<Rightarrow> 'd chain_error + bytes" where
  "to_ethereum_signature sg =
     rbind (ensure (recid sg \<le> 1) (failure ''Invalid Ethereum recovery id'')) (\<lambda>_. Inr (sig_bytes (sig sg) @ [recid sg + 27]))"

definition prepare_execute_signed_args ::
  "(string \<Rightarrow> bytes option) \<Rightarrow> sigrec \<Rightarrow> (public_key, sigrec) omap \<Rightarrow> string \<Rightarrow> 'd chain_error + bytes \<times> bytes \<times> bytes list" where
  "prepare_execute_signed_args b64 processor_sig approvals payload_b64 =
     rbind (ok_or (b64 payload_b64) (failure ''base64'')) (\<lambda>payload.
     rbind (to_ethereum_signature processor_sig) (\<lambda>p.
     rbind (rmap to_ethereum_signature (om_values approvals)) (\<lambda>as. Inr (payload, p, as))))"

definition ethereum_execute_signed ::
  "encoders \<Rightarrow> (string \<Rightarrow> bytes option) \<Rightarrow> ('w, 'd, 'k) senders \<Rightarrow> ethereum_chain \<Rightarrow> bytes \<Rightarrow> string \<Rightarrow> sigrec \<Rightarrow>
    (public_key, sigrec) omap \<Rightarrow> string \<Rightarrow> ('w, 'd chain_error, string) task" where
  "ethereum_execute_signed E b64 S chain signer contract processor_sig approvals payload_b64 =
     t_bind (t_result (prepare_execute_signed_args b64 processor_sig approvals payload_b64)) (\<lambda>(payload, p, as).
     t_bind (t_result (sn_eth_url S chain)) (\<lambda>_.
     t_bind (t_result (ok_or (en_eth_from_str E contract) (failure ''address''))) (\<lambda>address.
       t_action (sn_eth_execute S chain signer address payload p as))))"

section \<open>Contracts the chain needs\<close>

datatype genesis_action =
    InstantiateCosmos cosmos_chain u64 validator_set
  | InstantiateSolana solana_chain string validator_set
  | InstantiateEthereum ethereum_chain validator_set

fun genesis_chain :: "genesis_action \<Rightarrow> external_chain" where
  "genesis_chain (InstantiateCosmos chain _ _) = of_cosmos_chain chain"
| "genesis_chain (InstantiateSolana chain _ _) = of_solana_chain chain"
| "genesis_chain (InstantiateEthereum chain _) = of_ethereum_chain chain"

fun next_genesis_action :: "validator_set \<Rightarrow> (external_chain \<times> 'd chain_state) list \<Rightarrow> 'd chain_error + genesis_action option" where
  "next_genesis_action vs [] = Inr None"
| "next_genesis_action vs ((chain, cs) # rest) =
     (case cc_bridge (cs_config cs) of
        NeededCosmosBridge code_id \<Rightarrow>
          rbind (ok_or (to_cosmos_chain chain) (CeKolme (Panic ''unwrap''))) (\<lambda>c. Inr (Some (InstantiateCosmos c code_id vs)))
      | NeededSolanaBridge program_id \<Rightarrow>
          rbind (ok_or (to_solana_chain chain) (CeKolme (Panic ''unwrap''))) (\<lambda>c. Inr (Some (InstantiateSolana c program_id vs)))
      | NeededEthereumBridge \<Rightarrow>
          rbind (ok_or (to_ethereum_chain chain) (CeKolme (Panic ''unwrap''))) (\<lambda>c. Inr (Some (InstantiateEthereum c vs)))
      | Deployed _ \<Rightarrow> next_genesis_action vs rest)"

definition get_next_genesis_action :: "'d framework_state \<Rightarrow> 'd chain_error + genesis_action option" where
  "get_next_genesis_action fs = next_genesis_action (fs_validator_set fs) (fs_chains fs)"

definition record_genesis :: "('w, 'd, 'k) senders \<Rightarrow> external_chain \<Rightarrow> string \<Rightarrow> ('w, 'd chain_error, unit) task" where
  "record_genesis S chain address = t_update (\<lambda>w. ((), sn_put S ((sn_state S w)
     \<lparr>sb_genesis_created := (sb_genesis_created (sn_state S w))(chain \<mapsto> address),
      sb_triggered := sb_triggered (sn_state S w) + 1\<rparr>) w))"

fun handle_genesis ::
  "('w, 'd, 'm, 's, 'st, 'c, 'ct, 'cb, 'k) agent \<Rightarrow> ('w, 'd) clients \<Rightarrow> ('w, 'd, 'k) senders \<Rightarrow> genesis_action \<Rightarrow>
    ('w, 'd chain_error, unit) task" where
  "handle_genesis A C S (InstantiateCosmos chain code_id vs) =
     t_bind (t_get (sn_state S)) (\<lambda>sb. case sb_args sb of
        ArgsCosmos seed \<Rightarrow>
          if sb_genesis_created sb (of_cosmos_chain chain) \<noteq> None then t_return ()
          else t_bind (t_query (cl_cosmos C chain)) (\<lambda>_.
               t_bind (cosmos_instantiate_bridge S chain seed code_id vs) (\<lambda>address.
                 record_genesis S (of_cosmos_chain chain) address))
      | _ \<Rightarrow> t_return ())"
| "handle_genesis A C S (InstantiateSolana chain program_id vs) =
     t_bind (t_get (sn_state S)) (\<lambda>sb. case sb_args sb of
        ArgsSolana sender _ \<Rightarrow>
          if sb_genesis_created sb (of_solana_chain chain) \<noteq> None then t_return ()
          else t_bind (solana_instantiate_bridge (e_enc (kx_env (px_node (ag_env A)))) S chain sender program_id vs) (\<lambda>_.
                 record_genesis S (of_solana_chain chain) program_id)
      | _ \<Rightarrow> t_return ())"
| "handle_genesis A C S (InstantiateEthereum chain vs) =
     t_bind (t_get (sn_state S)) (\<lambda>sb. case sb_args sb of
        ArgsEthereum signer \<Rightarrow>
          if sb_genesis_created sb (of_ethereum_chain chain) \<noteq> None then t_return ()
          else t_bind (ethereum_instantiate_bridge (e_enc (kx_env (px_node (ag_env A)))) S chain signer vs) (\<lambda>address.
                 record_genesis S (of_ethereum_chain chain) address)
      | _ \<Rightarrow> t_return ())"

section \<open>Proposing the new contract\<close>

definition propose_contract ::
  "('w, 'd, 'm, 's, 'st, 'c, 'ct, 'cb, 'k) agent \<Rightarrow> ('w, 'd, 'k) senders \<Rightarrow> external_chain \<Rightarrow> string \<Rightarrow> ('w, 'd chain_error, unit) task" where
  "propose_contract A S chain address =
     t_bind (t_get (\<lambda>w. (sn_random S w, ag_clock A w))) (\<lambda>(secret, now).
     t_bind (t_result (create_signed_transaction_with (ag_env A) secret (tx_builder_of [MsgListener chain 0 (Instantiated address)])
       (px_public (ag_env A) secret) 0 now)) (\<lambda>tx.
     t_bind (t_propose A tx) (\<lambda>r. case r of
        Inl _ \<Rightarrow> t_result (Inl (failure ''not proposed''))
      | Inr _ \<Rightarrow> t_return ())))"

text \<open>The task that proposes what was created again until the chain knows it.\<close>

definition submitter_genesis ::
  "('w, 'd, 'm, 's, 'st, 'c, 'ct, 'cb, 'k) agent \<Rightarrow> ('w, 'd, 'k) senders \<Rightarrow> ('w, 'd chain_error, unit) task" where
  "submitter_genesis A S = t_loop (\<lambda>_.
     t_bind (t_query (\<lambda>w. get_next_genesis_action (bs_fs (ag_state A w)))) (\<lambda>action. case action of
        None \<Rightarrow> t_return (Inr ())
      | Some action \<Rightarrow>
          t_bind (t_get (\<lambda>w. sb_genesis_created (sn_state S w) (genesis_chain action))) (\<lambda>created.
          t_bind (case created of
              Some contract \<Rightarrow> t_bind (t_try (propose_contract A S (genesis_chain action) contract)) (\<lambda>_ :: 'd chain_error + unit. t_return ())
            | None \<Rightarrow> t_return ()) (\<lambda>_.
          t_bind t_wait (\<lambda>_. t_return (Inl ())))))) ()"

section \<open>Submitting actions\<close>

text \<open>Sending an approved action to the contract, if the submitter has the arguments for the chain.\<close>

definition submit_to_contract ::
  "('w, 'd, 'm, 's, 'st, 'c, 'ct, 'cb, 'k) agent \<Rightarrow> ('w, 'd) clients \<Rightarrow> ('w, 'd, 'k) senders \<Rightarrow> chain_args \<Rightarrow> external_chain \<Rightarrow>
    string \<Rightarrow> sigrec \<Rightarrow> pending_bridge_action \<Rightarrow> ('w, 'd chain_error, string option) task" where
  "submit_to_contract A C S args chain contract processor_sig action =
     (let E = kx_env (px_node (ag_env A)); enc = e_enc E; b64 = e_b64_decode E in
      case args of
        ArgsCosmos seed \<Rightarrow>
          (case to_cosmos_chain chain of
             None \<Rightarrow> t_return None
           | Some c \<Rightarrow>
               t_bind (t_query (cl_cosmos C c)) (\<lambda>_.
               t_bind (cosmos_execute_signed C S c seed contract processor_sig (pa_approvals action) (pa_payload action))
                 (\<lambda>tx_hash. t_return (Some tx_hash))))
      | ArgsSolana sender fee_per_cu \<Rightarrow>
          (case to_solana_chain chain of
             None \<Rightarrow> t_return None
           | Some c \<Rightarrow>
               t_bind (solana_execute_signed enc b64 S c sender fee_per_cu contract processor_sig (pa_approvals action) (pa_payload action))
                 (\<lambda>tx_hash. t_return (Some tx_hash)))
      | ArgsPassThrough port \<Rightarrow>
          t_bind (t_result (ensure (chain = PassThrough) (failure ''chain == PassThrough''))) (\<lambda>_.
          t_bind (t_action (sn_pass_post S port processor_sig (om_values (pa_approvals action)) (pa_payload action)))
            (\<lambda>_. t_return (Some ''no-tx-hash-for-pass-through'')))
      | ArgsEthereum signer \<Rightarrow>
          (case to_ethereum_chain chain of
             None \<Rightarrow> t_return None
           | Some c \<Rightarrow>
               t_bind (ethereum_execute_signed enc b64 S c signer contract processor_sig (pa_approvals action) (pa_payload action))
                 (\<lambda>tx_hash. t_return (Some tx_hash))))"

definition handle_bridge_action ::
  "('w, 'd, 'm, 's, 'st, 'c, 'ct, 'cb, 'k) agent \<Rightarrow> ('w, 'd) clients \<Rightarrow> ('w, 'd, 'k) senders \<Rightarrow> u64 \<Rightarrow> external_chain \<Rightarrow>
    pending_bridge_action \<Rightarrow> ('w, 'd chain_error, unit) task" where
  "handle_bridge_action A C S action_id chain action =
     (case pa_processor action of
        None \<Rightarrow> t_return ()
      | Some processor_sig \<Rightarrow>
          t_bind (t_get (sn_state S)) (\<lambda>sb.
          if (case sb_last_submitted sb chain of Some last_id \<Rightarrow> action_id \<le> last_id | None \<Rightarrow> False) then t_return ()
          else
            t_bind (t_query (\<lambda>w. lift_err CeKolme (chains_get (bs_fs (ag_state A w)) chain))) (\<lambda>cs.
            case cc_bridge (cs_config cs) of
              Deployed contract \<Rightarrow>
                t_bind (submit_to_contract A C S (sb_args sb) chain contract processor_sig action) (\<lambda>sent. case sent of
                   None \<Rightarrow> t_return ()
                 | Some _ \<Rightarrow> t_update (\<lambda>w. ((), sn_put S ((sn_state S w)
                     \<lparr>sb_last_submitted := (sb_last_submitted (sn_state S w))(chain \<mapsto> action_id)\<rparr>) w)))
            | _ \<Rightarrow> t_return ())))"

text \<open>The first chain that has an action decides: the chains after it are not looked at.\<close>

fun submit_first ::
  "('w, 'd, 'm, 's, 'st, 'c, 'ct, 'cb, 'k) agent \<Rightarrow> ('w, 'd) clients \<Rightarrow> ('w, 'd, 'k) senders \<Rightarrow> external_chain list \<Rightarrow>
    ('w, 'd chain_error, unit) task" where
  "submit_first A C S [] = t_return ()"
| "submit_first A C S (chain # rest) =
     t_bind (t_query (\<lambda>w. lift_err CeKolme (get_next_bridge_action (bs_fs (ag_state A w)) chain))) (\<lambda>due. case due of
        Some (action_id, action) \<Rightarrow> handle_bridge_action A C S action_id chain action
      | None \<Rightarrow> submit_first A C S rest)"

definition submit_zero_or_one ::
  "('w, 'd, 'm, 's, 'st, 'c, 'ct, 'cb, 'k) agent \<Rightarrow> ('w, 'd) clients \<Rightarrow> ('w, 'd, 'k) senders \<Rightarrow> external_chain list \<Rightarrow>
    ('w, 'd chain_error, unit) task" where
  "submit_zero_or_one A C S bridges =
     t_bind (t_query (\<lambda>w. get_next_genesis_action (bs_fs (ag_state A w)))) (\<lambda>genesis. case genesis of
        Some action \<Rightarrow> handle_genesis A C S action
      | None \<Rightarrow> submit_first A C S bridges)"

definition submitter_ongoing ::
  "('w, 'd, 'm, 's, 'st, 'c, 'ct, 'cb, 'k) agent \<Rightarrow> ('w, 'd) clients \<Rightarrow> ('w, 'd, 'k) senders \<Rightarrow> external_chain list \<Rightarrow>
    ('w, 'd chain_error, unit) task" where
  "submitter_ongoing A C S bridges =
     t_loop (\<lambda>_. t_bind t_wait (\<lambda>_. t_bind (submit_zero_or_one A C S bridges) (\<lambda>_. t_return (Inl ())))) ()"

text \<open>\<open>Submitter::run\<close> up to the point where its two tasks, \<open>submitter_genesis\<close> and \<open>submitter_ongoing\<close>, run side by
  side: the chains it serves, if any.\<close>

definition submitter_start ::
  "('w, 'd, 'm, 's, 'st, 'c, 'ct, 'cb, 'k) agent \<Rightarrow> ('w, 'd) clients \<Rightarrow> ('w, 'd, 'k) senders \<Rightarrow>
    ('w, 'd chain_error, external_chain list) task" where
  "submitter_start A C S =
     t_bind (t_get (\<lambda>w. filter (can_handle (sb_args (sn_state S w))) (om_keys (fs_chains (bs_fs (ag_state A w)))))) (\<lambda>bridges.
     if bridges = [] then t_return []
     else t_bind (submit_zero_or_one A C S bridges) (\<lambda>_. t_return bridges))"

end
