(* ===== verification/Agent_Props.thy ===== *)
theory Agent_Props
  imports Agents Ethereum_Listener Submitters Processor_Props
begin

text \<open>
  What the agents send and what the chain makes of it: votes and reports that are accepted, events reported in order
  and without gaps, and the places where an agent does more, or less, than it should.
\<close>

section \<open>An agent to evaluate\<close>

text \<open>The world is the node itself.\<close>

type_synonym sample_world = "(int, unit, unit, kv, (u64 \<times> (int, unit) signed_block storable_block) list,
  (hash \<times> (int, unit) mempool_item) list, (hash \<times> (int, unit) block_reason) list) kolme"

definition sample_agent :: "(sample_world, int, unit, unit, kv, (u64 \<times> (int, unit) signed_block storable_block) list,
  (hash \<times> (int, unit) mempool_item) list, (hash \<times> (int, unit) block_reason) list, u8) agent" where
  "sample_agent = \<lparr>ag_env = sample_penv, ag_node = (\<lambda>w. w), ag_put = (\<lambda>k _. k), ag_clock = (\<lambda>_. 0), ag_request_block = (\<lambda>_ w. w),
     ag_upgrade_json = (\<lambda>_. Some ''upgrade''), ag_set_json = (\<lambda>_. Some ''set''), ag_replace_json = (\<lambda>_. Some ''replace'')\<rparr>"

lemma sample_agent_simps:
  "ag_env sample_agent = sample_penv" "ag_node sample_agent = (\<lambda>w. w)" "ag_put sample_agent = (\<lambda>k _. k)" "ag_clock sample_agent = (\<lambda>_. 0)"
  "px_public sample_penv k = PublicKey [k]" "px_sign sample_penv k m = \<lparr>recid = 0, sig = Signature [k]\<rparr>"
  by (simp_all add: sample_agent_def sample_penv_def)

definition at_state :: "int framework_state \<Rightarrow> sample_world" where
  "at_state fs = first_node\<lparr>km_current := NoBlock \<lparr>bs_blockhash = [], bs_fs = fs, bs_app_state = ()\<rparr>\<rparr>"

lemma at_state_fs [simp]: "bs_fs (ag_state sample_agent (at_state fs)) = fs"
  by (simp add: ag_state_def sample_agent_simps at_state_def km_state_def)

text \<open>A node that has just heard that the transaction landed.\<close>

definition landed_at :: "int framework_state \<Rightarrow> sample_world" where
  "landed_at fs = (at_state fs)\<lparr>km_mempool := \<lparr>mp_txs = [], mp_blocked = [(pad_sha (str_bytes ''tx''), InBlock stray_block)], mp_notify = 0\<rparr>\<rparr>"

lemma landed_at_fs [simp]: "bs_fs (ag_state sample_agent (landed_at fs)) = fs"
  by (simp add: ag_state_def sample_agent_simps landed_at_def at_state_def km_state_def)

lemma sample_send:
  assumes "get_account_for_key (fs_accounts fs) (PublicKey [secret]) = (Inr None :: int kerr + _)"
  shows "t_send sample_agent secret msgs (landed_at fs, moves) = (Some (Inr ()), landed_at fs, moves)"
proof -
  have pool: "propose_transaction fjall_env tx (landed_at fs) = (Inl (ProposedInBlock stray_block), landed_at fs)"
    if "tx_hash tx = pad_sha (str_bytes ''tx'')" for tx
    using that unfolding propose_transaction_def sample_penv_simps(4)
    by (simp add: pool_add_def landed_at_def plain_env_def list_lru_def promote_def without_def Let_def)
  have tx: "\<exists>tx. create_signed_transaction_with sample_penv secret (tx_builder_of msgs) (PublicKey [secret]) 0 0 = Inr tx \<and>
      tx_hash tx = pad_sha (str_bytes ''tx'')"
    by (simp add: create_signed_transaction_with_def sign_json_def tj_new_def sample_penv_simps)
      (simp add: sample_penv_def tj_sign_def Let_def tx_hash_def message_hash_def)
  then obtain tx where tx: "create_signed_transaction_with sample_penv secret (tx_builder_of msgs) (PublicKey [secret]) 0 0 = Inr tx"
      "tx_hash tx = pad_sha (str_bytes ''tx'')" by blast
  have await: "propose_and_await_inner sample_agent tx (landed_at fs, moves) = (Some (Inr stray_block), landed_at fs, moves)"
    by (simp add: propose_and_await_inner_def t_loop.simps t_propose_def task_simps sample_agent_simps sample_penv_simps(1) pool [OF tx(2)])
  show ?thesis
    using assms tx(1) await
    by (simp add: t_send_def sign_propose_await_def t_bind_def t_get_def t_result_def t_return_def t_try_def get_next_nonce_def
        sample_agent_simps max_nonce_attempts_def)
qed

section \<open>Approver\<close>

text \<open>C20: the vote an approver sends is one the chain accepts, whatever else is pending, and when it has landed the
  approver has nothing more to say about the bridge until another action is due: it neither votes twice nor sends votes that fail.\<close>

theorem approver_vote_is_accepted:
  fixes fs :: "'d framework_state"
  assumes "approver_message A secret chain fs = Inr (Some msg)"
    and "sign_recovers (e_recover (kx_env (px_node (ag_env A)))) (px_sign (ag_env A)) (px_public (ag_env A))"
    and "px_public (ag_env A) secret \<in> set (approvers (fs_validator_set fs))"
  shows "\<exists>action_id sg fs'. msg = MsgApprove chain action_id sg \<and>
    approve (kx_env (px_node (ag_env A))) chain action_id sg fs = Inr fs' \<and> approver_message A secret chain fs' = Inr None"
proof -
  let ?E = "kx_env (px_node (ag_env A))" and ?key = "px_public (ag_env A) secret"
  obtain cs i action where cs: "om_get (fs_chains fs) chain = Some cs" "om_first (cs_pending_actions cs) = Some (i, action)"
      "\<not> om_contains (pa_approvals action) ?key"
    using assms(1) by (cases "om_get (fs_chains fs) chain"; cases "om_first (cs_pending_actions (the (om_get (fs_chains fs) chain)))")
      (auto simp: approver_message_def get_next_bridge_action_def chains_get_def split: if_splits)
  obtain rest where rest: "cs_pending_actions cs = (i, action) # rest"
    using cs(2) by (cases "cs_pending_actions cs") (auto simp: om_first_def)
  obtain payload where payload: "payload_bytes_to_sign (e_b64_decode ?E) action chain = (Inr payload :: 'd kerr + bytes)"
      "msg = MsgApprove chain i (px_sign (ag_env A) secret payload)"
    using assms(1) cs by (auto simp: approver_message_def get_next_bridge_action_def chains_get_def result_simps)
  have "sig_validate (e_recover ?E) (px_sign (ag_env A) secret payload) payload = Some ?key"
    using assms(2) by (simp add: sign_recovers_def sig_validate_def)
  moreover have "om_get (pa_approvals action) ?key = None" using cs(3) by (simp add: om_contains_def)
  ultimately show ?thesis using cs(1) rest payload assms(3)
    by (simp add: approve_def on_chain_def chains_get_def put_chain_def approver_message_def get_next_bridge_action_def
        om_first_def om_contains_def)
qed

definition waiting_fs :: "int framework_state" where
  "waiting_fs = put_chain OsmosisLocal ((into_state (snd (gi_chains sample_genesis ! 0)))\<lparr>cs_pending_actions :=
       [(0, \<lparr>pa_payload = ''pay'', pa_approvals = [], pa_processor = None\<rparr>)]\<rparr>) (fs_new sample_genesis)"

theorem approver_vote_is_accepted_witness:
  "approver_message sample_agent 3 OsmosisLocal waiting_fs = Inr (Some (MsgApprove OsmosisLocal 0 \<lparr>recid = 0, sig = Signature [3]\<rparr>)) \<and>
   is_ok (approve sample_env OsmosisLocal 0 \<lparr>recid = 0, sig = Signature [3]\<rparr> waiting_fs)"
proof -
  have msg: "approver_message sample_agent 3 OsmosisLocal waiting_fs = Inr (Some (MsgApprove OsmosisLocal 0 \<lparr>recid = 0, sig = Signature [3]\<rparr>))"
    by (simp add: approver_message_def get_next_bridge_action_def chains_get_def waiting_fs_def put_chain_def om_first_def om_contains_def
        sample_agent_simps payload_bytes_to_sign_def chain_name_of_def)
  have vs: "px_public (ag_env sample_agent) 3 \<in> set (approvers (fs_validator_set waiting_fs))"
    by (simp add: sample_agent_simps waiting_fs_def put_chain_def fs_new_def sample_genesis_def sample_set_def)
  have signs: "sign_recovers (e_recover (kx_env (px_node (ag_env sample_agent)))) (px_sign (ag_env sample_agent)) (px_public (ag_env sample_agent))"
    using sample_signs by (simp add: sample_agent_def sample_penv_simps)
  show ?thesis using approver_vote_is_accepted [OF msg signs vs] msg
    by (auto simp: sample_agent_def sample_penv_simps is_ok_iff)
qed

section \<open>Which event a listener reports\<close>

lemma find_least:
  assumes "om_wf m" "find P m = Some e"
  shows "e \<in> set m \<and> P e \<and> (\<forall>e' \<in> set m. fst e' < fst e \<longrightarrow> \<not> P e')"
  using assms
proof (induction m)
  case (Cons a m)
  show ?case
  proof (cases "P a")
    case True
    then have "e = a" using Cons.prems(2) by simp
    moreover have "\<forall>k' \<in> fst ` set m. fst a < k'" "om_wf m" using Cons.prems(1) by (cases a; simp add: om_wf_Cons)+
    ultimately show ?thesis using True by force
  next
    case False
    then have "find P m = Some e" "om_wf m" using Cons.prems by (cases a; simp add: om_wf_Cons)+
    then show ?thesis using Cons.IH False by auto
  qed
qed simp

lemma find_after_insert:
  assumes "om_wf m" "\<not> P (i, v)" "\<forall>e \<in> set m. fst e < i \<longrightarrow> \<not> P e" "find P (om_insert i v m) = Some e"
  shows "i < fst e \<and> e \<in> set m"
proof -
  have wf: "om_wf (om_insert i v m)" using assms(1) by (rule om_wf_insert)
  have e: "e \<in> set (om_insert i v m)" "P e" using find_least [OF wf assms(4)] by blast+
  have g: "om_get (om_insert i v m) (fst e) = Some (snd e)"
    by (simp only: om_get_iff_in_set [OF wf] prod.collapse e(1))
  have ne: "fst e \<noteq> i"
  proof
    assume a: "fst e = i"
    then have "snd e = v" using g by simp
    then have "e = (i, v)" using a by (simp add: prod_eq_iff)
    then show False using assms(2) e(2) by simp
  qed
  then have "om_get m (fst e) = Some (snd e)" using g by simp
  then have m: "e \<in> set m" using om_get_in_set by fastforce
  then show ?thesis using ne assms(3) e(2) by force
qed


definition reported_fs :: "int framework_state" where
  "reported_fs = put_chain OsmosisLocal ((into_state (snd (gi_chains sample_genesis ! 0)))\<lparr>cs_next_event_id := 2, cs_pending_events :=
       [(0, \<lparr>pe_event = Instantiated ''a'', pe_attestations = [PublicKey [2]]\<rparr>),
        (1, \<lparr>pe_event = Signed ''w'' 0, pe_attestations = [PublicKey [7]]\<rparr>)]\<rparr>) (fs_new sample_genesis)"


section \<open>Events of an Ethereum bridge\<close>

text \<open>The numbers of the events in the logs that a poll does not skip.\<close>

definition event_ids :: "('w, 'd) clients \<Rightarrow> eth_cursor \<Rightarrow> eth_log list \<Rightarrow> u64 list" where
  "event_ids C cur entries = concat (map (\<lambda>l.
     if should_skip_log l (cu_next_block cur) (cu_first_log_index cur) then []
     else case event_from_log C l of Inr (Some ev) \<Rightarrow> [fr_event_id ev] | _ \<Rightarrow> []) entries)"

lemma process_event_id:
  assumes "process_event A C secret chain l next_id w = (Some (Inr next'), w')"
  shows "(event_from_log C l = Inr None \<and> next' = next_id) \<or>
    (\<exists>ev. event_from_log C l = Inr (Some ev) \<and> fr_event_id ev = next_id \<and> next' = next_id + 1)"
  using assms by (auto simp: process_event_def task_simps ensure_def split: option.splits sum.splits prod.splits if_splits)

lemma process_logs_in_order:
  assumes "process_logs A C secret chain entries cur w = (Some (Inr cur'), w')"
  shows "event_ids C cur entries = map (\<lambda>n. cu_next_id cur + of_nat n) [0..<length (event_ids C cur entries)] \<and>
    cur' = cur\<lparr>cu_next_id := cu_next_id cur + of_nat (length (event_ids C cur entries))\<rparr>"
  using assms
proof (induction A C secret chain entries cur arbitrary: w rule: process_logs.induct)
  case (1 A C secret chain cur)
  then show ?case by (simp add: t_return_def event_ids_def)
next
  case (2 A C secret chain l rest cur)
  show ?case
  proof (cases "should_skip_log l (cu_next_block cur) (cu_first_log_index cur)")
    case True
    then show ?thesis using "2.IH"(1) [OF True] "2.prems" by (simp add: event_ids_def)
  next
    case False
    then obtain next' w1 where pe: "process_event A C secret chain l (cu_next_id cur) w = (Some (Inr next'), w1)"
        "process_logs A C secret chain rest (cur\<lparr>cu_next_id := next'\<rparr>) w1 = (Some (Inr cur'), w')"
      using "2.prems" by (auto simp: t_bind_def split: option.splits sum.splits prod.splits)
    let ?ids = "event_ids C cur rest"
    have same: "event_ids C (cur\<lparr>cu_next_id := next'\<rparr>) rest = ?ids" by (simp add: event_ids_def)
    have ih: "?ids = map (\<lambda>n. next' + of_nat n) [0..<length ?ids]" "cur' = cur\<lparr>cu_next_id := next' + of_nat (length ?ids)\<rparr>"
      using "2.IH"(2) [OF False pe(2)] unfolding same by simp_all
    from process_event_id [OF pe(1)] show ?thesis
    proof (elim disjE exE conjE)
      assume "event_from_log C l = Inr None" "next' = cu_next_id cur"
      then show ?thesis using ih False by (simp add: event_ids_def)
    next
      fix ev assume ev: "event_from_log C l = Inr (Some ev)" "fr_event_id ev = cu_next_id cur" "next' = cu_next_id cur + 1"
      then have ids: "event_ids C cur (l # rest) = cu_next_id cur # ?ids" using False by (simp add: event_ids_def)
      have "map (\<lambda>n. cu_next_id cur + of_nat n) [0..<Suc (length ?ids)] = cu_next_id cur # map (\<lambda>n. next' + of_nat n) [0..<length ?ids]"
        using ev(3) by (simp add: upt_conv_Cons map_Suc_upt [symmetric] comp_def add.assoc del: upt_Suc map_Suc_upt)
      then show ?thesis using ih ids ev(3) by (simp add: add.assoc del: upt_Suc)
    qed
  qed
qed


section \<open>Events of a Solana bridge\<close>

text \<open>All messages in the logs of the transactions.\<close>

definition transaction_message ::
  "('w, 'd) clients \<Rightarrow> (string \<Rightarrow> bytes option) \<Rightarrow> solana_chain \<Rightarrow> 'w \<Rightarrow> sol_signature \<Rightarrow> 'd chain_error + bridge_log option" where
  "transaction_message C b64 chain w tx =
     (if ss_failed tx then Inr None
      else rbind (cl_sol_signature C (ss_signature tx)) (\<lambda>sg. rbind (cl_sol_transaction C chain sg w) (\<lambda>meta.
        case meta of Some (Some entries) \<Rightarrow> extract_bridge_message C b64 entries | _ \<Rightarrow> Inr None)))"

lemma missed_messages_Cons:
  "missed_messages C b64 chain last_seen (tx # txs) w = rbind (transaction_message C b64 chain w tx) (\<lambda>m. case m of
     None \<Rightarrow> missed_messages C b64 chain last_seen txs w
   | Some msg \<Rightarrow> if log_id msg \<le> last_seen then Inr []
       else rbind (missed_messages C b64 chain last_seen txs w) (\<lambda>rest. Inr (msg # rest)))"
proof (cases "cl_sol_signature C (ss_signature tx)")
  case (Inr sg)
  then show ?thesis
    by (cases "cl_sol_transaction C chain sg w") (simp_all add: transaction_message_def split: option.split)
qed (simp add: transaction_message_def)

lemma missed_messages_filter:
  assumes "rmap (transaction_message C b64 chain w) txs = Inr found"
    and "sorted_wrt (\<lambda>a b. log_id b < log_id a) (List.map_filter (\<lambda>m. m) found)"
  shows "missed_messages C b64 chain last_seen txs w = Inr (filter (\<lambda>m. last_seen < log_id m) (List.map_filter (\<lambda>m. m) found))"
  using assms
proof (induction txs arbitrary: found)
  case Nil
  then show ?case by (simp add: map_filter_simps)
next
  case (Cons tx txs)
  then obtain m ms where m: "transaction_message C b64 chain w tx = Inr m" "rmap (transaction_message C b64 chain w) txs = Inr ms"
      "found = m # ms"
    by (auto simp: result_simps)
  let ?ms = "List.map_filter (\<lambda>m. m) ms"
  have ih: "missed_messages C b64 chain last_seen txs w = Inr (filter (\<lambda>m. last_seen < log_id m) ?ms)"
    using Cons.IH [OF m(2)] Cons.prems(2) m(3) by (simp add: map_filter_simps split: option.splits)
  have "filter (\<lambda>m. last_seen < log_id m) ?ms = []" if "m = Some x" "log_id x \<le> last_seen" for x
    using that Cons.prems(2) m(3) by (auto simp: map_filter_simps filter_empty_conv)
  then show ?case unfolding missed_messages_Cons m(1,3)
    by (cases m) (simp_all add: map_filter_simps ih not_le)
qed

lemma falling_ids_iff: "falling_ids ms \<longleftrightarrow> sorted_wrt (\<lambda>a b. log_id b < log_id a) ms"
proof (induction ms rule: falling_ids.induct)
  case (1 a b rest)
  then show ?case by (auto intro: less_trans)
qed simp_all

text \<open>C23: when the transactions of a Solana bridge carry its events latest first, one each, catching up reports exactly the events
  after the last one seen, oldest first, in one transaction, and goes on after the latest; when there are none it sends nothing.\<close>

theorem solana_catch_up_complete:
  assumes "cl_sol_signatures C chain contract w = Inr txs"
    and "rmap (transaction_message C (e_b64_decode (kx_env (px_node (ag_env A)))) chain w) txs = Inr found"
    and "sorted_wrt (\<lambda>a b. log_id b < log_id a) (List.map_filter (\<lambda>m. m) found)"
  shows "solana_catch_up A C secret last_seen chain contract (w, moves) =
    (case filter (\<lambda>m. last_seen < log_id m) (List.map_filter (\<lambda>m. m) found) of
       [] \<Rightarrow> (Some (Inr None), w, moves)
     | latest # older \<Rightarrow>
         t_bind (t_send A secret (map (\<lambda>m. solana_to_message C m chain) (rev older @ [latest])))
           (\<lambda>_. t_return (Some (log_id latest))) (w, moves))"
proof -
  have "falling_ids (filter (\<lambda>m. last_seen < log_id m) (List.map_filter (\<lambda>m. m) found))"
    using assms(3) by (simp add: falling_ids_iff sorted_wrt_filter)
  then show ?thesis
    using assms(1) missed_messages_filter [OF assms(2,3), of last_seen]
    by (simp add: solana_catch_up_def t_query_def t_bind_def t_get_def t_result_def t_return_def split: list.split)
qed

section \<open>What the upgrader votes for\<close>

lemma scan_proposals_other:
  assumes "\<forall>e \<in> set pre. \<exists>u. pp_payload (snd e) = ProposeUpgrade u \<and> desired_version (tj_value u) \<noteq> version"
    and "\<not> is_upgrade (pp_payload p)" "\<not> om_contains (pp_approvals p) key"
  shows "scan_proposals version key (pre @ (i, p) # rest) = UpVote i (pp_payload p)"
  using assms
proof (induction pre)
  case Nil
  then show ?case by (cases "pp_payload p") auto
next
  case (Cons e pre)
  then show ?case by (cases e) auto
qed

text \<open>C38: an upgrader that does not run the version it wants votes for the first proposal that is not an upgrade to another
  version, and that includes every proposal of another kind: a new validator set or a migration of a contract that nobody at
  this node has looked at.  The chain accepts and counts the vote.\<close>

theorem upgrader_votes_for_other_kinds:
  fixes c :: "('d, 's) exec_ctx" and w :: 'w
  assumes "bs_fs (ag_state A w) = ec_fs c" "ec_pubkey c = px_public (ag_env A) secret"
    and "fs_version (ec_fs c) \<noteq> version" "is_validator (fs_validator_set (ec_fs c)) (px_public (ag_env A) secret)"
    and "ap_proposals (fs_admin (ec_fs c)) = pre @ (i, p) # rest" "om_wf (ap_proposals (fs_admin (ec_fs c)))"
    and "\<forall>e \<in> set pre. \<exists>u. pp_payload (snd e) = ProposeUpgrade u \<and> desired_version (tj_value u) \<noteq> version"
    and "\<not> is_upgrade (pp_payload p)" "\<not> om_contains (pp_approvals p) (px_public (ag_env A) secret)"
    and "sign_recovers (e_recover (kx_env (px_node (ag_env A)))) (px_sign (ag_env A)) (px_public (ag_env A))"
  shows "\<exists>sg. run_single A version secret (w, moves) = t_send A secret [MsgAdmin (AdminApprove i sg)] (w, moves) \<and>
    admin_approve (kx_env (px_node (ag_env A))) i sg c =
      check_pending_proposals (kx_env (px_node (ag_env A))) (c\<lparr>ec_fs := (ec_fs c)\<lparr>fs_admin := (fs_admin (ec_fs c))\<lparr>ap_proposals :=
        om_insert i (p\<lparr>pp_approvals := om_insert (px_public (ag_env A) secret) sg (pp_approvals p)\<rparr>)
          (ap_proposals (fs_admin (ec_fs c)))\<rparr>\<rparr>\<rparr>)"
proof -
  let ?key = "px_public (ag_env A) secret" and ?sg = "px_sign (ag_env A) secret (payload_as_bytes (pp_payload p))"
  have step: "upgrader_step version ?key (ec_fs c) = UpVote i (pp_payload p)"
    using assms(3,4) scan_proposals_other [OF assms(7-9)] assms(5) by (simp add: upgrader_step_def ensure_is_validator_def is_ok_def)
  have run: "run_single A version secret (w, moves) = t_send A secret [MsgAdmin (AdminApprove i ?sg)] (w, moves)"
    by (simp add: run_single_def t_bind_def t_get_def assms(1) step vote_on_upgrade_def admin_approval_def)
  have get: "om_get (ap_proposals (fs_admin (ec_fs c))) i = Some p"
    using om_get_iff_in_set [OF assms(6), of i p] assms(5) by simp
  have "sig_validate (e_recover (kx_env (px_node (ag_env A)))) ?sg (payload_as_bytes (pp_payload p)) = Some ?key"
    using assms(10) by (simp add: sign_recovers_def sig_validate_def)
  moreover have "om_get (pp_approvals p) ?key = None" using assms(9) by (simp add: om_contains_def)
  ultimately show ?thesis using run get assms(2,4)
    by (intro exI [of _ ?sg]) (simp add: admin_approve_def ensure_is_validator_def)
qed

text \<open>A listener proposes a set of its own; the upgrader of the processor's node votes for it, and it takes over the chain.\<close>

definition usurpers :: validator_set where
  "usurpers = \<lparr>processor = PublicKey [2], listeners = [PublicKey [2]], needed_listeners = 1, approvers = [PublicKey [2]], needed_approvers = 1\<rparr>"

definition usurping_ctx :: "(int, unit) exec_ctx" where
  "usurping_ctx = \<lparr>ec_fs = (fs_new sample_genesis)\<lparr>fs_admin := \<lparr>ap_next_id = 1, ap_proposals = [(0,
       \<lparr>pp_payload = ProposeNewSet \<lparr>tj_serialized = ''set'', tj_hash = [], tj_value = usurpers\<rparr>,
        pp_approvals = [(PublicKey [2], \<lparr>recid = 0, sig = Signature [2]\<rparr>)]\<rparr>)]\<rparr>\<rparr>,
     ec_app_state = (), ec_logs = [[]], ec_loads = [], ec_handling = NoPriorData, ec_pubkey = PublicKey [1], ec_sender = 0,
     ec_signing_key = PublicKey [1], ec_timestamp = 0, ec_height = 1\<rparr>"

lemma usurpers_take_over:
  "\<exists>c'. check_pending_proposals sample_env (usurping_ctx\<lparr>ec_fs := (ec_fs usurping_ctx)\<lparr>fs_admin := (fs_admin (ec_fs usurping_ctx))
     \<lparr>ap_proposals := om_insert 0 (p\<lparr>pp_approvals := om_insert (PublicKey [1]) sg (pp_approvals p)\<rparr>)
       (ap_proposals (fs_admin (ec_fs usurping_ctx)))\<rparr>\<rparr>\<rparr>) = Inr c' \<and> fs_validator_set (ec_fs c') = usurpers"
  if "ap_proposals (fs_admin (ec_fs usurping_ctx)) = [(0, p)]"
proof -
  have p: "p = \<lparr>pp_payload = ProposeNewSet \<lparr>tj_serialized = ''set'', tj_hash = [], tj_value = usurpers\<rparr>,
      pp_approvals = [(PublicKey [2], \<lparr>recid = 0, sig = Signature [2]\<rparr>)]\<rparr>"
    using that by (simp add: usurping_ctx_def)
  show ?thesis
    by (simp add: p usurping_ctx_def check_pending_proposals_def find_approved_proposal_def has_sufficient_approvals_def fulfills_groups_def
        fs_new_def sample_genesis_def sample_set_def om_contains_def less_public_key_def apply_proposal_def add_action_all_chains_def
        add_action_def log_event_def ctx_log_def sample_env_def chains_get_def om_of_list_def om_keys_def Let_def put_chain_def
        new_set_to_payload_def chain_name_of_def sample_encoders_def into_state_def clear_proposals_def)
qed

theorem upgrader_votes_for_other_kinds_witness:
  "\<exists>sg c'. run_single sample_agent ''v2'' 1 (at_state (ec_fs usurping_ctx), []) =
     t_send sample_agent 1 [MsgAdmin (AdminApprove 0 sg)] (at_state (ec_fs usurping_ctx), []) \<and>
     admin_approve sample_env 0 sg usurping_ctx = Inr c' \<and> fs_validator_set (ec_fs c') = usurpers"
proof -
  let ?c = usurping_ctx
  have E: "kx_env (px_node (ag_env sample_agent)) = sample_env" "px_public (ag_env sample_agent) 1 = PublicKey [1]"
    by (simp_all add: sample_agent_def sample_penv_simps) (simp add: sample_penv_def)
  obtain p where p: "ap_proposals (fs_admin (ec_fs ?c)) = [(0, p)]" "\<not> is_upgrade (pp_payload p)"
      "\<not> om_contains (pp_approvals p) (PublicKey [1])"
    by (simp add: usurping_ctx_def om_contains_def)
  have fs: "bs_fs (ag_state sample_agent (at_state (ec_fs ?c))) = ec_fs ?c" by simp
  have key: "ec_pubkey ?c = px_public (ag_env sample_agent) 1" by (simp add: E usurping_ctx_def)
  have v: "fs_version (ec_fs ?c) \<noteq> ''v2''" by (simp add: usurping_ctx_def fs_new_def sample_genesis_def)
  have val: "is_validator (fs_validator_set (ec_fs ?c)) (px_public (ag_env sample_agent) 1)"
    by (simp add: E usurping_ctx_def fs_new_def sample_genesis_def sample_set_def is_validator_def)
  have ps: "ap_proposals (fs_admin (ec_fs ?c)) = [] @ (0, p) # []" using p(1) by simp
  have wf: "om_wf (ap_proposals (fs_admin (ec_fs ?c)))" by (simp add: p(1) om_wf_Cons)
  have signs: "sign_recovers (e_recover (kx_env (px_node (ag_env sample_agent)))) (px_sign (ag_env sample_agent)) (px_public (ag_env sample_agent))"
    using sample_signs by (simp add: sample_agent_def sample_penv_simps)
  obtain sg where sg: "run_single sample_agent ''v2'' 1 (at_state (ec_fs ?c), []) =
      t_send sample_agent 1 [MsgAdmin (AdminApprove 0 sg)] (at_state (ec_fs ?c), [])"
    "admin_approve sample_env 0 sg ?c = check_pending_proposals sample_env (?c\<lparr>ec_fs := (ec_fs ?c)\<lparr>fs_admin := (fs_admin (ec_fs ?c))
       \<lparr>ap_proposals := om_insert 0 (p\<lparr>pp_approvals := om_insert (PublicKey [1]) sg (pp_approvals p)\<rparr>)
         (ap_proposals (fs_admin (ec_fs ?c)))\<rparr>\<rparr>\<rparr>)"
    using upgrader_votes_for_other_kinds [OF fs key v val ps wf _ p(2) _ signs, of "[]"] p(3) unfolding E by auto
  then show ?thesis using usurpers_take_over [OF p(1), of sg] by auto
qed

section \<open>Contracts nobody checked\<close>

text \<open>Where the check of a contract can be made: the clients connect, and the configuration fits the chain.\<close>

definition check_possible :: "('w, 'd) clients \<Rightarrow> external_chain \<Rightarrow> bridge_contract \<Rightarrow> 'w \<Rightarrow> bool" where
  "check_possible C chain bridge w \<longleftrightarrow> (\<forall>contract. bridge \<noteq> Deployed contract) \<and>
     (case chain_kind_of chain of
        KindCosmos c \<Rightarrow> cl_cosmos C c w = Inr () \<and> (\<exists>code_id. bridge = NeededCosmosBridge code_id)
      | KindSolana c \<Rightarrow> True
      | KindEthereum c \<Rightarrow> cl_eth C c w = Inr ()
      | KindPassThrough \<Rightarrow> False)"

lemma check_contract_ends:
  assumes "check_possible C chain bridge w"
  shows "\<exists>verdict. check_contract A C chain bridge contract (w, moves) = (Some (Inr verdict), w, moves)"
  using assms
  by (auto simp: check_possible_def check_contract_def Let_def t_query_def task_simps split: chain_kind.splits bridge_contract.splits)

text \<open>C39: a listener that waits for a bridge contract signs whatever address it finds in the mempool, from whomever: the check of
  the contract's code and validators is made, and its verdict is only logged.\<close>

theorem unchecked_contract_is_attested:
  assumes "om_get (fs_chains (bs_fs (ag_state A w))) chain = Some cs"
    and "get_next_bridge_event_id (bs_fs (ag_state A w)) (px_public (ag_env A) secret) chain = Inr 0"
    and "check_possible C chain (cc_bridge (cs_config cs)) w"
  shows "try_message A C secret (chain_name_of chain) (MsgListener chain 0 (Instantiated contract)) (w, moves) =
    t_send A secret [MsgListener chain 0 (Instantiated contract)] (w, moves)"
proof -
  obtain verdict where v: "check_contract A C chain (cc_bridge (cs_config cs)) contract (w, moves) = (Some (Inr verdict), w, moves)"
    using check_contract_ends [OF assms(3)] by blast
  have "try_new_contract A C secret chain contract (w, moves) =
      t_bind (check_contract A C chain (cc_bridge (cs_config cs)) contract)
        (\<lambda>_. t_send A secret [MsgListener chain 0 (Instantiated contract)]) (w, moves)"
    using assms by (cases "cc_bridge (cs_config cs)")
      (simp_all add: try_new_contract_def t_bind_def [of "t_get _"] t_bind_def [of "t_result _"] t_get_def t_result_def chains_get_def check_possible_def)
  then show ?thesis by (simp add: try_message_def t_bind_def v)
qed

section \<open>Bridges behind another bridge\<close>

text \<open>A submitter serves its bridges in order and looks at the first that has a pending action only: as long as that action is
  not approved, or is submitted and not yet confirmed, approved actions of the bridges after it are never submitted.\<close>

theorem first_bridge_blocks_the_others:
  assumes "get_next_genesis_action (bs_fs (ag_state A w)) = Inr None"
    and "\<forall>b \<in> set pre. get_next_bridge_action (bs_fs (ag_state A w)) b = Inr None"
    and "get_next_bridge_action (bs_fs (ag_state A w)) chain = Inr (Some (action_id, action))"
    and "pa_processor action = None \<or> (\<exists>last_id. sb_last_submitted (sn_state S w) chain = Some last_id \<and> action_id \<le> last_id)"
  shows "submit_zero_or_one A C S (pre @ chain # rest) (w, moves) = (Some (Inr ()), w, moves)"
proof -
  have handle: "handle_bridge_action A C S action_id chain action (w, moves) = (Some (Inr ()), w, moves)"
    using assms(4) by (auto simp: handle_bridge_action_def t_bind_def t_get_def t_return_def split: option.split)
  have "submit_first A C S (pre @ chain # rest) (w, moves) = (Some (Inr ()), w, moves)"
    using assms(2)
  proof (induction pre)
    case Nil
    then show ?case using assms(3) handle by (simp add: t_query_def t_bind_def t_get_def t_result_def)
  next
    case (Cons b pre)
    then show ?case by (simp add: t_query_def t_bind_def t_get_def t_result_def)
  qed
  then show ?thesis using assms(1) by (simp add: submit_zero_or_one_def t_query_def t_bind_def t_get_def t_result_def)
qed

section \<open>Instances\<close>

text \<open>Clients whose contracts answer with the validators of somebody else, and whose logs hold a few events.\<close>

definition sample_clients :: "(sample_world, int) clients" where
  "sample_clients = \<lparr>
     cl_cosmos = (\<lambda>_ _. Inr ()), cl_cosmos_address = (\<lambda>_. Inr ()), cl_cosmos_code_id = (\<lambda>_ _ _. Inr 7),
     cl_cosmos_config = (\<lambda>_ _ _. Inr \<lparr>ct_set = usurpers, ct_next_event_id = 0, ct_next_action_id = 0\<rparr>),
     cl_cosmos_event = (\<lambda>_ _ _ _. Inr None), cl_cosmos_of_json = (\<lambda>_. None),
     cl_sol_account = (\<lambda>_ _ _. Inl (failure ''account'')),
     cl_sol_signatures = (\<lambda>_ _ _. Inr [\<lparr>ss_failed = False, ss_signature = ''ccc''\<rparr>, \<lparr>ss_failed = True, ss_signature = ''x''\<rparr>,
       \<lparr>ss_failed = False, ss_signature = ''bb''\<rparr>, \<lparr>ss_failed = False, ss_signature = ''a''\<rparr>]),
     cl_sol_signature = (\<lambda>s. Inr (str_bytes s)),
     cl_sol_transaction = (\<lambda>_ sg _. Inr (Some (Some [''Program data: '' @ bytes_str sg, ''done'']))),
     cl_sol_pubsub = (\<lambda>_ _. Inr ()), cl_sol_subscribe = (\<lambda>_ _ w. (Inr (), w)), cl_sol_next = (\<lambda>w. (None, w)), cl_sol_unsubscribe = (\<lambda>w. w),
     cl_sol_of_borsh = (\<lambda>bs. Some (BridgeSigned (of_nat (length bs)) [] 0)), cl_sol_state_of_borsh = (\<lambda>_. None), cl_sol_show = bytes_str,
     cl_eth = (\<lambda>_ _. Inr ()), cl_eth_code = (\<lambda>_ _ _. Inr []), cl_eth_config = (\<lambda>_ _ _. Inl (failure ''config'')),
     cl_eth_block_number = (\<lambda>_ _. Inr 5),
     cl_eth_logs = (\<lambda>_ _ _ _. Inr (map (\<lambda>n. \<lparr>el_removed = (n = 7), el_block_number = Some 4, el_log_index = None, el_topics = [[]],
       el_data = replicate n 0\<rparr>) [3, 7, 4])),
     cl_eth_ws = (\<lambda>_ _ _. Inr ()), cl_eth_subscribe = (\<lambda>_ _ _ w. (Inr (), w)), cl_eth_next = (\<lambda>w. (None, w)), cl_eth_signature_hash = [],
     cl_eth_decode = (\<lambda>l. Some \<lparr>fr_event_id = of_nat (length (el_data l)), fr_sender = [], fr_tokens = [], fr_amounts = [], fr_keys = []\<rparr>),
     cl_public_key = (\<lambda>_. None), cl_instant = (\<lambda>_. 0), cl_pass_next = (\<lambda>w. (None, w))\<rparr>"

lemma sample_clients_simps:
  "cl_eth_signature_hash sample_clients = []"
  "cl_eth_decode sample_clients = (\<lambda>l. Some \<lparr>fr_event_id = of_nat (length (el_data l)), fr_sender = [], fr_tokens = [], fr_amounts = [], fr_keys = []\<rparr>)"
  by (simp_all add: sample_clients_def)

lemma no_accounts: "get_account_for_key (fs_accounts (fs_new sample_genesis)) key = (Inr None :: int kerr + _)"
  by (simp add: get_account_for_key_def fs_new_def default_accounts_def)


text \<open>Events 1 to 3; the listener has seen the first.\<close>

theorem solana_catch_up_complete_witness:
  "solana_catch_up sample_agent sample_clients 2 1 SolLocal [] (landed_at (fs_new sample_genesis), []) =
     (Some (Inr (Some 3)), landed_at (fs_new sample_genesis), [])"
proof -
  let ?w = "landed_at (fs_new sample_genesis)" and ?b64 = "e_b64_decode (kx_env (px_node (ag_env sample_agent)))"
  let ?found = "[Some (BridgeSigned 3 [] 0), None, Some (BridgeSigned 2 [] 0), Some (BridgeSigned 1 [] 0)]"
  obtain txs where txs: "cl_sol_signatures sample_clients SolLocal [] ?w = Inr txs"
      "rmap (transaction_message sample_clients ?b64 SolLocal ?w) txs = Inr ?found"
    by (simp add: sample_clients_def transaction_message_def extract_bridge_message_def starts_with_def program_data_log_def sample_agent_simps
        sample_penv_simps sample_env_def str_bytes_def bytes_str_def)
  have send: "t_send sample_agent 2 msgs (?w, []) = (Some (Inr ()), ?w, [])" for msgs
    by (rule sample_send) (rule no_accounts)
  show ?thesis
    using solana_catch_up_complete [OF txs, of 2 1 "[]"] send by (simp add: map_filter_simps t_bind_def t_return_def)
qed

definition contract_needed_fs :: "int framework_state" where
  "contract_needed_fs = fs_new (sample_genesis\<lparr>gi_chains := [(OsmosisLocal, \<lparr>cc_assets = [], cc_bridge = NeededCosmosBridge 7\<rparr>)]\<rparr>)"

text \<open>The contract has other validators than the chain; the listener reports it all the same.\<close>

theorem unchecked_contract_is_attested_witness:
  "cosmos_sanity_check sample_clients CosmosOsmosisLocal ''evil'' 7 sample_genesis (landed_at contract_needed_fs) = Inl (failure ''validator set'') \<and>
   try_message sample_agent sample_clients 2 NameCosmos (MsgListener OsmosisLocal 0 (Instantiated ''evil'')) (landed_at contract_needed_fs, []) =
     t_send sample_agent 2 [MsgListener OsmosisLocal 0 (Instantiated ''evil'')] (landed_at contract_needed_fs, [])"
proof -
  have fs: "bs_fs (ag_state sample_agent (landed_at contract_needed_fs)) = contract_needed_fs" by simp
  have cs: "om_get (fs_chains contract_needed_fs) OsmosisLocal = Some (into_state \<lparr>cc_assets = [], cc_bridge = NeededCosmosBridge 7\<rparr>)"
    by (simp add: contract_needed_fs_def fs_new_def om_of_list_def)
  have i: "get_next_bridge_event_id contract_needed_fs (px_public (ag_env sample_agent) 2) OsmosisLocal = Inr 0"
    by (simp add: get_next_bridge_event_id_def chains_get_def cs) (simp add: into_state_def)
  have possible: "check_possible sample_clients OsmosisLocal (cc_bridge (cs_config (into_state \<lparr>cc_assets = [], cc_bridge = NeededCosmosBridge 7\<rparr> ::
      int chain_state))) (landed_at contract_needed_fs)"
    by (simp add: check_possible_def into_state_def sample_clients_def)
  have "cosmos_sanity_check sample_clients CosmosOsmosisLocal ''evil'' 7 sample_genesis (landed_at contract_needed_fs) = Inl (failure ''validator set'')"
    by (simp add: cosmos_sanity_check_def same_set_def sample_clients_def sample_genesis_def sample_set_def usurpers_def)
  then show ?thesis
    using unchecked_contract_is_attested [of sample_agent "landed_at contract_needed_fs" OsmosisLocal, unfolded fs, OF cs i possible, of "''evil''" "[]"]
    by (simp add: chain_name_of_def)
qed

definition sample_senders :: "(sample_world, int, u8) senders" where
  "sample_senders = \<lparr>
     sn_cosmos_wallet = (\<lambda>_ s. Inr s), sn_cosmos_instantiate = (\<lambda>_ _ _ _ w. (Inr ''contract'', w)), sn_cosmos_own_admin = (\<lambda>_ _ _ w. (Inr (), w)),
     sn_cosmos_execute = (\<lambda>_ _ _ _ w. (Inr ''hash'', w)), sn_sol_blockhash = (\<lambda>_ _. Inr []), sn_sol_send = (\<lambda>_ _ _ _ w. (Inr ''hash'', w)),
     sn_eth_url = (\<lambda>_. Inr ()), sn_eth_deploy = (\<lambda>_ _ _ w. (Inr (Some []), w)), sn_eth_execute = (\<lambda>_ _ _ _ _ _ w. (Inr ''hash'', w)),
     sn_eth_bytecode = (\<lambda>_. Inr []), sn_eth_constructor = (\<lambda>_ _ _ _ _. []), sn_pass_post = (\<lambda>_ _ _ _ w. (Inr (), w)),
     sn_borsh = \<lparr>bo_init = (\<lambda>_. None), bo_regular = (\<lambda>_ _. None), bo_signed = (\<lambda>_. None), bo_payload = (\<lambda>_. None), bo_program_data = (\<lambda>k. k),
       bo_unit_price = (\<lambda>_. \<lparr>in_program_id = [], in_accounts = [], in_data = []\<rparr>)\<rparr>,
     sn_random = (\<lambda>_. 9), sn_state = (\<lambda>_. submitter_new (ArgsCosmos ''seed'')), sn_put = (\<lambda>_ w. w)\<rparr>"

definition two_bridges :: "int framework_state" where
  "two_bridges = put_chain NeutronTestnet ((into_state \<lparr>cc_assets = [], cc_bridge = Deployed ''n''\<rparr>)\<lparr>cs_pending_actions :=
       [(0, \<lparr>pa_payload = ''new'', pa_approvals = [], pa_processor = None\<rparr>)]\<rparr>)
     (put_chain OsmosisLocal ((into_state \<lparr>cc_assets = [], cc_bridge = Deployed ''o''\<rparr>)\<lparr>cs_pending_actions :=
       [(0, \<lparr>pa_payload = ''approved'', pa_approvals = [(PublicKey [3], \<lparr>recid = 0, sig = Signature [3]\<rparr>)],
             pa_processor = Some \<lparr>recid = 0, sig = Signature [1]\<rparr>\<rparr>)]\<rparr>) (fs_new sample_genesis))"

text \<open>An action waits for its approval on one bridge; the approved action on the other is not submitted.\<close>

theorem first_bridge_blocks_the_others_witness:
  "submit_zero_or_one sample_agent sample_clients sample_senders [NeutronTestnet, OsmosisLocal] (at_state two_bridges, []) =
     (Some (Inr ()), at_state two_bridges, []) \<and>
   (\<exists>action. get_next_bridge_action two_bridges OsmosisLocal = Inr (Some (0, action)) \<and> pa_processor action \<noteq> None)"
proof -
  have chains: "fs_chains two_bridges = [(NeutronTestnet, (into_state \<lparr>cc_assets = [], cc_bridge = Deployed ''n''\<rparr>)\<lparr>cs_pending_actions :=
       [(0, \<lparr>pa_payload = ''new'', pa_approvals = [], pa_processor = None\<rparr>)]\<rparr>),
     (OsmosisLocal, (into_state \<lparr>cc_assets = [], cc_bridge = Deployed ''o''\<rparr>)\<lparr>cs_pending_actions :=
       [(0, \<lparr>pa_payload = ''approved'', pa_approvals = [(PublicKey [3], \<lparr>recid = 0, sig = Signature [3]\<rparr>)],
             pa_processor = Some \<lparr>recid = 0, sig = Signature [1]\<rparr>\<rparr>)]\<rparr>)]"
    by (simp add: two_bridges_def put_chain_def fs_new_def sample_genesis_def om_of_list_def less_external_chain_def)
  have genesis: "get_next_genesis_action two_bridges = Inr None"
    by (simp add: get_next_genesis_action_def chains into_state_def)
  have due: "get_next_bridge_action two_bridges NeutronTestnet = Inr (Some (0, \<lparr>pa_payload = ''new'', pa_approvals = [], pa_processor = None\<rparr>))"
    by (simp add: get_next_bridge_action_def chains_get_def chains om_first_def)
  have other: "get_next_bridge_action two_bridges OsmosisLocal = Inr (Some (0, \<lparr>pa_payload = ''approved'',
      pa_approvals = [(PublicKey [3], \<lparr>recid = 0, sig = Signature [3]\<rparr>)], pa_processor = Some \<lparr>recid = 0, sig = Signature [1]\<rparr>\<rparr>))"
    by (simp add: get_next_bridge_action_def chains_get_def chains om_first_def)
  have fs: "bs_fs (ag_state sample_agent (at_state two_bridges)) = two_bridges" by simp
  show ?thesis
    using first_bridge_blocks_the_others [of sample_agent "at_state two_bridges", unfolded fs, OF genesis _ due, of "[]" sample_senders sample_clients
      "[OsmosisLocal]" "[]"] other
    by simp
qed

end
