(* ===== verification/Spec2Isabelle.thy ===== *)
theory Spec2Isabelle
  imports Bridge_Composition Processor_Props Sync_Props State_Codec Import_Props Agent_Props
begin

text \<open>
  Kolme (\<open>src/packages\<close>, \<open>src/contracts\<close>, \<open>src/solana\<close>) is a framework for application chains.  One
  processor executes signed transactions and makes a block of each; every other node executes the same
  block, or downloads the states it leads to, and so arrives at the same state.  Listeners report deposits
  on external chains, approvers sign what the bridge contracts on those chains shall do, and a bridge
  contract executes what a quorum of its own copy of the validator set signed.  States are Merkle maps,
  stored layer by layer under the hash of each layer.

  This development is a shallow embedding of that code and the theorems that make it correct.  Definitions
  keep the names of the functions they model.  Results are sums, \<open>Inl\<close> an error or a panic; an operation
  that changes state returns the state after it, also after an error; \<open>u8\<close> to \<open>u128\<close> are words of their
  width; a loop that might not end is a partial function into \<open>option\<close>, \<open>None\<close> for not returning, and it
  is proved to return where that is claimed.  Two recursions of the trie take fuel instead: insertion \<open>2 ^ 16\<close>, one
  unit for each depth that the code's \<open>u16\<close> can count, enough for keys of less than 32768 bytes; and reading a node the
  depth of the contents it reads, enough for every node they can hold.

  The parts, in the order in which they build on one another:

  \<^item> \<open>Kolme_Prelude\<close>, \<open>Ordered_Map\<close>: results, bytes, folds; the \<open>BTreeMap\<close> as a sorted list.
  \<^item> \<open>Kolme_Types\<close>, \<open>Validators\<close> (\<open>shared/src\<close>): keys, signatures, chains, validator sets.
  \<^item> \<open>Accounts\<close> (\<open>core/types/accounts.rs\<close>): balances, nonces, links to keys and wallets, with the invariant
    that the two indices and the accounts agree.
  \<^item> \<open>Bridge_State\<close>, \<open>Framework\<close>, \<open>Payload\<close> (\<open>core/types.rs\<close>, \<open>core/state.rs\<close>): tagged JSON, assets, pending
    events and actions, messages, proposals, and the payload that is signed for each kind of chain.
  \<^item> \<open>Execution\<close> (\<open>core/execute.rs\<close>): \<open>execute_transaction\<close> and all handlers.  \<open>Protocol\<close> states abstractly who
    may cause which change; \<open>Execution_Props\<close> proves that execution refines it, keeps the invariant of the
    framework state, and what each handler accepts.  \<open>Replay\<close>: a transaction executes again, with the same
    result, from the loads it recorded.
  \<^item> \<open>Merkle_Codec\<close> (\<open>merkle-map\<close>: serializer, deserializer): encodings, round trips, hashes that commit.
  \<^item> \<open>Merkle_Map\<close>, \<open>Merkle_Iter\<close>, \<open>Merkle_Keys\<close>, \<open>Merkle_Map_Codec\<close> (\<open>merkle-map/src/impls\<close>): the base-16 trie,
    its iterators, keys and layers; \<open>Merkle_Map_Props\<close>: it refines the ordered map and does not depend on history.
  \<^item> \<open>Merkle_Store\<close>, \<open>Block_Store\<close>, \<open>Chain_Store\<close> (\<open>api.rs\<close>, \<open>kolme-store\<close>, \<open>core/kolme/store.rs\<close>): saving and
    loading layers, the in-memory and the Fjall database, the block cache.  Locales state what a backend, a
    block database and a node's store promise; both databases are shown to keep the promises.
  \<^item> \<open>Blocks\<close>, \<open>Mempool\<close>, \<open>Chain\<close> (\<open>core/kolme.rs\<close>, \<open>block_info.rs\<close>, \<open>mempool.rs\<close>): a node: loading, adding and
    following blocks.  \<open>Chain_Props\<close>, \<open>Chain_Load\<close> and \<open>Node_Props\<close>: what a node accepts, that it resumes after a
    restart, and that two nodes with the same tip agree on everything.
  \<^item> \<open>Processor\<close> (\<open>processor.rs\<close>), \<open>Processor_Props\<close>: it settles every transaction it takes, with blocks that other
    nodes accept, and approves bridge actions in order.
  \<^item> \<open>Sync_Manager\<close> (\<open>gossip.rs\<close>, \<open>gossip/sync_manager.rs\<close>): what a node asks its peers for, and what it does with
    each message.  \<open>Sync_Props\<close>: the download of a block's states brings exactly what is missing and ends, and the
    ways it can stop or be led astray.
  \<^item> \<open>State_Codec\<close> (\<open>core/state.rs\<close>, \<open>core/types.rs\<close>, \<open>core/types/accounts.rs\<close>): the stored form of the framework state,
    with its round trip and the hash that commits to it.
  \<^item> \<open>Import_Export\<close> (\<open>core/kolme/import_export.rs\<close>, \<open>ingest_blocks_from\<close>): a range of blocks with the layers of their
    states as a file, reading such a file, and copying from another store.  \<open>Import_Props\<close>: importing what was exported
    stores the exported blocks and their states.
  \<^item> \<open>Submission\<close> (\<open>core/kolme.rs\<close>): proposing a transaction and awaiting it.  A task that waits takes the list of moves the
    rest of the system makes meanwhile, one for each wait.  \<open>Agents\<close> (\<open>approver.rs\<close>, \<open>upgrader.rs\<close>), \<open>Listeners\<close>,
    \<open>Ethereum_Listener\<close> (\<open>listener\<close>, \<open>pass_through.rs\<close>), \<open>Submitters\<close> (\<open>submitter\<close>, the Solana bridge client): the agents
    between the chain and its bridges.  \<open>Agent_Props\<close>: their votes and reports are accepted, events are reported in order,
    and what they do without looking.
  \<^item> \<open>Cosmos_Contract\<close> (\<open>contracts/cosmos\<close>), \<open>Solana_Program\<close> (\<open>solana/crates\<close>): the bridges.  \<open>Bridge_Contracts\<close>
    is the abstract bridge; \<open>Bridge_Props\<close> shows that both implement it, and \<open>Bridge_Composition\<close> how chain and
    bridge change their validator sets together, and where they do not.

  Parameters, with what is relied on as named hypotheses: decimal arithmetic (\<open>decimal_laws\<close>), signature
  recovery (\<open>sign_recovers\<close>), SHA-256 (\<open>content_world\<close>: injective on the contents that occur), JSON, base64,
  borsh and ABI printing and parsing, the LRU cache (locale \<open>lru\<close>, with an instance), the application, the CosmWasm
  and Solana runtimes, the clients of the external chains, the clock and all times.

  Not modelled: logging; metrics; the async runtime, locks and subscriptions (operations run one after the
  other, or as moves between the waits of a task); I/O errors of the databases; the Postgres store (SQL); the HTTP
  API; websocket transport; the test server of the pass-through bridge; command lines, benchmarks and tests; the
  example applications.
\<close>

end
